(* ===== verification/Rpc_Prelude.thy ===== *)
theory Rpc_Prelude
  imports Main "HOL-Library.Word" "HOL-Library.Multiset" "HOL-Library.Char_ord"
    "HOL-Library.List_Lexorder" "HOL-Library.AList"
begin

text \<open>
  The vocabulary the components share: the machine integers and byte strings of the C++ code,
  the named collections of simplification rules, generic lemmas on lists, and the contract of a
  step relation with an invariant, which every component with interleaved operations interprets.
\<close>

subsection \<open>Types\<close>

type_synonym byte = "8 word"
type_synonym bytes = "byte list"
type_synonym u16 = "16 word"
type_synonym u32 = "32 word"
type_synonym u64 = "64 word"

text \<open>
  Signed integers are the two's complement reading (\<open>sint\<close>) of a word of their width.
\<close>

type_synonym i32 = "32 word"
type_synonym i64 = "64 word"

named_theorems wire_simps "encoders and decoders of the wire format"
named_theorems room_simps "operations of rooms and of the room manager"
named_theorems queue_simps "operations of queues and windows"

subsection \<open>std::string and std::vector<uint8_t>\<close>

text \<open>
  A \<open>std::string\<close> is a list of 8-bit characters. \<open>reinterpret_cast\<close> between
  \<open>const char*\<close> and \<open>const uint8_t*\<close> reads the same bytes.
\<close>

definition bytes_of_string :: "string \<Rightarrow> bytes" where
  "bytes_of_string = map (\<lambda>c. word_of_nat (of_char c))"

definition string_of_bytes :: "bytes \<Rightarrow> string" where
  "string_of_bytes = map (\<lambda>b. char_of (unat b))"

lemma length_bytes_of_string [simp]: "length (bytes_of_string s) = length s"
  by (simp add: bytes_of_string_def)

lemma length_string_of_bytes [simp]: "length (string_of_bytes bs) = length bs"
  by (simp add: string_of_bytes_def)

lemma bytes_of_string_append [simp]:
  "bytes_of_string (s @ t) = bytes_of_string s @ bytes_of_string t"
  by (simp add: bytes_of_string_def)

lemma of_char_less_256: "(of_char c :: nat) < 256"
proof -
  have "of_char c mod 256 = (of_char c :: nat)"
    using of_char_of [of "of_char c :: nat"] by simp
  then show ?thesis by (metis mod_less_divisor zero_less_numeral)
qed

lemma char_of_byte_of_char [simp]: "char_of (unat (word_of_nat (of_char c) :: byte)) = c"
  using of_char_less_256 [of c] by (simp add: unat_of_nat)

lemma unat_byte_mod [simp]: "unat (b :: byte) mod 256 = unat b"
proof -
  have "unat b < 2 ^ LENGTH(8)" by (rule unsigned_less)
  then show ?thesis by simp
qed

lemma byte_of_char_of_byte [simp]: "word_of_nat (of_char (char_of (unat b))) = (b :: byte)"
  by simp

lemma string_of_bytes_of_string [simp]: "string_of_bytes (bytes_of_string s) = s"
  by (simp add: string_of_bytes_def bytes_of_string_def o_def)

lemma bytes_of_string_of_bytes [simp]: "bytes_of_string (string_of_bytes bs) = bs"
  by (simp add: string_of_bytes_def bytes_of_string_def o_def)

subsection \<open>Lists\<close>

lemma take_append_exact [simp]: "length xs = n \<Longrightarrow> take n (xs @ ys) = xs"
  by simp

lemma drop_append_exact [simp]: "length xs = n \<Longrightarrow> drop n (xs @ ys) = ys"
  by simp

subsection \<open>Association lists\<close>

text \<open>Hash maps whose elements all satisfy a property that may mention the key.\<close>

definition entries_ok :: "('k \<Rightarrow> 'v \<Rightarrow> bool) \<Rightarrow> ('k \<times> 'v) list \<Rightarrow> bool" where
  "entries_ok P xs \<longleftrightarrow> distinct (map fst xs) \<and> (\<forall>(k, v) \<in> set xs. P k v)"

lemma entries_okD: "entries_ok P xs \<Longrightarrow> map_of xs k = Some v \<Longrightarrow> P k v"
  by (auto simp: entries_ok_def dest: map_of_SomeD)

lemma entries_ok_Nil [simp]: "entries_ok P []"
  by (simp add: entries_ok_def)

lemma set_alist_update: "set (AList.update k v xs) \<subseteq> insert (k, v) (set xs)"
  by (induction xs) auto

lemma entries_ok_update: "entries_ok P xs \<Longrightarrow> P k v \<Longrightarrow> entries_ok P (AList.update k v xs)"
  using set_alist_update [of k v xs] by (auto simp: entries_ok_def distinct_update)

lemma entries_ok_delete: "entries_ok P xs \<Longrightarrow> entries_ok P (AList.delete k xs)"
  by (auto simp: entries_ok_def distinct_delete) (auto simp: AList.delete_eq)

lemma sum_alist_update:
  "distinct (map fst xs) \<Longrightarrow> map_of xs k = Some v \<Longrightarrow>
     sum_list (map (\<lambda>(_, x). f x) (AList.update k v' xs)) = sum_list (map (\<lambda>(_, x). f x) xs) - f v + (f v' :: int)"
  by (induction xs) auto

subsection \<open>Decimal numbers\<close>

text \<open>\<open>std::to_string\<close> of a natural number and of an integer.\<close>

fun dec :: "nat \<Rightarrow> string" where
  "dec n = (if n < 10 then [char_of (48 + n)] else dec (n div 10) @ [char_of (48 + n mod 10)])"

declare dec.simps [simp del]

fun int_dec :: "int \<Rightarrow> string" where
  "int_dec k = (if k < 0 then CHR ''-'' # dec (nat (- k)) else dec (nat k))"

declare int_dec.simps [simp del]

text \<open>Reading the digits back, so different numbers have different digits.\<close>

definition undec :: "string \<Rightarrow> nat" where
  "undec s = foldl (\<lambda>n c. 10 * n + (of_char c - 48)) 0 s"

lemma of_char_digit: "d < 10 \<Longrightarrow> of_char (char_of (48 + d :: nat)) = (48 + d :: nat)"
  by simp

lemma undec_dec: "undec (dec n) = n"
proof (induction n rule: dec.induct)
  case (1 n)
  show ?case
  proof (cases "n < 10")
    case True
    then show ?thesis by (simp add: dec.simps [of n] undec_def)
  next
    case False
    have "n mod 10 < 10" by simp
    from of_char_digit [OF this] have "undec (dec n) = 10 * undec (dec (n div 10)) + n mod 10"
      using False by (simp add: dec.simps [of n] undec_def)
    with 1 False show ?thesis by simp
  qed
qed

lemma undec_zeros: "undec (replicate k CHR ''0'' @ s) = undec s"
  by (induction k) (simp_all add: undec_def)

lemma dec_inj [simp]: "dec m = dec n \<longleftrightarrow> m = n"
  by (metis undec_dec)

lemma dec_digits: "c \<in> set (dec n) \<Longrightarrow> 48 \<le> (of_char c :: nat) \<and> (of_char c :: nat) < 58"
proof (induction n rule: dec.induct)
  case (1 n)
  have d: "48 \<le> (of_char (char_of (48 + d)) :: nat) \<and> (of_char (char_of (48 + d)) :: nat) < 58" if "d < 10" for d :: nat
    using of_char_digit [OF that] that by simp
  have m: "n mod 10 < 10" by simp
  show ?case
  proof (cases "n < 10")
    case True
    with 1(2) d [of n] show ?thesis by (simp add: dec.simps [of n])
  next
    case False
    then have "c \<in> set (dec (n div 10)) \<or> c = char_of (48 + n mod 10)"
      using 1(2) dec.simps [of n] by auto
    then show ?thesis using 1(1) [OF False] d [OF m] by blast
  qed
qed

lemma dec_chars: "CHR ''-'' \<notin> set (dec n)" "CHR '':'' \<notin> set (dec n)" "dec n \<noteq> []"
  using dec_digits [of "CHR ''-''" n] dec_digits [of "CHR '':''" n]
  by (auto simp: dec.simps [of n])

lemma int_dec_inj [simp]: "int_dec i = int_dec j \<longleftrightarrow> i = j"
proof
  assume e: "int_dec i = int_dec j"
  have m: "dec k \<noteq> CHR ''-'' # xs" for k xs using dec_chars(1) [of k] by auto
  show "i = j"
    using e m [of "nat i" "dec (nat (- j))"] m [of "nat j" "dec (nat (- i))"]
    by (auto simp: int_dec.simps split: if_splits)
qed simp

lemma int_dec_colon: "CHR '':'' \<notin> set (int_dec k)"
  using dec_chars(2) by (simp add: int_dec.simps)

subsection \<open>Step relations with an invariant\<close>

text \<open>
  Several components are driven by events whose order the environment chooses: worker threads,
  socket readiness, protocol requests. Each is a step relation, and what the code keeps true
  between steps is an invariant. The contract says the initial states satisfy it and every step
  keeps it; then it holds in every state a run can reach.
\<close>

locale step_invariant =
  fixes init :: "'s \<Rightarrow> bool"
    and step :: "'s \<Rightarrow> 's \<Rightarrow> bool"
    and inv :: "'s \<Rightarrow> bool"
  assumes init_inv: "init s \<Longrightarrow> inv s"
    and step_inv: "step s t \<Longrightarrow> inv s \<Longrightarrow> inv t"
begin

lemma run_inv: "step\<^sup>*\<^sup>* s t \<Longrightarrow> inv s \<Longrightarrow> inv t"
  by (induction rule: rtranclp_induct) (auto intro: step_inv)

lemma reachable_inv: "init s \<Longrightarrow> step\<^sup>*\<^sup>* s t \<Longrightarrow> inv t"
  by (blast intro: run_inv init_inv)

end

text \<open>
  Forward simulation: every step of an implementation is matched by steps of its specification, so
  every run of the implementation is related to a run of the specification.
\<close>

locale simulation =
  fixes init :: "'s \<Rightarrow> bool"
    and step :: "'s \<Rightarrow> 's \<Rightarrow> bool"
    and spec_init :: "'a \<Rightarrow> bool"
    and spec_step :: "'a \<Rightarrow> 'a \<Rightarrow> bool"
    and rel :: "'s \<Rightarrow> 'a \<Rightarrow> bool"
  assumes sim_init: "init s \<Longrightarrow> \<exists>a. spec_init a \<and> rel s a"
    and sim_step: "rel s a \<Longrightarrow> step s t \<Longrightarrow> \<exists>b. spec_step\<^sup>*\<^sup>* a b \<and> rel t b"
begin

lemma sim_run: "step\<^sup>*\<^sup>* s t \<Longrightarrow> rel s a \<Longrightarrow> \<exists>b. spec_step\<^sup>*\<^sup>* a b \<and> rel t b"
proof (induction rule: rtranclp_induct)
  case base
  then show ?case by blast
next
  case (step t u)
  then obtain b where b: "spec_step\<^sup>*\<^sup>* a b" "rel t b" by blast
  from sim_step [OF b(2) step.hyps(2)] obtain c where c: "spec_step\<^sup>*\<^sup>* b c" "rel u c" by blast
  from b(1) c(1) have "spec_step\<^sup>*\<^sup>* a c" by (rule rtranclp_trans)
  with c(2) show ?case by blast
qed

lemma refines:
  assumes "init s" and "step\<^sup>*\<^sup>* s t"
  obtains a b where "spec_init a" "spec_step\<^sup>*\<^sup>* a b" "rel t b"
  using sim_init [OF assms(1)] sim_run [OF assms(2)] by blast

end

end
