(* ===== verification/Byte_Order.thy ===== *)
theory Byte_Order
  imports Rpc_Prelude
begin

unbundle bit_operations_syntax

text \<open>
  \<open>include/rpc/common.h\<close>: the byte-order conversions, written with masks and shifts as the
  code writes them, and the \<open>memcpy\<close> / \<open>reinterpret_cast\<close> accesses around them, which
  read and write the in-memory representation of an integer on the little-endian hosts the header
  names. The lemmas say that a conversion followed by a store is the big-endian encoding of the
  wire format and that a load followed by the inverse conversion reads it back.
\<close>

subsection \<open>Conversions\<close>

definition HostToNetwork16 :: "u16 \<Rightarrow> u16" where
  "HostToNetwork16 h = push_bit 8 (h AND 0x00FF) OR drop_bit 8 (h AND 0xFF00)"

definition NetworkToHost16 :: "u16 \<Rightarrow> u16" where
  "NetworkToHost16 n = HostToNetwork16 n"

definition HostToNetwork32 :: "u32 \<Rightarrow> u32" where
  "HostToNetwork32 h =
     push_bit 24 (h AND 0x000000FF) OR
     push_bit 8 (h AND 0x0000FF00) OR drop_bit 8 (h AND 0x00FF0000) OR
     drop_bit 24 (h AND 0xFF000000)"

definition NetworkToHost32 :: "u32 \<Rightarrow> u32" where
  "NetworkToHost32 n = HostToNetwork32 n"

definition HostToNetwork64 :: "u64 \<Rightarrow> u64" where
  "HostToNetwork64 h =
     push_bit 56 (h AND 0x00000000000000FF) OR push_bit 40 (h AND 0x000000000000FF00) OR
     push_bit 24 (h AND 0x0000000000FF0000) OR push_bit 8 (h AND 0x00000000FF000000) OR
     drop_bit 8 (h AND 0x000000FF00000000) OR drop_bit 24 (h AND 0x0000FF0000000000) OR
     drop_bit 40 (h AND 0x00FF000000000000) OR drop_bit 56 (h AND 0xFF00000000000000)"

definition NetworkToHost64 :: "u64 \<Rightarrow> u64" where
  "NetworkToHost64 n = HostToNetwork64 n"

subsection \<open>Object representation on a little-endian host\<close>

text \<open>
  \<open>store_le n w\<close> is the \<open>n\<close> bytes of the object \<open>w\<close> in address order, and
  \<open>load_le\<close> the object made of the bytes copied over it.
\<close>

definition store_le :: "nat \<Rightarrow> 'a::len word \<Rightarrow> bytes" where
  "store_le n w = map (\<lambda>i. ucast (drop_bit (8 * i) w)) [0..<n]"

fun load_le :: "bytes \<Rightarrow> 'a::len word" where
  "load_le [] = 0"
| "load_le (b # bs) = ucast b OR push_bit 8 (load_le bs)"

text \<open>The big-endian bytes of an integer, the byte order of the wire.\<close>

definition be_bytes :: "nat \<Rightarrow> 'a::len word \<Rightarrow> bytes" where
  "be_bytes n w = rev (store_le n w)"

lemma length_store_le [simp]: "length (store_le n w) = n"
  by (simp add: store_le_def)

lemma length_be_bytes [simp]: "length (be_bytes n w) = n"
  by (simp add: be_bytes_def)

subsection \<open>The conversions reverse the bytes\<close>

lemmas swap_defs = HostToNetwork16_def HostToNetwork32_def HostToNetwork64_def
  NetworkToHost16_def NetworkToHost32_def NetworkToHost64_def

lemma store_le_2: "store_le 2 w = [ucast w, ucast (drop_bit 8 w)]"
  by (simp add: store_le_def numeral_2_eq_2)

lemma store_le_4: "store_le 4 w =
    [ucast w, ucast (drop_bit 8 w), ucast (drop_bit 16 w), ucast (drop_bit 24 w)]"
  by (simp add: store_le_def upt_rec)

lemma store_le_8: "store_le 8 w =
    [ucast w, ucast (drop_bit 8 w), ucast (drop_bit 16 w), ucast (drop_bit 24 w),
     ucast (drop_bit 32 w), ucast (drop_bit 40 w), ucast (drop_bit 48 w), ucast (drop_bit 56 w)]"
  by (simp add: store_le_def upt_rec)

text \<open>The masks of the code, as runs of eight one bits.\<close>

lemma byte_masks:
  "(0x00FF :: u16) = mask 8" "(0xFF00 :: u16) = push_bit 8 (mask 8)"
  "(0x000000FF :: u32) = mask 8" "(0x0000FF00 :: u32) = push_bit 8 (mask 8)"
  "(0x00FF0000 :: u32) = push_bit 16 (mask 8)" "(0xFF000000 :: u32) = push_bit 24 (mask 8)"
  "(0x00000000000000FF :: u64) = mask 8" "(0x000000000000FF00 :: u64) = push_bit 8 (mask 8)"
  "(0x0000000000FF0000 :: u64) = push_bit 16 (mask 8)"
  "(0x00000000FF000000 :: u64) = push_bit 24 (mask 8)"
  "(0x000000FF00000000 :: u64) = push_bit 32 (mask 8)"
  "(0x0000FF0000000000 :: u64) = push_bit 40 (mask 8)"
  "(0x00FF000000000000 :: u64) = push_bit 48 (mask 8)"
  "(0xFF00000000000000 :: u64) = push_bit 56 (mask 8)"
  by (simp_all add: mask_eq_exp_minus_1 push_bit_eq_mult)

lemma byte_eqI: "(\<And>n. n < 8 \<Longrightarrow> bit a n = bit b n) \<Longrightarrow> a = (b :: byte)"
  by (rule bit_word_eqI) simp

lemma store_HostToNetwork16: "store_le 2 (HostToNetwork16 w) = be_bytes 2 w"
  by (simp add: be_bytes_def store_le_2 swap_defs byte_masks)
    (intro conjI byte_eqI; auto simp: bit_simps)

lemma store_HostToNetwork32: "store_le 4 (HostToNetwork32 w) = be_bytes 4 w"
  by (simp add: be_bytes_def store_le_4 swap_defs byte_masks)
    (intro conjI byte_eqI; auto simp: bit_simps)

lemma store_HostToNetwork64: "store_le 8 (HostToNetwork64 w) = be_bytes 8 w"
  by (simp add: be_bytes_def store_le_8 swap_defs byte_masks)
    (intro conjI byte_eqI; auto simp: bit_simps)

subsection \<open>Loading what was stored\<close>

lemma bit_load_le:
  "bit (load_le bs :: 'a::len word) k \<longleftrightarrow>
     k < LENGTH('a) \<and> k div 8 < length bs \<and> bit (bs ! (k div 8)) (k mod 8)"
proof (induction bs arbitrary: k)
  case Nil
  then show ?case by simp
next
  case (Cons b bs)
  show ?case
  proof (cases "k < 8")
    case True
    then show ?thesis by (auto simp: bit_simps)
  next
    case False
    then have k: "k div 8 = Suc ((k - 8) div 8)" "(k - 8) mod 8 = k mod 8"
      by (simp_all add: le_div_geq le_mod_geq)
    have "\<not> bit b k"
    proof
      assume "bit b k"
      then have "k < LENGTH(8)" by (rule bit_imp_le_length)
      with False show False by simp
    qed
    then have "bit (load_le (b # bs) :: 'a word) k \<longleftrightarrow>
        k < LENGTH('a) \<and> bit (load_le bs :: 'a word) (k - 8)"
      using False by (auto simp: bit_simps)
    also have "\<dots> \<longleftrightarrow> k < LENGTH('a) \<and> (k - 8) div 8 < length bs \<and> bit (bs ! ((k - 8) div 8)) (k mod 8)"
      using False k by (auto simp: Cons.IH)
    finally show ?thesis using k by simp
  qed
qed

lemma load_store_le:
  assumes "LENGTH('a) \<le> 8 * n"
  shows "load_le (store_le n w) = (w :: 'a::len word)"
proof (rule bit_word_eqI)
  fix k assume k: "k < LENGTH('a)"
  with assms have "k div 8 < n" by simp
  with k show "bit (load_le (store_le n w) :: 'a word) k = bit w k"
    by (simp add: bit_load_le) (simp add: store_le_def bit_simps)
qed

lemma store_load_le:
  assumes "8 * length bs \<le> LENGTH('a)" and "n = length bs"
  shows "store_le n (load_le bs :: 'a::len word) = bs"
proof (rule nth_equalityI)
  fix i assume "i < length (store_le n (load_le bs :: 'a word))"
  then have i: "i < length bs" using assms by simp
  show "store_le n (load_le bs :: 'a word) ! i = bs ! i"
  proof (rule byte_eqI)
    fix k :: nat assume k: "k < 8"
    have "(k + 8 * i) div 8 = i" "(k + 8 * i) mod 8 = k" "k + 8 * i < LENGTH('a)"
      using k i assms by auto
    with i k assms show "bit (store_le n (load_le bs :: 'a word) ! i) k = bit (bs ! i) k"
      by (simp add: store_le_def bit_simps bit_load_le add.commute)
  qed
qed (use assms in simp)

subsection \<open>The contract of a wire integer\<close>

text \<open>
  What an encoder or decoder relies on when it moves an integer of \<open>width\<close> bytes through the
  wire: the conversion before the store gives the big-endian bytes. From this law alone the
  encoding reads back, is injective, and every \<open>width\<close> bytes are the encoding of what they
  load to.
\<close>

locale wire_int =
  fixes width :: nat
    and to_net :: "'a::len word \<Rightarrow> 'a word"
    and from_net :: "'a::len word \<Rightarrow> 'a word"
  assumes width: "8 * width = LENGTH('a)"
    and store_to_net: "store_le width (to_net w) = be_bytes width w"
    and from_net: "from_net w = to_net w"
begin

lemma store_inj: "store_le width v = store_le width w \<Longrightarrow> v = (w :: 'a word)"
  by (metis load_store_le width order_refl)

lemma to_net_involution: "to_net (to_net w) = w"
  by (rule store_inj) (simp add: store_to_net be_bytes_def)

lemma load_be: "from_net (load_le (be_bytes width w)) = w"
  by (metis from_net load_store_le order_refl store_to_net to_net_involution width)

lemma be_load: "length bs = width \<Longrightarrow> be_bytes width (from_net (load_le bs)) = bs"
  by (metis be_bytes_def from_net order_refl rev_rev_ident store_load_le store_to_net width)

lemma be_inj: "be_bytes width v = be_bytes width w \<Longrightarrow> v = (w :: 'a word)"
  by (metis load_be)

end

interpretation w16: wire_int 2 HostToNetwork16 NetworkToHost16
  by unfold_locales (simp_all add: store_HostToNetwork16 NetworkToHost16_def)

interpretation w32: wire_int 4 HostToNetwork32 NetworkToHost32
  by unfold_locales (simp_all add: store_HostToNetwork32 NetworkToHost32_def)

interpretation w64: wire_int 8 HostToNetwork64 NetworkToHost64
  by unfold_locales (simp_all add: store_HostToNetwork64 NetworkToHost64_def)

lemmas store_net [wire_simps] = w16.store_to_net w32.store_to_net w64.store_to_net
lemmas load_net [wire_simps] = w16.load_be w32.load_be w64.load_be
lemmas net_load [wire_simps] = w16.be_load w32.be_load w64.be_load

end
