(* ===== verification/Frame_Protocol.thy ===== *)
theory Frame_Protocol
  imports Byte_Order
begin

text \<open>
  \<open>include/rpc/protocol.h\<close> and \<open>src/protocol.cpp\<close>: the frame codec. \<open>Encode\<close>
  concatenates the fields of the 13-byte header, the method name and the body; \<open>Decode\<close> checks
  them one after the other and returns nothing at the first violation. The lemmas show that the
  two are inverse on every frame the format can hold, that every accepted byte string is the
  encoding of what it decodes to, and what becomes of a frame the format cannot hold.
\<close>

subsection \<open>Data\<close>

datatype message_type = Request | Response | Error

fun message_type_byte :: "message_type \<Rightarrow> byte" where
  "message_type_byte Request = 0x01"
| "message_type_byte Response = 0x02"
| "message_type_byte Error = 0x03"

definition kProtocolMagic :: u16 where "kProtocolMagic = 0xBABE"
definition kFrameHeaderSize :: nat where "kFrameHeaderSize = 13"
definition kMaxFrameSize :: nat where "kMaxFrameSize = 10 * 1024 * 1024"

lemmas frame_consts = kProtocolMagic_def kFrameHeaderSize_def kMaxFrameSize_def

record frame =
  request_id :: u32
  msg_type :: message_type
  method_name :: string
  body :: bytes

subsection \<open>Encode\<close>

text \<open>
  \<open>total_len\<close> is a \<open>uint32_t\<close> and \<open>mname_len\<close> a \<open>uint16_t\<close>: both
  keep the low bits of a \<open>size_t\<close> sum or length.
\<close>

definition Encode :: "u32 \<Rightarrow> message_type \<Rightarrow> string \<Rightarrow> bytes \<Rightarrow> bytes" where
  "Encode rid mt mname bdy =
     (let total_len = (word_of_nat (kFrameHeaderSize + length mname + length bdy) :: u32);
          mname_len = (word_of_nat (length mname) :: u16)
      in store_le 2 (HostToNetwork16 kProtocolMagic) @
         store_le 4 (HostToNetwork32 total_len) @
         store_le 4 (HostToNetwork32 rid) @
         [message_type_byte mt] @
         store_le 2 (HostToNetwork16 mname_len) @
         bytes_of_string mname @
         bdy)"

definition encode_frame :: "frame \<Rightarrow> bytes" where
  "encode_frame f = Encode (request_id f) (msg_type f) (method_name f) (body f)"

subsection \<open>Decode\<close>

definition message_type_of_byte :: "byte \<Rightarrow> message_type option" where
  "message_type_of_byte b =
     (if b \<noteq> message_type_byte Request \<and> b \<noteq> message_type_byte Response \<and>
         b \<noteq> message_type_byte Error then None
      else if b = message_type_byte Request then Some Request
      else if b = message_type_byte Response then Some Response
      else Some Error)"

definition read_u16 :: "bytes \<Rightarrow> nat \<Rightarrow> u16" where
  "read_u16 raw pos = NetworkToHost16 (load_le (take 2 (drop pos raw)))"

definition read_u32 :: "bytes \<Rightarrow> nat \<Rightarrow> u32" where
  "read_u32 raw pos = NetworkToHost32 (load_le (take 4 (drop pos raw)))"

definition Decode :: "bytes \<Rightarrow> frame option" where
  "Decode raw =
     (if length raw < kFrameHeaderSize then None
      else if read_u16 raw 0 \<noteq> kProtocolMagic then None
      else
        let total_len = read_u32 raw 2 in
        if unat total_len < kFrameHeaderSize \<or> kMaxFrameSize < unat total_len then None
        else if unat total_len \<noteq> length raw then None
        else
          let rid = read_u32 raw 6 in
          case message_type_of_byte (raw ! 10) of
            None \<Rightarrow> None
          | Some mt \<Rightarrow>
              let mname_len = unat (read_u16 raw 11) in
              if length raw - 13 < mname_len then None
              else Some \<lparr>request_id = rid, msg_type = mt,
                     method_name = string_of_bytes (take mname_len (drop 13 raw)),
                     body = drop (13 + mname_len) raw\<rparr>)"

subsection \<open>Fields of an encoded frame\<close>

lemma message_type_round [simp]: "message_type_of_byte (message_type_byte mt) = Some mt"
  by (cases mt) (simp_all add: message_type_of_byte_def)

lemma message_type_of_byteD: "message_type_of_byte b = Some mt \<Longrightarrow> message_type_byte mt = b"
  by (auto simp: message_type_of_byte_def split: if_splits)

text \<open>The header as the wire sees it: five big-endian fields.\<close>

definition header :: "u32 \<Rightarrow> u32 \<Rightarrow> message_type \<Rightarrow> u16 \<Rightarrow> bytes" where
  "header tot rid mt mlen =
     be_bytes 2 kProtocolMagic @ be_bytes 4 tot @ be_bytes 4 rid @ [message_type_byte mt] @
     be_bytes 2 mlen"

lemma length_header [simp]: "length (header tot rid mt mlen) = 13"
  by (simp add: header_def)

lemma Encode_header:
  "Encode rid mt mname bdy =
     header (word_of_nat (13 + length mname + length bdy)) rid mt (word_of_nat (length mname)) @
     bytes_of_string mname @ bdy"
  by (simp add: Encode_def header_def wire_simps frame_consts Let_def)

lemma length_Encode [simp]: "length (Encode rid mt mname bdy) = 13 + length mname + length bdy"
  by (simp add: Encode_header)

lemma header_fields:
  "read_u16 (header tot rid mt mlen @ rest) 0 = kProtocolMagic"
  "read_u32 (header tot rid mt mlen @ rest) 2 = tot"
  "read_u32 (header tot rid mt mlen @ rest) 6 = rid"
  "(header tot rid mt mlen @ rest) ! 10 = message_type_byte mt"
  "read_u16 (header tot rid mt mlen @ rest) 11 = mlen"
  by (simp_all add: header_def read_u16_def read_u32_def wire_simps nth_append)

lemma header_of_bytes:
  assumes "13 \<le> length raw" and "read_u16 raw 0 = kProtocolMagic"
    and "message_type_of_byte (raw ! 10) = Some mt"
  shows "raw = header (read_u32 raw 2) (read_u32 raw 6) mt (read_u16 raw 11) @ drop 13 raw"
proof -
  have split: "raw = take 2 raw @ take 4 (drop 2 raw) @ take 4 (drop 6 raw) @ [raw ! 10] @
      take 2 (drop 11 raw) @ drop 13 raw"
  proof -
    have "drop 10 raw = raw ! 10 # drop 11 raw"
      using assms(1) by (simp flip: Cons_nth_drop_Suc)
    moreover have "raw = take 2 raw @ take 4 (drop 2 raw) @ take 4 (drop 6 raw) @ drop 10 raw"
    proof -
      have "drop 2 raw = take 4 (drop 2 raw) @ drop 6 raw" "drop 6 raw = take 4 (drop 6 raw) @ drop 10 raw"
        using append_take_drop_id [of 4 "drop 2 raw"] append_take_drop_id [of 4 "drop 6 raw"]
        by simp_all
      then show ?thesis by (metis append_take_drop_id)
    qed
    moreover have "drop 11 raw = take 2 (drop 11 raw) @ drop 13 raw"
      using append_take_drop_id [of 2 "drop 11 raw"] by simp
    ultimately show ?thesis by simp
  qed
  have "be_bytes 2 kProtocolMagic = take 2 raw"
    using assms by (simp add: read_u16_def wire_simps flip: assms(2))
  moreover have "be_bytes 4 (read_u32 raw 2) = take 4 (drop 2 raw)"
    "be_bytes 4 (read_u32 raw 6) = take 4 (drop 6 raw)"
    "be_bytes 2 (read_u16 raw 11) = take 2 (drop 11 raw)"
    using assms(1) by (simp_all add: read_u16_def read_u32_def wire_simps)
  ultimately show ?thesis
    using split message_type_of_byteD [OF assms(3)] by (simp add: header_def)
qed

subsection \<open>Encode and Decode are inverse\<close>

text \<open>The frames the format can hold: a method name of at most 65535 bytes, at most 10 MB in all.\<close>

definition encodable :: "frame \<Rightarrow> bool" where
  "encodable f \<longleftrightarrow> length (method_name f) < 2 ^ 16 \<and>
     13 + length (method_name f) + length (body f) \<le> kMaxFrameSize"

lemma Decode_header:
  assumes "n = 13 + length rest"
  shows "Decode (header (word_of_nat n) rid mt mlen @ rest) =
    (if kMaxFrameSize < n \<or> length rest < unat mlen then None
     else Some \<lparr>request_id = rid, msg_type = mt,
       method_name = string_of_bytes (take (unat mlen) rest), body = drop (unat mlen) rest\<rparr>)"
proof (cases "n < 2 ^ 32")
  case True
  then have "unat (word_of_nat n :: u32) = n" by (simp add: unat_of_nat)
  with assms show ?thesis
    by (simp add: Decode_def header_fields frame_consts Let_def)
next
  case False
  have "unat (word_of_nat n :: u32) < 2 ^ LENGTH(32)" by (rule unsigned_less)
  with False assms show ?thesis
    by (auto simp: Decode_def header_fields frame_consts Let_def)
qed

lemma Decode_encode_frame:
  "Decode (encode_frame f) =
     (let n = length (method_name f) mod 2 ^ 16; rest = bytes_of_string (method_name f) @ body f
      in if kMaxFrameSize < 13 + length rest then None
         else Some (f\<lparr>method_name := string_of_bytes (take n rest), body := drop n rest\<rparr>))"
proof -
  let ?n = "length (method_name f) mod 2 ^ 16"
  have "unat (word_of_nat (length (method_name f)) :: u16) = ?n" by (simp add: unat_of_nat)
  moreover have "\<not> length (method_name f) + length (body f) < ?n"
    using mod_less_eq_dividend [of "length (method_name f)" "2 ^ 16"] by linarith
  ultimately show ?thesis
    by (simp add: encode_frame_def Encode_header Decode_header Let_def
        del: of_nat_add of_nat_numeral)
qed

lemma Decode_encodable: "encodable f \<Longrightarrow> Decode (encode_frame f) = Some f"
  by (simp add: Decode_encode_frame encodable_def Let_def)

lemma Decode_Some:
  assumes "Decode raw = Some f"
  shows "raw = encode_frame f \<and> encodable f"
proof -
  let ?n = "unat (read_u16 raw 11)"
  from assms have len: "13 \<le> length raw" and magic: "read_u16 raw 0 = kProtocolMagic"
    and tot: "unat (read_u32 raw 2) = length raw" "length raw \<le> kMaxFrameSize"
    by (auto simp: Decode_def Let_def frame_consts split: if_splits option.splits)
  from assms len obtain mt where mt: "message_type_of_byte (raw ! 10) = Some mt"
    and name: "?n \<le> length (drop 13 raw)"
    and f: "f = \<lparr>request_id = read_u32 raw 6, msg_type = mt,
      method_name = string_of_bytes (take ?n (drop 13 raw)), body = drop ?n (drop 13 raw)\<rparr>"
    by (auto simp: Decode_def Let_def frame_consts add.commute split: if_splits option.splits)
  have n: "?n < 2 ^ 16" using unsigned_less [of "read_u16 raw 11"] by simp
  have "13 + length (method_name f) + length (body f) = length raw" "length (method_name f) = ?n"
    using name len by (simp_all add: f)
  moreover have "word_of_nat (length raw) = read_u32 raw 2" by (simp flip: tot(1))
  moreover have "word_of_nat ?n = read_u16 raw 11" by simp
  ultimately have "(word_of_nat (13 + length (method_name f) + length (body f)) :: u32) = read_u32 raw 2"
    "(word_of_nat (length (method_name f)) :: u16) = read_u16 raw 11"
    by metis+
  moreover have "bytes_of_string (method_name f) @ body f = drop 13 raw"
    by (simp add: f del: drop_drop)
  moreover have "request_id f = read_u32 raw 6" "msg_type f = mt" by (simp_all add: f)
  ultimately have "encode_frame f =
      header (read_u32 raw 2) (read_u32 raw 6) mt (read_u16 raw 11) @ drop 13 raw"
    by (simp only: encode_frame_def Encode_header)
  also have "\<dots> = raw" by (rule header_of_bytes [OF len magic mt, symmetric])
  finally have "raw = encode_frame f" ..
  moreover have "encodable f"
    using n len name tot(2) by (simp add: encodable_def f)
  ultimately show ?thesis ..
qed

subsection \<open>Properties\<close>

text \<open>
  C2. The wire format is unambiguous: \<open>Decode\<close> accepts exactly the byte strings that are the
  encoding of a frame the format can hold, and it returns that frame. Nothing else is accepted,
  and no two byte strings decode to the same frame.
\<close>

theorem decode_iff_encode: "Decode raw = Some f \<longleftrightarrow> raw = encode_frame f \<and> encodable f"
  using Decode_Some [of raw f] Decode_encodable [of f] by blast

text \<open>
  What \<open>Encode\<close> makes of a method name longer than the 16-bit length field: the frame is
  accepted, but it decodes to a shorter method name and a body that begins with the rest of the
  name. \<open>Encode\<close> does not refuse such a name.
\<close>

lemma encode_long_method_name:
  assumes "2 ^ 16 \<le> length (method_name f)"
    and "13 + length (method_name f) + length (body f) \<le> kMaxFrameSize"
  shows "Decode (encode_frame f) =
      Some (f\<lparr>method_name := take (length (method_name f) mod 2 ^ 16) (method_name f),
              body := bytes_of_string (drop (length (method_name f) mod 2 ^ 16) (method_name f)) @
                body f\<rparr>) \<and>
    Decode (encode_frame f) \<noteq> Some f"
proof
  let ?n = "length (method_name f) mod 2 ^ 16"
  have "?n < 2 ^ 16" by (rule mod_less_divisor) simp
  then have n: "?n < length (method_name f)" using assms(1) by (rule less_le_trans)
  then have "take ?n (bytes_of_string (method_name f) @ body f) =
        bytes_of_string (take ?n (method_name f))"
    "drop ?n (bytes_of_string (method_name f) @ body f) =
        bytes_of_string (drop ?n (method_name f)) @ body f"
    by (simp_all add: bytes_of_string_def take_map drop_map)
  with assms(2) show d: "Decode (encode_frame f) =
      Some (f\<lparr>method_name := take ?n (method_name f),
              body := bytes_of_string (drop ?n (method_name f)) @ body f\<rparr>)"
    by (simp add: Decode_encode_frame Let_def)
  show "Decode (encode_frame f) \<noteq> Some f"
  proof
    assume "Decode (encode_frame f) = Some f"
    with d have "method_name f = take ?n (method_name f)"
      by (metis frame.select_convs(3) frame.surjective frame.update_convs(3) frame.update_convs(4)
          option.inject)
    then have "length (method_name f) = length (take ?n (method_name f))" by (rule arg_cong)
    with n show False by simp
  qed
qed

lemma encode_long_method_name_witness:
  "let f = \<lparr>request_id = 1, msg_type = Request, method_name = replicate 65536 CHR ''a'', body = []\<rparr>
   in Decode (encode_frame f) =
     Some (f\<lparr>method_name := [], body := bytes_of_string (replicate 65536 CHR ''a'')\<rparr>)"
proof -
  define n where "n = replicate 65536 CHR ''a''"
  have "length n = 65536" by (simp only: n_def length_replicate)
  then show ?thesis
    using encode_long_method_name
      [of "\<lparr>request_id = 1, msg_type = Request, method_name = n, body = []\<rparr>"]
    unfolding n_def [symmetric] by (simp add: kMaxFrameSize_def Let_def)
qed

end
