(* ===== verification/Recv_Buffer.thy ===== *)
theory Recv_Buffer
  imports Frame_Protocol
begin

text \<open>
  \<open>include/rpc/buffer.h\<close> and \<open>src/buffer.cpp\<close>: the receive buffer that cuts frames
  out of the TCP byte stream. The lemmas show that what is cut out does not depend on how the
  stream was split into \<open>recv\<close> calls, and what a damaged header does to the connection.
\<close>

subsection \<open>Operations\<close>

record recv_buffer =
  buf :: bytes

definition empty_buffer :: recv_buffer where
  "empty_buffer = \<lparr>buf = []\<rparr>"

definition Append :: "bytes \<Rightarrow> recv_buffer \<Rightarrow> recv_buffer" where
  "Append data b = b\<lparr>buf := buf b @ data\<rparr>"

definition TryPopFrame :: "recv_buffer \<Rightarrow> bytes option \<times> recv_buffer" where
  "TryPopFrame b =
     (if length (buf b) < 6 then (None, b)
      else if read_u16 (buf b) 0 \<noteq> kProtocolMagic then (None, b)
      else
        let total_len = unat (read_u32 (buf b) 2) in
        if total_len < kFrameHeaderSize \<or> kMaxFrameSize < total_len then (None, b)
        else if length (buf b) < total_len then (None, b)
        else (Some (take total_len (buf b)), b\<lparr>buf := drop total_len (buf b)\<rparr>))"

lemma TryPopFrame_Some:
  assumes "TryPopFrame b = (Some fr, b')"
  shows "buf b = fr @ buf b' \<and> 13 \<le> length fr"
  using assms by (auto simp: TryPopFrame_def Let_def frame_consts split: if_splits)

lemma TryPopFrame_None: "TryPopFrame b = (None, b') \<Longrightarrow> b' = b"
  by (auto simp: TryPopFrame_def Let_def split: if_splits)

text \<open>
  The loop \<open>while (auto frame_bytes = read_buffer_.TryPopFrame())\<close> of the connection: every
  frame it takes out is at least a header long, so it stops.
\<close>

function pop_all :: "recv_buffer \<Rightarrow> bytes list \<times> recv_buffer" where
  "pop_all b =
     (case TryPopFrame b of
        (None, b') \<Rightarrow> ([], b')
      | (Some fr, b') \<Rightarrow> (case pop_all b' of (frs, b'') \<Rightarrow> (fr # frs, b'')))"
  by pat_completeness auto
termination
  by (relation "measure (\<lambda>b. length (buf b))") (auto dest!: TryPopFrame_Some [OF sym])

declare pop_all.simps [simp del]

subsection \<open>The header decides\<close>

lemma read_u16_append: "pos + 2 \<le> length xs \<Longrightarrow> read_u16 (xs @ ys) pos = read_u16 xs pos"
  by (simp add: read_u16_def)

lemma read_u32_append: "pos + 4 \<le> length xs \<Longrightarrow> read_u32 (xs @ ys) pos = read_u32 xs pos"
  by (simp add: read_u32_def)

lemma Append_buf [simp]: "buf (Append d b) = buf b @ d"
  by (simp add: Append_def)

lemma TryPopFrame_Append:
  "TryPopFrame b = (Some fr, b') \<Longrightarrow> TryPopFrame (Append d b) = (Some fr, Append d b')"
  by (auto simp: TryPopFrame_def Let_def Append_def read_u16_append read_u32_append split: if_splits)

lemma pop_all_Append:
  "pop_all (Append d b) =
     (case pop_all b of (frs, b1) \<Rightarrow> case pop_all (Append d b1) of (frs', b2) \<Rightarrow> (frs @ frs', b2))"
proof (induction b rule: pop_all.induct)
  case (1 b)
  obtain r b' where p: "TryPopFrame b = (r, b')" by force
  show ?case
  proof (cases r)
    case None
    with p have "pop_all b = ([], b)"
      using TryPopFrame_None [of b b'] by (simp add: pop_all.simps)
    then show ?thesis by (simp split: prod.split)
  next
    case (Some fr)
    with p TryPopFrame_Append [of b fr b' d]
    have "pop_all b = (case pop_all b' of (frs, b'') \<Rightarrow> (fr # frs, b''))"
      "pop_all (Append d b) = (case pop_all (Append d b') of (frs, b'') \<Rightarrow> (fr # frs, b''))"
      by (simp_all add: pop_all.simps [of b] pop_all.simps [of "Append d b"])
    with 1 [OF p [symmetric] Some] show ?thesis by (simp split: prod.splits)
  qed
qed

lemma pop_all_drained: "pop_all b = (frs, b') \<Longrightarrow> TryPopFrame b' = (None, b')"
proof (induction b arbitrary: frs rule: pop_all.induct)
  case (1 b)
  obtain r c where p: "TryPopFrame b = (r, c)" by force
  with 1 TryPopFrame_None [of b c] show ?case
    by (cases r) (auto simp: pop_all.simps [of b] split: prod.splits)
qed

subsection \<open>Frames in the stream\<close>

lemma encode_frame_header:
  assumes "encodable f"
  shows "13 \<le> length (encode_frame f)" "length (encode_frame f) \<le> kMaxFrameSize"
    "unat (read_u32 (encode_frame f) 2) = length (encode_frame f)"
    "read_u16 (encode_frame f) 0 = kProtocolMagic"
proof -
  let ?n = "13 + length (method_name f) + length (body f)"
  have n: "?n < 2 ^ 32" using assms by (simp add: encodable_def frame_consts)
  then have u: "unat (word_of_nat ?n :: u32) = ?n" by (simp add: unat_of_nat del: of_nat_add)
  show "unat (read_u32 (encode_frame f) 2) = length (encode_frame f)"
    by (simp only: encode_frame_def Encode_header header_fields u) simp
  show "read_u16 (encode_frame f) 0 = kProtocolMagic"
    by (simp only: encode_frame_def Encode_header header_fields)
qed (use assms in \<open>simp_all add: encode_frame_def encodable_def\<close>)

lemma TryPopFrame_encode:
  assumes "encodable f" and "buf b = encode_frame f @ rest"
  shows "TryPopFrame b = (Some (encode_frame f), b\<lparr>buf := rest\<rparr>)"
  using encode_frame_header [OF assms(1)]
  by (simp add: TryPopFrame_def assms(2) read_u16_append read_u32_append Let_def frame_consts)

lemma TryPopFrame_partial:
  assumes "encodable f" and "k < length (encode_frame f)" and "buf b = take k (encode_frame f)"
  shows "TryPopFrame b = (None, b)"
proof (cases "k < 6")
  case True
  then show ?thesis using assms by (simp add: TryPopFrame_def)
next
  case False
  have "read_u32 (take k (encode_frame f)) 2 = read_u32 (encode_frame f) 2"
    using read_u32_append [of 2 "take k (encode_frame f)" "drop k (encode_frame f)"] False assms(2)
    by simp
  with encode_frame_header [OF assms(1)] assms(2,3) False show ?thesis
    by (simp add: TryPopFrame_def Let_def)
qed

lemma pop_all_frames:
  assumes "\<forall>f \<in> set fs. encodable f" and "encodable g" and "k < length (encode_frame g)"
    and "buf b = concat (map encode_frame fs) @ take k (encode_frame g)"
  shows "pop_all b = (map encode_frame fs, b\<lparr>buf := take k (encode_frame g)\<rparr>)"
  using assms
proof (induction fs arbitrary: b)
  case Nil
  then show ?case by (simp add: pop_all.simps [of b] TryPopFrame_partial)
next
  case (Cons f fs)
  from Cons.prems have "TryPopFrame b =
      (Some (encode_frame f), b\<lparr>buf := concat (map encode_frame fs) @ take k (encode_frame g)\<rparr>)"
    by (intro TryPopFrame_encode) simp_all
  with Cons show ?case by (simp add: pop_all.simps [of b])
qed

subsection \<open>The contract of a stream splitter\<close>

text \<open>
  What a reader of a byte stream relies on: data is handed over as it arrives, each delivery
  returns the messages it completes, and handing over two pieces is the same as handing over
  their concatenation. \<open>drained\<close> holds of a splitter that has returned all it can. Then the
  messages returned depend on the bytes only, not on where the stream was cut.
\<close>

fun feed_all :: "(bytes \<Rightarrow> 's \<Rightarrow> 'm list \<times> 's) \<Rightarrow> bytes list \<Rightarrow> 's \<Rightarrow> 'm list \<times> 's" where
  "feed_all feed [] s = ([], s)"
| "feed_all feed (c # cs) s =
     (case feed c s of (ms, s1) \<Rightarrow> case feed_all feed cs s1 of (ms', s2) \<Rightarrow> (ms @ ms', s2))"

locale stream_splitter =
  fixes feed :: "bytes \<Rightarrow> 's \<Rightarrow> 'm list \<times> 's"
    and drained :: "'s \<Rightarrow> bool"
  assumes feed_nil: "drained s \<Longrightarrow> feed [] s = ([], s)"
    and feed_append: "drained s \<Longrightarrow> feed (x @ y) s =
      (case feed x s of (ms, s1) \<Rightarrow> case feed y s1 of (ms', s2) \<Rightarrow> (ms @ ms', s2))"
    and feed_drained: "drained s \<Longrightarrow> feed x s = (ms, s1) \<Longrightarrow> drained s1"
begin

lemma feed_all_concat: "drained s \<Longrightarrow> feed_all feed cs s = feed (concat cs) s"
proof (induction cs arbitrary: s)
  case Nil
  then show ?case by (simp add: feed_nil)
next
  case (Cons c cs)
  obtain ms s1 where "feed c s = (ms, s1)" by force
  moreover from this Cons.prems have "drained s1" by (rule feed_drained [rotated])
  ultimately show ?case using Cons by (simp add: feed_append)
qed

lemma feed_all_independent:
  "drained s \<Longrightarrow> concat cs = concat ds \<Longrightarrow> feed_all feed cs s = feed_all feed ds s"
  by (simp add: feed_all_concat)

lemma feed_all_drained: "drained s \<Longrightarrow> feed_all feed cs s = (ms, s1) \<Longrightarrow> drained s1"
  by (simp add: feed_all_concat feed_drained)

end

text \<open>One delivery to the buffer: append what \<open>recv\<close> returned, pop every complete frame.\<close>

definition feed_buffer :: "bytes \<Rightarrow> recv_buffer \<Rightarrow> bytes list \<times> recv_buffer" where
  "feed_buffer data b = pop_all (Append data b)"

definition buffer_drained :: "recv_buffer \<Rightarrow> bool" where
  "buffer_drained b \<longleftrightarrow> TryPopFrame b = (None, b)"

lemma Append_Append: "Append (x @ y) b = Append y (Append x b)"
  by (simp add: Append_def)

interpretation recv: stream_splitter feed_buffer buffer_drained
proof
  fix b assume "buffer_drained b"
  then show "feed_buffer [] b = ([], b)"
    by (simp add: feed_buffer_def buffer_drained_def Append_def pop_all.simps [of b])
next
  fix b x y show "feed_buffer (x @ y) b =
      (case feed_buffer x b of (ms, s1) \<Rightarrow> case feed_buffer y s1 of (ms', s2) \<Rightarrow> (ms @ ms', s2))"
    by (simp add: feed_buffer_def Append_Append pop_all_Append [of y "Append x b"])
next
  fix b x ms s1 assume "feed_buffer x b = (ms, s1)"
  then show "buffer_drained s1"
    by (simp add: feed_buffer_def buffer_drained_def pop_all_drained)
qed

lemma empty_drained: "buffer_drained empty_buffer"
  by (simp add: buffer_drained_def empty_buffer_def TryPopFrame_def)

subsection \<open>A damaged header\<close>

definition bad_header :: "bytes \<Rightarrow> bool" where
  "bad_header bs \<longleftrightarrow> 6 \<le> length bs \<and>
     (read_u16 bs 0 \<noteq> kProtocolMagic \<or> unat (read_u32 bs 2) < kFrameHeaderSize \<or>
      kMaxFrameSize < unat (read_u32 bs 2))"

lemma bad_header_append: "bad_header bs \<Longrightarrow> bad_header (bs @ cs)"
  by (auto simp: bad_header_def read_u16_append read_u32_append)

lemma bad_header_stuck: "bad_header (buf b) \<Longrightarrow> pop_all b = ([], b)"
  by (auto simp: pop_all.simps [of b] TryPopFrame_def bad_header_def Let_def)

lemma feed_all_stuck:
  "bad_header (buf b) \<Longrightarrow> feed_all feed_buffer cs b = ([], Append (concat cs) b)"
proof (induction cs arbitrary: b)
  case Nil
  then show ?case by (simp add: Append_def)
next
  case (Cons c cs)
  then have "feed_buffer c b = ([], Append c b)"
    by (simp add: feed_buffer_def bad_header_stuck bad_header_append)
  with Cons show ?case by (simp add: bad_header_append Append_Append)
qed

subsection \<open>Properties\<close>

text \<open>
  C3. Sticky and split packets: when the bytes of any frames, followed by the beginning of another
  one, arrive in pieces cut anywhere, the buffer pops exactly those frames, in order, and keeps
  exactly the incomplete rest.
\<close>

theorem frames_survive_chunking:
  assumes "\<forall>f \<in> set fs. encodable f" and "encodable g" and "k < length (encode_frame g)"
    and "concat chunks = concat (map encode_frame fs) @ take k (encode_frame g)"
  shows "feed_all feed_buffer chunks empty_buffer =
    (map encode_frame fs, \<lparr>buf = take k (encode_frame g)\<rparr>)"
proof -
  have "feed_all feed_buffer chunks empty_buffer = feed_buffer (concat chunks) empty_buffer"
    by (rule recv.feed_all_concat [OF empty_drained])
  also have "\<dots> = (map encode_frame fs, \<lparr>buf = take k (encode_frame g)\<rparr>)"
    using pop_all_frames [OF assms(1-3), of "Append (concat chunks) empty_buffer"]
    by (simp add: feed_buffer_def Append_def empty_buffer_def assms(4))
  finally show ?thesis .
qed

theorem frames_survive_chunking_witness:
  "let f = \<lparr>request_id = 1, msg_type = Request, method_name = ''Add'', body = [5]\<rparr>;
       bs = encode_frame f
   in feed_all feed_buffer [take 3 bs, drop 3 bs @ take 7 bs] empty_buffer = ([bs], \<lparr>buf = take 7 bs\<rparr>)"
proof -
  define f where "f = \<lparr>request_id = 1, msg_type = Request, method_name = ''Add'', body = [5]\<rparr>"
  have e: "encodable f" by (simp add: f_def encodable_def kMaxFrameSize_def)
  have "7 < length (encode_frame f)" by (simp add: f_def encode_frame_def)
  from frames_survive_chunking [OF _ e this,
      of "[f]" "[take 3 (encode_frame f), drop 3 (encode_frame f) @ take 7 (encode_frame f)]"] e
  show ?thesis unfolding f_def [symmetric] Let_def by simp
qed

text \<open>
  A buffer whose first six bytes are not a valid frame header never yields a frame again:
  whatever arrives later is only appended, so the rest of the connection's traffic is kept and
  never parsed. (The header comment says the caller then closes the connection; the caller
  cannot tell this case from an incomplete frame, and does not.)
\<close>

lemma bad_header_blocks_forever:
  assumes "bad_header (buf b)"
  shows "feed_all feed_buffer chunks b = ([], \<lparr>buf = buf b @ concat chunks\<rparr>)"
  using feed_all_stuck [OF assms, of chunks] by (cases b) (simp add: Append_def)

lemma bad_header_blocks_forever_witness:
  "feed_all feed_buffer [Encode 1 Request ''Add'' []] \<lparr>buf = [0, 0, 0, 0, 0, 0]\<rparr> =
     ([], \<lparr>buf = [0, 0, 0, 0, 0, 0] @ Encode 1 Request ''Add'' []\<rparr>)"
proof -
  have "bad_header (buf \<lparr>buf = [0, 0, 0, 0, 0, 0]\<rparr>)"
    by (simp add: bad_header_def read_u16_def NetworkToHost16_def HostToNetwork16_def kProtocolMagic_def)
  from bad_header_blocks_forever [OF this, of "[Encode 1 Request ''Add'' []]"] show ?thesis by simp
qed

end
