(* ===== verification/Stream_Connection.thy ===== *)
theory Stream_Connection
  imports Recv_Buffer "HOL-Library.Sublist"
begin

text \<open>
  \<open>include/rpc/connection.h\<close> and \<open>src/connection.cpp\<close>: one TCP connection on the event
  loop. The socket is the environment: \<open>recv\<close> and \<open>send\<close> answer with the values below,
  and \<open>wire_out\<close> records the bytes the kernel accepted, in order. \<open>want_write\<close> is the
  \<open>EPOLLOUT\<close> bit last passed to \<open>UpdateEvents\<close>. \<open>events\<close> records the calls of
  the frame callback and of the disconnect callback.
\<close>

subsection \<open>State and environment\<close>

datatype recv_result = RecvData bytes | RecvEof | RecvAgain | RecvIntr | RecvError

datatype send_result = Sent nat | SendAgain | SendError

datatype conn_event = FrameReceived frame | Disconnected int

record connection =
  fd :: int
  read_buffer :: recv_buffer
  write_buffer :: bytes
  write_offset :: nat
  want_write :: bool
  registered :: bool
  wire_out :: bytes
  events :: "conn_event list"

definition new_connection :: "int \<Rightarrow> connection" where
  "new_connection n = \<lparr>fd = n, read_buffer = empty_buffer, write_buffer = [], write_offset = 0,
     want_write = False, registered = True, wire_out = [], events = []\<rparr>"

subsection \<open>Closing and reading\<close>

definition OnClose :: "connection \<Rightarrow> connection" where
  "OnClose c = c\<lparr>events := events c @ [Disconnected (fd c)], fd := - 1, registered := False\<rparr>"

text \<open>
  The receive loop of \<open>OnRead\<close>: the answers of successive \<open>recv\<close> calls. The loop ends at
  end of file, an error or \<open>EAGAIN\<close>; the result says whether the connection is still open. A
  list of answers that ends before the loop does is read as \<open>EAGAIN\<close>.
\<close>

fun recv_loop :: "recv_result list \<Rightarrow> connection \<Rightarrow> bool \<times> connection" where
  "recv_loop [] c = (True, c)"
| "recv_loop (RecvData d # rs) c =
     recv_loop rs (c\<lparr>read_buffer := Append d (read_buffer c)\<rparr>)"
| "recv_loop (RecvEof # rs) c = (False, OnClose c)"
| "recv_loop (RecvAgain # rs) c = (True, c)"
| "recv_loop (RecvIntr # rs) c = recv_loop rs c"
| "recv_loop (RecvError # rs) c = (False, OnClose c)"

text \<open>The frames of a read are decoded one by one; one that does not decode is dropped.\<close>

definition dispatch_frames :: "bytes list \<Rightarrow> conn_event list" where
  "dispatch_frames raws = map FrameReceived (List.map_filter Decode raws)"

definition OnRead :: "recv_result list \<Rightarrow> connection \<Rightarrow> connection" where
  "OnRead rs c =
     (case recv_loop rs c of
        (False, c1) \<Rightarrow> c1
      | (True, c1) \<Rightarrow>
          (case pop_all (read_buffer c1) of
             (raws, b) \<Rightarrow>
               c1\<lparr>read_buffer := b, events := events c1 @ dispatch_frames raws\<rparr>))"

text \<open>The frames the read that led from \<open>c\<close> to \<open>c'\<close> handed to the callback.\<close>

fun event_frame :: "conn_event \<Rightarrow> frame option" where
  "event_frame (FrameReceived f) = Some f"
| "event_frame (Disconnected n) = None"

definition new_frames :: "connection \<Rightarrow> connection \<Rightarrow> frame list" where
  "new_frames c c' = List.map_filter event_frame (drop (length (events c)) (events c'))"

subsection \<open>Writing\<close>

definition Send :: "send_result \<Rightarrow> bytes \<Rightarrow> connection \<Rightarrow> connection" where
  "Send r data c =
     (if write_buffer c = [] then
        (case r of
           Sent n \<Rightarrow>
             (if n = length data then c\<lparr>wire_out := wire_out c @ data\<rparr>
              else if 0 < n then
                c\<lparr>wire_out := wire_out c @ take n data,
                  write_buffer := write_buffer c @ drop n data, want_write := True\<rparr>
              else c\<lparr>write_buffer := write_buffer c @ data, want_write := True\<rparr>)
         | _ \<Rightarrow> c\<lparr>write_buffer := write_buffer c @ data, want_write := True\<rparr>)
      else c\<lparr>write_buffer := write_buffer c @ data, want_write := True\<rparr>)"

text \<open>
  The loop of \<open>OnWrite\<close>, over the answers of successive \<open>send\<close> calls; it asks the socket
  only while something is buffered.
\<close>

fun OnWrite :: "send_result list \<Rightarrow> connection \<Rightarrow> connection" where
  "OnWrite [] c = c"
| "OnWrite (r # rs) c =
     (if write_buffer c = [] then c
      else
        case r of
          Sent n \<Rightarrow>
            (if 0 < n then
               let c1 = c\<lparr>wire_out := wire_out c @ take n (drop (write_offset c) (write_buffer c)),
                          write_offset := write_offset c + n\<rparr>
               in if length (write_buffer c1) \<le> write_offset c1
                  then c1\<lparr>write_buffer := [], write_offset := 0, want_write := False\<rparr>
                  else OnWrite rs c1
             else OnClose c)
        | SendAgain \<Rightarrow> c
        | SendError \<Rightarrow> OnClose c)"

subsection \<open>Outgoing bytes\<close>

definition pending_out :: "connection \<Rightarrow> bytes" where
  "pending_out c = drop (write_offset c) (write_buffer c)"

text \<open>
  What holds between events: the offset points into the write buffer, and while bytes are waiting
  the connection is registered for \<open>EPOLLOUT\<close>. (An empty \<open>Send\<close> that fails also
  registers for it.)
\<close>

definition conn_inv :: "connection \<Rightarrow> bool" where
  "conn_inv c \<longleftrightarrow>
     (if write_buffer c = [] then write_offset c = 0 else write_offset c < length (write_buffer c)) \<and>
     (write_buffer c \<noteq> [] \<longrightarrow> want_write c)"

text \<open>\<open>send\<close> never accepts more bytes than it is given.\<close>

fun send_ok :: "nat \<Rightarrow> send_result \<Rightarrow> bool" where
  "send_ok k (Sent n) = (n \<le> k)"
| "send_ok k _ = True"

fun writes_ok :: "nat \<Rightarrow> send_result list \<Rightarrow> bool" where
  "writes_ok k [] = True"
| "writes_ok k (r # rs) = (send_ok k r \<and> (case r of Sent n \<Rightarrow> writes_ok (k - n) rs | _ \<Rightarrow> True))"


lemma pending_empty [simp]: "write_buffer c = [] \<Longrightarrow> pending_out c = []"
  by (simp add: pending_out_def)

lemma conn_inv_new [simp]: "conn_inv (new_connection n)"
  by (simp add: conn_inv_def new_connection_def)

lemma conn_inv_pending: "conn_inv c \<Longrightarrow> write_buffer c \<noteq> [] \<Longrightarrow> pending_out c \<noteq> [] \<and> want_write c"
  by (simp add: conn_inv_def pending_out_def)

lemma Send_sends:
  assumes "conn_inv c" and "send_ok (length data) r"
  shows "conn_inv (Send r data c) \<and> registered (Send r data c) = registered c \<and>
    wire_out (Send r data c) @ pending_out (Send r data c) = wire_out c @ pending_out c @ data"
  using assms by (cases r) (auto simp: Send_def conn_inv_def pending_out_def)

lemma OnClose_fields [simp]:
  "registered (OnClose c) = False" "wire_out (OnClose c) = wire_out c"
  "events (OnClose c) = events c @ [Disconnected (fd c)]"
  by (simp_all add: OnClose_def)

lemma OnWrite_sends:
  assumes "conn_inv c" and "registered c" and "writes_ok (length (pending_out c)) rs"
  shows "let c' = OnWrite rs c in
    (registered c' \<longrightarrow> conn_inv c' \<and> wire_out c' @ pending_out c' = wire_out c @ pending_out c) \<and>
    prefix (wire_out c') (wire_out c @ pending_out c)"
  using assms
proof (induction rs c rule: OnWrite.induct)
  case (1 c)
  then show ?case by simp
next
  case (2 r rs c)
  show ?case
  proof (cases "write_buffer c = []")
    case True
    with 2 show ?thesis by simp
  next
    case ne: False
    show ?thesis
    proof (cases r)
      case (Sent n)
      define c1 where "c1 = c\<lparr>wire_out := wire_out c @ take n (drop (write_offset c) (write_buffer c)),
                              write_offset := write_offset c + n\<rparr>"
      have sent: "wire_out c1 @ pending_out c1 = wire_out c @ pending_out c"
        by (simp add: c1_def pending_out_def flip: drop_drop add.commute)
      show ?thesis
      proof (cases "0 < n \<and> write_offset c1 < length (write_buffer c1)")
        case True
        then have "conn_inv c1" "registered c1" "writes_ok (length (pending_out c1)) rs"
          using 2 ne Sent by (auto simp: conn_inv_def c1_def pending_out_def algebra_simps)
        with "2.IH" [OF ne Sent _ c1_def] True
        have "let c' = OnWrite rs c1 in
          (registered c' \<longrightarrow> conn_inv c' \<and> wire_out c' @ pending_out c' = wire_out c1 @ pending_out c1) \<and>
          prefix (wire_out c') (wire_out c1 @ pending_out c1)" by simp
        moreover have "OnWrite (r # rs) c = OnWrite rs c1"
          using True ne Sent by (simp add: c1_def)
        ultimately show ?thesis by (simp add: sent)
      next
        case False
        with 2 ne Sent sent show ?thesis
          by (auto simp: c1_def conn_inv_def pending_out_def Let_def OnClose_def)
      qed
    qed (use 2 ne in \<open>simp_all add: OnClose_def\<close>)
  qed
qed

subsection \<open>The reading side leaves the writing side alone\<close>

lemma recv_loop_writes:
  "recv_loop rs c = (ok, c') \<Longrightarrow>
     wire_out c' = wire_out c \<and> write_buffer c' = write_buffer c \<and> write_offset c' = write_offset c \<and>
     want_write c' = want_write c \<and> registered c' = (ok \<and> registered c)"
  by (induction rs c rule: recv_loop.induct) (auto simp: OnClose_def)

lemma OnRead_writes:
  "wire_out (OnRead rs c) = wire_out c \<and> pending_out (OnRead rs c) = pending_out c \<and>
   conn_inv (OnRead rs c) = conn_inv c \<and> (registered (OnRead rs c) \<longrightarrow> registered c)"
  by (auto simp: OnRead_def pending_out_def conn_inv_def dest!: recv_loop_writes
      split: prod.splits bool.splits)


subsection \<open>Runs of a connection\<close>

text \<open>
  The event loop and the handlers call the three operations of a live connection in any order. The
  first component of a state collects the bytes handed to \<open>Send\<close> so far.
\<close>

inductive conn_step :: "bytes \<times> connection \<Rightarrow> bytes \<times> connection \<Rightarrow> bool" where
  step_send: "registered c \<Longrightarrow> send_ok (length data) r \<Longrightarrow>
    conn_step (sent, c) (sent @ data, Send r data c)"
| step_writable: "registered c \<Longrightarrow> writes_ok (length (pending_out c)) rs \<Longrightarrow>
    conn_step (sent, c) (sent, OnWrite rs c)"
| step_readable: "registered c \<Longrightarrow> conn_step (sent, c) (sent, OnRead rs c)"

inductive_cases conn_step_elim: "conn_step (sent, c) t"

fun sending_inv :: "bytes \<times> connection \<Rightarrow> bool" where
  "sending_inv (sent, c) \<longleftrightarrow> prefix (wire_out c) sent \<and>
     (registered c \<longrightarrow> conn_inv c \<and> wire_out c @ pending_out c = sent)"

lemma conn_step_inv: "conn_step s t \<Longrightarrow> sending_inv s \<Longrightarrow> sending_inv t"
proof (induction rule: conn_step.induct)
  case (step_send c data r sent)
  with Send_sends [of c data r]
  have "conn_inv (Send r data c)" "wire_out (Send r data c) @ pending_out (Send r data c) = sent @ data"
    by (auto simp flip: append_assoc)
  then show ?case by (auto intro: prefixI [OF sym])
next
  case (step_writable c rs sent)
  with OnWrite_sends [of c rs] show ?case
    by (auto simp: Let_def)
next
  case (step_readable c sent rs)
  with OnRead_writes [of rs c] show ?case by auto
qed

interpretation conn: step_invariant "\<lambda>s. \<exists>n. s = ([], new_connection n)" conn_step sending_inv
  by unfold_locales (auto simp: new_connection_def pending_out_def conn_inv_def intro: conn_step_inv)

subsection \<open>Reading\<close>

text \<open>The answers of one read pass that ends because the socket has no more data.\<close>

fun read_pass :: "recv_result list \<Rightarrow> bool" where
  "read_pass [] \<longleftrightarrow> False"
| "read_pass (RecvData d # rs) \<longleftrightarrow> read_pass rs"
| "read_pass (RecvIntr # rs) \<longleftrightarrow> read_pass rs"
| "read_pass (RecvAgain # rs) \<longleftrightarrow> rs = []"
| "read_pass (RecvEof # rs) \<longleftrightarrow> False"
| "read_pass (RecvError # rs) \<longleftrightarrow> False"

fun received :: "recv_result list \<Rightarrow> bytes" where
  "received [] = []"
| "received (RecvData d # rs) = d @ received rs"
| "received (r # rs) = received rs"

lemma Append_nil [simp]: "Append [] b = b"
  by (simp add: Append_def)

lemma recv_loop_pass:
  "read_pass rs \<Longrightarrow> recv_loop rs c = (True, c\<lparr>read_buffer := Append (received rs) (read_buffer c)\<rparr>)"
  by (induction rs c rule: recv_loop.induct) (simp_all add: Append_Append)

lemma OnRead_pass:
  "read_pass rs \<Longrightarrow> OnRead rs c =
     (case feed_buffer (received rs) (read_buffer c) of
        (raws, b) \<Rightarrow> c\<lparr>read_buffer := b, events := events c @ dispatch_frames raws\<rparr>)"
  by (simp add: OnRead_def recv_loop_pass feed_buffer_def)

lemma dispatch_frames_append [simp]:
  "dispatch_frames (xs @ ys) = dispatch_frames xs @ dispatch_frames ys"
  by (simp add: dispatch_frames_def List.map_filter_def)

lemma OnRead_passes:
  "\<forall>rs \<in> set rss. read_pass rs \<Longrightarrow>
     feed_all feed_buffer (map received rss) (read_buffer c) = (raws, b) \<Longrightarrow>
     fold OnRead rss c = c\<lparr>read_buffer := b, events := events c @ dispatch_frames raws\<rparr>"
proof (induction rss arbitrary: c raws)
  case (Cons rs rss)
  then show ?case by (auto simp: OnRead_pass split: prod.splits)
qed (simp add: dispatch_frames_def List.map_filter_def)

lemma dispatch_encoded:
  "\<forall>f \<in> set fs. encodable f \<Longrightarrow> dispatch_frames (map encode_frame fs) = map FrameReceived fs"
  by (induction fs) (simp_all add: dispatch_frames_def List.map_filter_def Decode_encodable)

subsection \<open>Properties\<close>

text \<open>
  C4. A connection puts the bytes of all \<open>Send\<close> calls on the wire in the order of the calls,
  without loss, duplication or reordering, however the socket splits them: what the kernel has
  accepted is a prefix of them, and on a live connection the rest is buffered with
  \<open>EPOLLOUT\<close> requested.
\<close>

theorem sent_bytes_in_order:
  assumes "conn_step\<^sup>*\<^sup>* ([], new_connection n) (sent, c)"
  shows "prefix (wire_out c) sent \<and>
    (registered c \<longrightarrow> wire_out c @ pending_out c = sent \<and> (pending_out c \<noteq> [] \<longrightarrow> want_write c))"
proof -
  have "sending_inv (sent, c)" using assms by (rule conn.reachable_inv [rotated]) blast
  then show ?thesis by (auto simp: conn_inv_def pending_out_def)
qed

theorem sent_bytes_in_order_witness:
  "let c = OnWrite [Sent 1, SendAgain] (Send (Sent 1) [1, 2, 3] (new_connection 5))
   in registered c \<and> wire_out c @ pending_out c = [1, 2, 3] \<and> wire_out c = [1, 2]"
proof -
  let ?c1 = "Send (Sent 1) [1, 2, 3] (new_connection 5)"
  let ?c = "OnWrite [Sent 1, SendAgain] ?c1"
  have "conn_step ([], new_connection 5) ([] @ [1, 2, 3], ?c1)"
    by (rule step_send) (simp_all add: new_connection_def)
  moreover have "conn_step ([] @ [1, 2, 3], ?c1) ([] @ [1, 2, 3], ?c)"
    by (rule step_writable) (simp_all add: Send_def new_connection_def pending_out_def)
  ultimately have r: "conn_step\<^sup>*\<^sup>* ([], new_connection 5) ([1, 2, 3], ?c)" by simp
  show ?thesis using sent_bytes_in_order [OF r]
    by (simp add: Send_def new_connection_def pending_out_def)
qed

text \<open>
  When the bytes that arrive over any number of reads are those of some frames and the
  beginning of another, the frame callback is called once for each complete frame, with exactly
  the frame the peer encoded, in order.
\<close>

lemma connection_delivers_frames:
  assumes "\<forall>f \<in> set fs. encodable f" and "encodable g" and "k < length (encode_frame g)"
    and "\<forall>rs \<in> set rss. read_pass rs"
    and "concat (map received rss) = concat (map encode_frame fs) @ take k (encode_frame g)"
  shows "events (fold OnRead rss (new_connection n)) = map FrameReceived fs"
proof -
  let ?c = "new_connection n"
  have "feed_all feed_buffer (map received rss) (read_buffer ?c) =
      feed_buffer (concat (map received rss)) empty_buffer"
    by (simp add: new_connection_def recv.feed_all_concat [OF empty_drained])
  also have "\<dots> = (map encode_frame fs, \<lparr>buf = take k (encode_frame g)\<rparr>)"
    using pop_all_frames [OF assms(1-3), of "Append (concat (map received rss)) empty_buffer"]
    by (simp add: feed_buffer_def Append_def empty_buffer_def assms(5))
  finally show ?thesis
    using OnRead_passes [OF assms(4)] dispatch_encoded [OF assms(1)]
    by (simp add: new_connection_def)
qed

lemma connection_delivers_frames_witness:
  "let f = \<lparr>request_id = 1, msg_type = Request, method_name = ''Add'', body = [5]\<rparr>;
       bs = encode_frame f
   in events (fold OnRead [[RecvData (take 3 bs), RecvAgain], [RecvIntr, RecvData (drop 3 bs), RecvAgain]]
        (new_connection 7)) = [FrameReceived f]"
proof -
  define f where "f = \<lparr>request_id = 1, msg_type = Request, method_name = ''Add'', body = [5]\<rparr>"
  have e: "encodable f" by (simp add: f_def encodable_def kMaxFrameSize_def)
  have k: "0 < length (encode_frame f)" by (simp add: f_def encode_frame_def)
  show ?thesis
    using connection_delivers_frames [OF _ e k, of "[f]"
      "[[RecvData (take 3 (encode_frame f)), RecvAgain],
        [RecvIntr, RecvData (drop 3 (encode_frame f)), RecvAgain]]" 7] e
    unfolding f_def [symmetric] Let_def by simp
qed

text \<open>
  A peer that sends its last frames and closes at once: if the end of file is read in the same
  pass as the data, the connection is closed before the buffer is cut into frames, so no frame of
  that pass reaches the callback, complete or not.
\<close>

lemma eof_drops_last_frames:
  "events (OnRead (map RecvData ds @ [RecvEof]) c) = events c @ [Disconnected (fd c)]"
proof -
  have "\<exists>c'. recv_loop (map RecvData ds @ [RecvEof]) c = (False, c') \<and>
      events c' = events c @ [Disconnected (fd c)]"
  proof (induction ds arbitrary: c)
    case (Cons d ds)
    from Cons [of "c\<lparr>read_buffer := Append d (read_buffer c)\<rparr>"] show ?case by simp
  qed simp
  then show ?thesis by (auto simp: OnRead_def)
qed

end
