(* ===== verification/Rpc_Client.thy ===== *)
theory Rpc_Client
  imports Stream_Connection
begin

text \<open>
  \<open>include/rpc/rpc_client.h\<close> and \<open>src/rpc_client.cpp\<close>: the client side of a call. The
  promises of the program are the entries of \<open>futures\<close>, one per call, in the order of the calls;
  \<open>pending_requests\<close> maps a request id to the entry its response will fulfil. The client reads
  through a \<open>Connection\<close> on its own event loop, but writes with \<open>send\<close> on the
  descriptor, past that connection's write buffer. \<open>loop_conns\<close> holds the connections whose
  descriptors the loop watches. A call is one step: the two mutexes of the program keep the table and
  the socket consistent, and the order in which threads take them is the order of the steps.
\<close>

subsection \<open>State\<close>

datatype call_future = Unset | Value bytes | BrokenPromise

record rpc_client =
  server_fd :: int
  next_request_id :: u32
  pending_requests :: "u32 \<rightharpoonup> nat"
  futures :: "call_future list"
  loop_conns :: "int \<rightharpoonup> connection"

definition new_client :: rpc_client where
  "new_client = \<lparr>server_fd = - 1, next_request_id = 1, pending_requests = Map.empty, futures = [],
     loop_conns = Map.empty\<rparr>"

text \<open>Where \<open>Connect\<close> stops: no socket, a bad address, a refused connection, or success.\<close>

datatype connect_result = NoSocket | BadAddress | ConnectFailed | Connected int

definition Connect :: "connect_result \<Rightarrow> rpc_client \<Rightarrow> bool \<times> rpc_client" where
  "Connect r cl =
     (case r of
        Connected n \<Rightarrow> (True, cl\<lparr>server_fd := n, loop_conns := (loop_conns cl)(n \<mapsto> new_connection n)\<rparr>)
      | _ \<Rightarrow> (False, cl\<lparr>server_fd := - 1\<rparr>))"

subsection \<open>Responses\<close>

text \<open>Both the response callback and a failed \<open>send\<close> look the promise up, fulfil it and drop it.\<close>

definition Settle :: "u32 \<Rightarrow> bytes \<Rightarrow> rpc_client \<Rightarrow> rpc_client" where
  "Settle rid v cl =
     (case pending_requests cl rid of
        None \<Rightarrow> cl
      | Some i \<Rightarrow> cl\<lparr>futures := (futures cl)[i := Value v], pending_requests := (pending_requests cl)(rid := None)\<rparr>)"

definition OnResponse :: "frame \<Rightarrow> rpc_client \<Rightarrow> rpc_client" where
  "OnResponse f cl = Settle (request_id f) (if msg_type f = Error then [] else body f) cl"

definition ClientRead :: "int \<Rightarrow> recv_result list \<Rightarrow> rpc_client \<Rightarrow> rpc_client" where
  "ClientRead n rs cl =
     (case loop_conns cl n of
        None \<Rightarrow> cl
      | Some c \<Rightarrow>
          let c' = OnRead rs c
          in fold OnResponse (new_frames c c')
               (cl\<lparr>loop_conns := (loop_conns cl)(n := if registered c' then Some c' else None)\<rparr>))"

text \<open>The loop calls \<open>OnClose\<close> without reading when the peer has shut its side down.\<close>

definition ClientHangup :: "int \<Rightarrow> rpc_client \<Rightarrow> rpc_client" where
  "ClientHangup n cl = cl\<lparr>loop_conns := (loop_conns cl)(n := None)\<rparr>"

subsection \<open>Calls\<close>

text \<open>Storing a promise under an id in use destroys the one stored there.\<close>

definition drop_promise :: "nat option \<Rightarrow> call_future list \<Rightarrow> call_future list" where
  "drop_promise old fs = (case old of None \<Rightarrow> fs | Some i \<Rightarrow> fs[i := BrokenPromise])"

text \<open>Bytes sent on a descriptor the loop no longer watches go to whatever it now names.\<close>

definition put_on_wire :: "bytes \<Rightarrow> rpc_client \<Rightarrow> rpc_client" where
  "put_on_wire data cl =
     (case loop_conns cl (server_fd cl) of
        None \<Rightarrow> cl
      | Some c \<Rightarrow> cl\<lparr>loop_conns := (loop_conns cl)(server_fd cl \<mapsto> c\<lparr>wire_out := wire_out c @ data\<rparr>)\<rparr>)"

text \<open>
  \<open>r\<close> is the answer of the one \<open>send\<close>. A partial one is taken for a complete one: the rest
  of the frame is dropped.
\<close>

definition Call :: "send_result \<Rightarrow> string \<Rightarrow> bytes \<Rightarrow> rpc_client \<Rightarrow> nat \<times> rpc_client" where
  "Call r mname bdy cl =
     (let rid = next_request_id cl;
          i = length (futures cl);
          cl1 = cl\<lparr>next_request_id := rid + 1,
                  futures := drop_promise (pending_requests cl rid) (futures cl) @ [Unset],
                  pending_requests := (pending_requests cl)(rid \<mapsto> i)\<rparr>;
          data = Encode rid Request mname bdy
      in (i, case r of
               Sent n \<Rightarrow> put_on_wire (take n data) cl1
             | _ \<Rightarrow> Settle rid [] cl1))"

subsection \<open>Closing\<close>

definition CloseFd :: "rpc_client \<Rightarrow> rpc_client" where
  "CloseFd cl =
     (if 0 \<le> server_fd cl
      then cl\<lparr>loop_conns := (loop_conns cl)(server_fd cl := None), server_fd := - 1\<rparr> else cl)"

definition Disconnect :: "rpc_client \<Rightarrow> rpc_client" where
  "Disconnect cl =
     (if 0 \<le> server_fd cl
      then cl\<lparr>loop_conns := (loop_conns cl)(server_fd cl := None), server_fd := - 1\<rparr> else cl)"

text \<open>The destructor stops the loop, disconnects and destroys the table with the promises left in it.\<close>

definition DestroyClient :: "rpc_client \<Rightarrow> rpc_client" where
  "DestroyClient cl =
     (let cl1 = Disconnect cl
      in cl1\<lparr>futures := map (\<lambda>f. if f = Unset then BrokenPromise else f) (futures cl1),
             pending_requests := Map.empty\<rparr>)"

subsection \<open>Promises\<close>

text \<open>
  The table and the futures fit: an id in the table stands for one future of its own, which is unset,
  and every unset future is in the table. So no promise is ever fulfilled twice.
\<close>

definition table_ok :: "(u32 \<rightharpoonup> nat) \<Rightarrow> call_future list \<Rightarrow> bool" where
  "table_ok p fs \<longleftrightarrow> (\<forall>r s i. p r = Some i \<longrightarrow> p s = Some i \<longrightarrow> r = s) \<and>
     (\<forall>r i. p r = Some i \<longrightarrow> i < length fs \<and> fs ! i = Unset) \<and>
     (\<forall>i < length fs. fs ! i = Unset \<longrightarrow> (\<exists>r. p r = Some i))"

definition client_ok :: "rpc_client \<Rightarrow> bool" where
  "client_ok cl \<longleftrightarrow> table_ok (pending_requests cl) (futures cl)"

lemma table_okD: "table_ok p fs \<Longrightarrow> p r = Some i \<Longrightarrow> i < length fs \<and> fs ! i = Unset"
  by (simp add: table_ok_def)

lemma table_settle:
  assumes "table_ok p fs" and "p r = Some i" and "v \<noteq> Unset"
  shows "table_ok (p(r := None)) (fs[i := v])"
proof -
  have other: "k \<noteq> i" if "p s = Some k" "s \<noteq> r" for s k
    using assms(1,2) that unfolding table_ok_def by blast
  have "\<exists>s. s \<noteq> r \<and> p s = Some k" if "k < length fs" "fs[i := v] ! k = Unset" for k
  proof -
    have "k \<noteq> i" using that assms(3) by auto
    with that have "fs ! k = Unset" by simp
    with assms(1) that obtain s where "p s = Some k" unfolding table_ok_def by blast
    with assms(2) \<open>k \<noteq> i\<close> show ?thesis by force
  qed
  moreover have "k < length fs \<and> fs[i := v] ! k = Unset" if "p s = Some k" "s \<noteq> r" for s k
    using other [OF that] assms(1) that by (simp add: table_ok_def)
  moreover have "s = t" if "p s = Some k" "p t = Some k" for s t k
    using assms(1) that by (simp add: table_ok_def)
  ultimately show ?thesis unfolding table_ok_def by (simp add: fun_upd_apply) metis
qed

lemma table_new:
  assumes "table_ok p fs" and "p r = None"
  shows "table_ok (p(r \<mapsto> length fs)) (fs @ [Unset])"
proof -
  have old: "k < length fs" if "p s = Some k" for s k using assms(1) that by (simp add: table_ok_def)
  have "\<exists>s. (p(r \<mapsto> length fs)) s = Some k" if "k < length (fs @ [Unset])" "(fs @ [Unset]) ! k = Unset" for k
  proof (cases "k = length fs")
    case False
    with that have "k < length fs" "fs ! k = Unset" by (simp_all add: nth_append)
    with assms(1) obtain s where "p s = Some k" unfolding table_ok_def by blast
    with assms(2) show ?thesis by (intro exI [of _ s]) auto
  qed auto
  moreover have "k < length (fs @ [Unset]) \<and> (fs @ [Unset]) ! k = Unset" if "(p(r \<mapsto> length fs)) s = Some k" for s k
    using that assms(1) by (auto simp: table_ok_def nth_append split: if_splits)
  moreover have "s = t" if "(p(r \<mapsto> length fs)) s = Some k" "(p(r \<mapsto> length fs)) t = Some k" for s t k
    using that assms(1) old by (auto simp: table_ok_def split: if_splits)
  ultimately show ?thesis unfolding table_ok_def by blast
qed

lemma Settle_ok: "client_ok cl \<Longrightarrow> client_ok (Settle rid v cl)"
  by (simp add: Settle_def client_ok_def table_settle split: option.split)

lemma OnResponse_ok: "client_ok cl \<Longrightarrow> client_ok (OnResponse f cl)"
  by (simp add: OnResponse_def Settle_ok)

lemma fold_OnResponse_ok: "client_ok cl \<Longrightarrow> client_ok (fold OnResponse fs cl)"
  by (induction fs arbitrary: cl) (simp_all add: OnResponse_ok)

lemma client_ok_loop [simp]: "client_ok (cl\<lparr>loop_conns := lc\<rparr>) = client_ok cl"
  "client_ok (cl\<lparr>server_fd := n\<rparr>) = client_ok cl"
  by (simp_all add: client_ok_def)

lemma ClientRead_ok: "client_ok cl \<Longrightarrow> client_ok (ClientRead n rs cl)"
  by (simp add: ClientRead_def Let_def fold_OnResponse_ok split: option.split)

lemma put_on_wire_ok [simp]: "client_ok (put_on_wire data cl) = client_ok cl"
  by (simp add: put_on_wire_def split: option.split)

lemma promise_ok:
  assumes "table_ok p fs"
  shows "table_ok (p(r \<mapsto> length fs)) (drop_promise (p r) fs @ [Unset])"
proof (cases "p r")
  case None
  with assms show ?thesis by (simp add: drop_promise_def table_new)
next
  case (Some k)
  with table_new [OF table_settle [OF assms Some, of BrokenPromise], of r] show ?thesis
    by (simp add: drop_promise_def)
qed

lemma Call_ok: "client_ok cl \<Longrightarrow> Call r m b cl = (i, cl') \<Longrightarrow> client_ok cl'"
  using promise_ok [of "pending_requests cl" "futures cl" "next_request_id cl"]
  by (cases r) (auto simp: Call_def Let_def client_ok_def intro!: Settle_ok [unfolded client_ok_def]
      put_on_wire_ok [unfolded client_ok_def, THEN iffD2])

inductive client_step :: "rpc_client \<Rightarrow> rpc_client \<Rightarrow> bool" where
  cs_connect: "client_step cl (snd (Connect r cl))"
| cs_call: "Call r m b cl = (i, cl') \<Longrightarrow> client_step cl cl'"
| cs_read: "client_step cl (ClientRead n rs cl)"
| cs_hangup: "client_step cl (ClientHangup n cl)"
| cs_close: "client_step cl (CloseFd cl)"
| cs_disconnect: "client_step cl (Disconnect cl)"

lemma client_step_ok: "client_step cl cl' \<Longrightarrow> client_ok cl \<Longrightarrow> client_ok cl'"
proof (induction rule: client_step.induct)
  case (cs_connect cl r)
  then show ?case by (cases r) (simp_all add: Connect_def client_ok_def)
next
  case (cs_call r m b cl i cl')
  then show ?case by (blast intro: Call_ok)
qed (simp_all add: ClientRead_ok ClientHangup_def CloseFd_def Disconnect_def)

interpretation client: step_invariant "\<lambda>cl. cl = new_client" client_step client_ok
  by unfold_locales (simp add: new_client_def client_ok_def table_ok_def, rule client_step_ok)

subsection \<open>A lost connection\<close>

text \<open>
  What a client can do without connecting again, and without so many calls that the
  request id \<open>rid\<close> is handed out once more.
\<close>

inductive lost_step :: "u32 \<Rightarrow> rpc_client \<Rightarrow> rpc_client \<Rightarrow> bool" for rid where
  ls_call: "Call r m b cl = (i, cl') \<Longrightarrow> next_request_id cl \<noteq> rid \<Longrightarrow> lost_step rid cl cl'"
| ls_read: "lost_step rid cl (ClientRead n rs cl)"
| ls_hangup: "lost_step rid cl (ClientHangup n cl)"
| ls_close: "lost_step rid cl (CloseFd cl)"
| ls_disconnect: "lost_step rid cl (Disconnect cl)"

definition stranded :: "u32 \<Rightarrow> nat \<Rightarrow> rpc_client \<Rightarrow> bool" where
  "stranded rid i cl \<longleftrightarrow> client_ok cl \<and> loop_conns cl = Map.empty \<and> pending_requests cl rid = Some i"

lemma Call_stranded:
  assumes "Call r m b cl = (k, cl')" and "next_request_id cl \<noteq> rid" and "stranded rid i cl"
  shows "stranded rid i cl'"
proof -
  have "loop_conns cl' = Map.empty \<and> pending_requests cl' rid = Some i"
    using assms by (auto simp: Call_def Let_def stranded_def put_on_wire_def Settle_def split: send_result.splits)
  with Call_ok assms(1,3) show ?thesis by (auto simp: stranded_def)
qed

lemma lost_step_stranded: "lost_step rid cl cl' \<Longrightarrow> stranded rid i cl \<Longrightarrow> stranded rid i cl'"
proof (induction rule: lost_step.induct)
  case (ls_call r m b cl k cl')
  then show ?case by (blast intro: Call_stranded)
qed (auto simp: stranded_def ClientRead_def ClientHangup_def CloseFd_def Disconnect_def)

interpretation stranded: step_invariant "stranded rid i" "lost_step rid" "stranded rid i"
  by unfold_locales (auto intro: lost_step_stranded)

text \<open>
  C7. When the connection is lost, the calls still waiting are not completed: whatever the program does
  short of connecting again, the future stays unset, so a caller in \<open>get()\<close> waits for ever; only
  the destructor of the client breaks the promise.
\<close>

theorem lost_connection_strands_calls:
  assumes "client_step\<^sup>*\<^sup>* new_client cl" and "pending_requests cl rid = Some i"
    and "loop_conns cl = [n \<mapsto> c]" and "(lost_step rid)\<^sup>*\<^sup>* (ClientHangup n cl) cl'"
  shows "futures cl' ! i = Unset \<and> futures (DestroyClient cl') ! i = BrokenPromise"
proof -
  have "client_ok cl" using assms(1) by (rule client.reachable_inv [OF refl])
  then have "stranded rid i (ClientHangup n cl)" using assms(2,3) by (simp add: stranded_def ClientHangup_def)
  then have "stranded rid i cl'" using assms(4) by (rule stranded.reachable_inv)
  then have "futures cl' ! i = Unset" "i < length (futures cl')"
    using table_okD by (auto simp: stranded_def client_ok_def)
  then show ?thesis by (simp add: DestroyClient_def Disconnect_def Let_def)
qed

theorem lost_connection_strands_calls_witness:
  "let cl = snd (Call (Sent 16) ''Add'' [] (snd (Connect (Connected 5) new_client)))
   in futures (ClientHangup 5 cl) = [Unset] \<and> futures (DestroyClient (ClientHangup 5 cl)) = [BrokenPromise]"
proof -
  let ?c0 = "snd (Connect (Connected 5) new_client)"
  let ?cl = "snd (Call (Sent 16) ''Add'' [] ?c0)"
  have "client_step new_client ?c0" by (rule cs_connect)
  moreover have "client_step ?c0 ?cl" by (rule cs_call [of "Sent 16" "''Add''" "[]" _ 0]) (simp add: Call_def Let_def Connect_def new_client_def)
  ultimately have r: "client_step\<^sup>*\<^sup>* new_client ?cl" by simp
  have cl: "pending_requests ?cl 1 = Some 0" "futures ?cl = [Unset]"
    by (simp_all add: Call_def Let_def Connect_def new_client_def put_on_wire_def drop_promise_def)
  have lc: "loop_conns ?cl = [5 \<mapsto> new_connection 5\<lparr>wire_out := take 16 (Encode 1 Request ''Add'' [])\<rparr>]"
    by (simp add: Call_def Let_def Connect_def new_client_def put_on_wire_def new_connection_def)
  from lost_connection_strands_calls [OF r cl(1) lc rtranclp.rtrancl_refl] cl(2)
  show ?thesis by (simp add: Let_def ClientHangup_def DestroyClient_def Disconnect_def)
qed

end
