(* ===== verification/Rpc_Dispatch.thy ===== *)
theory Rpc_Dispatch
  imports Frame_Protocol
begin

text \<open>
  \<open>include/rpc/dispatch.h\<close> and \<open>src/dispatch.cpp\<close>: the table from method names to
  handlers. A handler is a C++ closure that may change what it captures, so here it takes the
  service state and returns its response (\<open>None\<close> for \<open>nullopt\<close>) with the new state.
  The printed log lines are not modelled.
\<close>

type_synonym 's handler = "bytes \<Rightarrow> 's \<Rightarrow> bytes option \<times> 's"

record 's dispatch =
  handlers :: "string \<rightharpoonup> 's handler"

definition empty_dispatch :: "'s dispatch" where
  "empty_dispatch = \<lparr>handlers = Map.empty\<rparr>"

definition RegisterMethod :: "string \<Rightarrow> 's handler \<Rightarrow> 's dispatch \<Rightarrow> 's dispatch" where
  "RegisterMethod m h d = d\<lparr>handlers := (handlers d)(m \<mapsto> h)\<rparr>"

definition DispatchCall :: "'s dispatch \<Rightarrow> string \<Rightarrow> bytes \<Rightarrow> 's \<Rightarrow> bytes option \<times> 's" where
  "DispatchCall d m bdy s =
     (case handlers d m of
        None \<Rightarrow> (None, s)
      | Some h \<Rightarrow> h bdy s)"

lemma DispatchCall_register [simp]:
  "DispatchCall (RegisterMethod m h d) n bdy s = (if n = m then h bdy s else DispatchCall d n bdy s)"
  by (simp add: DispatchCall_def RegisterMethod_def)

lemma DispatchCall_empty [simp]: "DispatchCall empty_dispatch n bdy s = (None, s)"
  by (simp add: DispatchCall_def empty_dispatch_def)

lemma dom_RegisterMethod [simp]: "dom (handlers (RegisterMethod m h d)) = insert m (dom (handlers d))"
  by (simp add: RegisterMethod_def)

lemma dom_empty_dispatch [simp]: "dom (handlers empty_dispatch) = {}"
  by (simp add: empty_dispatch_def)

end
