(* ===== verification/Tlv_Serializer.thy ===== *)
theory Tlv_Serializer
  imports Byte_Order
begin

text \<open>
  \<open>include/rpc/serializer.h\<close> and \<open>src/serializer.cpp\<close>: the type-length-value
  serializer. The state is the byte buffer and the read position; a writer appends, a reader
  advances the position as far as it got, also when it then fails. A \<open>float\<close> or
  \<open>double\<close> is its object representation, the word \<open>memcpy\<close> moves it through. Positions
  are \<open>nat\<close>: a buffer of the program is shorter than \<open>2\<^sup>6\<^sup>3\<close> bytes, so no
  \<open>size_t\<close> sum of the code wraps.
\<close>

subsection \<open>State and tags\<close>

record serializer =
  ser_buffer :: bytes
  read_pos :: nat

datatype value_type = TInt32 | TInt64 | TFloat | TDouble | TString | TBool

fun value_type_byte :: "value_type \<Rightarrow> byte" where
  "value_type_byte TInt32 = 0x01"
| "value_type_byte TInt64 = 0x02"
| "value_type_byte TFloat = 0x03"
| "value_type_byte TDouble = 0x04"
| "value_type_byte TString = 0x05"
| "value_type_byte TBool = 0x06"

definition empty_writer :: serializer where
  "empty_writer = \<lparr>ser_buffer = [], read_pos = 0\<rparr>"

definition make_reader :: "bytes \<Rightarrow> serializer" where
  "make_reader data = \<lparr>ser_buffer = data, read_pos = 0\<rparr>"

subsection \<open>Writers\<close>

definition WriteRawBytes :: "bytes \<Rightarrow> serializer \<Rightarrow> serializer" where
  "WriteRawBytes data s = s\<lparr>ser_buffer := ser_buffer s @ data\<rparr>"

definition WriteType :: "value_type \<Rightarrow> serializer \<Rightarrow> serializer" where
  "WriteType t s = s\<lparr>ser_buffer := ser_buffer s @ [value_type_byte t]\<rparr>"

definition WriteLength :: "u32 \<Rightarrow> serializer \<Rightarrow> serializer" where
  "WriteLength len s = s\<lparr>ser_buffer := ser_buffer s @ store_le 4 (HostToNetwork32 len)\<rparr>"

definition WriteInt32 :: "i32 \<Rightarrow> serializer \<Rightarrow> serializer" where
  "WriteInt32 v s =
     WriteRawBytes (store_le 4 (HostToNetwork32 v)) (WriteLength 4 (WriteType TInt32 s))"

definition WriteInt64 :: "i64 \<Rightarrow> serializer \<Rightarrow> serializer" where
  "WriteInt64 v s =
     WriteRawBytes (store_le 8 (HostToNetwork64 v)) (WriteLength 8 (WriteType TInt64 s))"

definition WriteFloat :: "u32 \<Rightarrow> serializer \<Rightarrow> serializer" where
  "WriteFloat bits s =
     WriteRawBytes (store_le 4 (HostToNetwork32 bits)) (WriteLength 4 (WriteType TFloat s))"

definition WriteDouble :: "u64 \<Rightarrow> serializer \<Rightarrow> serializer" where
  "WriteDouble bits s =
     WriteRawBytes (store_le 8 (HostToNetwork64 bits)) (WriteLength 8 (WriteType TDouble s))"

text \<open>\<open>static_cast<uint32_t>(value.size())\<close> keeps the low 32 bits of the length.\<close>

definition WriteString :: "string \<Rightarrow> serializer \<Rightarrow> serializer" where
  "WriteString v s =
     WriteRawBytes (bytes_of_string v)
       (WriteLength (word_of_nat (length v)) (WriteType TString s))"

definition WriteBool :: "bool \<Rightarrow> serializer \<Rightarrow> serializer" where
  "WriteBool v s = WriteRawBytes [if v then 1 else 0] (WriteLength 1 (WriteType TBool s))"

subsection \<open>Readers\<close>

definition CanRead :: "nat \<Rightarrow> serializer \<Rightarrow> bool" where
  "CanRead need s \<longleftrightarrow> read_pos s + need \<le> length (ser_buffer s)"

text \<open>\<open>memcpy\<close> from the read position, then \<open>read_pos_ += n\<close>.\<close>

definition peek_bytes :: "nat \<Rightarrow> serializer \<Rightarrow> bytes" where
  "peek_bytes n s = take n (drop (read_pos s) (ser_buffer s))"

definition skip_bytes :: "nat \<Rightarrow> serializer \<Rightarrow> serializer" where
  "skip_bytes n s = s\<lparr>read_pos := read_pos s + n\<rparr>"

definition ReadRawBytes :: "nat \<Rightarrow> serializer \<Rightarrow> bytes option \<times> serializer" where
  "ReadRawBytes len s =
     (if \<not> CanRead len s then (None, s) else (Some (peek_bytes len s), skip_bytes len s))"

text \<open>
  The first two steps every \<open>Read\<close> repeats: the type byte (left in place when it does not
  match) and the length (consumed also when the caller then rejects it).
\<close>

definition ReadTag :: "value_type \<Rightarrow> serializer \<Rightarrow> bool \<times> serializer" where
  "ReadTag t s =
     (if \<not> CanRead 1 s then (False, s)
      else if ser_buffer s ! read_pos s \<noteq> value_type_byte t then (False, s)
      else (True, skip_bytes 1 s))"

definition ReadLength :: "serializer \<Rightarrow> u32 option \<times> serializer" where
  "ReadLength s =
     (if \<not> CanRead 4 s then (None, s)
      else (Some (NetworkToHost32 (load_le (peek_bytes 4 s))), skip_bytes 4 s))"

text \<open>The fixed-size readers: tag, length equal to the size of the type, value.\<close>

definition ReadFixed ::
  "value_type \<Rightarrow> u32 \<Rightarrow> (bytes \<Rightarrow> 'v) \<Rightarrow> serializer \<Rightarrow> 'v option \<times> serializer" where
  "ReadFixed t sz conv s =
     (case ReadTag t s of
        (False, s1) \<Rightarrow> (None, s1)
      | (True, s1) \<Rightarrow>
          (case ReadLength s1 of
             (None, s2) \<Rightarrow> (None, s2)
           | (Some len, s2) \<Rightarrow>
               (if len \<noteq> sz then (None, s2)
                else if \<not> CanRead (unat sz) s2 then (None, s2)
                else (Some (conv (peek_bytes (unat sz) s2)), skip_bytes (unat sz) s2))))"

definition ReadInt32 :: "serializer \<Rightarrow> i32 option \<times> serializer" where
  "ReadInt32 = ReadFixed TInt32 4 (\<lambda>bs. NetworkToHost32 (load_le bs))"

definition ReadInt64 :: "serializer \<Rightarrow> i64 option \<times> serializer" where
  "ReadInt64 = ReadFixed TInt64 8 (\<lambda>bs. NetworkToHost64 (load_le bs))"

definition ReadFloat :: "serializer \<Rightarrow> u32 option \<times> serializer" where
  "ReadFloat = ReadFixed TFloat 4 (\<lambda>bs. NetworkToHost32 (load_le bs))"

definition ReadDouble :: "serializer \<Rightarrow> u64 option \<times> serializer" where
  "ReadDouble = ReadFixed TDouble 8 (\<lambda>bs. NetworkToHost64 (load_le bs))"

definition ReadBool :: "serializer \<Rightarrow> bool option \<times> serializer" where
  "ReadBool = ReadFixed TBool 1 (\<lambda>bs. bs ! 0 \<noteq> 0)"

definition ReadString :: "serializer \<Rightarrow> string option \<times> serializer" where
  "ReadString s =
     (case ReadTag TString s of
        (False, s1) \<Rightarrow> (None, s1)
      | (True, s1) \<Rightarrow>
          (case ReadLength s1 of
             (None, s2) \<Rightarrow> (None, s2)
           | (Some len, s2) \<Rightarrow>
               (if \<not> CanRead (unat len) s2 then (None, s2)
                else (Some (string_of_bytes (peek_bytes (unat len) s2)),
                      skip_bytes (unat len) s2))))"

subsection \<open>The encoding of a value\<close>

definition tlv :: "value_type \<Rightarrow> bytes \<Rightarrow> bytes" where
  "tlv t payload = value_type_byte t # be_bytes 4 (word_of_nat (length payload) :: u32) @ payload"

lemmas writer_defs = WriteRawBytes_def WriteType_def WriteLength_def WriteInt32_def WriteInt64_def
  WriteFloat_def WriteDouble_def WriteString_def WriteBool_def

lemma length_tlv [simp]: "length (tlv t p) = 5 + length p"
  by (simp add: tlv_def)

subsection \<open>Reading what remains\<close>

definition remaining :: "serializer \<Rightarrow> bytes" where
  "remaining s = drop (read_pos s) (ser_buffer s)"

lemma remaining_skip [simp]: "remaining (skip_bytes n s) = drop n (remaining s)"
  by (simp add: remaining_def skip_bytes_def add.commute)

lemma skip_skip [simp]: "skip_bytes m (skip_bytes n s) = skip_bytes (n + m) s"
  by (simp add: skip_bytes_def add.assoc)

lemma peek_remaining: "peek_bytes n s = take n (remaining s)"
  by (simp add: peek_bytes_def remaining_def)

lemma CanRead_remaining: "0 < n \<Longrightarrow> CanRead n s \<longleftrightarrow> n \<le> length (remaining s)"
  by (auto simp: CanRead_def remaining_def)

lemma CanRead_0: "remaining s \<noteq> [] \<or> read_pos s = length (ser_buffer s) \<Longrightarrow> CanRead 0 s"
  by (auto simp: CanRead_def remaining_def)

lemma nth_remaining: "remaining s = b # r \<Longrightarrow> ser_buffer s ! read_pos s = b"
  by (metis drop_eq_Nil hd_drop_conv_nth linorder_not_le list.discI list.sel(1) remaining_def)

lemma ReadTag_remaining:
  "ReadTag t s = (case remaining s of [] \<Rightarrow> (False, s)
     | b # r \<Rightarrow> if b = value_type_byte t then (True, skip_bytes 1 s) else (False, s))"
  by (auto simp: ReadTag_def CanRead_remaining nth_remaining split: list.split)

lemma ReadLength_remaining:
  "ReadLength s =
     (if length (remaining s) < 4 then (None, s)
      else (Some (NetworkToHost32 (load_le (take 4 (remaining s)))), skip_bytes 4 s))"
  by (auto simp: ReadLength_def CanRead_remaining peek_remaining)

text \<open>The two header steps on an encoded value, complete or cut short.\<close>

lemma header_tlv:
  assumes "remaining s = take k (tlv t p @ rest)" and "length p < 2 ^ 32" and "5 \<le> k"
  shows "ReadTag t s = (True, skip_bytes 1 s)"
    and "ReadLength (skip_bytes 1 s) = (Some (word_of_nat (length p)), skip_bytes 5 s)"
proof -
  from assms obtain m where k: "k = Suc m" and m: "4 \<le> m"
    by (cases k) auto
  have r: "remaining s = value_type_byte t # take m (be_bytes 4 (word_of_nat (length p) :: u32) @ p @ rest)"
    by (simp add: assms(1) tlv_def k)
  then show "ReadTag t s = (True, skip_bytes 1 s)"
    by (simp add: ReadTag_remaining)
  show "ReadLength (skip_bytes 1 s) = (Some (word_of_nat (length p)), skip_bytes 5 s)"
    using m by (simp add: ReadLength_remaining r min_def load_net)
qed

lemma header_short:
  assumes "remaining s = take k (tlv t p)" and "k < 5"
  shows "\<exists>b s1. ReadTag t s = (b, s1) \<and> (b \<longrightarrow> ReadLength s1 = (None, s1))"
  using assms by (cases k) (auto simp: ReadTag_remaining ReadLength_remaining tlv_def)

lemma ReadTag_bounds:
  "ReadTag t s = (b, s') \<Longrightarrow> read_pos s \<le> length (ser_buffer s) \<Longrightarrow>
     ser_buffer s' = ser_buffer s \<and> read_pos s \<le> read_pos s' \<and> read_pos s' \<le> length (ser_buffer s)"
  by (auto simp: ReadTag_def CanRead_def skip_bytes_def split: if_splits)

lemma ReadLength_bounds:
  "ReadLength s = (r, s') \<Longrightarrow> read_pos s \<le> length (ser_buffer s) \<Longrightarrow>
     ser_buffer s' = ser_buffer s \<and> read_pos s \<le> read_pos s' \<and> read_pos s' \<le> length (ser_buffer s)"
  by (auto simp: ReadLength_def CanRead_def skip_bytes_def split: if_splits)

lemma ReadFixed_bounds:
  assumes "ReadFixed t sz conv s = (r, s')" and "read_pos s \<le> length (ser_buffer s)"
  shows "ser_buffer s' = ser_buffer s \<and> read_pos s \<le> read_pos s' \<and>
    read_pos s' \<le> length (ser_buffer s)"
proof -
  obtain b s1 where t: "ReadTag t s = (b, s1)" by force
  obtain l s2 where l: "ReadLength s1 = (l, s2)" by force
  from ReadTag_bounds [OF t assms(2)] ReadLength_bounds [OF l]
  show ?thesis using assms(1) t l
    by (auto simp: ReadFixed_def CanRead_def skip_bytes_def split: bool.splits option.splits if_splits)
qed

lemma ReadString_bounds:
  assumes "ReadString s = (r, s')" and "read_pos s \<le> length (ser_buffer s)"
  shows "ser_buffer s' = ser_buffer s \<and> read_pos s \<le> read_pos s' \<and>
    read_pos s' \<le> length (ser_buffer s)"
proof -
  obtain b s1 where t: "ReadTag TString s = (b, s1)" by force
  obtain l s2 where l: "ReadLength s1 = (l, s2)" by force
  from ReadTag_bounds [OF t assms(2)] ReadLength_bounds [OF l]
  show ?thesis using assms(1) t l
    by (auto simp: ReadString_def CanRead_def skip_bytes_def split: bool.splits option.splits if_splits)
qed

lemma unat_size_u32: "unat sz = n \<Longrightarrow> n < 2 ^ 32 \<and> word_of_nat n = (sz :: u32)"
proof -
  assume "unat sz = n"
  moreover have "unat sz < 2 ^ LENGTH(32)" by (rule unsigned_less)
  ultimately show ?thesis by auto
qed

lemma ReadFixed_tlv:
  assumes "remaining s = tlv t p @ rest" and "unat sz = length p" and "p \<noteq> []"
  shows "ReadFixed t sz conv s = (Some (conv p), skip_bytes (length (tlv t p)) s)"
proof -
  have fits: "length p < 2 ^ 32" "word_of_nat (length p) = sz"
    using unat_size_u32 [OF assms(2)] by auto
  have h: "ReadTag t s = (True, skip_bytes 1 s)"
    "ReadLength (skip_bytes 1 s) = (Some sz, skip_bytes 5 s)"
    using header_tlv [of s "length (tlv t p @ rest)" t p rest] assms fits by auto
  have "drop 5 (tlv t p @ rest) = p @ rest" by (simp add: tlv_def)
  with h assms fits show ?thesis
    by (simp add: ReadFixed_def CanRead_remaining peek_remaining)
qed

lemma ReadFixed_short:
  assumes "remaining s = take k (tlv t p)" and "k < length (tlv t p)"
    and "unat sz = length p" and "p \<noteq> []"
  shows "fst (ReadFixed t sz conv s) = None"
proof (cases "k < 5")
  case True
  then show ?thesis using header_short [OF assms(1)]
    by (auto simp: ReadFixed_def split: bool.splits option.splits)
next
  case False
  have fits: "length p < 2 ^ 32" "word_of_nat (length p) = sz"
    using unat_size_u32 [OF assms(3)] by auto
  have h: "ReadTag t s = (True, skip_bytes 1 s)"
    "ReadLength (skip_bytes 1 s) = (Some sz, skip_bytes 5 s)"
    using header_tlv [of s k t p "[]"] assms fits False by auto
  show ?thesis using h assms False
    by (simp add: ReadFixed_def CanRead_remaining)
qed

lemma ReadString_tlv:
  assumes "remaining s = tlv TString (bytes_of_string v) @ rest" and "length v < 2 ^ 32"
  shows "ReadString s = (Some v, skip_bytes (length (tlv TString (bytes_of_string v))) s)"
proof -
  let ?p = "bytes_of_string v"
  have h: "ReadTag TString s = (True, skip_bytes 1 s)"
    "ReadLength (skip_bytes 1 s) = (Some (word_of_nat (length v)), skip_bytes 5 s)"
    using header_tlv [of s "length (tlv TString ?p @ rest)" TString ?p rest] assms by auto
  have d: "drop 5 (tlv TString ?p @ rest) = ?p @ rest" by (simp add: tlv_def)
  have u: "unat (word_of_nat (length v) :: u32) = length v"
    using assms(2) by (simp add: unat_of_nat)
  have "read_pos s + 5 + length v \<le> length (ser_buffer s)"
    using arg_cong [OF assms(1), of length] by (simp add: remaining_def)
  then have "CanRead (length v) (skip_bytes 5 s)"
    by (simp add: CanRead_def skip_bytes_def)
  with h d u assms show ?thesis
    by (simp add: ReadString_def peek_remaining)
qed

lemma ReadString_short:
  assumes "remaining s = take k (tlv TString (bytes_of_string v))"
    and "k < length (tlv TString (bytes_of_string v))" and "length v < 2 ^ 32"
  shows "fst (ReadString s) = None"
proof (cases "k < 5")
  case True
  then show ?thesis using header_short [OF assms(1)]
    by (auto simp: ReadString_def split: bool.splits option.splits)
next
  case False
  let ?p = "bytes_of_string v"
  have h: "ReadTag TString s = (True, skip_bytes 1 s)"
    "ReadLength (skip_bytes 1 s) = (Some (word_of_nat (length v)), skip_bytes 5 s)"
    using header_tlv [of s k TString ?p "[]"] assms False by auto
  have u: "unat (word_of_nat (length v) :: u32) = length v"
    using assms(3) by (simp add: unat_of_nat)
  have "0 < length v" using assms(2) False by (cases v) simp_all
  then have "\<not> CanRead (length v) (skip_bytes 5 s)"
    using assms False by (auto simp: CanRead_remaining)
  with h u show ?thesis by (simp add: ReadString_def)
qed

lemma ReadFixed_tag:
  "CanRead 1 s \<Longrightarrow> ser_buffer s ! read_pos s \<noteq> value_type_byte t \<Longrightarrow>
     ReadFixed t sz conv s = (None, s)"
  by (simp add: ReadFixed_def ReadTag_def)

lemma ReadString_tag:
  "CanRead 1 s \<Longrightarrow> ser_buffer s ! read_pos s \<noteq> value_type_byte TString \<Longrightarrow>
     ReadString s = (None, s)"
  by (simp add: ReadString_def ReadTag_def)

subsection \<open>The contract of a value codec\<close>

text \<open>
  What a caller that stores a value of one type relies on. The writer appends one encoding; the
  reader, standing on an encoding of a value the format can hold, returns the value and stops
  right after it; on an encoding that is cut short it fails; on a value of another type it fails
  and does not move; and it never leaves the buffer.
\<close>

locale tlv_codec =
  fixes wr :: "'v \<Rightarrow> serializer \<Rightarrow> serializer"
    and rd :: "serializer \<Rightarrow> 'v option \<times> serializer"
    and tag :: value_type
    and payload :: "'v \<Rightarrow> bytes"
    and fits :: "'v \<Rightarrow> bool"
  assumes wr_appends: "wr v s = s\<lparr>ser_buffer := ser_buffer s @ tlv tag (payload v)\<rparr>"
    and rd_value: "fits v \<Longrightarrow> remaining s = tlv tag (payload v) @ rest \<Longrightarrow>
      rd s = (Some v, skip_bytes (length (tlv tag (payload v))) s)"
    and rd_short: "fits v \<Longrightarrow> k < length (tlv tag (payload v)) \<Longrightarrow>
      remaining s = take k (tlv tag (payload v)) \<Longrightarrow> fst (rd s) = None"
    and rd_other: "CanRead 1 s \<Longrightarrow> ser_buffer s ! read_pos s \<noteq> value_type_byte tag \<Longrightarrow>
      rd s = (None, s)"
    and rd_bounds: "rd s = (r, s') \<Longrightarrow> read_pos s \<le> length (ser_buffer s) \<Longrightarrow>
      ser_buffer s' = ser_buffer s \<and> read_pos s \<le> read_pos s' \<and>
      read_pos s' \<le> length (ser_buffer s)"
begin

lemma rd_after: "fits v \<Longrightarrow> remaining s = tlv tag (payload v) @ rest \<Longrightarrow>
    \<exists>s'. rd s = (Some v, s') \<and> remaining s' = rest"
  by (simp add: rd_value)

lemma rd_wr_empty: "fits v \<Longrightarrow> fst (rd (make_reader (ser_buffer (wr v empty_writer)))) = Some v"
  using rd_value [of v "make_reader (ser_buffer (wr v empty_writer))" "[]"]
  by (simp add: wr_appends make_reader_def empty_writer_def remaining_def)

end

lemma length_be_u32 [simp]: "length (be_bytes 4 (w :: u32)) = 4"
  by simp

lemma fixed_codec:
  assumes "\<And>v s. wr v s = s\<lparr>ser_buffer := ser_buffer s @ tlv t (pl v)\<rparr>"
    and "\<And>v. unat sz = length (pl v)" and "\<And>v. pl v \<noteq> []" and "\<And>v. conv (pl v) = v"
  shows "tlv_codec wr (ReadFixed t sz conv) t pl (\<lambda>_. True)"
proof
  fix v s rest assume "remaining s = tlv t (pl v) @ rest"
  then show "ReadFixed t sz conv s = (Some v, skip_bytes (length (tlv t (pl v))) s)"
    using assms by (simp add: ReadFixed_tlv)
next
  fix v k s assume "k < length (tlv t (pl v))" "remaining s = take k (tlv t (pl v))"
  then show "fst (ReadFixed t sz conv s) = None"
    using assms by (intro ReadFixed_short)
next
  fix s r s' assume "ReadFixed t sz conv s = (r, s')" "read_pos s \<le> length (ser_buffer s)"
  then show "ser_buffer s' = ser_buffer s \<and> read_pos s \<le> read_pos s' \<and>
      read_pos s' \<le> length (ser_buffer s)"
    by (rule ReadFixed_bounds)
qed (simp_all add: assms ReadFixed_tag)

lemma be_bytes_nonempty [simp]: "0 < n \<Longrightarrow> be_bytes n w \<noteq> []"
  by (metis length_be_bytes length_greater_0_conv)

interpretation int32: tlv_codec WriteInt32 ReadInt32 TInt32 "be_bytes 4" "\<lambda>_. True"
  unfolding ReadInt32_def by (rule fixed_codec) (simp_all add: writer_defs wire_simps tlv_def)

interpretation int64: tlv_codec WriteInt64 ReadInt64 TInt64 "be_bytes 8" "\<lambda>_. True"
  unfolding ReadInt64_def by (rule fixed_codec) (simp_all add: writer_defs wire_simps tlv_def)

interpretation float32: tlv_codec WriteFloat ReadFloat TFloat "be_bytes 4" "\<lambda>_. True"
  unfolding ReadFloat_def by (rule fixed_codec) (simp_all add: writer_defs wire_simps tlv_def)

interpretation float64: tlv_codec WriteDouble ReadDouble TDouble "be_bytes 8" "\<lambda>_. True"
  unfolding ReadDouble_def by (rule fixed_codec) (simp_all add: writer_defs wire_simps tlv_def)

interpretation boolean: tlv_codec WriteBool ReadBool TBool "\<lambda>v. [if v then 1 else 0]" "\<lambda>_. True"
  unfolding ReadBool_def by (rule fixed_codec) (simp_all add: writer_defs wire_simps tlv_def)

interpretation str: tlv_codec WriteString ReadString TString bytes_of_string
  "\<lambda>v. length v < 2 ^ 32"
proof
  fix v s show "WriteString v s = s\<lparr>ser_buffer := ser_buffer s @ tlv TString (bytes_of_string v)\<rparr>"
    by (simp add: writer_defs wire_simps tlv_def)
next
  fix v s rest assume "length v < 2 ^ 32" "remaining s = tlv TString (bytes_of_string v) @ rest"
  then show "ReadString s = (Some v, skip_bytes (length (tlv TString (bytes_of_string v))) s)"
    by (intro ReadString_tlv)
next
  fix v k s assume "length v < 2 ^ 32" "k < length (tlv TString (bytes_of_string v))"
    "remaining s = take k (tlv TString (bytes_of_string v))"
  then show "fst (ReadString s) = None" by (intro ReadString_short)
next
  fix s r s' assume "ReadString s = (r, s')" "read_pos s \<le> length (ser_buffer s)"
  then show "ser_buffer s' = ser_buffer s \<and> read_pos s \<le> read_pos s' \<and>
      read_pos s' \<le> length (ser_buffer s)"
    by (rule ReadString_bounds)
qed (rule ReadString_tag)

subsection \<open>Sequences of values\<close>

text \<open>
  A caller writes the fields of a message one after the other and reads them back in the same
  order, giving up at the first \<open>nullopt\<close> (the usage the header documents).
\<close>

datatype tlv_value =
  VInt32 i32 | VInt64 i64 | VFloat u32 | VDouble u64 | VString string | VBool bool

fun type_of_value :: "tlv_value \<Rightarrow> value_type" where
  "type_of_value (VInt32 _) = TInt32"
| "type_of_value (VInt64 _) = TInt64"
| "type_of_value (VFloat _) = TFloat"
| "type_of_value (VDouble _) = TDouble"
| "type_of_value (VString _) = TString"
| "type_of_value (VBool _) = TBool"

fun write_value :: "tlv_value \<Rightarrow> serializer \<Rightarrow> serializer" where
  "write_value (VInt32 v) = WriteInt32 v"
| "write_value (VInt64 v) = WriteInt64 v"
| "write_value (VFloat v) = WriteFloat v"
| "write_value (VDouble v) = WriteDouble v"
| "write_value (VString v) = WriteString v"
| "write_value (VBool v) = WriteBool v"

fun read_value :: "value_type \<Rightarrow> serializer \<Rightarrow> tlv_value option \<times> serializer" where
  "read_value TInt32 s = (case ReadInt32 s of (r, s') \<Rightarrow> (map_option VInt32 r, s'))"
| "read_value TInt64 s = (case ReadInt64 s of (r, s') \<Rightarrow> (map_option VInt64 r, s'))"
| "read_value TFloat s = (case ReadFloat s of (r, s') \<Rightarrow> (map_option VFloat r, s'))"
| "read_value TDouble s = (case ReadDouble s of (r, s') \<Rightarrow> (map_option VDouble r, s'))"
| "read_value TString s = (case ReadString s of (r, s') \<Rightarrow> (map_option VString r, s'))"
| "read_value TBool s = (case ReadBool s of (r, s') \<Rightarrow> (map_option VBool r, s'))"

fun read_values :: "value_type list \<Rightarrow> serializer \<Rightarrow> tlv_value list option \<times> serializer" where
  "read_values [] s = (Some [], s)"
| "read_values (t # ts) s =
     (case read_value t s of
        (None, s1) \<Rightarrow> (None, s1)
      | (Some v, s1) \<Rightarrow>
          (case read_values ts s1 of (r, s2) \<Rightarrow> (map_option ((#) v) r, s2)))"

fun value_fits :: "tlv_value \<Rightarrow> bool" where
  "value_fits (VString v) = (length v < 2 ^ 32)"
| "value_fits _ = True"

fun value_payload :: "tlv_value \<Rightarrow> bytes" where
  "value_payload (VInt32 v) = be_bytes 4 v"
| "value_payload (VInt64 v) = be_bytes 8 v"
| "value_payload (VFloat v) = be_bytes 4 v"
| "value_payload (VDouble v) = be_bytes 8 v"
| "value_payload (VString v) = bytes_of_string v"
| "value_payload (VBool v) = [if v then 1 else 0]"

definition value_enc :: "tlv_value \<Rightarrow> bytes" where
  "value_enc v = tlv (type_of_value v) (value_payload v)"

lemma write_value_enc: "write_value v s = s\<lparr>ser_buffer := ser_buffer s @ value_enc v\<rparr>"
  by (cases v) (simp_all add: value_enc_def int32.wr_appends int64.wr_appends
      float32.wr_appends float64.wr_appends boolean.wr_appends str.wr_appends)

lemma write_values_enc:
  "fold write_value vs s = s\<lparr>ser_buffer := ser_buffer s @ concat (map value_enc vs)\<rparr>"
  by (induction vs arbitrary: s) (simp_all add: write_value_enc)

lemma read_value_enc:
  assumes "value_fits v" and "remaining s = value_enc v @ rest"
  shows "read_value (type_of_value v) s = (Some v, skip_bytes (length (value_enc v)) s)"
  using assms unfolding value_enc_def
  by (cases v) (simp_all add: int32.rd_value int64.rd_value float32.rd_value float64.rd_value
      boolean.rd_value str.rd_value del: length_tlv)

lemma fst_read_value:
  "fst (read_value TInt32 s) = map_option VInt32 (fst (ReadInt32 s))"
  "fst (read_value TInt64 s) = map_option VInt64 (fst (ReadInt64 s))"
  "fst (read_value TFloat s) = map_option VFloat (fst (ReadFloat s))"
  "fst (read_value TDouble s) = map_option VDouble (fst (ReadDouble s))"
  "fst (read_value TString s) = map_option VString (fst (ReadString s))"
  "fst (read_value TBool s) = map_option VBool (fst (ReadBool s))"
  by (simp_all split: prod.split)

lemma read_value_short:
  assumes "value_fits v" and "k < length (value_enc v)" and "remaining s = take k (value_enc v)"
  shows "fst (read_value (type_of_value v) s) = None"
  using assms unfolding value_enc_def
  by (cases v)
    (simp_all only: type_of_value.simps value_payload.simps fst_read_value option.map_disc_iff
      value_fits.simps int32.rd_short int64.rd_short float32.rd_short float64.rd_short
      boolean.rd_short str.rd_short)

lemma read_value_other:
  assumes "remaining s = value_enc v @ rest" and "t \<noteq> type_of_value v"
  shows "read_value t s = (None, s)"
proof -
  have r: "CanRead 1 s" "ser_buffer s ! read_pos s = value_type_byte (type_of_value v)"
    using assms(1) nth_remaining [of s] by (simp_all add: CanRead_remaining value_enc_def tlv_def)
  have ne: "value_type_byte (type_of_value v) \<noteq> value_type_byte t"
    using assms(2) by (cases v; cases t) simp_all
  from r ne show ?thesis
    by (cases t) (simp_all add: int32.rd_other int64.rd_other float32.rd_other float64.rd_other
        boolean.rd_other str.rd_other)
qed

lemma read_value_bounds:
  assumes "read_value t s = (r, s')" and "read_pos s \<le> length (ser_buffer s)"
  shows "ser_buffer s' = ser_buffer s \<and> read_pos s \<le> read_pos s' \<and>
    read_pos s' \<le> length (ser_buffer s)"
  using assms by (cases t)
    (auto split: prod.splits dest: int32.rd_bounds int64.rd_bounds float32.rd_bounds
      float64.rd_bounds boolean.rd_bounds str.rd_bounds)

lemma read_values_enc:
  assumes "\<forall>v \<in> set vs. value_fits v" and "remaining s = concat (map value_enc vs) @ rest"
  shows "\<exists>s'. read_values (map type_of_value vs) s = (Some vs, s') \<and> remaining s' = rest"
  using assms
proof (induction vs arbitrary: s)
  case Nil
  then show ?case by simp
next
  case (Cons v vs)
  then have "read_value (type_of_value v) s = (Some v, skip_bytes (length (value_enc v)) s)"
    by (intro read_value_enc [where rest = "concat (map value_enc vs) @ rest"]) simp_all
  moreover have "remaining (skip_bytes (length (value_enc v)) s) = concat (map value_enc vs) @ rest"
    using Cons.prems by simp
  ultimately show ?case using Cons.IH Cons.prems(1) by fastforce
qed

lemma read_values_short:
  assumes "\<forall>v \<in> set vs. value_fits v" and "k < length (concat (map value_enc vs))"
    and "remaining s = take k (concat (map value_enc vs))"
  shows "fst (read_values (map type_of_value vs) s) = None"
  using assms
proof (induction vs arbitrary: s k)
  case Nil
  then show ?case by simp
next
  case (Cons v vs)
  let ?n = "length (value_enc v)"
  show ?case
  proof (cases "k < ?n")
    case True
    with Cons.prems have "fst (read_value (type_of_value v) s) = None"
      by (intro read_value_short) simp_all
    then show ?thesis by (auto split: prod.split option.split)
  next
    case False
    with Cons.prems have "read_value (type_of_value v) s = (Some v, skip_bytes ?n s)"
      by (intro read_value_enc [where rest = "take (k - ?n) (concat (map value_enc vs))"]) simp_all
    moreover have "fst (read_values (map type_of_value vs) (skip_bytes ?n s)) = None"
      using Cons.prems False by (intro Cons.IH [of "k - ?n"]) auto
    ultimately show ?thesis
      by (cases "read_values (map type_of_value vs) (skip_bytes ?n s)") simp
  qed
qed

lemma read_values_bounds:
  "read_values ts s = (r, s') \<Longrightarrow> read_pos s \<le> length (ser_buffer s) \<Longrightarrow>
     ser_buffer s' = ser_buffer s \<and> read_pos s' \<le> length (ser_buffer s)"
proof (induction ts arbitrary: s r s')
  case Nil
  then show ?case by simp
next
  case (Cons t ts)
  obtain q s1 where q: "read_value t s = (q, s1)" by force
  from read_value_bounds [OF q Cons.prems(2)] Cons.prems(1) Cons.IH [of s1] q show ?case
    by (cases q) (auto split: prod.splits)
qed

subsection \<open>Properties\<close>

text \<open>
  C1. Round trip of the serializer: whatever sequence of values is written, reading the buffer
  back with the same sequence of types gives exactly those values (a string is shorter than
  \<open>2\<^sup>3\<^sup>2\<close> bytes, the range of the length field).
\<close>

theorem serializer_roundtrip:
  assumes "\<forall>v \<in> set vs. value_fits v"
  shows "fst (read_values (map type_of_value vs)
    (make_reader (ser_buffer (fold write_value vs empty_writer)))) = Some vs"
  using read_values_enc [OF assms, of "make_reader (ser_buffer (fold write_value vs empty_writer))" "[]"]
  by (auto simp: write_values_enc make_reader_def empty_writer_def remaining_def)

theorem serializer_roundtrip_witness:
  "fst (read_values [TInt32, TString, TBool] (make_reader (ser_buffer
     (fold write_value [VInt32 (- 3), VString ''hello'', VBool True] empty_writer)))) =
   Some [VInt32 (- 3), VString ''hello'', VBool True]"
  using serializer_roundtrip [of "[VInt32 (- 3), VString ''hello'', VBool True]"] by simp

text \<open>
  A message that is cut short at any point is rejected: reading the fields from a strict
  prefix of the encoding yields no values.
\<close>

lemma serializer_truncated:
  assumes "\<forall>v \<in> set vs. value_fits v"
    and "k < length (ser_buffer (fold write_value vs empty_writer))"
  shows "fst (read_values (map type_of_value vs)
    (make_reader (take k (ser_buffer (fold write_value vs empty_writer))))) = None"
  using assms
  by (intro read_values_short [where k = k])
    (simp_all add: write_values_enc make_reader_def empty_writer_def remaining_def)

lemma serializer_truncated_witness:
  "fst (read_values [TInt32, TBool] (make_reader (take 10 (ser_buffer
     (fold write_value [VInt32 7, VBool False] empty_writer))))) = None"
proof -
  have "10 < length (ser_buffer (fold write_value [VInt32 7, VBool False] empty_writer))"
    by (simp add: writer_defs empty_writer_def)
  from serializer_truncated [OF _ this] show ?thesis
    by (simp del: read_values.simps fold_simps)
qed

text \<open>
  A reader standing on a value of another type returns nothing and does not move, so the
  caller can still read the value as what it is.
\<close>

lemma serializer_type_mismatch:
  assumes "remaining s = ser_buffer (write_value v empty_writer) @ rest"
    and "t \<noteq> type_of_value v"
  shows "read_value t s = (None, s)"
  using assms by (intro read_value_other) (simp_all add: write_value_enc empty_writer_def)

lemma serializer_type_mismatch_witness:
  "read_value TInt64 (make_reader (ser_buffer (WriteInt32 5 empty_writer))) =
     (None, make_reader (ser_buffer (WriteInt32 5 empty_writer)))"
  using serializer_type_mismatch
    [of "make_reader (ser_buffer (WriteInt32 5 empty_writer))" "VInt32 5" "[]" TInt64]
  by (simp add: make_reader_def remaining_def)

text \<open>
  No read leaves the buffer: on arbitrary bytes, whatever types are asked for, the reader
  ends with its position inside the data it was given, and the data unchanged.
\<close>

lemma reader_stays_in_buffer:
  "read_pos (snd (read_values ts (make_reader data))) \<le> length data \<and>
   ser_buffer (snd (read_values ts (make_reader data))) = data"
  using read_values_bounds [of ts "make_reader data"]
  by (cases "read_values ts (make_reader data)") (simp add: make_reader_def)

end
