(* ===== verification/Rpc_Server.thy ===== *)
theory Rpc_Server
  imports Stream_Connection Rpc_Dispatch Tlv_Serializer
begin

text \<open>
  The RPC mode of \<open>bench/bench_server.cpp\<close>: the frame callback that dispatches a request and sends
  the response, for any table of methods, and the two methods \<open>Add\<close> and \<open>Sub\<close> the program
  registers. Signed overflow of the two, which C++ leaves undefined, wraps here.
\<close>

subsection \<open>Methods\<close>

definition two_ints :: "(i32 \<Rightarrow> i32 \<Rightarrow> i32) \<Rightarrow> 's handler" where
  "two_ints g bdy s =
     (let (a, r1) = ReadInt32 (make_reader bdy);
          (b, _) = ReadInt32 r1
      in (case (a, b) of
            (Some x, Some y) \<Rightarrow> Some (ser_buffer (WriteInt32 (g x y) empty_writer))
          | _ \<Rightarrow> None, s))"

definition AddHandler :: "'s handler" where
  "AddHandler = two_ints (\<lambda>a b. a + b)"

definition SubHandler :: "'s handler" where
  "SubHandler = two_ints (\<lambda>a b. a - b)"

definition bench_dispatch :: "'s dispatch" where
  "bench_dispatch = RegisterMethod ''Sub'' SubHandler (RegisterMethod ''Add'' AddHandler empty_dispatch)"

subsection \<open>The frame callback\<close>

definition server_reply :: "'s dispatch \<Rightarrow> frame \<Rightarrow> 's \<Rightarrow> bytes \<times> 's" where
  "server_reply d f s =
     (case DispatchCall d (method_name f) (body f) s of
        (Some r, s') \<Rightarrow> (Encode (request_id f) Response (method_name f) r, s')
      | (None, s') \<Rightarrow> (Encode (request_id f) Error (method_name f) [], s'))"

text \<open>
  The callbacks of one read, with the answers of the \<open>send\<close> each of them makes; a missing answer
  is read as \<open>EAGAIN\<close>. A callback only appends to the connection it answers on, so running them
  after the read is the same as running them between the frames.
\<close>

fun next_answer :: "send_result list \<Rightarrow> send_result" where
  "next_answer [] = SendAgain"
| "next_answer (r # rs) = r"

fun serve_frames :: "'s dispatch \<Rightarrow> frame list \<Rightarrow> send_result list \<Rightarrow> connection \<times> 's \<Rightarrow> connection \<times> 's" where
  "serve_frames d [] rs st = st"
| "serve_frames d (f # fs) rs (c, s) =
     (case server_reply d f s of
        (data, s') \<Rightarrow> serve_frames d fs (drop 1 rs) (Send (next_answer rs) data c, s'))"

definition ServerRead :: "'s dispatch \<Rightarrow> recv_result list \<Rightarrow> send_result list \<Rightarrow> connection \<times> 's \<Rightarrow> connection \<times> 's" where
  "ServerRead d rs sends st =
     (let c' = OnRead rs (fst st)
      in serve_frames d (new_frames (fst st) c') sends (c', snd st))"

text \<open>No \<open>send\<close> of a read accepts more bytes than it is given.\<close>

fun answers_ok :: "'s dispatch \<Rightarrow> frame list \<Rightarrow> send_result list \<Rightarrow> 's \<Rightarrow> bool" where
  "answers_ok d [] rs s = True"
| "answers_ok d (f # fs) rs s =
     (case server_reply d f s of
        (data, s') \<Rightarrow> send_ok (length data) (next_answer rs) \<and> answers_ok d fs (drop 1 rs) s')"

subsection \<open>What the server sends\<close>

fun replies :: "'s dispatch \<Rightarrow> frame list \<Rightarrow> 's \<Rightarrow> bytes list" where
  "replies d [] s = []"
| "replies d (f # fs) s = (case server_reply d f s of (data, s') \<Rightarrow> data # replies d fs s')"

lemma Send_read_buffer [simp]: "read_buffer (Send r data c) = read_buffer c"
  by (simp add: Send_def split: send_result.split)

lemma serve_frames_sends:
  assumes "conn_inv c" and "answers_ok d fs rs s"
  shows "let c' = fst (serve_frames d fs rs (c, s)) in
    conn_inv c' \<and> registered c' = registered c \<and> read_buffer c' = read_buffer c \<and>
    prefix (wire_out c) (wire_out c') \<and>
    wire_out c' @ pending_out c' = wire_out c @ pending_out c @ concat (replies d fs s)"
  using assms
proof (induction d fs rs "(c, s)" arbitrary: c s rule: serve_frames.induct)
  case (1 d rs c s)
  then show ?case by simp
next
  case (2 d f fs rs c s)
  obtain data s' where r: "server_reply d f s = (data, s')" by force
  let ?c = "Send (next_answer rs) data c"
  have ok: "send_ok (length data) (next_answer rs)" "answers_ok d fs (drop 1 rs) s'"
    using "2.prems"(2) by (simp_all add: r)
  have s: "conn_inv ?c" "registered ?c = registered c"
      "wire_out ?c @ pending_out ?c = wire_out c @ pending_out c @ data"
    using Send_sends [OF "2.prems"(1) ok(1)] by simp_all
  have p: "prefix (wire_out c) (wire_out ?c)"
    by (simp add: Send_def split: send_result.split)
  from "2.hyps" [OF r [symmetric] s(1) ok(2)] s p show ?case
    by (auto simp: r Let_def intro: prefix_order.trans)
qed

lemma replies_append:
  "replies d (fs @ gs) (s :: unit) = replies d fs s @ replies d gs s"
  by (induction d fs s rule: replies.induct) (auto split: prod.split)

end
