(* ===== verification/Rpc_Calls.thy ===== *)
theory Rpc_Calls
  imports Rpc_Client Rpc_Server
begin

text \<open>
  The RPC path as a whole: a client, the two byte streams of its connection, and a server connection
  with a table of stateless methods. A step is a call, the delivery of some bytes to one side in
  any pieces, or a write of the server's buffered bytes. The theorems show that the stack
  refines local calls: what a future is fulfilled with is what the called method returns.
\<close>

subsection \<open>The system\<close>

text \<open>
  \<open>accepted_calls\<close> lists the calls whose frame went out, with their place among the futures;
  \<open>to_server\<close> and \<open>to_client\<close> count the bytes delivered in each direction.
\<close>

type_synonym accepted_call = "nat \<times> string \<times> bytes"

record rpc_system =
  client :: rpc_client
  server_conn :: connection
  to_server :: nat
  to_client :: nat
  accepted_calls :: "accepted_call list"

definition client_out :: "rpc_client \<Rightarrow> bytes" where
  "client_out cl = (case loop_conns cl (server_fd cl) of None \<Rightarrow> [] | Some c \<Rightarrow> wire_out c)"

definition rpc_start :: "rpc_system \<Rightarrow> bool" where
  "rpc_start x \<longleftrightarrow> (\<exists>n m. 0 \<le> n \<and>
     x = \<lparr>client = snd (Connect (Connected n) new_client), server_conn = new_connection m,
          to_server = 0, to_client = 0, accepted_calls = []\<rparr>)"

fun request_of :: "accepted_call \<Rightarrow> frame" where
  "request_of (i, m, b) =
     \<lparr>request_id = word_of_nat (Suc i), msg_type = Request, method_name = m, body = b\<rparr>"

definition method_result :: "unit dispatch \<Rightarrow> string \<Rightarrow> bytes \<Rightarrow> bytes option" where
  "method_result d m b = fst (DispatchCall d m b ())"

fun reply_of :: "unit dispatch \<Rightarrow> accepted_call \<Rightarrow> frame" where
  "reply_of d (i, m, b) =
     (case method_result d m b of
        Some r \<Rightarrow> \<lparr>request_id = word_of_nat (Suc i), msg_type = Response, method_name = m, body = r\<rparr>
      | None \<Rightarrow> \<lparr>request_id = word_of_nat (Suc i), msg_type = Error, method_name = m, body = []\<rparr>)"

text \<open>The socket takes a request whole or not at all; fewer than \<open>2\<^sup>3\<^sup>2\<close> calls are made.\<close>

fun whole_send :: "nat \<Rightarrow> send_result \<Rightarrow> bool" where
  "whole_send k (Sent n) = (n = k)"
| "whole_send k _ = True"

definition went_out :: "send_result \<Rightarrow> bool" where
  "went_out r = (case r of Sent n \<Rightarrow> True | _ \<Rightarrow> False)"

inductive rpc_step :: "unit dispatch \<Rightarrow> rpc_system \<Rightarrow> rpc_system \<Rightarrow> bool" for d where
  rpc_call: "Call r m b (client x) = (i, cl) \<Longrightarrow> encodable (request_of (i, m, b)) \<Longrightarrow>
    whole_send (length (encode_frame (request_of (i, m, b)))) r \<Longrightarrow> i < 2 ^ 32 \<Longrightarrow>
    rpc_step d x (x\<lparr>client := cl,
      accepted_calls := accepted_calls x @ (if went_out r then [(i, m, b)] else [])\<rparr>)"
| rpc_serve: "read_pass rs \<Longrightarrow> prefix (received rs) (drop (to_server x) (client_out (client x))) \<Longrightarrow>
    answers_ok d (new_frames (server_conn x) (OnRead rs (server_conn x))) sends () \<Longrightarrow>
    rpc_step d x (x\<lparr>server_conn := fst (ServerRead d rs sends (server_conn x, ())),
      to_server := to_server x + length (received rs)\<rparr>)"
| rpc_flush: "writes_ok (length (pending_out (server_conn x))) rs \<Longrightarrow>
    registered (OnWrite rs (server_conn x)) \<Longrightarrow>
    rpc_step d x (x\<lparr>server_conn := OnWrite rs (server_conn x)\<rparr>)"
| rpc_receive: "read_pass rs \<Longrightarrow> prefix (received rs) (drop (to_client x) (wire_out (server_conn x))) \<Longrightarrow>
    rpc_step d x (x\<lparr>client := ClientRead (server_fd (client x)) rs (client x),
      to_client := to_client x + length (received rs)\<rparr>)"

subsection \<open>The specification: local calls\<close>

text \<open>
  The calls in order, each with its method, its arguments and, once there is one, its result. A call
  may be refused, which looks like an empty result; otherwise it returns what the method returns.
\<close>

type_synonym local_call = "string \<times> bytes \<times> bytes option"

definition result_value :: "bytes option \<Rightarrow> bytes" where
  "result_value r = (case r of Some v \<Rightarrow> v | None \<Rightarrow> [])"

inductive local_step :: "(string \<Rightarrow> bytes \<Rightarrow> bytes option) \<Rightarrow> local_call list \<Rightarrow> local_call list \<Rightarrow> bool" for g where
  local_call: "local_step g a (a @ [(m, b, None)])"
| local_refused: "local_step g a (a @ [(m, b, Some [])])"
| local_return: "i < length a \<Longrightarrow> a ! i = (m, b, None) \<Longrightarrow>
    local_step g a (a[i := (m, b, Some (result_value (g m b)))])"

fun future_of :: "local_call \<Rightarrow> call_future" where
  "future_of (m, b, None) = Unset"
| "future_of (m, b, Some v) = Value v"

subsection \<open>A stream of encoded frames, read up to some point\<close>

abbreviation stream_of :: "frame list \<Rightarrow> bytes" where
  "stream_of fs \<equiv> concat (map encode_frame fs)"

definition parsed :: "frame list \<Rightarrow> nat \<Rightarrow> bytes \<Rightarrow> recv_buffer \<Rightarrow> bool" where
  "parsed fs k p b \<longleftrightarrow> k \<le> length fs \<and> prefix p (stream_of fs) \<and>
     feed_buffer p empty_buffer = (map encode_frame (take k fs), b)"

lemma parsed_start [simp]: "parsed fs 0 [] empty_buffer"
  by (simp add: parsed_def recv.feed_nil [OF empty_drained])

lemma parsed_append: "parsed fs k p b \<Longrightarrow> parsed (fs @ gs) k p b"
  by (auto simp: parsed_def intro: prefix_prefix)

lemma encodable_empty: "encodable \<lparr>request_id = 0, msg_type = Request, method_name = [], body = []\<rparr>"
  by (simp add: encodable_def kMaxFrameSize_def)

lemma stream_prefix:
  assumes "\<forall>f \<in> set fs. encodable f" and "prefix p (stream_of fs)"
  shows "\<exists>k g r. k \<le> length fs \<and> encodable g \<and> r < length (encode_frame g) \<and>
    p = stream_of (take k fs) @ take r (encode_frame g)"
  using assms
proof (induction fs arbitrary: p)
  case Nil
  with encodable_empty show ?case
    by (intro exI [of _ 0] exI) (auto simp: encode_frame_def)
next
  case (Cons f fs)
  show ?case
  proof (cases "length p < length (encode_frame f)")
    case True
    have "p = take (length p) (stream_of (f # fs))"
      using Cons.prems(2) by (metis append_eq_conv_conj prefix_def)
    with True have "p = take (length p) (encode_frame f)" by simp
    with True Cons.prems(1) show ?thesis by (intro exI [of _ 0] exI [of _ f] exI [of _ "length p"]) auto
  next
    case False
    then have "prefix (encode_frame f) p"
      by (intro prefix_length_prefix [OF _ Cons.prems(2)]) simp_all
    then obtain q where q: "p = encode_frame f @ q" by (rule prefixE)
    with Cons.prems Cons.IH [of q] have "\<exists>k g r. k \<le> length fs \<and> encodable g \<and> r < length (encode_frame g) \<and>
      q = stream_of (take k fs) @ take r (encode_frame g)" by simp
    then obtain k g r where "k \<le> length fs" "encodable g" "r < length (encode_frame g)"
      "q = stream_of (take k fs) @ take r (encode_frame g)" by blast
    with q show ?thesis by (intro exI [of _ "Suc k"] exI [of _ g] exI [of _ r]) simp
  qed
qed

lemma parsed_prefix:
  assumes "\<forall>f \<in> set fs. encodable f" and "prefix p (stream_of fs)"
  shows "\<exists>k b. parsed fs k p b"
proof -
  obtain k g r where k: "k \<le> length fs" and g: "encodable g" "r < length (encode_frame g)"
    and p: "p = stream_of (take k fs) @ take r (encode_frame g)"
    using stream_prefix [OF assms] by blast
  have "\<forall>f \<in> set (take k fs). encodable f" using assms(1) by (auto dest: in_set_takeD)
  from pop_all_frames [OF this g, of "Append p empty_buffer"] k assms(2)
  have "parsed fs k p (Append p empty_buffer \<lparr>buf := take r (encode_frame g)\<rparr>)"
    by (simp add: parsed_def feed_buffer_def p empty_buffer_def)
  then show ?thesis by blast
qed

lemma encode_frame_nonempty [simp]: "encode_frame f \<noteq> []"
proof
  assume "encode_frame f = []"
  then have "length (encode_frame f) = 0" by simp
  then show False by (simp add: encode_frame_def del: length_0_conv)
qed

lemma parsed_more:
  assumes "\<forall>f \<in> set fs. encodable f" and "parsed fs k p b" and "prefix (p @ q) (stream_of fs)"
  shows "\<exists>k' b'. k \<le> k' \<and> parsed fs k' (p @ q) b' \<and> feed_buffer q b = (map encode_frame (drop k (take k' fs)), b')"
proof -
  obtain k' b' where k': "parsed fs k' (p @ q) b'" using parsed_prefix [OF assms(1,3)] by blast
  obtain ms b2 where q: "feed_buffer q b = (ms, b2)" by force
  from assms(2) k' q recv.feed_append [OF empty_drained, of p q]
  have eq: "map encode_frame (take k' fs) = map encode_frame (take k fs) @ ms" "b' = b2"
    by (simp_all add: parsed_def)
  then have "length (take k' fs) = length (take k fs) + length ms"
    by (metis length_append length_map)
  then have le: "k \<le> k'" using assms(2) k' by (simp add: parsed_def)
  then have "take k' fs = take k fs @ drop k (take k' fs)"
    by (metis append_take_drop_id min.absorb1 take_take)
  then have "map encode_frame (take k' fs) = map encode_frame (take k fs) @ map encode_frame (drop k (take k' fs))"
    by (metis map_append)
  with eq q k' le show ?thesis by auto
qed

lemma parsed_all:
  assumes "\<forall>f \<in> set fs. encodable f" and "parsed fs k (stream_of fs) b"
  shows "k = length fs"
proof -
  have "pop_all (Append (stream_of fs) empty_buffer) =
      (map encode_frame fs, Append (stream_of fs) empty_buffer\<lparr>buf := take 0 (encode_frame \<lparr>request_id = 0, msg_type = Request, method_name = [], body = []\<rparr>)\<rparr>)"
    using pop_all_frames [OF assms(1) encodable_empty, of 0 "Append (stream_of fs) empty_buffer"]
    by (simp add: empty_buffer_def encode_frame_def)
  then have "map encode_frame (take k fs) = map encode_frame fs"
    using assms(2) by (simp add: parsed_def feed_buffer_def)
  then have "length (take k fs) = length fs" by (metis length_map)
  then show ?thesis using assms(2) by (simp add: parsed_def)
qed

lemma new_frames_more:
  "new_frames c (c\<lparr>read_buffer := b, events := events c @ map FrameReceived fs\<rparr>) = fs"
  by (simp add: new_frames_def List.map_filter_def comp_def)

lemma read_parsed:
  assumes "\<forall>f \<in> set fs. encodable f" and "parsed fs k p (read_buffer c)" and "read_pass rs"
    and "prefix (p @ received rs) (stream_of fs)"
  obtains k' b' where "k \<le> k'" "parsed fs k' (p @ received rs) b'"
    "OnRead rs c = c\<lparr>read_buffer := b', events := events c @ map FrameReceived (drop k (take k' fs))\<rparr>"
proof -
  obtain k' b' where k': "k \<le> k'" "parsed fs k' (p @ received rs) b'"
    and f: "feed_buffer (received rs) (read_buffer c) = (map encode_frame (drop k (take k' fs)), b')"
    using parsed_more [OF assms(1,2,4)] by blast
  have "\<forall>f \<in> set (drop k (take k' fs)). encodable f"
    using assms(1) by (auto dest: in_set_takeD in_set_dropD)
  with f have "OnRead rs c = c\<lparr>read_buffer := b', events := events c @ map FrameReceived (drop k (take k' fs))\<rparr>"
    by (simp add: OnRead_pass [OF assms(3)] dispatch_encoded)
  with k' show ?thesis by (rule that)
qed

subsection \<open>The simulation relation\<close>

definition waiting :: "nat \<Rightarrow> accepted_call list \<Rightarrow> u32 \<rightharpoonup> nat" where
  "waiting j A = map_of (map (\<lambda>c. (word_of_nat (Suc (fst c)), fst c)) (drop j A))"

definition unanswered :: "accepted_call \<Rightarrow> local_call" where
  "unanswered c = (fst (snd c), snd (snd c), None)"

definition answered :: "unit dispatch \<Rightarrow> accepted_call \<Rightarrow> local_call" where
  "answered d c = (fst (snd c), snd (snd c), Some (result_value (method_result d (fst (snd c)) (snd (snd c)))))"

definition calls_rel :: "accepted_call list \<Rightarrow> local_call list \<Rightarrow> bool" where
  "calls_rel A a \<longleftrightarrow> length a \<le> 2 ^ 32 \<and> distinct (map fst A) \<and> (\<forall>c \<in> set A. encodable (request_of c)) \<and>
     (\<forall>c \<in> set A. fst c < length a) \<and> (\<forall>i < length a. i \<notin> fst ` set A \<longrightarrow> snd (snd (a ! i)) = Some [])"

definition client_rel :: "unit dispatch \<Rightarrow> accepted_call list \<Rightarrow> nat \<Rightarrow> local_call list \<Rightarrow> rpc_client \<Rightarrow> bool" where
  "client_rel d A j a cl \<longleftrightarrow> j \<le> length A \<and> next_request_id cl = word_of_nat (Suc (length a)) \<and>
     futures cl = map future_of a \<and> pending_requests cl = waiting j A \<and>
     (\<forall>c \<in> set (take j A). a ! fst c = answered d c) \<and> (\<forall>c \<in> set (drop j A). a ! fst c = unanswered c)"

definition wires_rel :: "unit dispatch \<Rightarrow> accepted_call list \<Rightarrow> nat \<Rightarrow> nat \<Rightarrow> connection \<Rightarrow> rpc_system \<Rightarrow> bool" where
  "wires_rel d A k j cc x \<longleftrightarrow>
     loop_conns (client x) (server_fd (client x)) = Some cc \<and> registered cc \<and>
     wire_out cc = stream_of (map request_of A) \<and>
     registered (server_conn x) \<and> conn_inv (server_conn x) \<and> to_server x \<le> length (wire_out cc) \<and>
     parsed (map request_of A) k (take (to_server x) (wire_out cc)) (read_buffer (server_conn x)) \<and>
     wire_out (server_conn x) @ pending_out (server_conn x) = stream_of (map (reply_of d) (take k A)) \<and>
     to_client x \<le> length (wire_out (server_conn x)) \<and>
     parsed (map (reply_of d) A) j (take (to_client x) (wire_out (server_conn x))) (read_buffer cc)"

definition rpc_rel :: "unit dispatch \<Rightarrow> rpc_system \<Rightarrow> local_call list \<Rightarrow> bool" where
  "rpc_rel d x a \<longleftrightarrow> calls_rel (accepted_calls x) a \<and>
     (\<exists>k j cc. client_rel d (accepted_calls x) j a (client x) \<and> wires_rel d (accepted_calls x) k j cc x)"

lemma rpc_relI:
  "calls_rel (accepted_calls x) a \<Longrightarrow> client_rel d (accepted_calls x) j a (client x) \<Longrightarrow>
     wires_rel d (accepted_calls x) k j cc x \<Longrightarrow> rpc_rel d x a"
  by (auto simp: rpc_rel_def)

subsection \<open>Request ids\<close>

lemma request_ids_differ:
  "i < 2 ^ 32 \<Longrightarrow> k < 2 ^ 32 \<Longrightarrow> (word_of_nat (Suc i) :: u32) = word_of_nat (Suc k) \<longleftrightarrow> i = k"
  by (auto simp: word_of_nat_eq_iff take_bit_nat_eq_self)

lemma waiting_None: "k < 2 ^ 32 \<Longrightarrow> \<forall>c \<in> set (drop j A). fst c < 2 ^ 32 \<and> fst c \<noteq> k \<Longrightarrow>
    waiting j A (word_of_nat (Suc k)) = None"
  by (force simp: waiting_def map_of_eq_None_iff request_ids_differ simp del: of_nat_Suc)

lemma calls_indices:
  assumes "calls_rel A a" and "c \<in> set A"
  shows "fst c < length a" "fst c < 2 ^ 32"
proof -
  show "fst c < length a" using assms by (simp add: calls_rel_def)
  also have "length a \<le> 2 ^ 32" using assms(1) by (simp add: calls_rel_def)
  finally show "fst c < 2 ^ 32" .
qed

lemma waiting_fresh:
  assumes "calls_rel A a" and "length a < 2 ^ 32"
  shows "waiting j A (word_of_nat (Suc (length a))) = None"
  using assms(2)
proof (rule waiting_None)
  show "\<forall>c \<in> set (drop j A). fst c < 2 ^ 32 \<and> fst c \<noteq> length a"
  proof
    fix c assume "c \<in> set (drop j A)"
    then have "c \<in> set A" by (rule in_set_dropD)
    from calls_indices [OF assms(1) this] show "fst c < 2 ^ 32 \<and> fst c \<noteq> length a" by simp
  qed
qed

lemma distinct_split:
  assumes "distinct (map fst A)" and "j < length A"
  shows "\<forall>c \<in> set (take j A). fst c \<noteq> fst (A ! j)" "\<forall>c \<in> set (drop (Suc j) A). fst c \<noteq> fst (A ! j)"
proof -
  have "distinct (map fst (take j A @ A ! j # drop (Suc j) A))"
    using assms by (metis id_take_nth_drop)
  then have "fst (A ! j) \<notin> fst ` set (take j A)" "fst (A ! j) \<notin> fst ` set (drop (Suc j) A)" by auto
  then show "\<forall>c \<in> set (take j A). fst c \<noteq> fst (A ! j)" "\<forall>c \<in> set (drop (Suc j) A). fst c \<noteq> fst (A ! j)"
    by (metis imageI)+
qed

lemma waiting_next:
  assumes "calls_rel A a" and "j < length A"
  shows "waiting j A (word_of_nat (Suc (fst (A ! j)))) = Some (fst (A ! j))"
    and "(waiting j A)(word_of_nat (Suc (fst (A ! j))) := None) = waiting (Suc j) A"
proof -
  let ?i = "fst (A ! j)"
  have w: "waiting j A = (waiting (Suc j) A)(word_of_nat (Suc ?i) \<mapsto> ?i)"
    by (simp only: waiting_def Cons_nth_drop_Suc [OF assms(2), symmetric] list.map map_of.simps fst_conv snd_conv)
  then show "waiting j A (word_of_nat (Suc ?i)) = Some ?i" by simp
  have "distinct (map fst A)" using assms(1) by (simp add: calls_rel_def)
  note other = distinct_split(2) [OF this assms(2)]
  have "waiting (Suc j) A (word_of_nat (Suc ?i)) = None"
    using calls_indices(2) [OF assms(1) nth_mem [OF assms(2)]]
  proof (rule waiting_None)
    show "\<forall>c \<in> set (drop (Suc j) A). fst c < 2 ^ 32 \<and> fst c \<noteq> ?i"
      using other calls_indices(2) [OF assms(1)] in_set_dropD by (metis (no_types))
  qed
  with w show "(waiting j A)(word_of_nat (Suc ?i) := None) = waiting (Suc j) A"
    by auto
qed

subsection \<open>Responses arrive\<close>

lemma Settle_fields [simp]:
  "next_request_id (Settle r v cl) = next_request_id cl" "loop_conns (Settle r v cl) = loop_conns cl"
  "server_fd (Settle r v cl) = server_fd cl"
  by (simp_all add: Settle_def split: option.split)

lemma OnResponse_fields [simp]:
  "next_request_id (OnResponse f cl) = next_request_id cl" "loop_conns (OnResponse f cl) = loop_conns cl"
  "server_fd (OnResponse f cl) = server_fd cl"
  by (simp_all add: OnResponse_def)

lemma fold_OnResponse_fields [simp]:
  "loop_conns (fold OnResponse fs cl) = loop_conns cl" "server_fd (fold OnResponse fs cl) = server_fd cl"
  by (induction fs arbitrary: cl) simp_all

lemma OnResponse_reply:
  "OnResponse (reply_of d c) cl =
     Settle (word_of_nat (Suc (fst c))) (result_value (method_result d (fst (snd c)) (snd (snd c)))) cl"
  by (cases c) (simp add: OnResponse_def result_value_def split: option.split)

lemma response_step:
  assumes "calls_rel A a" and "client_rel d A j a cl" and "j < length A"
  shows "\<exists>a'. local_step (method_result d) a a' \<and> calls_rel A a' \<and>
    client_rel d A (Suc j) a' (OnResponse (reply_of d (A ! j)) cl)"
proof -
  let ?c = "A ! j" let ?i = "fst ?c"
  let ?v = "result_value (method_result d (fst (snd ?c)) (snd (snd ?c)))"
  let ?a = "a[?i := answered d ?c]"
  have d: "drop j A = ?c # drop (Suc j) A" and t: "take (Suc j) A = take j A @ [?c]"
    using assms(3) by (simp_all add: take_Suc_conv_app_nth Cons_nth_drop_Suc)
  have i: "?i < length a" "?i \<in> fst ` set A" using calls_indices [OF assms(1) nth_mem [OF assms(3)]] assms(3) by simp_all
  have "a ! ?i = unanswered ?c" using assms(2) by (simp add: client_rel_def d)
  with i(1) have "local_step (method_result d) a ?a" by (simp add: answered_def unanswered_def local_return)
  moreover have "calls_rel A ?a"
    using assms(1) i(2) unfolding calls_rel_def by (metis length_list_update nth_list_update_neq)
  moreover have "client_rel d A (Suc j) ?a (OnResponse (reply_of d ?c) cl)"
  proof -
    have "distinct (map fst A)" using assms(1) by (simp add: calls_rel_def)
    note other = distinct_split [OF this assms(3)]
    have "\<forall>c \<in> set (take (Suc j) A). ?a ! fst c = answered d c"
      using assms(2) i(1) other(1) unfolding t client_rel_def
      by (simp add: ball_Un) (metis nth_list_update_neq)
    moreover have "\<forall>c \<in> set (drop (Suc j) A). ?a ! fst c = unanswered c"
      using assms(2) other(2) unfolding d client_rel_def
      by (metis list.set_intros(2) nth_list_update_neq)
    moreover have "OnResponse (reply_of d ?c) cl =
        cl\<lparr>futures := map future_of ?a, pending_requests := waiting (Suc j) A\<rparr>"
      using assms(2) waiting_next [OF assms(1,3)]
      by (simp add: OnResponse_reply Settle_def client_rel_def map_update answered_def del: of_nat_Suc)
    ultimately show ?thesis using assms(2,3) by (simp add: client_rel_def)
  qed
  ultimately show ?thesis by blast
qed

lemma responses_arrive:
  assumes "j \<le> j'" and "j' \<le> length A" and "calls_rel A a" and "client_rel d A j a cl"
  shows "\<exists>a'. (local_step (method_result d))\<^sup>*\<^sup>* a a' \<and> calls_rel A a' \<and>
    client_rel d A j' a' (fold OnResponse (map (reply_of d) (drop j (take j' A))) cl)"
  using assms(1,2)
proof (induction j' rule: dec_induct)
  case base
  then show ?case using assms(3,4) by auto
next
  case (step n)
  then obtain a1 where a1: "(local_step (method_result d))\<^sup>*\<^sup>* a a1" "calls_rel A a1"
    "client_rel d A n a1 (fold OnResponse (map (reply_of d) (drop j (take n A))) cl)" by auto
  have e: "drop j (take (Suc n) A) = drop j (take n A) @ [A ! n]"
    using step by (simp add: take_Suc_conv_app_nth)
  obtain a2 where "local_step (method_result d) a1 a2" "calls_rel A a2"
    "client_rel d A (Suc n) a2 (OnResponse (reply_of d (A ! n)) (fold OnResponse (map (reply_of d) (drop j (take n A))) cl))"
    using response_step [OF a1(2,3)] step.hyps step.prems by auto
  with a1(1) show ?case
    by (intro exI [of _ a2] conjI) (simp_all add: e rtranclp.rtrancl_into_rtrancl)
qed

subsection \<open>Calls\<close>

lemma Call_outcome:
  assumes "client_rel d A j a cl" and "calls_rel A a" and "loop_conns cl (server_fd cl) = Some cc"
    and "Call r m b cl = (i, cl')" "i < 2 ^ 32"
    and "whole_send (length (encode_frame (request_of (i, m, b)))) r"
  shows "i = length a" and
    "cl' = cl\<lparr>next_request_id := word_of_nat (Suc (Suc i)),
       futures := futures cl @ [if went_out r then Unset else Value []],
       pending_requests := (if went_out r then (waiting j A)(word_of_nat (Suc i) \<mapsto> i) else waiting j A),
       loop_conns := (loop_conns cl)(server_fd cl \<mapsto>
         cc\<lparr>wire_out := wire_out cc @ (if went_out r then encode_frame (request_of (i, m, b)) else [])\<rparr>)\<rparr>"
proof -
  show i: "i = length a" using assms(1,4) by (simp add: Call_def Let_def client_rel_def)
  have fresh: "waiting j A (word_of_nat (Suc i)) = None"
    using waiting_fresh [OF assms(2)] assms(5) i by simp
  define w :: u32 where "w = word_of_nat (Suc i)"
  have cl: "next_request_id cl = w" "pending_requests cl = waiting j A" "length (futures cl) = i"
    using assms(1) by (simp_all add: client_rel_def w_def i)
  have e: "encode_frame (request_of (i, m, b)) = Encode w Request m b"
    by (simp add: encode_frame_def w_def)
  define cl1 where "cl1 = cl\<lparr>next_request_id := word_of_nat (Suc (Suc i)), futures := futures cl @ [Unset],
    pending_requests := (waiting j A)(w \<mapsto> i)\<rparr>"
  have "w + 1 = word_of_nat (Suc (Suc i))" by (simp add: w_def)
  with fresh cl assms(4) have cl': "cl' = (case r of Sent n \<Rightarrow> put_on_wire (take n (Encode w Request m b)) cl1
      | _ \<Rightarrow> Settle w [] cl1)"
    by (cases r) (simp_all add: Call_def Let_def drop_promise_def cl1_def w_def [symmetric] del: of_nat_Suc)
  have undo: "(waiting j A)(w := None) = waiting j A" "(loop_conns cl)(server_fd cl := Some cc) = loop_conns cl"
    using fresh assms(3) by (auto simp: w_def)
  have "put_on_wire (Encode w Request m b) cl1 = cl1\<lparr>loop_conns := (loop_conns cl)(server_fd cl \<mapsto>
         cc\<lparr>wire_out := wire_out cc @ Encode w Request m b\<rparr>)\<rparr>"
    using assms(3) by (simp add: put_on_wire_def cl1_def)
  moreover have "Settle w [] cl1 = cl\<lparr>next_request_id := word_of_nat (Suc (Suc i)),
      futures := futures cl @ [Value []], pending_requests := waiting j A\<rparr>"
    using cl(3) undo(1) by (simp add: Settle_def cl1_def list_update_append)
  ultimately show "cl' = cl\<lparr>next_request_id := word_of_nat (Suc (Suc i)),
       futures := futures cl @ [if went_out r then Unset else Value []],
       pending_requests := (if went_out r then (waiting j A)(word_of_nat (Suc i) \<mapsto> i) else waiting j A),
       loop_conns := (loop_conns cl)(server_fd cl \<mapsto>
         cc\<lparr>wire_out := wire_out cc @ (if went_out r then encode_frame (request_of (i, m, b)) else [])\<rparr>)\<rparr>"
    using assms(6) undo(2) unfolding e w_def [symmetric] cl'
    by (cases r; cases cl) (simp_all add: went_out_def cl1_def del: request_of.simps)
qed

lemma nth_old: "calls_rel A a \<Longrightarrow> c \<in> set A \<Longrightarrow> (a @ [y]) ! fst c = a ! fst c"
  by (simp add: nth_append calls_indices)

lemma calls_rel_call:
  assumes "calls_rel A a" and "length a < 2 ^ 32" and "encodable (request_of (length a, m, b))"
  shows "calls_rel (A @ [(length a, m, b)]) (a @ [(m, b, None)])" "calls_rel A (a @ [(m, b, Some [])])"
proof -
  have "length a \<notin> fst ` set A" using calls_indices(1) [OF assms(1)] by force
  then show "calls_rel (A @ [(length a, m, b)]) (a @ [(m, b, None)])"
    using assms calls_indices(1) [OF assms(1)]
    unfolding calls_rel_def by (simp add: nth_append ball_Un less_SucI del: request_of.simps)
  show "calls_rel A (a @ [(m, b, Some [])])"
    using assms calls_indices(1) [OF assms(1)]
    unfolding calls_rel_def by (simp add: nth_append less_SucI less_Suc_eq del: request_of.simps)
qed

lemma client_rel_call:
  assumes "client_rel d A j a cl" and "calls_rel A a" and "length a < 2 ^ 32"
  shows "client_rel d (A @ [(length a, m, b)]) j (a @ [(m, b, None)])
      (cl\<lparr>next_request_id := word_of_nat (Suc (Suc (length a))), futures := futures cl @ [Unset],
          pending_requests := (waiting j A)(word_of_nat (Suc (length a)) \<mapsto> length a), loop_conns := lc\<rparr>)"
    "client_rel d A j (a @ [(m, b, Some [])])
      (cl\<lparr>next_request_id := word_of_nat (Suc (Suc (length a))), futures := futures cl @ [Value []],
          pending_requests := waiting j A, loop_conns := lc\<rparr>)"
proof -
  have old: "\<forall>c \<in> set (take j A). (a @ [y]) ! fst c = a ! fst c" "\<forall>c \<in> set (drop j A). (a @ [y]) ! fst c = a ! fst c" for y
    using nth_old [OF assms(2)] by (blast dest: in_set_takeD in_set_dropD)+
  have j: "j \<le> length A" using assms(1) by (simp add: client_rel_def)
  have "waiting j (A @ [(length a, m, b)]) = (waiting j A)(word_of_nat (Suc (length a)) \<mapsto> length a)"
    using j waiting_fresh [OF assms(2,3), of j]
    by (simp add: waiting_def map_add_upd_left fun_eq_iff map_add_def split: option.split del: of_nat_Suc)
  then show "client_rel d (A @ [(length a, m, b)]) j (a @ [(m, b, None)])
      (cl\<lparr>next_request_id := word_of_nat (Suc (Suc (length a))), futures := futures cl @ [Unset],
          pending_requests := (waiting j A)(word_of_nat (Suc (length a)) \<mapsto> length a), loop_conns := lc\<rparr>)"
    using assms(1) old j by (simp add: client_rel_def ball_Un unanswered_def)
  show "client_rel d A j (a @ [(m, b, Some [])])
      (cl\<lparr>next_request_id := word_of_nat (Suc (Suc (length a))), futures := futures cl @ [Value []],
          pending_requests := waiting j A, loop_conns := lc\<rparr>)"
    using assms(1) old by (simp add: client_rel_def)
qed

subsection \<open>Every step is matched\<close>

lemma take_more:
  assumes "prefix s (drop n w)" and "n \<le> length w"
  shows "take n w @ s = take (n + length s) w" "n + length s \<le> length w"
proof -
  obtain u where u: "drop n w = s @ u" using assms(1) by (rule prefixE)
  then have "w = take n w @ s @ u" by (metis append_take_drop_id)
  moreover have "length (take n w) = n" using assms(2) by simp
  ultimately show "take n w @ s = take (n + length s) w" "n + length s \<le> length w"
    by (metis append.assoc append_eq_conv_conj length_append, metis add.assoc le_add1 length_append)
qed

lemma stream_of_take: "prefix (stream_of (map g (take k A))) (stream_of (map g A))"
  by (metis append_take_drop_id concat_append map_append prefixI)

lemma stream_of_split:
  "k \<le> k' \<Longrightarrow> stream_of (map g (take k A)) @ stream_of (map g (drop k (take k' A))) = stream_of (map g (take k' A))"
  by (metis append_take_drop_id concat_append map_append min.absorb1 take_take)

lemma OnWrite_grows: "prefix (wire_out c) (wire_out (OnWrite rs c)) \<and> read_buffer (OnWrite rs c) = read_buffer c"
proof (induction rs c rule: OnWrite.induct)
  case (2 r rs c)
  then show ?case
  proof (cases r)
    case (Sent n)
    define c1 where "c1 = c\<lparr>wire_out := wire_out c @ take n (drop (write_offset c) (write_buffer c)),
      write_offset := write_offset c + n\<rparr>"
    have c1: "prefix (wire_out c) (wire_out c1)" "read_buffer c1 = read_buffer c" by (simp_all add: c1_def)
    show ?thesis
    proof (cases "write_buffer c \<noteq> [] \<and> 0 < n \<and> write_offset c1 < length (write_buffer c1)")
      case True
      then have "OnWrite (r # rs) c = OnWrite rs c1" using Sent by (simp add: c1_def)
      moreover have "prefix (wire_out c1) (wire_out (OnWrite rs c1)) \<and> read_buffer (OnWrite rs c1) = read_buffer c1"
        using 2 Sent True c1_def by simp
      ultimately show ?thesis using c1 by (auto intro: prefix_order.trans)
    next
      case False
      then show ?thesis using Sent by (auto simp: c1_def Let_def OnClose_def)
    qed
  qed (simp_all add: OnClose_def)
qed simp

lemma replies_requests: "replies d (map request_of cs) () = map (\<lambda>c. encode_frame (reply_of d c)) cs"
proof (induction cs)
  case (Cons c cs)
  then show ?case
    by (cases c) (auto simp: server_reply_def method_result_def encode_frame_def split: prod.split option.split)
qed simp

locale rpc_service =
  fixes d :: "unit dispatch"
  assumes reply_fits: "encodable (request_of c) \<Longrightarrow> encodable (reply_of d c)"
begin

lemma encodable_all:
  assumes "calls_rel A a"
  shows "\<forall>f \<in> set (map request_of A). encodable f" "\<forall>f \<in> set (map (reply_of d) A). encodable f"
  using assms reply_fits unfolding calls_rel_def by (auto simp del: request_of.simps reply_of.simps)

lemma match_call:
  assumes "rpc_rel d x a" and "Call r m b (client x) = (i, cl)" and "encodable (request_of (i, m, b))"
    and "whole_send (length (encode_frame (request_of (i, m, b)))) r" and "i < 2 ^ 32"
  shows "\<exists>a'. local_step (method_result d) a a' \<and> rpc_rel d (x\<lparr>client := cl,
      accepted_calls := accepted_calls x @ (if went_out r then [(i, m, b)] else [])\<rparr>) a'"
proof -
  from assms(1) obtain k j cc where ok: "calls_rel (accepted_calls x) a"
    and c: "client_rel d (accepted_calls x) j a (client x)" and w: "wires_rel d (accepted_calls x) k j cc x"
    by (auto simp: rpc_rel_def)
  have cc: "loop_conns (client x) (server_fd (client x)) = Some cc" using w by (simp add: wires_rel_def)
  note out = Call_outcome [OF c ok cc assms(2,5,4)]
  have la: "length a < 2 ^ 32" using assms(5) out(1) by simp
  have k: "k \<le> length (accepted_calls x)" using w by (simp add: wires_rel_def parsed_def)
  show ?thesis
  proof (cases "went_out r")
    case True
    have "wires_rel d (accepted_calls x @ [(i, m, b)]) k j (cc\<lparr>wire_out := wire_out cc @ encode_frame (request_of (i, m, b))\<rparr>)
        (x\<lparr>client := cl, accepted_calls := accepted_calls x @ [(i, m, b)]\<rparr>)"
      using w k True by (auto simp: wires_rel_def out(2) parsed_append simp del: request_of.simps reply_of.simps)
    moreover have "client_rel d (accepted_calls x @ [(i, m, b)]) j (a @ [(m, b, None)]) cl"
      using client_rel_call(1) [OF c ok la, of m b] True by (simp add: out del: of_nat_Suc request_of.simps)
    moreover have "calls_rel (accepted_calls x @ [(i, m, b)]) (a @ [(m, b, None)])"
      using calls_rel_call(1) [OF ok la] assms(3) by (simp add: out(1) del: request_of.simps)
    ultimately have "rpc_rel d (x\<lparr>client := cl, accepted_calls := accepted_calls x @ [(i, m, b)]\<rparr>) (a @ [(m, b, None)])"
      by (intro rpc_relI) simp_all
    then show ?thesis unfolding if_P [OF True] by (blast intro: local_call)
  next
    case False
    have "wires_rel d (accepted_calls x) k j cc (x\<lparr>client := cl\<rparr>)"
      using w k False by (auto simp: wires_rel_def out(2) simp del: request_of.simps reply_of.simps)
    moreover have "client_rel d (accepted_calls x) j (a @ [(m, b, Some [])]) cl"
      using client_rel_call(2) [OF c ok la, of m b] False by (simp add: out del: of_nat_Suc request_of.simps)
    moreover have "calls_rel (accepted_calls x) (a @ [(m, b, Some [])])"
      using calls_rel_call(2) [OF ok la] assms(3) by (simp add: out(1) del: request_of.simps)
    ultimately have "rpc_rel d (x\<lparr>client := cl\<rparr>) (a @ [(m, b, Some [])])"
      by (intro rpc_relI) simp_all
    then show ?thesis unfolding if_not_P [OF False] append_Nil2 by (auto intro: local_refused)
  qed
qed

lemma match_serve:
  assumes rel: "rpc_rel d x a" and rs: "read_pass rs" "prefix (received rs) (drop (to_server x) (client_out (client x)))"
    and sends: "answers_ok d (new_frames (server_conn x) (OnRead rs (server_conn x))) sends ()"
  shows "rpc_rel d (x\<lparr>server_conn := fst (ServerRead d rs sends (server_conn x, ())),
      to_server := to_server x + length (received rs)\<rparr>) a"
proof -
  let ?A = "accepted_calls x" and ?sc = "server_conn x"
  from rel obtain k j cc where ok: "calls_rel ?A a" and c: "client_rel d ?A j a (client x)"
    and w: "wires_rel d ?A k j cc x" by (auto simp: rpc_rel_def)
  let ?W = "wire_out cc"
  have W: "client_out (client x) = ?W" "?W = stream_of (map request_of ?A)" "to_server x \<le> length ?W"
    using w by (auto simp: wires_rel_def client_out_def)
  note more = take_more [OF rs(2) [unfolded W(1)] W(3)]
  have "prefix (take (to_server x) ?W @ received rs) (stream_of (map request_of ?A))"
    unfolding more(1) unfolding W(2) by (rule take_is_prefix)
  with w encodable_all(1) [OF ok] rs(1) obtain k' b' where k': "k \<le> k'"
    "parsed (map request_of ?A) k' (take (to_server x) ?W @ received rs) b'"
    and r: "OnRead rs ?sc = ?sc\<lparr>read_buffer := b',
      events := events ?sc @ map FrameReceived (drop k (take k' (map request_of ?A)))\<rparr>"
    by (elim read_parsed [rotated 2]) (auto simp: wires_rel_def)
  let ?c = "OnRead rs ?sc"
  have f: "new_frames ?sc ?c = map request_of (drop k (take k' ?A))"
    by (simp only: r new_frames_more) (simp add: take_map drop_map)
  have inv: "conn_inv ?c" "wire_out ?c = wire_out ?sc" "pending_out ?c = pending_out ?sc" "registered ?c"
    using w OnRead_writes [of rs ?sc] by (simp_all add: wires_rel_def r)
  let ?c' = "fst (ServerRead d rs sends (?sc, ()))"
  have c': "?c' = fst (serve_frames d (map request_of (drop k (take k' ?A))) sends (?c, ()))"
    by (simp add: ServerRead_def Let_def f)
  have s: "conn_inv ?c'" "registered ?c'" "read_buffer ?c' = b'" "prefix (wire_out ?sc) (wire_out ?c')"
    "wire_out ?c' @ pending_out ?c' = stream_of (map (reply_of d) (take k' ?A))"
  proof -
    have "wire_out ?sc @ pending_out ?sc = stream_of (map (reply_of d) (take k ?A))"
      using w by (simp add: wires_rel_def)
    with serve_frames_sends [OF inv(1) sends [unfolded f]] inv(2-4) stream_of_split [OF k'(1), of "reply_of d" ?A]
    show "conn_inv ?c'" "registered ?c'" "read_buffer ?c' = b'" "prefix (wire_out ?sc) (wire_out ?c')"
      "wire_out ?c' @ pending_out ?c' = stream_of (map (reply_of d) (take k' ?A))"
      unfolding c' by (simp_all add: Let_def r replies_requests comp_def flip: append_assoc)
  qed
  obtain u where u: "wire_out ?c' = wire_out ?sc @ u" using s(4) by (rule prefixE)
  have "wires_rel d ?A k' j cc (x\<lparr>server_conn := ?c', to_server := to_server x + length (received rs)\<rparr>)"
    using w s k'(2) more by (auto simp: wires_rel_def u)
  with ok c show ?thesis by (intro rpc_relI) simp_all
qed

lemma match_flush:
  assumes rel: "rpc_rel d x a" and w_ok: "writes_ok (length (pending_out (server_conn x))) rs"
    and reg: "registered (OnWrite rs (server_conn x))"
  shows "rpc_rel d (x\<lparr>server_conn := OnWrite rs (server_conn x)\<rparr>) a"
proof -
  from rel obtain k j cc where ok: "calls_rel (accepted_calls x) a" and c: "client_rel d (accepted_calls x) j a (client x)"
    and w: "wires_rel d (accepted_calls x) k j cc x" by (auto simp: rpc_rel_def)
  let ?c' = "OnWrite rs (server_conn x)"
  have "conn_inv ?c'" "wire_out ?c' @ pending_out ?c' = wire_out (server_conn x) @ pending_out (server_conn x)"
    using OnWrite_sends [OF _ _ w_ok] w reg by (simp_all add: wires_rel_def Let_def)
  moreover obtain u where "wire_out ?c' = wire_out (server_conn x) @ u" "read_buffer ?c' = read_buffer (server_conn x)"
    using OnWrite_grows [of "server_conn x" rs] by (auto elim: prefixE)
  ultimately have "wires_rel d (accepted_calls x) k j cc (x\<lparr>server_conn := ?c'\<rparr>)"
    using w reg by (auto simp: wires_rel_def)
  with ok c show ?thesis by (intro rpc_relI) simp_all
qed

lemma match_receive:
  assumes rel: "rpc_rel d x a" and rs: "read_pass rs" "prefix (received rs) (drop (to_client x) (wire_out (server_conn x)))"
  shows "\<exists>a'. (local_step (method_result d))\<^sup>*\<^sup>* a a' \<and>
    rpc_rel d (x\<lparr>client := ClientRead (server_fd (client x)) rs (client x),
      to_client := to_client x + length (received rs)\<rparr>) a'"
proof -
  let ?A = "accepted_calls x" and ?cl = "client x" and ?W = "wire_out (server_conn x)"
  from rel obtain k j cc where ok: "calls_rel ?A a" and c: "client_rel d ?A j a ?cl"
    and w: "wires_rel d ?A k j cc x" by (auto simp: rpc_rel_def)
  have cc: "loop_conns ?cl (server_fd ?cl) = Some cc" "registered cc" and le: "to_client x \<le> length ?W"
    using w by (simp_all add: wires_rel_def)
  note more = take_more [OF rs(2) le]
  have "prefix ?W (stream_of (map (reply_of d) (take k ?A)))"
    using w unfolding wires_rel_def by (metis prefixI)
  then have "prefix (take (to_client x) ?W @ received rs) (stream_of (map (reply_of d) ?A))"
    unfolding more(1) by (meson prefix_order.trans stream_of_take take_is_prefix)
  with w encodable_all(2) [OF ok] rs(1) obtain j' b' where j': "j \<le> j'"
    "parsed (map (reply_of d) ?A) j' (take (to_client x) ?W @ received rs) b'"
    and r: "OnRead rs cc = cc\<lparr>read_buffer := b',
      events := events cc @ map FrameReceived (drop j (take j' (map (reply_of d) ?A)))\<rparr>"
    by (elim read_parsed [rotated 2]) (auto simp: wires_rel_def)
  let ?cc = "OnRead rs cc"
  let ?cl1 = "?cl\<lparr>loop_conns := (loop_conns ?cl)(server_fd ?cl := Some ?cc)\<rparr>"
  have f: "new_frames cc ?cc = map (reply_of d) (drop j (take j' ?A))"
    by (simp only: r new_frames_more) (simp add: take_map drop_map)
  have reg: "registered ?cc" using cc(2) by (simp add: r)
  then have cl': "ClientRead (server_fd ?cl) rs ?cl = fold OnResponse (map (reply_of d) (drop j (take j' ?A))) ?cl1"
    by (simp add: ClientRead_def cc(1) f Let_def del: fold_map)
  have "client_rel d ?A j a ?cl1" using c by (simp add: client_rel_def)
  moreover have "j' \<le> length ?A" using j'(2) by (simp add: parsed_def)
  ultimately obtain a' where a': "(local_step (method_result d))\<^sup>*\<^sup>* a a'" "calls_rel ?A a'"
    "client_rel d ?A j' a' (ClientRead (server_fd ?cl) rs ?cl)"
    using responses_arrive [OF j'(1) _ ok] unfolding cl' by blast
  have "wires_rel d ?A k j' ?cc (x\<lparr>client := ClientRead (server_fd ?cl) rs ?cl,
      to_client := to_client x + length (received rs)\<rparr>)"
    using w j'(2) more reg by (auto simp: wires_rel_def cl' r simp del: fold_map)
  with a' show ?thesis by (intro exI conjI rpc_relI) simp_all
qed

lemma match_step:
  assumes "rpc_rel d x a" and "rpc_step d x y"
  shows "\<exists>b. (local_step (method_result d))\<^sup>*\<^sup>* a b \<and> rpc_rel d y b"
  using assms(2)
proof cases
  case (rpc_call r m b i cl)
  with match_call [OF assms(1)] show ?thesis by blast
next
  case (rpc_serve rs sends)
  with match_serve [OF assms(1)] show ?thesis by blast
next
  case (rpc_flush rs)
  with match_flush [OF assms(1)] show ?thesis by blast
next
  case (rpc_receive rs)
  with match_receive [OF assms(1)] show ?thesis by blast
qed

end

lemma start_rel: "rpc_start x \<Longrightarrow> rpc_rel d x []"
proof -
  assume "rpc_start x"
  then obtain n m where "0 \<le> n" and x: "x = \<lparr>client = snd (Connect (Connected n) new_client),
      server_conn = new_connection m, to_server = 0, to_client = 0, accepted_calls = []\<rparr>"
    by (auto simp: rpc_start_def)
  show "rpc_rel d x []"
    by (rule rpc_relI [of _ _ _ 0 0 "new_connection n"])
      (simp_all add: x Connect_def new_client_def calls_rel_def client_rel_def wires_rel_def waiting_def
        new_connection_def pending_out_def conn_inv_def)
qed

sublocale rpc_service \<subseteq> calls: simulation rpc_start "rpc_step d" "\<lambda>a. a = []" "local_step (method_result d)" "rpc_rel d"
  by unfold_locales (use start_rel match_step in blast)+

lemma rpc_rel_futures:
  assumes "rpc_rel d x a"
  shows "futures (client x) = map future_of a"
    and "\<forall>(i, m, b) \<in> set (accepted_calls x). \<exists>v. a ! i = (m, b, v)"
proof -
  from assms obtain j where c: "client_rel d (accepted_calls x) j a (client x)" by (auto simp: rpc_rel_def)
  then show "futures (client x) = map future_of a" by (simp add: client_rel_def)
  have "\<forall>c \<in> set (take j (accepted_calls x) @ drop j (accepted_calls x)). \<exists>v. a ! fst c = (fst (snd c), snd (snd c), v)"
    using c unfolding client_rel_def set_append answered_def unanswered_def by blast
  then show "\<forall>(i, m, b) \<in> set (accepted_calls x). \<exists>v. a ! i = (m, b, v)" by force
qed

subsection \<open>When everything has been delivered\<close>

definition delivered :: "rpc_system \<Rightarrow> bool" where
  "delivered x \<longleftrightarrow> to_server x = length (client_out (client x)) \<and> pending_out (server_conn x) = [] \<and>
     to_client x = length (wire_out (server_conn x))"

context rpc_service
begin

lemma delivered_answers:
  assumes rel: "rpc_rel d x a" and "delivered x" and i: "i < length (futures (client x))"
  shows "futures (client x) ! i = Value (case map_of (accepted_calls x) i of
    Some (m, b) \<Rightarrow> result_value (method_result d m b) | None \<Rightarrow> [])"
proof -
  let ?A = "accepted_calls x"
  from rel obtain k j cc where ok: "calls_rel ?A a" and c: "client_rel d ?A j a (client x)"
    and w: "wires_rel d ?A k j cc x" by (auto simp: rpc_rel_def)
  note enc = encodable_all [OF ok]
  have "parsed (map request_of ?A) k (stream_of (map request_of ?A)) (read_buffer (server_conn x))"
    using w assms(2) by (auto simp: wires_rel_def delivered_def client_out_def)
  from parsed_all [OF enc(1) this] have k: "k = length ?A" by simp
  then have "parsed (map (reply_of d) ?A) j (stream_of (map (reply_of d) ?A)) (read_buffer cc)"
    using w assms(2) by (auto simp: wires_rel_def delivered_def)
  from parsed_all [OF enc(2) this] have j: "j = length ?A" by simp
  have f: "futures (client x) = map future_of a" using c by (simp add: client_rel_def)
  show ?thesis
  proof (cases "map_of ?A i")
    case None
    then have "snd (snd (a ! i)) = Some []"
      using ok i f by (simp add: calls_rel_def map_of_eq_None_iff)
    then show ?thesis using None i f by (cases "a ! i") simp
  next
    case (Some mb)
    then have "(i, fst mb, snd mb) \<in> set (take j ?A)" by (simp add: j map_of_SomeD)
    then have "a ! i = answered d (i, fst mb, snd mb)" using c by (fastforce simp: client_rel_def)
    then show ?thesis using Some i f by (simp add: answered_def case_prod_beta)
  qed
qed

end

subsection \<open>The benchmark server\<close>

lemma two_ints_size: "fst (two_ints g b s) = Some r \<Longrightarrow> length r \<le> 9"
  by (auto simp: two_ints_def Let_def writer_defs empty_writer_def split: prod.splits option.splits)

lemma bench_result:
  assumes "method_result bench_dispatch m b = Some r"
  shows "length m = 3" "length r \<le> 9"
  using assms two_ints_size
  by (auto simp: method_result_def bench_dispatch_def AddHandler_def SubHandler_def split: if_splits)

interpretation bench: rpc_service bench_dispatch
proof
  fix c assume "encodable (request_of c)"
  then show "encodable (reply_of bench_dispatch c)"
    using bench_result [of "fst (snd c)" "snd (snd c)"]
    by (cases c; cases "method_result bench_dispatch (fst (snd c)) (snd (snd c))")
      (auto simp: encodable_def kMaxFrameSize_def)
qed

definition two_args :: "i32 \<Rightarrow> i32 \<Rightarrow> bytes" where
  "two_args a b = ser_buffer (WriteInt32 b (WriteInt32 a empty_writer))"

lemma two_ints_args: "two_ints g (two_args a b) s = (Some (ser_buffer (WriteInt32 (g a b) empty_writer)), s)"
proof -
  let ?v = "\<lambda>v. tlv TInt32 (be_bytes 4 v)"
  have args: "two_args a b = ?v a @ ?v b"
    by (simp add: two_args_def int32.wr_appends empty_writer_def)
  have "remaining (make_reader (two_args a b)) = ?v a @ ?v b"
    by (simp add: remaining_def make_reader_def args)
  then have r: "ReadInt32 (make_reader (two_args a b)) = (Some a, skip_bytes (length (?v a)) (make_reader (two_args a b)))"
    by (rule int32.rd_value [rotated]) simp
  have "remaining (skip_bytes (length (?v a)) (make_reader (two_args a b))) = ?v b @ []"
    by (simp add: remaining_def make_reader_def skip_bytes_def args del: length_tlv)
  then have "ReadInt32 (skip_bytes (length (?v a)) (make_reader (two_args a b))) =
      (Some b, skip_bytes (length (?v b)) (skip_bytes (length (?v a)) (make_reader (two_args a b))))"
    by (rule int32.rd_value [rotated]) simp
  with r show ?thesis by (simp add: two_ints_def Let_def split: prod.split)
qed

lemma add_result: "method_result bench_dispatch ''Add'' (two_args a b) = Some (ser_buffer (WriteInt32 (a + b) empty_writer))"
  and sub_result: "method_result bench_dispatch ''Sub'' (two_args a b) = Some (ser_buffer (WriteInt32 (a - b) empty_writer))"
  by (simp_all add: method_result_def bench_dispatch_def AddHandler_def SubHandler_def two_ints_args)

subsection \<open>A call from beginning to end\<close>

definition rpc_demo :: rpc_system where
  "rpc_demo = \<lparr>client = snd (Connect (Connected 5) new_client), server_conn = new_connection 7,
     to_server = 0, to_client = 0, accepted_calls = []\<rparr>"

definition demo_called :: rpc_system where
  "demo_called = rpc_demo\<lparr>client := snd (Call (Sent 34) ''Add'' (two_args 2 3) (client rpc_demo)),
     accepted_calls := [(0, ''Add'', two_args 2 3)]\<rparr>"

abbreviation demo_call :: accepted_call where
  "demo_call \<equiv> (0, ''Add'', two_args 2 3)"

definition demo_served :: rpc_system where
  "demo_served = demo_called
     \<lparr>server_conn := fst (ServerRead bench_dispatch [RecvData (client_out (client demo_called)), RecvAgain] [Sent 25]
        (server_conn demo_called, ())),
      to_server := to_server demo_called + length (client_out (client demo_called))\<rparr>"

definition demo_done :: rpc_system where
  "demo_done = demo_served
     \<lparr>client := ClientRead (server_fd (client demo_served)) [RecvData (wire_out (server_conn demo_served)), RecvAgain]
        (client demo_served),
      to_client := to_client demo_served + length (wire_out (server_conn demo_served))\<rparr>"

lemma length_two_args [simp]: "length (two_args a b) = 18"
  by (simp add: two_args_def writer_defs empty_writer_def)

lemma length_sum [simp]: "length (ser_buffer (WriteInt32 a empty_writer)) = 9"
  by (simp add: writer_defs empty_writer_def)

lemma demo_encodable: "encodable (request_of demo_call)"
  by (simp add: encodable_def kMaxFrameSize_def)

lemma rpc_demo_starts: "rpc_start rpc_demo"
  by (auto simp: rpc_start_def rpc_demo_def intro: exI [of _ 5])

lemma demo_client:
  "client demo_called = (client rpc_demo)\<lparr>next_request_id := 2, futures := [Unset], pending_requests := [1 \<mapsto> 0],
     loop_conns := [5 \<mapsto> new_connection 5\<lparr>wire_out := encode_frame (request_of demo_call)\<rparr>]\<rparr>"
  by (simp add: demo_called_def rpc_demo_def Call_def Let_def Connect_def new_client_def drop_promise_def
      put_on_wire_def encode_frame_def new_connection_def)

lemma demo_out: "client_out (client demo_called) = encode_frame (request_of demo_call)"
  by (simp add: client_out_def demo_client rpc_demo_def Connect_def new_client_def)

lemma OnRead_one_frame:
  assumes "encodable f" and "read_buffer c = empty_buffer"
  shows "new_frames c (OnRead [RecvData (encode_frame f), RecvAgain] c) = [f]"
proof -
  have "\<forall>g \<in> set [f]. encodable g" "parsed [f] 0 [] (read_buffer c)"
    "read_pass [RecvData (encode_frame f), RecvAgain]"
    "prefix ([] @ received [RecvData (encode_frame f), RecvAgain]) (stream_of [f])"
    using assms by simp_all
  then obtain k b where k: "parsed [f] k ([] @ received [RecvData (encode_frame f), RecvAgain]) b"
    and r: "OnRead [RecvData (encode_frame f), RecvAgain] c =
      c\<lparr>read_buffer := b, events := events c @ map FrameReceived (drop 0 (take k [f]))\<rparr>"
    by (rule read_parsed)
  from k have "k = length [f]" using assms(1) by (intro parsed_all) simp_all
  with r show ?thesis by (simp only: new_frames_more) simp
qed

lemma OnRead_write_buffer: "write_buffer (OnRead rs c) = write_buffer c"
  by (auto simp: OnRead_def dest!: recv_loop_writes split: prod.splits bool.splits)

lemma demo_reply: "server_reply bench_dispatch (request_of demo_call) () = (encode_frame (reply_of bench_dispatch demo_call), ())"
  using replies_requests [of bench_dispatch "[demo_call]"] by (simp split: prod.splits)

lemma length_demo_reply: "length (encode_frame (reply_of bench_dispatch demo_call)) = 25"
  by (simp add: add_result encode_frame_def)

lemma demo_frames:
  "new_frames (server_conn demo_called) (OnRead [RecvData (client_out (client demo_called)), RecvAgain] (server_conn demo_called)) =
     [request_of demo_call]"
  unfolding demo_out
  by (rule OnRead_one_frame [OF demo_encodable]) (simp add: demo_called_def rpc_demo_def new_connection_def)

lemma demo_conn:
  "wire_out (server_conn demo_called) = []" "write_buffer (server_conn demo_called) = []"
  "write_offset (server_conn demo_called) = 0" "to_server demo_called = 0" "to_client demo_served = 0"
  by (simp_all add: demo_served_def demo_called_def rpc_demo_def new_connection_def)

lemma demo_server_out:
  "wire_out (server_conn demo_served) = encode_frame (reply_of bench_dispatch demo_call)"
  "pending_out (server_conn demo_served) = []"
  using OnRead_writes [of "[RecvData (client_out (client demo_called)), RecvAgain]" "server_conn demo_called"]
  by (simp_all add: demo_served_def ServerRead_def Let_def demo_frames demo_reply Send_def length_demo_reply
      OnRead_write_buffer demo_conn pending_out_def del: request_of.simps reply_of.simps)

lemma OnRead_registered: "read_pass rs \<Longrightarrow> registered (OnRead rs c) = registered c"
  by (simp add: OnRead_pass split: prod.split)

lemma length_OnResponse: "length (futures (fold OnResponse fs cl)) = length (futures cl)"
  by (induction fs arbitrary: cl) (simp_all add: OnResponse_def Settle_def split: option.split)

lemma demo_delivered: "delivered demo_done" "length (futures (client demo_done)) = 1"
proof -
  let ?rs = "[RecvData (wire_out (server_conn demo_served)), RecvAgain]"
  let ?cc = "new_connection 5\<lparr>wire_out := encode_frame (request_of demo_call)\<rparr>"
  have cl: "client demo_served = client demo_called" by (simp add: demo_served_def)
  have fd: "server_fd (client demo_called) = 5" "loop_conns (client demo_called) 5 = Some ?cc"
    "length (futures (client demo_called)) = 1"
    by (simp_all add: demo_client rpc_demo_def Connect_def new_client_def del: request_of.simps)
  have reg: "registered (OnRead ?rs ?cc)" by (simp add: OnRead_registered new_connection_def)
  have out: "client_out (client demo_done) = client_out (client demo_called)"
    using OnRead_writes [of ?rs ?cc]
    by (simp add: demo_done_def cl fd ClientRead_def Let_def reg client_out_def del: request_of.simps)
  show "delivered demo_done"
    unfolding delivered_def out
    by (simp add: demo_done_def demo_server_out(2)) (simp add: demo_served_def demo_called_def rpc_demo_def)
  show "length (futures (client demo_done)) = 1"
    by (simp add: demo_done_def cl fd ClientRead_def Let_def length_OnResponse)
qed

lemma demo_run: "(rpc_step bench_dispatch)\<^sup>*\<^sup>* rpc_demo demo_done"
proof -
  let ?c = "Call (Sent 34) ''Add'' (two_args 2 3) (client rpc_demo)"
  have "?c = (0, snd ?c)"
    by (simp add: rpc_demo_def Call_def Let_def Connect_def new_client_def)
  moreover have "whole_send (length (encode_frame (request_of demo_call))) (Sent 34)"
    by (simp add: encode_frame_def)
  ultimately have "rpc_step bench_dispatch rpc_demo (rpc_demo\<lparr>client := snd ?c,
      accepted_calls := accepted_calls rpc_demo @ (if went_out (Sent 34) then [demo_call] else [])\<rparr>)"
    using demo_encodable by (intro rpc_call) simp_all
  then have "rpc_step bench_dispatch rpc_demo demo_called"
    by (simp add: demo_called_def rpc_demo_def went_out_def)
  moreover have "rpc_step bench_dispatch demo_called demo_served"
    using rpc_serve [of "[RecvData (client_out (client demo_called)), RecvAgain]" demo_called bench_dispatch "[Sent 25]"]
    by (simp add: demo_served_def demo_frames demo_reply length_demo_reply demo_conn
        del: request_of.simps reply_of.simps)
  moreover have "rpc_step bench_dispatch demo_served demo_done"
    using rpc_receive [of "[RecvData (wire_out (server_conn demo_served)), RecvAgain]" demo_served bench_dispatch]
    by (simp add: demo_done_def demo_conn)
  ultimately show ?thesis by (blast intro: rtranclp.rtrancl_into_rtrancl)
qed

subsection \<open>Properties\<close>

text \<open>
  C5. The RPC stack refines local calls: in every reachable state, however requests and
  responses are cut into pieces and interleaved, the futures are those of a run in which each call is
  refused or returns, once, what the method it names returns for its arguments.
\<close>

theorem rpc_refines_local_calls:
  assumes "rpc_start x" and "(rpc_step bench_dispatch)\<^sup>*\<^sup>* x y"
  shows "\<exists>a. (local_step (method_result bench_dispatch))\<^sup>*\<^sup>* [] a \<and> futures (client y) = map future_of a \<and>
    (\<forall>(i, m, b) \<in> set (accepted_calls y). \<exists>v. a ! i = (m, b, v))"
  using assms by (rule bench.calls.refines) (use rpc_rel_futures in blast)

theorem rpc_refines_local_calls_witness:
  "\<exists>a. (local_step (method_result bench_dispatch))\<^sup>*\<^sup>* [] a \<and> futures (client demo_done) = map future_of a"
  using rpc_refines_local_calls [OF rpc_demo_starts demo_run] by blast

text \<open>
  C6. No call is lost: once the bytes have been delivered in both directions, every call that was sent has
  the result of its method, matched by request id, and every call the socket refused has the empty one.
\<close>

theorem delivered_calls_answered:
  assumes "rpc_start x" and "(rpc_step bench_dispatch)\<^sup>*\<^sup>* x y" and "delivered y"
    and "i < length (futures (client y))"
  shows "futures (client y) ! i = Value (case map_of (accepted_calls y) i of
    Some (m, b) \<Rightarrow> result_value (method_result bench_dispatch m b) | None \<Rightarrow> [])"
  using assms(1,2) by (rule bench.calls.refines) (use bench.delivered_answers [OF _ assms(3,4)] in blast)

theorem delivered_calls_answered_witness:
  "futures (client demo_done) ! 0 = Value (ser_buffer (WriteInt32 5 empty_writer))"
proof -
  have "map_of (accepted_calls demo_done) 0 = Some (''Add'', two_args 2 3)"
    by (simp add: demo_done_def demo_served_def demo_called_def)
  then show ?thesis
    using delivered_calls_answered [OF rpc_demo_starts demo_run demo_delivered(1)] demo_delivered(2) by (simp add: result_value_def add_result)
qed

end
