(* ===== verification/Text_Scan.thy ===== *)
theory Text_Scan
  imports Rpc_Prelude "HOL-Library.Sublist"
begin

text \<open>
  Searching and reading text the way the benchmark programs do, with \<open>std::string::find\<close>, loops
  over spaces and digits, and \<open>std::stoi\<close>. Positions of the programs are suffixes of the text
  here.
\<close>

subsection \<open>Text\<close>

text \<open>\<open>std::string::find\<close>: the position of the first occurrence.\<close>

fun find_sub :: "string \<Rightarrow> string \<Rightarrow> nat option" where
  "find_sub pat [] = (if pat = [] then Some 0 else None)"
| "find_sub pat (c # s) = (if prefix pat (c # s) then Some 0 else map_option Suc (find_sub pat s))"

definition is_digit :: "char \<Rightarrow> bool" where
  "is_digit c \<longleftrightarrow> 48 \<le> (of_char c :: nat) \<and> (of_char c :: nat) < 58"

text \<open>
  \<open>std::stoi\<close> and \<open>std::stoll\<close> on the texts the program gives them: a sign or nothing, then
  digits. An exception is the left of the result.
\<close>

datatype stoi_error = InvalidArgument | OutOfRange

definition to_integer :: "nat \<Rightarrow> string \<Rightarrow> stoi_error + int" where
  "to_integer w s =
     (let neg = (s \<noteq> [] \<and> hd s = CHR ''-'');
          ds = (if neg then drop 1 s else s);
          v = (if neg then - int (undec ds) else int (undec ds))
      in if ds = [] then Inl InvalidArgument
         else if v < - (2 ^ (w - 1)) \<or> 2 ^ (w - 1) \<le> v then Inl OutOfRange
         else Inr v)"

definition stoi :: "string \<Rightarrow> stoi_error + int" where
  "stoi = to_integer 32"

definition stoll :: "string \<Rightarrow> stoi_error + int" where
  "stoll = to_integer 64"

definition skip_spaces :: "string \<Rightarrow> string" where
  "skip_spaces s = dropWhile (\<lambda>c. c = CHR '' '') s"

abbreviation quote :: string where
  "quote \<equiv> [CHR 0x22]"

text \<open>The text after the first occurrence of a pattern.\<close>

definition after :: "string \<Rightarrow> string \<Rightarrow> string option" where
  "after pat s = map_option (\<lambda>p. drop (p + length pat) s) (find_sub pat s)"

subsection \<open>Searching\<close>

lemma find_sub_iff:
  "find_sub pat s = Some n \<longleftrightarrow> n \<le> length s \<and> prefix pat (drop n s) \<and> (\<forall>k < n. \<not> prefix pat (drop k s))"
proof (induction pat s arbitrary: n rule: find_sub.induct)
  case (1 pat)
  then show ?case by auto
next
  case (2 pat c s)
  show ?case
  proof (cases n)
    case 0
    then show ?thesis by auto
  next
    case (Suc m)
    have "(\<forall>k < Suc m. \<not> prefix pat (drop k (c # s))) \<longleftrightarrow>
        \<not> prefix pat (c # s) \<and> (\<forall>k < m. \<not> prefix pat (drop k s))"
      by (metis drop0 drop_Suc_Cons less_Suc_eq_0_disj)
    with 2 Suc show ?thesis by auto
  qed
qed

lemma prefix_shorter: "prefix p (x @ t) \<Longrightarrow> length p \<le> length x \<Longrightarrow> prefix p x"
  by (rule prefix_length_prefix [of p "x @ t" x]) simp_all

lemma find_sub_prefix:
  assumes "find_sub pat s = Some n" and "prefix q s"
  shows "find_sub pat q = (if n + length pat \<le> length q then Some n else None)"
proof -
  obtain t where t: "s = q @ t" using assms(2) by (rule prefixE)
  have n: "prefix pat (drop n s)" "\<And>k. k < n \<Longrightarrow> \<not> prefix pat (drop k s)"
    using assms(1) by (simp_all add: find_sub_iff)
  have up: "prefix pat (drop k s)" if "prefix pat (drop k q)" "k \<le> length q" for k
    using that by (simp add: t prefix_prefix)
  show ?thesis
  proof (cases "n + length pat \<le> length q")
    case True
    then have "prefix pat (drop n q)"
      using n(1) prefix_shorter [of pat "drop n q" t] by (simp add: t)
    with n(2) up True have "find_sub pat q = Some n" unfolding find_sub_iff by (meson add_leD1 less_imp_le_nat order_trans)
    with True show ?thesis by simp
  next
    case False
    have "find_sub pat q \<noteq> Some m" for m
    proof
      assume "find_sub pat q = Some m"
      then have m: "m \<le> length q" "prefix pat (drop m q)" by (simp_all add: find_sub_iff)
      then have "\<not> m < n" using up n(2) by blast
      moreover have "length pat \<le> length q - m" using prefix_length_le [OF m(2)] by simp
      ultimately show False using False m(1) by simp
    qed
    then have "find_sub pat q = None" by (cases "find_sub pat q") blast+
    with False show ?thesis by simp
  qed
qed

lemma find_sub_skip:
  "pat \<noteq> [] \<Longrightarrow> hd pat \<notin> set x \<Longrightarrow> find_sub pat (x @ s) = map_option (\<lambda>k. length x + k) (find_sub pat s)"
proof (induction x)
  case Nil
  then show ?case by (cases "find_sub pat s") simp_all
next
  case (Cons c x)
  then have "\<not> prefix pat (c # x @ s)" by (cases pat) auto
  with Cons show ?case by (cases "find_sub pat s") simp_all
qed

lemma find_sub_step: "\<not> prefix pat (c # s) \<Longrightarrow> find_sub pat (c # s) = map_option Suc (find_sub pat s)"
  by simp

lemma find_sub_here: "pat \<noteq> [] \<Longrightarrow> find_sub pat (pat @ s) = Some 0"
  by (cases pat) simp_all

lemma after_step: "after pat (c # s) = (if prefix pat (c # s) then Some (drop (length pat) (c # s)) else after pat s)"
  by (cases "find_sub pat s") (simp_all add: after_def)

lemma after_skip: "pat \<noteq> [] \<Longrightarrow> hd pat \<notin> set x \<Longrightarrow> after pat (x @ s) = after pat s"
  by (cases "find_sub pat s") (simp_all add: after_def find_sub_skip)

subsection \<open>Numbers\<close>

lemma dec_is_digit: "c \<in> set (dec n) \<Longrightarrow> is_digit c"
  using dec_digits by (simp add: is_digit_def)

lemma takeWhile_dec: "\<not> is_digit c \<Longrightarrow> takeWhile is_digit (dec n @ c # s) = dec n"
  using dec_is_digit by (simp add: takeWhile_append2)

lemma hd_dec: "is_digit (hd (dec n))" "dec n \<noteq> []"
  using dec_is_digit [of "hd (dec n)" n] dec_chars(3) [of n] by simp_all

lemma to_integer_dec: "n < 2 ^ (w - 1) \<Longrightarrow> to_integer w (dec n) = Inr (int n)"
proof -
  assume "n < 2 ^ (w - 1)"
  then have "int n < int (2 ^ (w - 1))" by (simp only: of_nat_less_iff)
  then have "int n < 2 ^ (w - 1)" by simp
  moreover have "(0::int) < 2 ^ (w - 1)" by simp
  then have "- (2 ^ (w - 1)) \<le> int n" by linarith
  moreover have "hd (dec n) \<noteq> CHR ''-''" using hd_dec [of n] by (auto simp: is_digit_def)
  ultimately show ?thesis by (simp add: to_integer_def hd_dec(2) undec_dec Let_def del: dec.simps)
qed

lemma to_integer_int_dec: "- (2 ^ (w - 1)) \<le> k \<Longrightarrow> k < 2 ^ (w - 1) \<Longrightarrow> to_integer w (int_dec k) = Inr k"
proof (cases "k < 0")
  case True
  assume "- (2 ^ (w - 1)) \<le> k" "k < 2 ^ (w - 1)"
  with True show ?thesis by (simp add: to_integer_def hd_dec(2) undec_dec int_dec.simps del: dec.simps)
next
  case False
  assume "k < 2 ^ (w - 1)"
  then have "nat k < 2 ^ (w - 1)" by (simp add: nat_less_iff)
  with False show ?thesis using to_integer_dec [of "nat k" w] by (simp add: int_dec.simps del: dec.simps)
qed

lemma stoi_dec: "n < 2 ^ 31 \<Longrightarrow> stoi (dec n) = Inr (int n)"
  using to_integer_dec [of n 32] by (simp add: stoi_def)

lemma stoi_int_dec: "- (2 ^ 31) \<le> k \<Longrightarrow> k < 2 ^ 31 \<Longrightarrow> stoi (int_dec k) = Inr k"
  using to_integer_int_dec [of 32 k] by (simp add: stoi_def)

lemma stoll_int_dec: "- (2 ^ 63) \<le> k \<Longrightarrow> k < 2 ^ 63 \<Longrightarrow> stoll (int_dec k) = Inr k"
  using to_integer_int_dec [of 64 k] by (simp add: stoll_def)

lemma stoi_too_large: "2 ^ 31 \<le> n \<Longrightarrow> stoi (dec n) = Inl OutOfRange"
proof -
  assume "2 ^ 31 \<le> n"
  moreover have "hd (dec n) \<noteq> CHR ''-''" using hd_dec [of n] by (auto simp: is_digit_def)
  ultimately show ?thesis by (simp add: stoi_def to_integer_def hd_dec(2) undec_dec del: dec.simps)
qed

lemma length_dec: "n < 10 ^ k \<Longrightarrow> 0 < k \<Longrightarrow> length (dec n) \<le> k"
proof (induction n arbitrary: k rule: dec.induct)
  case (1 n)
  show ?case
  proof (cases "n < 10")
    case True
    with 1 show ?thesis by (simp add: dec.simps [of n])
  next
    case False
    then obtain j where j: "k = Suc j" "0 < j" using 1(2,3) by (cases k; cases "k - 1") auto
    then have "length (dec (n div 10)) \<le> j" using 1 False by (intro 1(1)) auto
    with False j show ?thesis by (simp add: dec.simps [of n])
  qed
qed

end
