(* ===== verification/Http_Server.thy ===== *)
theory Http_Server
  imports Stream_Connection Text_Scan
begin

text \<open>
  The HTTP mode of \<open>bench/bench_server.cpp\<close>: a minimal HTTP/1.1 and JSON parser over a byte
  buffer, and the request builder of \<open>bench/bench_client.cpp\<close> it is used with. Positions of the
  program are suffixes of the text here. An exception of \<open>std::stoi\<close> leaves the handler and,
  since nothing catches it, ends the server; it is the left of a sum. The socket takes every
  response whole (the program ignores what its one \<open>send\<close> returns). Signed overflow of the
  two methods wraps.
\<close>

subsection \<open>JSON and headers\<close>

abbreviation crlf :: string where
  "crlf \<equiv> [CHR 0x0D, CHR 0x0A]"

definition ExtractInt :: "string \<Rightarrow> string \<Rightarrow> stoi_error + int option" where
  "ExtractInt json key =
     (case after (quote @ key @ quote @ '':'') json of
        None \<Rightarrow> Inr None
      | Some t \<Rightarrow>
          let t1 = skip_spaces t;
              sign = (if t1 \<noteq> [] \<and> hd t1 = CHR ''-'' then ''-'' else []);
              tok = sign @ takeWhile is_digit (drop (length sign) t1)
          in if tok = [] then Inr None else map_sum id Some (stoi tok))"

definition FormatResult :: "int \<Rightarrow> string" where
  "FormatResult v = ''{'' @ quote @ ''result'' @ quote @ '':'' @ int_dec v @ ''}''"

definition FormatError :: "string \<Rightarrow> string" where
  "FormatError msg = ''{'' @ quote @ ''error'' @ quote @ '':'' @ quote @ msg @ quote @ ''}''"

definition ParseContentLength :: "string \<Rightarrow> stoi_error + int" where
  "ParseContentLength hdr =
     (case (case after ''Content-Length:'' hdr of
              None \<Rightarrow> after ''content-length:'' hdr | Some t \<Rightarrow> Some t) of
        None \<Rightarrow> Inr (- 1)
      | Some t \<Rightarrow>
          let ds = takeWhile is_digit (skip_spaces t)
          in if ds = [] then Inr (- 1) else stoi ds)"

text \<open>The text between the first two spaces, and what follows its last slash.\<close>

definition ParsePath :: "string \<Rightarrow> string" where
  "ParsePath hdr =
     (case after '' '' hdr of
        None \<Rightarrow> []
      | Some t \<Rightarrow> (case find_sub '' '' t of None \<Rightarrow> [] | Some n \<Rightarrow> take n t))"

definition method_of_path :: "string \<Rightarrow> string" where
  "method_of_path path = rev (takeWhile (\<lambda>c. c \<noteq> CHR ''/'') (rev path))"

subsection \<open>Responses\<close>

text \<open>
  \<open>snprintf\<close> into a buffer of 4096 bytes returns the length the text would have; that many
  bytes are then sent from the buffer. \<open>Overrun s n\<close> is a send of the buffer's 4096 bytes
  \<open>s\<close> and of the \<open>n\<close> bytes of the stack behind it.
\<close>

datatype http_out = HttpResponse string | Overrun string nat

definition send_buffer :: "string \<Rightarrow> http_out" where
  "send_buffer text =
     (if length text < 4096 then HttpResponse text
      else Overrun (take 4095 text @ [CHR 0x00]) (length text - 4096))"

definition status_line :: "nat \<Rightarrow> string" where
  "status_line code =
     (if code = 200 then ''200 OK'' else if code = 400 then ''400 Bad Request'' else dec code @ '' Error'')"

definition response_text :: "nat \<Rightarrow> string \<Rightarrow> string" where
  "response_text code bdy =
     ''HTTP/1.1 '' @ status_line code @ crlf @ ''Content-Type: application/json'' @ crlf @
     ''Content-Length: '' @ dec (length bdy) @ crlf @ ''Connection: keep-alive'' @ crlf @ crlf @
     takeWhile (\<lambda>c. c \<noteq> CHR 0x00) bdy"

record http_conn =
  h_fd :: int
  h_buf :: string
  h_out :: "http_out list"

definition new_http_conn :: "int \<Rightarrow> http_conn" where
  "new_http_conn n = \<lparr>h_fd = n, h_buf = [], h_out = []\<rparr>"

definition SendResponse :: "nat \<Rightarrow> string \<Rightarrow> http_conn \<Rightarrow> http_conn" where
  "SendResponse code bdy c = c\<lparr>h_out := h_out c @ [send_buffer (response_text code bdy)]\<rparr>"

definition SendHttpError :: "nat \<Rightarrow> string \<Rightarrow> http_conn \<Rightarrow> http_conn" where
  "SendHttpError code msg c = SendResponse code (FormatError msg) c"

definition HttpOnClose :: "http_conn \<Rightarrow> http_conn" where
  "HttpOnClose c = c\<lparr>h_fd := - 1\<rparr>"

subsection \<open>Requests\<close>

definition http_method :: "string \<Rightarrow> int \<Rightarrow> int \<Rightarrow> int option" where
  "http_method m a b =
     (if m = ''Add'' then Some (sint (word_of_int a + word_of_int b :: i32))
      else if m = ''Sub'' then Some (sint (word_of_int a - word_of_int b :: i32))
      else None)"

text \<open>
  One request from the front of the buffer: \<open>Inr (True, c)\<close> when it was answered and the next
  one may be tried, \<open>Inr (False, c)\<close> when it is incomplete or the connection was closed. The
  content length is looked up in the whole buffer, as the program does.
\<close>

definition ProcessOneRequest :: "http_conn \<Rightarrow> stoi_error + bool \<times> http_conn" where
  "ProcessOneRequest c =
     (case find_sub (crlf @ crlf) (h_buf c) of
        None \<Rightarrow> Inr (False, c)
      | Some header_end \<Rightarrow>
     (case ParseContentLength (h_buf c) of
        Inl e \<Rightarrow> Inl e
      | Inr content_length \<Rightarrow>
          if content_length < 0 then Inr (False, HttpOnClose (SendHttpError 400 ''Missing Content-Length'' c))
          else
            let total = header_end + 4 + nat content_length in
            if length (h_buf c) < total then Inr (False, c)
            else
              let request = take total (h_buf c);
                  c1 = c\<lparr>h_buf := drop total (h_buf c)\<rparr>;
                  bdy = take (nat content_length) (drop (header_end + 4) request);
                  m = method_of_path (ParsePath request)
              in (case ExtractInt bdy ''a'' of
                    Inl e \<Rightarrow> Inl e
                  | Inr a \<Rightarrow>
                 (case ExtractInt bdy ''b'' of
                    Inl e \<Rightarrow> Inl e
                  | Inr b \<Rightarrow>
                     (case (a, b) of
                        (Some x, Some y) \<Rightarrow>
                          (case http_method m x y of
                             None \<Rightarrow> Inr (False, HttpOnClose (SendHttpError 404 (''Unknown method: '' @ m) c1))
                           | Some v \<Rightarrow> Inr (True, SendResponse 200 (FormatResult v) c1))
                      | _ \<Rightarrow> Inr (False, HttpOnClose (SendHttpError 400 ''Invalid JSON: missing a or b'' c1)))))))"

lemma http_close_fields [simp]:
  "h_buf (HttpOnClose c) = h_buf c" "h_out (HttpOnClose c) = h_out c"
  "h_buf (SendResponse code b c) = h_buf c" "h_fd (SendResponse code b c) = h_fd c"
  "h_out (SendResponse code b c) = h_out c @ [send_buffer (response_text code b)]"
  by (simp_all add: HttpOnClose_def SendResponse_def)

text \<open>An answered request is at least its blank line long, so the loop over the buffer ends.\<close>

lemma ProcessOneRequest_consumes:
  "ProcessOneRequest c = Inr (True, c') \<Longrightarrow> length (h_buf c') < length (h_buf c)"
  by (auto simp: ProcessOneRequest_def Let_def split: option.splits sum.splits if_splits)

function process_requests :: "http_conn \<Rightarrow> stoi_error + http_conn" where
  "process_requests c =
     (case ProcessOneRequest c of
        Inl e \<Rightarrow> Inl e
      | Inr (True, c') \<Rightarrow> process_requests c'
      | Inr (False, c') \<Rightarrow> Inr c')"
  by pat_completeness auto
termination
  by (relation "measure (\<lambda>c. length (h_buf c))") (auto dest: ProcessOneRequest_consumes)

declare process_requests.simps [simp del]

text \<open>
  The receive loop stops at the end of file or an error, and then closes. One \<open>recv\<close> takes at most the
  4096 bytes of its buffer; more bytes that are ready (\<open>RecvData\<close>) take several.
\<close>

function http_recv :: "recv_result list \<Rightarrow> http_conn \<Rightarrow> bool \<times> http_conn" where
  "http_recv [] c = (True, c)"
| "http_recv (RecvData d # rs) c =
     (if length d \<le> 4096 then http_recv rs (c\<lparr>h_buf := h_buf c @ string_of_bytes d\<rparr>)
      else http_recv (RecvData (drop 4096 d) # rs) (c\<lparr>h_buf := h_buf c @ string_of_bytes (take 4096 d)\<rparr>))"
| "http_recv (RecvEof # rs) c = (False, HttpOnClose c)"
| "http_recv (RecvAgain # rs) c = (True, c)"
| "http_recv (RecvIntr # rs) c = http_recv rs c"
| "http_recv (RecvError # rs) c = (False, HttpOnClose c)"
  by pat_completeness auto
termination
  by (relation "measure (\<lambda>(rs, _). length rs + length (received rs))") auto

lemma http_recv_data: "http_recv (RecvData d # rs) c = http_recv rs (c\<lparr>h_buf := h_buf c @ string_of_bytes d\<rparr>)"
proof (induction "length d" arbitrary: d c rule: less_induct)
  case less
  show ?case
  proof (cases "length d \<le> 4096")
    case False
    have "string_of_bytes (take 4096 d) @ string_of_bytes (drop 4096 d) = string_of_bytes d"
      unfolding string_of_bytes_def map_append [symmetric] by simp
    with False show ?thesis
      using less [of "drop 4096 d" "c\<lparr>h_buf := h_buf c @ string_of_bytes (take 4096 d)\<rparr>"] by simp
  qed simp
qed

declare http_recv.simps(2) [simp del]
declare http_recv_data [simp]

definition HttpOnRead :: "recv_result list \<Rightarrow> http_conn \<Rightarrow> stoi_error + http_conn" where
  "HttpOnRead rs c =
     (case http_recv rs c of
        (False, c1) \<Rightarrow> Inr c1
      | (True, c1) \<Rightarrow> process_requests c1)"

subsection \<open>The client's requests\<close>

definition BuildHttpRequest :: "nat \<Rightarrow> string \<Rightarrow> string \<Rightarrow> string" where
  "BuildHttpRequest port m json =
     ''POST /rpc/'' @ m @ '' HTTP/1.1'' @ crlf @ ''Host: 127.0.0.1:'' @ dec port @ crlf @
     ''Content-Type: application/json'' @ crlf @ ''Content-Length: '' @ dec (length json) @ crlf @
     ''Connection: keep-alive'' @ crlf @ crlf @ json"

text \<open>The arguments, written as the client writes its fixed ones.\<close>

definition json_args :: "int \<Rightarrow> int \<Rightarrow> string" where
  "json_args a b = ''{'' @ quote @ ''a'' @ quote @ '':'' @ int_dec a @ '','' @ quote @ ''b'' @ quote @ '':'' @ int_dec b @ ''}''"

subsection \<open>A request of the client\<close>

definition request_head :: "nat \<Rightarrow> string \<Rightarrow> nat \<Rightarrow> string" where
  "request_head port m n =
     ''POST /rpc/'' @ m @ '' HTTP/1.1'' @ crlf @ ''Host: 127.0.0.1:'' @ dec port @ crlf @
     ''Content-Type: application/json'' @ crlf @ ''Content-Length: '' @ dec n @ crlf @
     ''Connection: keep-alive''"

lemma Build_head: "BuildHttpRequest port m json = request_head port m (length json) @ crlf @ crlf @ json"
  by (simp add: BuildHttpRequest_def request_head_def)

lemma not_digit [simp]:
  "CHR 0x0D \<notin> set (dec n)" "CHR ''C'' \<notin> set (dec n)" "CHR ''c'' \<notin> set (dec n)" "CHR '' '' \<notin> set (dec n)"
  "CHR 0x22 \<notin> set (dec n)" "CHR ''/'' \<notin> set (dec n)"
  using dec_digits [of "CHR 0x0D" n] dec_digits [of "CHR ''C''" n] dec_digits [of "CHR ''c''" n]
    dec_digits [of "CHR '' ''" n] dec_digits [of "CHR 0x22" n] dec_digits [of "CHR ''/''" n] by auto

text \<open>Method names that do not look like another part of the request.\<close>

definition plain :: "string \<Rightarrow> bool" where
  "plain m \<longleftrightarrow> CHR 0x0D \<notin> set m \<and> CHR ''C'' \<notin> set m \<and> CHR '' '' \<notin> set m \<and> CHR ''/'' \<notin> set m"

abbreviation known :: "string \<Rightarrow> bool" where
  "known m \<equiv> m = ''Add'' \<or> m = ''Sub''"

lemma known_plain: "known m \<Longrightarrow> plain m"
  by (auto simp: plain_def)

lemma find_blank_line: "plain m \<Longrightarrow>
    find_sub (crlf @ crlf) (request_head port m n @ crlf @ crlf @ json) = Some (length (request_head port m n))"
  by (simp add: request_head_def plain_def find_sub_skip del: dec.simps)

lemma after_content_length: "plain m \<Longrightarrow>
    after ''Content-Length:'' (request_head port m n @ crlf @ y) =
      Some ('' '' @ dec n @ crlf @ ''Connection: keep-alive'' @ crlf @ y)"
  by (simp add: request_head_def plain_def after_step after_skip del: dec.simps)

lemma skip_spaces_dec: "skip_spaces (dec n @ s) = dec n @ s"
  using hd_dec [of n] by (cases "dec n") (auto simp: skip_spaces_def is_digit_def)

lemma content_length: "plain m \<Longrightarrow> n < 2 ^ 31 \<Longrightarrow>
    ParseContentLength (request_head port m n @ crlf @ y) = Inr (int n)"
  using after_content_length [of m port n y] skip_spaces_dec [of n "crlf @ ''Connection: keep-alive'' @ crlf @ y"]
  by (auto simp: ParseContentLength_def skip_spaces_def takeWhile_dec is_digit_def hd_dec(2) stoi_dec simp del: dec.simps)

lemma find_space: "CHR '' '' \<notin> set m \<Longrightarrow> find_sub '' '' (m @ CHR '' '' # s) = Some (length m)"
  by (simp add: find_sub_skip)

lemma request_path:
  assumes "plain m"
  shows "method_of_path (ParsePath (request_head port m n @ crlf @ y)) = m"
proof -
  have "ParsePath (request_head port m n @ crlf @ y) = ''/rpc/'' @ m"
    using assms find_space [of "''/rpc/'' @ m"]
    by (simp add: request_head_def ParsePath_def after_step plain_def del: dec.simps)
  moreover have "takeWhile (\<lambda>c. c \<noteq> CHR ''/'') (rev m @ CHR ''/'' # x) = rev m" for x
    using assms by (subst takeWhile_append2) (auto simp: plain_def)
  ultimately show ?thesis by (simp add: method_of_path_def)
qed

lemma int_token:
  assumes "\<not> is_digit c" and "t = int_dec k @ c # s"
  shows "(let t1 = skip_spaces t; sign = (if t1 \<noteq> [] \<and> hd t1 = CHR ''-'' then ''-'' else [])
    in sign @ takeWhile is_digit (drop (length sign) t1)) = int_dec k"
proof -
  have "dec (nat k) @ c # s \<noteq> [] \<and> hd (dec (nat k) @ c # s) \<noteq> CHR ''-''"
    using hd_dec [of "nat k"] by (auto simp: is_digit_def simp del: dec.simps)
  then show ?thesis
    using takeWhile_dec [OF assms(1)] skip_spaces_dec [of "nat k" "c # s"]
    by (auto simp: assms(2) int_dec.simps skip_spaces_def Let_def simp del: dec.simps)
qed

lemma ExtractInt_token:
  assumes "after (quote @ key @ quote @ '':'') json = Some (int_dec k @ c # s)" and "\<not> is_digit c"
    and "- (2 ^ 31) \<le> k" "k < 2 ^ 31"
  shows "ExtractInt json key = Inr (Some k)"
  using int_token [OF assms(2) refl, of k s] assms(1) stoi_int_dec [OF assms(3,4)] hd_dec(2) hd_dec(2) [THEN not_sym]
  by (auto simp: ExtractInt_def Let_def int_dec.simps simp del: dec.simps split: if_splits)

lemma extract_args:
  assumes "- (2 ^ 31) \<le> a" "a < 2 ^ 31" "- (2 ^ 31) \<le> b" "b < 2 ^ 31"
  shows "ExtractInt (json_args a b) ''a'' = Inr (Some a)" "ExtractInt (json_args a b) ''b'' = Inr (Some b)"
proof -
  have q: "CHR 0x22 \<notin> set (int_dec a)" by (simp add: int_dec.simps del: dec.simps)
  show "ExtractInt (json_args a b) ''a'' = Inr (Some a)"
    by (rule ExtractInt_token [OF _ _ assms(1,2), of _ _ "CHR '',''"])
      (simp_all add: json_args_def after_step is_digit_def)
  show "ExtractInt (json_args a b) ''b'' = Inr (Some b)"
    using q by (intro ExtractInt_token [OF _ _ assms(3,4), of _ _ "CHR ''}''" "[]"])
      (simp_all add: json_args_def after_step after_skip is_digit_def)
qed

subsection \<open>Requests in a stream\<close>

type_synonym http_call = "string \<times> int \<times> int"

fun call_ok :: "http_call \<Rightarrow> bool" where
  "call_ok (m, a, b) \<longleftrightarrow> known m \<and> - (2 ^ 31) \<le> a \<and> a < 2 ^ 31 \<and> - (2 ^ 31) \<le> b \<and> b < 2 ^ 31"

fun call_text :: "nat \<Rightarrow> http_call \<Rightarrow> string" where
  "call_text port (m, a, b) = BuildHttpRequest port m (json_args a b)"

fun call_answer :: "http_call \<Rightarrow> http_out" where
  "call_answer (m, a, b) = HttpResponse (response_text 200 (FormatResult (the (http_method m a b))))"

lemma length_int_dec: "- (2 ^ 31) \<le> k \<Longrightarrow> k < 2 ^ 31 \<Longrightarrow> length (int_dec k) \<le> 11"
proof -
  assume "- (2 ^ 31) \<le> k" "k < 2 ^ 31"
  then have "nat k < 10 ^ 10" "nat (- k) < 10 ^ 10" by auto
  then have "length (dec (nat k)) \<le> 10" "length (dec (nat (- k))) \<le> 10" by (intro length_dec, simp_all del: dec.simps)+
  then show ?thesis by (simp add: int_dec.simps del: dec.simps)
qed

lemma http_method_bounds: "known m \<Longrightarrow> \<exists>v. http_method m a b = Some v \<and> - (2 ^ 31) \<le> v \<and> v < 2 ^ 31"
  using sint_range_size [of "word_of_int a + word_of_int b :: i32"] sint_range_size [of "word_of_int a - word_of_int b :: i32"]
  by (auto simp: http_method_def word_size)

lemma answer_fits:
  assumes "known m"
  shows "send_buffer (response_text 200 (FormatResult (the (http_method m a b)))) = call_answer (m, a, b)"
proof -
  obtain v where v: "http_method m a b = Some v" "- (2 ^ 31) \<le> v" "v < 2 ^ 31"
    using http_method_bounds [OF assms] by blast
  let ?t = "FormatResult v"
  have n: "length ?t \<le> 23" using length_int_dec [OF v(2,3)] by (simp add: FormatResult_def)
  then have "length (dec (length ?t)) \<le> 2" by (intro length_dec) auto
  moreover have "length (takeWhile (\<lambda>c. c \<noteq> CHR 0x00) ?t) \<le> 23"
    using n length_takeWhile_le le_trans by blast
  ultimately have "length (response_text 200 ?t) < 4096" by (simp add: response_text_def status_line_def del: dec.simps)
  then show ?thesis by (simp add: v(1) send_buffer_def)
qed

lemma args_size: "call_ok (m, a, b) \<Longrightarrow> length (json_args a b) < 2 ^ 31"
  using length_int_dec [of a] length_int_dec [of b] by (auto simp: json_args_def)

lemma request_answered:
  assumes "call_ok (m, a, b)" and "h_buf c = call_text port (m, a, b) @ rest"
  shows "ProcessOneRequest c = Inr (True, c\<lparr>h_buf := rest, h_out := h_out c @ [call_answer (m, a, b)]\<rparr>)"
proof -
  let ?j = "json_args a b"
  let ?h = "request_head port m (length ?j)"
  have known: "known m" using assms(1) by simp
  then have k: "plain m" by (rule known_plain)
  have buf: "h_buf c = ?h @ crlf @ crlf @ ?j @ rest" "h_buf c = ?h @ crlf @ (crlf @ ?j @ rest)"
    by (simp_all add: assms(2) Build_head)
  have len: "ParseContentLength (h_buf c) = Inr (int (length ?j))"
    unfolding buf(2) using content_length [OF k args_size [OF assms(1)]] .
  have find: "find_sub (crlf @ crlf) (h_buf c) = Some (length ?h)"
    unfolding buf(1) by (rule find_blank_line [OF k])
  have req: "take (length ?h + 4 + length ?j) (h_buf c) = ?h @ crlf @ (crlf @ ?j)"
    "drop (length ?h + 4 + length ?j) (h_buf c) = rest"
  proof -
    have "h_buf c = (?h @ crlf @ (crlf @ ?j)) @ rest" by (simp add: buf(1))
    moreover have "length ?h + 4 + length ?j = length (?h @ crlf @ (crlf @ ?j))" by simp
    ultimately show "take (length ?h + 4 + length ?j) (h_buf c) = ?h @ crlf @ (crlf @ ?j)"
      "drop (length ?h + 4 + length ?j) (h_buf c) = rest" by (metis append_eq_conv_conj)+
  qed
  have m: "method_of_path (ParsePath (?h @ crlf @ (crlf @ ?j))) = m" by (rule request_path [OF k])
  have bdy: "take (length ?j) (drop (length ?h + 4) (?h @ crlf @ (crlf @ ?j))) = ?j" by simp
  have args: "ExtractInt ?j ''a'' = Inr (Some a)" "ExtractInt ?j ''b'' = Inr (Some b)"
    using assms(1) extract_args by simp_all
  obtain v where v: "http_method m a b = Some v" using http_method_bounds [OF known] by blast
  have n: "\<not> length (h_buf c) < length ?h + 4 + length ?j" by (simp add: buf(1))
  show ?thesis
    using answer_fits [OF known, of a b]
    by (simp only: ProcessOneRequest_def find len req m bdy args v n Let_def option.case sum.case
        prod.case nat_int if_False of_nat_0_le_iff [THEN leD] SendResponse_def option.sel)
      simp
qed

lemma plain_request_waits:
  assumes k: "plain m" and size: "length (json_args a b) < 2 ^ 31"
    and "strict_prefix (h_buf c) (call_text port (m, a, b))"
  shows "ProcessOneRequest c = Inr (False, c)"
proof -
  let ?j = "json_args a b"
  let ?h = "request_head port m (length ?j)"
  have form: "call_text port (m, a, b) = ?h @ crlf @ crlf @ ?j" by (simp add: Build_head)
  have p: "prefix (h_buf c) (call_text port (m, a, b))" using assms(3) by (simp add: strict_prefix_def)
  have find: "find_sub (crlf @ crlf) (h_buf c) =
      (if length ?h + 4 \<le> length (h_buf c) then Some (length ?h) else None)"
    using find_sub_prefix [OF find_blank_line [OF k] p [unfolded form]] by simp
  show ?thesis
  proof (cases "length ?h + 4 \<le> length (h_buf c)")
    case True
    obtain z where z: "call_text port (m, a, b) = h_buf c @ z" using p by (rule prefixE)
    have "h_buf c = take (length (h_buf c)) (?h @ crlf @ crlf @ ?j)" using z form by (metis append_eq_conv_conj)
    then obtain y where "h_buf c = ?h @ crlf @ y" using True by (simp add: take_Cons' split: if_splits)
    then have len: "ParseContentLength (h_buf c) = Inr (int (length ?j))"
      using content_length [OF k size] by simp
    have "length (h_buf c) < length (call_text port (m, a, b))"
      using assms(3) by (rule prefix_length_less)
    then have "length (h_buf c) < length ?h + 4 + length ?j" by (simp add: form del: call_text.simps)
    with True show ?thesis
      unfolding ProcessOneRequest_def find by (simp add: len Let_def)
  next
    case False
    then show ?thesis unfolding ProcessOneRequest_def find by simp
  qed
qed

lemma request_waits:
  "call_ok (m, a, b) \<Longrightarrow> strict_prefix (h_buf c) (call_text port (m, a, b)) \<Longrightarrow> ProcessOneRequest c = Inr (False, c)"
  by (rule plain_request_waits [OF known_plain args_size [of m]]) simp_all

text \<open>
  A text that begins a concatenation consists of some of its parts and a proper beginning of the next.
\<close>

lemma prefix_concat:
  assumes "prefix p (concat xs)"
  shows "\<exists>k q. k \<le> length xs \<and> p = concat (take k xs) @ q \<and>
    (if k < length xs then strict_prefix q (xs ! k) else q = [])"
  using assms
proof (induction xs arbitrary: p)
  case Nil
  then show ?case by simp
next
  case (Cons x xs)
  show ?case
  proof (cases "prefix x p")
    case True
    then obtain r where r: "p = x @ r" by (rule prefixE)
    with Cons obtain k q where k: "k \<le> length xs" "r = concat (take k xs) @ q"
      "if k < length xs then strict_prefix q (xs ! k) else q = []" by force
    then show ?thesis by (intro exI [of _ "Suc k"] exI [of _ q]) (auto simp: r)
  next
    case False
    then have "prefix p x" using Cons.prems by (auto simp: prefix_append)
    with False show ?thesis by (intro exI [of _ 0] exI [of _ p]) (auto simp: strict_prefix_def)
  qed
qed

lemma call_text_nonempty [simp]: "call_text port c \<noteq> []" "[] \<noteq> call_text port c"
  by (cases c; simp add: Build_head request_head_def)+

definition call_texts :: "nat \<Rightarrow> http_call list \<Rightarrow> string" where
  "call_texts port cs = concat (map (call_text port) cs)"

definition partial_call :: "nat \<Rightarrow> http_call list \<Rightarrow> string \<Rightarrow> bool" where
  "partial_call port cs s \<longleftrightarrow> s = [] \<or> (\<exists>c \<in> set cs. strict_prefix s (call_text port c))"

lemma empty_waits: "h_buf c = [] \<Longrightarrow> ProcessOneRequest c = Inr (False, c)"
  by (simp add: ProcessOneRequest_def)

lemma process_calls:
  assumes "\<forall>c \<in> set cs. call_ok c" and "\<forall>c \<in> set ds. call_ok c" and "partial_call port ds s"
    and "h_buf c = call_texts port cs @ s"
  shows "process_requests c = Inr (c\<lparr>h_buf := s, h_out := h_out c @ map call_answer cs\<rparr>)"
  using assms(1,4)
proof (induction cs arbitrary: c)
  case Nil
  then have "ProcessOneRequest c = Inr (False, c)"
    using assms(2,3) request_waits empty_waits by (auto simp: call_texts_def partial_call_def)
  then show ?case using Nil by (simp add: process_requests.simps [of c] call_texts_def)
next
  case (Cons x cs)
  obtain m a b where x: "x = (m, a, b)" by (cases x)
  let ?c = "c\<lparr>h_buf := call_texts port cs @ s, h_out := h_out c @ [call_answer x]\<rparr>"
  have "ProcessOneRequest c = Inr (True, ?c)"
    using Cons.prems request_answered [of m a b c port "call_texts port cs @ s"]
    by (simp add: x call_texts_def)
  moreover have "process_requests ?c = Inr (?c\<lparr>h_buf := s, h_out := h_out ?c @ map call_answer cs\<rparr>)"
    using Cons by (intro Cons.IH) simp_all
  ultimately show ?case by (simp add: process_requests.simps [of c])
qed

lemma http_recv_pass: "read_pass rs \<Longrightarrow> http_recv rs c = (True, c\<lparr>h_buf := h_buf c @ string_of_bytes (received rs)\<rparr>)"
  by (induction rs arbitrary: c rule: read_pass.induct) (simp_all add: string_of_bytes_def)

text \<open>What has been received is some requests, answered, and the beginning of another one.\<close>

definition http_inv :: "nat \<Rightarrow> http_call list \<Rightarrow> string \<Rightarrow> http_conn \<Rightarrow> bool" where
  "http_inv port cs p c \<longleftrightarrow> (\<exists>k s. k \<le> length cs \<and> p = call_texts port (take k cs) @ s \<and>
     (if k < length cs then strict_prefix s (call_text port (cs ! k)) else s = []) \<and>
     h_buf c = s \<and> h_out c = map call_answer (take k cs))"

lemma call_texts_append: "call_texts port (cs @ ds) = call_texts port cs @ call_texts port ds"
  by (simp add: call_texts_def)

lemma call_texts_split: "k \<le> k' \<Longrightarrow> call_texts port (take k' cs) = call_texts port (take k cs) @ call_texts port (drop k (take k' cs))"
  by (metis append_take_drop_id call_texts_append min.absorb1 take_take)

lemma http_more:
  assumes ok: "\<forall>c \<in> set cs. call_ok c" and inv: "http_inv port cs p c" and more: "prefix (p @ d) (call_texts port cs)"
  shows "\<exists>c'. process_requests (c\<lparr>h_buf := h_buf c @ d\<rparr>) = Inr c' \<and> http_inv port cs (p @ d) c' \<and> h_fd c' = h_fd c"
proof -
  obtain k s where k: "k \<le> length cs" "p = call_texts port (take k cs) @ s" "h_buf c = s" "h_out c = map call_answer (take k cs)"
    using inv by (auto simp: http_inv_def)
  obtain k' s' where k': "k' \<le> length cs" "p @ d = call_texts port (take k' cs) @ s'"
    "if k' < length cs then strict_prefix s' (call_text port (cs ! k')) else s' = []"
  proof -
    obtain j r where "j \<le> length (map (call_text port) cs)" "p @ d = concat (take j (map (call_text port) cs)) @ r"
      "if j < length (map (call_text port) cs) then strict_prefix r (map (call_text port) cs ! j) else r = []"
      using prefix_concat [OF more [unfolded call_texts_def]] by blast
    then show ?thesis by (intro that [of j r]) (auto simp: call_texts_def take_map split: if_splits)
  qed
  have le: "k \<le> k'"
  proof (rule ccontr)
    assume "\<not> k \<le> k'"
    then have lt: "k' < k" "k' < length cs" using k(1) by simp_all
    then have "drop k' (take k cs) = cs ! k' # drop (Suc k') (take k cs)"
      by (simp add: Cons_nth_drop_Suc [symmetric])
    then have "s' = call_text port (cs ! k') @ call_texts port (drop (Suc k') (take k cs)) @ s @ d"
      using k(2) k'(2) call_texts_split [of k' k port cs] lt(1) by (simp add: call_texts_def)
    then have "length (call_text port (cs ! k')) \<le> length s'" by simp
    moreover have "length s' < length (call_text port (cs ! k'))"
      using k'(3) lt(2) by (simp add: prefix_length_less)
    ultimately show False by simp
  qed
  have "s @ d = call_texts port (drop k (take k' cs)) @ s'"
    using k(2) k'(2) call_texts_split [OF le, of port cs] by simp
  moreover have "\<forall>c \<in> set (drop k (take k' cs)). call_ok c" using ok by (auto dest: in_set_dropD in_set_takeD)
  moreover have "partial_call port cs s'"
    using k'(1,3) nth_mem [of k' cs] by (auto simp: partial_call_def split: if_splits)
  ultimately have "process_requests (c\<lparr>h_buf := h_buf c @ d\<rparr>) =
      Inr (c\<lparr>h_buf := s', h_out := h_out c @ map call_answer (drop k (take k' cs))\<rparr>)"
    using process_calls [of "drop k (take k' cs)" cs port s' "c\<lparr>h_buf := h_buf c @ d\<rparr>"] ok k(3) by simp
  moreover have "map call_answer (take k cs) @ map call_answer (drop k (take k' cs)) = map call_answer (take k' cs)"
    by (metis append_take_drop_id le map_append min.absorb1 take_take)
  then have "http_inv port cs (p @ d) (c\<lparr>h_buf := s', h_out := h_out c @ map call_answer (drop k (take k' cs))\<rparr>)"
    unfolding http_inv_def using k' by (intro exI [of _ k'] exI [of _ s']) (simp add: k(4))
  ultimately show ?thesis
    by (intro exI [of _ "c\<lparr>h_buf := s', h_out := h_out c @ map call_answer (drop k (take k' cs))\<rparr>"]) simp
qed

text \<open>Successive reads; an escaped exception ends the server.\<close>

fun http_reads :: "recv_result list list \<Rightarrow> http_conn \<Rightarrow> stoi_error + http_conn" where
  "http_reads [] c = Inr c"
| "http_reads (rs # rss) c = (case HttpOnRead rs c of Inl e \<Rightarrow> Inl e | Inr c' \<Rightarrow> http_reads rss c')"

lemma string_of_bytes_append: "string_of_bytes (x @ y) = string_of_bytes x @ string_of_bytes y"
  by (simp add: string_of_bytes_def)

lemma http_reads_inv:
  assumes "\<forall>c \<in> set cs. call_ok c" and "\<forall>rs \<in> set rss. read_pass rs" and "http_inv port cs p c"
    and "prefix (p @ string_of_bytes (concat (map received rss))) (call_texts port cs)"
  shows "\<exists>c'. http_reads rss c = Inr c' \<and> http_inv port cs (p @ string_of_bytes (concat (map received rss))) c' \<and> h_fd c' = h_fd c"
  using assms(2-4)
proof (induction rss arbitrary: c p)
  case Nil
  then show ?case by (auto simp: string_of_bytes_def)
next
  case (Cons rs rss)
  let ?d = "string_of_bytes (received rs)" and ?e = "string_of_bytes (concat (map received rss))"
  have e: "string_of_bytes (concat (map received (rs # rss))) = ?d @ ?e" by (simp add: string_of_bytes_def)
  have "prefix (p @ ?d) (call_texts port cs)" using Cons.prems(3) unfolding e by (metis append.assoc append_prefixD)
  from http_more [OF assms(1) Cons.prems(2) this] obtain c1 where c1:
    "process_requests (c\<lparr>h_buf := h_buf c @ ?d\<rparr>) = Inr c1" "http_inv port cs (p @ ?d) c1" "h_fd c1 = h_fd c" by blast
  have "prefix ((p @ ?d) @ ?e) (call_texts port cs)" using Cons.prems(3) unfolding e by simp
  from Cons.IH [OF _ c1(2) this] Cons.prems(1) c1 show ?case
    by (simp add: HttpOnRead_def http_recv_pass string_of_bytes_append)
qed

subsection \<open>Properties\<close>

text \<open>
  C11. The requests of the benchmark client, sent one after the other and cut into pieces anywhere, are
  all answered, in order, with the sum or the difference of their arguments; the connection stays open
  and nothing is left in the buffer. No number a client writes makes the server throw.
\<close>

theorem http_requests_answered:
  assumes "\<forall>(m, a, b) \<in> set cs. (m = ''Add'' \<or> m = ''Sub'') \<and> a \<in> {- (2 ^ 31)..<2 ^ 31} \<and> b \<in> {- (2 ^ 31)..<2 ^ 31}"
    and "\<forall>rs \<in> set rss. read_pass rs"
    and "string_of_bytes (concat (map received rss)) = concat (map (\<lambda>(m, a, b). BuildHttpRequest port m (json_args a b)) cs)"
  shows "http_reads rss (new_http_conn n) = Inr \<lparr>h_fd = n, h_buf = [],
    h_out = map (\<lambda>(m, a, b). HttpResponse (response_text 200 (FormatResult (the (http_method m a b))))) cs\<rparr>"
proof -
  have ok: "\<forall>c \<in> set cs. call_ok c" using assms(1) by fastforce
  have t: "call_text port = (\<lambda>(m, a, b). BuildHttpRequest port m (json_args a b))"
    "call_answer = (\<lambda>(m, a, b). HttpResponse (response_text 200 (FormatResult (the (http_method m a b)))))"
    by (auto simp: fun_eq_iff)
  have all: "string_of_bytes (concat (map received rss)) = call_texts port cs"
    using assms(3) by (simp add: call_texts_def t)
  have "http_inv port cs [] (new_http_conn n)"
    by (auto simp: http_inv_def new_http_conn_def call_texts_def strict_prefix_def intro!: exI [of _ 0])
  from http_reads_inv [OF ok assms(2) this] all obtain c where c: "http_reads rss (new_http_conn n) = Inr c"
    "http_inv port cs (call_texts port cs) c" "h_fd c = n" by (auto simp: new_http_conn_def)
  then obtain k s where k: "k \<le> length cs" "call_texts port cs = call_texts port (take k cs) @ s"
    "if k < length cs then strict_prefix s (call_text port (cs ! k)) else s = []" "h_buf c = s" "h_out c = map call_answer (take k cs)"
    by (auto simp: http_inv_def)
  have "k = length cs"
  proof (rule ccontr)
    assume "k \<noteq> length cs"
    then have lt: "k < length cs" using k(1) by simp
    then have "s = call_text port (cs ! k) @ call_texts port (drop (Suc k) cs)"
      using k(2) call_texts_split [of k "length cs" port cs]
      by (simp add: call_texts_def Cons_nth_drop_Suc [symmetric])
    then have "length (call_text port (cs ! k)) \<le> length s" by simp
    with k(3) lt show False using prefix_length_less by fastforce
  qed
  with k c show ?thesis by (cases c) (simp add: t)
qed

theorem http_requests_answered_witness:
  "let bs = bytes_of_string (BuildHttpRequest 8080 ''Add'' (json_args 2 3) @ BuildHttpRequest 8080 ''Sub'' (json_args 2 3))
   in http_reads [[RecvData (take 90 bs), RecvAgain], [RecvData (drop 90 bs), RecvAgain]] (new_http_conn 4) =
     Inr \<lparr>h_fd = 4, h_buf = [],
       h_out = [HttpResponse (response_text 200 (FormatResult 5)), HttpResponse (response_text 200 (FormatResult (- 1)))]\<rparr>"
proof -
  define bs where "bs = bytes_of_string (BuildHttpRequest 8080 ''Add'' (json_args 2 3) @ BuildHttpRequest 8080 ''Sub'' (json_args 2 3))"
  let ?rss = "[[RecvData (take 90 bs), RecvAgain], [RecvData (drop 90 bs), RecvAgain]]"
  have "concat (map received ?rss) = bs" by simp
  then have "string_of_bytes (concat (map received ?rss)) =
      BuildHttpRequest 8080 ''Add'' (json_args 2 3) @ BuildHttpRequest 8080 ''Sub'' (json_args 2 3)"
    by (simp only: bs_def string_of_bytes_of_string)
  then have "http_reads ?rss (new_http_conn 4) = Inr \<lparr>h_fd = 4, h_buf = [], h_out =
      map (\<lambda>(m, a, b). HttpResponse (response_text 200 (FormatResult (the (http_method m a b))))) [(''Add'', 2, 3), (''Sub'', 2, 3)]\<rparr>"
    by (intro http_requests_answered [of _ _ 8080]) simp_all
  then show ?thesis unfolding Let_def bs_def [symmetric] by (simp add: http_method_def)
qed

subsection \<open>Requests that are not answered\<close>

lemma unknown_http_method:
  assumes "plain m" and "http_method m a b = None" and "- (2 ^ 31) \<le> a" "a < 2 ^ 31" "- (2 ^ 31) \<le> b" "b < 2 ^ 31"
    and "h_buf c = BuildHttpRequest port m (json_args a b)"
  shows "ProcessOneRequest c = Inr (False, HttpOnClose (SendHttpError 404 (''Unknown method: '' @ m) (c\<lparr>h_buf := []\<rparr>)))"
proof -
  let ?j = "json_args a b"
  let ?h = "request_head port m (length ?j)"
  have buf: "h_buf c = ?h @ crlf @ (crlf @ ?j)" by (simp add: assms(7) Build_head)
  have "length ?j < 2 ^ 31" using args_size [of "''Add''" a b] assms(3-6) by simp
  then have len: "ParseContentLength (h_buf c) = Inr (int (length ?j))"
    unfolding buf by (rule content_length [OF assms(1)])
  have find: "find_sub (crlf @ crlf) (h_buf c) = Some (length ?h)"
    using find_blank_line [OF assms(1)] by (simp add: buf)
  have n: "length (h_buf c) = length ?h + 4 + length ?j" by (simp add: buf)
  have bdy: "take (length ?j) (drop (length ?h + 4) (h_buf c)) = ?j" by (simp add: buf)
  have m: "method_of_path (ParsePath (h_buf c)) = m" unfolding buf by (rule request_path [OF assms(1)])
  show ?thesis
    unfolding ProcessOneRequest_def find
    by (simp add: len Let_def n [symmetric] bdy m extract_args [OF assms(3-6)] assms(2))
qed

text \<open>
  A request the server ends the connection on: nothing happens until it is complete, then it is
  processed once, and what the socket reports later changes nothing.
\<close>

lemma http_reads_one_request:
  assumes k: "plain m" and size: "length (json_args a b) < 2 ^ 31"
    and final: "\<And>c. h_buf c = call_text port (m, a, b) \<Longrightarrow> ProcessOneRequest c = Inr (False, f c)"
      "\<And>c. h_buf (f c) = []"
  shows "\<forall>rs \<in> set rss. read_pass rs \<Longrightarrow> strict_prefix (h_buf c) (call_text port (m, a, b)) \<Longrightarrow>
    h_buf c @ string_of_bytes (concat (map received rss)) = call_text port (m, a, b) \<Longrightarrow>
    http_reads rss c = Inr (f (c\<lparr>h_buf := call_text port (m, a, b)\<rparr>))"
proof (induction rss arbitrary: c)
  case Nil
  then show ?case by (simp add: string_of_bytes_def)
next
  case (Cons rs rss)
  let ?t = "call_text port (m, a, b)" and ?d = "string_of_bytes (received rs)" and ?e = "string_of_bytes (concat (map received rss))"
  let ?c = "c\<lparr>h_buf := h_buf c @ ?d\<rparr>"
  have t: "(h_buf c @ ?d) @ ?e = ?t" using Cons.prems(3) by (simp add: string_of_bytes_def)
  have read: "HttpOnRead rs c = process_requests ?c"
    using Cons.prems(1) by (simp add: HttpOnRead_def http_recv_pass)
  have idle: "http_reads rss x = Inr x" if "h_buf x = []" "\<forall>rs \<in> set rss. received rs = []" "\<forall>rs \<in> set rss. read_pass rs" for x rss
    using that
  proof (induction rss)
    case (Cons rs rss)
    have "process_requests x = Inr x" using Cons.prems(1) by (simp add: process_requests.simps [of x] empty_waits)
    moreover have "x = x\<lparr>h_buf := []\<rparr>" using Cons.prems(1) by (cases x) simp
    ultimately have "process_requests (x\<lparr>h_buf := []\<rparr>) = Inr x" by argo
    then show ?case using Cons by (simp add: HttpOnRead_def http_recv_pass string_of_bytes_def)
  qed simp
  show ?case
  proof (cases "h_buf c @ ?d = ?t")
    case True
    then have "?e = []" using t by simp
    then have "\<forall>rs \<in> set rss. received rs = []" by (simp add: string_of_bytes_def)
    moreover have "process_requests ?c = Inr (f ?c)"
    proof -
      have "ProcessOneRequest ?c = Inr (False, f ?c)" using True by (intro final(1)) simp
      then show ?thesis by (subst process_requests.simps) simp
    qed
    ultimately show ?thesis using idle [of "f ?c" rss] final(2) Cons.prems(1) True by (simp add: read)
  next
    case False
    moreover have "prefix (h_buf c @ ?d) ?t" using t by (metis prefixI)
    ultimately have p: "strict_prefix (h_buf ?c) ?t" by (simp add: strict_prefix_def)
    then have "process_requests ?c = Inr ?c"
      using plain_request_waits [OF k size, of ?c port] by (simp add: process_requests.simps [of ?c])
    then show ?thesis using Cons.IH [OF _ p] Cons.prems(1) t by (simp add: read)
  qed
qed

text \<open>
  C12. A request for an unknown method whose name is longer than the response buffer, however it is cut
  into pieces, makes the server send what lies behind the buffer on its stack: \<open>snprintf\<close> returns the
  length the text would have had, and that many bytes are sent.
\<close>

theorem long_method_name_leaks_stack:
  assumes "set m \<inter> {CHR 0x0D, CHR ''C'', CHR '' '', CHR ''/'', CHR 0x00} = {}" and "4096 \<le> length m"
    and "a \<in> {- (2 ^ 31)..<2 ^ 31}" and "b \<in> {- (2 ^ 31)..<2 ^ 31}"
    and "\<forall>rs \<in> set rss. read_pass rs"
    and "string_of_bytes (concat (map received rss)) = BuildHttpRequest port m (json_args a b)"
  shows "\<exists>s k. http_reads rss (new_http_conn n) = Inr \<lparr>h_fd = - 1, h_buf = [], h_out = [Overrun s k]\<rparr> \<and>
    length s = 4096 \<and> length m < k + 4096"
proof -
  let ?t = "response_text 404 (FormatError (''Unknown method: '' @ m))"
  let ?f = "\<lambda>c. HttpOnClose (SendHttpError 404 (''Unknown method: '' @ m) (c\<lparr>h_buf := []\<rparr>))"
  have "takeWhile (\<lambda>c. c \<noteq> CHR 0x00) (FormatError (''Unknown method: '' @ m)) = FormatError (''Unknown method: '' @ m)"
    using assms(1) by (auto simp: takeWhile_eq_all_conv FormatError_def)
  then have len: "length m + 20 \<le> length ?t" by (simp add: response_text_def FormatError_def)
  have m: "m \<noteq> ''Add''" "m \<noteq> ''Sub''" using assms(2) by auto
  have p: "plain m" "http_method m a b = None" using assms(1) m by (simp_all add: plain_def http_method_def)
  have "length (json_args a b) < 2 ^ 31" using args_size [of "''Add''" a b] assms(3,4) by simp
  moreover have "ProcessOneRequest c = Inr (False, ?f c)" if "h_buf c = call_text port (m, a, b)" for c
    using that assms(3,4) by (intro unknown_http_method [OF p]) simp_all
  ultimately have "http_reads rss (new_http_conn n) = Inr (?f (new_http_conn n\<lparr>h_buf := call_text port (m, a, b)\<rparr>))"
    using assms(5,6) by (intro http_reads_one_request [OF p(1)]) (simp_all add: SendHttpError_def new_http_conn_def strict_prefix_def Build_head)
  then have "http_reads rss (new_http_conn n) = Inr \<lparr>h_fd = - 1, h_buf = [], h_out = [send_buffer ?t]\<rparr>"
    by (simp add: new_http_conn_def HttpOnClose_def SendHttpError_def SendResponse_def)
  then show ?thesis using len assms(2) by (simp add: send_buffer_def)
qed

theorem long_method_name_leaks_stack_witness:
  "let bs = bytes_of_string (BuildHttpRequest 8080 (replicate 5000 CHR ''x'') (json_args 1 2))
   in \<exists>s k. http_reads [[RecvData (take 4096 bs), RecvAgain], [RecvData (drop 4096 bs), RecvAgain]] (new_http_conn 4) =
     Inr \<lparr>h_fd = - 1, h_buf = [], h_out = [Overrun s k]\<rparr> \<and> 900 < k"
proof -
  let ?q = "BuildHttpRequest 8080 (replicate 5000 CHR ''x'') (json_args 1 2)"
  define bs where "bs = bytes_of_string ?q"
  have l: "length (replicate 5000 CHR ''x'') = 5000" by (rule length_replicate)
  have s: "set (replicate 5000 CHR ''x'') \<inter> {CHR 0x0D, CHR ''C'', CHR '' '', CHR ''/'', CHR 0x00} = {}"
    using set_replicate_conv_if [of 5000 "CHR ''x''"] by simp
  let ?rss = "[[RecvData (take 4096 bs), RecvAgain], [RecvData (drop 4096 bs), RecvAgain]]"
  have "concat (map received ?rss) = bs" by simp
  then have "string_of_bytes (concat (map received ?rss)) = ?q" by (simp only: bs_def string_of_bytes_of_string)
  from long_method_name_leaks_stack [OF s _ _ _ _ this, of 4] show ?thesis
    unfolding Let_def bs_def [symmetric] l by fastforce
qed

text \<open>A content length \<open>int\<close> cannot hold ends the server, as \<open>std::stoi\<close> throws.\<close>

lemma huge_content_length_ends_server:
  assumes "plain m" and "2 ^ 31 \<le> n" and "h_buf c = request_head port m n @ crlf @ crlf @ y"
  shows "process_requests c = Inl OutOfRange"
proof -
  have "stoi (dec n) = Inl OutOfRange" using assms(2) by (rule stoi_too_large)
  then have "ParseContentLength (h_buf c) = Inl OutOfRange"
    using after_content_length [OF assms(1), of port n "crlf @ y"] skip_spaces_dec [of n "crlf @ ''Connection: keep-alive'' @ crlf @ crlf @ y"]
    by (auto simp: assms(3) ParseContentLength_def skip_spaces_def takeWhile_dec is_digit_def hd_dec(2) simp del: dec.simps)
  moreover have "find_sub (crlf @ crlf) (h_buf c) = Some (length (request_head port m n))"
    unfolding assms(3) by (rule find_blank_line [OF assms(1)])
  ultimately have "ProcessOneRequest c = Inl OutOfRange" unfolding ProcessOneRequest_def by (simp only: option.case sum.case)
  then show ?thesis by (simp add: process_requests.simps [of c])
qed

text \<open>
  The length is looked up behind the header too: a request without one is refused when it arrives alone,
  and takes the length of the request behind it when both are in the buffer.
\<close>

lemma content_length_of_next_request:
  assumes "plain m" and "n < 2 ^ 31" and "h = ''POST /Add HTTP/1.1'' @ crlf @ crlf @ ''{}''"
  shows "ParseContentLength h = Inr (- 1)"
    and "ParseContentLength (h @ request_head port m n @ crlf @ y) = Inr (int n)"
proof -
  have hd1: "CHR ''C'' \<notin> set h" and hd2: "CHR ''c'' \<notin> set h" by (simp_all add: assms(3))
  have none: "after pat h = None" if "pat \<noteq> []" "hd pat \<notin> set h" for pat
    using that after_skip [of pat h "[]"] by (simp add: after_def)
  show "ParseContentLength h = Inr (- 1)"
    using none [of "''Content-Length:''"] none [of "''content-length:''"] hd1 hd2 by (simp add: ParseContentLength_def)
  have "after ''Content-Length:'' (h @ request_head port m n @ crlf @ y) = after ''Content-Length:'' (request_head port m n @ crlf @ y)"
    by (rule after_skip) (use hd1 in simp_all)
  then show "ParseContentLength (h @ request_head port m n @ crlf @ y) = Inr (int n)"
    using content_length [OF assms(1,2), of port y] after_content_length [OF assms(1), of port n y]
    unfolding ParseContentLength_def by simp
qed

end
