(* ===== verification/Floating_Point.thy ===== *)
theory Floating_Point
  imports Complex_Main Rpc_Prelude
begin

text \<open>
  The \<open>float\<close> and \<open>double\<close> of the C++ code as IEEE binary32 and binary64 under the default
  rounding mode: an operation rounds its exact real result to the nearest representable number,
  ties to even, overflows to an infinity, and comparisons with NaN are false. The sign of zero is
  left out: no operation of the program depends on it.
\<close>

subsection \<open>Rounding\<close>

datatype fp_format = Single | Double

fun precision :: "fp_format \<Rightarrow> nat" where
  "precision Single = 24"
| "precision Double = 53"

fun least_exponent :: "fp_format \<Rightarrow> int" where
  "least_exponent Single = -149"
| "least_exponent Double = -1074"

fun overflow_limit :: "fp_format \<Rightarrow> real" where
  "overflow_limit Single = 2 ^ 128"
| "overflow_limit Double = 2 ^ 1024"

definition round_even :: "real \<Rightarrow> int" where
  "round_even x =
     (let n = \<lfloor>x\<rfloor>; d = x - of_int n
      in if d < 1 / 2 then n else if 1 / 2 < d then n + 1 else if even n then n else n + 1)"

text \<open>The exponent of the last place of a number of magnitude \<open>x\<close>.\<close>

definition last_place :: "fp_format \<Rightarrow> real \<Rightarrow> int" where
  "last_place f x = max (\<lfloor>log 2 \<bar>x\<bar>\<rfloor> - (int (precision f) - 1)) (least_exponent f)"

definition round_to :: "fp_format \<Rightarrow> real \<Rightarrow> real" where
  "round_to f x =
     (if x = 0 then 0
      else of_int (round_even (x / 2 powr of_int (last_place f x))) * 2 powr of_int (last_place f x))"

lemma round_even_bounds: "of_int (round_even x) \<le> x + 1 / 2" "x - 1 / 2 \<le> of_int (round_even x)"
  unfolding round_even_def Let_def by (auto; linarith)+

lemma round_even_int [simp]: "round_even (of_int n) = n"
  by (simp add: round_even_def)

lemma round_even_mono: "x \<le> y \<Longrightarrow> round_even x \<le> round_even y"
proof -
  assume xy: "x \<le> y"
  have fl: "\<lfloor>x\<rfloor> \<le> \<lfloor>y\<rfloor>" using xy by (rule floor_mono)
  have up: "round_even x \<le> \<lfloor>x\<rfloor> + 1" and lo: "\<lfloor>y\<rfloor> \<le> round_even y"
    by (auto simp: round_even_def Let_def)
  show ?thesis
  proof (cases "\<lfloor>x\<rfloor> = \<lfloor>y\<rfloor>")
    case True
    then show ?thesis using xy by (auto simp: round_even_def Let_def)
  next
    case False
    with fl up lo show ?thesis by linarith
  qed
qed

lemma round_even_minus: "round_even (- x) = - round_even x"
proof (cases "x \<in> \<int>")
  case True
  then obtain n where "x = of_int n" by (rule Ints_cases)
  then have "- x = of_int (- n)" by simp
  with \<open>x = of_int n\<close> show ?thesis by (metis round_even_int)
next
  case False
  then have "x \<noteq> of_int \<lfloor>x\<rfloor>" by (metis Ints_of_int)
  then have "\<lceil>x\<rceil> = \<lfloor>x\<rfloor> + 1" by (simp add: ceiling_altdef)
  then have "\<lfloor>- x\<rfloor> = - \<lfloor>x\<rfloor> - 1" by (simp add: ceiling_def)
  then show ?thesis by (auto simp: round_even_def Let_def)
qed

lemma last_place_minus [simp]: "last_place f (- x) = last_place f x"
  by (simp add: last_place_def)

lemma round_to_minus: "round_to f (- x) = - round_to f x"
  by (simp add: round_to_def round_even_minus)

lemma round_to_0 [simp]: "round_to f 0 = 0"
  by (simp add: round_to_def)

lemma round_to_nonneg: "0 \<le> x \<Longrightarrow> 0 \<le> round_to f x"
proof -
  assume "0 \<le> x"
  then have "0 \<le> round_even (x / 2 powr of_int (last_place f x))"
    using round_even_mono [of 0] round_even_int [of 0] by simp
  then show ?thesis by (simp add: round_to_def)
qed

lemma powr_int_add: "(2::real) powr of_int (k + l) = 2 powr of_int k * 2 powr of_int l"
  by (simp add: powr_add)

lemma log_floor_bounds:
  assumes "0 < x"
  shows "2 powr of_int \<lfloor>log 2 x\<rfloor> \<le> x" "x < 2 powr of_int (\<lfloor>log 2 x\<rfloor> + 1)"
proof -
  have "2 powr of_int \<lfloor>log 2 x\<rfloor> \<le> 2 powr (log 2 x)" by simp
  then show "2 powr of_int \<lfloor>log 2 x\<rfloor> \<le> x" using assms by simp
  have "log 2 x < of_int (\<lfloor>log 2 x\<rfloor> + 1)" by linarith
  then have "2 powr (log 2 x) < 2 powr of_int (\<lfloor>log 2 x\<rfloor> + 1)" by (intro powr_less_mono) auto
  then show "x < 2 powr of_int (\<lfloor>log 2 x\<rfloor> + 1)" using assms by simp
qed

text \<open>A multiple of a power of two that is at least the last place is exact.\<close>

lemma round_to_exact:
  assumes "x = of_int m * 2 powr of_int k" and "last_place f x \<le> k"
  shows "round_to f x = x"
proof (cases "x = 0")
  case False
  define u where "u = last_place f x"
  define n :: int where "n = m * 2 ^ nat (k - u)"
  have "2 powr of_int (k - u) = (2::real) ^ nat (k - u)"
    using assms(2) by (simp add: powr_realpow [symmetric] u_def)
  then have x: "x = of_int n * 2 powr of_int u"
    using assms(1) powr_int_add [of "k - u" u] by (simp add: n_def)
  have "of_int n * 2 powr of_int u / 2 powr of_int u = (of_int n :: real)" by simp
  then have q: "x / 2 powr of_int u = of_int n" unfolding x [symmetric] .
  have "round_to f x = of_int (round_even (x / 2 powr of_int u)) * 2 powr of_int u"
    using False by (simp add: round_to_def u_def)
  also have "\<dots> = x" unfolding q round_even_int by (rule x [symmetric])
  finally show ?thesis .
qed simp


lemma last_place_bound:
  assumes "\<bar>x\<bar> < 2 powr of_int (k + int (precision f))" and "least_exponent f \<le> k" and "x \<noteq> 0"
  shows "last_place f x \<le> k"
proof -
  have "log 2 \<bar>x\<bar> < of_int (k + int (precision f))"
    using assms(1,3) by (subst log_less_iff) auto
  then have "\<lfloor>log 2 \<bar>x\<bar>\<rfloor> < k + int (precision f)" by (subst floor_less_iff) simp
  then show ?thesis using assms(2) by (simp add: last_place_def)
qed

lemma round_to_int:
  assumes "\<bar>n\<bar> \<le> 2 ^ precision f"
  shows "round_to f (of_int n) = of_int n"
proof (cases "\<bar>n\<bar> = 2 ^ precision f \<or> n = 0")
  case True
  moreover have "round_to f (2 ^ precision f) = 2 ^ precision f"
  proof (rule round_to_exact)
    show "2 ^ precision f = real_of_int 1 * 2 powr of_int (int (precision f))" by (simp add: powr_realpow)
    have "log 2 ((2::real) ^ precision f) = real (precision f)" by (simp add: log_nat_power)
    then show "last_place f (2 ^ precision f) \<le> int (precision f)"
      unfolding last_place_def by (cases f) auto
  qed
  then have "round_to f (of_int m) = of_int m" if "m = 2 ^ precision f \<or> m = - (2 ^ precision f)" for m
    using that round_to_minus [of f "2 ^ precision f"] by auto
  moreover have "n = 0 \<or> n = 2 ^ precision f \<or> n = - (2 ^ precision f)" using True by linarith
  ultimately show ?thesis by (metis of_int_0 round_to_0)
next
  case False
  then have "\<bar>n\<bar> < 2 ^ precision f" using assms by simp
  then have "\<bar>real_of_int n\<bar> < 2 ^ precision f"
    by (metis of_int_abs of_int_less_iff of_int_numeral of_int_power)
  then have "last_place f (of_int n) \<le> 0"
    using False by (intro last_place_bound) (cases f; simp add: powr_realpow)+
  then show ?thesis by (intro round_to_exact [of _ n 0]) auto
qed

lemma round_to_mono_pos:
  assumes x: "0 < x" and xy: "x \<le> y"
  shows "round_to f x \<le> round_to f y"
proof -
  let ?u = "last_place f x" and ?v = "last_place f y" and ?p = "int (precision f)"
  have y: "0 < y" using assms by simp
  have "\<lfloor>log 2 x\<rfloor> \<le> \<lfloor>log 2 y\<rfloor>" using x xy by (intro floor_mono) simp
  then have uv: "?u \<le> ?v" using x y by (simp add: last_place_def)
  show ?thesis
  proof (cases "?u = ?v")
    case True
    then have "x / 2 powr of_int ?u \<le> y / 2 powr of_int ?v" using xy by (simp add: divide_right_mono)
    then show ?thesis using True x y by (simp add: round_to_def round_even_mono)
  next
    case False
    with uv have lt: "?u + 1 \<le> ?v" by simp
    have "least_exponent f \<le> ?u" by (simp add: last_place_def)
    with lt have v: "?v = \<lfloor>log 2 y\<rfloor> - (?p - 1)" using y by (simp add: last_place_def)
    have "x < 2 powr of_int (\<lfloor>log 2 x\<rfloor> + 1)" using x by (rule log_floor_bounds)
    also have "\<dots> \<le> 2 powr of_int (?p + ?u)" using x by (simp add: last_place_def)
    finally have "x / 2 powr of_int ?u \<le> of_int (2 ^ precision f)"
      unfolding powr_int_add by (simp add: powr_realpow divide_le_eq)
    then have "round_even (x / 2 powr of_int ?u) \<le> 2 ^ precision f"
      using round_even_mono round_even_int by metis
    then have "of_int (round_even (x / 2 powr of_int ?u)) \<le> (2::real) powr of_int ?p"
      by (metis of_int_le_iff of_int_numeral of_int_of_nat_eq of_int_power powr_realpow zero_less_numeral)
    then have "round_to f x \<le> 2 powr of_int (?p + ?u)"
      using x unfolding powr_int_add by (simp add: round_to_def)
    also have "\<dots> \<le> 2 powr of_int (?p - 1 + ?v)" using lt by simp
    also have "\<dots> \<le> round_to f y"
    proof -
      have "2 powr of_int (?p - 1 + ?v) \<le> y" using log_floor_bounds(1) [OF y] v by simp
      then have "2 powr of_int (?p - 1) \<le> y / 2 powr of_int ?v"
        unfolding powr_int_add by (simp add: le_divide_eq)
      moreover have "2 powr of_int (?p - 1) = (2::real) ^ (precision f - 1)"
        by (cases f) (simp_all add: powr_realpow [symmetric])
      ultimately have "of_int (2 ^ (precision f - 1)) \<le> y / 2 powr of_int ?v" by simp
      then have "2 ^ (precision f - 1) \<le> round_even (y / 2 powr of_int ?v)"
        using round_even_mono round_even_int by metis
      then have "(2::real) ^ (precision f - 1) \<le> of_int (round_even (y / 2 powr of_int ?v))"
        by (metis of_int_le_iff of_int_numeral of_int_power)
      then show ?thesis
        using y \<open>2 powr of_int (?p - 1) = (2::real) ^ (precision f - 1)\<close> unfolding powr_int_add
        by (simp add: round_to_def)
    qed
    finally show ?thesis .
  qed
qed

lemma round_to_mono: "x \<le> y \<Longrightarrow> round_to f x \<le> round_to f y"
proof (cases "0 < x")
  case False
  assume "x \<le> y"
  show ?thesis
  proof (cases "0 \<le> y")
    case True
    have "round_to f x \<le> 0" using round_to_nonneg [of "- x" f] False by (simp add: round_to_minus)
    also have "0 \<le> round_to f y" using True by (rule round_to_nonneg)
    finally show ?thesis .
  next
    case neg: False
    with \<open>x \<le> y\<close> have "round_to f (- y) \<le> round_to f (- x)" by (intro round_to_mono_pos) auto
    then show ?thesis by (simp add: round_to_minus)
  qed
qed (rule round_to_mono_pos)


subsection \<open>Numbers and operations\<close>

text \<open>\<open>FInf True\<close> is the negative infinity.\<close>

datatype fp = FNaN | FInf bool | FNum real

definition fp_of_real :: "fp_format \<Rightarrow> real \<Rightarrow> fp" where
  "fp_of_real f x =
     (let y = round_to f x in if overflow_limit f \<le> \<bar>y\<bar> then FInf (y < 0) else FNum y)"

definition fp_of_int :: "fp_format \<Rightarrow> int \<Rightarrow> fp" where
  "fp_of_int f n = fp_of_real f (of_int n)"

fun fp_neg :: "fp \<Rightarrow> fp" where
  "fp_neg FNaN = FNaN"
| "fp_neg (FInf s) = FInf (\<not> s)"
| "fp_neg (FNum a) = FNum (- a)"

fun fp_abs :: "fp \<Rightarrow> fp" where
  "fp_abs FNaN = FNaN"
| "fp_abs (FInf _) = FInf False"
| "fp_abs (FNum a) = FNum \<bar>a\<bar>"

fun fp_add :: "fp_format \<Rightarrow> fp \<Rightarrow> fp \<Rightarrow> fp" where
  "fp_add f (FNum a) (FNum b) = fp_of_real f (a + b)"
| "fp_add f (FInf s) (FNum _) = FInf s"
| "fp_add f (FNum _) (FInf t) = FInf t"
| "fp_add f (FInf s) (FInf t) = (if s = t then FInf s else FNaN)"
| "fp_add f _ _ = FNaN"

definition fp_sub :: "fp_format \<Rightarrow> fp \<Rightarrow> fp \<Rightarrow> fp" where
  "fp_sub f a b = fp_add f a (fp_neg b)"

fun fp_mul :: "fp_format \<Rightarrow> fp \<Rightarrow> fp \<Rightarrow> fp" where
  "fp_mul f (FNum a) (FNum b) = fp_of_real f (a * b)"
| "fp_mul f (FInf s) (FNum b) = (if b = 0 then FNaN else FInf (s \<noteq> (b < 0)))"
| "fp_mul f (FNum a) (FInf t) = (if a = 0 then FNaN else FInf (t \<noteq> (a < 0)))"
| "fp_mul f (FInf s) (FInf t) = FInf (s \<noteq> t)"
| "fp_mul f _ _ = FNaN"

text \<open>Division by a nonzero finite constant, the only one the program uses.\<close>

fun fp_div :: "fp_format \<Rightarrow> fp \<Rightarrow> real \<Rightarrow> fp" where
  "fp_div f (FNum a) b = fp_of_real f (a / b)"
| "fp_div f (FInf s) b = FInf (s \<noteq> (b < 0))"
| "fp_div f FNaN b = FNaN"

fun fp_sqrt :: "fp_format \<Rightarrow> fp \<Rightarrow> fp" where
  "fp_sqrt f (FNum a) = (if a < 0 then FNaN else fp_of_real f (sqrt a))"
| "fp_sqrt f (FInf s) = (if s then FNaN else FInf False)"
| "fp_sqrt f FNaN = FNaN"

text \<open>\<open>std::round\<close>: half away from zero; the result is always representable.\<close>

fun fp_round :: "fp \<Rightarrow> fp" where
  "fp_round (FNum a) = FNum (sgn a * of_int \<lfloor>\<bar>a\<bar> + 1 / 2\<rfloor>)"
| "fp_round x = x"

fun fp_lt :: "fp \<Rightarrow> fp \<Rightarrow> bool" where
  "fp_lt (FNum a) (FNum b) \<longleftrightarrow> a < b"
| "fp_lt (FInf s) (FNum _) \<longleftrightarrow> s"
| "fp_lt (FNum _) (FInf t) \<longleftrightarrow> \<not> t"
| "fp_lt (FInf s) (FInf t) \<longleftrightarrow> s \<and> \<not> t"
| "fp_lt _ _ \<longleftrightarrow> False"

fun fp_eq :: "fp \<Rightarrow> fp \<Rightarrow> bool" where
  "fp_eq (FNum a) (FNum b) \<longleftrightarrow> a = b"
| "fp_eq (FInf s) (FInf t) \<longleftrightarrow> s = t"
| "fp_eq _ _ \<longleftrightarrow> False"

definition fp_le :: "fp \<Rightarrow> fp \<Rightarrow> bool" where
  "fp_le a b \<longleftrightarrow> fp_lt a b \<or> fp_eq a b"

text \<open>\<open>std::max\<close>, \<open>std::min\<close> and \<open>std::clamp\<close>, which compare with \<open><\<close> only.\<close>

definition fp_max :: "fp \<Rightarrow> fp \<Rightarrow> fp" where
  "fp_max a b = (if fp_lt a b then b else a)"

definition fp_min :: "fp \<Rightarrow> fp \<Rightarrow> fp" where
  "fp_min a b = (if fp_lt b a then b else a)"

definition fp_clamp :: "fp \<Rightarrow> fp \<Rightarrow> fp \<Rightarrow> fp" where
  "fp_clamp v lo hi = (if fp_lt v lo then lo else if fp_lt hi v then hi else v)"

lemma fp_of_real_int:
  assumes "\<bar>n\<bar> \<le> 2 ^ precision f"
  shows "fp_of_real f (of_int n) = FNum (of_int n)"
proof -
  have "\<bar>real_of_int n\<bar> \<le> 2 ^ precision f"
    using assms by (metis of_int_abs of_int_le_iff of_int_numeral of_int_power)
  also have "\<dots> < overflow_limit f" by (cases f) simp_all
  finally show ?thesis using assms by (simp add: fp_of_real_def Let_def round_to_int)
qed

lemma fp_of_real_numeral [simp]:
  "fp_of_real f 0 = FNum 0" "fp_of_real f 1 = FNum 1"
  "(numeral k :: int) \<le> 2 ^ precision f \<Longrightarrow> fp_of_real f (numeral k) = FNum (numeral k)"
  "(numeral k :: int) \<le> 2 ^ precision f \<Longrightarrow> fp_of_real f (- numeral k) = FNum (- numeral k)"
  using fp_of_real_int [of 0 f] fp_of_real_int [of 1 f] fp_of_real_int [of "numeral k" f]
    fp_of_real_int [of "- numeral k" f] by simp_all

lemma fp_of_int_small: "\<bar>n\<bar> \<le> 2 ^ precision f \<Longrightarrow> fp_of_int f n = FNum (of_int n)"
  by (simp add: fp_of_int_def fp_of_real_int)

lemma fp_of_real_nonneg: "0 \<le> x \<Longrightarrow> fp_of_real f x = FInf False \<or> (\<exists>y \<ge> 0. fp_of_real f x = FNum y)"
  using round_to_nonneg [of x f] by (auto simp: fp_of_real_def Let_def)

lemma fp_of_real_not_nan [simp]: "fp_of_real f x \<noteq> FNaN"
  by (simp add: fp_of_real_def Let_def)

lemma fp_of_real_bounds:
  assumes "of_int m \<le> x" and "x \<le> of_int n" and "\<bar>m\<bar> \<le> 2 ^ precision f" and "\<bar>n\<bar> \<le> 2 ^ precision f"
  shows "\<exists>y. fp_of_real f x = FNum y \<and> of_int m \<le> y \<and> y \<le> of_int n"
proof -
  have lo: "of_int m \<le> round_to f x" and hi: "round_to f x \<le> of_int n"
    using round_to_mono [OF assms(1), of f] round_to_mono [OF assms(2), of f] assms(3,4)
    by (simp_all add: round_to_int)
  have "real_of_int \<bar>m\<bar> \<le> 2 ^ precision f" "real_of_int \<bar>n\<bar> \<le> 2 ^ precision f"
    using assms(3,4) by (metis of_int_le_iff of_int_numeral of_int_power)+
  moreover have "\<bar>round_to f x\<bar> \<le> max (real_of_int \<bar>m\<bar>) (real_of_int \<bar>n\<bar>)" using lo hi by auto
  moreover have "(2::real) ^ precision f < overflow_limit f" by (cases f) simp_all
  ultimately have "\<not> overflow_limit f \<le> \<bar>round_to f x\<bar>" by linarith
  then show ?thesis using lo hi by (simp add: fp_of_real_def Let_def)
qed

end
