(* ===== verification/Payload_Codec.thy ===== *)
theory Payload_Codec
  imports Tlv_Serializer Text_Scan Floating_Point
begin

text \<open>
  \<open>bench/bench_serialize.cpp\<close>: the two codecs the serialization benchmark compares, a JSON text
  and the TLV serializer, for one structure. The score is the bits of a \<open>double\<close>; the JSON decoder
  reads it as a number. A decoder's \<open>false\<close> is \<open>None\<close> (what it has assigned by then is
  dropped); an exception of the standard library is the left of a sum. The measurements and their
  output are not modelled.
\<close>

subsection \<open>The structure\<close>

record 'a test_data =
  user_id :: i64
  balance :: i64
  age :: i32
  level :: i32
  score :: 'a
  active :: bool
  td_name :: string
  td_data :: string

subsection \<open>Doubles\<close>

text \<open>The number 64 bits stand for (IEEE 754 binary64).\<close>

definition double_value :: "u64 \<Rightarrow> fp" where
  "double_value b =
     (let neg = bit b 63;
          e = nat (uint (take_bit 11 (drop_bit 52 b)));
          m = real_of_int (uint (take_bit 52 b));
          v = (if e = 0 then m / 2 ^ 1074 else (2 ^ 52 + m) * 2 powr (real e - 1075))
      in if e = 2047 then (if m = 0 then FInf neg else FNaN) else FNum (if neg then - v else v))"

text \<open>\<open>snprintf\<close> with \<open>%.1f\<close> into a buffer of 32 characters, which keeps 31 of them.\<close>

definition score_text :: "u64 \<Rightarrow> string" where
  "score_text b =
     take 31 ((if bit b 63 then ''-'' else []) @
       (case double_value b of
          FNaN \<Rightarrow> ''nan''
        | FInf _ \<Rightarrow> ''inf''
        | FNum v \<Rightarrow> (let n = nat (round_even (10 * \<bar>v\<bar>)) in dec (n div 10) @ ''.'' @ dec (n mod 10))))"

text \<open>\<open>std::stod\<close> on digits and points: it reads the longest number at the front.\<close>

definition stod :: "string \<Rightarrow> stoi_error + fp" where
  "stod s =
     (let i = takeWhile is_digit s;
          r = drop (length i) s;
          f = (if r \<noteq> [] \<and> hd r = CHR ''.'' then takeWhile is_digit (drop 1 r) else []);
          v = real (undec (i @ f)) / 10 ^ length f
      in if i @ f = [] then Inl InvalidArgument
         else case fp_of_real Double v of
                FNum y \<Rightarrow> if v \<noteq> 0 \<and> v < 2 powr - 1022 then Inl OutOfRange else Inr (FNum y)
              | _ \<Rightarrow> Inl OutOfRange)"

subsection \<open>JSON\<close>

definition key :: "string \<Rightarrow> string" where
  "key k = quote @ k @ quote @ '':''"

definition optional_field :: "string \<Rightarrow> string \<Rightarrow> string" where
  "optional_field k v = (if v = [] then [] else '','' @ key k @ quote @ v @ quote)"

definition JsonEncode :: "u64 test_data \<Rightarrow> string" where
  "JsonEncode d =
     ''{'' @ key ''user_id'' @ int_dec (sint (user_id d)) @ '','' @ key ''balance'' @ int_dec (sint (balance d)) @ '','' @
     key ''age'' @ int_dec (sint (age d)) @ '','' @ key ''level'' @ int_dec (sint (level d)) @ '','' @
     key ''score'' @ score_text (score d) @ '','' @ key ''active'' @ (if active d then ''true'' else ''false'') @
     optional_field ''name'' (td_name d) @ optional_field ''data'' (td_data d) @ ''}''"

text \<open>
  The token at the front that a reader's loop accepts, and the text from its end on. \<open>age\<close> and
  \<open>level\<close> are read without a sign.
\<close>

definition scan_int :: "bool \<Rightarrow> string \<Rightarrow> string \<times> string" where
  "scan_int minus_ok t =
     (let s = (if minus_ok \<and> t \<noteq> [] \<and> hd t = CHR ''-'' then ''-'' else []);
          tok = s @ takeWhile is_digit (drop (length s) t)
      in (tok, drop (length tok) t))"

definition scan_number :: "string \<Rightarrow> string \<times> string" where
  "scan_number t = (let tok = takeWhile (\<lambda>c. is_digit c \<or> c = CHR ''.'') t in (tok, drop (length tok) t))"

text \<open>A mandatory field: its value and the text behind it.\<close>

definition json_field :: "string \<Rightarrow> (string \<Rightarrow> string \<times> string) \<Rightarrow> (string \<Rightarrow> stoi_error + 'a) \<Rightarrow> string \<Rightarrow> stoi_error + ('a \<times> string) option" where
  "json_field k scan conv s =
     (case after (key k) s of
        None \<Rightarrow> Inr None
      | Some t \<Rightarrow> (case scan t of (tok, rest) \<Rightarrow> map_sum id (\<lambda>v. Some (v, rest)) (conv tok)))"

fun and_then :: "stoi_error + 'a option \<Rightarrow> ('a \<Rightarrow> stoi_error + 'b option) \<Rightarrow> stoi_error + 'b option" where
  "and_then (Inl e) f = Inl e"
| "and_then (Inr None) f = Inr None"
| "and_then (Inr (Some x)) f = f x"

text \<open>An optional string: empty when it is not there; without a closing quote the search ends.\<close>

definition json_string :: "string \<Rightarrow> string \<Rightarrow> string \<times> string" where
  "json_string k s =
     (case after (key k @ quote) s of
        None \<Rightarrow> ([], s)
      | Some t \<Rightarrow> (case find_sub quote t of None \<Rightarrow> ([], []) | Some n \<Rightarrow> (take n t, drop n t)))"

definition JsonDecode :: "string \<Rightarrow> stoi_error + fp test_data option" where
  "JsonDecode json =
     and_then (json_field ''user_id'' (scan_int True) stoll json) (\<lambda>(uid, s1).
     and_then (json_field ''balance'' (scan_int True) stoll s1) (\<lambda>(bal, s2).
     and_then (json_field ''age'' (scan_int False) stoi s2) (\<lambda>(a, s3).
     and_then (json_field ''level'' (scan_int False) stoi s3) (\<lambda>(lv, s4).
     and_then (json_field ''score'' scan_number stod s4) (\<lambda>(sc, s5).
       (case after (key ''active'') s5 of
          None \<Rightarrow> Inr None
        | Some t \<Rightarrow>
            (case json_string ''name'' s5 of
               (nm, s6) \<Rightarrow>
                 Inr (Some \<lparr>user_id = word_of_int uid, balance = word_of_int bal, age = word_of_int a, level = word_of_int lv,
                   score = sc, active = (take 4 t = ''true''), td_name = nm, td_data = fst (json_string ''data'' s6)\<rparr>))))))))"

subsection \<open>TLV\<close>

definition TlvEncode :: "u64 test_data \<Rightarrow> bytes" where
  "TlvEncode d =
     (let s = WriteBool (active d) (WriteDouble (score d) (WriteInt32 (level d) (WriteInt32 (age d)
                (WriteInt64 (balance d) (WriteInt64 (user_id d) empty_writer)))));
          s1 = (if td_name d = [] then s else WriteString (td_name d) s);
          s2 = (if td_data d = [] then s1 else WriteString (td_data d) s1)
      in ser_buffer s2)"

definition TlvDecode :: "bytes \<Rightarrow> u64 test_data option" where
  "TlvDecode bs =
     (case ReadInt64 (make_reader bs) of (uid, r1) \<Rightarrow>
     (case ReadInt64 r1 of (bal, r2) \<Rightarrow>
     (case ReadInt32 r2 of (a, r3) \<Rightarrow>
     (case ReadInt32 r3 of (lv, r4) \<Rightarrow>
     (case ReadDouble r4 of (sc, r5) \<Rightarrow>
     (case ReadBool r5 of (act, r6) \<Rightarrow>
       if uid = None \<or> bal = None \<or> a = None \<or> lv = None \<or> sc = None \<or> act = None then None
       else
         (case (if 60 < length bs
                then (case ReadString r6 of (s1, r7) \<Rightarrow>
                        (case ReadString r7 of (s2, r8) \<Rightarrow> (case_option [] id s1, case_option [] id s2)))
                else ([], [])) of
            (nm, dt) \<Rightarrow> Some \<lparr>user_id = the uid, balance = the bal, age = the a, level = the lv, score = the sc,
              active = the act, td_name = nm, td_data = dt\<rparr>)))))))"

subsection \<open>The TLV codec\<close>

lemma ReadString_end: "remaining s = [] \<Longrightarrow> ReadString s = (None, s)"
  by (simp add: ReadString_def ReadTag_remaining)

lemma length_fixed_fields:
  "length (ser_buffer (WriteBool act (WriteDouble sc (WriteInt32 lv (WriteInt32 a (WriteInt64 bal (WriteInt64 uid empty_writer))))))) = 63"
  by (simp add: int32.wr_appends int64.wr_appends float64.wr_appends boolean.wr_appends empty_writer_def)

text \<open>The optional strings of the encoding, and what the reader makes of them.\<close>

definition strings_of :: "u64 test_data \<Rightarrow> bytes" where
  "strings_of d =
     (if td_name d = [] then [] else tlv TString (bytes_of_string (td_name d))) @
     (if td_data d = [] then [] else tlv TString (bytes_of_string (td_data d)))"

lemma TlvEncode_fields:
  "TlvEncode d = tlv TInt64 (be_bytes 8 (user_id d)) @ tlv TInt64 (be_bytes 8 (balance d)) @ tlv TInt32 (be_bytes 4 (age d)) @
     tlv TInt32 (be_bytes 4 (level d)) @ tlv TDouble (be_bytes 8 (score d)) @ tlv TBool [if active d then 1 else 0] @ strings_of d"
  by (simp add: TlvEncode_def strings_of_def Let_def int32.wr_appends int64.wr_appends float64.wr_appends boolean.wr_appends
      str.wr_appends empty_writer_def)

lemma read_strings:
  assumes "remaining s = strings_of d" and "length (td_name d) < 2 ^ 32" and "length (td_data d) < 2 ^ 32"
  shows "\<exists>r7 r8 s1 s2. ReadString s = (s1, r7) \<and> ReadString r7 = (s2, r8) \<and>
    (case_option [] id s1, case_option [] id s2) = (if td_name d = [] then (td_data d, []) else (td_name d, td_data d))"
proof (cases "td_name d = []")
  case True
  show ?thesis
  proof (cases "td_data d = []")
    case True
    with \<open>td_name d = []\<close> assms(1) show ?thesis by (simp add: strings_of_def ReadString_end)
  next
    case False
    with True assms obtain r7 where "ReadString s = (Some (td_data d), r7)" "remaining r7 = []"
      using str.rd_after [of "td_data d" s "[]"] by (auto simp: strings_of_def)
    with True ReadString_end show ?thesis by auto
  qed
next
  case False
  then obtain r7 where r7: "ReadString s = (Some (td_name d), r7)"
    "remaining r7 = (if td_data d = [] then [] else tlv TString (bytes_of_string (td_data d)))"
    using assms str.rd_after [of "td_name d" s] by (auto simp: strings_of_def)
  show ?thesis
  proof (cases "td_data d = []")
    case True
    with r7 False ReadString_end show ?thesis by auto
  next
    case dt: False
    with r7(2) assms(3) obtain r8 where "ReadString r7 = (Some (td_data d), r8)"
      using str.rd_after [of "td_data d" r7 "[]"] by auto
    with r7(1) False show ?thesis by auto
  qed
qed

text \<open>The TLV codec returns every structure but those with an empty name and some data: their data comes back as the name.\<close>

lemma tlv_roundtrip:
  assumes "length (td_name d) < 2 ^ 32" and "length (td_data d) < 2 ^ 32"
  shows "TlvDecode (TlvEncode d) = Some (if td_name d = [] then d\<lparr>td_name := td_data d, td_data := []\<rparr> else d)"
proof -
  let ?s0 = "make_reader (TlvEncode d)"
  have "remaining ?s0 = TlvEncode d" by (simp add: make_reader_def remaining_def)
  then obtain r1 where r1: "ReadInt64 ?s0 = (Some (user_id d), r1)" "remaining r1 = tlv TInt64 (be_bytes 8 (balance d)) @
      tlv TInt32 (be_bytes 4 (age d)) @ tlv TInt32 (be_bytes 4 (level d)) @ tlv TDouble (be_bytes 8 (score d)) @
      tlv TBool [if active d then 1 else 0] @ strings_of d"
    unfolding TlvEncode_fields using int64.rd_after by blast
  obtain r2 where r2: "ReadInt64 r1 = (Some (balance d), r2)" "remaining r2 = tlv TInt32 (be_bytes 4 (age d)) @
      tlv TInt32 (be_bytes 4 (level d)) @ tlv TDouble (be_bytes 8 (score d)) @ tlv TBool [if active d then 1 else 0] @ strings_of d"
    using int64.rd_after [OF TrueI r1(2)] by blast
  obtain r3 where r3: "ReadInt32 r2 = (Some (age d), r3)" "remaining r3 =
      tlv TInt32 (be_bytes 4 (level d)) @ tlv TDouble (be_bytes 8 (score d)) @ tlv TBool [if active d then 1 else 0] @ strings_of d"
    using int32.rd_after [OF TrueI r2(2)] by blast
  obtain r4 where r4: "ReadInt32 r3 = (Some (level d), r4)" "remaining r4 =
      tlv TDouble (be_bytes 8 (score d)) @ tlv TBool [if active d then 1 else 0] @ strings_of d"
    using int32.rd_after [OF TrueI r3(2)] by blast
  obtain r5 where r5: "ReadDouble r4 = (Some (score d), r5)" "remaining r5 = tlv TBool [if active d then 1 else 0] @ strings_of d"
    using float64.rd_after [OF TrueI r4(2)] by blast
  obtain r6 where r6: "ReadBool r5 = (Some (active d), r6)" "remaining r6 = strings_of d"
    using boolean.rd_after [OF TrueI r5(2)] by blast
  obtain r7 r8 s1 s2 where s: "ReadString r6 = (s1, r7)" "ReadString r7 = (s2, r8)"
    "(case_option [] id s1, case_option [] id s2) = (if td_name d = [] then (td_data d, []) else (td_name d, td_data d))"
    using read_strings [OF r6(2) assms] by blast
  have "60 < length (TlvEncode d)" by (simp add: TlvEncode_fields)
  moreover have "case_option [] id s1 = (if td_name d = [] then td_data d else td_name d)"
    "case_option [] id s2 = (if td_name d = [] then [] else td_data d)"
    using s(3) by (simp_all split: if_splits)
  ultimately have "TlvDecode (TlvEncode d) = Some \<lparr>user_id = user_id d, balance = balance d, age = age d, level = level d,
      score = score d, active = active d, td_name = (if td_name d = [] then td_data d else td_name d),
      td_data = (if td_name d = [] then [] else td_data d)\<rparr>"
    by (simp add: TlvDecode_def r1(1) r2(1) r3(1) r4(1) r5(1) r6(1) s(1,2))
  then show ?thesis by (cases d) simp
qed

subsection \<open>The JSON codec\<close>

lemma after_here: "pat \<noteq> [] \<Longrightarrow> hd pat \<notin> set x \<Longrightarrow> after pat (x @ pat @ y) = Some y"
  by (simp add: after_skip) (simp add: after_def find_sub_here)

lemma key_quote: "key k \<noteq> []" "hd (key k) = CHR 0x22"
  by (simp_all add: key_def)

lemma scan_signed: "\<not> is_digit c \<Longrightarrow> scan_int True (int_dec k @ c # t) = (int_dec k, c # t)"
proof (cases "k < 0")
  case True
  assume "\<not> is_digit c"
  with True show ?thesis by (simp add: scan_int_def int_dec.simps takeWhile_dec del: dec.simps)
next
  case False
  assume "\<not> is_digit c"
  moreover have "hd (dec (nat k) @ c # t) \<noteq> CHR ''-''" using hd_dec [of "nat k"] by (auto simp: is_digit_def)
  ultimately show ?thesis using False by (simp add: scan_int_def int_dec.simps takeWhile_dec del: dec.simps)
qed

lemma scan_unsigned: "\<not> is_digit c \<Longrightarrow> 0 \<le> k \<Longrightarrow> scan_int False (int_dec k @ c # t) = (int_dec k, c # t)"
  by (simp add: scan_int_def int_dec.simps takeWhile_dec del: dec.simps)

lemma scan_negative: "k < 0 \<Longrightarrow> scan_int False (int_dec k @ t) = ([], int_dec k @ t)"
  by (simp add: scan_int_def int_dec.simps is_digit_def del: dec.simps)

lemma digits_not_quote: "CHR 0x22 \<notin> set (dec n)" "CHR 0x22 \<notin> set (int_dec k)"
  using dec_is_digit [of "CHR 0x22"] by (auto simp: int_dec.simps is_digit_def simp del: dec.simps)

text \<open>The fields before the score, one after the other.\<close>

lemma field_after:
  assumes "CHR 0x22 \<notin> set x" and "scan (tok @ t) = (tok, t)" and "conv tok = Inr v"
  shows "json_field k scan conv (x @ key k @ tok @ t) = Inr (Some (v, t))"
proof -
  have "after (key k) (x @ key k @ tok @ t) = Some (tok @ t)"
    by (rule after_here) (use assms(1) in \<open>simp_all add: key_def\<close>)
  then show ?thesis by (simp add: json_field_def assms(2,3))
qed

subsubsection \<open>The score\<close>

definition tenths :: "u64 \<Rightarrow> nat" where
  "tenths b = (case double_value b of FNum v \<Rightarrow> nat (round_even (10 * v)) | _ \<Rightarrow> 0)"

definition plain_score :: "u64 \<Rightarrow> bool" where
  "plain_score b \<longleftrightarrow> \<not> bit b 63 \<and> (case double_value b of FNum v \<Rightarrow> 0 \<le> v \<and> v < 10 ^ 9 | _ \<Rightarrow> False)"

lemma plain_tenths: "plain_score b \<Longrightarrow> tenths b \<le> 10 ^ 10"
proof -
  assume "plain_score b"
  then obtain v where v: "double_value b = FNum v" "0 \<le> v" "v < 10 ^ 9" by (auto simp: plain_score_def split: fp.splits)
  have "round_even (10 * v) \<le> round_even (of_int (10 ^ 10))" using v(3) by (intro round_even_mono) simp
  then have "round_even (10 * v) \<le> 10 ^ 10" unfolding round_even_int .
  then show ?thesis using v(1) by (simp add: tenths_def)
qed

lemma plain_text:
  assumes "plain_score b"
  shows "score_text b = dec (tenths b div 10) @ ''.'' @ dec (tenths b mod 10)"
proof -
  obtain v where v: "double_value b = FNum v" "0 \<le> v" "\<not> bit b 63"
    using assms by (auto simp: plain_score_def split: fp.splits)
  have "length (dec (tenths b div 10)) \<le> 10"
    using plain_tenths [OF assms] by (intro length_dec) simp_all
  moreover have "length (dec (tenths b mod 10)) \<le> 1" by (intro length_dec) simp_all
  ultimately have "length (dec (tenths b div 10) @ ''.'' @ dec (tenths b mod 10)) \<le> 31" by simp
  moreover have "score_text b = take 31 (dec (tenths b div 10) @ ''.'' @ dec (tenths b mod 10))"
    using v by (simp add: score_text_def tenths_def Let_def del: dec.simps)
  ultimately show ?thesis by simp
qed

lemma undec_snoc: "undec (s @ [c]) = 10 * undec s + (of_char c - 48)"
  by (simp add: undec_def)

lemma stod_tenths:
  assumes "n \<le> 10 ^ 10"
  shows "\<exists>y. fp_of_real Double (real n / 10) = FNum y \<and> stod (dec (n div 10) @ ''.'' @ dec (n mod 10)) = Inr (FNum y)"
proof -
  obtain y where y: "fp_of_real Double (real n / 10) = FNum y"
    using fp_of_real_bounds [of 0 "real n / 10" "int n" Double] assms by auto
  have d: "dec (n mod 10) = [char_of (48 + n mod 10)]" by (simp add: dec.simps)
  have u: "undec (dec (n div 10) @ dec (n mod 10)) = n"
    unfolding d undec_snoc undec_dec by (simp only: of_char_digit pos_mod_bound mod_less_divisor zero_less_numeral) simp
  have t: "takeWhile is_digit (dec (n div 10) @ ''.'' @ dec (n mod 10)) = dec (n div 10)"
    using takeWhile_dec [of "CHR ''.''" "n div 10" "dec (n mod 10)"] by (simp add: is_digit_def)
  have r: "drop (length (dec (n div 10))) (dec (n div 10) @ ''.'' @ dec (n mod 10)) = CHR ''.'' # dec (n mod 10)" by simp
  have "takeWhile is_digit (dec (n mod 10)) = dec (n mod 10)" using dec_is_digit by (simp add: takeWhile_eq_all_conv)
  then have f: "(if CHR ''.'' # dec (n mod 10) \<noteq> [] \<and> hd (CHR ''.'' # dec (n mod 10)) = CHR ''.''
      then takeWhile is_digit (drop 1 (CHR ''.'' # dec (n mod 10))) else []) = dec (n mod 10)" by simp
  have l: "10 ^ length (dec (n mod 10)) = (10 :: real)" by (simp add: d)
  have small: "\<not> (real n / 10 \<noteq> 0 \<and> real n / 10 < 2 powr - 1022)"
  proof
    assume a: "real n / 10 \<noteq> 0 \<and> real n / 10 < 2 powr - 1022"
    have "(2::real) powr - 1022 \<le> 2 powr - 4" by simp
    moreover have "(2::real) powr - 4 = 1 / 16" by (simp add: powr_minus_divide)
    moreover have "1 \<le> real n" using a by simp
    ultimately show False using a by linarith
  qed
  show ?thesis
    unfolding stod_def t Let_def r f u l using y small by (simp add: hd_dec(2))
qed

subsubsection \<open>The strings\<close>

definition tail_text :: "u64 test_data \<Rightarrow> string" where
  "tail_text d = '','' @ key ''active'' @ (if active d then ''true'' else ''false'') @
     optional_field ''name'' (td_name d) @ optional_field ''data'' (td_data d) @ ''}''"

lemma JsonEncode_tail:
  "JsonEncode d = ''{'' @ key ''user_id'' @ int_dec (sint (user_id d)) @ '','' @ key ''balance'' @ int_dec (sint (balance d)) @ '','' @
     key ''age'' @ int_dec (sint (age d)) @ '','' @ key ''level'' @ int_dec (sint (level d)) @ '','' @
     key ''score'' @ score_text (score d) @ tail_text d"
  by (simp add: JsonEncode_def tail_text_def)

lemma tail_active: "\<exists>t. after (key ''active'') (tail_text d) = Some t \<and> (take 4 t = ''true'') = active d"
proof -
  have "after (key ''active'') (tail_text d) = Some ((if active d then ''true'' else ''false'') @
      optional_field ''name'' (td_name d) @ optional_field ''data'' (td_data d) @ ''}'')"
    unfolding tail_text_def by (rule after_here) (simp_all add: key_def)
  then show ?thesis by simp
qed

text \<open>The keys of the strings are not found in the text of the other fields.\<close>

lemma skip_true:
  "after (key ''name'' @ quote) ('','' @ key ''active'' @ ''true'' @ t) = after (key ''name'' @ quote) t"
  "after (key ''data'' @ quote) ('','' @ key ''active'' @ ''true'' @ t) = after (key ''data'' @ quote) t"
  by (simp_all add: key_def after_step)

lemma skip_false:
  "after (key ''name'' @ quote) ('','' @ key ''active'' @ ''false'' @ t) = after (key ''name'' @ quote) t"
  "after (key ''data'' @ quote) ('','' @ key ''active'' @ ''false'' @ t) = after (key ''data'' @ quote) t"
  by (simp_all add: key_def after_step)

lemma skip_active:
  "after (key ''name'' @ quote) ('','' @ key ''active'' @ (if b then ''true'' else ''false'') @ t) = after (key ''name'' @ quote) t"
  "after (key ''data'' @ quote) ('','' @ key ''active'' @ (if b then ''true'' else ''false'') @ t) = after (key ''data'' @ quote) t"
  by (cases b, simp_all only: if_True if_False skip_true skip_false)+

lemma after_none: "pat \<noteq> [] \<Longrightarrow> hd pat \<notin> set x \<Longrightarrow> after pat x = None"
  using after_skip [of pat x "[]"] by (simp add: after_def)

lemma string_found:
  assumes "CHR 0x22 \<notin> set v" and "v \<noteq> []"
  shows "after (key k @ quote) (optional_field k v @ t) = Some (v @ quote @ t) \<and> find_sub quote (v @ quote @ t) = Some (length v)"
proof -
  have "after (key k @ quote) ('','' @ (key k @ quote) @ v @ quote @ t) = Some (v @ quote @ t)"
    by (rule after_here) (simp_all add: key_def)
  moreover have "find_sub quote (v @ quote @ t) = Some (length v)"
    using assms(1) find_sub_skip [of quote v "quote @ t"] find_sub_here [of quote t] by simp
  ultimately show ?thesis using assms(2) by (simp add: optional_field_def)
qed

lemma name_not_in_data:
  assumes "CHR 0x22 \<notin> set v"
  shows "after (key ''name'' @ quote) (optional_field ''data'' v @ ''}'') = None"
proof -
  have none: "after (key ''name'' @ quote) ''}'' = None" "after (key ''name'' @ quote) (quote @ ''}'') = None"
    by (simp_all add: key_def after_step) (simp_all add: after_def)
  have "\<not> prefix (''name'' @ quote @ '':'' @ quote) (v @ quote @ ''}'')"
  proof
    assume "prefix (''name'' @ quote @ '':'' @ quote) (v @ quote @ ''}'')"
    then obtain r where r: "v @ quote @ ''}'' = ''name'' @ quote @ '':'' @ quote @ r" by (auto simp: prefix_def)
    then have "takeWhile (\<lambda>c. c \<noteq> CHR 0x22) (v @ quote @ ''}'') = ''name''" by simp
    moreover have "takeWhile (\<lambda>c. c \<noteq> CHR 0x22) (v @ quote @ ''}'') = v"
      using assms by (subst takeWhile_append2) auto
    ultimately show False using r by simp
  qed
  then have "after (key ''name'' @ quote) ('','' @ key ''data'' @ quote @ v @ quote @ ''}'') = after (key ''name'' @ quote) (v @ quote @ ''}'')"
    by (simp add: key_def after_step)
  also have "\<dots> = after (key ''name'' @ quote) (quote @ ''}'')" by (rule after_skip) (use assms in \<open>simp_all add: key_def\<close>)
  finally show ?thesis using none by (simp add: optional_field_def)
qed

lemma data_string:
  assumes "CHR 0x22 \<notin> set v" and "x = [] \<or> x = quote"
  shows "fst (json_string ''data'' (x @ optional_field ''data'' v @ ''}'')) = v"
proof (cases "v = []")
  case True
  have "after (key ''data'' @ quote) (x @ ''}'') = None"
    using assms(2) by (auto simp: key_def after_step) (simp_all add: after_def)
  with True show ?thesis by (simp add: optional_field_def json_string_def)
next
  case False
  have "after (key ''data'' @ quote) (x @ optional_field ''data'' v @ ''}'') = after (key ''data'' @ quote) (optional_field ''data'' v @ ''}'')"
    using assms(2) False by (auto simp: optional_field_def key_def after_step)
  with string_found [OF assms(1) False, of "''data''" "''}''"] show ?thesis by (simp add: json_string_def)
qed

lemma tail_strings:
  assumes "CHR 0x22 \<notin> set (td_name d)" and "CHR 0x22 \<notin> set (td_data d)"
  shows "\<exists>s6. json_string ''name'' (tail_text d) = (td_name d, s6) \<and> fst (json_string ''data'' s6) = td_data d"
proof (cases "td_name d = []")
  case True
  have "after (key ''name'' @ quote) (tail_text d) = None"
    using skip_active(1) name_not_in_data [OF assms(2)] True by (simp add: tail_text_def optional_field_def)
  then have "json_string ''name'' (tail_text d) = ([], tail_text d)" by (simp add: json_string_def)
  moreover have "json_string ''data'' (tail_text d) = (case after (key ''data'' @ quote) (optional_field ''data'' (td_data d) @ ''}'') of
      None \<Rightarrow> ([], tail_text d)
    | Some t \<Rightarrow> (case find_sub quote t of None \<Rightarrow> ([], []) | Some n \<Rightarrow> (take n t, drop n t)))"
    unfolding json_string_def tail_text_def using True skip_active(2) by (simp add: optional_field_def)
  then have "fst (json_string ''data'' (tail_text d)) = fst (json_string ''data'' ([] @ optional_field ''data'' (td_data d) @ ''}''))"
    by (auto simp: json_string_def split: option.splits)
  ultimately show ?thesis using True data_string [OF assms(2), of "[]"] by simp
next
  case False
  have "after (key ''name'' @ quote) (tail_text d) = Some (td_name d @ quote @ optional_field ''data'' (td_data d) @ ''}'')"
    using skip_active(1) string_found [OF assms(1) False] by (simp add: tail_text_def)
  then have "json_string ''name'' (tail_text d) = (td_name d, quote @ optional_field ''data'' (td_data d) @ ''}'')"
    using string_found [OF assms(1) False, of "''name''" "optional_field ''data'' (td_data d) @ ''}''"] by (simp add: json_string_def)
  then show ?thesis using data_string [OF assms(2), of quote] by simp
qed

subsection \<open>Properties\<close>

lemma not_digit_tail: "\<not> is_digit (CHR '','')" "CHR '','' \<noteq> CHR ''.''"
  by (simp_all add: is_digit_def)

lemma scan_score: "scan_number (dec i @ ''.'' @ dec j @ CHR '','' # t) = (dec i @ ''.'' @ dec j, CHR '','' # t)"
proof -
  have "takeWhile (\<lambda>c. is_digit c \<or> c = CHR ''.'') ((dec i @ ''.'' @ dec j) @ CHR '','' # t) = dec i @ ''.'' @ dec j"
    by (subst takeWhile_append2) (use dec_is_digit not_digit_tail in auto)
  then show ?thesis by (simp add: scan_number_def)
qed

text \<open>
  C16. Both codecs of the benchmark return what they are given: the TLV codec every field bit for bit, the
  JSON text every field with the score rounded to a tenth. The structures for which this holds have a
  name when they have data, no negative age or level, a score from 0 up to a thousand million, and no
  quotation mark in their strings.
\<close>

theorem codecs_agree:
  assumes "0 \<le> sint (age d)" and "0 \<le> sint (level d)" and "plain_score (score d)"
    and "CHR 0x22 \<notin> set (td_name d)" and "CHR 0x22 \<notin> set (td_data d)"
    and "td_name d = [] \<Longrightarrow> td_data d = []" and "length (td_name d) < 2 ^ 32" and "length (td_data d) < 2 ^ 32"
  shows "TlvDecode (TlvEncode d) = Some d \<and>
    JsonDecode (JsonEncode d) = Inr (Some \<lparr>user_id = user_id d, balance = balance d, age = age d, level = level d,
      score = fp_of_real Double (real (tenths (score d)) / 10), active = active d, td_name = td_name d, td_data = td_data d\<rparr>)"
proof
  have "(if td_name d = [] then d\<lparr>td_name := td_data d, td_data := []\<rparr> else d) = d" using assms(6) by (cases d) auto
  then show "TlvDecode (TlvEncode d) = Some d" using tlv_roundtrip [OF assms(7,8)] by simp
  have nd: "\<not> is_digit (CHR '','')" by (rule not_digit_tail)
  have r64: "- (2 ^ 63) \<le> sint (x :: i64)" "sint (x :: i64) < 2 ^ 63" for x
    using sint_ge [of x] sint_lt [of x] by simp_all
  have r32: "- (2 ^ 31) \<le> sint (x :: i32)" "sint (x :: i32) < 2 ^ 31" for x
    using sint_ge [of x] sint_lt [of x] by simp_all
  let ?tl = "tail_text d"
  let ?sc = "key ''score'' @ score_text (score d) @ ?tl"
  let ?lv = "key ''level'' @ int_dec (sint (level d)) @ '','' @ ?sc"
  let ?ag = "key ''age'' @ int_dec (sint (age d)) @ '','' @ ?lv"
  let ?ba = "key ''balance'' @ int_dec (sint (balance d)) @ '','' @ ?ag"
  obtain tl where tl: "?tl = CHR '','' # tl" by (simp add: tail_text_def)
  have f1: "json_field ''user_id'' (scan_int True) stoll (JsonEncode d) = Inr (Some (sint (user_id d), '','' @ ?ba))"
    unfolding JsonEncode_tail using scan_signed [OF nd] stoll_int_dec r64 by (intro field_after) simp_all
  have f2: "json_field ''balance'' (scan_int True) stoll ('','' @ ?ba) = Inr (Some (sint (balance d), '','' @ ?ag))"
    using scan_signed [OF nd] stoll_int_dec r64 by (intro field_after) simp_all
  have f3: "json_field ''age'' (scan_int False) stoi ('','' @ ?ag) = Inr (Some (sint (age d), '','' @ ?lv))"
    using scan_unsigned [OF nd assms(1)] stoi_int_dec r32 by (intro field_after) simp_all
  have f4: "json_field ''level'' (scan_int False) stoi ('','' @ ?lv) = Inr (Some (sint (level d), '','' @ ?sc))"
    using scan_unsigned [OF nd assms(2)] stoi_int_dec r32 by (intro field_after) simp_all
  obtain y where y: "fp_of_real Double (real (tenths (score d)) / 10) = FNum y" "stod (score_text (score d)) = Inr (FNum y)"
    using stod_tenths [OF plain_tenths [OF assms(3)]] plain_text [OF assms(3)] by auto
  have f5: "json_field ''score'' scan_number stod ('','' @ ?sc) = Inr (Some (FNum y, ?tl))"
    using scan_score y(2) plain_text [OF assms(3)] tl by (intro field_after) simp_all
  obtain t where t: "after (key ''active'') ?tl = Some t" "(take 4 t = ''true'') = active d" using tail_active by blast
  obtain s6 where s6: "json_string ''name'' ?tl = (td_name d, s6)" "fst (json_string ''data'' s6) = td_data d"
    using tail_strings [OF assms(4,5)] by blast
  show "JsonDecode (JsonEncode d) = Inr (Some \<lparr>user_id = user_id d, balance = balance d, age = age d, level = level d,
      score = fp_of_real Double (real (tenths (score d)) / 10), active = active d, td_name = td_name d, td_data = td_data d\<rparr>)"
    unfolding JsonDecode_def f1 and_then.simps case_prod_conv f2 f3 f4 f5 t(1) option.case s6(1) by (simp add: t(2) s6(2) y(1))
qed

lemma demo_score: "\<not> bit (0x4058A00000000000 :: u64) 63" "double_value 0x4058A00000000000 = FNum (197 / 2)"
  by (simp_all add: double_value_def Let_def take_bit_word_eq_self uint_word_of_int bit_iff_odd_drop_bit) (simp add: powr_minus)

theorem codecs_agree_witness:
  "let d = \<lparr>user_id = 123456789, balance = - 987654321, age = 25, level = 42, score = 0x4058A00000000000 :: u64,
     active = True, td_name = ''test_user'', td_data = ''xx''\<rparr>
   in TlvDecode (TlvEncode d) = Some d \<and> map_sum id (map_option age) (JsonDecode (JsonEncode d)) = Inr (Some 25)"
proof -
  define d where "d = \<lparr>user_id = 123456789, balance = - 987654321, age = 25, level = 42, score = 0x4058A00000000000 :: u64,
     active = True, td_name = ''test_user'', td_data = ''xx''\<rparr>"
  have "plain_score (score d)" by (simp add: d_def plain_score_def demo_score)
  then have "TlvDecode (TlvEncode d) = Some d \<and> map_sum id (map_option age) (JsonDecode (JsonEncode d)) = Inr (Some 25)"
    using codecs_agree [of d] by (simp add: d_def)
  then show ?thesis unfolding Let_def d_def .
qed

text \<open>
  The decoder reads an age or a level without a sign, so the encoding of a negative one makes
  \<open>std::stoi\<close> throw on an empty text.
\<close>

lemma negative_age_throws:
  assumes "sint (age d) < 0"
  shows "JsonDecode (JsonEncode d) = Inl InvalidArgument"
proof -
  have nd: "\<not> is_digit (CHR '','')" by (rule not_digit_tail)
  have r64: "- (2 ^ 63) \<le> sint (x :: i64)" "sint (x :: i64) < 2 ^ 63" for x
    using sint_ge [of x] sint_lt [of x] by simp_all
  let ?r = "'','' @ key ''level'' @ int_dec (sint (level d)) @ '','' @ key ''score'' @ score_text (score d) @ tail_text d"
  let ?ag = "key ''age'' @ int_dec (sint (age d)) @ ?r"
  let ?ba = "key ''balance'' @ int_dec (sint (balance d)) @ '','' @ ?ag"
  have f1: "json_field ''user_id'' (scan_int True) stoll (JsonEncode d) = Inr (Some (sint (user_id d), '','' @ ?ba))"
    unfolding JsonEncode_tail using scan_signed [OF nd] stoll_int_dec r64 by (intro field_after) simp_all
  have f2: "json_field ''balance'' (scan_int True) stoll ('','' @ ?ba) = Inr (Some (sint (balance d), '','' @ ?ag))"
    using scan_signed [OF nd] stoll_int_dec r64 by (intro field_after) simp_all
  have "after (key ''age'') ('','' @ ?ag) = Some (int_dec (sint (age d)) @ ?r)" by (rule after_here) (simp_all add: key_def)
  then have f3: "json_field ''age'' (scan_int False) stoi ('','' @ ?ag) = Inl InvalidArgument"
    by (simp add: json_field_def scan_negative [OF assms] stoi_def to_integer_def)
  show ?thesis unfolding JsonDecode_def f1 and_then.simps case_prod_conv f2 f3 ..
qed

end
