(* ===== verification/Event_Loop.thy ===== *)
theory Event_Loop
  imports Rpc_Prelude "HOL-Library.Sublist"
begin

text \<open>
  \<open>include/rpc/event_loop.h\<close> and \<open>src/event_loop.cpp\<close>: the reactor. One thread runs
  \<open>Run\<close>; \<open>Stop\<close> and \<open>RunInLoop\<close> may come from any thread, and each of them is two
  atomic steps, the change of the shared state and the write to the \<open>eventfd\<close>. What the handlers
  and the posted callbacks do is the argument of the definitions: a handler's method may do anything
  to the loop, and it may throw. Every handler object has a number, so that a pointer to a deleted
  object is seen. \<open>running_\<close> is read and written as if it were atomic, and the counter of the
  \<open>eventfd\<close> does not overflow. \<open>posted\<close> and \<open>started\<close> record the callbacks in the
  order of \<open>RunInLoop\<close> and in the order they were called.
\<close>

unbundle bit_operations_syntax

subsection \<open>The loop object\<close>

abbreviation EPOLLIN :: u32 where "EPOLLIN \<equiv> 0x1"
abbreviation EPOLLOUT :: u32 where "EPOLLOUT \<equiv> 0x4"
abbreviation EPOLLERR :: u32 where "EPOLLERR \<equiv> 0x8"
abbreviation EPOLLHUP :: u32 where "EPOLLHUP \<equiv> 0x10"
abbreviation EPOLLRDHUP :: u32 where "EPOLLRDHUP \<equiv> 0x2000"
abbreviation EPOLLET :: u32 where "EPOLLET \<equiv> 0x80000000"

record ('h, 'c) event_loop =
  wakeup_fd :: int
  running :: bool
  handlers :: "int \<Rightarrow> (nat \<times> 'h) option"
  interest :: "int \<Rightarrow> u32 option"
  next_object :: nat
  wakeup :: nat
  pending_callbacks :: "'c list"
  posted :: "'c list"
  started :: "'c list"

definition new_loop :: "int \<Rightarrow> ('h, 'c) event_loop" where
  "new_loop w = \<lparr>wakeup_fd = w, running = False, handlers = (\<lambda>_. None), interest = (\<lambda>_. None)(w \<mapsto> EPOLLIN),
     next_object = 0, wakeup = 0, pending_callbacks = [], posted = [], started = []\<rparr>"

datatype loop_error = RegisterFailed | UseAfterFree

text \<open>\<open>epoll_ctl(ADD)\<close> fails for a descriptor that is already watched, and \<open>Register\<close> throws.\<close>

definition Register :: "int \<Rightarrow> 'h \<Rightarrow> u32 \<Rightarrow> ('h, 'c) event_loop \<Rightarrow> loop_error + ('h, 'c) event_loop" where
  "Register n h ev lp =
     (if interest lp n \<noteq> None then Inl RegisterFailed
      else Inr (lp\<lparr>interest := (interest lp)(n \<mapsto> ev), handlers := (handlers lp)(n \<mapsto> (next_object lp, h)),
                   next_object := next_object lp + 1\<rparr>))"

definition Unregister :: "int \<Rightarrow> ('h, 'c) event_loop \<Rightarrow> ('h, 'c) event_loop" where
  "Unregister n lp = lp\<lparr>interest := (interest lp)(n := None), handlers := (handlers lp)(n := None)\<rparr>"

text \<open>\<open>epoll_ctl(MOD)\<close> fails for a descriptor that is not watched, and nothing looks at its result.\<close>

definition UpdateEvents :: "int \<Rightarrow> u32 \<Rightarrow> ('h, 'c) event_loop \<Rightarrow> ('h, 'c) event_loop" where
  "UpdateEvents n ev lp = (if interest lp n = None then lp else lp\<lparr>interest := (interest lp)(n \<mapsto> ev)\<rparr>)"

definition push_callback :: "'c \<Rightarrow> ('h, 'c) event_loop \<Rightarrow> ('h, 'c) event_loop" where
  "push_callback c lp = lp\<lparr>pending_callbacks := pending_callbacks lp @ [c], posted := posted lp @ [c]\<rparr>"

definition eventfd_write :: "('h, 'c) event_loop \<Rightarrow> ('h, 'c) event_loop" where
  "eventfd_write lp = lp\<lparr>wakeup := wakeup lp + 1\<rparr>"

definition RunInLoop :: "'c \<Rightarrow> ('h, 'c) event_loop \<Rightarrow> ('h, 'c) event_loop" where
  "RunInLoop c lp = eventfd_write (push_callback c lp)"

definition StopLoop :: "('h, 'c) event_loop \<Rightarrow> ('h, 'c) event_loop" where
  "StopLoop lp = eventfd_write (lp\<lparr>running := False\<rparr>)"

subsection \<open>Dispatching an event\<close>

datatype call = CallRead | CallWrite | CallClose

text \<open>An event: the descriptor, the mask, and what the system calls of its handler will answer.\<close>

type_synonym 'e epoll_event = "int \<times> u32 \<times> 'e"

type_synonym ('e, 'h, 'c) handler_code = "call \<Rightarrow> 'e \<Rightarrow> int \<Rightarrow> ('h, 'c) event_loop \<Rightarrow> loop_error + ('h, 'c) event_loop"

type_synonym ('h, 'c) callback_code = "'c \<Rightarrow> ('h, 'c) event_loop \<Rightarrow> loop_error + ('h, 'c) event_loop"

fun dispatch_event :: "('e, 'h, 'c) handler_code \<Rightarrow> 'e epoll_event \<Rightarrow> ('h, 'c) event_loop \<Rightarrow> loop_error + ('h, 'c) event_loop" where
  "dispatch_event act (n, ev, e) lp =
     (case handlers lp n of
        None \<Rightarrow> Inr lp
      | Some (k, _) \<Rightarrow>
          if ev AND (EPOLLERR OR EPOLLHUP OR EPOLLRDHUP) \<noteq> 0 then act CallClose e n lp
          else
            (case (if ev AND EPOLLIN \<noteq> 0 then act CallRead e n lp else Inr lp) of
               Inl err \<Rightarrow> Inl err
             | Inr lp1 \<Rightarrow>
                 if ev AND EPOLLOUT = 0 then Inr lp1
                 else if map_option fst (handlers lp1 n) = Some k then act CallWrite e n lp1
                 else Inl UseAfterFree))"

subsection \<open>The threads\<close>

text \<open>Where the thread of \<open>Run\<close> is: the places between which something else can happen.\<close>

datatype ('e, 'c) place =
    NotRunning
  | LoopTop
  | InWait
  | InBatch "'e epoll_event list"
  | WakeupRead "'e epoll_event list"
  | InCallbacks "'c list" "'e epoll_event list"
  | Returned
  | Crashed loop_error

text \<open>\<open>writers\<close> is the number of threads inside \<open>Stop\<close> or \<open>RunInLoop\<close>, before their write.\<close>

record ('e, 'h, 'c) reactor =
  lp :: "('h, 'c) event_loop"
  place :: "('e, 'c) place"
  writers :: nat

definition Run :: "('e, 'h, 'c) reactor \<Rightarrow> ('e, 'h, 'c) reactor" where
  "Run r = r\<lparr>lp := (lp r)\<lparr>running := True\<rparr>, place := LoopTop\<rparr>"

text \<open>The loop's thread between two \<open>epoll_wait\<close> calls; \<open>None\<close> where it waits or is gone.\<close>

definition after_code :: "('e, 'h, 'c) reactor \<Rightarrow> ('e, 'c) place \<Rightarrow> loop_error + ('h, 'c) event_loop \<Rightarrow> ('e, 'h, 'c) reactor" where
  "after_code r pl res = (case res of Inl err \<Rightarrow> r\<lparr>place := Crashed err\<rparr> | Inr l \<Rightarrow> r\<lparr>lp := l, place := pl\<rparr>)"

fun loop_thread :: "('e, 'h, 'c) handler_code \<Rightarrow> ('h, 'c) callback_code \<Rightarrow> ('e, 'h, 'c) reactor \<Rightarrow> ('e, 'h, 'c) reactor option" where
  "loop_thread act run r =
     (case place r of
        LoopTop \<Rightarrow> Some (r\<lparr>place := (if running (lp r) then InWait else Returned)\<rparr>)
      | InBatch [] \<Rightarrow> Some (r\<lparr>place := LoopTop\<rparr>)
      | InBatch ((n, ev, e) # es) \<Rightarrow>
          if n = wakeup_fd (lp r) then Some (r\<lparr>lp := (lp r)\<lparr>wakeup := 0\<rparr>, place := WakeupRead es\<rparr>)
          else Some (after_code r (InBatch es) (dispatch_event act (n, ev, e) (lp r)))
      | WakeupRead es \<Rightarrow>
          Some (r\<lparr>lp := (lp r)\<lparr>pending_callbacks := []\<rparr>, place := InCallbacks (pending_callbacks (lp r)) es\<rparr>)
      | InCallbacks [] es \<Rightarrow> Some (r\<lparr>place := InBatch es\<rparr>)
      | InCallbacks (c # cs) es \<Rightarrow>
          Some (after_code r (InCallbacks cs es) (run c ((lp r)\<lparr>started := started (lp r) @ [c]\<rparr>)))
      | _ \<Rightarrow> None)"

declare loop_thread.simps [simp del]

text \<open>What \<open>epoll_wait\<close> may report: watched descriptors, and the \<open>eventfd\<close> only when it was written.\<close>

definition wait_ok :: "'e epoll_event list \<Rightarrow> ('h, 'c) event_loop \<Rightarrow> bool" where
  "wait_ok es l \<longleftrightarrow> es \<noteq> [] \<and> length es \<le> 64 \<and> distinct (map fst es) \<and>
     list_all (\<lambda>(n, _). interest l n \<noteq> None \<and> (n = wakeup_fd l \<longrightarrow> 0 < wakeup l)) es"

inductive reactor_step :: "('e, 'h, 'c) handler_code \<Rightarrow> ('h, 'c) callback_code \<Rightarrow> ('e, 'h, 'c) reactor \<Rightarrow> ('e, 'h, 'c) reactor \<Rightarrow> bool"
  for act run where
  call_run: "place r = NotRunning \<Longrightarrow> reactor_step act run r (Run r)"
| loop_step: "loop_thread act run r = Some r' \<Longrightarrow> reactor_step act run r r'"
| wait_events: "place r = InWait \<Longrightarrow> wait_ok es (lp r) \<Longrightarrow> reactor_step act run r (r\<lparr>place := InBatch es\<rparr>)"
| wait_interrupted: "place r = InWait \<Longrightarrow> reactor_step act run r (r\<lparr>place := LoopTop\<rparr>)"
| wait_failed: "place r = InWait \<Longrightarrow> reactor_step act run r (r\<lparr>place := Returned\<rparr>)"
| post_push: "reactor_step act run r (r\<lparr>lp := push_callback c (lp r), writers := writers r + 1\<rparr>)"
| stop_flag: "reactor_step act run r (r\<lparr>lp := (lp r)\<lparr>running := False\<rparr>, writers := writers r + 1\<rparr>)"
| wake_write: "writers r = Suc n \<Longrightarrow> reactor_step act run r (r\<lparr>lp := eventfd_write (lp r), writers := n\<rparr>)"

inductive_cases reactor_step_elim: "reactor_step act run r r'"

definition new_reactor :: "int \<Rightarrow> ('e, 'h, 'c) reactor" where
  "new_reactor w = \<lparr>lp = new_loop w, place = NotRunning, writers = 0\<rparr>"

text \<open>The loop's thread run until it waits or has ended; it always gets there.\<close>

fun rank :: "('e, 'h, 'c) reactor \<Rightarrow> nat \<times> nat" where
  "rank r =
     (case place r of
        InBatch es \<Rightarrow> (length es + 1, 0)
      | WakeupRead es \<Rightarrow> (length es + 1, length (pending_callbacks (lp r)) + 2)
      | InCallbacks cs es \<Rightarrow> (length es + 1, length cs + 1)
      | LoopTop \<Rightarrow> (0, 1)
      | _ \<Rightarrow> (0, 0))"

lemma loop_thread_rank: "loop_thread act run r = Some r' \<Longrightarrow> (rank r', rank r) \<in> less_than <*lex*> less_than"
  by (auto simp: loop_thread.simps after_code_def split: place.splits list.splits sum.splits if_splits prod.splits)

function settle :: "('e, 'h, 'c) handler_code \<Rightarrow> ('h, 'c) callback_code \<Rightarrow> ('e, 'h, 'c) reactor \<Rightarrow> ('e, 'h, 'c) reactor" where
  "settle act run r = (case loop_thread act run r of None \<Rightarrow> r | Some r' \<Rightarrow> settle act run r')"
  by pat_completeness auto
termination
  by (relation "inv_image (less_than <*lex*> less_than) (\<lambda>(act, run, r). rank r)")
    (simp add: wf_inv_image wf_lex_prod, simp add: loop_thread_rank del: rank.simps)

declare settle.simps [simp del]

lemma settle_at_rest: "loop_thread act run (settle act run r) = None"
proof (induction act run r rule: settle.induct)
  case (1 act run r)
  then show ?case by (cases "loop_thread act run r") (simp_all add: settle.simps [of act run r])
qed

lemma settle_inv:
  "(\<And>r r'. loop_thread act run r = Some r' \<Longrightarrow> P r \<Longrightarrow> P r') \<Longrightarrow> P r \<Longrightarrow> P (settle act run r)"
proof (induction act run r rule: settle.induct)
  case (1 act run r)
  then show ?case by (cases "loop_thread act run r") (simp_all add: settle.simps [of act run r])
qed

lemma settle_steps: "(reactor_step act run)\<^sup>*\<^sup>* r (settle act run r)"
proof (induction act run r rule: settle.induct)
  case (1 act run r)
  show ?case
  proof (cases "loop_thread act run r")
    case None
    then show ?thesis by (simp add: settle.simps [of act run r])
  next
    case (Some r')
    with 1 have "(reactor_step act run)\<^sup>*\<^sup>* r' (settle act run r)" by (simp add: settle.simps [of act run r])
    with loop_step [OF Some] show ?thesis by (rule converse_rtranclp_into_rtranclp)
  qed
qed

lemma at_rest_place: "loop_thread act run r = None \<longleftrightarrow> place r \<in> {NotRunning, InWait, Returned} \<or> (\<exists>err. place r = Crashed err)"
  by (auto simp: loop_thread.simps split: place.splits list.splits prod.splits if_splits)

subsection \<open>What handlers and callbacks keep\<close>

text \<open>
  Code that runs on the loop's thread may register and unregister descriptors, stop the loop and post
  callbacks, and nothing else: \<open>RunInLoop\<close> writes to the \<open>eventfd\<close> before it returns.
\<close>

definition loop_ok :: "('h, 'c) event_loop \<Rightarrow> bool" where
  "loop_ok l \<longleftrightarrow> interest l (wakeup_fd l) \<noteq> None \<and> handlers l (wakeup_fd l) = None"

lemma loop_ok_update [simp]:
  "loop_ok (l\<lparr>running := b\<rparr>) = loop_ok l" "loop_ok (l\<lparr>wakeup := k\<rparr>) = loop_ok l"
  "loop_ok (l\<lparr>pending_callbacks := cs\<rparr>) = loop_ok l" "loop_ok (l\<lparr>posted := cs\<rparr>) = loop_ok l"
  "loop_ok (l\<lparr>started := cs\<rparr>) = loop_ok l"
  by (simp_all add: loop_ok_def)

definition posts_only :: "('h, 'c) event_loop \<Rightarrow> ('h, 'c) event_loop \<Rightarrow> bool" where
  "posts_only l l' \<longleftrightarrow>
     wakeup_fd l' = wakeup_fd l \<and> (loop_ok l \<longrightarrow> loop_ok l') \<and>
     (running l' \<longrightarrow> running l) \<and> started l' = started l \<and> wakeup l \<le> wakeup l' \<and>
     (\<exists>cs. pending_callbacks l' = pending_callbacks l @ cs \<and> posted l' = posted l @ cs \<and> (cs \<noteq> [] \<longrightarrow> 0 < wakeup l'))"

lemma posts_only_refl [simp, intro]: "posts_only l l"
  by (simp add: posts_only_def)

lemma posts_only_trans: "posts_only l l' \<Longrightarrow> posts_only l' l'' \<Longrightarrow> posts_only l l''"
  unfolding posts_only_def by (elim conjE exE) (intro conjI, auto)

lemma posts_only_operations:
  "posts_only l (RunInLoop c l)" "posts_only l (StopLoop l)"
  "n \<noteq> wakeup_fd l \<Longrightarrow> posts_only l (Unregister n l)" "n \<noteq> wakeup_fd l \<Longrightarrow> posts_only l (UpdateEvents n ev l)"
  "loop_ok l \<Longrightarrow> Register n h ev l = Inr l' \<Longrightarrow> posts_only l l'"
  by (auto simp: posts_only_def loop_ok_def RunInLoop_def StopLoop_def eventfd_write_def push_callback_def Unregister_def UpdateEvents_def
      Register_def split: if_splits)

locale loop_code =
  fixes act :: "('e, 'h, 'c) handler_code"
    and run :: "('h, 'c) callback_code"
  assumes act_posts: "loop_ok l \<Longrightarrow> n \<noteq> wakeup_fd l \<Longrightarrow> act m e n l = Inr l' \<Longrightarrow> posts_only l l'"
    and run_posts: "loop_ok l \<Longrightarrow> run c l = Inr l' \<Longrightarrow> posts_only l l'"
begin

lemma dispatch_posts:
  assumes "loop_ok l" and "n \<noteq> wakeup_fd l" and "dispatch_event act (n, ev, e) l = Inr l'"
  shows "posts_only l l'"
proof (cases "handlers l n")
  case None
  with assms show ?thesis by simp
next
  case (Some kh)
  show ?thesis
  proof (cases "ev AND (EPOLLERR OR EPOLLHUP OR EPOLLRDHUP) = 0")
    case False
    with assms Some act_posts show ?thesis by (cases kh) auto
  next
    case True
    with assms Some obtain l1 where l1: "(if ev AND EPOLLIN \<noteq> 0 then act CallRead e n l else Inr l) = Inr l1"
      "l' = l1 \<or> act CallWrite e n l1 = Inr l'"
      by (cases kh) (auto split: sum.splits if_splits)
    from l1(1) have p1: "posts_only l l1" using act_posts [OF assms(1,2)] by (auto split: if_splits)
    then have "loop_ok l1" "n \<noteq> wakeup_fd l1" using assms by (simp_all add: posts_only_def)
    with l1(2) have "posts_only l1 l'" using act_posts by blast
    with p1 show ?thesis by (rule posts_only_trans)
  qed
qed

end

subsection \<open>No callback is lost\<close>

text \<open>
  Every callback that was posted has been started, is in the hands of the loop's thread, or waits in the
  queue, in this order; a callback in the queue is never forgotten, and neither is a \<open>Stop\<close>: the
  \<open>eventfd\<close> is readable, or somebody is about to write to it.
\<close>

fun in_hand :: "('e, 'c) place \<Rightarrow> 'c list" where
  "in_hand (InCallbacks cs es) = cs"
| "in_hand _ = []"

fun crashed :: "('e, 'c) place \<Rightarrow> bool" where
  "crashed (Crashed err) = True"
| "crashed _ = False"

fun taking :: "('e, 'c) place \<Rightarrow> bool" where
  "taking (WakeupRead es) = True"
| "taking _ = False"

definition reactor_ok :: "('e, 'h, 'c) reactor \<Rightarrow> bool" where
  "reactor_ok r \<longleftrightarrow>
     loop_ok (lp r) \<and>
     (crashed (place r) \<or>
        posted (lp r) = started (lp r) @ in_hand (place r) @ pending_callbacks (lp r) \<and>
        (pending_callbacks (lp r) \<noteq> [] \<longrightarrow> 0 < wakeup (lp r) \<or> 0 < writers r \<or> taking (place r))) \<and>
     prefix (started (lp r)) (posted (lp r)) \<and>
     (place r = InWait \<and> \<not> running (lp r) \<longrightarrow> 0 < wakeup (lp r) \<or> 0 < writers r)"

lemma new_reactor_ok: "reactor_ok (new_reactor w)"
  by (simp add: reactor_ok_def loop_ok_def new_reactor_def new_loop_def)

lemma after_code_ok:
  assumes "reactor_ok r" and "\<not> crashed (place r)" and "\<not> taking (place r)" and "pl \<noteq> InWait"
    and "in_hand (place r) = cs @ in_hand pl" and "\<And>l. res = Inr l \<Longrightarrow> posts_only ((lp r)\<lparr>started := started (lp r) @ cs\<rparr>) l"
  shows "reactor_ok (after_code r pl res)"
proof (cases res)
  case (Inl err)
  with assms(1) show ?thesis by (simp add: after_code_def reactor_ok_def)
next
  case (Inr l)
  then obtain ds where "posts_only ((lp r)\<lparr>started := started (lp r) @ cs\<rparr>) l"
    "pending_callbacks l = pending_callbacks (lp r) @ ds" "posted l = posted (lp r) @ ds" "ds \<noteq> [] \<longrightarrow> 0 < wakeup l"
    using assms(6) by (auto simp: posts_only_def)
  then show ?thesis using assms(1-5) Inr by (auto simp: after_code_def reactor_ok_def posts_only_def)
qed

context loop_code begin

lemma loop_thread_ok:
  assumes "reactor_ok r" and "loop_thread act run r = Some r'"
  shows "reactor_ok r'"
proof (cases "place r")
  case (InBatch es)
  show ?thesis
  proof (cases es)
    case Nil
    with InBatch assms show ?thesis by (auto simp: loop_thread.simps reactor_ok_def)
  next
    case (Cons ev es')
    obtain n m e where ev: "ev = (n, m, e)" by (cases ev)
    show ?thesis
    proof (cases "n = wakeup_fd (lp r)")
      case True
      with InBatch Cons ev assms show ?thesis by (auto simp: loop_thread.simps reactor_ok_def)
    next
      case False
      have "posts_only (lp r) l" if "dispatch_event act (n, m, e) (lp r) = Inr l" for l
        using assms(1) by (intro dispatch_posts [OF _ False that]) (simp add: reactor_ok_def)
      then have "reactor_ok (after_code r (InBatch es') (dispatch_event act (n, m, e) (lp r)))"
        using assms(1) InBatch by (intro after_code_ok [where cs = "[]"]) simp_all
      with False InBatch Cons ev assms(2) show ?thesis by (simp add: loop_thread.simps)
    qed
  qed
next
  case (InCallbacks cs es)
  show ?thesis
  proof (cases cs)
    case Nil
    with InCallbacks assms show ?thesis by (auto simp: loop_thread.simps reactor_ok_def)
  next
    case (Cons c cs')
    have "posts_only ((lp r)\<lparr>started := started (lp r) @ [c]\<rparr>) l" if "run c ((lp r)\<lparr>started := started (lp r) @ [c]\<rparr>) = Inr l" for l
      using assms(1) by (intro run_posts [OF _ that]) (simp add: reactor_ok_def)
    then have "reactor_ok (after_code r (InCallbacks cs' es) (run c ((lp r)\<lparr>started := started (lp r) @ [c]\<rparr>)))"
      using assms(1) InCallbacks Cons by (intro after_code_ok [where cs = "[c]"]) simp_all
    with InCallbacks Cons assms(2) show ?thesis by (simp add: loop_thread.simps)
  qed
qed (use assms in \<open>auto simp: loop_thread.simps reactor_ok_def split: if_splits\<close>)

lemma reactor_step_ok: "reactor_step act run r r' \<Longrightarrow> reactor_ok r \<Longrightarrow> reactor_ok r'"
proof (induction rule: reactor_step.induct)
  case (post_push r c)
  then show ?case by (cases "place r") (auto simp: reactor_ok_def push_callback_def)
next
  case (loop_step r r')
  then show ?case by (blast intro: loop_thread_ok)
qed (auto simp: reactor_ok_def Run_def eventfd_write_def)

end

sublocale loop_code \<subseteq> reactor: step_invariant "\<lambda>r. r = new_reactor w" "reactor_step act run" reactor_ok
  by unfold_locales (simp add: new_reactor_ok, rule reactor_step_ok)

subsection \<open>From one wait to the next\<close>

text \<open>A batch that holds the \<open>eventfd\<close> starts what was posted before it.\<close>

definition wakes :: "('e, 'h, 'c) reactor \<Rightarrow> 'e epoll_event list \<Rightarrow> bool" where
  "wakes r es \<longleftrightarrow> list_ex (\<lambda>ev. fst ev = wakeup_fd (lp r)) es"

fun will_start :: "'c list \<Rightarrow> ('e, 'h, 'c) reactor \<Rightarrow> bool" where
  "will_start cs r =
     (case place r of
        InBatch es \<Rightarrow> wakes r es \<or> prefix cs (started (lp r))
      | WakeupRead es \<Rightarrow> True
      | InCallbacks ds es \<Rightarrow> prefix cs (started (lp r) @ ds)
      | Crashed err \<Rightarrow> True
      | _ \<Rightarrow> prefix cs (started (lp r)))"

declare will_start.simps [simp del]

context loop_code begin

lemma after_code_starts:
  assumes "\<And>l. res = Inr l \<Longrightarrow> posts_only ((lp r)\<lparr>started := started (lp r) @ ds\<rparr>) l"
    and "prefix cs (posted (lp r))" and "will_start cs (r\<lparr>lp := (lp r)\<lparr>started := started (lp r) @ ds\<rparr>, place := pl\<rparr>)"
  shows "prefix cs (posted (lp (after_code r pl res))) \<and> will_start cs (after_code r pl res)"
proof (cases res)
  case (Inl err)
  with assms(2) show ?thesis by (simp add: after_code_def will_start.simps)
next
  case (Inr l)
  with assms show ?thesis
    by (cases pl) (auto simp: after_code_def will_start.simps posts_only_def wakes_def prefix_def)
qed

lemma loop_thread_starts:
  assumes "loop_thread act run r = Some r'" and "reactor_ok r" and "prefix cs (posted (lp r))" and "will_start cs r"
  shows "prefix cs (posted (lp r')) \<and> will_start cs r'"
proof (cases "place r")
  case (InBatch es)
  show ?thesis
  proof (cases es)
    case Nil
    with InBatch assms show ?thesis by (auto simp: loop_thread.simps will_start.simps wakes_def)
  next
    case (Cons ev es')
    obtain n m e where ev: "ev = (n, m, e)" by (cases ev)
    show ?thesis
    proof (cases "n = wakeup_fd (lp r)")
      case True
      with InBatch Cons ev assms show ?thesis by (auto simp: loop_thread.simps will_start.simps)
    next
      case False
      have "posts_only (lp r) l" if "dispatch_event act (n, m, e) (lp r) = Inr l" for l
        using assms(2) by (intro dispatch_posts [OF _ False that]) (simp add: reactor_ok_def)
      then have "prefix cs (posted (lp (after_code r (InBatch es') (dispatch_event act (n, m, e) (lp r))))) \<and>
          will_start cs (after_code r (InBatch es') (dispatch_event act (n, m, e) (lp r)))"
        using assms(3,4) InBatch Cons ev False by (intro after_code_starts [where ds = "[]"]) (auto simp: will_start.simps wakes_def)
      with False InBatch Cons ev assms(1) show ?thesis by (simp add: loop_thread.simps)
    qed
  qed
next
  case (InCallbacks cs' es)
  show ?thesis
  proof (cases cs')
    case Nil
    with InCallbacks assms show ?thesis by (auto simp: loop_thread.simps will_start.simps)
  next
    case (Cons c ds)
    let ?l = "(lp r)\<lparr>started := started (lp r) @ [c]\<rparr>"
    have "posts_only ?l l" if "run c ?l = Inr l" for l
      using assms(2) by (intro run_posts [OF _ that]) (simp add: reactor_ok_def)
    then have "prefix cs (posted (lp (after_code r (InCallbacks ds es) (run c ?l)))) \<and> will_start cs (after_code r (InCallbacks ds es) (run c ?l))"
      using assms(3,4) InCallbacks Cons by (intro after_code_starts [where ds = "[c]"]) (auto simp: will_start.simps)
    with InCallbacks Cons assms(1) show ?thesis by (simp add: loop_thread.simps)
  qed
next
  case (WakeupRead es)
  with assms show ?thesis by (auto simp: loop_thread.simps will_start.simps reactor_ok_def)
qed (use assms in \<open>auto simp: loop_thread.simps will_start.simps\<close>)

lemma settle_starts:
  assumes "reactor_ok r" and "prefix cs (posted (lp r))" and "will_start cs r"
  shows "prefix cs (posted (lp (settle act run r))) \<and> will_start cs (settle act run r)"
proof -
  let ?P = "\<lambda>r. reactor_ok r \<and> prefix cs (posted (lp r)) \<and> will_start cs r"
  have "?P (settle act run r)"
    by (rule settle_inv [of act run ?P]) (use assms loop_thread_ok loop_thread_starts in blast)+
  then show ?thesis by blast
qed

lemma batch_starts:
  assumes "reactor_ok r" and "place r = InWait" and "wakes r es"
  defines "r' \<equiv> settle act run (r\<lparr>place := InBatch es\<rparr>)"
  shows "crashed (place r') \<or> place r' \<in> {InWait, Returned} \<and> prefix (posted (lp r)) (started (lp r'))"
proof -
  have "reactor_ok (r\<lparr>place := InBatch es\<rparr>)" using assms(1,2) by (simp add: reactor_ok_def)
  moreover have "will_start (posted (lp r)) (r\<lparr>place := InBatch es\<rparr>)" using assms(3) by (simp add: will_start.simps wakes_def)
  ultimately have "will_start (posted (lp r)) r'" using settle_starts unfolding r'_def by simp
  moreover have "place r' \<noteq> NotRunning"
    unfolding r'_def by (rule settle_inv [of act run "\<lambda>r. place r \<noteq> NotRunning"])
      (auto simp: loop_thread.simps after_code_def split: place.splits list.splits sum.splits if_splits prod.splits)
  moreover have "loop_thread act run r' = None" unfolding r'_def by (rule settle_at_rest)
  ultimately show ?thesis by (auto simp: at_rest_place will_start.simps)
qed

lemma after_code_stopped:
  "\<not> running (lp r) \<Longrightarrow> (\<And>l. res = Inr l \<Longrightarrow> posts_only ((lp r)\<lparr>started := cs\<rparr>) l) \<Longrightarrow> \<not> running (lp (after_code r pl res))"
  by (cases res) (auto simp: after_code_def posts_only_def)

lemma loop_thread_stopped:
  assumes "loop_thread act run r = Some r'" and "reactor_ok r" and "\<not> running (lp r)"
  shows "\<not> running (lp r') \<and> place r' \<notin> {InWait, NotRunning}"
proof -
  have w: "loop_ok (lp r)" using assms(2) by (simp add: reactor_ok_def)
  have d: "\<not> running (lp (after_code r (InBatch es) (dispatch_event act (n, m, e) (lp r))))" if "n \<noteq> wakeup_fd (lp r)" for n m e es
    using dispatch_posts [OF w that] assms(3)
    by (intro after_code_stopped [where cs = "started (lp r)"]) (simp_all del: dispatch_event.simps)
  have c: "\<not> running (lp (after_code r (InCallbacks cs es) (run c ((lp r)\<lparr>started := started (lp r) @ [c]\<rparr>))))" for c cs es
    using w assms(3) by (intro after_code_stopped [where cs = "started (lp r) @ [c]"]) (auto intro!: run_posts)
  have "place (after_code r pl res) \<noteq> InWait" "place (after_code r pl res) \<noteq> NotRunning"
    if "pl \<noteq> InWait" "pl \<noteq> NotRunning" for pl res using that by (cases res, auto simp: after_code_def)+
  with assms d c show ?thesis
    by (auto simp: loop_thread.simps simp del: dispatch_event.simps split: place.splits list.splits prod.splits if_splits)
qed

lemma batch_after_stop:
  assumes "reactor_ok r" and "place r = InWait" and "\<not> running (lp r)"
  shows "crashed (place (settle act run (r\<lparr>place := InBatch es\<rparr>))) \<or> place (settle act run (r\<lparr>place := InBatch es\<rparr>)) = Returned"
proof -
  let ?P = "\<lambda>r. reactor_ok r \<and> \<not> running (lp r) \<and> place r \<notin> {InWait, NotRunning}"
  have step: "?P r'" if "loop_thread act run r = Some r'" "?P r" for r r'
    using that loop_thread_stopped [OF that(1)] loop_thread_ok [OF _ that(1)] by blast
  have "?P (r\<lparr>place := InBatch es\<rparr>)" using assms by (simp add: reactor_ok_def)
  from settle_inv [of act run ?P, OF step this] settle_at_rest [of act run "r\<lparr>place := InBatch es\<rparr>"]
  show ?thesis by (auto simp: at_rest_place)
qed

end

end
