(* ===== verification/Connection_Loop.thy ===== *)
theory Connection_Loop
  imports Event_Loop Stream_Connection
begin

text \<open>
  The handlers the servers put on the event loop: \<open>Acceptor::OnRead\<close> of
  \<open>src/acceptor.cpp\<close> and the methods of \<open>Connection\<close> with their calls of the loop, and
  a posted callback of the kind the game server posts: an answer for a connection that may have gone
  in the meantime. Every event carries what the system calls of its handler answer. The frame
  callback is the program's default, which only prints.
\<close>

subsection \<open>Handlers\<close>

datatype accept_result = Accepted int | AcceptAgain | AcceptIntr | AcceptError

record socket_answers =
  accepts :: "accept_result list"
  recvs :: "recv_result list"
  sends :: "send_result list"

datatype loop_object = Listening | Conn connection

datatype loop_callback = Respond int bytes send_result

type_synonym server_loop = "(loop_object, loop_callback) event_loop"

text \<open>The mask of a connection's last \<open>Register\<close> or \<open>UpdateEvents\<close>.\<close>

definition conn_mask :: "connection \<Rightarrow> u32" where
  "conn_mask c = (if want_write c then EPOLLIN OR EPOLLRDHUP OR EPOLLOUT OR EPOLLET else EPOLLIN OR EPOLLRDHUP OR EPOLLET)"

text \<open>The loop of \<open>Acceptor::OnRead\<close>; an exception of \<open>Register\<close> leaves it.\<close>

fun accept_loop :: "accept_result list \<Rightarrow> server_loop \<Rightarrow> loop_error + server_loop" where
  "accept_loop [] l = Inr l"
| "accept_loop (Accepted n # rs) l =
     (case Register n (Conn (new_connection n)) (EPOLLIN OR EPOLLRDHUP OR EPOLLET) l of
        Inl err \<Rightarrow> Inl err
      | Inr l' \<Rightarrow> accept_loop rs l')"
| "accept_loop (AcceptAgain # rs) l = Inr l"
| "accept_loop (AcceptIntr # rs) l = accept_loop rs l"
| "accept_loop (AcceptError # rs) l = Inr l"

text \<open>A method of a connection ran: it is still there, or it has unregistered itself.\<close>

definition store_conn :: "int \<Rightarrow> nat \<Rightarrow> connection \<Rightarrow> server_loop \<Rightarrow> server_loop" where
  "store_conn n k c l =
     (if registered c then UpdateEvents n (conn_mask c) (l\<lparr>handlers := (handlers l)(n \<mapsto> (k, Conn c))\<rparr>)
      else Unregister n l)"

fun conn_method :: "call \<Rightarrow> socket_answers \<Rightarrow> connection \<Rightarrow> connection" where
  "conn_method CallRead e c = OnRead (recvs e) c"
| "conn_method CallWrite e c = OnWrite (sends e) c"
| "conn_method CallClose e c = OnClose c"

definition loop_handler :: "(socket_answers, loop_object, loop_callback) handler_code" where
  "loop_handler m e n l =
     (case handlers l n of
        None \<Rightarrow> Inr l
      | Some (k, Listening) \<Rightarrow> (if m = CallRead then accept_loop (accepts e) l else Inr l)
      | Some (k, Conn c) \<Rightarrow> Inr (store_conn n k (conn_method m e c) l))"

fun run_callback :: "(loop_object, loop_callback) callback_code" where
  "run_callback (Respond n data r) l =
     (case handlers l n of
        Some (k, Conn c) \<Rightarrow> Inr (store_conn n k (Send r data c) l)
      | _ \<Rightarrow> Inr l)"

lemma Register_posts: "Register n h ev l = Inr l' \<Longrightarrow> loop_ok l \<Longrightarrow> posts_only l l' \<and> loop_ok l'"
  by (auto simp: Register_def posts_only_def loop_ok_def split: if_splits)

lemma accept_posts: "accept_loop rs l = Inr l' \<Longrightarrow> loop_ok l \<Longrightarrow> posts_only l l'"
proof (induction rs l rule: accept_loop.induct)
  case (2 n rs l)
  then obtain l1 where l1: "Register n (Conn (new_connection n)) (EPOLLIN OR EPOLLRDHUP OR EPOLLET) l = Inr l1"
    "accept_loop rs l1 = Inr l'" by (auto split: sum.splits)
  from Register_posts [OF l1(1) 2(3)] 2(1) [OF l1] show ?case by (blast intro: posts_only_trans)
qed simp_all

lemma store_posts: "n \<noteq> wakeup_fd l \<Longrightarrow> posts_only l (store_conn n k c l)"
  by (auto simp: store_conn_def posts_only_def loop_ok_def UpdateEvents_def Unregister_def)

lemma handler_posts:
  assumes "loop_ok l" and "n \<noteq> wakeup_fd l" and "loop_handler m e n l = Inr l'"
  shows "posts_only l l'"
proof (cases "handlers l n")
  case None
  with assms show ?thesis by (simp add: loop_handler_def)
next
  case (Some kh)
  then show ?thesis
  proof (cases "snd kh")
    case Listening
    with Some assms accept_posts show ?thesis by (cases kh) (auto simp: loop_handler_def split: if_splits)
  next
    case (Conn c)
    with Some assms have "l' = store_conn n (fst kh) (conn_method m e c) l" by (cases kh) (simp add: loop_handler_def)
    with assms(2) show ?thesis by (simp add: store_posts)
  qed
qed

lemma callback_posts:
  assumes "loop_ok l" and "run_callback c l = Inr l'"
  shows "posts_only l l'"
proof (cases c)
  case (Respond n data r)
  show ?thesis
  proof (cases "handlers l n")
    case None
    with assms Respond show ?thesis by simp
  next
    case (Some kh)
    with assms(1) have "n \<noteq> wakeup_fd l" by (auto simp: loop_ok_def)
    with assms(2) Respond Some show ?thesis by (cases kh; cases "snd kh") (auto simp: store_posts)
  qed
qed

interpretation server_code: loop_code loop_handler run_callback
  by unfold_locales (rule handler_posts, assumption+, rule callback_posts)

subsection \<open>The descriptor table\<close>

text \<open>
  A connection sits in the table under its own descriptor, is watched with the mask it asked for last,
  and waits to be writable whenever it holds bytes to send; objects have their own numbers.
\<close>

fun handler_ok :: "u32 option \<Rightarrow> int \<Rightarrow> loop_object \<Rightarrow> bool" where
  "handler_ok m n Listening = (m \<noteq> None)"
| "handler_ok m n (Conn c) = (m = Some (conn_mask c) \<and> fd c = n \<and> registered c \<and> conn_inv c)"

definition descriptors_ok :: "server_loop \<Rightarrow> bool" where
  "descriptors_ok l \<longleftrightarrow>
     (\<forall>n k h. handlers l n = Some (k, h) \<longrightarrow> k < next_object l \<and> handler_ok (interest l n) n h) \<and>
     (\<forall>n n' k h h'. handlers l n = Some (k, h) \<and> handlers l n' = Some (k, h') \<longrightarrow> n = n')"

lemma conn_mask_new: "conn_mask (new_connection n) = EPOLLIN OR EPOLLRDHUP OR EPOLLET"
  by (simp add: conn_mask_def new_connection_def)

lemma descriptors_okD: "descriptors_ok l \<Longrightarrow> handlers l n = Some (k, h) \<Longrightarrow> k < next_object l \<and> handler_ok (interest l n) n h"
  by (auto simp: descriptors_ok_def)

lemma Register_table:
  assumes "descriptors_ok l" and "handler_ok (Some ev) n h" and "Register n h ev l = Inr l'"
  shows "descriptors_ok l'"
proof -
  have l': "l' = l\<lparr>interest := (interest l)(n \<mapsto> ev), handlers := (handlers l)(n \<mapsto> (next_object l, h)), next_object := next_object l + 1\<rparr>"
    using assms(3) by (auto simp: Register_def split: if_splits)
  have "k < next_object l" if "handlers l m = Some (k, h')" for m k h' using descriptors_okD [OF assms(1) that] by simp
  then show ?thesis using assms(1,2) unfolding l' descriptors_ok_def by (auto simp: less_Suc_eq)
qed

lemma Unregister_table: "descriptors_ok l \<Longrightarrow> descriptors_ok (Unregister n l)"
  by (auto simp: descriptors_ok_def Unregister_def)

lemma store_table:
  assumes "descriptors_ok l" and "handlers l n = Some (k, Conn c)" and "registered c' \<Longrightarrow> fd c' = fd c \<and> conn_inv c'"
  shows "descriptors_ok (store_conn n k c' l)"
proof (cases "registered c'")
  case False
  with assms(1) show ?thesis by (simp add: store_conn_def Unregister_table)
next
  case True
  have "handler_ok (interest l n) n (Conn c)" "k < next_object l" using descriptors_okD [OF assms(1,2)] by simp_all
  with True assms show ?thesis
    by (auto simp: store_conn_def UpdateEvents_def descriptors_ok_def)
qed

lemma recv_loop_fd: "recv_loop rs c = (True, c') \<Longrightarrow> fd c' = fd c"
  by (induction rs c rule: recv_loop.induct) auto

lemma OnRead_fd: "registered (OnRead rs c) \<Longrightarrow> fd (OnRead rs c) = fd c"
proof (cases "recv_loop rs c")
  case (Pair ok c1)
  assume r: "registered (OnRead rs c)"
  show ?thesis
  proof (cases ok)
    case True
    with Pair recv_loop_fd [of rs c c1] show ?thesis by (simp add: OnRead_def split: prod.splits)
  next
    case False
    then have "registered c1 = False" using recv_loop_writes [OF Pair] by simp
    with r False Pair show ?thesis by (simp add: OnRead_def)
  qed
qed

lemma OnWrite_keeps: "conn_inv c \<Longrightarrow> registered (OnWrite rs c) \<Longrightarrow> fd (OnWrite rs c) = fd c \<and> conn_inv (OnWrite rs c)"
proof (induction rs c rule: OnWrite.induct)
  case (1 c)
  then show ?case by simp
next
  case (2 r rs c)
  show ?case
  proof (cases "write_buffer c = []")
    case True
    with 2 show ?thesis by simp
  next
    case ne: False
    show ?thesis
    proof (cases r)
      case (Sent n)
      define c1 where "c1 = c\<lparr>wire_out := wire_out c @ take n (drop (write_offset c) (write_buffer c)),
                              write_offset := write_offset c + n\<rparr>"
      consider "n = 0" | "0 < n" "length (write_buffer c1) \<le> write_offset c1" | "0 < n" "write_offset c1 < length (write_buffer c1)"
        by linarith
      then show ?thesis
      proof cases
        case 3
        then have eq: "OnWrite (r # rs) c = OnWrite rs c1" using ne Sent by (simp add: c1_def)
        have "conn_inv c1" using 3 2(2) ne by (simp add: conn_inv_def c1_def)
        with "2.IH" [OF ne Sent _ c1_def] 3 2(3) show ?thesis unfolding eq by (simp add: c1_def)
      qed (use 2 ne Sent in \<open>simp_all add: c1_def conn_inv_def\<close>)
    qed (use 2 ne in simp_all)
  qed
qed

lemma method_keeps: "conn_inv c \<Longrightarrow> registered (conn_method m e c) \<Longrightarrow> fd (conn_method m e c) = fd c \<and> conn_inv (conn_method m e c)"
proof (cases m)
  case CallRead
  assume c: "conn_inv c" and r: "registered (conn_method m e c)"
  have "fd (OnRead (recvs e) c) = fd c" using r CallRead by (intro OnRead_fd) simp
  moreover have "conn_inv (OnRead (recvs e) c)" using OnRead_writes [of "recvs e" c] c by blast
  ultimately show ?thesis by (simp only: CallRead conn_method.simps)
next
  case CallWrite
  assume "conn_inv c" and "registered (conn_method m e c)"
  then show ?thesis unfolding CallWrite conn_method.simps by (rule OnWrite_keeps)
next
  case CallClose
  assume "registered (conn_method m e c)"
  then show ?thesis by (simp add: CallClose)
qed

lemma Send_keeps: "conn_inv c \<Longrightarrow> registered (Send r data c) = registered c \<and> fd (Send r data c) = fd c \<and> conn_inv (Send r data c)"
  by (cases r) (auto simp: Send_def conn_inv_def)

lemma accept_table: "accept_loop rs l = Inr l' \<Longrightarrow> descriptors_ok l \<Longrightarrow> descriptors_ok l'"
proof (induction rs l rule: accept_loop.induct)
  case (2 n rs l)
  then obtain l1 where l1: "Register n (Conn (new_connection n)) (EPOLLIN OR EPOLLRDHUP OR EPOLLET) l = Inr l1"
    "accept_loop rs l1 = Inr l'" by (auto split: sum.splits)
  have "handler_ok (Some (EPOLLIN OR EPOLLRDHUP OR EPOLLET)) n (Conn (new_connection n))"
    by (simp add: conn_mask_new) (simp add: new_connection_def)
  from 2(1) [OF l1 Register_table [OF 2(3) this l1(1)]] show ?case .
qed simp_all

lemma handler_table:
  assumes "descriptors_ok l" and "loop_handler m e n l = Inr l'"
  shows "descriptors_ok l'"
proof (cases "handlers l n")
  case None
  with assms show ?thesis by (simp add: loop_handler_def)
next
  case (Some kh)
  then obtain k h where kh: "handlers l n = Some (k, h)" by (cases kh) simp
  show ?thesis
  proof (cases h)
    case Listening
    with kh assms accept_table show ?thesis by (auto simp: loop_handler_def split: if_splits)
  next
    case (Conn c)
    with kh assms have l': "l' = store_conn n k (conn_method m e c) l" by (simp add: loop_handler_def)
    have "conn_inv c" using descriptors_okD [OF assms(1) kh] Conn by simp
    then show ?thesis unfolding l' using kh Conn by (intro store_table [OF assms(1), where c = c] method_keeps) simp_all
  qed
qed

lemma dispatch_table:
  assumes "descriptors_ok l" and "dispatch_event loop_handler ev l = Inr l'"
  shows "descriptors_ok l'"
proof -
  obtain n m e where ev: "ev = (n, m, e)" by (cases ev)
  show ?thesis
  proof (cases "handlers l n")
    case None
    with assms ev show ?thesis by simp
  next
    case (Some kh)
    show ?thesis
    proof (cases "m AND (EPOLLERR OR EPOLLHUP OR EPOLLRDHUP) = 0")
      case False
      with assms Some ev handler_table show ?thesis by (cases kh) auto
    next
      case True
      with assms Some ev obtain l1 where l1: "(if m AND EPOLLIN \<noteq> 0 then loop_handler CallRead e n l else Inr l) = Inr l1"
        "l' = l1 \<or> loop_handler CallWrite e n l1 = Inr l'"
        by (cases kh) (auto split: sum.splits if_splits)
      from l1(1) have "descriptors_ok l1" using assms(1) handler_table by (auto split: if_splits)
      with l1(2) handler_table show ?thesis by blast
    qed
  qed
qed

lemma callback_table:
  assumes "descriptors_ok l" and "run_callback c l = Inr l'"
  shows "descriptors_ok l'"
proof (cases c)
  case (Respond n data r)
  show ?thesis
  proof (cases "handlers l n")
    case None
    with assms Respond show ?thesis by simp
  next
    case (Some kh)
    then obtain k h where kh: "handlers l n = Some (k, h)" by (cases kh) simp
    show ?thesis
    proof (cases h)
      case Listening
      with assms kh Respond show ?thesis by simp
    next
      case (Conn d)
      with assms kh Respond have l': "l' = store_conn n k (Send r data d) l" by simp
      have "conn_inv d" using descriptors_okD [OF assms(1) kh] Conn by simp
      then show ?thesis unfolding l' using kh Conn Send_keeps by (intro store_table [OF assms(1), where c = d]) simp_all
    qed
  qed
qed

lemma descriptors_ok_update [simp]:
  "descriptors_ok (l\<lparr>running := b\<rparr>) = descriptors_ok l" "descriptors_ok (l\<lparr>wakeup := w\<rparr>) = descriptors_ok l"
  "descriptors_ok (l\<lparr>pending_callbacks := cs\<rparr>) = descriptors_ok l" "descriptors_ok (l\<lparr>posted := cs\<rparr>) = descriptors_ok l"
  "descriptors_ok (l\<lparr>started := cs\<rparr>) = descriptors_ok l"
  by (simp_all add: descriptors_ok_def)

lemma after_code_table:
  "descriptors_ok (lp r) \<Longrightarrow> (\<And>l. res = Inr l \<Longrightarrow> descriptors_ok l) \<Longrightarrow> descriptors_ok (lp (after_code r pl res))"
  by (cases res) (simp_all add: after_code_def)

lemma loop_thread_table:
  assumes "loop_thread loop_handler run_callback r = Some r'" and "descriptors_ok (lp r)"
  shows "descriptors_ok (lp r')"
proof -
  have code: "descriptors_ok (lp (after_code r pl res))" if "\<And>l. res = Inr l \<Longrightarrow> descriptors_ok l" for pl res
    by (rule after_code_table [OF assms(2) that])
  show ?thesis
  proof (cases "place r")
    case (InBatch es)
    show ?thesis
    proof (cases es)
      case Nil
      with InBatch assms show ?thesis by (auto simp: loop_thread.simps)
    next
      case (Cons ev es')
      show ?thesis
      proof (cases "fst ev = wakeup_fd (lp r)")
        case True
        with InBatch Cons assms show ?thesis by (cases ev) (auto simp: loop_thread.simps)
      next
        case False
        with InBatch Cons assms(1) have "r' = after_code r (InBatch es') (dispatch_event loop_handler ev (lp r))"
          by (cases ev) (simp add: loop_thread.simps)
        with code dispatch_table [OF assms(2)] show ?thesis by simp
      qed
    qed
  next
    case (InCallbacks cs es)
    show ?thesis
    proof (cases cs)
      case Nil
      with InCallbacks assms show ?thesis by (auto simp: loop_thread.simps)
    next
      case (Cons c ds)
      let ?l = "(lp r)\<lparr>started := started (lp r) @ [c]\<rparr>"
      have "r' = after_code r (InCallbacks ds es) (run_callback c ?l)"
        using InCallbacks Cons assms(1) by (simp add: loop_thread.simps)
      moreover have "descriptors_ok ?l" using assms(2) by simp
      ultimately show ?thesis using code callback_table by blast
    qed
  qed (use assms in \<open>auto simp: loop_thread.simps\<close>)
qed

lemma reactor_table: "reactor_step loop_handler run_callback r r' \<Longrightarrow> descriptors_ok (lp r) \<Longrightarrow> descriptors_ok (lp r')"
proof (induction rule: reactor_step.induct)
  case (loop_step r r')
  then show ?case by (rule loop_thread_table)
qed (simp_all add: Run_def push_callback_def eventfd_write_def)

text \<open>A server before \<open>Run\<close>: its acceptor is registered.\<close>

definition server_reactor :: "int \<Rightarrow> int \<Rightarrow> (socket_answers, loop_object, loop_callback) reactor" where
  "server_reactor w n =
     (case Register n Listening (EPOLLIN OR EPOLLRDHUP OR EPOLLET) (new_loop w) of
        Inl err \<Rightarrow> (new_reactor w)\<lparr>place := Crashed err\<rparr>
      | Inr l \<Rightarrow> (new_reactor w)\<lparr>lp := l\<rparr>)"

lemma server_reactor_ok: "reactor_ok (server_reactor w n) \<and> descriptors_ok (lp (server_reactor w n))"
  by (auto simp: server_reactor_def Register_def new_loop_def new_reactor_def reactor_ok_def loop_ok_def descriptors_ok_def split: if_splits)

interpretation conn_reactor: step_invariant "\<lambda>r. r = server_reactor w n" "reactor_step loop_handler run_callback"
  "\<lambda>r. reactor_ok r \<and> descriptors_ok (lp r)" for w n
  by unfold_locales (use server_reactor_ok server_code.reactor_step_ok reactor_table in blast)+

subsection \<open>Properties\<close>

text \<open>
  C14. However reads, writes, accepts, posted answers and hang-ups interleave, every connection on the
  loop sits under its own descriptor, is watched with the mask it asked for last, and is watched for
  writing whenever it holds unsent bytes; no two descriptors share a handler.
\<close>

theorem descriptor_table_consistent:
  assumes "(reactor_step loop_handler run_callback)\<^sup>*\<^sup>* (server_reactor w n) r"
  shows "(handlers (lp r) m = Some (k, Conn c) \<longrightarrow>
       fd c = m \<and> registered c \<and> interest (lp r) m = Some (conn_mask c) \<and>
       (pending_out c \<noteq> [] \<longrightarrow> conn_mask c AND EPOLLOUT \<noteq> 0)) \<and>
     (handlers (lp r) m = Some (k, h) \<and> handlers (lp r) m' = Some (k, h') \<longrightarrow> m = m')"
proof -
  have t: "descriptors_ok (lp r)" using conn_reactor.reachable_inv [OF refl assms] by blast
  have "pending_out c \<noteq> [] \<longrightarrow> conn_mask c AND EPOLLOUT \<noteq> 0" if "conn_inv c"
    using that by (auto simp: conn_inv_def pending_out_def conn_mask_def)
  with descriptors_okD [OF t, of m k "Conn c"] t show ?thesis by (auto simp: descriptors_ok_def)
qed

text \<open>A server that has accepted one connection, on descriptor 7, and waits.\<close>

definition demo_loop :: "(socket_answers, loop_object, loop_callback) reactor" where
  "demo_loop =
     (let r1 = settle loop_handler run_callback (Run (server_reactor 3 4))
      in settle loop_handler run_callback
           (r1\<lparr>place := InBatch [(4, EPOLLIN, \<lparr>accepts = [Accepted 7, AcceptAgain], recvs = [], sends = []\<rparr>)]\<rparr>))"

lemma settle_run:
  "n \<noteq> w \<Longrightarrow> settle loop_handler run_callback (Run (server_reactor w n)) = (Run (server_reactor w n))\<lparr>place := InWait\<rparr>"
  by (simp add: settle.simps loop_thread.simps Run_def server_reactor_def Register_def new_loop_def new_reactor_def)

lemma demo_loop_state:
  "place demo_loop = InWait" "handlers (lp demo_loop) 7 = Some (1, Conn (new_connection 7))" "running (lp demo_loop)"
  "wakeup_fd (lp demo_loop) = 3" "wakeup (lp demo_loop) = 0" "writers demo_loop = 0" "interest (lp demo_loop) 7 \<noteq> None"
  "pending_callbacks (lp demo_loop) = []" "posted (lp demo_loop) = []" "started (lp demo_loop) = []"
  unfolding demo_loop_def settle_run [of 4 3, simplified]
  by (simp_all add: settle.simps loop_thread.simps loop_handler_def after_code_def Run_def server_reactor_def Register_def
      new_loop_def new_reactor_def)

lemma demo_loop_steps: "(reactor_step loop_handler run_callback)\<^sup>*\<^sup>* (server_reactor 3 4) demo_loop"
proof -
  let ?s = "reactor_step loop_handler run_callback"
  let ?r1 = "(Run (server_reactor 3 4))\<lparr>place := InWait\<rparr>"
  let ?es = "[(4, EPOLLIN, \<lparr>accepts = [Accepted 7, AcceptAgain], recvs = [], sends = []\<rparr>)]"
  have "?s (server_reactor 3 4) (Run (server_reactor 3 4))"
    by (rule call_run) (simp add: server_reactor_def Register_def new_loop_def new_reactor_def)
  also have "?s\<^sup>*\<^sup>* \<dots> ?r1" using settle_steps [of loop_handler run_callback "Run (server_reactor 3 4)"] by (simp add: settle_run)
  also have "?s ?r1 (?r1\<lparr>place := InBatch ?es\<rparr>)"
    by (rule wait_events) (simp_all add: wait_ok_def Run_def server_reactor_def Register_def new_loop_def new_reactor_def)
  also have "?s\<^sup>*\<^sup>* \<dots> demo_loop"
    using settle_steps [of loop_handler run_callback "?r1\<lparr>place := InBatch ?es\<rparr>"] by (simp add: demo_loop_def settle_run Let_def)
  finally show ?thesis .
qed

theorem descriptor_table_consistent_witness:
  "fd (new_connection 7) = 7 \<and> registered (new_connection 7) \<and> interest (lp demo_loop) 7 = Some (conn_mask (new_connection 7))"
  using descriptor_table_consistent [OF demo_loop_steps, of 7 1 "new_connection 7"] demo_loop_state(2) by blast

text \<open>
  C13. A callback that was posted is run: the callbacks start in the order they were posted, and when the
  loop waits with callbacks in the queue and nobody is about to write, the \<open>eventfd\<close> is readable;
  the batch that reports it starts everything that was posted before, unless a handler crashes.
\<close>

theorem posted_callbacks_run:
  assumes "(reactor_step loop_handler run_callback)\<^sup>*\<^sup>* (server_reactor w n) r"
    and "place r = InWait" and "writers r = 0" and "pending_callbacks (lp r) \<noteq> []" and "wakes r es"
  defines "r' \<equiv> settle loop_handler run_callback (r\<lparr>place := InBatch es\<rparr>)"
  shows "prefix (started (lp r)) (posted (lp r)) \<and> 0 < wakeup (lp r) \<and>
    (crashed (place r') \<or> place r' \<in> {InWait, Returned} \<and> prefix (posted (lp r)) (started (lp r')))"
proof -
  have ok: "reactor_ok r" using conn_reactor.reachable_inv [OF refl assms(1)] by blast
  then have "prefix (started (lp r)) (posted (lp r)) \<and> 0 < wakeup (lp r)"
    using assms(2-4) by (auto simp: reactor_ok_def)
  with server_code.batch_starts [OF ok assms(2,5)] show ?thesis unfolding r'_def by blast
qed

theorem posted_callbacks_run_witness:
  "let r = demo_loop\<lparr>lp := RunInLoop (Respond 7 [1, 2] (Sent 2)) (lp demo_loop)\<rparr>;
       r' = settle loop_handler run_callback (r\<lparr>place := InBatch [(3, EPOLLIN, \<lparr>accepts = [], recvs = [], sends = []\<rparr>)]\<rparr>)
   in started (lp r) = [] \<and> 0 < wakeup (lp r) \<and> place r' = InWait \<and> prefix [Respond 7 [1, 2] (Sent 2)] (started (lp r'))"
proof -
  let ?s = "reactor_step loop_handler run_callback" and ?c = "Respond 7 [1, 2] (Sent 2)"
  define r where "r = demo_loop\<lparr>lp := RunInLoop ?c (lp demo_loop)\<rparr>"
  have r_eq: "r = demo_loop\<lparr>lp := RunInLoop ?c (lp demo_loop), writers := 0\<rparr>"
    by (rule reactor.equality) (simp_all add: r_def demo_loop_state)
  let ?d = "demo_loop\<lparr>lp := push_callback ?c (lp demo_loop), writers := writers demo_loop + 1\<rparr>"
  have "?s demo_loop ?d" by (rule post_push)
  moreover have "?s ?d r"
    using wake_write [of ?d 0 loop_handler run_callback] by (simp add: r_eq RunInLoop_def demo_loop_state)
  ultimately have "?s\<^sup>*\<^sup>* demo_loop r" by (meson converse_rtranclp_into_rtranclp r_into_rtranclp)
  with demo_loop_steps have steps: "?s\<^sup>*\<^sup>* (server_reactor 3 4) r" by (rule rtranclp_trans)
  let ?es = "[(3, EPOLLIN, \<lparr>accepts = [], recvs = [], sends = []\<rparr>)]"
  define r' where "r' = settle loop_handler run_callback (r\<lparr>place := InBatch ?es\<rparr>)"
  have r: "place r = InWait" "writers r = 0" "pending_callbacks (lp r) = [?c]" "posted (lp r) = [?c]" "started (lp r) = []" "wakes r ?es"
    by (simp_all add: r_def RunInLoop_def push_callback_def eventfd_write_def demo_loop_state wakes_def)
  have "place r' = InWait"
    by (simp add: r'_def r_def RunInLoop_def push_callback_def eventfd_write_def demo_loop_state settle.simps loop_thread.simps
        after_code_def store_conn_def Send_def new_connection_def UpdateEvents_def)
  moreover from posted_callbacks_run [OF steps r(1,2) _ r(6)] r
  have "0 < wakeup (lp r)" "crashed (place r') \<or> prefix [?c] (started (lp r'))" by (auto simp: r'_def)
  ultimately show ?thesis using r by (simp add: Let_def r_def [symmetric] r'_def [symmetric])
qed

text \<open>
  A \<open>Stop\<close> that comes before \<open>Run\<close> is lost: \<open>Run\<close> sets \<open>running_\<close> again, and once
  it has consumed the wake-up it waits with nothing left to wake it. (The same \<open>Stop\<close> ends a loop
  that is already running.)
\<close>

lemma stop_before_run_lost:
  assumes "n \<noteq> w"
  shows "let r = server_reactor w n;
      r1 = settle loop_handler run_callback (Run (r\<lparr>lp := StopLoop (lp r)\<rparr>));
      r2 = settle loop_handler run_callback (r1\<lparr>place := InBatch [(w, m, e)]\<rparr>);
      r3 = settle loop_handler run_callback (Run r);
      r4 = settle loop_handler run_callback (r3\<lparr>lp := StopLoop (lp r3), place := InBatch [(w, m, e)]\<rparr>)
    in place r1 = InWait \<and> wakeup (lp r1) = 1 \<and>
       place r2 = InWait \<and> running (lp r2) \<and> wakeup (lp r2) = 0 \<and> pending_callbacks (lp r2) = [] \<and> writers r2 = 0 \<and>
       place r4 = Returned"
  using assms
  by (simp add: Let_def settle.simps loop_thread.simps Run_def StopLoop_def eventfd_write_def server_reactor_def Register_def new_loop_def
      new_reactor_def)

lemma stop_before_run_lost_witness:
  "place (settle loop_handler run_callback ((settle loop_handler run_callback
      (Run ((server_reactor 3 4)\<lparr>lp := StopLoop (lp (server_reactor 3 4))\<rparr>)))
        \<lparr>place := InBatch [(3, EPOLLIN, \<lparr>accepts = [], recvs = [], sends = []\<rparr>)]\<rparr>)) = InWait"
  using stop_before_run_lost [of 4 3 EPOLLIN "\<lparr>accepts = [], recvs = [], sends = []\<rparr>"] by (simp add: Let_def)

lemma recv_until_eof: "\<exists>c'. recv_loop (map RecvData ds @ [RecvEof]) c = (False, OnClose c')"
  by (induction ds arbitrary: c) auto

text \<open>
  C15. A connection that is readable and writable when its peer has closed it: \<open>OnRead\<close> reads the
  end of file and unregisters, which deletes the connection, and the loop then calls \<open>OnWrite\<close> on
  the deleted object.
\<close>

theorem write_after_close_uses_freed:
  assumes "handlers l n = Some (k, Conn c)" and "m AND (EPOLLERR OR EPOLLHUP OR EPOLLRDHUP) = 0"
    and "m AND EPOLLIN \<noteq> 0" and "m AND EPOLLOUT \<noteq> 0" and "recvs e = map RecvData ds @ [RecvEof]"
  shows "dispatch_event loop_handler (n, m, e) l = Inl UseAfterFree"
proof -
  obtain c' where "recv_loop (recvs e) c = (False, OnClose c')" using recv_until_eof [of ds c] assms(5) by auto
  then have "\<not> registered (OnRead (recvs e) c)" by (simp add: OnRead_def)
  then have "loop_handler CallRead e n l = Inr (Unregister n l)" using assms(1) by (simp add: loop_handler_def store_conn_def)
  then show ?thesis using assms by (simp add: Unregister_def)
qed

theorem write_after_close_uses_freed_witness:
  "dispatch_event loop_handler (7, EPOLLIN OR EPOLLOUT, \<lparr>accepts = [], recvs = [RecvData [1, 2], RecvEof], sends = []\<rparr>) (lp demo_loop) =
     Inl UseAfterFree"
  by (rule write_after_close_uses_freed [of _ _ 1 "new_connection 7" _ _ "[[1, 2]]"]) (simp_all add: demo_loop_state)

end
