(* ===== verification/Elo_Calculator.thy ===== *)
theory Elo_Calculator
  imports Floating_Point
begin

text \<open>
  \<open>include/game/elo_calculator.h\<close> and \<open>src/game/elo_calculator.cpp\<close>: the rating formula.
  \<open>pow10\<close> stands for \<open>std::pow(10.0, \<dots>)\<close>, whose rounding the C++ standard leaves open.
\<close>

text \<open>Division; a zero divisor is taken as positive.\<close>

fun fp_quot :: "fp_format \<Rightarrow> fp \<Rightarrow> fp \<Rightarrow> fp" where
  "fp_quot f (FNum a) (FNum b) = (if b = 0 then (if a = 0 then FNaN else FInf (a < 0)) else fp_of_real f (a / b))"
| "fp_quot f (FInf s) (FNum b) = FInf (s \<noteq> (b < 0))"
| "fp_quot f (FNum a) (FInf t) = FNum 0"
| "fp_quot f _ _ = FNaN"

definition CalcExpected :: "(fp \<Rightarrow> fp) \<Rightarrow> fp \<Rightarrow> fp \<Rightarrow> fp" where
  "CalcExpected pow10 rating_a rating_b =
     (let exponent = fp_div Double (fp_sub Double rating_b rating_a) 400
      in fp_quot Double (FNum 1) (fp_add Double (FNum 1) (pow10 exponent)))"

definition UpdateRating :: "(fp \<Rightarrow> fp) \<Rightarrow> fp \<Rightarrow> fp \<Rightarrow> fp \<Rightarrow> fp \<Rightarrow> fp" where
  "UpdateRating pow10 k rating_a rating_b result_a =
     (let expected_a = CalcExpected pow10 rating_a rating_b
      in fp_add Double rating_a (fp_mul Double k (fp_sub Double result_a expected_a)))"

text \<open>What is known of \<open>std::pow\<close>: a power of ten is not negative.\<close>

definition power_of_ten :: "(fp \<Rightarrow> fp) \<Rightarrow> bool" where
  "power_of_ten pow10 \<longleftrightarrow> (\<forall>x. x \<noteq> FNaN \<longrightarrow> pow10 x = FInf False \<or> (\<exists>y \<ge> 0. pow10 x = FNum y))"

lemma fp_of_real_above:
  assumes "fp_of_real f a = FNum a" and "a \<le> x"
  shows "fp_of_real f x = FInf False \<or> (\<exists>y \<ge> a. fp_of_real f x = FNum y)"
proof -
  have a: "round_to f a = a" "\<not> overflow_limit f \<le> \<bar>a\<bar>" using assms(1) by (auto simp: fp_of_real_def Let_def split: if_splits)
  have "a \<le> round_to f x" using round_to_mono [OF assms(2), of f] a(1) by simp
  moreover have "0 < overflow_limit f" by (cases f) simp_all
  ultimately show ?thesis using a(2) by (auto simp: fp_of_real_def Let_def)
qed

lemma fp_of_real_below:
  assumes "fp_of_real f a = FNum a" and "x \<le> a"
  shows "fp_of_real f x = FInf True \<or> (\<exists>y \<le> a. fp_of_real f x = FNum y)"
proof -
  have a: "round_to f a = a" "\<not> overflow_limit f \<le> \<bar>a\<bar>" using assms(1) by (auto simp: fp_of_real_def Let_def split: if_splits)
  have "round_to f x \<le> a" using round_to_mono [OF assms(2), of f] a(1) by simp
  moreover have "0 < overflow_limit f" by (cases f) simp_all
  ultimately show ?thesis using a(2) by (auto simp: fp_of_real_def Let_def)
qed

lemma expected_in_unit:
  assumes "power_of_ten pow10"
  shows "\<exists>e. CalcExpected pow10 (FNum a) (FNum b) = FNum e \<and> 0 \<le> e \<and> e \<le> 1"
proof -
  define x where "x = fp_div Double (fp_sub Double (FNum b) (FNum a)) 400"
  have "x \<noteq> FNaN" by (cases "fp_sub Double (FNum b) (FNum a)") (auto simp: x_def fp_sub_def)
  then consider "pow10 x = FInf False" | y where "0 \<le> y" "pow10 x = FNum y" using assms by (auto simp: power_of_ten_def)
  then show ?thesis
  proof cases
    case 1
    then show ?thesis by (simp add: CalcExpected_def flip: x_def)
  next
    case 2
    have "fp_of_real Double (1 + y) = FInf False \<or> (\<exists>z \<ge> 1. fp_of_real Double (1 + y) = FNum z)"
      using 2(1) by (intro fp_of_real_above) simp_all
    then show ?thesis
    proof (elim disjE exE conjE)
      assume "fp_of_real Double (1 + y) = FInf False"
      with 2 show ?thesis by (simp add: CalcExpected_def flip: x_def)
    next
      fix z :: real assume z: "1 \<le> z" "fp_of_real Double (1 + y) = FNum z"
      have "\<exists>e. fp_of_real Double (1 / z) = FNum e \<and> of_int 0 \<le> e \<and> e \<le> of_int 1"
        using z(1) by (intro fp_of_real_bounds) simp_all
      with z 2 show ?thesis by (auto simp: CalcExpected_def simp flip: x_def)
    qed
  qed
qed

text \<open>
  The expected result of a game between two rated players lies between 0 and 1, a win never lowers a
  rating and a loss never raises one, in the arithmetic of doubles and whatever the rounding of
  \<open>pow\<close>.
\<close>

lemma rating_moves_with_result:
  assumes "power_of_ten pow10" and "fp_of_real Double a = FNum a" and "0 \<le> k"
  shows "(\<exists>e. CalcExpected pow10 (FNum a) (FNum b) = FNum e \<and> 0 \<le> e \<and> e \<le> 1) \<and>
    fp_le (FNum a) (UpdateRating pow10 (FNum k) (FNum a) (FNum b) (FNum 1)) \<and>
    fp_le (UpdateRating pow10 (FNum k) (FNum a) (FNum b) (FNum 0)) (FNum a)"
proof -
  obtain e where e: "CalcExpected pow10 (FNum a) (FNum b) = FNum e" "0 \<le> e" "e \<le> 1" using expected_in_unit [OF assms(1)] by blast
  obtain w where w: "fp_of_real Double (1 - e) = FNum w" "0 \<le> w"
    using fp_of_real_bounds [of 0 "1 - e" 1 Double] e by auto
  obtain v where v: "fp_of_real Double (- e) = FNum v" "v \<le> 0"
    using fp_of_real_bounds [of "- 1" "- e" 0 Double] e by auto
  have "fp_le (FNum a) (fp_add Double (FNum a) (fp_of_real Double (k * w)))"
  proof -
    have "0 \<le> k * w" using assms(3) w(2) by simp
    from fp_of_real_nonneg [OF this, of Double] show ?thesis
    proof (elim disjE exE conjE)
      fix y assume "0 \<le> y" "fp_of_real Double (k * w) = FNum y"
      then show ?thesis using fp_of_real_above [OF assms(2), of "a + y"] by (auto simp: fp_le_def)
    qed (simp add: fp_le_def)
  qed
  moreover have "fp_le (fp_add Double (FNum a) (fp_of_real Double (k * v))) (FNum a)"
  proof -
    have "k * v \<le> 0" using assms(3) v(2) by (rule mult_nonneg_nonpos)
    then have "fp_of_real Double (k * v) = FInf True \<or> (\<exists>y \<le> 0. fp_of_real Double (k * v) = FNum y)"
      by (intro fp_of_real_below) simp_all
    then show ?thesis
    proof (elim disjE exE conjE)
      fix y assume "y \<le> 0" "fp_of_real Double (k * v) = FNum y"
      then show ?thesis using fp_of_real_below [OF assms(2), of "a + y"] by (auto simp: fp_le_def)
    qed (simp add: fp_le_def)
  qed
  ultimately show ?thesis using e w(1) v(1) by (simp add: UpdateRating_def fp_sub_def)
qed

text \<open>A correctly rounded power.\<close>

fun rounded_power :: "fp \<Rightarrow> fp" where
  "rounded_power (FNum x) = fp_of_real Double (10 powr x)"
| "rounded_power (FInf s) = (if s then FNum 0 else FInf False)"
| "rounded_power FNaN = FNaN"

lemma rating_moves_with_result_witness:
  "fp_le (FNum 1200) (UpdateRating rounded_power (FNum 32) (FNum 1200) (FNum 1500) (FNum 1))"
proof -
  have "power_of_ten rounded_power"
    unfolding power_of_ten_def
  proof (intro allI impI)
    fix x assume "x \<noteq> FNaN"
    then show "rounded_power x = FInf False \<or> (\<exists>y \<ge> 0. rounded_power x = FNum y)"
      by (cases x) (auto intro!: fp_of_real_nonneg)
  qed
  from rating_moves_with_result [OF this, of 1200 32 1500] show ?thesis by simp
qed

end
