(* ===== verification/Session_Manager.thy ===== *)
theory Session_Manager
  imports Rpc_Prelude
begin

text \<open>
  \<open>include/game/session_manager.h\<close> and \<open>src/game/session_manager.cpp\<close>: the session manager as
  it stands, an interface whose operations are placeholders. Only the counts and the generator of
  identifiers (which nothing calls) are written out in the program.
\<close>

datatype session_state = ACTIVE | DISCONNECTED | EXPIRED

record session =
  session_id :: string
  session_player :: string
  session_state :: session_state
  last_heartbeat_ms :: int
  disconnect_time_ms :: int

record session_manager =
  sessions :: "(string \<times> session) list"
  player_to_session :: "string \<rightharpoonup> string"
  max_sessions :: nat
  heartbeat_timeout_ms :: int
  grace_period_ms :: int
  id_counter :: u64

definition new_session_manager :: "nat \<Rightarrow> int \<Rightarrow> int \<Rightarrow> session_manager" where
  "new_session_manager k h g = \<lparr>sessions = [], player_to_session = Map.empty, max_sessions = k,
     heartbeat_timeout_ms = h, grace_period_ms = g, id_counter = 1\<rparr>"

definition GenerateSessionId :: "session_manager \<Rightarrow> string \<times> session_manager" where
  "GenerateSessionId m =
     (let n = dec (unat (id_counter m))
      in (''sess_'' @ replicate (8 - length n) CHR ''0'' @ n, m\<lparr>id_counter := id_counter m + 1\<rparr>))"

definition CreateSession :: "string \<Rightarrow> session_manager \<Rightarrow> string \<times> session_manager" where
  "CreateSession p m = ('''', m)"

definition ValidateSession :: "string \<Rightarrow> session_manager \<Rightarrow> string \<times> session_manager" where
  "ValidateSession sid m = ('''', m)"

definition Heartbeat :: "string \<Rightarrow> session_manager \<Rightarrow> bool \<times> session_manager" where
  "Heartbeat sid m = (False, m)"

definition DestroySession :: "string \<Rightarrow> session_manager \<Rightarrow> session_manager" where
  "DestroySession sid m = m"

definition SessionTick :: "session_manager \<Rightarrow> (nat \<times> nat) \<times> session_manager" where
  "SessionTick m = ((0, 0), m)"

definition ActiveCount :: "session_manager \<Rightarrow> nat" where
  "ActiveCount m = length (filter (\<lambda>(_, s). session_state s = ACTIVE) (sessions m))"

definition DisconnectedCount :: "session_manager \<Rightarrow> nat" where
  "DisconnectedCount m = length (filter (\<lambda>(_, s). session_state s = DISCONNECTED) (sessions m))"

definition TotalCount :: "session_manager \<Rightarrow> nat" where
  "TotalCount m = length (sessions m)"

inductive session_step :: "session_manager \<Rightarrow> session_manager \<Rightarrow> bool" where
  s_create: "session_step m (snd (CreateSession p m))"
| s_validate: "session_step m (snd (ValidateSession sid m))"
| s_heartbeat: "session_step m (snd (Heartbeat sid m))"
| s_destroy: "session_step m (DestroySession sid m)"
| s_tick: "session_step m (snd (SessionTick m))"

interpretation sessions: step_invariant "\<lambda>m. sessions m = []" session_step "\<lambda>m. sessions m = []"
proof
  show "sessions m' = []" if "session_step m m'" "sessions m = []" for m m'
    using that by (induction rule: session_step.induct)
      (simp_all add: CreateSession_def ValidateSession_def Heartbeat_def DestroySession_def SessionTick_def)
qed

text \<open>No session ever exists: a login gets none, and no session is valid, alive or counted.\<close>

lemma no_sessions:
  "session_step\<^sup>*\<^sup>* (new_session_manager k h g) m \<Longrightarrow>
     TotalCount m = 0 \<and> ActiveCount m = 0 \<and> DisconnectedCount m = 0 \<and> fst (CreateSession p m) = '''' \<and>
     fst (ValidateSession sid m) = '''' \<and> \<not> fst (Heartbeat sid m)"
  using sessions.run_inv [of "new_session_manager k h g" m]
  by (simp add: TotalCount_def ActiveCount_def DisconnectedCount_def CreateSession_def ValidateSession_def Heartbeat_def
      new_session_manager_def)

text \<open>The identifiers, while the counter has not come round, are all different.\<close>

lemma session_ids_differ:
  assumes "fst (GenerateSessionId m) = fst (GenerateSessionId m')"
  shows "id_counter m = id_counter m'"
proof -
  have "undec (replicate k CHR ''0'' @ dec (unat (id_counter m))) = unat (id_counter m)" for k and m :: session_manager
    by (simp add: undec_zeros undec_dec)
  with assms have "unat (id_counter m) = unat (id_counter m')"
    by (simp add: GenerateSessionId_def Let_def) (metis undec_dec undec_zeros)
  then show ?thesis by (simp add: word_unat_eq_iff)
qed

end
