(* ===== verification/Server_Metrics.thy ===== *)
theory Server_Metrics
  imports Floating_Point
begin

text \<open>
  The counters of \<open>include/rpc/bench_stats.h\<close> (latency histogram, sliding-window request counter,
  error and stage counters) and \<open>include/game/server_metrics.h\<close>, which the server updates with every
  request. Each method runs under the counter's mutex, so it is one step. Clock readings are in
  nanoseconds; counts are natural numbers.
\<close>

subsection \<open>Latencies\<close>

record latency_histogram =
  samples :: "fp list"
  sorted_flag :: bool

definition new_histogram :: latency_histogram where
  "new_histogram = \<lparr>samples = [], sorted_flag = False\<rparr>"

definition RecordLatency :: "fp \<Rightarrow> latency_histogram \<Rightarrow> latency_histogram" where
  "RecordLatency v h = h\<lparr>samples := samples h @ [v], sorted_flag := False\<rparr>"

definition RecordBatch :: "fp list \<Rightarrow> latency_histogram \<Rightarrow> latency_histogram" where
  "RecordBatch vs h = h\<lparr>samples := samples h @ vs, sorted_flag := False\<rparr>"

definition SampleCount :: "latency_histogram \<Rightarrow> nat" where
  "SampleCount h = length (samples h)"

text \<open>\<open>std::sort\<close> of doubles; equal ones cannot be told apart.\<close>

fun fp_insert :: "fp \<Rightarrow> fp list \<Rightarrow> fp list" where
  "fp_insert v [] = [v]"
| "fp_insert v (x # xs) = (if fp_lt x v then x # fp_insert v xs else v # x # xs)"

definition fp_sort :: "fp list \<Rightarrow> fp list" where
  "fp_sort vs = foldr fp_insert vs []"

definition ensure_sorted :: "latency_histogram \<Rightarrow> latency_histogram" where
  "ensure_sorted h = (if sorted_flag h then h else h\<lparr>samples := fp_sort (samples h), sorted_flag := True\<rparr>)"

definition MinLatency :: "latency_histogram \<Rightarrow> fp \<times> latency_histogram" where
  "MinLatency h = (let h' = ensure_sorted h in (if samples h' = [] then FNum 0 else hd (samples h'), h'))"

definition MaxLatency :: "latency_histogram \<Rightarrow> fp \<times> latency_histogram" where
  "MaxLatency h = (let h' = ensure_sorted h in (if samples h' = [] then FNum 0 else last (samples h'), h'))"

text \<open>The quotient by the number of samples, an integer below 2^53.\<close>

definition AvgLatency :: "latency_histogram \<Rightarrow> fp \<times> latency_histogram" where
  "AvgLatency h =
     (let h' = ensure_sorted h
      in (if samples h' = [] then FNum 0
          else fp_div Double (fold (\<lambda>v s. fp_add Double s v) (samples h') (FNum 0)) (real (length (samples h'))), h'))"

text \<open>
  The index is computed in \<open>size_t\<close>, so the one below zero is the largest; \<open>p\<close> is a finite double
  between 0 and 1.
\<close>

definition percentile_index :: "real \<Rightarrow> nat \<Rightarrow> u64" where
  "percentile_index p n = word_of_int \<lceil>round_to Double (p * real n)\<rceil> - 1"

definition Percentile :: "real \<Rightarrow> latency_histogram \<Rightarrow> fp \<times> latency_histogram" where
  "Percentile p h =
     (let h' = ensure_sorted h; n = length (samples h'); i = unat (percentile_index p n)
      in (if samples h' = [] then FNum 0 else samples h' ! (if n \<le> i then n - 1 else i), h'))"

record percentiles =
  pc_avg :: fp
  pc_min :: fp
  pc_max :: fp
  pc_p50 :: fp
  pc_p95 :: fp
  pc_p99 :: fp

definition ComputePercentiles :: "latency_histogram \<Rightarrow> percentiles \<times> latency_histogram" where
  "ComputePercentiles h =
     (let (a, h1) = AvgLatency h; (b, h2) = MinLatency h1; (c, h3) = MaxLatency h2;
          (d, h4) = Percentile (1 / 2) h3; (e, h5) = Percentile (round_to Double (95 / 100)) h4;
          (f, h6) = Percentile (round_to Double (99 / 100)) h5
      in (\<lparr>pc_avg = a, pc_min = b, pc_max = c, pc_p50 = d, pc_p95 = e, pc_p99 = f\<rparr>, h6))"

definition ResetHistogram :: "latency_histogram \<Rightarrow> latency_histogram" where
  "ResetHistogram h = h\<lparr>samples := [], sorted_flag := False\<rparr>"

subsection \<open>Requests per second\<close>

record qps_counter =
  window_sec :: nat
  buckets :: "nat list"
  bucket_idx :: nat
  last_tick :: int
  total_evicted :: nat
  since_tick :: nat

definition new_qps :: "nat \<Rightarrow> int \<Rightarrow> qps_counter" where
  "new_qps w now = \<lparr>window_sec = w, buckets = replicate (w * 10) 0, bucket_idx = 0, last_tick = now,
     total_evicted = 0, since_tick = 0\<rparr>"

definition RecordRequest :: "qps_counter \<Rightarrow> qps_counter" where
  "RecordRequest q = q\<lparr>since_tick := since_tick q + 1\<rparr>"

definition advance_bucket :: "qps_counter \<Rightarrow> qps_counter" where
  "advance_bucket q =
     (let i = (bucket_idx q + 1) mod length (buckets q)
      in q\<lparr>bucket_idx := i, total_evicted := total_evicted q + buckets q ! i, buckets := (buckets q)[i := 0]\<rparr>)"

definition QpsTick :: "int \<Rightarrow> qps_counter \<Rightarrow> qps_counter" where
  "QpsTick now q =
     (let elapsed = (now - last_tick q) div 1000000
      in if elapsed < 100 then q
         else
           let steps = nat (min (sint (word_of_int (elapsed div 100) :: i32)) (int (length (buckets q))));
               q1 = (advance_bucket ^^ steps) (q\<lparr>last_tick := now\<rparr>)
           in q1\<lparr>buckets := (buckets q1)[bucket_idx q1 := buckets q1 ! bucket_idx q1 + since_tick q1], since_tick := 0\<rparr>)"

definition CurrentQps :: "qps_counter \<Rightarrow> fp" where
  "CurrentQps q = fp_div Double (fp_of_int Double (int (sum_list (buckets q)))) (real (window_sec q))"

definition TotalRequests :: "qps_counter \<Rightarrow> nat" where
  "TotalRequests q = total_evicted q"

definition ResetQps :: "qps_counter \<Rightarrow> qps_counter" where
  "ResetQps q = q\<lparr>buckets := map (\<lambda>_. 0) (buckets q), total_evicted := 0, since_tick := 0\<rparr>"

subsection \<open>Errors and stages\<close>

type_synonym error_counter = "(string \<times> nat) list"

definition RecordError :: "string \<Rightarrow> error_counter \<Rightarrow> error_counter" where
  "RecordError c xs = AList.update c (case map_of xs c of None \<Rightarrow> 1 | Some n \<Rightarrow> n + 1) xs"

definition ErrorCount :: "string \<Rightarrow> error_counter \<Rightarrow> nat" where
  "ErrorCount c xs = (case map_of xs c of None \<Rightarrow> 0 | Some n \<Rightarrow> n)"

definition ErrorTotal :: "error_counter \<Rightarrow> nat" where
  "ErrorTotal xs = fold (\<lambda>(_, n) t. t + n) xs 0"

definition ResetErrors :: "error_counter \<Rightarrow> error_counter" where
  "ResetErrors xs = []"

record stage_timer =
  stage_histograms :: "(string \<times> latency_histogram) list"
  success_counts :: error_counter
  fail_counts :: error_counter

record stage_result =
  st_name :: string
  st_avg :: fp
  st_min :: fp
  st_max :: fp
  st_p50 :: fp
  st_success :: nat
  st_fail :: nat

definition RecordStage :: "string \<Rightarrow> fp \<Rightarrow> bool \<Rightarrow> stage_timer \<Rightarrow> stage_timer" where
  "RecordStage s v ok t =
     (let h = (case map_of (stage_histograms t) s of None \<Rightarrow> new_histogram | Some h \<Rightarrow> h);
          t1 = t\<lparr>stage_histograms := AList.update s (RecordLatency v h) (stage_histograms t)\<rparr>
      in if ok then t1\<lparr>success_counts := RecordError s (success_counts t1)\<rparr>
         else t1\<lparr>fail_counts := RecordError s (fail_counts t1)\<rparr>)"

text \<open>Computing the results also sorts the stored histograms, which no later result depends on.\<close>

definition StageResults :: "stage_timer \<Rightarrow> stage_result list" where
  "StageResults t =
     map (\<lambda>(s, h). let p = fst (ComputePercentiles h)
       in \<lparr>st_name = s, st_avg = pc_avg p, st_min = pc_min p, st_max = pc_max p, st_p50 = pc_p50 p,
           st_success = ErrorCount s (success_counts t), st_fail = ErrorCount s (fail_counts t)\<rparr>)
       (stage_histograms t)"

definition ResetStages :: "stage_timer \<Rightarrow> stage_timer" where
  "ResetStages t = t\<lparr>stage_histograms := [], success_counts := [], fail_counts := []\<rparr>"

subsection \<open>The server's counters\<close>

record server_metrics =
  start_time :: int
  active_connections :: int
  total_requests :: int
  error_count :: int
  qps :: qps_counter
  latency_hist :: latency_histogram

record metrics_snapshot =
  ms_uptime_sec :: int
  ms_active :: int
  ms_rooms :: int
  ms_requests :: int
  ms_qps :: fp
  ms_avg :: fp
  ms_p50 :: fp
  ms_p99 :: fp
  ms_queue :: int
  ms_errors :: int

definition new_metrics :: "int \<Rightarrow> server_metrics" where
  "new_metrics now = \<lparr>start_time = now, active_connections = 0, total_requests = 0, error_count = 0,
     qps = new_qps 5 now, latency_hist = new_histogram\<rparr>"

definition OnRequest :: "fp \<Rightarrow> server_metrics \<Rightarrow> server_metrics" where
  "OnRequest v m = m\<lparr>total_requests := total_requests m + 1, latency_hist := RecordLatency v (latency_hist m),
     qps := RecordRequest (qps m)\<rparr>"

definition OnConnect :: "server_metrics \<Rightarrow> server_metrics" where
  "OnConnect m = m\<lparr>active_connections := active_connections m + 1\<rparr>"

definition OnDisconnect :: "server_metrics \<Rightarrow> server_metrics" where
  "OnDisconnect m = m\<lparr>active_connections := active_connections m - 1\<rparr>"

definition OnError :: "server_metrics \<Rightarrow> server_metrics" where
  "OnError m = m\<lparr>error_count := error_count m + 1\<rparr>"

definition MetricsTick :: "int \<Rightarrow> server_metrics \<Rightarrow> server_metrics" where
  "MetricsTick now m = m\<lparr>qps := QpsTick now (qps m)\<rparr>"

definition MetricsSnapshot :: "int \<Rightarrow> int \<Rightarrow> int \<Rightarrow> server_metrics \<Rightarrow> metrics_snapshot \<times> server_metrics" where
  "MetricsSnapshot now n_rooms n_queue m =
     (let (p, h) = ComputePercentiles (latency_hist m)
      in (\<lparr>ms_uptime_sec = (now - start_time m) div 1000000000, ms_active = active_connections m, ms_rooms = n_rooms,
           ms_requests = total_requests m, ms_qps = CurrentQps (qps m), ms_avg = pc_avg p, ms_p50 = pc_p50 p,
           ms_p99 = pc_p99 p, ms_queue = n_queue, ms_errors = error_count m\<rparr>,
          m\<lparr>latency_hist := h\<rparr>))"

definition ResetMetrics :: "int \<Rightarrow> server_metrics \<Rightarrow> server_metrics" where
  "ResetMetrics now m = m\<lparr>total_requests := 0, error_count := 0, active_connections := 0,
     latency_hist := ResetHistogram (latency_hist m), qps := ResetQps (qps m), start_time := now\<rparr>"

subsection \<open>No request is lost\<close>

definition qps_ok :: "qps_counter \<Rightarrow> bool" where
  "qps_ok q \<longleftrightarrow> length (buckets q) = window_sec q * 10 \<and> 0 < window_sec q \<and> bucket_idx q < length (buckets q)"

definition qps_sum :: "qps_counter \<Rightarrow> nat" where
  "qps_sum q = total_evicted q + sum_list (buckets q) + since_tick q"

lemma sum_list_update_add: "i < length xs \<Longrightarrow> sum_list (xs[i := (y::nat)]) + xs ! i = sum_list xs + y"
  by (induction xs arbitrary: i) (auto split: nat.split simp: nth_Cons)

lemma advance_bucket_ok: "qps_ok q \<Longrightarrow> qps_ok (advance_bucket q) \<and> qps_sum (advance_bucket q) = qps_sum q \<and>
    since_tick (advance_bucket q) = since_tick q"
proof -
  assume q: "qps_ok q"
  let ?i = "(bucket_idx q + 1) mod length (buckets q)"
  have "?i < length (buckets q)" using q by (simp add: qps_ok_def)
  from sum_list_update_add [OF this, of 0] this q show ?thesis
    by (simp add: advance_bucket_def Let_def qps_ok_def qps_sum_def)
qed

lemma advance_buckets_ok: "qps_ok q \<Longrightarrow> qps_ok ((advance_bucket ^^ n) q) \<and>
    qps_sum ((advance_bucket ^^ n) q) = qps_sum q \<and> since_tick ((advance_bucket ^^ n) q) = since_tick q"
  by (induction n) (auto simp: advance_bucket_ok)

lemma QpsTick_ok: assumes "qps_ok q" shows "qps_ok (QpsTick now q) \<and> qps_sum (QpsTick now q) = qps_sum q"
proof -
  define q1 where "q1 = (advance_bucket ^^ nat (min (sint (word_of_int ((now - last_tick q) div 1000000 div 100) :: i32)) (int (length (buckets q))))) (q\<lparr>last_tick := now\<rparr>)"
  have "qps_ok (q\<lparr>last_tick := now\<rparr>)" "qps_sum (q\<lparr>last_tick := now\<rparr>) = qps_sum q"
    using assms by (simp_all add: qps_ok_def qps_sum_def)
  then have q1: "qps_ok q1" "qps_sum q1 = qps_sum q"
    using advance_buckets_ok [of "q\<lparr>last_tick := now\<rparr>"] by (simp_all add: q1_def)
  have "bucket_idx q1 < length (buckets q1)" using q1(1) by (simp add: qps_ok_def)
  from sum_list_update_add [OF this, of "buckets q1 ! bucket_idx q1 + since_tick q1"] q1 assms show ?thesis
    by (simp add: QpsTick_def Let_def flip: q1_def) (simp add: qps_ok_def qps_sum_def)
qed


text \<open>The counter's life: requests and ticks in any order.\<close>

datatype qps_event = QpsRequest | QpsClock int

fun qps_apply :: "qps_event \<Rightarrow> qps_counter \<Rightarrow> qps_counter" where
  "qps_apply QpsRequest q = RecordRequest q"
| "qps_apply (QpsClock now) q = QpsTick now q"

lemma qps_event_ok: "qps_ok q \<Longrightarrow> qps_ok (qps_apply e q) \<and>
    qps_sum (qps_apply e q) = qps_sum q + (if e = QpsRequest then 1 else 0)"
proof (cases e)
  case QpsRequest
  then show "qps_ok q \<Longrightarrow> ?thesis" by (simp add: RecordRequest_def qps_ok_def qps_sum_def)
next
  case (QpsClock now)
  then show "qps_ok q \<Longrightarrow> ?thesis" by (simp add: QpsTick_ok)
qed

lemma qps_run_ok: "qps_ok q \<Longrightarrow> qps_ok (fold qps_apply es q) \<and>
    qps_sum (fold qps_apply es q) = qps_sum q + count_list es QpsRequest"
  by (induction es arbitrary: q) (auto simp: qps_event_ok)

lemma fp_insert_length [simp]: "length (fp_insert v xs) = Suc (length xs)"
  by (induction xs) auto

lemma fp_sort_length [simp]: "length (fp_sort xs) = length xs"
  by (induction xs) (simp_all add: fp_sort_def)

lemma ensure_sorted_length [simp]: "length (samples (ensure_sorted h)) = length (samples h)"
  by (simp add: ensure_sorted_def)

text \<open>The quantile 0 is the largest sample: its index wraps around.\<close>

lemma percentile_zero_is_max: "length (samples h) < 2 ^ 64 - 1 \<Longrightarrow> fst (Percentile 0 h) = fst (MaxLatency h)"
proof -
  assume n: "length (samples h) < 2 ^ 64 - 1"
  have i: "unat (percentile_index 0 n) = 2 ^ 64 - 1" for n by (simp add: percentile_index_def unsigned_minus_1_eq_mask mask_eq_exp_minus_1)
  show ?thesis
    using n by (auto simp: Percentile_def MaxLatency_def Let_def i last_conv_nth simp del: length_0_conv)
qed

subsection \<open>Properties\<close>

text \<open>
  The sliding window loses no request: whatever the clock does (also when it jumps far ahead or
  backwards), the requests in the window, those already moved out of it and those waiting for the
  next tick add up to the requests recorded.
\<close>

lemma qps_counts_every_request:
  assumes "0 < w"
  shows "let q = fold qps_apply es (new_qps w now) in
    TotalRequests q + sum_list (buckets q) + since_tick q = count_list es QpsRequest"
proof -
  have "qps_ok (new_qps w now)" "qps_sum (new_qps w now) = 0"
    using assms by (simp_all add: qps_ok_def qps_sum_def new_qps_def sum_list_replicate)
  then show ?thesis
    using qps_run_ok [of "new_qps w now" es] by (simp add: Let_def qps_sum_def TotalRequests_def)
qed

lemma qps_counts_every_request_witness:
  "let q = fold qps_apply [QpsRequest, QpsClock 150000000, QpsRequest] (new_qps 1 0) in
    sum_list (buckets q) = 1 \<and> TotalRequests q + sum_list (buckets q) + since_tick q = 2"
proof -
  have "sum_list (buckets (fold qps_apply [QpsRequest, QpsClock 150000000, QpsRequest] (new_qps 1 0))) = 1"
    by code_simp
  then show ?thesis
    using qps_counts_every_request [of 1 "[QpsRequest, QpsClock 150000000, QpsRequest]" 0] by (simp add: Let_def)
qed

end
