(* ===== verification/Game_Client.thy ===== *)
theory Game_Client
  imports Server_Metrics
begin

text \<open>
  \<open>GameClient\<close> of \<open>bench/bench_game_client.cpp\<close>: one simulated player, its calls, its flow from
  connecting to leaving, and the statistics it keeps in the program's global counters. What a call
  comes back with, and the clock around it, is an argument; encoding and parsing of the messages is
  generated code, of which \<open>reply_codec\<close> is the parameter (what a reply says: success, and the room it
  names). \<open>gc_calls\<close> records the calls made. Printing, sleeping and the modes that run many clients
  are not modelled.
\<close>

subsection \<open>State\<close>

datatype game_request =
    LoginReq string string
  | CreateRoomReq string string int
  | StartGameReq string string
  | SendMessageReq string string string
  | PlayerInputReq u32 string string
  | MatchPlayerReq string fp
  | CancelMatchReq string
  | JoinRoomReq string string
  | LeaveRoomReq string string
  | MetricsReq
  | RawBody bytes

record bench_stats =
  bs_latency :: latency_histogram
  bs_qps :: qps_counter
  bs_errors :: error_counter
  bs_stages :: stage_timer
  bs_active :: int

record game_client =
  gc_id :: int
  gc_player :: string
  gc_room :: string
  gc_seq :: nat
  gc_connected :: bool
  gc_logged_in :: bool
  gc_calls :: "(string \<times> game_request) list"

type_synonym bench_state = "game_client \<times> bench_stats"

definition PlayerId :: "int \<Rightarrow> string" where
  "PlayerId i = ''bench_player_'' @ int_dec i"

definition new_game_client :: "int \<Rightarrow> game_client" where
  "new_game_client i = \<lparr>gc_id = i, gc_player = PlayerId i, gc_room = [], gc_seq = 0, gc_connected = False,
     gc_logged_in = False, gc_calls = []\<rparr>"

text \<open>The future of a call after the wait: still empty, or the body of the response.\<close>

datatype future_result = NotReady | Ready bytes

record call_env =
  ce_result :: future_result
  ce_start :: int
  ce_end :: int

type_synonym reply_codec = "string \<Rightarrow> bytes \<Rightarrow> (bool \<times> string) option"

subsection \<open>Calls\<close>

definition count_failure :: "string \<Rightarrow> bench_stats \<Rightarrow> bench_stats" where
  "count_failure cat st = st\<lparr>bs_errors := RecordError cat (bs_errors st)\<rparr>"

text \<open>Success, the room the reply names, and the statistics.\<close>

definition TimedCall :: "reply_codec \<Rightarrow> string \<Rightarrow> string \<Rightarrow> future_result \<Rightarrow> bench_stats \<Rightarrow> bool \<times> string \<times> bench_stats" where
  "TimedCall cd meth label r st =
     (case r of
        NotReady \<Rightarrow> (False, [], count_failure (label @ ''_timeout'') st)
      | Ready rsp \<Rightarrow>
          (case cd meth rsp of
             None \<Rightarrow> (False, [], count_failure (label @ ''_parse_error'') st)
           | Some (success, rid) \<Rightarrow>
               if \<not> success then (False, rid, count_failure (label @ ''_failed'') st) else (True, rid, st)))"

definition record_call :: "call_env \<Rightarrow> bench_stats \<Rightarrow> bench_stats" where
  "record_call e st = st\<lparr>bs_latency := RecordLatency (fp_of_int Double (ce_end e - ce_start e)) (bs_latency st),
     bs_qps := RecordRequest (bs_qps st)\<rparr>"

text \<open>What the operations below have in common.\<close>

definition timed_op :: "reply_codec \<Rightarrow> string \<Rightarrow> game_request \<Rightarrow> string \<Rightarrow> call_env \<Rightarrow> bench_state \<Rightarrow> bool \<times> string \<times> bench_state" where
  "timed_op cd meth req label e s =
     (case TimedCall cd meth label (ce_result e) (snd s) of
        (ok, rid, st) \<Rightarrow> (ok, rid, (fst s)\<lparr>gc_calls := gc_calls (fst s) @ [(meth, req)]\<rparr>, record_call e st))"

definition BenchConnect :: "bool \<Rightarrow> bench_state \<Rightarrow> bool \<times> bench_state" where
  "BenchConnect up s =
     (if \<not> up then (False, fst s, count_failure ''connect_failed'' (snd s))
      else (True, (fst s)\<lparr>gc_connected := True\<rparr>, (snd s)\<lparr>bs_active := bs_active (snd s) + 1\<rparr>))"

definition BenchLogin :: "reply_codec \<Rightarrow> call_env \<Rightarrow> bench_state \<Rightarrow> bool \<times> bench_state" where
  "BenchLogin cd e s =
     (case timed_op cd ''Login'' (LoginReq (gc_player (fst s)) ''testpass123'') ''login'' e s of
        (ok, _, c, st) \<Rightarrow> (ok, if ok then c\<lparr>gc_logged_in := True\<rparr> else c, st))"

definition CreateGameRoom :: "reply_codec \<Rightarrow> call_env \<Rightarrow> bench_state \<Rightarrow> bool \<times> bench_state" where
  "CreateGameRoom cd e s =
     (case timed_op cd ''CreateRoom'' (CreateRoomReq (gc_player (fst s)) (''bench_room_'' @ int_dec (gc_id (fst s))) 2) ''create_room'' e s of
        (ok, rid, c, st) \<Rightarrow> (ok, if ok then c\<lparr>gc_room := rid\<rparr> else c, st))"

definition StartGameRoom :: "reply_codec \<Rightarrow> call_env \<Rightarrow> bench_state \<Rightarrow> bool \<times> bench_state" where
  "StartGameRoom cd e s =
     (case timed_op cd ''StartGame'' (StartGameReq (gc_room (fst s)) (gc_player (fst s))) ''start_game'' e s of
        (ok, _, c, st) \<Rightarrow> (ok, c, if ok then st else count_failure ''start_game_failed'' st))"

definition SendOneMessage :: "reply_codec \<Rightarrow> call_env \<Rightarrow> bench_state \<Rightarrow> bool \<times> bench_state" where
  "SendOneMessage cd e s =
     (let c = fst s;
          req = SendMessageReq (gc_room c) (gc_player c) (''bench_msg_'' @ dec (gc_seq c))
      in case timed_op cd ''SendMessage'' req ''send_msg'' e (c\<lparr>gc_seq := gc_seq c + 1\<rparr>, snd s) of
           (ok, _, s1) \<Rightarrow> (ok, s1))"

definition BenchSendInput :: "reply_codec \<Rightarrow> u32 \<Rightarrow> string \<Rightarrow> call_env \<Rightarrow> bench_state \<Rightarrow> bool \<times> bench_state" where
  "BenchSendInput cd frame_no inp e s =
     (case timed_op cd ''SendInput'' (PlayerInputReq frame_no (gc_player (fst s)) inp) ''send_input'' e s of (ok, _, s1) \<Rightarrow> (ok, s1))"

definition BenchEnterMatch :: "reply_codec \<Rightarrow> fp \<Rightarrow> call_env \<Rightarrow> bench_state \<Rightarrow> bool \<times> bench_state" where
  "BenchEnterMatch cd elo e s =
     (case timed_op cd ''EnterMatch'' (MatchPlayerReq (gc_player (fst s)) elo) ''enter_match'' e s of (ok, _, s1) \<Rightarrow> (ok, s1))"

definition BenchCancelMatch :: "reply_codec \<Rightarrow> call_env \<Rightarrow> bench_state \<Rightarrow> bool \<times> bench_state" where
  "BenchCancelMatch cd e s =
     (case timed_op cd ''CancelMatch'' (CancelMatchReq (gc_player (fst s))) ''cancel_match'' e s of (ok, _, s1) \<Rightarrow> (ok, s1))"

definition BenchJoinRoom :: "reply_codec \<Rightarrow> string \<Rightarrow> call_env \<Rightarrow> bench_state \<Rightarrow> bool \<times> bench_state" where
  "BenchJoinRoom cd target e s =
     (case timed_op cd ''JoinRoom'' (JoinRoomReq (gc_player (fst s)) target) ''join_room'' e s of
        (ok, _, c, st) \<Rightarrow> (ok, if ok then c\<lparr>gc_room := target\<rparr> else c, st))"

definition LeaveGameRoom :: "reply_codec \<Rightarrow> call_env \<Rightarrow> bench_state \<Rightarrow> bool \<times> bench_state" where
  "LeaveGameRoom cd e s =
     (case timed_op cd ''LeaveRoom'' (LeaveRoomReq (gc_player (fst s)) (gc_room (fst s))) ''leave_room'' e s of (ok, _, s1) \<Rightarrow> (ok, s1))"

definition BenchDisconnect :: "bench_state \<Rightarrow> bench_state" where
  "BenchDisconnect s =
     (if gc_connected (fst s) then ((fst s)\<lparr>gc_connected := False\<rparr>, (snd s)\<lparr>bs_active := bs_active (snd s) - 1\<rparr>) else s)"

text \<open>The query of the server's metrics is not timed.\<close>

definition QueryServerMetrics :: "reply_codec \<Rightarrow> call_env \<Rightarrow> bench_state \<Rightarrow> bool \<times> bench_state" where
  "QueryServerMetrics cd e s =
     (case TimedCall cd ''GetMetrics'' ''get_metrics'' (ce_result e) (snd s) of
        (ok, _, st) \<Rightarrow> (ok, (fst s)\<lparr>gc_calls := gc_calls (fst s) @ [(''GetMetrics'', MetricsReq)]\<rparr>, st))"

subsection \<open>Loops\<close>

text \<open>One round of a loop: the stop flag and the clock at its test, and its call.\<close>

record round_env =
  re_stop :: bool
  re_now :: int
  re_call :: call_env

fun MessageLoop :: "reply_codec \<Rightarrow> int \<Rightarrow> round_env list \<Rightarrow> bench_state \<Rightarrow> bench_state" where
  "MessageLoop cd deadline [] s = s"
| "MessageLoop cd deadline (e # es) s =
     (if re_stop e \<or> deadline \<le> re_now e then s
      else (case SendOneMessage cd (re_call e) s of
              (ok, s1) \<Rightarrow> if ok then MessageLoop cd deadline es s1 else s1))"

text \<open>The input of a frame names the frame and a random number.\<close>

fun FramesyncInputLoop :: "reply_codec \<Rightarrow> int \<Rightarrow> u32 \<Rightarrow> (round_env \<times> nat) list \<Rightarrow> bench_state \<Rightarrow> bench_state" where
  "FramesyncInputLoop cd deadline frame_no [] s = s"
| "FramesyncInputLoop cd deadline frame_no ((e, n) # es) s =
     (if re_stop e \<or> deadline \<le> re_now e then s
      else (case BenchSendInput cd frame_no (''input_'' @ dec (unat frame_no) @ ''_'' @ dec (n mod 256)) (re_call e) s of
              (ok, s1) \<Rightarrow> if ok then FramesyncInputLoop cd deadline (frame_no + 1) es s1 else s1))"

text \<open>A round of matching: the rating, and the calls that enter and leave the queue.\<close>

fun MatchLoop :: "reply_codec \<Rightarrow> int \<Rightarrow> (round_env \<times> fp \<times> call_env) list \<Rightarrow> bench_state \<Rightarrow> bench_state" where
  "MatchLoop cd deadline [] s = s"
| "MatchLoop cd deadline ((e, elo, e2) # es) s =
     (if re_stop e \<or> deadline \<le> re_now e then s
      else (case BenchEnterMatch cd elo (re_call e) s of
              (ok, s1) \<Rightarrow> if ok then MatchLoop cd deadline es (snd (BenchCancelMatch cd e2 s1)) else s1))"

subsection \<open>The full flow\<close>

text \<open>A stage of the flow, timed when stages are recorded.\<close>

definition stage_done :: "bool \<Rightarrow> string \<Rightarrow> (string \<Rightarrow> int) \<Rightarrow> bool \<Rightarrow> bench_state \<Rightarrow> bench_state" where
  "stage_done rec nm took ok s =
     (if rec then (fst s, (snd s)\<lparr>bs_stages := RecordStage nm (fp_of_int Double (took nm)) ok (bs_stages (snd s))\<rparr>) else s)"

record flow_env =
  fe_stop :: bool
  fe_connects :: bool
  fe_took :: "string \<Rightarrow> int"
  fe_login :: call_env
  fe_create :: call_env
  fe_start :: call_env
  fe_deadline :: int
  fe_rounds :: "round_env list"
  fe_leave :: call_env

definition RunFullFlow :: "reply_codec \<Rightarrow> bool \<Rightarrow> flow_env \<Rightarrow> bench_state \<Rightarrow> bool \<times> bench_state" where
  "RunFullFlow cd rec e s =
     (if fe_stop e then (False, s)
      else case BenchConnect (fe_connects e) s of (ok1, s1) \<Rightarrow>
        let s1' = stage_done rec ''connect'' (fe_took e) ok1 s1 in
        if \<not> ok1 then (False, s1')
        else case BenchLogin cd (fe_login e) s1' of (ok2, s2) \<Rightarrow>
        let s2' = stage_done rec ''login'' (fe_took e) ok2 s2 in
        if \<not> ok2 then (False, s2')
        else case CreateGameRoom cd (fe_create e) s2' of (ok3, s3) \<Rightarrow>
        let s3' = stage_done rec ''create_room'' (fe_took e) ok3 s3 in
        if \<not> ok3 then (False, s3')
        else case StartGameRoom cd (fe_start e) s3' of (ok4, s4) \<Rightarrow>
        let s4' = stage_done rec ''start_game'' (fe_took e) ok4 s4;
            s5 = stage_done rec ''message_loop'' (fe_took e) True (MessageLoop cd (fe_deadline e) (fe_rounds e) s4')
        in case LeaveGameRoom cd (fe_leave e) s5 of (ok6, s6) \<Rightarrow>
        (True, BenchDisconnect (stage_done rec ''leave_room'' (fe_took e) ok6 s6)))"

subsection \<open>What a call changes\<close>

definition replied :: "reply_codec \<Rightarrow> string \<Rightarrow> call_env \<Rightarrow> bool" where
  "replied cd meth e = (case ce_result e of NotReady \<Rightarrow> False | Ready rsp \<Rightarrow> (case cd meth rsp of None \<Rightarrow> False | Some (ok, _) \<Rightarrow> ok))"

lemma fold_error_sum: "fold (\<lambda>(_, n) t. t + n) xs (k :: nat) = k + sum_list (map snd xs)"
  by (induction xs arbitrary: k) auto

lemma ErrorTotal_sum: "ErrorTotal xs = sum_list (map snd xs)"
  unfolding ErrorTotal_def fold_error_sum by simp

lemma RecordError_total: "ErrorTotal (RecordError cat xs) = ErrorTotal xs + 1"
  unfolding RecordError_def ErrorTotal_sum by (induction xs) (auto split: option.splits)

lemma count_failure_fields [simp]:
  "bs_latency (count_failure cat st) = bs_latency st" "bs_qps (count_failure cat st) = bs_qps st"
  "bs_stages (count_failure cat st) = bs_stages st" "bs_active (count_failure cat st) = bs_active st"
  "ErrorTotal (bs_errors (count_failure cat st)) = ErrorTotal (bs_errors st) + 1"
  by (simp_all add: count_failure_def RecordError_total)

lemma TimedCall_effect:
  assumes "TimedCall cd meth label (ce_result e) st = (ok, rid, st')"
  shows "ok = replied cd meth e \<and> ErrorTotal (bs_errors st') = ErrorTotal (bs_errors st) + (if ok then 0 else 1) \<and>
    bs_latency st' = bs_latency st \<and> bs_qps st' = bs_qps st \<and> bs_stages st' = bs_stages st \<and> bs_active st' = bs_active st"
  using assms by (auto simp: TimedCall_def replied_def split: future_result.splits option.splits prod.splits if_splits)

text \<open>Every operation that makes a timed call has the same effect on the statistics.\<close>

definition counted :: "nat \<Rightarrow> bench_state \<Rightarrow> bench_state \<Rightarrow> bool" where
  "counted errs s s' \<longleftrightarrow>
     length (samples (bs_latency (snd s'))) = length (samples (bs_latency (snd s))) + 1 \<and>
     qps_sum (bs_qps (snd s')) = qps_sum (bs_qps (snd s)) + 1 \<and>
     length (gc_calls (fst s')) = length (gc_calls (fst s)) + 1 \<and>
     ErrorTotal (bs_errors (snd s')) = ErrorTotal (bs_errors (snd s)) + errs \<and>
     bs_stages (snd s') = bs_stages (snd s) \<and> bs_active (snd s') = bs_active (snd s) \<and>
     gc_connected (fst s') = gc_connected (fst s)"

lemma record_call_fields [simp]:
  "length (samples (bs_latency (record_call e st))) = length (samples (bs_latency st)) + 1"
  "qps_sum (bs_qps (record_call e st)) = qps_sum (bs_qps st) + 1"
  "bs_errors (record_call e st) = bs_errors st" "bs_stages (record_call e st) = bs_stages st" "bs_active (record_call e st) = bs_active st"
  by (simp_all add: record_call_def RecordLatency_def RecordRequest_def qps_sum_def)

lemma timed_op_counted:
  assumes "timed_op cd meth req label e s = (ok, rid, s')"
  shows "ok = replied cd meth e \<and> counted (if ok then 0 else 1) s s'"
proof -
  obtain ok' rid' st where t: "TimedCall cd meth label (ce_result e) (snd s) = (ok', rid', st)" using prod_cases3 by blast
  with assms have "ok' = ok" "s' = ((fst s)\<lparr>gc_calls := gc_calls (fst s) @ [(meth, req)]\<rparr>, record_call e st)"
    by (auto simp: timed_op_def)
  with TimedCall_effect [OF t] show ?thesis by (simp add: counted_def)
qed

lemma counted_room [simp]:
  "counted k s (c\<lparr>gc_room := r\<rparr>, st) = counted k s (c, st)" "counted k s (c\<lparr>gc_logged_in := b\<rparr>, st) = counted k s (c, st)"
  "counted k (c\<lparr>gc_seq := n\<rparr>, st) s' = counted k (c, st) s'"
  by (simp_all add: counted_def)

text \<open>The operations of a connected client.\<close>

datatype bench_op =
    DoLogin call_env | DoCreate call_env | DoStart call_env | DoMessage call_env | DoInput u32 string call_env
  | DoEnterMatch fp call_env | DoCancelMatch call_env | DoJoin string call_env | DoLeave call_env

fun run_op :: "reply_codec \<Rightarrow> bench_op \<Rightarrow> bench_state \<Rightarrow> bool \<times> bench_state" where
  "run_op cd (DoLogin e) s = BenchLogin cd e s"
| "run_op cd (DoCreate e) s = CreateGameRoom cd e s"
| "run_op cd (DoStart e) s = StartGameRoom cd e s"
| "run_op cd (DoMessage e) s = SendOneMessage cd e s"
| "run_op cd (DoInput n x e) s = BenchSendInput cd n x e s"
| "run_op cd (DoEnterMatch elo e) s = BenchEnterMatch cd elo e s"
| "run_op cd (DoCancelMatch e) s = BenchCancelMatch cd e s"
| "run_op cd (DoJoin r e) s = BenchJoinRoom cd r e s"
| "run_op cd (DoLeave e) s = LeaveGameRoom cd e s"

fun run_ops :: "reply_codec \<Rightarrow> bench_op list \<Rightarrow> bench_state \<Rightarrow> (bench_op \<times> bool) list \<times> bench_state" where
  "run_ops cd [] s = ([], s)"
| "run_ops cd (x # xs) s =
     (case run_op cd x s of (ok, s1) \<Rightarrow> (case run_ops cd xs s1 of (oks, s2) \<Rightarrow> ((x, ok) # oks, s2)))"

fun is_start :: "bench_op \<Rightarrow> bool" where
  "is_start (DoStart e) = True"
| "is_start _ = False"

fun op_ok :: "reply_codec \<Rightarrow> bench_op \<Rightarrow> bool" where
  "op_ok cd (DoLogin e) = replied cd ''Login'' e"
| "op_ok cd (DoCreate e) = replied cd ''CreateRoom'' e"
| "op_ok cd (DoStart e) = replied cd ''StartGame'' e"
| "op_ok cd (DoMessage e) = replied cd ''SendMessage'' e"
| "op_ok cd (DoInput n x e) = replied cd ''SendInput'' e"
| "op_ok cd (DoEnterMatch elo e) = replied cd ''EnterMatch'' e"
| "op_ok cd (DoCancelMatch e) = replied cd ''CancelMatch'' e"
| "op_ok cd (DoJoin r e) = replied cd ''JoinRoom'' e"
| "op_ok cd (DoLeave e) = replied cd ''LeaveRoom'' e"

lemmas bench_op_defs = BenchLogin_def CreateGameRoom_def StartGameRoom_def SendOneMessage_def BenchSendInput_def
  BenchEnterMatch_def BenchCancelMatch_def BenchJoinRoom_def LeaveGameRoom_def

lemma run_op_counted:
  assumes "run_op cd x s = (ok, s')"
  shows "ok = op_ok cd x \<and> counted (if ok then 0 else if is_start x then 2 else 1) s s'"
proof (cases x)
  case (DoStart e)
  obtain ok1 rid c st where t: "timed_op cd ''StartGame'' (StartGameReq (gc_room (fst s)) (gc_player (fst s))) ''start_game'' e s = (ok1, rid, c, st)"
    by (metis prod_cases4)
  with DoStart assms have "ok = ok1" "s' = (c, if ok1 then st else count_failure ''start_game_failed'' st)"
    by (auto simp: StartGameRoom_def)
  with timed_op_counted [OF t] DoStart show ?thesis by (auto simp: counted_def)
qed (use assms in \<open>auto simp: bench_op_defs Let_def dest!: timed_op_counted split: prod.splits if_splits\<close>)


lemma run_ops_counted:
  assumes "run_ops cd ops s = (oks, s')"
  shows "length (samples (bs_latency (snd s'))) = length (samples (bs_latency (snd s))) + length ops \<and>
    qps_sum (bs_qps (snd s')) = qps_sum (bs_qps (snd s)) + length ops \<and>
    length (gc_calls (fst s')) = length (gc_calls (fst s)) + length ops \<and>
    bs_stages (snd s') = bs_stages (snd s) \<and> bs_active (snd s') = bs_active (snd s) \<and>
    gc_connected (fst s') = gc_connected (fst s) \<and>
    oks = map (\<lambda>x. (x, op_ok cd x)) ops \<and>
    ErrorTotal (bs_errors (snd s')) = ErrorTotal (bs_errors (snd s)) +
      length (filter (\<lambda>x. \<not> op_ok cd x) ops) + length (filter (\<lambda>x. is_start x \<and> \<not> op_ok cd x) ops)"
  using assms
proof (induction ops arbitrary: s oks s')
  case Nil
  then show ?case by simp
next
  case (Cons x xs)
  obtain ok s1 where r: "run_op cd x s = (ok, s1)" by (cases "run_op cd x s") auto
  obtain oks2 s2 where rs: "run_ops cd xs s1 = (oks2, s2)" by (cases "run_ops cd xs s1") auto
  have e: "oks = (x, ok) # oks2" "s' = s2" using Cons.prems r rs by auto
  show ?case using run_op_counted [OF r] Cons.IH [OF rs] unfolding e counted_def by auto
qed

text \<open>Whatever a connected client does and whatever the server answers, each operation adds one
  latency sample, one request to the rate and one call on the wire, and an operation that fails adds
  one error - except that a failed StartGame adds two, because both the call helper and the operation
  count it; the connection and the number of active clients are left alone.\<close>

lemma game_client_accounting:
  assumes "run_ops cd ops (c, st) = (oks, c', st')"
  shows "length (samples (bs_latency st')) = length (samples (bs_latency st)) + length ops"
    and "qps_sum (bs_qps st') = qps_sum (bs_qps st) + length ops"
    and "length (gc_calls c') = length (gc_calls c) + length ops"
    and "ErrorTotal (bs_errors st') = ErrorTotal (bs_errors st) +
      length (filter (\<lambda>(x, ok). \<not> ok) oks) + length (filter (\<lambda>(x, ok). is_start x \<and> \<not> ok) oks)"
    and "gc_connected c' = gc_connected c" and "bs_active st' = bs_active st"
  using run_ops_counted [OF assms] by (auto simp: filter_map comp_def)


definition bench_codec :: reply_codec where
  "bench_codec m b = (if b = [] then None else Some (hd b = 1, ''r1''))"

definition bench_reply :: "bytes \<Rightarrow> call_env" where
  "bench_reply b = \<lparr>ce_result = Ready b, ce_start = 0, ce_end = 5\<rparr>"

definition demo_stats :: bench_stats where
  "demo_stats = \<lparr>bs_latency = new_histogram, bs_qps = new_qps 5 0, bs_errors = [],
     bs_stages = \<lparr>stage_histograms = [], success_counts = [], fail_counts = []\<rparr>, bs_active = 1\<rparr>"

definition demo_ops :: "bench_op list" where
  "demo_ops = [DoLogin (bench_reply [1]), DoCreate (bench_reply [1]), DoStart (bench_reply [0]), DoMessage (bench_reply [])]"

lemma game_client_accounting_witness:
  "ErrorTotal (bs_errors (snd (snd (run_ops bench_codec demo_ops (new_game_client 1, demo_stats))))) = 3"
proof -
  obtain oks c st where r: "run_ops bench_codec demo_ops (new_game_client 1, demo_stats) = (oks, c, st)" by (metis prod_cases3)
  have "ErrorTotal (bs_errors st) = 3"
    using game_client_accounting(4) [OF r] run_ops_counted [OF r]
    by (simp add: demo_ops_def replied_def bench_reply_def bench_codec_def demo_stats_def ErrorTotal_sum)
  then show ?thesis by (simp add: r)
qed


subsection \<open>The outcome of the flow\<close>

text \<open>The stages that have been recorded.\<close>

definition stages_recorded :: "stage_timer \<Rightarrow> nat" where
  "stages_recorded t = ErrorTotal (success_counts t) + ErrorTotal (fail_counts t)"

lemma stages_recorded_RecordStage [simp]: "stages_recorded (RecordStage nm v ok t) = stages_recorded t + 1"
  by (simp add: stages_recorded_def RecordStage_def RecordError_total Let_def)

lemma MessageLoop_keeps:
  "bs_stages (snd (MessageLoop cd d es s)) = bs_stages (snd s) \<and> bs_active (snd (MessageLoop cd d es s)) = bs_active (snd s) \<and>
   gc_connected (fst (MessageLoop cd d es s)) = gc_connected (fst s)"
proof (induction cd d es s rule: MessageLoop.induct)
  case (2 cd deadline e es s)
  obtain ok s1 where m: "SendOneMessage cd (re_call e) s = (ok, s1)" by (cases "SendOneMessage cd (re_call e) s") auto
  have "run_op cd (DoMessage (re_call e)) s = (ok, s1)" using m by simp
  from run_op_counted [OF this]
  have k: "bs_stages (snd s1) = bs_stages (snd s)" "bs_active (snd s1) = bs_active (snd s)" "gc_connected (fst s1) = gc_connected (fst s)"
    by (simp_all add: counted_def)
  show ?case
  proof (cases "\<not> (re_stop e \<or> deadline \<le> re_now e) \<and> ok")
    case True
    with 2 m have "bs_stages (snd (MessageLoop cd deadline es s1)) = bs_stages (snd s1) \<and>
      bs_active (snd (MessageLoop cd deadline es s1)) = bs_active (snd s1) \<and>
      gc_connected (fst (MessageLoop cd deadline es s1)) = gc_connected (fst s1)" by metis
    with True m k show ?thesis by simp
  next
    case False
    with m k show ?thesis by auto
  qed
qed simp

text \<open>What one stage of the flow leaves.\<close>

definition at_stage :: "nat \<Rightarrow> bench_state \<Rightarrow> bench_state \<Rightarrow> bool" where
  "at_stage n s s' \<longleftrightarrow> stages_recorded (bs_stages (snd s')) = stages_recorded (bs_stages (snd s)) + n \<and>
     bs_active (snd s') = bs_active (snd s) + 1 \<and> gc_connected (fst s')"

lemma at_stage_op:
  assumes "at_stage n s s1" and "run_op cd x s1 = (ok, s2)"
  shows "at_stage (n + 1) s (stage_done True nm took ok s2) \<and> ok = op_ok cd x"
  using assms(1) run_op_counted [OF assms(2)] by (simp add: at_stage_def counted_def stage_done_def)

lemma at_stage_loop: "at_stage n s s1 \<Longrightarrow> at_stage (n + 1) s (stage_done True nm took True (MessageLoop cd d es s1))"
  by (simp add: at_stage_def stage_done_def MessageLoop_keeps)


lemma at_stage_connect:
  assumes "BenchConnect up s = (ok, s1)"
  shows "ok = up \<and> (ok \<longrightarrow> at_stage 1 s (stage_done True nm took ok s1)) \<and>
    (\<not> ok \<longrightarrow> stages_recorded (bs_stages (snd (stage_done True nm took ok s1))) = stages_recorded (bs_stages (snd s)) + 1 \<and>
      bs_active (snd (stage_done True nm took ok s1)) = bs_active (snd s) \<and> fst (stage_done True nm took ok s1) = fst s)"
  using assms by (auto simp: BenchConnect_def at_stage_def stage_done_def split: if_splits)

lemma full_flow_cases:
  assumes "RunFullFlow cd True e s = (ok, s')" and "\<not> fe_stop e"
  obtains (no_connection) "\<not> fe_connects e" "\<not> ok" "fst s' = fst s" "bs_active (snd s') = bs_active (snd s)"
      "stages_recorded (bs_stages (snd s')) = stages_recorded (bs_stages (snd s)) + 1"
    | (no_login) "fe_connects e" "\<not> replied cd ''Login'' (fe_login e)" "\<not> ok" "at_stage 2 s s'"
    | (no_room) "fe_connects e" "replied cd ''Login'' (fe_login e)" "\<not> replied cd ''CreateRoom'' (fe_create e)" "\<not> ok" "at_stage 3 s s'"
    | (complete) s6 where "fe_connects e" "replied cd ''Login'' (fe_login e)" "replied cd ''CreateRoom'' (fe_create e)" ok
        "at_stage 6 s s6" "s' = BenchDisconnect s6"
proof -
  let ?d = "\<lambda>nm ok s. stage_done True nm (fe_took e) ok s"
  obtain ok1 s1 where 1: "BenchConnect (fe_connects e) s = (ok1, s1)" by (metis surj_pair)
  obtain ok2 s2 where 2: "BenchLogin cd (fe_login e) (?d ''connect'' ok1 s1) = (ok2, s2)" by (metis surj_pair)
  obtain ok3 s3 where 3: "CreateGameRoom cd (fe_create e) (?d ''login'' ok2 s2) = (ok3, s3)" by (metis surj_pair)
  obtain ok4 s4 where 4: "StartGameRoom cd (fe_start e) (?d ''create_room'' ok3 s3) = (ok4, s4)" by (metis surj_pair)
  let ?s5 = "?d ''message_loop'' True (MessageLoop cd (fe_deadline e) (fe_rounds e) (?d ''start_game'' ok4 s4))"
  obtain ok6 s6 where 6: "LeaveGameRoom cd (fe_leave e) ?s5 = (ok6, s6)" by (metis surj_pair)
  note c1 = at_stage_connect [OF 1, of "''connect''" "fe_took e"]
  have c1': "ok1 \<Longrightarrow> at_stage 1 s (?d ''connect'' ok1 s1)" using c1 by blast
  have c2: "ok1 \<Longrightarrow> at_stage 2 s (?d ''login'' ok2 s2) \<and> ok2 = replied cd ''Login'' (fe_login e)"
    using at_stage_op [OF c1', of cd "DoLogin (fe_login e)"] 2 by (simp add: numeral_2_eq_2)
  have c3: "ok1 \<Longrightarrow> at_stage 3 s (?d ''create_room'' ok3 s3) \<and> ok3 = replied cd ''CreateRoom'' (fe_create e)"
    using at_stage_op [OF conjunct1 [OF c2], of cd "DoCreate (fe_create e)"] 3 by simp
  have c4: "ok1 \<Longrightarrow> at_stage 4 s (?d ''start_game'' ok4 s4)"
    using at_stage_op [OF conjunct1 [OF c3], of cd "DoStart (fe_start e)"] 4 by simp
  have c6: "ok1 \<Longrightarrow> at_stage 6 s (?d ''leave_room'' ok6 s6)"
    using at_stage_op [OF at_stage_loop [OF c4], of cd "DoLeave (fe_leave e)"] 6 by simp
  have run: "(ok, s') = (if \<not> ok1 then (False, ?d ''connect'' ok1 s1) else if \<not> ok2 then (False, ?d ''login'' ok2 s2)
       else if \<not> ok3 then (False, ?d ''create_room'' ok3 s3) else (True, BenchDisconnect (?d ''leave_room'' ok6 s6)))"
    unfolding assms(1) [symmetric] by (simp only: RunFullFlow_def assms(2) 1 2 3 4 6 Let_def prod.case if_False)
  consider "\<not> ok1" | ok1 "\<not> ok2" | ok1 ok2 "\<not> ok3" | ok1 ok2 ok3 by blast
  then show ?thesis
  proof cases
    case 1
    with run have "s' = ?d ''connect'' ok1 s1" "\<not> ok" by auto
    with 1 c1 show ?thesis by (intro no_connection) auto
  next
    case 2
    with run have "s' = ?d ''login'' ok2 s2" "\<not> ok" by auto
    with 2 c1 c2 show ?thesis using no_login by blast
  next
    case 3
    with run have "s' = ?d ''create_room'' ok3 s3" "\<not> ok" by auto
    with 3 c1 c2 c3 show ?thesis using no_room by blast
  next
    case 4
    with run have "s' = BenchDisconnect (?d ''leave_room'' ok6 s6)" ok by auto
    with 4 c1 c2 c3 c6 show ?thesis using complete by blast
  qed
qed

lemma flow_active:
  assumes "RunFullFlow cd True e (c, st) = (ok, c', st')" and "\<not> gc_connected c"
  shows "bs_active st' = bs_active st + (if gc_connected c' then 1 else 0)"
proof (cases "fe_stop e")
  case True
  with assms show ?thesis by (simp add: RunFullFlow_def)
next
  case False
  from assms(1) False show ?thesis
  proof (cases rule: full_flow_cases)
    case (complete s6)
    then show ?thesis by (cases s6) (auto simp: at_stage_def BenchDisconnect_def)
  qed (use assms(2) in \<open>auto simp: at_stage_def\<close>)
qed

text \<open>A full flow succeeds exactly when the program is not stopping, the connection is made and the
  server accepts the login and the room; the start of the game, the messages and the leaving do not
  decide. A flow that succeeds has closed its connection and given its place among the active clients
  back; one that fails after connecting leaves both to the destructor. It records one stage when the
  connection fails, two when the login does, three when the room is refused and six otherwise.\<close>

lemma full_flow_outcome:
  assumes "RunFullFlow cd True e (c, st) = (ok, c', st')" and "\<not> gc_connected c"
  shows "ok = (\<not> fe_stop e \<and> fe_connects e \<and> replied cd ''Login'' (fe_login e) \<and> replied cd ''CreateRoom'' (fe_create e))"
    and "gc_connected c' = (\<not> fe_stop e \<and> fe_connects e \<and> \<not> ok)"
    and "bs_active st' = bs_active st + (if gc_connected c' then 1 else 0)"
    and "stages_recorded (bs_stages st') = stages_recorded (bs_stages st) +
      (if fe_stop e then 0 else if \<not> fe_connects e then 1 else if \<not> replied cd ''Login'' (fe_login e) then 2
       else if \<not> ok then 3 else 6)"
proof -
  have "ok = (\<not> fe_stop e \<and> fe_connects e \<and> replied cd ''Login'' (fe_login e) \<and> replied cd ''CreateRoom'' (fe_create e)) \<and>
    gc_connected c' = (\<not> fe_stop e \<and> fe_connects e \<and> \<not> ok) \<and>
    bs_active st' = bs_active st + (if gc_connected c' then 1 else 0) \<and>
    stages_recorded (bs_stages st') = stages_recorded (bs_stages st) +
      (if fe_stop e then 0 else if \<not> fe_connects e then 1 else if \<not> replied cd ''Login'' (fe_login e) then 2
       else if \<not> ok then 3 else 6)" (is ?all)
  proof (cases "fe_stop e")
    case True
    with assms show ?thesis by (simp add: RunFullFlow_def)
  next
    case False
    from assms(1) False show ?thesis
    proof (cases rule: full_flow_cases)
      case (complete s6)
      then show ?thesis using False by (cases s6) (auto simp: at_stage_def BenchDisconnect_def)
    qed (use False assms(2) in \<open>auto simp: at_stage_def\<close>)
  qed
  then show
    "ok = (\<not> fe_stop e \<and> fe_connects e \<and> replied cd ''Login'' (fe_login e) \<and> replied cd ''CreateRoom'' (fe_create e))"
    "gc_connected c' = (\<not> fe_stop e \<and> fe_connects e \<and> \<not> ok)"
    "bs_active st' = bs_active st + (if gc_connected c' then 1 else 0)"
    "stages_recorded (bs_stages st') = stages_recorded (bs_stages st) +
      (if fe_stop e then 0 else if \<not> fe_connects e then 1 else if \<not> replied cd ''Login'' (fe_login e) then 2
       else if \<not> ok then 3 else 6)" by blast+
qed

definition demo_flow :: flow_env where
  "demo_flow = \<lparr>fe_stop = False, fe_connects = True, fe_took = (\<lambda>_. 7), fe_login = bench_reply [1], fe_create = bench_reply [0],
     fe_start = bench_reply [1], fe_deadline = 10, fe_rounds = [], fe_leave = bench_reply [1]\<rparr>"

lemma full_flow_outcome_witness:
  "bs_active (snd (snd (RunFullFlow bench_codec True demo_flow (new_game_client 1, demo_stats)))) = 2"
proof -
  obtain ok c st where r: "RunFullFlow bench_codec True demo_flow (new_game_client 1, demo_stats) = (ok, c, st)"
    by (metis prod_cases3)
  have n: "\<not> gc_connected (new_game_client 1)" by (simp add: new_game_client_def)
  have "bs_active st = 2"
    using full_flow_outcome(1) [OF r n] full_flow_outcome(2) [OF r n] full_flow_outcome(3) [OF r n]
    by (simp add: demo_flow_def replied_def bench_reply_def bench_codec_def demo_stats_def)
  then show ?thesis by (simp add: r)
qed

end
