(* ===== verification/Bench_Modes.thy ===== *)
theory Bench_Modes
  imports Game_Client
begin

text \<open>
  Two modes of \<open>bench/bench_game_client.cpp\<close> that run in one thread: the single mode (a client after the
  other through the full flow) and the chaos mode (clients are connected, some are dropped at random,
  bad messages are sent, the others are checked and cleaned up). What the server answers to a client in
  a phase and the order of the shuffle are arguments; printing and sleeping are left out.
\<close>

subsection \<open>Setting clients up\<close>

record setup_env =
  se_up :: bool
  se_login :: call_env
  se_create :: call_env

text \<open>A client that is not kept is disconnected, by the mode or by its destructor.\<close>

definition SetupClient :: "reply_codec \<Rightarrow> setup_env \<Rightarrow> int \<Rightarrow> bench_stats \<Rightarrow> game_client option \<times> bench_stats" where
  "SetupClient cd e i st =
     (case BenchConnect (se_up e) (new_game_client i, st) of (ok1, s1) \<Rightarrow>
      if \<not> ok1 then (None, snd (BenchDisconnect s1))
      else case BenchLogin cd (se_login e) s1 of (ok2, s2) \<Rightarrow>
      if \<not> ok2 then (None, snd (BenchDisconnect s2))
      else case CreateGameRoom cd (se_create e) s2 of (ok3, s3) \<Rightarrow>
      if \<not> ok3 then (None, snd (BenchDisconnect s3)) else (Some (fst s3), snd s3))"

fun SetupClients :: "reply_codec \<Rightarrow> (int \<Rightarrow> setup_env) \<Rightarrow> int list \<Rightarrow> bench_stats \<Rightarrow> game_client list \<times> bench_stats" where
  "SetupClients cd env [] st = ([], st)"
| "SetupClients cd env (i # ids) st =
     (case SetupClient cd (env i) i st of (c, st1) \<Rightarrow>
      case SetupClients cd env ids st1 of (cs, st2) \<Rightarrow> (case c of None \<Rightarrow> cs | Some x \<Rightarrow> x # cs, st2))"

subsection \<open>The single mode\<close>

text \<open>The destructor of the client disconnects it at the end of its round.\<close>

fun single_rounds :: "reply_codec \<Rightarrow> (int \<Rightarrow> flow_env) \<Rightarrow> int list \<Rightarrow> bench_stats \<Rightarrow> bool list \<times> bench_stats" where
  "single_rounds cd env [] st = ([], st)"
| "single_rounds cd env (r # rs) st =
     (case RunFullFlow cd True (env r) (new_game_client r, st) of (ok, s1) \<Rightarrow>
      case single_rounds cd env rs (snd (BenchDisconnect s1)) of (oks, st2) \<Rightarrow> (ok # oks, st2))"

subsection \<open>The chaos mode\<close>

text \<open>A loop over the clients that are still there.\<close>

fun for_clients :: "(bench_state \<Rightarrow> bench_state) \<Rightarrow> game_client option list \<Rightarrow> bench_stats \<Rightarrow> game_client option list \<times> bench_stats" where
  "for_clients f [] st = ([], st)"
| "for_clients f (None # cs) st = (case for_clients f cs st of (cs', st') \<Rightarrow> (None # cs', st'))"
| "for_clients f (Some c # cs) st =
     (case f (c, st) of (c1, st1) \<Rightarrow> case for_clients f cs st1 of (cs', st') \<Rightarrow> (Some c1 # cs', st'))"

text \<open>The answer to the message of a client in a round.\<close>

type_synonym chaos_net = "nat \<Rightarrow> int \<Rightarrow> call_env"

definition message_round :: "reply_codec \<Rightarrow> chaos_net \<Rightarrow> nat \<Rightarrow> bench_state \<Rightarrow> bench_state" where
  "message_round cd net r s = snd (SendOneMessage cd (net r (gc_id (fst s))) s)"

fun chaos_rounds :: "reply_codec \<Rightarrow> chaos_net \<Rightarrow> nat list \<Rightarrow> game_client option list \<Rightarrow> bench_stats \<Rightarrow> game_client option list \<times> bench_stats" where
  "chaos_rounds cd net [] cs st = (cs, st)"
| "chaos_rounds cd net (r # rs) cs st =
     (case for_clients (message_round cd net r) cs st of (cs1, st1) \<Rightarrow> chaos_rounds cd net rs cs1 st1)"

text \<open>Dropping the clients at some indices; an index beyond the end is not checked for.\<close>

definition drop_client :: "nat \<Rightarrow> game_client option list \<times> bench_stats \<Rightarrow> game_client option list \<times> bench_stats" where
  "drop_client i s =
     (case fst s ! i of None \<Rightarrow> s | Some c \<Rightarrow> ((fst s)[i := None], snd (BenchDisconnect (c, snd s))))"

datatype chaos_error = IndexOutOfRange | LengthError

definition disconnect_count :: "int \<Rightarrow> nat \<Rightarrow> nat" where
  "disconnect_count pct n = nat (int n * pct div 100)"

definition drop_some :: "int \<Rightarrow> nat list \<Rightarrow> game_client option list \<Rightarrow> bench_stats \<Rightarrow> chaos_error + game_client option list \<times> bench_stats" where
  "drop_some pct shuffled cs st =
     (if length shuffled < disconnect_count pct (length shuffled) then Inl IndexOutOfRange
      else Inr (fold drop_client (take (disconnect_count pct (length shuffled)) shuffled) (cs, st)))"

text \<open>The bad messages; nothing of them is counted.\<close>

definition SendOversizedPacket :: "nat \<Rightarrow> game_client \<Rightarrow> game_client" where
  "SendOversizedPacket n c = c\<lparr>gc_calls := gc_calls c @ [(''SendMessage'', SendMessageReq (gc_room c) (gc_player c) (replicate n (CHR ''X'')))]\<rparr>"

definition SendInvalidProtobuf :: "game_client \<Rightarrow> game_client" where
  "SendInvalidProtobuf c = c\<lparr>gc_calls := gc_calls c @ [(''CreateRoom'', RawBody (replicate 256 0xFF))]\<rparr>"

definition SendNonExistentRoom :: "game_client \<Rightarrow> game_client" where
  "SendNonExistentRoom c = c\<lparr>gc_calls := gc_calls c @ [(''SendMessage'', SendMessageReq ''non_existent_room_99999'' (gc_player c) ''bad_room_msg'')]\<rparr>"

definition send_bad_messages :: "int \<Rightarrow> int \<Rightarrow> game_client \<Rightarrow> chaos_error + game_client" where
  "send_bad_messages n bytes c =
     (if 0 < n \<and> bytes < 0 then Inl LengthError
      else Inr ((SendNonExistentRoom ^^ nat n) ((SendInvalidProtobuf ^^ nat n) ((SendOversizedPacket (nat bytes) ^^ nat n) c))))"

fun first_client :: "game_client option list \<Rightarrow> (nat \<times> game_client) option" where
  "first_client [] = None"
| "first_client (None # cs) = map_option (\<lambda>(i, c). (i + 1, c)) (first_client cs)"
| "first_client (Some c # cs) = Some (0, c)"

definition leave_and_disconnect :: "reply_codec \<Rightarrow> (int \<Rightarrow> call_env) \<Rightarrow> bench_state \<Rightarrow> bench_state" where
  "leave_and_disconnect cd net s = BenchDisconnect (snd (LeaveGameRoom cd (net (gc_id (fst s))) s))"

record chaos_env =
  xe_setup :: "int \<Rightarrow> setup_env"
  xe_shuffled :: "nat list"
  xe_net :: chaos_net
  xe_leave :: "int \<Rightarrow> call_env"

definition RunChaosMode :: "reply_codec \<Rightarrow> int list \<Rightarrow> int \<Rightarrow> int \<Rightarrow> int \<Rightarrow> chaos_env \<Rightarrow> bench_stats \<Rightarrow> chaos_error + game_client option list \<times> bench_stats" where
  "RunChaosMode cd ids pct n bytes e st =
     (case SetupClients cd (xe_setup e) ids st of (cs0, st0) \<Rightarrow>
      case chaos_rounds cd (xe_net e) [0, 1, 2, 3, 4] (map Some cs0) st0 of (cs1, st1) \<Rightarrow>
      case drop_some pct (xe_shuffled e) cs1 st1 of
        Inl err \<Rightarrow> Inl err
      | Inr (cs2, st2) \<Rightarrow>
          (case first_client cs2 of
             None \<Rightarrow> Inr (cs2, st2)
           | Some (i, c) \<Rightarrow>
               (case send_bad_messages n bytes c of
                  Inl err \<Rightarrow> Inl err
                | Inr c' \<Rightarrow>
                    (case chaos_rounds cd (xe_net e) [5] (cs2[i := Some c']) st2 of (cs3, st3) \<Rightarrow>
                     Inr (for_clients (leave_and_disconnect cd (xe_leave e)) cs3 st3)))))"


subsection \<open>Every connection is given back\<close>

definition present :: "game_client option list \<Rightarrow> nat" where
  "present cs = length (filter (\<lambda>c. c \<noteq> None) cs)"

definition kept :: "int \<Rightarrow> game_client option list \<Rightarrow> bench_stats \<Rightarrow> bool" where
  "kept base cs st \<longleftrightarrow> (\<forall>c. Some c \<in> set cs \<longrightarrow> gc_connected c) \<and> bs_active st = base + int (present cs)"

lemma present_simps [simp]: "present [] = 0" "present (None # cs) = present cs" "present (Some c # cs) = present cs + 1"
  by (simp_all add: present_def)

lemma kept_simps [simp]:
  "kept base [] st = (bs_active st = base)" "kept base (None # cs) st = kept base cs st"
  "kept base (Some c # cs) st = (gc_connected c \<and> kept (base + 1) cs st)"
  by (auto simp: kept_def)

lemma kept_same_active: "bs_active st = bs_active st' \<Longrightarrow> kept base cs st = kept base cs st'"
  by (simp add: kept_def)

text \<open>An operation that keeps the connection and the number of active clients.\<close>

definition keeps_connection :: "(bench_state \<Rightarrow> bench_state) \<Rightarrow> bool" where
  "keeps_connection f \<longleftrightarrow> (\<forall>s. gc_connected (fst (f s)) = gc_connected (fst s) \<and> bs_active (snd (f s)) = bs_active (snd s))"

lemma run_op_keeps: "gc_connected (fst (snd (run_op cd x s))) = gc_connected (fst s) \<and> bs_active (snd (snd (run_op cd x s))) = bs_active (snd s)"
proof -
  obtain ok s' where r: "run_op cd x s = (ok, s')" by (metis surj_pair)
  show ?thesis using run_op_counted [OF r] by (simp add: r counted_def)
qed

lemmas message_keeps = run_op_keeps [of _ "DoMessage _", simplified]
lemmas leave_keeps = run_op_keeps [of _ "DoLeave _", simplified]
lemmas login_keeps = run_op_keeps [of _ "DoLogin _", simplified]
lemmas create_keeps = run_op_keeps [of _ "DoCreate _", simplified]

lemma message_round_keeps: "keeps_connection (message_round cd net r)"
  by (simp add: keeps_connection_def message_round_def message_keeps)

lemma for_clients_keeps:
  "keeps_connection f \<Longrightarrow> kept base cs st \<Longrightarrow> for_clients f cs st = (cs', st') \<Longrightarrow>
   kept base cs' st' \<and> length cs' = length cs"
proof (induction f cs st arbitrary: base cs' st' rule: for_clients.induct)
  case (2 f cs st)
  obtain cs1 st1 where r: "for_clients f cs st = (cs1, st1)" by (metis surj_pair)
  have e: "cs' = None # cs1" "st' = st1" using 2(4) r by simp_all
  have "kept base cs st" using 2(3) by simp
  from 2(1) [OF 2(2) this r] show ?case by (simp add: e)
next
  case (3 f c cs st)
  obtain c1 st1 where f: "f (c, st) = (c1, st1)" by (metis surj_pair)
  obtain cs2 st2 where r: "for_clients f cs st1 = (cs2, st2)" by (metis surj_pair)
  have e: "cs' = Some c1 # cs2" "st' = st2" using 3(4) f r by simp_all
  have k: "gc_connected c1 = gc_connected c" "bs_active st1 = bs_active st"
    using 3(2) f unfolding keeps_connection_def by (metis fst_conv snd_conv)+
  have "kept (base + 1) cs st1" "gc_connected c" using 3(3) kept_same_active [OF k(2)] by simp_all
  from 3(1) [OF f [symmetric] 3(2) this(1) r] \<open>gc_connected c\<close> show ?case by (simp add: e k)
qed auto

lemma chaos_rounds_keeps:
  "kept base cs st \<Longrightarrow> chaos_rounds cd net rs cs st = (cs', st') \<Longrightarrow> kept base cs' st' \<and> length cs' = length cs"
proof (induction cd net rs cs st rule: chaos_rounds.induct)
  case (2 cd net r rs cs st)
  obtain cs1 st1 where r: "for_clients (message_round cd net r) cs st = (cs1, st1)" by (metis surj_pair)
  note k = for_clients_keeps [OF message_round_keeps 2(2) r]
  have "chaos_rounds cd net rs cs1 st1 = (cs', st')" using 2(3) r by simp
  from 2(1) [OF r [symmetric] conjunct1 [OF k] this] k show ?case by simp
qed simp

lemma SetupClient_kept:
  assumes "SetupClient cd e i st = (c, st')"
  shows "case c of None \<Rightarrow> bs_active st' = bs_active st | Some x \<Rightarrow> gc_connected x \<and> bs_active st' = bs_active st + 1"
proof -
  obtain ok1 s1 where 1: "BenchConnect (se_up e) (new_game_client i, st) = (ok1, s1)" by (metis surj_pair)
  obtain ok2 s2 where 2: "BenchLogin cd (se_login e) s1 = (ok2, s2)" by (metis surj_pair)
  obtain ok3 s3 where 3: "CreateGameRoom cd (se_create e) s2 = (ok3, s3)" by (metis surj_pair)
  have k1: "gc_connected (fst s1) = ok1" "bs_active (snd s1) = bs_active st + (if ok1 then 1 else 0)"
    using 1 by (auto simp: BenchConnect_def new_game_client_def split: if_splits)
  have k2: "gc_connected (fst s2) = ok1" "bs_active (snd s2) = bs_active (snd s1)"
    using login_keeps [of cd "se_login e" s1] 2 k1 by simp_all
  have k3: "gc_connected (fst s3) = ok1" "bs_active (snd s3) = bs_active (snd s1)"
    using create_keeps [of cd "se_create e" s2] 3 k2 by simp_all
  have "(c, st') = (if \<not> ok1 then (None, snd (BenchDisconnect s1)) else if \<not> ok2 then (None, snd (BenchDisconnect s2))
      else if \<not> ok3 then (None, snd (BenchDisconnect s3)) else (Some (fst s3), snd s3))"
    unfolding assms [symmetric] by (simp only: SetupClient_def 1 2 3 prod.case)
  then show ?thesis using k1 k2 k3 by (auto simp: BenchDisconnect_def split: if_splits)
qed

lemma SetupClients_kept: "SetupClients cd env ids st = (cs, st') \<Longrightarrow> kept (bs_active st) (map Some cs) st'"
proof (induction cd env ids st arbitrary: cs st' rule: SetupClients.induct)
  case (2 cd env i ids st)
  obtain c st1 where c: "SetupClient cd (env i) i st = (c, st1)" by (metis surj_pair)
  obtain cs2 st2 where r: "SetupClients cd env ids st1 = (cs2, st2)" by (metis surj_pair)
  have e: "cs = (case c of None \<Rightarrow> cs2 | Some x \<Rightarrow> x # cs2)" "st' = st2" using 2(2) c r by simp_all
  have k: "kept (bs_active st1) (map Some cs2) st2" by (rule 2(1) [OF c [symmetric] r])
  show ?case
  proof (cases c)
    case None
    with k SetupClient_kept [OF c] show ?thesis by (simp add: e)
  next
    case (Some x)
    with k SetupClient_kept [OF c] show ?thesis by (simp add: e)
  qed
qed simp


text \<open>The clients that are kept are those the server accepted.\<close>

definition accepted :: "reply_codec \<Rightarrow> setup_env \<Rightarrow> bool" where
  "accepted cd e \<longleftrightarrow> se_up e \<and> replied cd ''Login'' (se_login e) \<and> replied cd ''CreateRoom'' (se_create e)"

lemma SetupClient_accepted: "(fst (SetupClient cd e i st) = None) = (\<not> accepted cd e)"
proof -
  obtain ok1 s1 where 1: "BenchConnect (se_up e) (new_game_client i, st) = (ok1, s1)" by (metis surj_pair)
  obtain ok2 s2 where 2: "BenchLogin cd (se_login e) s1 = (ok2, s2)" by (metis surj_pair)
  obtain ok3 s3 where 3: "CreateGameRoom cd (se_create e) s2 = (ok3, s3)" by (metis surj_pair)
  have "ok1 = se_up e" using 1 by (auto simp: BenchConnect_def split: if_splits)
  moreover have "ok2 = replied cd ''Login'' (se_login e)" using run_op_counted [of cd "DoLogin (se_login e)" s1 ok2 s2] 2 by simp
  moreover have "ok3 = replied cd ''CreateRoom'' (se_create e)" using run_op_counted [of cd "DoCreate (se_create e)" s2 ok3 s3] 3 by simp
  ultimately show ?thesis by (simp add: SetupClient_def 1 2 3 accepted_def)
qed

lemma SetupClients_length: "length (fst (SetupClients cd env ids st)) = length (filter (\<lambda>i. accepted cd (env i)) ids)"
proof (induction ids arbitrary: st)
  case (Cons i ids)
  show ?case using Cons [of "snd (SetupClient cd (env i) i st)"] SetupClient_accepted [of cd "env i" i st]
    by (auto simp: case_prod_unfold split: option.split)
qed simp

lemma kept_nth: "kept base cs st \<Longrightarrow> i < length cs \<Longrightarrow> cs ! i = Some c \<Longrightarrow>
    gc_connected c \<and> kept (base + 1) (cs[i := None]) st \<and> (gc_connected c' \<longrightarrow> kept base (cs[i := Some c']) st)"
proof (induction cs arbitrary: base i)
  case (Cons x cs)
  then show ?case
    using Cons.IH [of base "i - 1"] Cons.IH [of "base + 1" "i - 1"] by (cases i; cases x) (auto simp: algebra_simps)
qed simp

lemma drop_client_keeps:
  assumes "kept base cs st" and "i < length cs" and "drop_client i (cs, st) = (cs', st')"
  shows "kept base cs' st' \<and> length cs' = length cs"
proof (cases "cs ! i")
  case None
  with assms show ?thesis by (simp add: drop_client_def)
next
  case (Some c)
  have e: "cs' = cs[i := None]" "st' = snd (BenchDisconnect (c, st))" using assms(3) Some by (simp_all add: drop_client_def)
  have "bs_active st' = bs_active st - 1" using kept_nth [OF assms(1,2) Some] by (simp add: e BenchDisconnect_def)
  then show ?thesis using kept_nth [OF assms(1,2) Some] by (simp add: e kept_def)
qed

lemma fold_drop_keeps:
  "kept base cs st \<Longrightarrow> set is \<subseteq> {..< length cs} \<Longrightarrow> fold drop_client is (cs, st) = (cs', st') \<Longrightarrow>
   kept base cs' st' \<and> length cs' = length cs"
proof (induction "is" arbitrary: cs st)
  case (Cons i js)
  obtain cs1 st1 where d: "drop_client i (cs, st) = (cs1, st1)" by (metis surj_pair)
  have k: "kept base cs1 st1 \<and> length cs1 = length cs" using Cons.prems(2) by (intro drop_client_keeps [OF Cons.prems(1) _ d]) simp
  have "set js \<subseteq> {..< length cs1}" "fold drop_client js (cs1, st1) = (cs', st')" using Cons.prems(2,3) d k by simp_all
  from Cons.IH [OF conjunct1 [OF k] this] k show ?case by simp
qed simp

lemma drop_some_keeps:
  assumes "drop_some pct ns cs st = Inr (cs', st')" and "set ns \<subseteq> {..< length cs}" and "kept base cs st"
  shows "kept base cs' st' \<and> length cs' = length cs"
proof -
  have f: "fold drop_client (take (disconnect_count pct (length ns)) ns) (cs, st) = (cs', st')"
    using assms(1) by (simp add: drop_some_def split: if_splits)
  have "set (take (disconnect_count pct (length ns)) ns) \<subseteq> {..< length cs}"
    using assms(2) set_take_subset [of "disconnect_count pct (length ns)" ns] by blast
  from fold_drop_keeps [OF assms(3) this f] show ?thesis .
qed

lemma iterate_connected: "(\<And>c. gc_connected ((f :: game_client \<Rightarrow> game_client) c) = gc_connected c) \<Longrightarrow> gc_connected ((f ^^ n) c) = gc_connected c"
  by (induction n) simp_all

lemma bad_messages_keep: "send_bad_messages n bytes c = Inr c' \<Longrightarrow> gc_connected c' = gc_connected c"
  by (auto simp: send_bad_messages_def SendNonExistentRoom_def SendInvalidProtobuf_def SendOversizedPacket_def iterate_connected split: if_splits)

lemma first_client_nth: "first_client cs = Some (i, c) \<Longrightarrow> i < length cs \<and> cs ! i = Some c"
  by (induction cs arbitrary: i rule: first_client.induct) auto

lemma first_client_none: "first_client cs = None \<Longrightarrow> present cs = 0 \<and> (\<forall>c. Some c \<notin> set cs)"
  by (induction cs rule: first_client.induct) auto

lemma leave_and_disconnect_effect:
  "gc_connected (fst s) \<Longrightarrow> \<not> gc_connected (fst (leave_and_disconnect cd net s)) \<and>
   bs_active (snd (leave_and_disconnect cd net s)) = bs_active (snd s) - 1"
  using leave_keeps [of cd "net (gc_id (fst s))" s] by (simp add: leave_and_disconnect_def BenchDisconnect_def)

lemma cleanup_disconnects:
  "kept base cs st \<Longrightarrow> for_clients (leave_and_disconnect cd net) cs st = (cs', st') \<Longrightarrow>
   bs_active st' = base \<and> (\<forall>c. Some c \<in> set cs' \<longrightarrow> \<not> gc_connected c)"
proof (induction "leave_and_disconnect cd net" cs st arbitrary: base cs' st' rule: for_clients.induct)
  case (2 cs st)
  obtain cs1 st1 where r: "for_clients (leave_and_disconnect cd net) cs st = (cs1, st1)" by (metis surj_pair)
  have e: "cs' = None # cs1" "st' = st1" using 2(3) r by simp_all
  have "kept base cs st" using 2(2) by simp
  from 2(1) [OF this r] show ?case by (auto simp: e)
next
  case (3 c cs st)
  obtain c1 st1 where f: "leave_and_disconnect cd net (c, st) = (c1, st1)" by (metis surj_pair)
  obtain cs2 st2 where r: "for_clients (leave_and_disconnect cd net) cs st1 = (cs2, st2)" by (metis surj_pair)
  have e: "cs' = Some c1 # cs2" "st' = st2" using 3(3) f r by simp_all
  have c: "gc_connected c" "kept (base + 1) cs st" using 3(2) by simp_all
  have k: "\<not> gc_connected c1" "bs_active st1 = bs_active st - 1"
    using leave_and_disconnect_effect [of "(c, st)" cd net] c(1) f by simp_all
  have "kept base cs st1" using c(2) k(2) by (simp add: kept_def)
  from 3(1) [OF f [symmetric] this r] k(1) show ?case by (auto simp: e)
qed simp


lemma single_rounds_balanced: "bs_active (snd (single_rounds cd env rs st)) = bs_active st"
proof (induction rs arbitrary: st)
  case (Cons r rs)
  obtain ok c st1 where f: "RunFullFlow cd True (env r) (new_game_client r, st) = (ok, c, st1)" by (metis prod_cases3)
  have n: "\<not> gc_connected (new_game_client r)" by (simp add: new_game_client_def)
  have a: "bs_active st1 = bs_active st + (if gc_connected c then 1 else 0)" by (rule flow_active [OF f n])
  then have "bs_active (snd (BenchDisconnect (c, st1))) = bs_active st" by (simp add: BenchDisconnect_def)
  with Cons [of "snd (BenchDisconnect (c, st1))"] f show ?case by (simp add: case_prod_unfold)
qed simp

text \<open>The two modes give back every connection they open: after any number of rounds of the single
  mode, whatever fails in them, and after a chaos mode that comes to its end, the number of active
  connections is what it was, and the clients that are left are disconnected. The chaos mode comes to
  its end unless it drops more clients than there are, which a percentage above 100 asks for and nothing
  rules out, or the oversized packet has a negative size.\<close>

lemma bench_modes_balanced:
  assumes "SetupClients cd (xe_setup e) ids st = (cs0, st0)" and "mset (xe_shuffled e) = mset [0..<length cs0]"
  shows "bs_active (snd (single_rounds cd env rs st)) = bs_active st"
    and "RunChaosMode cd ids pct n bytes e st = Inr (cs, st') \<Longrightarrow>
      bs_active st' = bs_active st \<and> (\<forall>c. Some c \<in> set cs \<longrightarrow> \<not> gc_connected c)"
    and "(RunChaosMode cd ids pct n bytes e st = Inl IndexOutOfRange) = (length cs0 < disconnect_count pct (length cs0))"
    and "RunChaosMode cd ids pct n bytes e st = Inl LengthError \<Longrightarrow> 0 < n \<and> bytes < 0"
proof -
  show "bs_active (snd (single_rounds cd env rs st)) = bs_active st" by (rule single_rounds_balanced)
  obtain cs1 st1 where r: "chaos_rounds cd (xe_net e) [0, 1, 2, 3, 4] (map Some cs0) st0 = (cs1, st1)" by (metis surj_pair)
  have len: "length (xe_shuffled e) = length cs0" using assms(2) by (metis length_upt minus_nat.diff_0 size_mset)
  have k1: "kept (bs_active st) cs1 st1 \<and> length cs1 = length cs0"
    using chaos_rounds_keeps [OF SetupClients_kept [OF assms(1)] r] by simp
  have ns: "set (xe_shuffled e) \<subseteq> {..< length cs1}"
    using k1 mset_eq_setD [OF assms(2)] by auto
  note run = RunChaosMode_def [of cd ids pct n bytes e st, unfolded assms(1) prod.case r]
  show "(RunChaosMode cd ids pct n bytes e st = Inl IndexOutOfRange) = (length cs0 < disconnect_count pct (length cs0))"
    unfolding run by (auto simp: drop_some_def len send_bad_messages_def split: sum.splits option.splits prod.splits if_splits)
  show "RunChaosMode cd ids pct n bytes e st = Inl LengthError \<Longrightarrow> 0 < n \<and> bytes < 0"
    unfolding run by (auto simp: drop_some_def send_bad_messages_def split: sum.splits option.splits prod.splits if_splits)
  show "bs_active st' = bs_active st \<and> (\<forall>c. Some c \<in> set cs \<longrightarrow> \<not> gc_connected c)"
    if done_ok: "RunChaosMode cd ids pct n bytes e st = Inr (cs, st')"
  proof -
    obtain cs2 st2 where d: "drop_some pct (xe_shuffled e) cs1 st1 = Inr (cs2, st2)"
      using done_ok unfolding run by (cases "drop_some pct (xe_shuffled e) cs1 st1") (simp, metis surj_pair)
    note k2 = drop_some_keeps [OF d ns conjunct1 [OF k1]]
    note tail = done_ok [unfolded run d sum.case prod.case]
    show ?thesis
    proof (cases "first_client cs2")
      case None
      then have "cs = cs2" "st' = st2" using tail by simp_all
      with first_client_none [OF None] k2 show ?thesis by (simp add: kept_def)
    next
      case (Some ic)
      obtain i c where ic: "ic = (i, c)" by (metis surj_pair)
      note at = first_client_nth [OF Some [unfolded ic]]
      obtain c' where b: "send_bad_messages n bytes c = Inr c'" using tail Some ic by (auto split: sum.splits)
      obtain cs3 st3 where l: "chaos_rounds cd (xe_net e) [5] (cs2[i := Some c']) st2 = (cs3, st3)" by (metis surj_pair)
      have f: "for_clients (leave_and_disconnect cd (xe_leave e)) cs3 st3 = (cs, st')" 
        using tail Some ic b l by (simp split: prod.splits)
      have "kept (bs_active st) (cs2[i := Some c']) st2"
        using kept_nth [OF conjunct1 [OF k2] conjunct1 [OF at] conjunct2 [OF at], of c'] bad_messages_keep [OF b] by simp
      from cleanup_disconnects [OF conjunct1 [OF chaos_rounds_keeps [OF this l]] f] show ?thesis .
    qed
  qed
qed


definition demo_chaos :: chaos_env where
  "demo_chaos = \<lparr>xe_setup = (\<lambda>i. \<lparr>se_up = True, se_login = bench_reply [1], se_create = bench_reply [if i = 1 then 0 else 1]\<rparr>),
     xe_shuffled = [1, 0], xe_net = (\<lambda>_ _. bench_reply [1]), xe_leave = (\<lambda>_. bench_reply [0])\<rparr>"

lemma demo_setup: "length (fst (SetupClients bench_codec (xe_setup demo_chaos) [0, 1, 2] demo_stats)) = 2"
  by (simp add: SetupClients_length accepted_def demo_chaos_def replied_def bench_reply_def bench_codec_def del: SetupClients.simps)

lemma bench_modes_balanced_witness:
  "RunChaosMode bench_codec [0, 1, 2] 150 3 8 demo_chaos demo_stats = Inl IndexOutOfRange \<and>
   bs_active (snd (single_rounds bench_codec (\<lambda>_. demo_flow) [0, 1] demo_stats)) = 1"
proof -
  obtain cs0 st0 where s: "SetupClients bench_codec (xe_setup demo_chaos) [0, 1, 2] demo_stats = (cs0, st0)" by (metis surj_pair)
  have l: "length cs0 = 2" using demo_setup unfolding s by simp
  have m: "mset (xe_shuffled demo_chaos) = mset [0..<length cs0]" by (simp add: l demo_chaos_def numeral_2_eq_2)
  show ?thesis
    using bench_modes_balanced(1) [OF s m] bench_modes_balanced(3) [OF s m, of 150 3 8]
    by (simp add: l disconnect_count_def demo_stats_def del: single_rounds.simps)
qed

end
