(* ===== verification/Client_Threads.thy ===== *)
theory Client_Threads
  imports Bench_Modes
begin

text \<open>
  The threads of the load modes of \<open>bench/bench_game_client.cpp\<close>: each runs a loop over a client of its
  own, and one more thread reports every few seconds. They share only the counters, which lock
  themselves. A schedule is the list of the iterations of the loops and of the reports in the order
  they take effect. An iteration, a call with the updates of the counters that follow it, is one step:
  the counters are locked one by one in the program, so another thread may come in between two updates,
  which changes no client and no sum but is not modelled.
\<close>

subsection \<open>Schedules\<close>

text \<open>One pass through the loop of thread \<open>i\<close>: whether it goes on, its local state and the counters.\<close>

type_synonym ('l, 'e) iteration = "nat \<Rightarrow> 'e \<Rightarrow> 'l \<times> bench_stats \<Rightarrow> bool \<times> 'l \<times> bench_stats"

datatype 'e load_event = Iterate nat 'e | Report int call_env

record 'l load_state =
  ls_threads :: "(bool \<times> 'l) list"
  ls_metrics :: "game_client option"
  ls_stats :: bench_stats

definition thread_step :: "('l, 'e) iteration \<Rightarrow> nat \<Rightarrow> 'e \<Rightarrow> 'l load_state \<Rightarrow> 'l load_state" where
  "thread_step f i e s =
     (if i < length (ls_threads s) \<and> fst (ls_threads s ! i)
      then case f i e (snd (ls_threads s ! i), ls_stats s) of
             (go, l, st) \<Rightarrow> s\<lparr>ls_threads := (ls_threads s)[i := (go, l)], ls_stats := st\<rparr>
      else s)"

text \<open>A report advances the window, sorts the latencies, and queries the server over a client of its own.\<close>

definition report_stats :: "int \<Rightarrow> bench_stats \<Rightarrow> bench_stats" where
  "report_stats now st = st\<lparr>bs_qps := QpsTick now (bs_qps st), bs_latency := snd (ComputePercentiles (bs_latency st))\<rparr>"

definition report_step :: "reply_codec \<Rightarrow> int \<Rightarrow> call_env \<Rightarrow> 'l load_state \<Rightarrow> 'l load_state" where
  "report_step cd now e s =
     (let st = report_stats now (ls_stats s)
      in case ls_metrics s of
           None \<Rightarrow> s\<lparr>ls_stats := st\<rparr>
         | Some m \<Rightarrow> (case QueryServerMetrics cd e (m, st) of
                       (_, m', st') \<Rightarrow> s\<lparr>ls_metrics := Some m', ls_stats := st'\<rparr>))"

fun load_step :: "reply_codec \<Rightarrow> ('l, 'e) iteration \<Rightarrow> 'e load_event \<Rightarrow> 'l load_state \<Rightarrow> 'l load_state" where
  "load_step cd f (Iterate i e) s = thread_step f i e s"
| "load_step cd f (Report now e) s = report_step cd now e s"

definition run_load :: "reply_codec \<Rightarrow> ('l, 'e) iteration \<Rightarrow> 'e load_event list \<Rightarrow> 'l load_state \<Rightarrow> 'l load_state" where
  "run_load cd f evs s = fold (load_step cd f) evs s"

text \<open>All the loops have ended, so that the threads can be joined.\<close>

definition joinable :: "'l load_state \<Rightarrow> bool" where
  "joinable s \<longleftrightarrow> (\<forall>(go, l) \<in> set (ls_threads s). \<not> go)"

subsection \<open>The reporter\<close>

lemma ComputePercentiles_samples: "length (samples (snd (ComputePercentiles h))) = length (samples h)"
  by (simp add: ComputePercentiles_def AvgLatency_def MinLatency_def MaxLatency_def Percentile_def Let_def)

lemma report_stats_keeps [simp]:
  "length (samples (bs_latency (report_stats now st))) = length (samples (bs_latency st))"
  "bs_active (report_stats now st) = bs_active st" "bs_errors (report_stats now st) = bs_errors st"
  "bs_stages (report_stats now st) = bs_stages st"
  by (simp_all add: report_stats_def ComputePercentiles_samples)

lemma report_step_keeps:
  "ls_threads (report_step cd now e s) = ls_threads s"
  "length (samples (bs_latency (ls_stats (report_step cd now e s)))) = length (samples (bs_latency (ls_stats s)))"
  "bs_active (ls_stats (report_step cd now e s)) = bs_active (ls_stats s)"
  "(ls_metrics (report_step cd now e s) = None) = (ls_metrics s = None)"
  by (auto simp: report_step_def Let_def QueryServerMetrics_def dest!: TimedCall_effect split: option.splits prod.splits)

subsection \<open>Threads do not disturb each other\<close>

text \<open>The iterations of one thread, and what they come to when it runs alone.\<close>

fun events_of :: "nat \<Rightarrow> 'e load_event list \<Rightarrow> 'e list" where
  "events_of i [] = []"
| "events_of i (Iterate j e # evs) = (if i = j then e # events_of i evs else events_of i evs)"
| "events_of i (Report now e # evs) = events_of i evs"

fun run_alone :: "('e \<Rightarrow> 'l \<Rightarrow> bool \<times> 'l) \<Rightarrow> 'e list \<Rightarrow> bool \<times> 'l \<Rightarrow> bool \<times> 'l" where
  "run_alone g [] t = t"
| "run_alone g (e # es) (True, l) = run_alone g es (g e l)"
| "run_alone g (e # es) (False, l) = (False, l)"

lemma run_alone_stopped [simp]: "run_alone g es (False, l) = (False, l)"
  by (cases es) simp_all

lemma sum_updated:
  "i < length xs \<Longrightarrow> sum_list (map w (xs[i := y])) + w (xs ! i) = sum_list (map w xs) + (w y :: nat)"
  by (induction xs arbitrary: i) (auto simp: nth_Cons' split: nat.split simp flip: One_nat_def)

text \<open>
  What the modes need of their loops: the local state of an iteration does not depend on the counters,
  the samples grow by the calls it makes, and the number of active clients by the connections it opens.
  From this every schedule gives each thread what it computes alone, and the counters add up.
\<close>

locale client_loop =
  fixes f :: "('l, 'e) iteration"
    and g :: "nat \<Rightarrow> 'e \<Rightarrow> 'l \<Rightarrow> bool \<times> 'l"
    and calls :: "'l \<Rightarrow> nat"
    and connections :: "'l \<Rightarrow> nat"
  assumes local: "f i e (l, st) = (go, l', st') \<Longrightarrow> g i e l = (go, l')"
    and sampled: "f i e (l, st) = (go, l', st') \<Longrightarrow>
      length (samples (bs_latency st')) + calls l = length (samples (bs_latency st)) + calls l'"
    and active: "f i e (l, st) = (go, l', st') \<Longrightarrow> bs_active st' + int (connections l) = bs_active st + int (connections l')"
    and rate: "f i e (l, st) = (go, l', st') \<Longrightarrow> buckets (bs_qps st') = buckets (bs_qps st)"
begin

abbreviation total_of :: "('l \<Rightarrow> nat) \<Rightarrow> 'l load_state \<Rightarrow> nat" where
  "total_of w s \<equiv> sum_list (map (w \<circ> snd) (ls_threads s))"

lemma length_threads: "length (ls_threads (load_step cd f x s)) = length (ls_threads s)"
  by (cases x) (simp_all add: thread_step_def report_step_keeps split: prod.split)

lemma length_run: "length (ls_threads (run_load cd f evs s)) = length (ls_threads s)"
  by (induction evs arbitrary: s) (simp_all add: run_load_def length_threads)

lemma alone:
  assumes "i < length (ls_threads s)"
  shows "ls_threads (run_load cd f evs s) ! i = run_alone (g i) (events_of i evs) (ls_threads s ! i)"
  using assms
proof (induction evs arbitrary: s)
  case (Cons x evs)
  have IH: "ls_threads (run_load cd f (x # evs) s) ! i = run_alone (g i) (events_of i evs) (ls_threads (load_step cd f x s) ! i)"
    using Cons.IH [of "load_step cd f x s"] Cons.prems by (simp add: run_load_def length_threads)
  show ?case
  proof (cases x)
    case (Report now e)
    then show ?thesis using IH by (simp add: report_step_keeps)
  next
    case (Iterate j e)
    obtain go l where t: "ls_threads s ! j = (go, l)" by force
    obtain go' l' st' where r: "f j e (l, ls_stats s) = (go', l', st')" using prod_cases3 by blast
    show ?thesis
    proof (cases "j = i")
      case True
      then show ?thesis using IH Cons.prems local [OF r] t r by (cases go) (simp_all add: Iterate thread_step_def)
    next
      case False
      then show ?thesis using IH by (simp add: Iterate thread_step_def split: prod.split)
    qed
  qed
qed (simp add: run_load_def)

lemma step_adds:
  "length (samples (bs_latency (ls_stats (load_step cd f x s)))) + total_of calls s =
     length (samples (bs_latency (ls_stats s))) + total_of calls (load_step cd f x s) \<and>
   bs_active (ls_stats (load_step cd f x s)) + int (total_of connections s) =
     bs_active (ls_stats s) + int (total_of connections (load_step cd f x s))"
proof (cases x)
  case (Report now e)
  then show ?thesis by (simp add: report_step_keeps)
next
  case (Iterate i e)
  obtain go l where t: "ls_threads s ! i = (go, l)" by force
  obtain go' l' st' where r: "f i e (l, ls_stats s) = (go', l', st')" using prod_cases3 by blast
  show ?thesis
  proof (cases "i < length (ls_threads s) \<and> go")
    case False
    then show ?thesis by (auto simp: Iterate thread_step_def t)
  next
    case True
    then have step: "ls_threads (load_step cd f x s) = (ls_threads s)[i := (go', l')]" "ls_stats (load_step cd f x s) = st'"
      by (simp_all add: Iterate thread_step_def t r)
    have sums: "total_of w (load_step cd f x s) + w l = total_of w s + w l'" for w
      using sum_updated [of i "ls_threads s" "w \<circ> snd" "(go', l')"] True by (simp add: step t)
    show ?thesis using sums [of calls] sums [of connections] sampled [OF r] active [OF r] by (simp add: step)
  qed
qed

lemma adds_up:
  "length (samples (bs_latency (ls_stats (run_load cd f evs s)))) + total_of calls s =
     length (samples (bs_latency (ls_stats s))) + total_of calls (run_load cd f evs s)"
  "bs_active (ls_stats (run_load cd f evs s)) + int (total_of connections s) =
     bs_active (ls_stats s) + int (total_of connections (run_load cd f evs s))"
proof (induction evs arbitrary: s)
  case (Cons x evs)
  have u: "run_load cd f (x # evs) s = run_load cd f evs (load_step cd f x s)" for s by (simp add: run_load_def)
  {
    case 1
    show ?case using Cons.IH(1) [of "load_step cd f x s"] step_adds [of cd x s] unfolding u by linarith
  next
    case 2
    show ?case using Cons.IH(2) [of "load_step cd f x s"] step_adds [of cd x s] unfolding u by linarith
  }
qed (simp_all add: run_load_def)

text \<open>Between two reports the rate stands still, whatever the clients do.\<close>

lemma rate_stands:
  "\<forall>x \<in> set evs. \<exists>i e. x = Iterate i e \<Longrightarrow>
     buckets (bs_qps (ls_stats (run_load cd f evs s))) = buckets (bs_qps (ls_stats s))"
proof (induction evs arbitrary: s)
  case (Cons x evs)
  then obtain i e where x: "x = Iterate i e" by auto
  obtain go l where t: "ls_threads s ! i = (go, l)" by force
  obtain go' l' st' where r: "f i e (l, ls_stats s) = (go', l', st')" using prod_cases3 by blast
  have "buckets (bs_qps (ls_stats (load_step cd f x s))) = buckets (bs_qps (ls_stats s))"
    using rate [OF r] by (simp add: x thread_step_def t r)
  with Cons.IH [of "load_step cd f x s"] Cons.prems show ?case by (simp add: run_load_def)
qed (simp add: run_load_def)

end

end
