(* ===== verification/Client_Loops.thy ===== *)
theory Client_Loops
  imports Client_Threads
begin

text \<open>
  The loops the threads of the load modes of \<open>bench/bench_game_client.cpp\<close> run: the message loop of the
  steady mode, the match loop, the frame loop, and the full flow of the ramp mode taken apart into
  steps. Each is an instance of the contract of \<open>Client_Threads\<close>.
\<close>

subsection \<open>The loops\<close>

definition steady_iter :: "reply_codec \<Rightarrow> int \<Rightarrow> (game_client, round_env) iteration" where
  "steady_iter cd deadline i e s =
     (if re_stop e \<or> deadline \<le> re_now e then (False, s) else SendOneMessage cd (re_call e) s)"

text \<open>A round of the match loop is two calls; the flag says that the second is still to come.\<close>

datatype match_event = MatchEnter round_env fp | MatchCancel call_env

fun match_iter :: "reply_codec \<Rightarrow> int \<Rightarrow> (bool \<times> game_client, match_event) iteration" where
  "match_iter cd deadline i (MatchEnter e elo) ((waiting, c), st) =
     (if waiting then (True, (waiting, c), st)
      else if re_stop e \<or> deadline \<le> re_now e then (False, (False, c), st)
      else (case BenchEnterMatch cd elo (re_call e) (c, st) of (ok, c', st') \<Rightarrow> (ok, (ok, c'), st')))"
| "match_iter cd deadline i (MatchCancel e) ((waiting, c), st) =
     (if waiting then (case BenchCancelMatch cd e (c, st) of (_, c', st') \<Rightarrow> (True, (False, c'), st'))
      else (True, (waiting, c), st))"

text \<open>The local state of a frame loop is the frame number and the client, if there is one.\<close>

fun framesync_iter :: "reply_codec \<Rightarrow> int \<Rightarrow> (u32 \<times> game_client option, round_env) iteration" where
  "framesync_iter cd deadline i e ((n, None), st) = (False, (n, None), st)"
| "framesync_iter cd deadline i e ((n, Some c), st) =
     (if re_stop e \<or> deadline \<le> re_now e then (False, (n, Some c), st)
      else (case BenchSendInput cd n (''f'' @ dec (unat n) @ ''_p'' @ dec i) (re_call e) (c, st) of
              (ok, c', st') \<Rightarrow> (ok, (if ok then n + 1 else n, Some c'), st')))"

text \<open>
  A thread of the ramp mode: it creates its client, takes the steps of \<open>RunFullFlow\<close> and destroys the
  client.
\<close>

datatype flow_pc = AtConnect | AtLogin | AtCreate | AtStart | AtLoop "round_env list" | AfterLoop | AtLeave | AtDisconnect | AtEnd bool

definition end_stage :: "bool \<Rightarrow> string \<Rightarrow> flow_env \<Rightarrow> flow_pc \<Rightarrow> flow_pc \<Rightarrow> bool \<times> bench_state \<Rightarrow> bool \<times> (flow_pc \<times> game_client) \<times> bench_stats" where
  "end_stage rec nm env good bad r =
     (case r of (ok, s) \<Rightarrow> case stage_done rec nm (fe_took env) ok s of
        (c, st) \<Rightarrow> (True, (if ok then good else bad, c), st))"

fun flow_iter :: "reply_codec \<Rightarrow> (nat \<Rightarrow> flow_env) \<Rightarrow> (flow_pc \<times> game_client, unit) iteration" where
  "flow_iter cd env i e ((AtConnect, _), st) =
     (let c = new_game_client (int i)
      in if fe_stop (env i) then (True, (AtEnd False, c), st)
         else end_stage (i = 0) ''connect'' (env i) AtLogin (AtEnd False) (BenchConnect (fe_connects (env i)) (c, st)))"
| "flow_iter cd env i e ((AtLogin, c), st) =
     end_stage (i = 0) ''login'' (env i) AtCreate (AtEnd False) (BenchLogin cd (fe_login (env i)) (c, st))"
| "flow_iter cd env i e ((AtCreate, c), st) =
     end_stage (i = 0) ''create_room'' (env i) AtStart (AtEnd False) (CreateGameRoom cd (fe_create (env i)) (c, st))"
| "flow_iter cd env i e ((AtStart, c), st) =
     end_stage (i = 0) ''start_game'' (env i) (AtLoop (fe_rounds (env i))) (AtLoop (fe_rounds (env i))) (StartGameRoom cd (fe_start (env i)) (c, st))"
| "flow_iter cd env i e ((AtLoop [], c), st) = (True, (AfterLoop, c), st)"
| "flow_iter cd env i e ((AtLoop (r # rs), c), st) =
     (if re_stop r \<or> fe_deadline (env i) \<le> re_now r then (True, (AfterLoop, c), st)
      else (case SendOneMessage cd (re_call r) (c, st) of
              (ok, c', st') \<Rightarrow> (True, (if ok then AtLoop rs else AfterLoop, c'), st')))"
| "flow_iter cd env i e ((AfterLoop, c), st) = end_stage (i = 0) ''message_loop'' (env i) AtLeave AtLeave (True, (c, st))"
| "flow_iter cd env i e ((AtLeave, c), st) =
     end_stage (i = 0) ''leave_room'' (env i) AtDisconnect AtDisconnect (LeaveGameRoom cd (fe_leave (env i)) (c, st))"
| "flow_iter cd env i e ((AtDisconnect, c), st) =
     (case BenchDisconnect (c, st) of (c', st') \<Rightarrow> (True, (AtEnd True, c'), st'))"
| "flow_iter cd env i e ((AtEnd ok, c), st) =
     (case BenchDisconnect (c, st) of (c', st') \<Rightarrow> (False, (AtEnd ok, c'), st'))"

subsection \<open>The loops are loops of clients\<close>

definition linked :: "game_client \<Rightarrow> nat" where
  "linked c = (if gc_connected c then 1 else 0)"

text \<open>What the calls do to the client, without the counters.\<close>

definition unused_stats :: bench_stats where
  "unused_stats = \<lparr>bs_latency = new_histogram, bs_qps = new_qps 5 0, bs_errors = [],
     bs_stages = \<lparr>stage_histograms = [], success_counts = [], fail_counts = []\<rparr>, bs_active = 0\<rparr>"

definition alone_of :: "('l, 'e) iteration \<Rightarrow> nat \<Rightarrow> 'e \<Rightarrow> 'l \<Rightarrow> bool \<times> 'l" where
  "alone_of f i e l = (case f i e (l, unused_stats) of (go, l', _) \<Rightarrow> (go, l'))"

lemma run_op_local:
  "fst (run_op cd x (c, st)) = fst (run_op cd x (c, st0)) \<and>
   fst (snd (run_op cd x (c, st))) = fst (snd (run_op cd x (c, st0)))"
  by (cases x) (simp_all add: bench_op_defs timed_op_def Let_def TimedCall_def
      split: future_result.split option.split prod.split)

lemma TimedCall_rate: "bs_qps (snd (snd (TimedCall cd meth label r st))) = bs_qps st"
  by (simp add: TimedCall_def count_failure_def split: future_result.split option.split prod.split)

lemma run_op_rate: "buckets (bs_qps (snd (snd (run_op cd x s)))) = buckets (bs_qps (snd s))"
  by (cases x) (simp_all add: bench_op_defs timed_op_def Let_def record_call_def RecordRequest_def TimedCall_rate
      count_failure_def case_prod_unfold)

text \<open>What the loops use of an operation.\<close>

definition op_effect :: "game_client \<times> bench_stats \<Rightarrow> game_client \<times> bench_stats \<Rightarrow> bool" where
  "op_effect s s' \<longleftrightarrow>
     length (samples (bs_latency (snd s'))) + length (gc_calls (fst s)) = length (samples (bs_latency (snd s))) + length (gc_calls (fst s')) \<and>
     bs_active (snd s') + int (linked (fst s)) = bs_active (snd s) + int (linked (fst s')) \<and>
     buckets (bs_qps (snd s')) = buckets (bs_qps (snd s))"

lemma op_effect_refl [simp]: "op_effect s s" by (simp add: op_effect_def)

lemma op_effect_trans: "op_effect s s1 \<Longrightarrow> op_effect s1 s2 \<Longrightarrow> op_effect s s2"
  by (simp add: op_effect_def)

lemma run_op_effect: "run_op cd x s = (ok, s') \<Longrightarrow> op_effect s s'"
  using run_op_counted [of cd x s ok s'] run_op_rate [of cd x s]
  by (simp add: op_effect_def counted_def linked_def)

lemma connect_effect: "\<not> gc_connected (fst s) \<Longrightarrow> BenchConnect up s = (ok, s') \<Longrightarrow> op_effect s s'"
  by (auto simp: BenchConnect_def op_effect_def linked_def count_failure_def split: if_splits)

lemma disconnect_effect: "op_effect s (BenchDisconnect s)"
  by (simp add: BenchDisconnect_def op_effect_def linked_def)

lemma stage_effect: "op_effect s (stage_done rec nm took ok s)"
  by (simp add: stage_done_def op_effect_def linked_def)

lemmas op_effects = run_op_effect [of _ "DoMessage _", simplified] run_op_effect [of _ "DoEnterMatch _ _", simplified]
  run_op_effect [of _ "DoCancelMatch _", simplified] run_op_effect [of _ "DoInput _ _ _", simplified]
  run_op_effect [of _ "DoLogin _", simplified] run_op_effect [of _ "DoCreate _", simplified]
  run_op_effect [of _ "DoStart _", simplified] run_op_effect [of _ "DoLeave _", simplified]

lemma run_op_elsewhere:
  assumes "run_op cd x (c, st) = (ok, c', st')"
  shows "\<exists>st2. run_op cd x (c, st0) = (ok, c', st2)"
  using assms run_op_local [of cd x c st st0] by (cases "run_op cd x (c, st0)") auto

lemmas ops_elsewhere = run_op_elsewhere [of _ "DoMessage _", simplified] run_op_elsewhere [of _ "DoEnterMatch _ _", simplified]
  run_op_elsewhere [of _ "DoCancelMatch _", simplified] run_op_elsewhere [of _ "DoInput _ _ _", simplified]
  run_op_elsewhere [of _ "DoLogin _", simplified] run_op_elsewhere [of _ "DoCreate _", simplified]
  run_op_elsewhere [of _ "DoStart _", simplified] run_op_elsewhere [of _ "DoLeave _", simplified]

interpretation steady: client_loop "steady_iter cd deadline" "alone_of (steady_iter cd deadline)" "length \<circ> gc_calls" linked
proof
  fix i e l st go l' st' assume r: "steady_iter cd deadline i e (l, st) = (go, l', st')"
  have "op_effect (l, st) (l', st')"
    using r by (auto simp: steady_iter_def dest: op_effects split: if_splits)
  then show "length (samples (bs_latency st')) + (length \<circ> gc_calls) l = length (samples (bs_latency st)) + (length \<circ> gc_calls) l'"
    "bs_active st' + int (linked l) = bs_active st + int (linked l')" "buckets (bs_qps st') = buckets (bs_qps st)"
    by (simp_all add: op_effect_def)
  show "alone_of (steady_iter cd deadline) i e l = (go, l')"
    using r ops_elsewhere(1) [of cd "re_call e" l st go l' st' unused_stats]
    by (auto simp: steady_iter_def alone_of_def split: if_splits)
qed

interpretation match_loop: client_loop "match_iter cd deadline" "alone_of (match_iter cd deadline)"
  "length \<circ> gc_calls \<circ> snd" "linked \<circ> snd"
proof
  fix i e st go l' st' and l :: "bool \<times> game_client"
  assume r: "match_iter cd deadline i e (l, st) = (go, l', st')"
  obtain w c where l: "l = (w, c)" by force
  obtain w' c' where l': "l' = (w', c')" by force
  have "op_effect (c, st) (c', st')"
    using r by (cases e) (auto simp: l l' dest: op_effects split: if_splits prod.splits)
  then show "length (samples (bs_latency st')) + (length \<circ> gc_calls \<circ> snd) l = length (samples (bs_latency st)) + (length \<circ> gc_calls \<circ> snd) l'"
    "bs_active st' + int ((linked \<circ> snd) l) = bs_active st + int ((linked \<circ> snd) l')" "buckets (bs_qps st') = buckets (bs_qps st)"
    by (simp_all add: op_effect_def l l')
  show "alone_of (match_iter cd deadline) i e l = (go, l')"
  proof (cases e)
    case (MatchEnter e1 elo)
    then show ?thesis
      using r ops_elsewhere(2) [of cd elo "re_call e1" c st _ _ _ unused_stats]
      by (fastforce simp: l l' alone_of_def split: if_splits prod.splits)
  next
    case (MatchCancel e1)
    then show ?thesis
      using r ops_elsewhere(3) [of cd e1 c st _ _ _ unused_stats]
      by (fastforce simp: l l' alone_of_def split: if_splits prod.splits)
  qed
qed


definition framesync_calls :: "u32 \<times> game_client option \<Rightarrow> nat" where
  "framesync_calls l = (case snd l of None \<Rightarrow> 0 | Some c \<Rightarrow> length (gc_calls c))"

definition framesync_linked :: "u32 \<times> game_client option \<Rightarrow> nat" where
  "framesync_linked l = (case snd l of None \<Rightarrow> 0 | Some c \<Rightarrow> linked c)"

interpretation frames: client_loop "framesync_iter cd deadline" "alone_of (framesync_iter cd deadline)"
  framesync_calls framesync_linked
proof
  fix i e st go l' st' and l :: "u32 \<times> game_client option"
  assume r: "framesync_iter cd deadline i e (l, st) = (go, l', st')"
  obtain n oc where l: "l = (n, oc)" by force
  have "(length (samples (bs_latency st')) + framesync_calls l = length (samples (bs_latency st)) + framesync_calls l' \<and>
    bs_active st' + int (framesync_linked l) = bs_active st + int (framesync_linked l') \<and>
    buckets (bs_qps st') = buckets (bs_qps st)) \<and> alone_of (framesync_iter cd deadline) i e l = (go, l')"
  proof (cases oc)
    case None
    then show ?thesis using r by (auto simp: l alone_of_def)
  next
    case (Some c)
    obtain ok c1 st1 where b: "BenchSendInput cd n (''f'' @ dec (unat n) @ ''_p'' @ dec i) (re_call e) (c, st) = (ok, c1, st1)"
      using prod_cases3 by blast
    have "op_effect (c, st) (c1, st1)" using b by (rule op_effects)
    moreover obtain st2 where "BenchSendInput cd n (''f'' @ dec (unat n) @ ''_p'' @ dec i) (re_call e) (c, unused_stats) = (ok, c1, st2)"
      using ops_elsewhere(4) [OF b] by blast
    ultimately show ?thesis
      using r b by (auto simp: l Some alone_of_def op_effect_def framesync_calls_def framesync_linked_def split: if_splits)
  qed
  then show "length (samples (bs_latency st')) + framesync_calls l = length (samples (bs_latency st)) + framesync_calls l'"
    "bs_active st' + int (framesync_linked l) = bs_active st + int (framesync_linked l')"
    "buckets (bs_qps st') = buckets (bs_qps st)" "alone_of (framesync_iter cd deadline) i e l = (go, l')" by simp_all
qed

text \<open>A thread of the ramp mode has no client before it starts.\<close>

definition flow_calls :: "flow_pc \<times> game_client \<Rightarrow> nat" where
  "flow_calls l = (if fst l = AtConnect then 0 else length (gc_calls (snd l)))"

definition flow_linked :: "flow_pc \<times> game_client \<Rightarrow> nat" where
  "flow_linked l = (if fst l = AtConnect then 0 else linked (snd l))"

definition flow_client :: "nat \<Rightarrow> flow_pc \<times> game_client \<Rightarrow> game_client" where
  "flow_client i l = (if fst l = AtConnect then new_game_client (int i) else snd l)"

lemma flow_weights:
  "flow_calls l = length (gc_calls (flow_client i l))" "flow_linked l = linked (flow_client i l)"
  by (simp_all add: flow_calls_def flow_linked_def flow_client_def new_game_client_def linked_def)

lemma end_stage_effect:
  assumes "end_stage rec nm env good bad (ok, s1) = (go, (pc', c'), st')" and "op_effect s s1"
    and "good \<noteq> AtConnect" and "bad \<noteq> AtConnect"
  shows "op_effect s (c', st') \<and> pc' \<noteq> AtConnect"
proof -
  obtain c2 st2 where s: "stage_done rec nm (fe_took env) ok s1 = (c2, st2)" by force
  have "op_effect s1 (c2, st2)" using stage_effect [of s1 rec nm "fe_took env" ok] by (simp add: s)
  with assms show ?thesis by (auto simp: end_stage_def s intro: op_effect_trans split: if_splits)
qed

lemma flow_effect:
  assumes "flow_iter cd env i e (l, st) = (go, l', st')"
  shows "op_effect (flow_client i l, st) (snd l', st') \<and> fst l' \<noteq> AtConnect"
proof -
  obtain pc c where l: "l = (pc, c)" by force
  obtain pc' c' where l': "l' = (pc', c')" by force
  show ?thesis
  proof (cases pc)
    case AtConnect
    obtain ok s1 where b: "BenchConnect (fe_connects (env i)) (new_game_client (int i), st) = (ok, s1)" by (metis surj_pair)
    have "op_effect (new_game_client (int i), st) s1" by (rule connect_effect [OF _ b]) (simp add: new_game_client_def)
    from end_stage_effect [OF _ this] assms AtConnect b show ?thesis
      by (auto simp: l l' flow_client_def Let_def split: if_splits)
  next
    case AtLogin
    obtain ok s1 where b: "BenchLogin cd (fe_login (env i)) (c, st) = (ok, s1)" by (metis surj_pair)
    from end_stage_effect [OF _ op_effects(5) [OF b]] assms AtLogin b show ?thesis by (auto simp: l l' flow_client_def)
  next
    case AtCreate
    obtain ok s1 where b: "CreateGameRoom cd (fe_create (env i)) (c, st) = (ok, s1)" by (metis surj_pair)
    from end_stage_effect [OF _ op_effects(6) [OF b]] assms AtCreate b show ?thesis by (auto simp: l l' flow_client_def)
  next
    case AtStart
    obtain ok s1 where b: "StartGameRoom cd (fe_start (env i)) (c, st) = (ok, s1)" by (metis surj_pair)
    from end_stage_effect [OF _ op_effects(7) [OF b]] assms AtStart b show ?thesis by (auto simp: l l' flow_client_def)
  next
    case (AtLoop rs)
    show ?thesis
    proof (cases rs)
      case Nil
      with assms AtLoop show ?thesis by (auto simp: l l' flow_client_def)
    next
      case (Cons r rs')
      with assms AtLoop show ?thesis
        by (auto simp: l l' flow_client_def split: if_splits prod.splits dest: op_effects(1))
    qed
  next
    case AfterLoop
    with assms end_stage_effect [OF _ op_effect_refl] show ?thesis by (auto simp: l l' flow_client_def)
  next
    case AtLeave
    obtain ok s1 where b: "LeaveGameRoom cd (fe_leave (env i)) (c, st) = (ok, s1)" by (metis surj_pair)
    from end_stage_effect [OF _ op_effects(8) [OF b]] assms AtLeave b show ?thesis by (auto simp: l l' flow_client_def)
  next
    case AtDisconnect
    with assms disconnect_effect [of "(c, st)"] show ?thesis by (auto simp: l l' flow_client_def split: prod.splits)
  next
    case (AtEnd ok)
    with assms disconnect_effect [of "(c, st)"] show ?thesis by (auto simp: l l' flow_client_def split: prod.splits)
  qed
qed


lemma end_stage_eq:
  "end_stage rec nm env good bad (ok, s) = (True, (if ok then good else bad, fst s), snd (stage_done rec nm (fe_took env) ok s))"
  by (simp add: end_stage_def stage_done_def case_prod_unfold)

lemma flow_local:
  assumes "flow_iter cd env i e (l, st) = (go, l', st')"
  shows "alone_of (flow_iter cd env) i e l = (go, l')"
proof -
  obtain pc c where l: "l = (pc, c)" by force
  note u = alone_of_def l
  show ?thesis
  proof (cases pc)
    case AtConnect
    with assms show ?thesis by (auto simp: u Let_def BenchConnect_def end_stage_eq split: if_splits)
  next
    case AtLogin
    obtain ok c1 st1 where b: "BenchLogin cd (fe_login (env i)) (c, st) = (ok, c1, st1)" by (metis surj_pair)
    with assms AtLogin ops_elsewhere(5) [OF b, of unused_stats] show ?thesis by (auto simp: u end_stage_eq)
  next
    case AtCreate
    obtain ok c1 st1 where b: "CreateGameRoom cd (fe_create (env i)) (c, st) = (ok, c1, st1)" by (metis surj_pair)
    with assms AtCreate ops_elsewhere(6) [OF b, of unused_stats] show ?thesis by (auto simp: u end_stage_eq)
  next
    case AtStart
    obtain ok c1 st1 where b: "StartGameRoom cd (fe_start (env i)) (c, st) = (ok, c1, st1)" by (metis surj_pair)
    with assms AtStart ops_elsewhere(7) [OF b, of unused_stats] show ?thesis by (auto simp: u end_stage_eq)
  next
    case (AtLoop rs)
    show ?thesis
    proof (cases rs)
      case Nil
      with assms AtLoop show ?thesis by (auto simp: u)
    next
      case (Cons r rs')
      obtain ok c1 st1 where b: "SendOneMessage cd (re_call r) (c, st) = (ok, c1, st1)" by (metis surj_pair)
      with assms AtLoop Cons ops_elsewhere(1) [OF b, of unused_stats] show ?thesis by (auto simp: u split: if_splits)
    qed
  next
    case AfterLoop
    with assms show ?thesis by (auto simp: u end_stage_eq)
  next
    case AtLeave
    obtain ok c1 st1 where b: "LeaveGameRoom cd (fe_leave (env i)) (c, st) = (ok, c1, st1)" by (metis surj_pair)
    with assms AtLeave ops_elsewhere(8) [OF b, of unused_stats] show ?thesis by (auto simp: u end_stage_eq)
  next
    case AtDisconnect
    with assms show ?thesis by (auto simp: u BenchDisconnect_def split: if_splits)
  next
    case (AtEnd ok)
    with assms show ?thesis by (auto simp: u BenchDisconnect_def split: if_splits)
  qed
qed

interpretation ramp: client_loop "flow_iter cd env" "alone_of (flow_iter cd env)" flow_calls flow_linked
proof
  fix i e st go l' st' and l :: "flow_pc \<times> game_client"
  assume r: "flow_iter cd env i e (l, st) = (go, l', st')"
  have f: "flow_client i l' = snd l'" using flow_effect [OF r] by (simp add: flow_client_def)
  show "length (samples (bs_latency st')) + flow_calls l = length (samples (bs_latency st)) + flow_calls l'"
    "bs_active st' + int (flow_linked l) = bs_active st + int (flow_linked l')" "buckets (bs_qps st') = buckets (bs_qps st)"
    using flow_effect [OF r] by (simp_all add: flow_weights [of _ i] f op_effect_def)
  show "alone_of (flow_iter cd env) i e l = (go, l')" by (rule flow_local [OF r])
qed

subsection \<open>The steps of a thread make up the full flow\<close>

text \<open>A thread of the ramp mode without the others.\<close>

fun flow_steps :: "reply_codec \<Rightarrow> (nat \<Rightarrow> flow_env) \<Rightarrow> nat \<Rightarrow> nat \<Rightarrow> (flow_pc \<times> game_client) \<times> bench_stats \<Rightarrow> (flow_pc \<times> game_client) \<times> bench_stats" where
  "flow_steps cd env i 0 x = x"
| "flow_steps cd env i (Suc n) x = flow_steps cd env i n (snd (flow_iter cd env i () x))"

lemma flow_steps_add: "flow_steps cd env i (m + n) x = flow_steps cd env i n (flow_steps cd env i m x)"
  by (induction m arbitrary: x) simp_all

lemma flow_loop_steps:
  "\<exists>n. flow_steps cd env i n ((AtLoop rs, c), st) =
     ((AfterLoop, fst (MessageLoop cd (fe_deadline (env i)) rs (c, st))), snd (MessageLoop cd (fe_deadline (env i)) rs (c, st)))"
proof (induction rs arbitrary: c st)
  case Nil
  show ?case by (rule exI [of _ 1]) simp
next
  case (Cons r rs)
  obtain ok c1 st1 where b: "SendOneMessage cd (re_call r) (c, st) = (ok, c1, st1)" by (metis surj_pair)
  obtain n where n: "flow_steps cd env i n ((AtLoop rs, c1), st1) =
     ((AfterLoop, fst (MessageLoop cd (fe_deadline (env i)) rs (c1, st1))), snd (MessageLoop cd (fe_deadline (env i)) rs (c1, st1)))"
    using Cons.IH by blast
  show ?case
  proof (cases "\<not> (re_stop r \<or> fe_deadline (env i) \<le> re_now r) \<and> ok")
    case True
    with n b show ?thesis by (intro exI [of _ "Suc n"]) simp
  next
    case False
    with b show ?thesis by (intro exI [of _ 1]) auto
  qed
qed

lemma flow_steps_full_flow:
  "\<exists>n. flow_steps cd env i n ((AtConnect, c0), st) =
     (case RunFullFlow cd (i = 0) (env i) (new_game_client (int i), st) of (ok, c, st') \<Rightarrow> ((AtEnd ok, c), st'))"
proof -
  let ?steps = "\<lambda>x y. \<exists>n. flow_steps cd env i n x = y"
  let ?d = "\<lambda>nm ok s. stage_done (i = 0) nm (fe_took (env i)) ok s"
  have one: "?steps x y" if "snd (flow_iter cd env i () x) = y" for x y
    using that by (intro exI [of _ 1]) simp
  have trans: "?steps x y \<Longrightarrow> ?steps y z \<Longrightarrow> ?steps x z" for x y z by (metis flow_steps_add)
  let ?e = "env i" and ?s0 = "(new_game_client (int i), st)"
  let ?res = "case RunFullFlow cd (i = 0) ?e ?s0 of (ok, c, st') \<Rightarrow> ((AtEnd ok, c), st')"
  show ?thesis
  proof (cases "fe_stop ?e")
    case True
    show ?thesis by (rule one) (simp add: True RunFullFlow_def Let_def)
  next
    case run: False
    obtain ok1 s1 where 1: "BenchConnect (fe_connects ?e) ?s0 = (ok1, s1)" by (metis surj_pair)
    obtain c1 t1 where d1: "?d ''connect'' ok1 s1 = (c1, t1)" by force
    obtain ok2 s2 where 2: "BenchLogin cd (fe_login ?e) (c1, t1) = (ok2, s2)" by (metis surj_pair)
    obtain c2 t2 where d2: "?d ''login'' ok2 s2 = (c2, t2)" by force
    obtain ok3 s3 where 3: "CreateGameRoom cd (fe_create ?e) (c2, t2) = (ok3, s3)" by (metis surj_pair)
    obtain c3 t3 where d3: "?d ''create_room'' ok3 s3 = (c3, t3)" by force
    obtain ok4 s4 where 4: "StartGameRoom cd (fe_start ?e) (c3, t3) = (ok4, s4)" by (metis surj_pair)
    obtain c4 t4 where d4: "?d ''start_game'' ok4 s4 = (c4, t4)" by force
    obtain c5 t5 where m: "MessageLoop cd (fe_deadline ?e) (fe_rounds ?e) (c4, t4) = (c5, t5)" by force
    obtain c6 t6 where d5: "?d ''message_loop'' True (c5, t5) = (c6, t6)" by force
    obtain ok6 s6 where 6: "LeaveGameRoom cd (fe_leave ?e) (c6, t6) = (ok6, s6)" by (metis surj_pair)
    obtain c7 t7 where d6: "?d ''leave_room'' ok6 s6 = (c7, t7)" by force
    obtain c8 t8 where x: "BenchDisconnect (c7, t7) = (c8, t8)" by force
    note flow = RunFullFlow_def run 1 d1 2 d2 3 d3 4 d4 m d5 6 d6 x Let_def
    have a: "?steps ((AtConnect, c0), st) ((if ok1 then AtLogin else AtEnd False, c1), t1)"
      by (rule one) (simp add: run 1 d1 Let_def end_stage_def)
    have b: "?steps ((AtLogin, c1), t1) ((if ok2 then AtCreate else AtEnd False, c2), t2)"
      by (rule one) (simp add: 2 d2 end_stage_def)
    have c: "?steps ((AtCreate, c2), t2) ((if ok3 then AtStart else AtEnd False, c3), t3)"
      by (rule one) (simp add: 3 d3 end_stage_def)
    have d: "?steps ((AtStart, c3), t3) ((AtLoop (fe_rounds ?e), c4), t4)"
      by (rule one) (simp add: 4 d4 end_stage_def)
    have l: "?steps ((AtLoop (fe_rounds ?e), c4), t4) ((AfterLoop, c5), t5)"
      using flow_loop_steps [of cd env i "fe_rounds ?e" c4 t4] by (simp add: m)
    have f: "?steps ((AfterLoop, c5), t5) ((AtLeave, c6), t6)" by (rule one) (simp add: d5 end_stage_def)
    have g: "?steps ((AtLeave, c6), t6) ((AtDisconnect, c7), t7)" by (rule one) (simp add: 6 d6 end_stage_def)
    have h: "?steps ((AtDisconnect, c7), t7) ((AtEnd True, c8), t8)" by (rule one) (simp add: x)
    have rest: "?steps ((AtStart, c3), t3) ((AtEnd True, c8), t8)"
      by (intro trans [OF d] trans [OF l] trans [OF f] trans [OF g] h)
    consider "\<not> ok1" | ok1 "\<not> ok2" | ok1 ok2 "\<not> ok3" | ok1 ok2 ok3 by blast
    then show ?thesis
    proof cases
      case 1
      with a d1 show ?thesis by (simp add: flow)
    next
      case 2
      with trans [OF a] b d1 d2 show ?thesis by (simp add: flow)
    next
      case 3
      with trans [OF trans [OF a]] b c d1 d2 d3 show ?thesis by (simp add: flow)
    next
      case 4
      with trans [OF trans [OF trans [OF a]]] b c rest d1 d2 d3 show ?thesis by (simp add: flow)
    qed
  qed
qed

end
