(* ===== verification/Load_Modes.thy ===== *)
theory Load_Modes
  imports Client_Loops
begin

text \<open>
  The modes of \<open>bench/bench_game_client.cpp\<close> whose clients run in threads: steady, match, framesync and
  ramp. The answers of the server, the clock and the schedule are arguments. A mode returns when its
  schedule lets all the threads end. The printing, the sleeping and the number of requests that the
  reports estimate from the rate are left out.
\<close>

subsection \<open>What the modes share\<close>

record load_report =
  lr_clients :: nat
  lr_qps :: fp
  lr_errors :: nat
  lr_latency :: percentiles

definition load_report_of :: "nat \<Rightarrow> bench_stats \<Rightarrow> load_report" where
  "load_report_of n st = \<lparr>lr_clients = n, lr_qps = CurrentQps (bs_qps st), lr_errors = ErrorTotal (bs_errors st),
     lr_latency = fst (ComputePercentiles (bs_latency st))\<rparr>"

record load_result =
  lo_clients :: "game_client option list"
  lo_stats :: bench_stats
  lo_report :: load_report

text \<open>The clients are set up one after the other, with the reports that come before each.\<close>

definition tick_all :: "int list \<Rightarrow> bench_stats \<Rightarrow> bench_stats" where
  "tick_all nows st = fold report_stats nows st"

fun connect_clients :: "(int \<Rightarrow> bench_stats \<Rightarrow> game_client option \<times> bench_stats) \<Rightarrow> (int \<Rightarrow> int list) \<Rightarrow> int list \<Rightarrow> bench_stats \<Rightarrow> game_client list \<times> bench_stats" where
  "connect_clients f ticks [] st = ([], st)"
| "connect_clients f ticks (i # ids) st =
     (case f i (tick_all (ticks i) st) of (c, st1) \<Rightarrow>
      case connect_clients f ticks ids st1 of (cs, st2) \<Rightarrow> (case c of None \<Rightarrow> cs | Some x \<Rightarrow> x # cs, st2))"

definition client_ids :: "nat \<Rightarrow> int list" where
  "client_ids n = map int [0..<n]"

subsection \<open>The steady mode\<close>

text \<open>The client for the server's metrics is reset, and so destroyed, when it does not get in.\<close>

definition MetricsClient :: "reply_codec \<Rightarrow> bool \<Rightarrow> call_env \<Rightarrow> bench_stats \<Rightarrow> game_client option \<times> bench_stats" where
  "MetricsClient cd up e st =
     (case BenchConnect up (new_game_client (- 1), st) of (ok1, s1) \<Rightarrow>
      if \<not> ok1 then (None, snd (BenchDisconnect s1))
      else case BenchLogin cd e s1 of (ok2, s2) \<Rightarrow>
      if \<not> ok2 then (None, snd (BenchDisconnect s2)) else (Some (fst s2), snd s2))"

text \<open>The main thread warms up with the first client, whatever its messages come to.\<close>

definition warm_iter :: "reply_codec \<Rightarrow> int \<Rightarrow> (game_client, round_env) iteration" where
  "warm_iter cd deadline i e s =
     (if deadline \<le> re_now e \<or> re_stop e then (False, s) else (True, snd (SendOneMessage cd (re_call e) s)))"

definition reset_stats :: "bench_stats \<Rightarrow> bench_stats" where
  "reset_stats st = st\<lparr>bs_latency := ResetHistogram (bs_latency st), bs_qps := ResetQps (bs_qps st), bs_errors := ResetErrors (bs_errors st)\<rparr>"

record steady_env =
  sv_ticks :: "int \<Rightarrow> int list"
  sv_setup :: "int \<Rightarrow> setup_env"
  sv_metrics_up :: bool
  sv_metrics_login :: call_env
  sv_warm_deadline :: int
  sv_warm :: "round_env load_event list"
  sv_deadline :: int
  sv_events :: "round_env load_event list"
  sv_leave :: "int \<Rightarrow> call_env"

definition warm_up :: "reply_codec \<Rightarrow> int \<Rightarrow> round_env load_event list \<Rightarrow> game_client list \<times> game_client option \<times> bench_stats \<Rightarrow> (game_client list \<times> game_client option \<times> bench_stats) option" where
  "warm_up cd deadline evs s =
     (case s of
        ([], m, st) \<Rightarrow> Some s
      | (c # cs, m, st) \<Rightarrow>
          (let w = run_load cd (warm_iter cd deadline) evs \<lparr>ls_threads = [(True, c)], ls_metrics = m, ls_stats = st\<rparr>
           in if joinable w then Some (snd (hd (ls_threads w)) # cs, ls_metrics w, reset_stats (ls_stats w)) else None))"

definition steady_phase :: "reply_codec \<Rightarrow> int \<Rightarrow> round_env load_event list \<Rightarrow> game_client list \<times> game_client option \<times> bench_stats \<Rightarrow> game_client load_state" where
  "steady_phase cd deadline evs s =
     (case s of (cs, m, st) \<Rightarrow>
        run_load cd (steady_iter cd deadline) evs \<lparr>ls_threads = map (Pair True) cs, ls_metrics = m, ls_stats = st\<rparr>)"

definition drop_metrics :: "'l load_state \<Rightarrow> bench_stats" where
  "drop_metrics s = (case ls_metrics s of None \<Rightarrow> ls_stats s | Some m \<Rightarrow> snd (BenchDisconnect (m, ls_stats s)))"

definition RunSteadyMode :: "reply_codec \<Rightarrow> nat \<Rightarrow> int \<Rightarrow> steady_env \<Rightarrow> bench_stats \<Rightarrow> load_result option" where
  "RunSteadyMode cd n warmup_sec e st =
     (case connect_clients (\<lambda>i. SetupClient cd (sv_setup e i) i) (sv_ticks e) (client_ids n) st of (cs, st1) \<Rightarrow>
      case MetricsClient cd (sv_metrics_up e) (sv_metrics_login e) st1 of (m, st2) \<Rightarrow>
      case (if 0 < warmup_sec then warm_up cd (sv_warm_deadline e) (sv_warm e) (cs, m, st2) else Some (cs, m, st2)) of
        None \<Rightarrow> None
      | Some s0 \<Rightarrow>
          (let s = steady_phase cd (sv_deadline e) (sv_events e) s0
           in if \<not> joinable s then None
              else case for_clients (leave_and_disconnect cd (sv_leave e)) (map (Some \<circ> snd) (ls_threads s)) (drop_metrics s) of
                (cs', st') \<Rightarrow> Some \<lparr>lo_clients = cs', lo_stats = st', lo_report = load_report_of (length cs) st'\<rparr>))"

subsection \<open>The match mode\<close>

definition MatchClient :: "reply_codec \<Rightarrow> setup_env \<Rightarrow> int \<Rightarrow> bench_stats \<Rightarrow> game_client option \<times> bench_stats" where
  "MatchClient cd e i st =
     (case BenchConnect (se_up e) (new_game_client i, st) of (ok1, s1) \<Rightarrow>
      if \<not> ok1 then (None, snd (BenchDisconnect s1))
      else case BenchLogin cd (se_login e) s1 of (ok2, s2) \<Rightarrow>
      if \<not> ok2 then (None, snd (BenchDisconnect s2)) else (Some (fst s2), snd s2))"

record match_env =
  mv_ticks :: "int \<Rightarrow> int list"
  mv_setup :: "int \<Rightarrow> setup_env"
  mv_deadline :: int
  mv_events :: "match_event load_event list"

definition RunMatchMode :: "reply_codec \<Rightarrow> nat \<Rightarrow> match_env \<Rightarrow> bench_stats \<Rightarrow> load_result option" where
  "RunMatchMode cd n e st =
     (case connect_clients (\<lambda>i. MatchClient cd (mv_setup e i) i) (mv_ticks e) (client_ids n) st of (cs, st1) \<Rightarrow>
      let s = run_load cd (match_iter cd (mv_deadline e)) (mv_events e)
            \<lparr>ls_threads = map (\<lambda>c. (True, (False, c))) cs, ls_metrics = None, ls_stats = st1\<rparr>
      in if \<not> joinable s then None
         else case for_clients BenchDisconnect (map (Some \<circ> snd \<circ> snd) (ls_threads s)) (ls_stats s) of
           (cs', st') \<Rightarrow> Some \<lparr>lo_clients = cs', lo_stats = st', lo_report = load_report_of (length cs) st'\<rparr>)"

subsection \<open>The framesync mode\<close>

text \<open>
  Clients with even numbers create a room each, in threads that are joined before those of the odd
  ones look for the room of their partner. A thread of these phases touches its own slot of the two
  vectors and adds to the counters; the phase is the list of the threads in the order they end.
\<close>

type_synonym slots = "game_client option list \<times> string list \<times> bench_stats"

definition owner_thread :: "reply_codec \<Rightarrow> (nat \<Rightarrow> int list) \<Rightarrow> (nat \<Rightarrow> setup_env) \<Rightarrow> nat \<Rightarrow> slots \<Rightarrow> slots" where
  "owner_thread cd ticks env i s =
     (case s of (cs, rids, st) \<Rightarrow> case SetupClient cd (env i) (int i) (tick_all (ticks i) st) of (c, st') \<Rightarrow>
        (cs[i := c], (case c of None \<Rightarrow> rids | Some x \<Rightarrow> rids[i := gc_room x]), st'))"

text \<open>The wait for the partner's room tries fifty times, but nobody writes to the vector any more.\<close>

definition joiner_thread :: "reply_codec \<Rightarrow> (nat \<Rightarrow> int list) \<Rightarrow> (nat \<Rightarrow> setup_env) \<Rightarrow> nat \<Rightarrow> slots \<Rightarrow> slots" where
  "joiner_thread cd ticks env i s =
     (case s of (cs, rids, st) \<Rightarrow>
        let target_room = rids ! (i - 1)
        in if target_room = [] then s
           else case MatchClient cd (env i) (int i) (tick_all (ticks i) st) of
             (None, st1) \<Rightarrow> (cs, rids, st1)
           | (Some c, st1) \<Rightarrow>
               (case BenchJoinRoom cd target_room (se_create (env i)) (c, st1) of (ok, s2) \<Rightarrow>
                  if ok then (cs[i := Some (fst s2)], rids, snd s2)
                  else (cs, rids, snd (BenchDisconnect s2))))"

definition start_room :: "reply_codec \<Rightarrow> (nat \<Rightarrow> call_env) \<Rightarrow> nat \<Rightarrow> game_client option list \<times> bench_stats \<Rightarrow> game_client option list \<times> bench_stats" where
  "start_room cd env i s =
     (case fst s ! i of
        None \<Rightarrow> s
      | Some c \<Rightarrow> (case StartGameRoom cd (env i) (c, snd s) of (_, c', st') \<Rightarrow> ((fst s)[i := Some c'], st')))"

record framesync_env =
  fv_owners :: "nat list"
  fv_joiners :: "nat list"
  fv_setup_ticks :: "nat \<Rightarrow> int list"
  fv_setup :: "nat \<Rightarrow> setup_env"
  fv_start :: "nat \<Rightarrow> call_env"
  fv_ticks :: "int list"
  fv_deadline :: int
  fv_events :: "round_env load_event list"
  fv_leave :: "int \<Rightarrow> call_env"

definition RunFramesyncMode :: "reply_codec \<Rightarrow> nat \<Rightarrow> framesync_env \<Rightarrow> bench_stats \<Rightarrow> load_result option" where
  "RunFramesyncMode cd n e st =
     (case fold (owner_thread cd (fv_setup_ticks e) (fv_setup e)) (fv_owners e) (replicate n None, replicate n [], st) of (cs1, rids, st1) \<Rightarrow>
      case fold (joiner_thread cd (fv_setup_ticks e) (fv_setup e)) (fv_joiners e) (cs1, rids, st1) of (cs2, _, st2) \<Rightarrow>
      case fold (start_room cd (fv_start e)) (filter even [0..<n]) (cs2, st2) of (cs3, st3) \<Rightarrow>
      let s = run_load cd (framesync_iter cd (fv_deadline e)) (fv_events e)
            \<lparr>ls_threads = map (\<lambda>c. (c \<noteq> None, (0, c))) cs3, ls_metrics = None, ls_stats = tick_all (fv_ticks e) st3\<rparr>
      in if \<not> joinable s then None
         else case for_clients (leave_and_disconnect cd (fv_leave e)) (map (snd \<circ> snd) (ls_threads s)) (ls_stats s) of
           (cs', st') \<Rightarrow> Some \<lparr>lo_clients = cs', lo_stats = st',
             lo_report = load_report_of (length (filter (\<lambda>i. cs1 ! i \<noteq> None) (filter even [0..<n]))) st'\<rparr>)"

subsection \<open>The ramp mode\<close>

record ramp_env =
  pv_flow :: "nat \<Rightarrow> flow_env"
  pv_events :: "unit load_event list"

definition ramp_phase :: "reply_codec \<Rightarrow> nat \<Rightarrow> ramp_env \<Rightarrow> bench_stats \<Rightarrow> (flow_pc \<times> game_client) load_state" where
  "ramp_phase cd n e st =
     run_load cd (flow_iter cd (pv_flow e)) (pv_events e)
       \<lparr>ls_threads = map (\<lambda>i. (True, (AtConnect, new_game_client (int i)))) [0..<n], ls_metrics = None, ls_stats = st\<rparr>"

definition RunRampMode :: "reply_codec \<Rightarrow> nat \<Rightarrow> ramp_env \<Rightarrow> bench_stats \<Rightarrow> load_result option" where
  "RunRampMode cd n e st =
     (let s = ramp_phase cd n e st
      in if \<not> joinable s then None
         else Some \<lparr>lo_clients = map (Some \<circ> snd \<circ> snd) (ls_threads s), lo_stats = ls_stats s,
           lo_report = load_report_of n (ls_stats s)\<rparr>)"


subsection \<open>Every connection is given back\<close>

definition slot_linked :: "game_client option \<Rightarrow> nat" where
  "slot_linked c = (case c of None \<Rightarrow> 0 | Some x \<Rightarrow> linked x)"

lemma slot_linked_simps [simp]: "slot_linked None = 0" "slot_linked (Some c) = linked c"
  by (simp_all add: slot_linked_def)

lemma tick_all_active [simp]: "bs_active (tick_all nows st) = bs_active st"
  by (induction nows arbitrary: st) (simp_all add: tick_all_def)

lemma SetupClient_linked: "SetupClient cd e i st = (c, st') \<Longrightarrow> bs_active st' = bs_active st + int (slot_linked c)"
  using SetupClient_kept [of cd e i st c st'] by (cases c) (auto simp: linked_def)

lemma MatchClient_linked:
  assumes "MatchClient cd e i st = (c, st')"
  shows "bs_active st' = bs_active st + int (slot_linked c)"
proof -
  obtain ok1 s1 where 1: "BenchConnect (se_up e) (new_game_client i, st) = (ok1, s1)" by (metis surj_pair)
  obtain ok2 s2 where 2: "BenchLogin cd (se_login e) s1 = (ok2, s2)" by (metis surj_pair)
  have k1: "gc_connected (fst s1) = ok1" "bs_active (snd s1) = bs_active st + (if ok1 then 1 else 0)"
    using 1 by (auto simp: BenchConnect_def new_game_client_def split: if_splits)
  have k2: "gc_connected (fst s2) = ok1" "bs_active (snd s2) = bs_active (snd s1)"
    using login_keeps [of cd "se_login e" s1] 2 k1 by simp_all
  have "(c, st') = (if \<not> ok1 then (None, snd (BenchDisconnect s1)) else if \<not> ok2 then (None, snd (BenchDisconnect s2))
      else (Some (fst s2), snd s2))"
    unfolding assms [symmetric] by (simp only: MatchClient_def 1 2 prod.case)
  then show ?thesis using k1 k2 by (auto simp: BenchDisconnect_def linked_def split: if_splits)
qed

lemma MetricsClient_is_client: "MetricsClient cd up e = MatchClient cd \<lparr>se_up = up, se_login = e, se_create = e\<rparr> (- 1)"
  by (rule ext) (simp add: MetricsClient_def MatchClient_def split: prod.split)

lemma connect_clients_linked:
  assumes "\<And>i st c st'. f i st = (c, st') \<Longrightarrow> bs_active st' = bs_active st + int (slot_linked c)"
  shows "connect_clients f ticks ids st = (cs, st') \<Longrightarrow> bs_active st' = bs_active st + int (sum_list (map linked cs))"
proof (induction ids arbitrary: st cs)
  case (Cons i ids)
  obtain c st1 where c: "f i (tick_all (ticks i) st) = (c, st1)" by force
  obtain cs2 st2 where r: "connect_clients f ticks ids st1 = (cs2, st2)" by force
  have e: "cs = (case c of None \<Rightarrow> cs2 | Some x \<Rightarrow> x # cs2)" "st' = st2" using Cons.prems c r by simp_all
  show ?case using Cons.IH r assms [OF c] by (cases c) (simp_all add: e)
qed simp

lemma for_clients_linked:
  assumes "\<forall>s. op_effect s (h s)"
  shows "for_clients h cs st = (cs', st') \<Longrightarrow>
    bs_active st' + int (sum_list (map slot_linked cs)) = bs_active st + int (sum_list (map slot_linked cs'))"
proof (induction cs arbitrary: st cs')
  case (Cons x cs)
  show ?case
  proof (cases x)
    case None
    obtain cs1 st1 where "for_clients h cs st = (cs1, st1)" by force
    with None Cons show ?thesis by auto
  next
    case (Some c)
    obtain c1 st1 where f: "h (c, st) = (c1, st1)" by force
    obtain cs2 st2 where "for_clients h cs st1 = (cs2, st2)" by force
    with Some Cons f spec [OF assms, of "(c, st)"] show ?thesis by (fastforce simp: op_effect_def)
  qed
qed simp

lemma for_clients_unlinked:
  assumes "\<forall>s. \<not> gc_connected (fst (h s))"
  shows "for_clients h cs st = (cs', st') \<Longrightarrow> sum_list (map slot_linked cs') = 0"
proof (induction cs arbitrary: st cs')
  case (Cons x cs)
  show ?case
  proof (cases x)
    case None
    obtain cs1 st1 where "for_clients h cs st = (cs1, st1)" by force
    with None Cons show ?thesis by auto
  next
    case (Some c)
    obtain c1 st1 where f: "h (c, st) = (c1, st1)" by force
    obtain cs2 st2 where "for_clients h cs st1 = (cs2, st2)" by force
    with Some Cons f spec [OF assms, of "(c, st)"] show ?thesis by (auto simp: linked_def)
  qed
qed simp

lemma leave_effect: "\<forall>s. op_effect s (leave_and_disconnect cd net s)"
proof
  fix s
  obtain ok s1 where l: "LeaveGameRoom cd (net (gc_id (fst s))) s = (ok, s1)" by (metis surj_pair)
  from op_effect_trans [OF op_effects(8) [OF l] disconnect_effect] show "op_effect s (leave_and_disconnect cd net s)" by (simp add: leave_and_disconnect_def l)
qed

lemma disconnected: "\<forall>s. \<not> gc_connected (fst (BenchDisconnect s))"
  by (simp add: BenchDisconnect_def)

lemma left_disconnected: "\<forall>s. \<not> gc_connected (fst (leave_and_disconnect cd net s))"
  by (simp add: leave_and_disconnect_def disconnected)

lemma cleanup_active:
  assumes "for_clients (leave_and_disconnect cd net) cs st = (cs', st') \<or> for_clients BenchDisconnect cs st = (cs', st')"
  shows "bs_active st' + int (sum_list (map slot_linked cs)) = bs_active st" and "sum_list (map slot_linked cs') = 0"
proof -
  show z: "sum_list (map slot_linked cs') = 0"
    using assms for_clients_unlinked [OF left_disconnected] for_clients_unlinked [OF disconnected] by blast
  show "bs_active st' + int (sum_list (map slot_linked cs)) = bs_active st"
    using assms for_clients_linked [OF leave_effect] for_clients_linked [OF allI [OF disconnect_effect]] z by fastforce
qed


text \<open>The connection of the metrics client is not touched while it is used.\<close>

lemma load_step_metrics: "slot_linked (ls_metrics (load_step cd f x s)) = slot_linked (ls_metrics s)"
  by (cases x) (auto simp: thread_step_def report_step_def Let_def QueryServerMetrics_def slot_linked_def linked_def
      split: option.split prod.split)

lemma run_load_metrics: "slot_linked (ls_metrics (run_load cd f evs s)) = slot_linked (ls_metrics s)"
  by (induction evs arbitrary: s) (simp_all add: run_load_def load_step_metrics)

lemma drop_metrics_active: "bs_active (drop_metrics s) + int (slot_linked (ls_metrics s)) = bs_active (ls_stats s)"
  by (simp add: drop_metrics_def BenchDisconnect_def linked_def split: option.split)

interpretation warming: client_loop "warm_iter cd deadline" "alone_of (warm_iter cd deadline)" "length \<circ> gc_calls" linked
proof
  fix i e l st go l' st' assume r: "warm_iter cd deadline i e (l, st) = (go, l', st')"
  obtain ok c1 st1 where m: "SendOneMessage cd (re_call e) (l, st) = (ok, c1, st1)" by (metis surj_pair)
  have "op_effect (l, st) (l', st')"
    using r m op_effects(1) [OF m] by (auto simp: warm_iter_def split: if_splits)
  then show "length (samples (bs_latency st')) + (length \<circ> gc_calls) l = length (samples (bs_latency st)) + (length \<circ> gc_calls) l'"
    "bs_active st' + int (linked l) = bs_active st + int (linked l')" "buckets (bs_qps st') = buckets (bs_qps st)"
    by (simp_all add: op_effect_def)
  show "alone_of (warm_iter cd deadline) i e l = (go, l')"
    using r m ops_elsewhere(1) [OF m, of unused_stats] by (auto simp: warm_iter_def alone_of_def split: if_splits)
qed

lemma warm_up_active:
  assumes "warm_up cd deadline evs (cs, m, st) = Some (cs', m', st')"
  shows "bs_active st' + int (sum_list (map linked cs)) = bs_active st + int (sum_list (map linked cs'))"
    and "slot_linked m' = slot_linked m" and "length cs' = length cs"
proof -
  have "bs_active st' + int (sum_list (map linked cs)) = bs_active st + int (sum_list (map linked cs')) \<and>
    slot_linked m' = slot_linked m \<and> length cs' = length cs"
  proof (cases cs)
    case Nil
    with assms show ?thesis by (simp add: warm_up_def)
  next
    case (Cons c ds)
    let ?s = "\<lparr>ls_threads = [(True, c)], ls_metrics = m, ls_stats = st\<rparr>"
    let ?w = "run_load cd (warm_iter cd deadline) evs ?s"
    have "length (ls_threads ?w) = 1" by (simp add: warming.length_run)
    then obtain t where t: "ls_threads ?w = [t]" by (auto simp: length_Suc_conv)
    show ?thesis
      using assms warming.adds_up(2) [of cd cd deadline evs ?s] run_load_metrics [of cd "warm_iter cd deadline" evs ?s]
      by (auto simp: warm_up_def Cons Let_def t reset_stats_def split: if_splits)
  qed
  then show "bs_active st' + int (sum_list (map linked cs)) = bs_active st + int (sum_list (map linked cs'))"
    "slot_linked m' = slot_linked m" "length cs' = length cs" by simp_all
qed

lemma steady_mode_balanced:
  assumes "RunSteadyMode cd n warmup_sec e st = Some r"
  shows "bs_active (lo_stats r) = bs_active st" and "sum_list (map slot_linked (lo_clients r)) = 0"
proof -
  obtain cs st1 where c: "connect_clients (\<lambda>i. SetupClient cd (sv_setup e i) i) (sv_ticks e) (client_ids n) st = (cs, st1)" by force
  obtain m st2 where m: "MetricsClient cd (sv_metrics_up e) (sv_metrics_login e) st1 = (m, st2)" by force
  obtain cs0 m0 st3 where w: "(if 0 < warmup_sec then warm_up cd (sv_warm_deadline e) (sv_warm e) (cs, m, st2) else Some (cs, m, st2)) = Some (cs0, m0, st3)"
    using assms unfolding RunSteadyMode_def c m prod.case by (auto split: option.splits)
  define s where "s = steady_phase cd (sv_deadline e) (sv_events e) (cs0, m0, st3)"
  have j: "joinable s" using assms unfolding RunSteadyMode_def c m prod.case w option.case Let_def s_def [symmetric] by (auto split: if_splits)
  obtain cs' st' where f: "for_clients (leave_and_disconnect cd (sv_leave e)) (map (Some \<circ> snd) (ls_threads s)) (drop_metrics s) = (cs', st')"
    by force
  have r: "lo_clients r = cs'" "lo_stats r = st'"
    using assms j f unfolding RunSteadyMode_def c m prod.case w option.case Let_def s_def [symmetric] by auto
  have 1: "bs_active st1 = bs_active st + int (sum_list (map linked cs))"
    by (rule connect_clients_linked [OF SetupClient_linked c])
  have 2: "bs_active st2 = bs_active st1 + int (slot_linked m)"
    using m MatchClient_linked by (simp add: MetricsClient_is_client)
  have 3: "bs_active st3 + int (sum_list (map linked cs)) = bs_active st2 + int (sum_list (map linked cs0))" "slot_linked m0 = slot_linked m"
    using w warm_up_active [of cd "sv_warm_deadline e" "sv_warm e" cs m st2 cs0 m0 st3] by (auto split: if_splits)
  let ?s0 = "\<lparr>ls_threads = map (Pair True) cs0, ls_metrics = m0, ls_stats = st3\<rparr>"
  have 4: "bs_active (ls_stats s) + int (sum_list (map linked cs0)) = bs_active st3 + int (sum_list (map (linked \<circ> snd) (ls_threads s)))"
    using steady.adds_up(2) [of cd cd "sv_deadline e" "sv_events e" ?s0] by (simp add: s_def steady_phase_def comp_def)
  have 5: "bs_active (drop_metrics s) + int (slot_linked m0) = bs_active (ls_stats s)"
    using drop_metrics_active [of s] run_load_metrics [of cd "steady_iter cd (sv_deadline e)" "sv_events e" ?s0]
    by (simp add: s_def steady_phase_def)
  have 6: "bs_active st' + int (sum_list (map (linked \<circ> snd) (ls_threads s))) = bs_active (drop_metrics s)"
    using cleanup_active(1) [OF disjI1, OF f] by (simp add: comp_def)
  show "bs_active (lo_stats r) = bs_active st" using 1 2 3 4 5 6 by (simp add: r)
  show "sum_list (map slot_linked (lo_clients r)) = 0" using cleanup_active(2) [OF disjI1, OF f] by (simp add: r)
qed


lemma match_mode_balanced:
  assumes "RunMatchMode cd n e st = Some r"
  shows "bs_active (lo_stats r) = bs_active st" and "sum_list (map slot_linked (lo_clients r)) = 0"
proof -
  obtain cs st1 where c: "connect_clients (\<lambda>i. MatchClient cd (mv_setup e i) i) (mv_ticks e) (client_ids n) st = (cs, st1)" by force
  let ?s0 = "\<lparr>ls_threads = map (\<lambda>c. (True, (False, c))) cs, ls_metrics = None, ls_stats = st1\<rparr>"
  define s where "s = run_load cd (match_iter cd (mv_deadline e)) (mv_events e) ?s0"
  obtain cs' st' where f: "for_clients BenchDisconnect (map (Some \<circ> snd \<circ> snd) (ls_threads s)) (ls_stats s) = (cs', st')" by force
  have r: "lo_clients r = cs'" "lo_stats r = st'"
    using assms f unfolding RunMatchMode_def c prod.case Let_def s_def [symmetric] by (auto split: if_splits)
  have 1: "bs_active st1 = bs_active st + int (sum_list (map linked cs))"
    by (rule connect_clients_linked [OF MatchClient_linked c])
  have 2: "bs_active (ls_stats s) + int (sum_list (map linked cs)) = bs_active st1 + int (sum_list (map (linked \<circ> snd \<circ> snd) (ls_threads s)))"
    using match_loop.adds_up(2) [of cd cd "mv_deadline e" "mv_events e" ?s0] by (simp add: s_def comp_def)
  have 3: "bs_active st' + int (sum_list (map (linked \<circ> snd \<circ> snd) (ls_threads s))) = bs_active (ls_stats s)"
    using cleanup_active(1) [OF disjI2, OF f] by (simp add: comp_def)
  show "bs_active (lo_stats r) = bs_active st" using 1 2 3 by (simp add: r)
  show "sum_list (map slot_linked (lo_clients r)) = 0" using cleanup_active(2) [OF disjI2, OF f] by (simp add: r)
qed

text \<open>A thread of the ramp mode ends with its client destroyed.\<close>

lemma flow_ends_unlinked: "alone_of (flow_iter cd env) i e l = (False, l') \<Longrightarrow> linked (snd l') = 0"
proof -
  assume r: "alone_of (flow_iter cd env) i e l = (False, l')"
  obtain pc c where l: "l = (pc, c)" by force
  have "\<exists>ok. pc = AtEnd ok"
    using r by (cases pc; cases "case pc of AtLoop rs \<Rightarrow> rs | _ \<Rightarrow> []")
      (auto simp: alone_of_def l Let_def end_stage_def split: prod.splits if_splits)
  then show ?thesis using r by (auto simp: alone_of_def l BenchDisconnect_def linked_def split: if_splits)
qed

lemma flow_alone_unlinked: "run_alone (alone_of (flow_iter cd env) i) es (True, l) = (False, l') \<Longrightarrow> linked (snd l') = 0"
proof (induction es arbitrary: l)
  case (Cons e es)
  obtain go l1 where g: "alone_of (flow_iter cd env) i e l = (go, l1)" by (metis surj_pair)
  with Cons flow_ends_unlinked [of cd env i e l l1] show ?case by (cases go) auto
qed simp

lemma sum_list_zero: "(\<And>i. i < length xs \<Longrightarrow> w (xs ! i) = (0::nat)) \<Longrightarrow> sum_list (map w xs) = 0"
  by (auto simp: in_set_conv_nth)

lemma ramp_mode_balanced:
  assumes "RunRampMode cd n e st = Some r"
  shows "bs_active (lo_stats r) = bs_active st" and "sum_list (map slot_linked (lo_clients r)) = 0"
proof -
  let ?s0 = "\<lparr>ls_threads = map (\<lambda>i. (True, (AtConnect, new_game_client (int i)))) [0..<n], ls_metrics = None, ls_stats = st\<rparr>"
  define s where "s = ramp_phase cd n e st"
  have j: "joinable s" and r: "lo_clients r = map (Some \<circ> snd \<circ> snd) (ls_threads s)" "lo_stats r = ls_stats s"
    using assms by (auto simp: RunRampMode_def Let_def s_def split: if_splits)
  have len: "length (ls_threads s) = n" by (simp add: s_def ramp_phase_def ramp.length_run)
  have un: "linked (snd (snd (ls_threads s ! i))) = 0" if i: "i < length (ls_threads s)" for i
  proof -
    obtain l where l: "ls_threads s ! i = (False, l)"
      using j i by (auto simp: joinable_def all_set_conv_all_nth)
    have "run_alone (alone_of (flow_iter cd (pv_flow e)) i) (events_of i (pv_events e)) (True, (AtConnect, new_game_client (int i))) = (False, l)"
      using ramp.alone [of i ?s0 cd cd "pv_flow e" "pv_events e"] i l len by (simp add: s_def ramp_phase_def)
    from flow_alone_unlinked [OF this] show ?thesis by (simp add: l)
  qed
  have z: "sum_list (map (flow_linked \<circ> snd) (ls_threads s)) = 0" by (rule sum_list_zero) (simp add: un flow_linked_def)
  have z0: "sum_list (map (flow_linked \<circ> snd) (ls_threads ?s0)) = 0" by (rule sum_list_zero) (simp add: flow_linked_def)
  show "bs_active (lo_stats r) = bs_active st"
    using ramp.adds_up(2) [of cd cd "pv_flow e" "pv_events e" ?s0] unfolding ramp_phase_def [symmetric] s_def [symmetric] z z0
    by (simp add: r)
  show "sum_list (map slot_linked (lo_clients r)) = 0"
    unfolding r(1) map_map by (rule sum_list_zero) (simp add: un)
qed


subsection \<open>The slots of the framesync mode\<close>

lemma slot_filled:
  "i < length cs \<Longrightarrow> cs ! i = None \<Longrightarrow> sum_list (map slot_linked (cs[i := c])) = sum_list (map slot_linked cs) + slot_linked c"
  using sum_updated [of i cs slot_linked c] by simp

text \<open>What holds between the threads of the first two phases: the slots of those to come are empty.\<close>

definition slots_ok :: "int \<Rightarrow> nat \<Rightarrow> nat list \<Rightarrow> slots \<Rightarrow> bool" where
  "slots_ok base n todo s \<longleftrightarrow> length (fst s) = n \<and> bs_active (snd (snd s)) = base + int (sum_list (map slot_linked (fst s))) \<and>
     distinct todo \<and> (\<forall>i \<in> set todo. i < n \<and> fst s ! i = None)"

lemma owner_slots: "slots_ok base n (i # todo) s \<Longrightarrow> slots_ok base n todo (owner_thread cd ticks env i s)"
proof -
  assume s: "slots_ok base n (i # todo) s"
  obtain cs rids st where e: "s = (cs, rids, st)" by (metis surj_pair)
  obtain c st' where c: "SetupClient cd (env i) (int i) (tick_all (ticks i) st) = (c, st')" by force
  from SetupClient_linked [OF c] s show ?thesis
    by (auto simp: owner_thread_def e c slots_ok_def slot_filled nth_list_update)
qed

lemma joiner_slots: "slots_ok base n (i # todo) s \<Longrightarrow> slots_ok base n todo (joiner_thread cd ticks env i s)"
proof -
  assume s: "slots_ok base n (i # todo) s"
  obtain cs rids st where e: "s = (cs, rids, st)" by (metis surj_pair)
  obtain c st1 where c: "MatchClient cd (env i) (int i) (tick_all (ticks i) st) = (c, st1)" by force
  note l = MatchClient_linked [OF c]
  show ?thesis
  proof (cases c)
    case None
    with l s show ?thesis by (auto simp: joiner_thread_def e c slots_ok_def Let_def)
  next
    case (Some x)
    obtain ok x2 st2 where j: "BenchJoinRoom cd (rids ! (i - 1)) (se_create (env i)) (x, st1) = (ok, x2, st2)" by (metis surj_pair)
    have "op_effect (x, st1) (x2, st2)" using run_op_effect [of cd "DoJoin (rids ! (i - 1)) (se_create (env i))" "(x, st1)"] j by simp
    then have k: "bs_active st2 + int (linked x) = bs_active st1 + int (linked x2)" by (simp add: op_effect_def)
    have d: "bs_active (snd (BenchDisconnect (x2, st2))) + int (linked x2) = bs_active st2"
      by (simp add: BenchDisconnect_def linked_def)
    from l k d s show ?thesis
      by (auto simp: joiner_thread_def e c Some j [unfolded One_nat_def] slots_ok_def Let_def slot_filled nth_list_update)
  qed
qed

lemma fold_slots:
  assumes "\<And>i todo s. slots_ok base n (i # todo) s \<Longrightarrow> slots_ok base n todo (h i s)"
  shows "slots_ok base n (order @ rest) s \<Longrightarrow> slots_ok base n rest (fold h order s)"
  by (induction order arbitrary: s) (simp_all add: assms)

lemma start_room_keeps:
  "bs_active (snd (start_room cd env i s)) + int (sum_list (map slot_linked (fst s))) =
     bs_active (snd s) + int (sum_list (map slot_linked (fst (start_room cd env i s))))"
  if "i < length (fst s)"
proof (cases "fst s ! i")
  case None
  then show ?thesis by (simp add: start_room_def)
next
  case (Some c)
  obtain ok c' st' where r: "StartGameRoom cd (env i) (c, snd s) = (ok, c', st')" by (metis surj_pair)
  have "op_effect (c, snd s) (c', st')" using op_effects(7) [OF r] .
  then show ?thesis using sum_updated [OF that, of slot_linked "Some c'"] Some
    by (simp add: start_room_def r op_effect_def)
qed

lemma start_rooms_keep:
  "\<forall>i \<in> set is. i < length (fst s) \<Longrightarrow>
   bs_active (snd (fold (start_room cd env) is s)) + int (sum_list (map slot_linked (fst s))) =
     bs_active (snd s) + int (sum_list (map slot_linked (fst (fold (start_room cd env) is s))))"
proof (induction "is" arbitrary: s)
  case (Cons i js)
  have "length (fst (start_room cd env i s)) = length (fst s)"
    by (simp add: start_room_def split: option.split prod.split)
  with Cons.IH [of "start_room cd env i s"] Cons.prems start_room_keeps [of i s cd env] show ?case by simp
qed simp

lemma framesync_mode_balanced:
  assumes "RunFramesyncMode cd n e st = Some r" and "distinct (fv_owners e @ fv_joiners e)"
    and "\<forall>i \<in> set (fv_owners e @ fv_joiners e). i < n"
  shows "bs_active (lo_stats r) = bs_active st" and "sum_list (map slot_linked (lo_clients r)) = 0"
proof -
  obtain cs1 rids1 st1 where 1: "fold (owner_thread cd (fv_setup_ticks e) (fv_setup e)) (fv_owners e) (replicate n None, replicate n [], st) = (cs1, rids1, st1)"
    by (metis surj_pair)
  obtain cs2 rids2 st2 where 2: "fold (joiner_thread cd (fv_setup_ticks e) (fv_setup e)) (fv_joiners e) (cs1, rids1, st1) = (cs2, rids2, st2)"
    by (metis surj_pair)
  obtain cs3 st3 where 3: "fold (start_room cd (fv_start e)) (filter even [0..<n]) (cs2, st2) = (cs3, st3)" by force
  let ?s0 = "\<lparr>ls_threads = map (\<lambda>c. (c \<noteq> None, (0, c))) cs3, ls_metrics = None, ls_stats = tick_all (fv_ticks e) st3\<rparr>"
  define s where "s = run_load cd (framesync_iter cd (fv_deadline e)) (fv_events e) ?s0"
  obtain cs' st' where f: "for_clients (leave_and_disconnect cd (fv_leave e)) (map (snd \<circ> snd) (ls_threads s)) (ls_stats s) = (cs', st')" by force
  have r: "lo_clients r = cs'" "lo_stats r = st'"
    using assms(1) f unfolding RunFramesyncMode_def 1 2 3 prod.case Let_def s_def [symmetric] by (auto split: if_splits)
  have "slots_ok (bs_active st) n (fv_owners e @ fv_joiners e) (replicate n None, replicate n [], st)"
    using assms(2,3) by (auto simp: slots_ok_def sum_list_replicate)
  from fold_slots [OF owner_slots this] have "slots_ok (bs_active st) n (fv_joiners e @ []) (cs1, rids1, st1)"
    by (simp add: 1 [symmetric])
  from fold_slots [OF joiner_slots this] have "slots_ok (bs_active st) n [] (cs2, rids2, st2)"
    by (simp add: 2 [symmetric])
  then have a: "length cs2 = n" "bs_active st2 = bs_active st + int (sum_list (map slot_linked cs2))"
    by (simp_all add: slots_ok_def)
  have b: "bs_active st3 + int (sum_list (map slot_linked cs2)) = bs_active st2 + int (sum_list (map slot_linked cs3))"
    using start_rooms_keep [of "filter even [0..<n]" "(cs2, st2)" cd "fv_start e"] by (simp add: 3 a(1))
  have w: "framesync_linked \<circ> snd = slot_linked \<circ> (snd \<circ> snd)" by (auto simp: framesync_linked_def slot_linked_def)
  have c: "bs_active (ls_stats s) + int (sum_list (map slot_linked cs3)) = bs_active st3 + int (sum_list (map (slot_linked \<circ> (snd \<circ> snd)) (ls_threads s)))"
    using frames.adds_up(2) [of cd cd "fv_deadline e" "fv_events e" ?s0] unfolding s_def [symmetric] w by (simp add: comp_def)
  have d: "bs_active st' + int (sum_list (map (slot_linked \<circ> (snd \<circ> snd)) (ls_threads s))) = bs_active (ls_stats s)"
    using cleanup_active(1) [OF disjI1, OF f] by (simp add: comp_def)
  show "bs_active (lo_stats r) = bs_active st" using a b c d by (simp add: r)
  show "sum_list (map slot_linked (lo_clients r)) = 0" using cleanup_active(2) [OF disjI1, OF f] by (simp add: r)
qed


subsection \<open>Each thread does what it does alone\<close>

lemma steady_alone:
  "snd (run_alone (alone_of (steady_iter cd deadline) i) es (True, c)) = fst (MessageLoop cd deadline es (c, st))"
proof (induction es arbitrary: c st)
  case (Cons e es)
  obtain ok c1 st1 where m: "SendOneMessage cd (re_call e) (c, st) = (ok, c1, st1)" by (metis surj_pair)
  obtain st2 where "SendOneMessage cd (re_call e) (c, unused_stats) = (ok, c1, st2)"
    using ops_elsewhere(1) [OF m] by blast
  with Cons.IH [of c1 st1] m show ?case
    by (cases ok) (auto simp: alone_of_def steady_iter_def)
qed simp

text \<open>A thread of the ramp mode alone and the steps of the flow: the same local states, one after the other.\<close>

lemma flow_alone_steps:
  "run_alone (alone_of (flow_iter cd env) i) (replicate n ()) (True, l) = (b, l') \<Longrightarrow>
     \<exists>m st'. flow_steps cd env i m (l, st) = (l', st') \<and> (\<not> b \<longrightarrow> (\<exists>ok. fst l' = AtEnd ok \<and> \<not> gc_connected (snd l')))"
proof (induction n arbitrary: l st)
  case 0
  then show ?case by (intro exI [of _ 0]) simp
next
  case (Suc n)
  obtain go l1 st1 where f: "flow_iter cd env i () (l, st) = (go, l1, st1)" by (metis surj_pair)
  note a = flow_local [OF f]
  show ?case
  proof (cases go)
    case True
    with Suc.prems a have "run_alone (alone_of (flow_iter cd env) i) (replicate n ()) (True, l1) = (b, l')" by simp
    from Suc.IH [OF this, of st1] obtain m st' where
      m: "flow_steps cd env i m (l1, st1) = (l', st')" "\<not> b \<longrightarrow> (\<exists>ok. fst l' = AtEnd ok \<and> \<not> gc_connected (snd l'))" by blast
    then show ?thesis using f by (intro exI [of _ "Suc m"] exI [of _ st']) simp
  next
    case False
    with Suc.prems a have e: "b = False" "l' = l1" by simp_all
    obtain pc c where l: "l = (pc, c)" by force
    have "\<exists>ok. pc = AtEnd ok"
      using f False by (cases pc; cases "case pc of AtLoop rs \<Rightarrow> rs | _ \<Rightarrow> []")
        (auto simp: l Let_def end_stage_def split: prod.splits if_splits)
    then have "\<exists>ok. fst l1 = AtEnd ok \<and> \<not> gc_connected (snd l1)"
      using f by (auto simp: l BenchDisconnect_def split: if_splits)
    then show ?thesis using f e by (intro exI [of _ 1] exI [of _ st1]) simp
  qed
qed

lemma flow_steps_ended:
  "flow_steps cd env i n ((AtEnd ok, c), st) = ((AtEnd ok, if n = 0 then c else fst (BenchDisconnect (c, st))), if n = 0 then st else snd (BenchDisconnect (c, st)))"
proof (induction n arbitrary: c st)
  case (Suc n)
  obtain c1 st1 where d: "BenchDisconnect (c, st) = (c1, st1)" by force
  then have "BenchDisconnect (c1, st1) = (c1, st1)" by (auto simp: BenchDisconnect_def split: if_splits)
  with Suc.IH [of c1 st1] d show ?case by simp
qed simp

lemma flow_alone_full:
  assumes "run_alone (alone_of (flow_iter cd env) i) (replicate n ()) (True, (AtConnect, c0)) = (False, l')"
  shows "snd l' = fst (BenchDisconnect (snd (RunFullFlow cd (i = 0) (env i) (new_game_client (int i), st))))"
proof -
  obtain ok c st' where f: "RunFullFlow cd (i = 0) (env i) (new_game_client (int i), st) = (ok, c, st')" by (metis surj_pair)
  obtain k where k: "flow_steps cd env i k ((AtConnect, c0), st) = ((AtEnd ok, c), st')"
    using flow_steps_full_flow [of cd env i c0 st] by (auto simp: f)
  obtain m st1 ok' c1 where m: "flow_steps cd env i m ((AtConnect, c0), st) = ((AtEnd ok', c1), st1)"
    and l': "l' = (AtEnd ok', c1)" and d: "\<not> gc_connected c1"
    using flow_alone_steps [OF assms, of st] by (metis prod.collapse)
  have "flow_steps cd env i (k + Suc m) ((AtConnect, c0), st) = flow_steps cd env i (m + Suc k) ((AtConnect, c0), st)"
    by (simp add: add.commute)
  then have "fst (BenchDisconnect (c, st')) = fst (BenchDisconnect (c1, st1))"
    unfolding flow_steps_add k m flow_steps_ended by simp
  also have "\<dots> = c1" using d by (simp add: BenchDisconnect_def)
  finally show ?thesis by (simp add: f l')
qed

lemma unit_list: "es = replicate (length es) ()"
  by (induction es) auto

text \<open>The schedules of the load modes, seen from one client. In the steady mode, however the
  scheduler interleaves the threads and the reporter, each client ends as its message loop leaves it
  when it runs alone on its own iterations, the latency samples grow by exactly the calls that were
  made, and the number of active connections stays; in the ramp mode, when all threads have ended, each
  client has gone through the full flow and been destroyed, again as if it had been alone.\<close>

lemma client_threads_independent:
  assumes "i < length cs" and "j < n" and "joinable (ramp_phase cd n e st2)"
  shows "snd (ls_threads (steady_phase cd deadline evs (cs, m, st)) ! i) = fst (MessageLoop cd deadline (events_of i evs) (cs ! i, st0)) \<and>
    length (samples (bs_latency (ls_stats (steady_phase cd deadline evs (cs, m, st))))) + sum_list (map (length \<circ> gc_calls) cs) =
      length (samples (bs_latency st)) + sum_list (map (length \<circ> gc_calls \<circ> snd) (ls_threads (steady_phase cd deadline evs (cs, m, st)))) \<and>
    bs_active (ls_stats (steady_phase cd deadline evs (cs, m, st))) = bs_active st \<and>
    snd (snd (ls_threads (ramp_phase cd n e st2) ! j)) =
      fst (BenchDisconnect (snd (RunFullFlow cd (j = 0) (pv_flow e j) (new_game_client (int j), st0))))"
proof -
  let ?s0 = "\<lparr>ls_threads = map (Pair True) cs, ls_metrics = m, ls_stats = st\<rparr>"
  define s where "s = steady_phase cd deadline evs (cs, m, st)"
  have s: "s = run_load cd (steady_iter cd deadline) evs ?s0" by (simp add: s_def steady_phase_def)
  have len: "length (ls_threads s) = length cs" by (simp add: s steady.length_run)
  have alone: "snd (ls_threads s ! k) = fst (MessageLoop cd deadline (events_of k evs) (cs ! k, st0))" if "k < length cs" for k
    using steady.alone [of k ?s0 cd cd deadline evs] that by (simp add: s steady_alone [of cd deadline k _ _ st0])
  have "linked (snd (ls_threads s ! k)) = linked (cs ! k)" if "k < length cs" for k
    using MessageLoop_keeps [of cd deadline "events_of k evs" "(cs ! k, st0)"] by (simp add: alone that linked_def)
  then have "map (linked \<circ> snd) (ls_threads s) = map linked cs" by (intro nth_equalityI) (simp_all add: len)
  then have "bs_active (ls_stats s) = bs_active st"
    using steady.adds_up(2) [of cd cd deadline evs ?s0] by (simp add: s comp_def)
  moreover have "length (samples (bs_latency (ls_stats s))) + sum_list (map (length \<circ> gc_calls) cs) =
      length (samples (bs_latency st)) + sum_list (map (length \<circ> gc_calls \<circ> snd) (ls_threads s))"
    using steady.adds_up(1) [of cd cd deadline evs ?s0] by (simp add: s comp_def)
  moreover have "snd (snd (ls_threads (ramp_phase cd n e st2) ! j)) =
      fst (BenchDisconnect (snd (RunFullFlow cd (j = 0) (pv_flow e j) (new_game_client (int j), st0))))"
  proof -
    let ?r0 = "\<lparr>ls_threads = map (\<lambda>i. (True, (AtConnect, new_game_client (int i)))) [0..<n], ls_metrics = None, ls_stats = st2\<rparr>"
    have "j < length (ls_threads (ramp_phase cd n e st2))" using assms(2) by (simp add: ramp_phase_def ramp.length_run)
    then obtain l where l: "ls_threads (ramp_phase cd n e st2) ! j = (False, l)"
      using assms(3) by (auto simp: joinable_def all_set_conv_all_nth)
    have "run_alone (alone_of (flow_iter cd (pv_flow e)) j) (events_of j (pv_events e)) (True, (AtConnect, new_game_client (int j))) = (False, l)"
      using ramp.alone [of j ?r0 cd cd "pv_flow e" "pv_events e"] assms(2) l by (simp add: ramp_phase_def)
    then have "run_alone (alone_of (flow_iter cd (pv_flow e)) j) (replicate (length (events_of j (pv_events e))) ()) (True, (AtConnect, new_game_client (int j))) = (False, l)"
      by (subst (asm) unit_list)
    from flow_alone_full [OF this, of st0] show ?thesis by (simp add: l)
  qed
  ultimately show ?thesis using alone [OF assms(1)] by (simp add: s_def)
qed

definition demo_ramp :: ramp_env where
  "demo_ramp = \<lparr>pv_flow = \<lambda>_. demo_flow, pv_events = [Report 1 (bench_reply []), Iterate 0 (), Iterate 0 (), Iterate 0 (), Iterate 0 ()]\<rparr>"

definition demo_round :: round_env where
  "demo_round = \<lparr>re_stop = False, re_now = 1, re_call = bench_reply [1]\<rparr>"

definition demo_schedule :: "round_env load_event list" where
  "demo_schedule = [Iterate 1 demo_round, Iterate 0 demo_round, Iterate 1 demo_round]"

lemma demo_ramp_joinable: "joinable (ramp_phase bench_codec 1 demo_ramp demo_stats)"
proof -
  let ?r0 = "\<lparr>ls_threads = map (\<lambda>i. (True, (AtConnect, new_game_client (int i)))) [0..<1], ls_metrics = None, ls_stats = demo_stats\<rparr>"
  let ?s = "ramp_phase bench_codec 1 demo_ramp demo_stats"
  have len: "length (ls_threads ?s) = 1" by (simp add: ramp_phase_def ramp.length_run)
  have "ls_threads ?s ! 0 = run_alone (alone_of (flow_iter bench_codec (\<lambda>_. demo_flow)) 0) [(), (), (), ()] (True, (AtConnect, new_game_client 0))"
    using ramp.alone [of 0 ?r0 bench_codec bench_codec "\<lambda>_. demo_flow" "pv_events demo_ramp"]
    by (simp add: ramp_phase_def demo_ramp_def)
  also have "fst \<dots> = False"
    by (simp add: alone_of_def Let_def end_stage_eq BenchConnect_def BenchLogin_def CreateGameRoom_def timed_op_def TimedCall_def
        demo_flow_def bench_reply_def bench_codec_def split: prod.split)
  finally show ?thesis using len by (auto simp: joinable_def all_set_conv_all_nth)
qed

lemma client_threads_independent_witness:
  "gc_seq (snd (ls_threads (steady_phase bench_codec 9 demo_schedule ([new_game_client 0, new_game_client 1], None, demo_stats)) ! 1)) = 2 \<and>
   fst (MessageLoop bench_codec 9 [demo_round, demo_round] (new_game_client 1, demo_stats)) =
     snd (ls_threads (steady_phase bench_codec 9 demo_schedule ([new_game_client 0, new_game_client 1], None, demo_stats)) ! 1)"
proof -
  have "snd (ls_threads (steady_phase bench_codec 9 demo_schedule ([new_game_client 0, new_game_client 1], None, demo_stats)) ! 1) =
    fst (MessageLoop bench_codec 9 (events_of 1 demo_schedule) ([new_game_client 0, new_game_client 1] ! 1, demo_stats))"
    using client_threads_independent [of 1 "[new_game_client 0, new_game_client 1]" 0 1 bench_codec demo_ramp demo_stats 9 demo_schedule
        None demo_stats demo_stats] demo_ramp_joinable by simp
  moreover have "gc_seq (fst (MessageLoop bench_codec 9 [demo_round, demo_round] (new_game_client 1, demo_stats))) = 2"
    by (simp add: demo_round_def SendOneMessage_def timed_op_def TimedCall_def bench_reply_def bench_codec_def Let_def new_game_client_def)
  ultimately show ?thesis by (simp add: demo_schedule_def)
qed

text \<open>
  A run that no report falls into, as every one of less than five seconds, prints a rate of zero and so
  no requests, whatever the clients have sent: only the reporter advances the window.
\<close>

lemma unreported_run_has_no_rate:
  assumes "\<forall>x \<in> set evs. \<exists>i e. x = Iterate i e" and "sum_list (buckets (bs_qps st)) = 0"
  shows "CurrentQps (bs_qps (ls_stats (steady_phase cd deadline evs (cs, m, st)))) =
    fp_div Double (fp_of_int Double 0) (real (window_sec (bs_qps (ls_stats (steady_phase cd deadline evs (cs, m, st))))))"
proof -
  have "buckets (bs_qps (ls_stats (steady_phase cd deadline evs (cs, m, st)))) = buckets (bs_qps st)"
    using steady.rate_stands [OF assms(1), of cd cd deadline "\<lparr>ls_threads = map (Pair True) cs, ls_metrics = m, ls_stats = st\<rparr>"]
    by (simp add: steady_phase_def)
  then show ?thesis by (simp only: CurrentQps_def assms(2)) simp
qed

end
