(* ===== verification/Server_Run.thy ===== *)
theory Server_Run
  imports Rpc_Calls
begin

text \<open>
  A connection of the RPC server from its beginning, for any table of stateless methods: however its
  reads and writes interleave, once the bytes of some requests have come in, what has gone out and what
  is still buffered are the replies to them. The clients that talk to the server build on this.
\<close>

text \<open>The events of a connection on the server: it is readable, or writable, with the answers of the socket.\<close>

datatype server_event = Readable "recv_result list" "send_result list" | Writable "send_result list"

fun serve_event :: "unit dispatch \<Rightarrow> server_event \<Rightarrow> connection \<Rightarrow> connection" where
  "serve_event d (Readable rs ss) c = fst (ServerRead d rs ss (c, ()))"
| "serve_event d (Writable rs) c = OnWrite rs c"

fun event_ok :: "unit dispatch \<Rightarrow> server_event \<Rightarrow> connection \<Rightarrow> bool" where
  "event_ok d (Readable rs ss) c \<longleftrightarrow> read_pass rs \<and> answers_ok d (new_frames c (OnRead rs c)) ss ()"
| "event_ok d (Writable rs) c \<longleftrightarrow> writes_ok (length (pending_out c)) rs \<and> registered (OnWrite rs c)"

fun event_bytes :: "server_event \<Rightarrow> bytes" where
  "event_bytes (Readable rs ss) = received rs"
| "event_bytes (Writable rs) = []"

fun serve_all :: "unit dispatch \<Rightarrow> server_event list \<Rightarrow> connection \<Rightarrow> connection" where
  "serve_all d [] c = c"
| "serve_all d (e # es) c = serve_all d es (serve_event d e c)"

fun events_ok :: "unit dispatch \<Rightarrow> server_event list \<Rightarrow> connection \<Rightarrow> bool" where
  "events_ok d [] c \<longleftrightarrow> True"
| "events_ok d (e # es) c \<longleftrightarrow> event_ok d e c \<and> events_ok d es (serve_event d e c)"

definition serving :: "unit dispatch \<Rightarrow> frame list \<Rightarrow> nat \<Rightarrow> bytes \<Rightarrow> connection \<Rightarrow> bool" where
  "serving d fs k p c \<longleftrightarrow> parsed fs k p (read_buffer c) \<and> conn_inv c \<and> registered c \<and>
     wire_out c @ pending_out c = concat (replies d (take k fs) ())"

lemma serve_read:
  assumes "\<forall>f \<in> set fs. encodable f" and "serving d fs k p c" and "read_pass rs"
    and "prefix (p @ received rs) (stream_of fs)" and "answers_ok d (new_frames c (OnRead rs c)) ss ()"
  shows "\<exists>k'. serving d fs k' (p @ received rs) (fst (ServerRead d rs ss (c, ())))"
proof -
  from assms(2) have p: "parsed fs k p (read_buffer c)" by (simp add: serving_def)
  obtain k' b' where k': "k \<le> k'" "parsed fs k' (p @ received rs) b'"
    and r: "OnRead rs c = c\<lparr>read_buffer := b', events := events c @ map FrameReceived (drop k (take k' fs))\<rparr>"
    using read_parsed [OF assms(1) p assms(3,4)] by blast
  let ?new = "drop k (take k' fs)" and ?c = "OnRead rs c" and ?c' = "fst (ServerRead d rs ss (c, ()))"
  have f: "new_frames c ?c = ?new" by (simp only: r new_frames_more)
  have i: "conn_inv ?c" "registered ?c" "wire_out ?c = wire_out c" "pending_out ?c = pending_out c" "read_buffer ?c = b'"
    using assms(2) by (simp_all add: serving_def r conn_inv_def pending_out_def)
  have t: "take k' fs = take k fs @ ?new"
    using k'(1) by (metis append_take_drop_id min.absorb1 take_take)
  have "fst (ServerRead d rs ss (c, ())) = fst (serve_frames d ?new ss (?c, ()))"
    by (simp add: ServerRead_def Let_def f)
  with serve_frames_sends [OF i(1) assms(5) [unfolded f]] i(2-5)
  have c': "conn_inv ?c'" "registered ?c'" "read_buffer ?c' = b'"
      "wire_out ?c' @ pending_out ?c' = (wire_out c @ pending_out c) @ concat (replies d ?new ())"
    by (simp_all add: Let_def)
  have "wire_out c @ pending_out c = concat (replies d (take k fs) ())"
    using assms(2) by (simp add: serving_def)
  then have "wire_out ?c' @ pending_out ?c' = concat (replies d (take k' fs) ())"
    using arg_cong [OF t, of "\<lambda>gs. concat (replies d gs ())"] c'(4) by (simp only: replies_append concat_append)
  with c' k'(2) have "serving d fs k' (p @ received rs) ?c'" by (simp add: serving_def)
  then show ?thesis by blast
qed

lemma serve_write:
  assumes "serving d fs k p c" and "writes_ok (length (pending_out c)) rs" and "registered (OnWrite rs c)"
  shows "serving d fs k p (OnWrite rs c)"
  using assms OnWrite_sends [of c rs] OnWrite_grows [of c rs] by (simp add: serving_def Let_def)

lemma serve_step:
  assumes "\<forall>f \<in> set fs. encodable f" and "serving d fs k p c" and "event_ok d e c" and "prefix (p @ event_bytes e) (stream_of fs)"
  shows "\<exists>k'. serving d fs k' (p @ event_bytes e) (serve_event d e c)"
proof (cases e)
  case (Readable rs ss)
  with assms serve_read [OF assms(1,2)] show ?thesis by simp
next
  case (Writable rs)
  with assms(3) serve_write [OF assms(2)] show ?thesis by auto
qed

lemma serve_all_serving:
  assumes "\<forall>f \<in> set fs. encodable f"
  shows "events_ok d es c \<Longrightarrow> serving d fs k p c \<Longrightarrow> prefix (p @ concat (map event_bytes es)) (stream_of fs) \<Longrightarrow>
    \<exists>k'. serving d fs k' (p @ concat (map event_bytes es)) (serve_all d es c)"
proof (induction d es c arbitrary: k p rule: serve_all.induct)
  case (2 d e es c)
  have "prefix (p @ event_bytes e) (stream_of fs)"
    using 2(4) by (auto intro: append_prefixD)
  with serve_step [OF assms 2(3)] 2(2) obtain k1
    where k1: "serving d fs k1 (p @ event_bytes e) (serve_event d e c)" by auto
  from 2(1) [OF _ k1] 2(2,4) show ?case by simp
qed auto

lemma start_serving: "serving d fs 0 [] (new_connection n)"
  by (simp add: serving_def new_connection_def conn_inv_def pending_out_def)

lemma served:
  assumes "\<forall>f \<in> set fs. encodable f" and "events_ok d es (new_connection n)"
    and "concat (map event_bytes es) = stream_of fs"
  shows "wire_out (serve_all d es (new_connection n)) @ pending_out (serve_all d es (new_connection n)) = concat (replies d fs ())"
proof -
  obtain k where "serving d fs k (stream_of fs) (serve_all d es (new_connection n))"
    using serve_all_serving [OF assms(1,2) start_serving] assms(3) by auto
  with parsed_all [OF assms(1)] show ?thesis by (auto simp: serving_def)
qed


end
