(* ===== verification/Fragment_Test.thy ===== *)
theory Fragment_Test
  imports Server_Run
begin

text \<open>
  \<open>bench/packet_frag_test.cpp\<close>: a client that sends requests for \<open>Add\<close> glued together and cut into
  pieces in seven ways and checks the results. The pieces in which the bytes arrive on either side are
  arguments; printing and sleeping are left out. The last section runs the scenarios against the server
  of \<open>Rpc_Server\<close>.
\<close>

subsection \<open>Requests and results\<close>

definition MakeAddFrame :: "u32 \<Rightarrow> i32 \<Rightarrow> i32 \<Rightarrow> bytes" where
  "MakeAddFrame rid a b = Encode rid Request ''Add'' (two_args a b)"

definition DecodeResponseResult :: "frame \<Rightarrow> i32" where
  "DecodeResponseResult f = (case fst (ReadInt32 (make_reader (body f))) of Some v \<Rightarrow> v | None \<Rightarrow> - 99999)"

text \<open>
  The receive loop; only responses count, frames that do not decode are skipped, and everything but data
  ends it (here \<open>EINTR\<close> does, too). A list of answers that ends is read as the timeout.
\<close>

definition pop_responses :: "bytes list \<Rightarrow> frame list" where
  "pop_responses raws = filter (\<lambda>f. msg_type f = Response) (List.map_filter Decode raws)"

fun ReceiveResponses :: "nat \<Rightarrow> recv_result list \<Rightarrow> recv_buffer \<Rightarrow> frame list \<Rightarrow> frame list" where
  "ReceiveResponses expected [] b acc = acc"
| "ReceiveResponses expected (r # rs) b acc =
     (if expected \<le> length acc then acc
      else case r of
        RecvData d \<Rightarrow> (case feed_buffer d b of (raws, b') \<Rightarrow> ReceiveResponses expected rs b' (acc @ pop_responses raws))
      | _ \<Rightarrow> acc)"

subsection \<open>The scenarios\<close>

record test_case =
  tc_sends :: "bytes list"
  tc_expected :: "i32 list"

definition RunNormal :: test_case where
  "RunNormal = \<lparr>tc_sends = [MakeAddFrame 1 3 5, MakeAddFrame 2 10 20, MakeAddFrame 3 7 2], tc_expected = [8, 30, 9]\<rparr>"

definition RunSticky2 :: test_case where
  "RunSticky2 = \<lparr>tc_sends = [MakeAddFrame 1 3 5 @ MakeAddFrame 2 10 20], tc_expected = [8, 30]\<rparr>"

definition RunSticky5 :: test_case where
  "RunSticky5 =
     \<lparr>tc_sends = [concat (map (\<lambda>i. MakeAddFrame (of_nat (i + 1)) (of_nat (i + 1)) (of_nat (i * 2))) [0..<5])],
      tc_expected = map (\<lambda>i. of_nat (i + 1) + of_nat (i * 2)) [0..<5]\<rparr>"

definition halves :: "bytes \<Rightarrow> bytes \<times> bytes" where
  "halves f = (take (length f div 2) f, drop (length f div 2) f)"

definition RunSplitHalf :: test_case where
  "RunSplitHalf = (case halves (MakeAddFrame 1 3 5) of (x, y) \<Rightarrow> \<lparr>tc_sends = [x, y], tc_expected = [8]\<rparr>)"

definition RunSplitByte :: test_case where
  "RunSplitByte = \<lparr>tc_sends = map (\<lambda>x. [x]) (MakeAddFrame 1 3 5), tc_expected = [8]\<rparr>"

definition RunCombo :: test_case where
  "RunCombo = (case halves (MakeAddFrame 1 1 2) of (x, y) \<Rightarrow> \<lparr>tc_sends = [x, y @ MakeAddFrame 2 10 5], tc_expected = [3, 15]\<rparr>)"

text \<open>The generator of the piece sizes, in two's complement; in C++ the product overflows an \<open>int\<close>.\<close>

definition next_seed :: "i32 \<Rightarrow> i32" where
  "next_seed s = take_bit 31 (s * 1103515245 + 12345)"

definition chunk_size :: "i32 \<Rightarrow> nat" where
  "chunk_size s = 1 + unat s mod 15"

function cut_chunks :: "i32 \<Rightarrow> bytes \<Rightarrow> bytes list" where
  "cut_chunks s bs =
     (if bs = [] then []
      else take (chunk_size (next_seed s)) bs # cut_chunks (next_seed s) (drop (chunk_size (next_seed s)) bs))"
  by pat_completeness auto
termination by (relation "measure (\<lambda>(_, bs). length bs)") (auto simp: chunk_size_def)

definition RunRandomChunks :: test_case where
  "RunRandomChunks =
     \<lparr>tc_sends = cut_chunks 42 (MakeAddFrame 1 3 5 @ MakeAddFrame 2 8 2 @ MakeAddFrame 3 1 9), tc_expected = [8, 10, 10]\<rparr>"

definition all_scenarios :: "(string \<times> test_case) list" where
  "all_scenarios = [(''normal'', RunNormal), (''sticky_2'', RunSticky2), (''sticky_5'', RunSticky5),
     (''split_half'', RunSplitHalf), (''split_byte'', RunSplitByte), (''combo'', RunCombo), (''random_chunks'', RunRandomChunks)]"

text \<open>A scenario on a connection, with the answers of its calls of \<open>recv\<close>.\<close>

definition scenario_passes :: "test_case \<Rightarrow> recv_result list \<Rightarrow> bool" where
  "scenario_passes tc rs =
     (let responses = ReceiveResponses (length (tc_expected tc)) rs empty_buffer []
      in length responses = length (tc_expected tc) \<and> map DecodeResponseResult responses = tc_expected tc)"

text \<open>
  The program: the check that the server can be reached, and then the scenarios selected, each with the
  answers it gets or no connection. The numbers of passed and failed ones, and the exit status.
\<close>

fun run_scenarios :: "string \<Rightarrow> (string \<Rightarrow> recv_result list option) \<Rightarrow> (string \<times> test_case) list \<Rightarrow> nat \<times> nat" where
  "run_scenarios sel net [] = (0, 0)"
| "run_scenarios sel net ((n, tc) # xs) =
     (case run_scenarios sel net xs of (passed, failed) \<Rightarrow>
      if sel \<noteq> ''all'' \<and> sel \<noteq> n then (passed, failed)
      else if (case net n of None \<Rightarrow> False | Some rs \<Rightarrow> scenario_passes tc rs) then (passed + 1, failed)
      else (passed, failed + 1))"

definition fragment_test :: "bool \<Rightarrow> string \<Rightarrow> (string \<Rightarrow> recv_result list option) \<Rightarrow> int" where
  "fragment_test up sel net =
     (if \<not> up then 1 else if 0 < snd (run_scenarios sel net all_scenarios) then 1 else 0)"


subsection \<open>What the scenarios send\<close>

definition add_request :: "u32 \<times> i32 \<times> i32 \<Rightarrow> frame" where
  "add_request x = (case x of (rid, a, b) \<Rightarrow>
     \<lparr>request_id = rid, msg_type = Request, method_name = ''Add'', body = two_args a b\<rparr>)"

definition add_response :: "u32 \<times> i32 \<times> i32 \<Rightarrow> frame" where
  "add_response x = (case x of (rid, a, b) \<Rightarrow>
     \<lparr>request_id = rid, msg_type = Response, method_name = ''Add'', body = ser_buffer (WriteInt32 (a + b) empty_writer)\<rparr>)"

definition add_sum :: "u32 \<times> i32 \<times> i32 \<Rightarrow> i32" where
  "add_sum x = (case x of (rid, a, b) \<Rightarrow> a + b)"

lemma add_response_type [simp]: "msg_type (add_response x) = Response"
  by (simp add: add_response_def split: prod.split)

lemma MakeAddFrame_encode: "MakeAddFrame rid a b = encode_frame (add_request (rid, a, b))"
  by (simp add: MakeAddFrame_def encode_frame_def add_request_def)

lemma add_encodable [simp]: "encodable (add_request x)" "encodable (add_response x)"
  by (auto simp: add_request_def add_response_def encodable_def kMaxFrameSize_def split: prod.splits)

lemma add_reply: "replies bench_dispatch (map add_request xs) () = map (encode_frame \<circ> add_response) xs"
proof (induction xs)
  case (Cons x xs)
  obtain rid a b where x: "x = (rid, a, b)" by (metis prod_cases3)
  have "fst (DispatchCall bench_dispatch ''Add'' (two_args a b) ()) = Some (ser_buffer (WriteInt32 (a + b) empty_writer))"
    using add_result [of a b] by (simp add: method_result_def)
  then have "server_reply bench_dispatch (add_request x) () = (encode_frame (add_response x), ())"
    by (auto simp: server_reply_def add_request_def add_response_def x encode_frame_def split: prod.splits option.splits)
  with Cons show ?case by simp
qed simp

lemma result_of_response: "DecodeResponseResult (add_response x) = add_sum x"
proof -
  obtain rid a b where x: "x = (rid, a, b)" by (metis prod_cases3)
  let ?v = "tlv TInt32 (be_bytes 4 (a + b))"
  have "remaining (make_reader (ser_buffer (WriteInt32 (a + b) empty_writer))) = ?v @ []"
    by (simp add: remaining_def make_reader_def int32.wr_appends empty_writer_def)
  then have "fst (ReadInt32 (make_reader (ser_buffer (WriteInt32 (a + b) empty_writer)))) = Some (a + b)"
    by (subst int32.rd_value [rotated]) simp_all
  then show ?thesis by (simp add: DecodeResponseResult_def add_response_def add_sum_def x)
qed

lemma concat_cut_chunks: "concat (cut_chunks s bs) = bs"
proof (induction s bs rule: cut_chunks.induct)
  case (1 s bs)
  then show ?case by (subst cut_chunks.simps) auto
qed

lemma concat_singletons: "concat (map (\<lambda>x. [x]) xs) = xs"
  by (induction xs) simp_all

definition sends_requests :: "test_case \<Rightarrow> (u32 \<times> i32 \<times> i32) list \<Rightarrow> bool" where
  "sends_requests tc xs \<longleftrightarrow> concat (tc_sends tc) = stream_of (map add_request xs) \<and> tc_expected tc = map add_sum xs"

lemma scenario_requests:
  assumes "(n, tc) \<in> set all_scenarios"
  obtains xs where "concat (tc_sends tc) = stream_of (map add_request xs)" and "tc_expected tc = map add_sum xs"
proof -
  have "sends_requests RunNormal [(1, 3, 5), (2, 10, 20), (3, 7, 2)]"
    by (simp add: sends_requests_def RunNormal_def MakeAddFrame_encode add_sum_def)
  moreover have "sends_requests RunSticky2 [(1, 3, 5), (2, 10, 20)]"
    by (simp add: sends_requests_def RunSticky2_def MakeAddFrame_encode add_sum_def)
  moreover have "sends_requests RunSticky5 (map (\<lambda>i. (of_nat (i + 1), of_nat (i + 1), of_nat (i * 2))) [0..<5])"
    by (simp add: sends_requests_def RunSticky5_def MakeAddFrame_encode add_sum_def comp_def)
  moreover have "sends_requests RunSplitHalf [(1, 3, 5)]"
    by (simp add: sends_requests_def RunSplitHalf_def halves_def MakeAddFrame_encode add_sum_def)
  moreover have "sends_requests RunSplitByte [(1, 3, 5)]"
    by (simp add: sends_requests_def RunSplitByte_def concat_singletons MakeAddFrame_encode add_sum_def)
  moreover have "sends_requests RunCombo [(1, 1, 2), (2, 10, 5)]"
    by (simp add: sends_requests_def RunCombo_def halves_def MakeAddFrame_encode add_sum_def flip: append_assoc)
  moreover have "sends_requests RunRandomChunks [(1, 3, 5), (2, 8, 2), (3, 1, 9)]"
    by (simp add: sends_requests_def RunRandomChunks_def concat_cut_chunks MakeAddFrame_encode add_sum_def del: cut_chunks.simps)
  ultimately have "\<exists>xs. sends_requests tc xs" using assms by (auto simp: all_scenarios_def)
  then show ?thesis using that by (auto simp: sends_requests_def)
qed

subsection \<open>The test client\<close>

lemma pop_encoded:
  "\<forall>f \<in> set fs. encodable f \<and> msg_type f = Response \<Longrightarrow> pop_responses (map encode_frame fs) = fs"
  by (induction fs) (simp_all add: pop_responses_def List.map_filter_def Decode_encodable)

text \<open>The bytes arrive in pieces, none of them empty (an empty one is the end of the connection).\<close>

lemma responses_received:
  assumes fs: "\<forall>f \<in> set fs. encodable f \<and> msg_type f = Response"
  shows "parsed fs k p b \<Longrightarrow> p @ concat ds = stream_of fs \<Longrightarrow>
    ReceiveResponses (length fs) (map RecvData ds) b (take k fs) = fs"
proof (induction ds arbitrary: k p b)
  case Nil
  then have "k = length fs" using parsed_all [of fs k b] fs by simp
  then show ?case by simp
next
  case (Cons d ds)
  have e: "\<forall>f \<in> set fs. encodable f" using fs by blast
  have "prefix (p @ d) (stream_of fs)" using Cons.prems(2) by (metis append.assoc concat.simps(2) prefixI)
  from parsed_more [OF e Cons.prems(1) this] obtain k' b' where k': "k \<le> k'" "parsed fs k' (p @ d) b'"
    and f: "feed_buffer d b = (map encode_frame (drop k (take k' fs)), b')" by blast
  have new: "pop_responses (map encode_frame (drop k (take k' fs))) = drop k (take k' fs)"
    using fs by (intro pop_encoded) (auto dest: in_set_takeD in_set_dropD)
  have t: "take k fs @ drop k (take k' fs) = take k' fs"
    using k'(1) by (metis append_take_drop_id min.absorb1 take_take)
  show ?case
  proof (cases "length fs \<le> k")
    case True
    then show ?thesis by simp
  next
    case False
    with Cons.IH [OF k'(2)] Cons.prems(2) show ?thesis by (simp add: f new t)
  qed
qed


text \<open>C8. Every scenario of the fragmentation test passes against the server: however the seven
  scenarios glue requests together and cut them, however the network cuts the bytes again on the way to
  the server and on the way back, and however the server's sends are split, the client decodes exactly
  the expected sums, in the order of the requests.\<close>

theorem fragment_scenarios_pass:
  assumes "(name, tc) \<in> set all_scenarios"
    and "events_ok bench_dispatch es (new_connection n)"
    and "concat (map event_bytes es) = concat (tc_sends tc)"
    and "concat pieces = wire_out (serve_all bench_dispatch es (new_connection n))"
    and "pending_out (serve_all bench_dispatch es (new_connection n)) = []"
  shows "scenario_passes tc (map RecvData pieces)"
proof -
  obtain xs where x: "concat (tc_sends tc) = stream_of (map add_request xs)" "tc_expected tc = map add_sum xs"
    using scenario_requests [OF assms(1)] by blast
  have "concat pieces = concat (replies bench_dispatch (map add_request xs) ())"
    using served [OF _ assms(2), of "map add_request xs"] assms(3-5) x by auto
  then have "concat pieces = stream_of (map add_response xs)" by (simp add: add_reply)
  moreover have "\<forall>f \<in> set (map add_response xs). encodable f \<and> msg_type f = Response"
    by simp
  ultimately have "ReceiveResponses (length (map add_response xs)) (map RecvData pieces) empty_buffer [] = map add_response xs"
    using responses_received [OF _ parsed_start, of "map add_response xs" pieces] by simp
  then show ?thesis by (simp add: scenario_passes_def Let_def x result_of_response)
qed

text \<open>The generator of the random pieces computes beyond the range of \<open>int\<close> in its first step.\<close>

lemma seed_overflows: "\<not> (sint (42 :: i32) * 1103515245 + 12345 < 2 ^ 31)"
  by simp

text \<open>A name that is no scenario selects none, and the program reports success.\<close>

lemma unknown_scenario_succeeds: "fragment_test True ''typo'' net = 0"
  by (simp add: fragment_test_def all_scenarios_def)

definition demo_events :: "server_event list" where
  "demo_events = [Readable [RecvData (MakeAddFrame 1 3 5), RecvAgain] [Sent 10], Writable [Sent 15]]"

lemma demo_event_frames:
  "new_frames (new_connection 5) (OnRead [RecvData (encode_frame (add_request (1, 3, 5))), RecvAgain] (new_connection 5)) = [add_request (1, 3, 5)]"
  by (rule OnRead_one_frame) (simp_all add: new_connection_def)

lemma demo_event_reply: "server_reply bench_dispatch (add_request (1, 3, 5)) () = (encode_frame (add_response (1, 3, 5)), ())"
  using add_reply [of "[(1, 3, 5)]"] by (simp split: prod.splits)

lemma demo_response_length: "length (encode_frame (add_response (1, 3, 5))) = 25"
  by (simp add: encode_frame_def add_response_def)

lemma demo_after_read:
  "serve_event bench_dispatch (Readable [RecvData (encode_frame (add_request (1, 3, 5))), RecvAgain] [Sent 10]) (new_connection 5) =
     Send (Sent 10) (encode_frame (add_response (1, 3, 5))) (OnRead [RecvData (encode_frame (add_request (1, 3, 5))), RecvAgain] (new_connection 5))"
  by (simp add: ServerRead_def Let_def demo_event_frames demo_event_reply)

lemma OnRead_write_offset: "write_offset (OnRead rs c) = write_offset c"
  by (auto simp: OnRead_def dest!: recv_loop_writes split: prod.splits bool.splits)

lemma demo_read_fields:
  "write_buffer (OnRead rs (new_connection 5)) = []" "wire_out (OnRead rs (new_connection 5)) = []"
  "write_offset (OnRead rs (new_connection 5)) = 0"
  "registered (OnRead [RecvData (encode_frame (add_request (1, 3, 5))), RecvAgain] (new_connection 5))"
  using OnRead_writes [of rs "new_connection 5"]
  by (simp_all add: OnRead_write_buffer OnRead_write_offset OnRead_registered new_connection_def)

lemma demo_events_run:
  "events_ok bench_dispatch demo_events (new_connection 5)" 
  "wire_out (serve_all bench_dispatch demo_events (new_connection 5)) = encode_frame (add_response (1, 3, 5))"
  "pending_out (serve_all bench_dispatch demo_events (new_connection 5)) = []"
  by (simp_all add: demo_events_def demo_after_read Send_def demo_read_fields demo_response_length pending_out_def
      MakeAddFrame_encode demo_event_frames demo_event_reply del: serve_event.simps(1))

theorem fragment_scenarios_pass_witness:
  "scenario_passes RunSplitHalf [RecvData (take 7 (encode_frame (add_response (1, 3, 5)))), RecvData (drop 7 (encode_frame (add_response (1, 3, 5))))]"
  using fragment_scenarios_pass [of "''split_half''" RunSplitHalf demo_events 5
      "[take 7 (encode_frame (add_response (1, 3, 5))), drop 7 (encode_frame (add_response (1, 3, 5)))]"]
  by (simp add: demo_events_run all_scenarios_def) (simp add: demo_events_def RunSplitHalf_def halves_def)

end
