(* ===== verification/Godot_Client.thy ===== *)
theory Godot_Client
  imports Fragment_Test
begin

text \<open>
  The network layer of the Godot client, \<open>godot_client/scripts/net/frame_codec.gd\<close> and
  \<open>rpc_client.gd\<close>: the same frame format written a second time, and a client with signals instead of
  futures. GDScript's \<open>int\<close> has 64 bits and no operation here leaves them; a method name is its UTF-8
  bytes. What the peer of the connection reports is an argument; the signals emitted are recorded.
\<close>

subsection \<open>The codec\<close>

definition GD_MAGIC :: int where "GD_MAGIC = 0xBABE"
definition HEADER_SIZE :: nat where "HEADER_SIZE = 13"
definition MAX_FRAME_SIZE :: nat where "MAX_FRAME_SIZE = 10 * 1024 * 1024"
definition TYPE_REQUEST :: int where "TYPE_REQUEST = 0x01"
definition TYPE_RESPONSE :: int where "TYPE_RESPONSE = 0x02"
definition TYPE_ERROR :: int where "TYPE_ERROR = 0x03"

lemmas gd_consts = GD_MAGIC_def HEADER_SIZE_def MAX_FRAME_SIZE_def TYPE_REQUEST_def TYPE_RESPONSE_def TYPE_ERROR_def

definition write_u16_be :: "int \<Rightarrow> bytes" where
  "write_u16_be v = [word_of_int (drop_bit 8 v AND 0xFF), word_of_int (v AND 0xFF)]"

definition write_u32_be :: "int \<Rightarrow> bytes" where
  "write_u32_be v = [word_of_int (drop_bit 24 v AND 0xFF), word_of_int (drop_bit 16 v AND 0xFF),
     word_of_int (drop_bit 8 v AND 0xFF), word_of_int (v AND 0xFF)]"

definition read_u16_be :: "bytes \<Rightarrow> nat \<Rightarrow> int" where
  "read_u16_be b i = push_bit 8 (uint (b ! i)) OR uint (b ! (i + 1))"

definition read_u32_be :: "bytes \<Rightarrow> nat \<Rightarrow> int" where
  "read_u32_be b i = ((push_bit 24 (uint (b ! i)) OR push_bit 16 (uint (b ! (i + 1)))) OR
     push_bit 8 (uint (b ! (i + 2)))) OR uint (b ! (i + 3))"

text \<open>The frame, or nothing when it does not fit the format.\<close>

definition gd_encode :: "int \<Rightarrow> int \<Rightarrow> string \<Rightarrow> bytes \<Rightarrow> bytes" where
  "gd_encode rid mt m bdy =
     (if 0xFFFF < length m then []
      else let total_length = HEADER_SIZE + length m + length bdy
      in if MAX_FRAME_SIZE < total_length then []
         else write_u16_be GD_MAGIC @ write_u32_be (int total_length) @ write_u32_be rid @
           [word_of_int (mt AND 0xFF)] @ write_u16_be (int (length m)) @ bytes_of_string m @ bdy)"

record gd_frame =
  gf_id :: int
  gf_type :: int
  gf_method :: string
  gf_body :: bytes

definition is_message_type :: "int \<Rightarrow> bool" where
  "is_message_type t \<longleftrightarrow> t = TYPE_REQUEST \<or> t = TYPE_RESPONSE \<or> t = TYPE_ERROR"

text \<open>
  \<open>decode_frames\<close> on the bytes from the current offset on: what does not start with a valid header is
  skipped byte by byte, a complete frame with an invalid type or method length is dropped whole.
\<close>

function decode_frames :: "bytes \<Rightarrow> gd_frame list \<times> bytes" where
  "decode_frames b =
     (if length b < HEADER_SIZE then ([], b)
      else if read_u16_be b 0 \<noteq> GD_MAGIC then decode_frames (drop 1 b)
      else let total_length = nat (read_u32_be b 2)
      in if total_length < HEADER_SIZE \<or> MAX_FRAME_SIZE < total_length then decode_frames (drop 1 b)
         else if length b < total_length then ([], b)
         else let mt = uint (b ! 10); method_length = nat (read_u16_be b 11)
         in if \<not> is_message_type mt \<or> total_length - HEADER_SIZE < method_length then decode_frames (drop total_length b)
            else case decode_frames (drop total_length b) of (fs, rest) \<Rightarrow>
              (\<lparr>gf_id = read_u32_be b 6, gf_type = mt,
                gf_method = string_of_bytes (take method_length (drop 13 b)),
                gf_body = take (total_length - HEADER_SIZE - method_length) (drop (13 + method_length) b)\<rparr> # fs, rest))"
  by pat_completeness auto
termination by (relation "measure length") (auto simp: HEADER_SIZE_def)

declare decode_frames.simps [simp del]

subsection \<open>The client\<close>

datatype gd_signal =
    ConnectedSignal
  | DisconnectedSignal
  | NotifySignal string bytes
  | ErrorSignal string bytes
  | ResponseSignal int string bytes bool

record gd_client =
  gd_peer :: bool
  gd_receive_buffer :: bytes
  gd_next_id :: int
  gd_is_connected :: bool
  gd_sent :: bytes
  gd_signals :: "gd_signal list"

definition new_gd_client :: gd_client where
  "new_gd_client = \<lparr>gd_peer = False, gd_receive_buffer = [], gd_next_id = 1, gd_is_connected = False, gd_sent = [], gd_signals = []\<rparr>"

definition emit :: "gd_signal \<Rightarrow> gd_client \<Rightarrow> gd_client" where
  "emit s c = c\<lparr>gd_signals := gd_signals c @ [s]\<rparr>"

definition handle_disconnected :: "gd_client \<Rightarrow> gd_client" where
  "handle_disconnected c = (if gd_is_connected c then emit DisconnectedSignal (c\<lparr>gd_is_connected := False\<rparr>) else c)"

definition connect_to_host :: "gd_client \<Rightarrow> gd_client" where
  "connect_to_host c = c\<lparr>gd_peer := True, gd_receive_buffer := [], gd_is_connected := False, gd_sent := []\<rparr>"

definition disconnect_from_host :: "gd_client \<Rightarrow> gd_client" where
  "disconnect_from_host c = (if \<not> gd_peer c then c else handle_disconnected c)"

definition take_request_id :: "gd_client \<Rightarrow> int \<times> gd_client" where
  "take_request_id c =
     (let n = (gd_next_id c + 1) AND 0xFFFFFFFF
      in (gd_next_id c, c\<lparr>gd_next_id := if n = 0 then 1 else n\<rparr>))"

text \<open>\<open>put_data\<close> writes everything, or fails after some bytes.\<close>

datatype put_result = PutOk | PutFailed nat

definition send_request :: "bool \<Rightarrow> put_result \<Rightarrow> string \<Rightarrow> bytes \<Rightarrow> gd_client \<Rightarrow> int \<times> gd_client" where
  "send_request status_connected put m bdy c =
     (if \<not> gd_peer c \<or> \<not> status_connected then (0, c)
      else case take_request_id c of (rid, c1) \<Rightarrow>
        let fr = gd_encode rid TYPE_REQUEST m bdy
        in if fr = [] then (0, c1)
           else case put of
             PutOk \<Rightarrow> (rid, c1\<lparr>gd_sent := gd_sent c1 @ fr\<rparr>)
           | PutFailed n \<Rightarrow> (0, c1\<lparr>gd_sent := gd_sent c1 @ take n fr\<rparr>))"

definition dispatch_frame :: "gd_frame \<Rightarrow> gd_client \<Rightarrow> gd_client" where
  "dispatch_frame f c =
     (if gf_type f = TYPE_REQUEST \<or> gf_id f = 0 then emit (NotifySignal (gf_method f) (gf_body f)) c
      else let is_error = (gf_type f = TYPE_ERROR); c1 = emit (ResponseSignal (gf_id f) (gf_method f) (gf_body f) is_error) c
      in if is_error then emit (ErrorSignal (gf_method f) (gf_body f)) c1 else c1)"

datatype get_result = GotData bytes | GotError

fun read_loop :: "get_result list \<Rightarrow> gd_client \<Rightarrow> bool \<times> gd_client" where
  "read_loop [] c = (True, c)"
| "read_loop (GotData d # rs) c = read_loop rs (c\<lparr>gd_receive_buffer := gd_receive_buffer c @ d\<rparr>)"
| "read_loop (GotError # rs) c = (False, handle_disconnected c)"

definition read_available_bytes :: "get_result list \<Rightarrow> gd_client \<Rightarrow> gd_client" where
  "read_available_bytes rs c =
     (case read_loop rs c of
        (False, c1) \<Rightarrow> c1
      | (True, c1) \<Rightarrow>
          (case decode_frames (gd_receive_buffer c1) of
             (fs, rest) \<Rightarrow> fold dispatch_frame fs (c1\<lparr>gd_receive_buffer := rest\<rparr>)))"

datatype peer_status = StatusConnected | StatusError | StatusOther

definition poll :: "bool \<Rightarrow> peer_status \<Rightarrow> get_result list \<Rightarrow> gd_client \<Rightarrow> gd_client" where
  "poll poll_ok status rs c =
     (if \<not> gd_peer c then c
      else if \<not> poll_ok then handle_disconnected c
      else if status = StatusConnected then
        let c1 = (if gd_is_connected c then c else emit ConnectedSignal (c\<lparr>gd_is_connected := True\<rparr>))
        in read_available_bytes rs c1
      else if gd_is_connected c \<or> status = StatusError then handle_disconnected c else c)"

subsection \<open>Both codecs write the same bytes\<close>

lemma byte_of_masked: "word_of_int (drop_bit k (uint (w :: 'a::len word)) AND 0xFF) = (ucast (drop_bit k w) :: byte)"
proof -
  have m: "(0xFF :: int) = mask 8" by (simp add: mask_eq_exp_minus_1)
  show ?thesis unfolding m by (rule bit_word_eqI) (auto simp: bit_simps)
qed

lemma write_u16_word: "write_u16_be (uint (w :: u16)) = be_bytes 2 w"
  using byte_of_masked [of 0 w] byte_of_masked [of 8 w] by (simp add: write_u16_be_def be_bytes_def store_le_2)

lemma write_u32_word: "write_u32_be (uint (w :: u32)) = be_bytes 4 w"
  using byte_of_masked [of 0 w] byte_of_masked [of 8 w] byte_of_masked [of 16 w] byte_of_masked [of 24 w]
  by (simp add: write_u32_be_def be_bytes_def store_le_4)


lemma read_u16_word: "read_u16_be (be_bytes 2 w @ rest) 0 = uint (w :: u16)"
  unfolding be_bytes_def store_le_2 read_u16_be_def
  by (rule bit_eqI) (auto simp: bit_simps not_less dest: bit_imp_le_length)

lemma read_u32_word: "read_u32_be (be_bytes 4 w @ rest) 0 = uint (w :: u32)"
proof (rule bit_eqI)
  fix n :: nat
  consider "n < 8" | "8 \<le> n" "n < 16" | "16 \<le> n" "n < 24" | "24 \<le> n" by linarith
  then show "bit (read_u32_be (be_bytes 4 w @ rest) 0) n = bit (uint w) n"
    unfolding be_bytes_def store_le_4 read_u32_be_def
    by cases (auto simp: bit_simps not_less dest: bit_imp_le_length)
qed


subsection \<open>Both codecs read the same frames\<close>

definition gd_view :: "frame \<Rightarrow> gd_frame" where
  "gd_view f = \<lparr>gf_id = uint (request_id f), gf_type = uint (message_type_byte (msg_type f)),
     gf_method = method_name f, gf_body = body f\<rparr>"

lemma gd_encode_word:
  "gd_encode (uint rid) (uint (message_type_byte mt)) m bdy =
     (if encodable \<lparr>request_id = rid, msg_type = mt, method_name = m, body = bdy\<rparr> then Encode rid mt m bdy else [])"
proof -
  let ?n = "13 + length m + length bdy"
  have mt: "word_of_int (uint (message_type_byte mt) AND 0xFF) = message_type_byte mt" by (cases mt) simp_all
  show ?thesis
  proof (cases "encodable \<lparr>request_id = rid, msg_type = mt, method_name = m, body = bdy\<rparr>")
    case True
    then have n: "length m < 2 ^ 16" "?n < 2 ^ 32" by (simp_all add: encodable_def frame_consts)
    have t: "int ?n = uint (word_of_nat ?n :: u32)" "int (length m) = uint (word_of_nat (length m) :: u16)"
      "GD_MAGIC = uint kProtocolMagic"
      using n by (simp_all add: uint_nat unat_of_nat GD_MAGIC_def kProtocolMagic_def del: of_nat_add)
    have "gd_encode (uint rid) (uint (message_type_byte mt)) m bdy =
        write_u16_be GD_MAGIC @ write_u32_be (int ?n) @ write_u32_be (uint rid) @
        [word_of_int (uint (message_type_byte mt) AND 0xFF)] @ write_u16_be (int (length m)) @ bytes_of_string m @ bdy"
      using True by (simp add: gd_encode_def encodable_def HEADER_SIZE_def MAX_FRAME_SIZE_def kMaxFrameSize_def)
    also have "\<dots> = header (word_of_nat ?n) rid mt (word_of_nat (length m)) @ bytes_of_string m @ bdy"
      unfolding t mt write_u16_word write_u32_word by (simp add: header_def)
    also have "\<dots> = Encode rid mt m bdy" by (simp only: Encode_header)
    finally show ?thesis using True by simp
  next
    case False
    then show ?thesis by (auto simp: gd_encode_def encodable_def HEADER_SIZE_def MAX_FRAME_SIZE_def kMaxFrameSize_def)
  qed
qed

lemma read_be_drop:
  "length x = i \<Longrightarrow> read_u16_be (x @ y) i = read_u16_be y 0" "length x = i \<Longrightarrow> read_u32_be (x @ y) i = read_u32_be y 0"
  by (auto simp: read_u16_be_def read_u32_be_def nth_append numeral_2_eq_2)

lemma gd_header_fields:
  "read_u16_be (header tot rid mt mlen @ rest) 0 = GD_MAGIC"
  "read_u32_be (header tot rid mt mlen @ rest) 2 = uint tot"
  "read_u32_be (header tot rid mt mlen @ rest) 6 = uint rid"
  "(header tot rid mt mlen @ rest) ! 10 = message_type_byte mt"
  "read_u16_be (header tot rid mt mlen @ rest) 11 = uint mlen"
proof -
  let ?m = "be_bytes 2 kProtocolMagic" and ?t = "be_bytes 4 tot" and ?r = "be_bytes 4 rid"
    and ?b = "[message_type_byte mt]" and ?l = "be_bytes 2 mlen"
  show "read_u16_be (header tot rid mt mlen @ rest) 0 = GD_MAGIC"
    using read_u16_word [of kProtocolMagic "?t @ ?r @ ?b @ ?l @ rest"]
    by (simp add: header_def GD_MAGIC_def kProtocolMagic_def)
  show "read_u32_be (header tot rid mt mlen @ rest) 2 = uint tot"
    using read_be_drop(2) [of ?m 2 "?t @ ?r @ ?b @ ?l @ rest"] read_u32_word [of tot "?r @ ?b @ ?l @ rest"]
    by (simp add: header_def)
  show "read_u32_be (header tot rid mt mlen @ rest) 6 = uint rid"
    using read_be_drop(2) [of "?m @ ?t" 6 "?r @ ?b @ ?l @ rest"] read_u32_word [of rid "?b @ ?l @ rest"]
    by (simp add: header_def)
  show "(header tot rid mt mlen @ rest) ! 10 = message_type_byte mt"
    by (simp add: header_def nth_append)
  show "read_u16_be (header tot rid mt mlen @ rest) 11 = uint mlen"
    using read_be_drop(1) [of "?m @ ?t @ ?r @ ?b" 11 "?l @ rest"] read_u16_word [of mlen rest]
    by (simp add: header_def)
qed

lemma encode_as_header:
  "encode_frame f = header (word_of_nat (13 + length (method_name f) + length (body f))) (request_id f) (msg_type f)
     (word_of_nat (length (method_name f))) @ bytes_of_string (method_name f) @ body f"
  by (simp only: encode_frame_def Encode_header)

lemma gd_frame_fields:
  assumes "encodable f"
  shows "read_u16_be (encode_frame f @ rest) 0 = GD_MAGIC"
    and "read_u32_be (encode_frame f @ rest) 2 = int (length (encode_frame f))"
    and "read_u32_be (encode_frame f @ rest) 6 = uint (request_id f)"
    and "(encode_frame f @ rest) ! 10 = message_type_byte (msg_type f)"
    and "read_u16_be (encode_frame f @ rest) 11 = int (length (method_name f))"
proof -
  let ?n = "13 + length (method_name f) + length (body f)"
  have n: "length (method_name f) < 2 ^ 16" "?n < 2 ^ 32" using assms by (simp_all add: encodable_def frame_consts)
  have u: "uint (word_of_nat ?n :: u32) = int ?n" "uint (word_of_nat (length (method_name f)) :: u16) = int (length (method_name f))"
    using n by (simp_all add: uint_nat unat_of_nat del: of_nat_add)
  have l: "length (encode_frame f) = ?n" by (simp add: encode_frame_def)
  show "read_u16_be (encode_frame f @ rest) 0 = GD_MAGIC"
    "read_u32_be (encode_frame f @ rest) 2 = int (length (encode_frame f))"
    "read_u32_be (encode_frame f @ rest) 6 = uint (request_id f)"
    "(encode_frame f @ rest) ! 10 = message_type_byte (msg_type f)"
    "read_u16_be (encode_frame f @ rest) 11 = int (length (method_name f))"
    unfolding l unfolding encode_as_header append_assoc gd_header_fields u by (rule refl)+
qed

lemma decode_frames_encode:
  assumes "encodable f"
  shows "decode_frames (encode_frame f @ rest) = (case decode_frames rest of (fs, r) \<Rightarrow> (gd_view f # fs, r))"
proof -
  let ?n = "length (encode_frame f)"
  have n: "?n = 13 + length (method_name f) + length (body f)" by (simp add: encode_frame_def)
  have d: "drop 13 (encode_frame f @ rest) = bytes_of_string (method_name f) @ body f @ rest"
    by (simp add: encode_as_header)
  have "drop (13 + length (method_name f)) (encode_frame f @ rest) = drop (length (method_name f)) (drop 13 (encode_frame f @ rest))"
    by (metis drop_drop add.commute)
  then have b: "drop (13 + length (method_name f)) (encode_frame f @ rest) = body f @ rest" unfolding d by simp
  have mt: "is_message_type (uint (message_type_byte (msg_type f)))"
    by (cases "msg_type f") (simp_all add: is_message_type_def gd_consts)
  have sizes: "\<not> length (encode_frame f @ rest) < HEADER_SIZE" "\<not> (?n < HEADER_SIZE \<or> MAX_FRAME_SIZE < ?n)"
    "\<not> length (encode_frame f @ rest) < ?n" "\<not> ?n - HEADER_SIZE < length (method_name f)"
    "?n - HEADER_SIZE - length (method_name f) = length (body f)"
    using assms by (simp_all add: n HEADER_SIZE_def MAX_FRAME_SIZE_def encodable_def kMaxFrameSize_def)
  have parts: "take (length (method_name f)) (drop 13 (encode_frame f @ rest)) = bytes_of_string (method_name f)"
    "take (length (body f)) (drop (13 + length (method_name f)) (encode_frame f @ rest)) = body f"
    "drop ?n (encode_frame f @ rest) = rest"
    unfolding d b by simp_all
  show ?thesis
    by (subst decode_frames.simps)
      (simp add: gd_frame_fields [OF assms] sizes mt parts gd_view_def Let_def split: prod.split
        del: length_append take_append drop_append diff_diff_left)
qed

text \<open>What comes behind the end of the bytes does not change what is decoded of them.\<close>

lemma read_be_append:
  "i + 2 \<le> length x \<Longrightarrow> read_u16_be (x @ y) i = read_u16_be x i" "i + 4 \<le> length x \<Longrightarrow> read_u32_be (x @ y) i = read_u32_be x i"
  by (simp_all add: read_u16_be_def read_u32_be_def nth_append)


lemma decode_frames_append:
  "decode_frames (b @ x) = (case decode_frames b of (fs, r) \<Rightarrow> case decode_frames (r @ x) of (fs', r') \<Rightarrow> (fs @ fs', r'))"
proof (induction b rule: decode_frames.induct)
  case (1 b)
  show ?case
  proof (cases "length b < HEADER_SIZE")
    case True
    then show ?thesis by (simp add: decode_frames.simps [of b] split: prod.split)
  next
    case long: False
    then have l: "13 \<le> length b" by (simp add: HEADER_SIZE_def)
    have h: "read_u16_be (b @ x) 0 = read_u16_be b 0" "read_u32_be (b @ x) 2 = read_u32_be b 2" "read_u32_be (b @ x) 6 = read_u32_be b 6"
      "(b @ x) ! 10 = b ! 10" "read_u16_be (b @ x) 11 = read_u16_be b 11" "\<not> length (b @ x) < HEADER_SIZE"
      using l by (simp_all add: read_be_append nth_append HEADER_SIZE_def)
    let ?t = "nat (read_u32_be b 2)" and ?m = "nat (read_u16_be b 11)"
    let ?bad = "\<not> is_message_type (uint (b ! 10)) \<or> ?t - HEADER_SIZE < ?m"
    consider "read_u16_be b 0 \<noteq> GD_MAGIC" | "read_u16_be b 0 = GD_MAGIC" "?t < HEADER_SIZE \<or> MAX_FRAME_SIZE < ?t"
      | "read_u16_be b 0 = GD_MAGIC" "\<not> (?t < HEADER_SIZE \<or> MAX_FRAME_SIZE < ?t)" "length b < ?t"
      | "read_u16_be b 0 = GD_MAGIC" "\<not> (?t < HEADER_SIZE \<or> MAX_FRAME_SIZE < ?t)" "\<not> length b < ?t" ?bad
      | "read_u16_be b 0 = GD_MAGIC" "\<not> (?t < HEADER_SIZE \<or> MAX_FRAME_SIZE < ?t)" "\<not> length b < ?t" "\<not> ?bad" by blast
    then show ?thesis
    proof cases
      case 1
      then have "decode_frames b = decode_frames (drop 1 b)" "decode_frames (b @ x) = decode_frames (drop 1 b @ x)"
        using long l by (simp_all add: decode_frames.simps [of b] decode_frames.simps [of "b @ x"] h)
      with "1.IH"(1) [OF long 1] show ?thesis by simp
    next
      case 2
      then have "decode_frames b = decode_frames (drop 1 b)" "decode_frames (b @ x) = decode_frames (drop 1 b @ x)"
        using long l by (simp_all add: decode_frames.simps [of b] decode_frames.simps [of "b @ x"] h Let_def)
      with "1.IH"(2) [OF long _ refl] 2 show ?thesis by simp
    next
      case 3
      then have "decode_frames b = ([], b)" using long by (simp add: decode_frames.simps [of b] Let_def)
      then show ?thesis by (simp split: prod.split)
    next
      case 4
      then have "decode_frames b = decode_frames (drop ?t b)" "decode_frames (b @ x) = decode_frames (drop ?t b @ x)"
        using long l by (simp_all add: decode_frames.simps [of b] decode_frames.simps [of "b @ x"] h Let_def)
      with "1.IH"(3) [OF long _ refl _ _ refl refl] 4 show ?thesis by simp
    next
      case 5
      have "13 + ?m \<le> length b" using 5 by (simp add: HEADER_SIZE_def) linarith
      then have k: "take (?t - HEADER_SIZE - ?m) (drop (13 + ?m) (b @ x)) = take (?t - HEADER_SIZE - ?m) (drop (13 + ?m) b)"
        "take ?m (drop 13 (b @ x)) = take ?m (drop 13 b)"
        using 5 by (simp_all add: HEADER_SIZE_def)
      let ?g = "\<lparr>gf_id = read_u32_be b 6, gf_type = uint (b ! 10), gf_method = string_of_bytes (take ?m (drop 13 b)),
        gf_body = take (?t - HEADER_SIZE - ?m) (drop (13 + ?m) b)\<rparr>"
      have tx: "\<not> length (b @ x) < ?t" "drop ?t (b @ x) = drop ?t b @ x" using 5 by simp_all
      have "decode_frames b = (case decode_frames (drop ?t b) of (fs, r) \<Rightarrow> (?g # fs, r))"
        using long 5 by (simp add: decode_frames.simps [of b] Let_def)
      moreover have "decode_frames (b @ x) = (case decode_frames (drop ?t b @ x) of (fs, r) \<Rightarrow> (?g # fs, r))"
        using 5 by (simp add: decode_frames.simps [of "b @ x"] h k tx Let_def del: take_append drop_append diff_diff_left length_append)
      ultimately show ?thesis using "1.IH"(4) [OF long _ refl _ _ refl refl] 5 by (simp split: prod.splits)
    qed
  qed
qed

lemma decode_frames_rest: "decode_frames b = (fs, r) \<Longrightarrow> decode_frames r = ([], r)"
proof (induction b arbitrary: fs rule: decode_frames.induct)
  case (1 b)
  note d = "1.prems" [unfolded decode_frames.simps [of b] Let_def]
  show ?case
  proof (cases "r = b \<and> fs = []")
    case True
    with "1.prems" show ?thesis by simp
  next
    case False
    with d "1.IH"(1) "1.IH"(2) [OF _ _ refl] "1.IH"(3) [OF _ _ refl _ _ refl refl] "1.IH"(4) [OF _ _ refl _ _ refl refl]
    show ?thesis by (auto split: if_splits prod.splits)
  qed
qed


definition gd_feed :: "bytes \<Rightarrow> bytes \<Rightarrow> gd_frame list \<times> bytes" where
  "gd_feed x b = decode_frames (b @ x)"

definition gd_drained :: "bytes \<Rightarrow> bool" where
  "gd_drained b \<longleftrightarrow> decode_frames b = ([], b)"

interpretation godot: stream_splitter gd_feed gd_drained
proof
  fix b assume "gd_drained b"
  then show "gd_feed [] b = ([], b)" by (simp add: gd_feed_def gd_drained_def)
next
  fix b x y show "gd_feed (x @ y) b = (case gd_feed x b of (ms, s1) \<Rightarrow> case gd_feed y s1 of (ms', s2) \<Rightarrow> (ms @ ms', s2))"
    using decode_frames_append [of "b @ x" y] by (simp add: gd_feed_def)
next
  fix b x ms s1 assume "gd_feed x b = (ms, s1)"
  then show "gd_drained s1" by (simp add: gd_feed_def gd_drained_def decode_frames_rest)
qed

lemma nothing_drained: "gd_drained []"
  by (simp add: gd_drained_def decode_frames.simps [of "[]"] HEADER_SIZE_def)

lemma gd_feed_all: "feed_all gd_feed chunks [] = decode_frames (concat chunks)"
  by (simp add: godot.feed_all_concat [OF nothing_drained] gd_feed_def)

lemma decode_frames_stream:
  "\<forall>f \<in> set fs. encodable f \<Longrightarrow>
   decode_frames (stream_of fs @ rest) = (map gd_view fs @ fst (decode_frames rest), snd (decode_frames rest))"
  by (induction fs) (simp_all add: decode_frames_encode)

lemma decode_frames_partial:
  assumes "encodable f" and "k < length (encode_frame f)"
  shows "decode_frames (take k (encode_frame f)) = ([], take k (encode_frame f))"
proof (cases "k < 13")
  case True
  then have "length (take k (encode_frame f)) < HEADER_SIZE" using assms(2) by (simp add: HEADER_SIZE_def)
  then show ?thesis by (subst decode_frames.simps) simp
next
  case False
  let ?b = "take k (encode_frame f)"
  have l: "length ?b = k" using assms(2) by simp
  have f: "read_u16_be ?b 0 = GD_MAGIC" "read_u32_be ?b 2 = int (length (encode_frame f))"
    using gd_frame_fields(1,2) [OF assms(1), of "[]"] False l read_be_append [of 0 ?b "drop k (encode_frame f)"]
      read_be_append [of 2 ?b "drop k (encode_frame f)"] by simp_all
  have "\<not> (length (encode_frame f) < HEADER_SIZE \<or> MAX_FRAME_SIZE < length (encode_frame f))"
    using encode_frame_header(1,2) [OF assms(1)] by (simp add: HEADER_SIZE_def MAX_FRAME_SIZE_def kMaxFrameSize_def)
  with False l assms(2) show ?thesis by (simp add: decode_frames.simps [of ?b] f HEADER_SIZE_def Let_def)
qed

text \<open>A stream whose beginning is damaged, in a way that does not look like a frame.\<close>

lemma magic_first_byte: "read_u16_be b 0 = GD_MAGIC \<Longrightarrow> b ! 0 = 0xBA"
proof -
  assume "read_u16_be b 0 = GD_MAGIC"
  then have "drop_bit 8 (push_bit 8 (uint (b ! 0)) OR uint (b ! 1)) = drop_bit 8 (0xBABE :: int)"
    by (simp add: read_u16_be_def GD_MAGIC_def)
  moreover have "drop_bit 8 (push_bit 8 (uint (b ! 0)) OR uint (b ! 1)) = uint (b ! 0)"
    by (rule bit_eqI) (auto simp: bit_simps dest: bit_imp_le_length)
  ultimately have "uint (b ! 0) = uint (0xBA :: byte)" by (simp add: drop_bit_eq_div)
  then show ?thesis by (rule word_uint_eqI)
qed

lemma decode_frames_junk:
  "0xBA \<notin> set junk \<Longrightarrow> 13 \<le> length b \<Longrightarrow> decode_frames (junk @ b) = decode_frames b"
proof (induction junk)
  case (Cons x junk)
  then have "read_u16_be (x # junk @ b) 0 \<noteq> GD_MAGIC" using magic_first_byte [of "x # junk @ b"] by auto
  with Cons show ?case by (simp add: decode_frames.simps [of "x # junk @ b"] HEADER_SIZE_def)
qed simp

lemma cpp_magic_first_byte: "2 \<le> length b \<Longrightarrow> read_u16 b 0 = kProtocolMagic \<Longrightarrow> hd b = 0xBA"
proof -
  assume b: "2 \<le> length b" and "read_u16 b 0 = kProtocolMagic"
  then have "be_bytes 2 kProtocolMagic = take 2 b" by (simp add: read_u16_def wire_simps flip: \<open>read_u16 b 0 = kProtocolMagic\<close>)
  then show ?thesis using b by (cases b) (auto simp: be_bytes_def store_le_2 kProtocolMagic_def)
qed


subsection \<open>Properties\<close>

text \<open>C9. The two implementations of the protocol agree. The client's encoder writes exactly the bytes of
  the server's \<open>Encode\<close> when the frame fits the format and nothing otherwise, and on the bytes of any
  frames, followed by the beginning of another one and cut anywhere, the client's decoder returns what
  the server's receive buffer and \<open>Decode\<close> return, and keeps the same rest.\<close>

theorem godot_codec_agrees:
  assumes "\<forall>f \<in> set fs. encodable f" and "encodable g" and "k < length (encode_frame g)"
    and "concat chunks = stream_of fs @ take k (encode_frame g)"
  shows "feed_all gd_feed chunks [] = (map gd_view fs, take k (encode_frame g)) \<and>
    fst (feed_all gd_feed chunks []) = map gd_view (List.map_filter Decode (fst (feed_all feed_buffer chunks empty_buffer))) \<and>
    snd (feed_all gd_feed chunks []) = buf (snd (feed_all feed_buffer chunks empty_buffer)) \<and>
    gd_encode (uint rid) (uint (message_type_byte mt)) m bdy =
      (if encodable \<lparr>request_id = rid, msg_type = mt, method_name = m, body = bdy\<rparr> then Encode rid mt m bdy else [])"
proof (intro conjI)
  show gd: "feed_all gd_feed chunks [] = (map gd_view fs, take k (encode_frame g))"
    by (simp add: gd_feed_all assms(4) decode_frames_stream [OF assms(1)] decode_frames_partial [OF assms(2,3)])
  have cpp: "feed_all feed_buffer chunks empty_buffer = (map encode_frame fs, empty_buffer\<lparr>buf := take k (encode_frame g)\<rparr>)"
    using pop_all_frames [OF assms(1-3), of "Append (concat chunks) empty_buffer"]
    unfolding recv.feed_all_concat [OF empty_drained] by (simp add: feed_buffer_def Append_def empty_buffer_def assms(4))
  have "List.map_filter Decode (map encode_frame fs) = fs"
    using assms(1) by (induction fs) (simp_all add: List.map_filter_def Decode_encodable)
  then show "fst (feed_all gd_feed chunks []) = map gd_view (List.map_filter Decode (fst (feed_all feed_buffer chunks empty_buffer)))"
    by (simp add: gd cpp)
  show "snd (feed_all gd_feed chunks []) = buf (snd (feed_all feed_buffer chunks empty_buffer))" by (simp add: gd cpp)
  show "gd_encode (uint rid) (uint (message_type_byte mt)) m bdy =
      (if encodable \<lparr>request_id = rid, msg_type = mt, method_name = m, body = bdy\<rparr> then Encode rid mt m bdy else [])"
    by (rule gd_encode_word)
qed

theorem godot_codec_agrees_witness:
  "let f = \<lparr>request_id = 7, msg_type = Response, method_name = ''Add'', body = [1, 2]\<rparr>; b = encode_frame f
   in feed_all gd_feed [take 5 b, drop 5 b @ take 14 b] [] = ([gd_view f], take 14 b)"
proof -
  define f where "f = \<lparr>request_id = 7, msg_type = Response, method_name = ''Add'', body = [1, 2]\<rparr>"
  have e: "encodable f" by (simp add: f_def encodable_def kMaxFrameSize_def)
  have "14 < length (encode_frame f)" by (simp add: f_def encode_frame_def)
  from godot_codec_agrees [THEN conjunct1, OF _ e this, of "[f]" "[take 5 (encode_frame f), drop 5 (encode_frame f) @ take 14 (encode_frame f)]"] e
  show ?thesis unfolding f_def [symmetric] Let_def by simp
qed

text \<open>
  They differ on damaged bytes: junk in front of the frames, even a single run of zeros, is skipped by
  the client, and blocks the server's buffer for good.
\<close>

lemma damaged_stream:
  assumes "0xBA \<notin> set junk" and "6 \<le> length junk" and "fs \<noteq> []" and "\<forall>f \<in> set fs. encodable f"
    and "concat chunks = junk @ stream_of fs"
  shows "fst (feed_all gd_feed chunks []) = map gd_view fs" and "fst (feed_all feed_buffer chunks empty_buffer) = []"
proof -
  obtain f gs where fs: "fs = f # gs" using assms(3) by (cases fs) auto
  have "13 \<le> length (stream_of fs)" using encode_frame_header(1) [of f] assms(4) by (simp add: fs)
  then show "fst (feed_all gd_feed chunks []) = map gd_view fs"
    using decode_frames_stream [OF assms(4), of "[]"]
    by (simp add: gd_feed_all assms(5) decode_frames_junk [OF assms(1)] decode_frames.simps [of "[]"] HEADER_SIZE_def)
  have "hd (junk @ stream_of fs) \<noteq> 0xBA" using assms(1,2) by (cases junk) auto
  then have "bad_header (junk @ stream_of fs)"
    using cpp_magic_first_byte [of "junk @ stream_of fs"] assms(2) by (auto simp: bad_header_def)
  then show "fst (feed_all feed_buffer chunks empty_buffer) = []"
    unfolding recv.feed_all_concat [OF empty_drained] by (simp add: feed_buffer_def assms(5) bad_header_stuck empty_buffer_def)
qed


subsection \<open>The client and the server\<close>

text \<open>Requests sent one after the other over a connection that takes them.\<close>

fun send_all :: "(string \<times> bytes) list \<Rightarrow> gd_client \<Rightarrow> int list \<times> gd_client" where
  "send_all [] c = ([], c)"
| "send_all ((m, b) # qs) c =
     (case send_request True PutOk m b c of (i, c1) \<Rightarrow> case send_all qs c1 of (is, c2) \<Rightarrow> (i # is, c2))"

definition calls_from :: "nat \<Rightarrow> (string \<times> bytes) list \<Rightarrow> accepted_call list" where
  "calls_from n qs = enumerate n qs"

lemma calls_from_simps [simp]: "calls_from n [] = []" "calls_from n (x # qs) = (n, x) # calls_from (Suc n) qs"
  by (simp_all add: calls_from_def)

lemma take_request_id_small:
  assumes "gd_next_id c = int (Suc n)" and "Suc (Suc n) < 2 ^ 32"
  shows "take_request_id c = (int (Suc n), c\<lparr>gd_next_id := int (Suc (Suc n))\<rparr>)"
proof -
  have m: "(0xFFFFFFFF :: int) = mask 32" by (simp add: mask_eq_exp_minus_1)
  have "take_bit 32 (int (Suc (Suc n))) = int (Suc (Suc n))" using assms(2) by (intro take_bit_int_eq_self) simp_all
  then have "(gd_next_id c + 1) AND 0xFFFFFFFF = int (Suc (Suc n))"
    unfolding m by (simp add: assms(1) flip: take_bit_eq_mask)
  then show ?thesis by (simp add: take_request_id_def Let_def assms(1))
qed

lemma send_request_sends:
  assumes "gd_peer c" and "gd_next_id c = int (Suc n)" and "Suc (Suc n) < 2 ^ 32" and "encodable (request_of (n, m, b))"
  shows "send_request True PutOk m b c =
    (int (Suc n), c\<lparr>gd_next_id := int (Suc (Suc n)), gd_sent := gd_sent c @ encode_frame (request_of (n, m, b))\<rparr>)"
proof -
  let ?rid = "word_of_nat (Suc n) :: u32"
  have rid: "int (Suc n) = uint ?rid" using assms(3) by (simp add: uint_nat unat_of_nat del: of_nat_Suc)
  have "gd_encode (int (Suc n)) TYPE_REQUEST m b = encode_frame (request_of (n, m, b))"
    using gd_encode_word [of ?rid Request m b] assms(4) unfolding rid by (simp add: TYPE_REQUEST_def encode_frame_def)
  then show ?thesis
    by (simp add: send_request_def assms(1) take_request_id_small [OF assms(2,3)] Let_def del: of_nat_Suc request_of.simps)
qed

lemma send_all_sends:
  assumes "gd_peer c" and "gd_next_id c = int (Suc n)" and "n + length qs + 1 < 2 ^ 32"
    and "\<forall>x \<in> set (calls_from n qs). encodable (request_of x)"
  shows "fst (send_all qs c) = map (\<lambda>x. int (Suc (fst x))) (calls_from n qs)"
    and "snd (send_all qs c) = c\<lparr>gd_next_id := int (Suc (n + length qs)),
      gd_sent := gd_sent c @ stream_of (map request_of (calls_from n qs))\<rparr>"
  using assms
proof (induction qs arbitrary: c n)
  case Nil
  { case 1 show ?case by simp next case 2 then show ?case by (cases c) simp }
next
  case (Cons x qs)
  obtain m b where x: "x = (m, b)" by force
  have s: "gd_peer c \<Longrightarrow> gd_next_id c = int (Suc n) \<Longrightarrow> n + length (x # qs) + 1 < 2 ^ 32 \<Longrightarrow>
      \<forall>y \<in> set (calls_from n (x # qs)). encodable (request_of y) \<Longrightarrow>
      send_request True PutOk m b c =
        (int (Suc n), c\<lparr>gd_next_id := int (Suc (Suc n)), gd_sent := gd_sent c @ encode_frame (request_of (n, m, b))\<rparr>)" for c n
    by (intro send_request_sends) (simp_all add: x del: of_nat_Suc request_of.simps)
  { case 1
    show ?case using Cons.IH(1) [of "c\<lparr>gd_next_id := int (Suc (Suc n)), gd_sent := gd_sent c @ encode_frame (request_of (n, m, b))\<rparr>" "Suc n"] 1
      by (simp add: x case_prod_unfold s [OF 1] del: of_nat_Suc request_of.simps)
  next
    case 2
    show ?case using Cons.IH(2) [of "c\<lparr>gd_next_id := int (Suc (Suc n)), gd_sent := gd_sent c @ encode_frame (request_of (n, m, b))\<rparr>" "Suc n"] 2
      by (simp add: x case_prod_unfold s [OF 2] del: of_nat_Suc request_of.simps) }
qed


text \<open>What the answer to a call makes the client emit.\<close>

fun reply_signals :: "unit dispatch \<Rightarrow> accepted_call \<Rightarrow> gd_signal list" where
  "reply_signals d (i, m, b) =
     (case method_result d m b of
        Some r \<Rightarrow> [ResponseSignal (int (Suc i)) m r False]
      | None \<Rightarrow> [ResponseSignal (int (Suc i)) m [] True, ErrorSignal m []])"

lemma dispatch_fields [simp]:
  "gd_receive_buffer (dispatch_frame f c) = gd_receive_buffer c" "gd_peer (dispatch_frame f c) = gd_peer c"
  "gd_is_connected (dispatch_frame f c) = gd_is_connected c"
  by (simp_all add: dispatch_frame_def emit_def Let_def)

lemma fold_dispatch_fields [simp]:
  "gd_receive_buffer (fold dispatch_frame fs c) = gd_receive_buffer c" "gd_peer (fold dispatch_frame fs c) = gd_peer c"
  "gd_is_connected (fold dispatch_frame fs c) = gd_is_connected c"
  by (induction fs arbitrary: c) simp_all

lemma dispatch_keeps_buffer:
  "fold dispatch_frame fs (c\<lparr>gd_receive_buffer := x\<rparr>) = (fold dispatch_frame fs c)\<lparr>gd_receive_buffer := x\<rparr>"
proof (induction fs arbitrary: c)
  case (Cons f fs)
  have "dispatch_frame f (c\<lparr>gd_receive_buffer := x\<rparr>) = (dispatch_frame f c)\<lparr>gd_receive_buffer := x\<rparr>"
    by (simp add: dispatch_frame_def emit_def Let_def)
  with Cons show ?case by simp
qed simp

lemma dispatch_reply:
  assumes "i + 1 < 2 ^ 32"
  shows "gd_signals (dispatch_frame (gd_view (reply_of d (i, m, b))) c) = gd_signals c @ reply_signals d (i, m, b)"
proof -
  have "uint (word_of_nat (Suc i) :: u32) = int (Suc i)" using assms by (simp add: uint_nat unat_of_nat del: of_nat_Suc)
  then show ?thesis
    by (cases "method_result d m b")
      (simp_all add: dispatch_frame_def gd_view_def emit_def gd_consts Let_def del: of_nat_Suc)
qed

lemma dispatch_replies:
  "\<forall>x \<in> set cs. fst x + 1 < 2 ^ 32 \<Longrightarrow>
   gd_signals (fold dispatch_frame (map (gd_view \<circ> reply_of d) cs) c) = gd_signals c @ concat (map (reply_signals d) cs)"
proof (induction cs arbitrary: c)
  case (Cons x cs)
  obtain i m b where x: "x = (i, m, b)" by (metis prod_cases3)
  with Cons dispatch_reply [of i d m b] show ?case by (simp del: reply_of.simps reply_signals.simps)
qed simp

lemma concat_map_concat: "concat (map concat xss) = concat (concat xss)"
  by (induction xss) simp_all

text \<open>The data of one poll in which the connection is up.\<close>

definition poll_data :: "bytes list \<Rightarrow> gd_client \<Rightarrow> gd_client" where
  "poll_data ds c = poll True StatusConnected (map GotData ds) c"

lemma read_loop_data: "read_loop (map GotData ds) c = (True, c\<lparr>gd_receive_buffer := gd_receive_buffer c @ concat ds\<rparr>)"
  by (induction ds arbitrary: c) simp_all

lemma poll_data_decodes:
  assumes "gd_peer c" and "gd_is_connected c" and "gd_feed (concat ds) (gd_receive_buffer c) = (fs, r)"
  shows "poll_data ds c = fold dispatch_frame fs (c\<lparr>gd_receive_buffer := r\<rparr>)"
  using assms by (simp add: poll_data_def poll_def read_available_bytes_def read_loop_data gd_feed_def Let_def)

lemma polls_decode:
  "gd_peer c \<Longrightarrow> gd_is_connected c \<Longrightarrow> feed_all gd_feed (map concat dss) (gd_receive_buffer c) = (fs, r) \<Longrightarrow>
   gd_signals (fold poll_data dss c) = gd_signals (fold dispatch_frame fs c) \<and> gd_receive_buffer (fold poll_data dss c) = r"
proof (induction dss arbitrary: c fs r)
  case (Cons ds dss)
  obtain fs1 r1 where 1: "gd_feed (concat ds) (gd_receive_buffer c) = (fs1, r1)" by force
  obtain fs2 r2 where 2: "feed_all gd_feed (map concat dss) r1 = (fs2, r2)" by force
  have e: "fs = fs1 @ fs2" "r = r2" using Cons.prems(3) 1 2 by simp_all
  let ?c = "poll_data ds c"
  have c: "?c = fold dispatch_frame fs1 (c\<lparr>gd_receive_buffer := r1\<rparr>)" by (rule poll_data_decodes [OF Cons.prems(1,2) 1])
  have "gd_signals (fold poll_data dss ?c) = gd_signals (fold dispatch_frame fs2 ?c) \<and> gd_receive_buffer (fold poll_data dss ?c) = r2"
    using Cons.IH [of ?c fs2] Cons.prems(1,2) 2 by (simp add: c)
  then show ?case by (simp add: e c dispatch_keeps_buffer)
qed simp


text \<open>C10. The graphical client and the C++ server understand each other: the requests a connected client
  sends get the ids 1, 2, and so on, and when their bytes have reached the server, in any pieces and
  with the server's writes split in any way, and the server's bytes have reached the client's polls in
  any pieces, the client has emitted exactly one response signal for each request, in order, with its
  id, its method and the result of the method, or marked as an error (and followed by the error signal)
  when the server has no such method or the arguments do not parse; nothing is left in its buffer.\<close>

theorem godot_calls_answered:
  assumes "gd_peer c" "gd_is_connected c" "gd_next_id c = 1" "gd_sent c = []" "gd_receive_buffer c = []"
    and "length qs + 1 < 2 ^ 32" and "\<forall>x \<in> set (calls_from 0 qs). encodable (request_of x)"
    and "send_all qs c = (ids, c1)"
    and "events_ok bench_dispatch es (new_connection n)" and "concat (map event_bytes es) = gd_sent c1"
    and "concat (concat dss) = wire_out (serve_all bench_dispatch es (new_connection n))"
    and "pending_out (serve_all bench_dispatch es (new_connection n)) = []"
  shows "ids = map (\<lambda>x. int (Suc (fst x))) (calls_from 0 qs) \<and>
    gd_signals (fold poll_data dss c1) = gd_signals c @ concat (map (reply_signals bench_dispatch) (calls_from 0 qs)) \<and>
    gd_receive_buffer (fold poll_data dss c1) = []"
proof (intro conjI)
  let ?A = "calls_from 0 qs"
  have id: "gd_next_id c = int (Suc 0)" and len: "0 + length qs + 1 < 2 ^ 32" using assms(3,6) by simp_all
  note s = send_all_sends [OF assms(1) id len assms(7)]
  show "ids = map (\<lambda>x. int (Suc (fst x))) ?A" using s(1) assms(8) by simp
  have c1: "gd_sent c1 = stream_of (map request_of ?A)" "gd_peer c1" "gd_is_connected c1" "gd_receive_buffer c1 = []"
    "gd_signals c1 = gd_signals c"
    using s(2) assms(1,2,4,5,8) by simp_all
  have "concat (concat dss) = concat (replies bench_dispatch (map request_of ?A) ())"
    using served [OF _ assms(9), of "map request_of ?A"] assms(7,10-12) c1(1) by auto
  then have out: "concat (map concat dss) = stream_of (map (reply_of bench_dispatch) ?A) @ []"
    by (simp add: replies_requests comp_def concat_map_concat)
  have enc: "\<forall>f \<in> set (map (reply_of bench_dispatch) ?A). encodable f"
    using assms(7) bench.reply_fits by auto
  have "decode_frames [] = ([], [])" using nothing_drained by (simp add: gd_drained_def)
  with decode_frames_stream [OF enc, of "[]"]
  have "feed_all gd_feed (map concat dss) (gd_receive_buffer c1) = (map (gd_view \<circ> reply_of bench_dispatch) ?A, [])"
    by (simp add: c1(4) gd_feed_all out del: append_Nil2)
  from polls_decode [OF c1(2,3) this]
  have p: "gd_signals (fold poll_data dss c1) = gd_signals (fold dispatch_frame (map (gd_view \<circ> reply_of bench_dispatch) ?A) c1)"
    "gd_receive_buffer (fold poll_data dss c1) = []" by simp_all
  have "\<forall>x \<in> set ?A. fst x + 1 < 2 ^ 32"
    using assms(6) by (auto simp: calls_from_def in_set_enumerate_eq)
  from dispatch_replies [OF this] p(1) show "gd_signals (fold poll_data dss c1) = gd_signals c @ concat (map (reply_signals bench_dispatch) ?A)"
    by (simp add: c1(5))
  show "gd_receive_buffer (fold poll_data dss c1) = []" by (rule p(2))
qed


definition demo_gd :: gd_client where
  "demo_gd = new_gd_client\<lparr>gd_peer := True, gd_is_connected := True\<rparr>"

theorem godot_calls_answered_witness:
  "gd_signals (fold poll_data [[take 7 (encode_frame (add_response (1, 3, 5)))], [drop 7 (encode_frame (add_response (1, 3, 5)))]]
     (snd (send_all [(''Add'', two_args 3 5)] demo_gd))) =
   [ResponseSignal 1 ''Add'' (ser_buffer (WriteInt32 8 empty_writer)) False]"
proof -
  obtain ids c1 where r: "send_all [(''Add'', two_args 3 5)] demo_gd = (ids, c1)" by force
  have f: "gd_peer demo_gd" "gd_is_connected demo_gd" "gd_next_id demo_gd = 1" "gd_sent demo_gd = []"
    "gd_receive_buffer demo_gd = []" "gd_signals demo_gd = []"
    by (simp_all add: demo_gd_def new_gd_client_def)
  have q: "request_of (0, ''Add'', two_args 3 5) = add_request (1, 3, 5)" by (simp add: add_request_def)
  have e: "\<forall>x \<in> set (calls_from 0 [(''Add'', two_args 3 5)]). encodable (request_of x)"
    using add_encodable(1) [of "(1, 3, 5)"] by (simp only: calls_from_simps list.set ball_simps q simp_thms)
  have s: "gd_sent c1 = encode_frame (add_request (1, 3, 5))"
    using send_all_sends(2) [of demo_gd 0 "[(''Add'', two_args 3 5)]"] f e r q by (simp del: request_of.simps)
  have b: "concat (map event_bytes demo_events) = gd_sent c1"
    by (simp add: s demo_events_def MakeAddFrame_encode)
  show ?thesis unfolding r snd_conv
    using godot_calls_answered [THEN conjunct2, THEN conjunct1, OF f(1-5) _ e r demo_events_run(1) b, of "[[take 7 (encode_frame (add_response (1, 3, 5)))], [drop 7 (encode_frame (add_response (1, 3, 5)))]]"]
      demo_events_run(2,3) by (simp add: f(6) add_result)
qed


text \<open>Connecting again while connected forgets the old connection without a signal.\<close>

lemma reconnect_without_signal:
  "gd_signals (poll True StatusConnected [] (connect_to_host (poll True StatusConnected [] (connect_to_host new_gd_client)))) =
     [ConnectedSignal, ConnectedSignal]"
  by (simp add: poll_def connect_to_host_def new_gd_client_def emit_def read_available_bytes_def Let_def
      decode_frames.simps [of "[]"] HEADER_SIZE_def)

end
