(* ===== verification/Godot_Proto.thy ===== *)
theory Godot_Proto
  imports Rpc_Prelude Byte_Order "HOL-Library.Signed_Division"
begin

text \<open>
  \<open>godot_client/scripts/net/proto_bridge.gd\<close>: the hand-written Protobuf reader and writer of the
  graphical client, for its login, movement, voxel and map messages. An \<open>int\<close> of GDScript is a 64-bit
  word read as signed, a string its UTF-8 bytes, a \<open>float\<close> on the wire its four bytes. A negative index
  into a byte array counts from its end, and one outside it aborts the script (\<open>ScriptError\<close>). A loop
  that never ends is \<open>None\<close>.
\<close>

unbundle bit_operations_syntax

subsection \<open>Byte arrays\<close>

definition gd_index :: "bytes \<Rightarrow> int \<Rightarrow> byte option" where
  "gd_index b i =
     (let j = (if i < 0 then i + int (length b) else i)
      in if 0 \<le> j \<and> j < int (length b) then Some (b ! nat j) else None)"

text \<open>\<open>slice\<close> clamps its bounds, counts negative ones from the end, and is empty when they cross.\<close>

definition gd_bound :: "bytes \<Rightarrow> int \<Rightarrow> nat" where
  "gd_bound b i =
     (let n = int (length b); j = max (- n) (min i n) in nat (if j < 0 then j + n else j))"

definition gd_slice :: "bytes \<Rightarrow> int \<Rightarrow> int \<Rightarrow> bytes" where
  "gd_slice b i j = take (gd_bound b j - gd_bound b i) (drop (gd_bound b i) b)"

subsection \<open>Varints\<close>

function write_varint :: "u64 \<Rightarrow> bytes" where
  "write_varint v =
     (if 0x7F < sint v then (ucast (v AND 0x7F) OR 0x80) # write_varint (signed_drop_bit 7 v) else [ucast v])"
  by pat_completeness auto
termination
proof (relation "measure (\<lambda>v. nat (sint v))", simp)
  fix v :: u64
  assume "0x7F < sint v"
  then show "(signed_drop_bit 7 v, v) \<in> measure (\<lambda>v. nat (sint v))"
    by (simp add: sint_signed_drop_bit_eq drop_bit_eq_div)
qed

declare write_varint.simps [simp del]

text \<open>Success, the value and the offset behind it.\<close>

function read_varint_from :: "bytes \<Rightarrow> int \<Rightarrow> u64 \<Rightarrow> nat \<Rightarrow> (bool \<times> u64 \<times> int) option" where
  "read_varint_from b offset v shift =
     (if offset < int (length b) \<and> shift < 64 then
        (case gd_index b offset of
           None \<Rightarrow> None
         | Some x \<Rightarrow>
             (let v' = v OR push_bit shift (ucast (x AND 0x7F))
              in if x AND 0x80 = 0 then Some (True, v', offset + 1) else read_varint_from b (offset + 1) v' (shift + 7)))
      else Some (False, 0, offset))"
  by pat_completeness auto
termination by (relation "measure (\<lambda>(b, offset, v, shift). 64 - shift)") auto

declare read_varint_from.simps [simp del]

definition read_varint :: "bytes \<Rightarrow> int \<Rightarrow> (bool \<times> u64 \<times> int) option" where
  "read_varint b offset = read_varint_from b offset 0 0"

subsection \<open>Fields\<close>

definition WIRE_VARINT :: int where "WIRE_VARINT = 0"
definition WIRE_FIXED32 :: int where "WIRE_FIXED32 = 5"
definition WIRE_LENGTH_DELIMITED :: int where "WIRE_LENGTH_DELIMITED = 2"

lemmas wire_types = WIRE_VARINT_def WIRE_FIXED32_def WIRE_LENGTH_DELIMITED_def

text \<open>The field number, the wire type and the offset of the value, if there is a field.\<close>

definition read_field_header :: "bytes \<Rightarrow> int \<Rightarrow> (int \<times> int \<times> int) option option" where
  "read_field_header b offset =
     (case read_varint b offset of
        None \<Rightarrow> None
      | Some (ok, tag, off) \<Rightarrow>
          Some (if \<not> ok \<or> tag = 0 then None else Some (sint (signed_drop_bit 3 tag), uint (tag AND 7), off)))"

text \<open>The bytes and the offset behind them; the sum of offset and length wraps.\<close>

definition read_length_delimited :: "bytes \<Rightarrow> int \<Rightarrow> (bytes \<times> int) option option" where
  "read_length_delimited b offset =
     (case read_varint b offset of
        None \<Rightarrow> None
      | Some (ok, len, off) \<Rightarrow>
          Some (if \<not> ok \<or> sint len < 0 then None
                else let e = sint (word_of_int (off + sint len) :: u64)
                in if int (length b) < e then None else Some (gd_slice b off e, e)))"

text \<open>The offset behind a value of a type, \<open>- 1\<close> when there is none.\<close>

definition skip_value :: "bytes \<Rightarrow> int \<Rightarrow> int \<Rightarrow> int option" where
  "skip_value b offset wt =
     (if wt = WIRE_VARINT then map_option (\<lambda>(ok, _, off). if ok then off else - 1) (read_varint b offset)
      else if wt = WIRE_FIXED32 then Some (if offset + 4 \<le> int (length b) then offset + 4 else - 1)
      else if wt = WIRE_LENGTH_DELIMITED then
        map_option (\<lambda>r. case r of None \<Rightarrow> - 1 | Some (_, off) \<Rightarrow> off) (read_length_delimited b offset)
      else Some (- 1))"

definition encode_length_delimited_field :: "u64 \<Rightarrow> bytes \<Rightarrow> bytes" where
  "encode_length_delimited_field n b = write_varint (push_bit 3 n OR 2) @ write_varint (word_of_nat (length b)) @ b"

definition encode_fixed32_field :: "u64 \<Rightarrow> u32 \<Rightarrow> bytes" where
  "encode_fixed32_field n w = write_varint (push_bit 3 n OR 5) @ store_le 4 w"

definition encode_varint_field :: "u64 \<Rightarrow> u64 \<Rightarrow> bytes" where
  "encode_varint_field n v = write_varint (push_bit 3 n OR 0) @ write_varint v"

definition read_float32_le :: "bytes \<Rightarrow> int \<Rightarrow> u32" where
  "read_float32_le b offset = load_le (gd_slice b offset (offset + 4))"

subsection \<open>The loop of the decoders\<close>

text \<open>
  What a decoder does with a field: it is none of its own, or the field is broken and the decoder
  stops, or it goes on behind the value.
\<close>

datatype 'r handled = Unhandled | Stop | Failed | Continue 'r int

datatype 'r decoded = Decoded 'r | ScriptError

type_synonym 'r handler = "int \<Rightarrow> int \<Rightarrow> bytes \<Rightarrow> int \<Rightarrow> 'r \<Rightarrow> 'r handled option"

text \<open>Some decoders check that a value could be skipped, and some do not.\<close>

partial_function (option) proto_loop :: "bool \<Rightarrow> 'r handler \<Rightarrow> bytes \<Rightarrow> int \<Rightarrow> 'r \<Rightarrow> 'r decoded option" where
  "proto_loop checked h b offset r =
     (if int (length b) \<le> offset then Some (Decoded r)
      else case read_field_header b offset of
        None \<Rightarrow> Some ScriptError
      | Some None \<Rightarrow> Some (Decoded r)
      | Some (Some (n, wt, off)) \<Rightarrow>
          Option.bind (h n wt b off r) (\<lambda>x. case x of
            Continue r' off' \<Rightarrow> proto_loop checked h b off' r'
          | Stop \<Rightarrow> Some (Decoded r)
          | Failed \<Rightarrow> Some ScriptError
          | Unhandled \<Rightarrow>
              (case skip_value b off wt of
                 None \<Rightarrow> Some ScriptError
               | Some off' \<Rightarrow> if checked \<and> off' < 0 then Some (Decoded r) else proto_loop checked h b off' r)))"

text \<open>The ways a field is read.\<close>

definition on_varint :: "(u64 \<Rightarrow> 'r \<Rightarrow> 'r) \<Rightarrow> bytes \<Rightarrow> int \<Rightarrow> 'r \<Rightarrow> 'r handled option" where
  "on_varint upd b off r =
     Some (case read_varint b off of
       None \<Rightarrow> Failed
     | Some (ok, v, off') \<Rightarrow> if ok then Continue (upd v r) off' else Stop)"

definition on_bytes :: "(bytes \<Rightarrow> 'r \<Rightarrow> 'r) \<Rightarrow> bytes \<Rightarrow> int \<Rightarrow> 'r \<Rightarrow> 'r handled option" where
  "on_bytes upd b off r =
     Some (case read_length_delimited b off of
       None \<Rightarrow> Failed
     | Some None \<Rightarrow> Stop
     | Some (Some (x, off')) \<Rightarrow> Continue (upd x r) off')"

definition on_nested :: "(bytes \<Rightarrow> 'q decoded option) \<Rightarrow> ('q \<Rightarrow> 'r \<Rightarrow> 'r) \<Rightarrow> bytes \<Rightarrow> int \<Rightarrow> 'r \<Rightarrow> 'r handled option" where
  "on_nested parse upd b off r =
     (case read_length_delimited b off of
       None \<Rightarrow> Some Failed
     | Some None \<Rightarrow> Some Stop
     | Some (Some (x, off')) \<Rightarrow>
         map_option (\<lambda>y. case y of Decoded q \<Rightarrow> Continue (upd q r) off' | ScriptError \<Rightarrow> Failed) (parse x))"

definition on_fixed32 :: "(u32 \<Rightarrow> 'r \<Rightarrow> 'r) \<Rightarrow> bytes \<Rightarrow> int \<Rightarrow> 'r \<Rightarrow> 'r handled option" where
  "on_fixed32 upd b off r =
     Some (if int (length b) < off + 4 then Stop else Continue (upd (read_float32_le b off) r) (off + 4))"

subsection \<open>The messages\<close>

record register_msg =
  rm_success :: bool
  rm_error :: string
  rm_player :: string

definition register_field :: "register_msg handler" where
  "register_field n wt b off =
     (if n = 1 \<and> wt = WIRE_VARINT then on_varint (\<lambda>v. rm_success_update (\<lambda>_. v \<noteq> 0)) b off
      else if (n = 2 \<or> n = 3) \<and> wt = WIRE_LENGTH_DELIMITED then
        on_bytes (\<lambda>t. if n = 2 then rm_error_update (\<lambda>_. string_of_bytes t) else rm_player_update (\<lambda>_. string_of_bytes t)) b off
      else (\<lambda>r. Some Unhandled))"

definition decode_register_res :: "bytes \<Rightarrow> register_msg decoded option" where
  "decode_register_res b = proto_loop True register_field b 0 \<lparr>rm_success = False, rm_error = [], rm_player = []\<rparr>"

definition player_info_field :: "string handler" where
  "player_info_field n wt b off =
     (if n = 1 \<and> wt = WIRE_LENGTH_DELIMITED then on_bytes (\<lambda>t _. string_of_bytes t) b off else (\<lambda>r. Some Unhandled))"

definition decode_player_info :: "bytes \<Rightarrow> string decoded option" where
  "decode_player_info b = proto_loop True player_info_field b 0 []"

record login_msg =
  lm_success :: bool
  lm_player :: string
  lm_error :: string

definition login_field :: "login_msg handler" where
  "login_field n wt b off =
     (if n = 1 \<and> wt = WIRE_VARINT then on_varint (\<lambda>v. lm_success_update (\<lambda>_. v \<noteq> 0)) b off
      else if n = 2 \<and> wt = WIRE_LENGTH_DELIMITED then on_nested decode_player_info (\<lambda>p. lm_player_update (\<lambda>_. p)) b off
      else if n = 3 \<and> wt = WIRE_LENGTH_DELIMITED then on_bytes (\<lambda>t. lm_error_update (\<lambda>_. string_of_bytes t)) b off
      else (\<lambda>r. Some Unhandled))"

definition decode_login_res :: "bytes \<Rightarrow> login_msg decoded option" where
  "decode_login_res b = proto_loop True login_field b 0 \<lparr>lm_success = False, lm_player = [], lm_error = []\<rparr>"

definition encode_credentials :: "string \<Rightarrow> string \<Rightarrow> bytes" where
  "encode_credentials user pass =
     encode_length_delimited_field 1 (bytes_of_string user) @
     (if pass \<noteq> [] then encode_length_delimited_field 2 (bytes_of_string pass) else [])"

text \<open>Vectors; a coordinate is the bits of its single-precision number.\<close>

record gd_vec3 =
  v_x :: u32
  v_y :: u32
  v_z :: u32

definition encode_vec3 :: "gd_vec3 \<Rightarrow> bytes" where
  "encode_vec3 v = encode_fixed32_field 1 (v_x v) @ encode_fixed32_field 2 (v_y v) @ encode_fixed32_field 3 (v_z v)"

definition vec3_field :: "gd_vec3 handler" where
  "vec3_field n wt b off =
     (if wt = WIRE_FIXED32 \<and> 1 \<le> n \<and> n \<le> 3 then
        on_fixed32 (\<lambda>w. if n = 1 then v_x_update (\<lambda>_. w) else if n = 2 then v_y_update (\<lambda>_. w) else v_z_update (\<lambda>_. w)) b off
      else (\<lambda>r. Some Unhandled))"

definition zero_vec3 :: gd_vec3 where
  "zero_vec3 = \<lparr>v_x = 0, v_y = 0, v_z = 0\<rparr>"

definition decode_vec3 :: "bytes \<Rightarrow> gd_vec3 decoded option" where
  "decode_vec3 b = proto_loop True vec3_field b 0 zero_vec3"

definition clampi :: "int \<Rightarrow> int \<Rightarrow> int \<Rightarrow> int" where
  "clampi v lo hi = (if v < lo then lo else if hi < v then hi else v)"

definition encode_move_req :: "gd_vec3 \<Rightarrow> u32 \<Rightarrow> u64 \<Rightarrow> bytes" where
  "encode_move_req pos yaw appearance =
     encode_length_delimited_field 1 (encode_vec3 pos) @ encode_fixed32_field 2 yaw @
     (if appearance \<noteq> 0 then encode_varint_field 4 (word_of_int (clampi (sint appearance) 0 3)) else [])"

record move_msg =
  mm_success :: bool
  mm_error :: string
  mm_corrected :: gd_vec3

definition move_field :: "move_msg handler" where
  "move_field n wt b off =
     (if n = 1 \<and> wt = WIRE_VARINT then on_varint (\<lambda>v. mm_success_update (\<lambda>_. v \<noteq> 0)) b off
      else if n = 2 \<and> wt = WIRE_LENGTH_DELIMITED then on_bytes (\<lambda>t. mm_error_update (\<lambda>_. string_of_bytes t)) b off
      else if n = 3 \<and> wt = WIRE_LENGTH_DELIMITED then on_nested decode_vec3 (\<lambda>v. mm_corrected_update (\<lambda>_. v)) b off
      else (\<lambda>r. Some Unhandled))"

definition decode_move_res :: "bytes \<Rightarrow> move_msg decoded option" where
  "decode_move_res b = proto_loop True move_field b 0 \<lparr>mm_success = False, mm_error = [], mm_corrected = zero_vec3\<rparr>"

record transform_msg =
  tm_player :: string
  tm_name :: string
  tm_position :: gd_vec3
  tm_yaw :: u32
  tm_appearance :: int

definition transform_field :: "transform_msg handler" where
  "transform_field n wt b off =
     (if (n = 1 \<or> n = 2) \<and> wt = WIRE_LENGTH_DELIMITED then
        on_bytes (\<lambda>t. if n = 1 then tm_player_update (\<lambda>_. string_of_bytes t) else tm_name_update (\<lambda>_. string_of_bytes t)) b off
      else if n = 3 \<and> wt = WIRE_LENGTH_DELIMITED then on_nested decode_vec3 (\<lambda>v. tm_position_update (\<lambda>_. v)) b off
      else if n = 4 \<and> wt = WIRE_FIXED32 then on_fixed32 (\<lambda>w. tm_yaw_update (\<lambda>_. w)) b off
      else if n = 5 \<and> wt = WIRE_VARINT then on_varint (\<lambda>v. tm_appearance_update (\<lambda>_. clampi (sint v) 0 3)) b off
      else (\<lambda>r. Some Unhandled))"

definition decode_player_transform :: "bytes \<Rightarrow> transform_msg decoded option" where
  "decode_player_transform b =
     proto_loop True transform_field b 0 \<lparr>tm_player = [], tm_name = [], tm_position = zero_vec3, tm_yaw = 0, tm_appearance = 0\<rparr>"

text \<open>Block edits: the coordinates are zigzag numbers.\<close>

record voxel_msg =
  vm_x :: u64
  vm_y :: u64
  vm_z :: u64
  vm_action :: u64
  vm_block :: u64

definition zigzag :: "u64 \<Rightarrow> u64" where
  "zigzag raw = push_bit 1 raw XOR signed_drop_bit 31 raw"

definition unzigzag :: "u64 \<Rightarrow> u64" where
  "unzigzag v = signed_drop_bit 1 v XOR - (v AND 1)"

definition encode_voxel_edit :: "voxel_msg \<Rightarrow> bytes" where
  "encode_voxel_edit m =
     encode_varint_field 1 (zigzag (vm_x m)) @ encode_varint_field 2 (zigzag (vm_y m)) @
     encode_varint_field 3 (zigzag (vm_z m)) @ encode_varint_field 4 (vm_action m) @ encode_varint_field 5 (vm_block m)"

definition voxel_edit_field :: "voxel_msg handler" where
  "voxel_edit_field n wt b off =
     (if 1 \<le> n \<and> n \<le> 5 \<and> wt = WIRE_VARINT then
        on_varint (\<lambda>v. if n = 1 then vm_x_update (\<lambda>_. unzigzag v) else if n = 2 then vm_y_update (\<lambda>_. unzigzag v)
          else if n = 3 then vm_z_update (\<lambda>_. unzigzag v) else if n = 4 then vm_action_update (\<lambda>_. v)
          else vm_block_update (\<lambda>_. v)) b off
      else (\<lambda>r. Some Unhandled))"

definition decode_voxel_edit :: "bytes \<Rightarrow> voxel_msg decoded option" where
  "decode_voxel_edit b = proto_loop False voxel_edit_field b 0 \<lparr>vm_x = 0, vm_y = 0, vm_z = 0, vm_action = 0, vm_block = 0\<rparr>"

text \<open>The first nested message of a notification; nothing when there is none.\<close>

definition first_nested :: "bytes \<Rightarrow> bytes decoded" where
  "first_nested b =
     (case read_field_header b 0 of
        None \<Rightarrow> ScriptError
      | Some None \<Rightarrow> Decoded []
      | Some (Some (n, wt, off)) \<Rightarrow>
          if n \<noteq> 1 \<or> wt \<noteq> WIRE_LENGTH_DELIMITED then Decoded []
          else (case read_length_delimited b off of
                  None \<Rightarrow> ScriptError
                | Some None \<Rightarrow> Decoded []
                | Some (Some (x, _)) \<Rightarrow> Decoded x))"

definition decode_voxel_edit_ntf :: "bytes \<Rightarrow> voxel_msg decoded option" where
  "decode_voxel_edit_ntf b = (case first_nested b of ScriptError \<Rightarrow> Some ScriptError | Decoded x \<Rightarrow> decode_voxel_edit x)"

record select_map_msg =
  sl_success :: bool
  sl_map :: u64
  sl_error :: string

definition select_map_field :: "select_map_msg handler" where
  "select_map_field n wt b off =
     (if (n = 1 \<or> n = 2) \<and> wt = WIRE_VARINT then
        on_varint (\<lambda>v. if n = 1 then sl_success_update (\<lambda>_. v \<noteq> 0) else sl_map_update (\<lambda>_. v)) b off
      else if n = 3 \<and> wt = WIRE_LENGTH_DELIMITED then on_bytes (\<lambda>t. sl_error_update (\<lambda>_. string_of_bytes t)) b off
      else (\<lambda>r. Some Unhandled))"

definition decode_select_map_res :: "bytes \<Rightarrow> select_map_msg decoded option" where
  "decode_select_map_res b = proto_loop False select_map_field b 0 \<lparr>sl_success = False, sl_map = 0, sl_error = []\<rparr>"

definition encode_select_map_req :: "string \<Rightarrow> u64 \<Rightarrow> bytes" where
  "encode_select_map_req room m = encode_length_delimited_field 1 (bytes_of_string room) @ encode_varint_field 2 m"

definition encode_gather_req :: "string \<Rightarrow> bytes" where
  "encode_gather_req rid = encode_length_delimited_field 1 (bytes_of_string rid)"

definition encode_craft_req :: "u64 \<Rightarrow> bytes" where
  "encode_craft_req recipe = encode_varint_field 1 recipe"

definition encode_place_building_req :: "u64 \<Rightarrow> gd_vec3 \<Rightarrow> u32 \<Rightarrow> bytes" where
  "encode_place_building_req bt pos yaw =
     encode_varint_field 1 bt @ encode_length_delimited_field 2 (encode_vec3 pos) @ encode_fixed32_field 3 yaw"

end
