(* ===== verification/Proto_Wire.thy ===== *)
theory Proto_Wire
  imports Godot_Proto
begin

text \<open>
  The wire format of Protobuf as a reference, and the reader and writer of the graphical client
  against it: every decoder gives each field of a message the last value on the wire, skips the
  fields it does not know, and the encoders write that format (\<open>_reads_wire\<close>,
  \<open>voxel_edit_survives\<close>). The decoders that check their skips return on any bytes
  (\<open>checked_decoders_return\<close>); the two that do not hang on one byte (\<open>group_field_hangs\<close>). Both
  together are \<open>godot_decoders_return\<close>.
\<close>

unbundle bit_operations_syntax

subsection \<open>Signed 64-bit numbers\<close>

lemma sint_small64: "unat v < 2 ^ 63 \<Longrightarrow> sint v = int (unat (v :: u64))"
proof -
  assume "unat v < 2 ^ 63"
  moreover have i: "int (unat v) = uint v" by simp
  ultimately have "uint v < 2 ^ 63" by (metis of_nat_less_iff of_nat_numeral of_nat_power)
  then have "signed_take_bit 63 (uint v) = uint v" by (intro signed_take_bit_int_eq_self) (auto intro: order_trans [OF _ uint_ge_0])
  moreover have "sint v = signed_take_bit 63 (uint v)" using sint_uint [of v] by simp
  ultimately show ?thesis using i by simp
qed

lemma sint_uint64: "0 \<le> sint v \<Longrightarrow> sint v = uint (v :: u64)"
proof -
  assume a: "0 \<le> sint v"
  then have "\<not> bit v 63" using bit_last_iff [of v] by simp
  then have "\<not> bit (uint v) 63" by (simp add: bit_uint_iff)
  then have "sint v = take_bit 63 (uint v)" by (simp add: sint_uint signed_take_bit_eq_if_positive)
  also have "\<dots> = uint v"
  proof (rule bit_eqI)
    fix n show "bit (take_bit 63 (uint v)) n = bit (uint v) n"
      using \<open>\<not> bit (uint v) 63\<close> by (cases "n = 63") (auto simp: bit_take_bit_iff bit_uint_iff)
  qed
  finally show ?thesis .
qed

lemma sint_drop: "0 \<le> sint v \<Longrightarrow> signed_drop_bit n v = drop_bit n (v :: u64)"
proof -
  assume a: "0 \<le> sint v"
  then have "\<not> bit v 63" using bit_last_iff [of v] by simp
  then show ?thesis by (intro bit_word_eqI)
    (auto simp: bit_signed_drop_bit_iff bit_drop_bit_eq bit_imp_le_length dest: bit_imp_le_length)
qed

subsection \<open>The wire format\<close>

text \<open>The base-128 encoding of a number.\<close>

function varint_bytes :: "u64 \<Rightarrow> bytes" where
  "varint_bytes w = (if w < 0x80 then [ucast w] else (ucast (w AND 0x7F) OR 0x80) # varint_bytes (drop_bit 7 w))"
  by pat_completeness auto
termination
proof (relation "measure unat", simp)
  fix w :: u64
  assume "\<not> w < 0x80"
  then have "0x80 \<le> unat w" by (simp add: word_less_nat_alt)
  moreover have "unat (drop_bit 7 w) = unat w div 128" by (simp add: unat_div drop_bit_eq_div)
  ultimately show "(drop_bit 7 w, w) \<in> measure unat" by simp
qed

declare varint_bytes.simps [simp del]

lemma write_varint_bytes: "0 \<le> sint v \<Longrightarrow> write_varint v = varint_bytes v"
proof (induction v rule: write_varint.induct)
  case (1 v)
  have "0x7F < sint v \<longleftrightarrow> \<not> v < 0x80"
    using sint_uint64 [OF 1(2)] by (auto simp: word_less_alt)
  moreover have "0 \<le> sint (signed_drop_bit 7 v)" using 1(2) by (simp add: sint_signed_drop_bit_eq drop_bit_eq_div)
  ultimately show ?case
    using 1 by (subst write_varint.simps, subst varint_bytes.simps) (simp add: sint_drop)
qed

lemma gd_index_at [simp]: "gd_index (pre @ x # post) (int (length pre)) = Some x"
  by (simp add: gd_index_def)

lemma varint_masks: "(0x7F :: 'a::len word) = mask 7" "(0x80 :: byte) = NOT (mask 7)"
  by (simp_all add: mask_eq_exp_minus_1)

lemmas varint_bits = bit_and_iff bit_or_iff bit_unsigned_iff bit_push_bit_iff bit_drop_bit_eq bit_mask_iff bit_not_iff

lemma varint_low_bits: "ucast ((ucast (w AND 0x7F) OR 0x80 :: byte) AND 0x7F) = w AND (0x7F :: u64)"
  unfolding varint_masks by (rule bit_word_eqI) (auto simp: varint_bits)

lemma varint_more: "(ucast (w AND (0x7F :: u64)) OR 0x80 :: byte) AND 0x80 \<noteq> 0"
proof
  assume "(ucast (w AND 0x7F) OR 0x80 :: byte) AND 0x80 = 0"
  then have "bit ((ucast (w AND 0x7F) OR 0x80 :: byte) AND 0x80) 7 = bit (0 :: byte) 7" by simp
  then show False unfolding varint_masks by (simp add: varint_bits)
qed

lemma varint_last_bits:
  assumes "w < (0x80 :: u64)"
  shows "ucast (ucast w AND 0x7F :: byte) = w" "(ucast w :: byte) AND 0x80 = 0"
proof -
  have "unat w < 2 ^ 7" using assms by (simp add: word_less_nat_alt)
  then have "take_bit 7 w = w"
    by (intro word_unat_eq_iff [THEN iffD2]) (simp add: unsigned_take_bit_eq take_bit_nat_eq_self)
  then have b: "bit w n \<Longrightarrow> n < 7" for n by (metis bit_take_bit_iff)
  show "ucast (ucast w AND 0x7F :: byte) = w"
    unfolding varint_masks by (rule bit_word_eqI) (auto simp: varint_bits dest: b)
  show "(ucast w :: byte) AND 0x80 = 0"
    unfolding varint_masks by (rule bit_word_eqI) (auto simp: varint_bits dest: b)
qed

lemma varint_join: "push_bit s (w AND 0x7F) OR push_bit (s + 7) (drop_bit 7 w) = push_bit s (w :: u64)"
proof (rule bit_word_eqI)
  fix n
  have "7 + (n - (s + 7)) = n - s" if "s + 7 \<le> n" using that by simp
  then show "bit (push_bit s (w AND 0x7F) OR push_bit (s + 7) (drop_bit 7 w)) n = bit (push_bit s w) n"
    unfolding varint_masks by (cases "s + 7 \<le> n") (auto simp: varint_bits dest: bit_imp_le_length)
qed

lemma read_varint_step:
  "gd_index b off = Some x \<Longrightarrow> off < int (length b) \<Longrightarrow> shift < 64 \<Longrightarrow> x AND 0x80 \<noteq> 0 \<Longrightarrow>
   read_varint_from b off v shift = read_varint_from b (off + 1) (v OR push_bit shift (ucast (x AND 0x7F))) (shift + 7)"
  by (subst read_varint_from.simps) (simp add: Let_def)

lemma read_varint_at:
  assumes "unat w * 2 ^ shift < 2 ^ 64" "shift < 64"
  shows "read_varint_from (pre @ varint_bytes w @ post) (int (length pre)) v shift =
    Some (True, v OR push_bit shift w, int (length pre) + int (length (varint_bytes w)))"
  using assms
proof (induction w arbitrary: pre v shift rule: varint_bytes.induct)
  case (1 w)
  show ?case
  proof (cases "w < 0x80")
    case True
    then show ?thesis
      using 1(3) by (subst read_varint_from.simps) (simp add: varint_bytes.simps [of w] varint_last_bits)
  next
    case False
    then have w: "128 \<le> unat w" by (simp add: word_less_nat_alt)
    have d: "unat (drop_bit 7 w) = unat w div 128" by (simp add: unat_div drop_bit_eq_div)
    have "(2 :: nat) ^ (shift + 7) = 128 * 2 ^ shift" by (simp add: power_add)
    also have "\<dots> \<le> unat w * 2 ^ shift" using w by (rule mult_right_mono) simp
    also note 1(2)
    finally have "(2 :: nat) ^ (shift + 7) < 2 ^ 64" .
    then have s: "shift + 7 < 64" by (metis power_strict_increasing_iff one_less_numeral_iff semiring_norm(76))
    have "unat w div 128 * 2 ^ (shift + 7) = unat w div 128 * 128 * 2 ^ shift" by (simp add: power_add)
    also have "\<dots> \<le> unat w * 2 ^ shift" by (rule mult_right_mono) simp_all
    also note 1(2)
    finally have l: "unat (drop_bit 7 w) * 2 ^ (shift + 7) < 2 ^ 64" unfolding d .
    let ?b = "ucast (w AND 0x7F) OR 0x80 :: byte"
    have "read_varint_from (pre @ varint_bytes w @ post) (int (length pre)) v shift =
        read_varint_from (pre @ varint_bytes w @ post) (int (length pre) + 1) (v OR push_bit shift (w AND 0x7F)) (shift + 7)"
      using read_varint_step [OF _ _ 1(3) varint_more, of "pre @ varint_bytes w @ post" "int (length pre)" w v] False
      unfolding varint_low_bits by (simp add: varint_bytes.simps [of w])
    also have "\<dots> = Some (True, (v OR push_bit shift (w AND 0x7F)) OR push_bit (shift + 7) (drop_bit 7 w),
        int (length pre) + int (length (varint_bytes w)))"
      using 1(1) [OF False l s, of "pre @ [?b]" "v OR push_bit shift (w AND 0x7F)"] False
      by (simp add: varint_bytes.simps [of w] add.commute add.left_commute)
    finally show ?thesis unfolding or.assoc varint_join .
  qed
qed

lemma read_varint_bytes:
  "read_varint (pre @ varint_bytes w @ post) (int (length pre)) = Some (True, w,
    int (length pre) + int (length (varint_bytes w)))"
  using read_varint_at [of w 0 pre post 0] unsigned_less [of w] by (simp add: read_varint_def)

subsection \<open>Fields\<close>

text \<open>A message is the list of its fields, each with its number and its value.\<close>

datatype proto_value = PVarint u64 | PFixed32 u32 | PBytes bytes

fun wire_type :: "proto_value \<Rightarrow> nat" where
  "wire_type (PVarint v) = 0"
| "wire_type (PFixed32 w) = 5"
| "wire_type (PBytes b) = 2"

fun wire_value :: "proto_value \<Rightarrow> bytes" where
  "wire_value (PVarint v) = varint_bytes v"
| "wire_value (PFixed32 w) = store_le 4 w"
| "wire_value (PBytes b) = varint_bytes (word_of_nat (length b)) @ b"

type_synonym proto_field = "nat \<times> proto_value"

definition wire_field :: "proto_field \<Rightarrow> bytes" where
  "wire_field f = varint_bytes (word_of_nat (8 * fst f + wire_type (snd f))) @ wire_value (snd f)"

definition wire :: "proto_field list \<Rightarrow> bytes" where
  "wire fs = concat (map wire_field fs)"

lemma wire_simps [simp]: "wire [] = []" "wire (f # fs) = wire_field f @ wire fs"
  by (simp_all add: wire_def)

definition field_ok :: "proto_field \<Rightarrow> bool" where
  "field_ok f \<longleftrightarrow> 1 \<le> fst f \<and> fst f < 2 ^ 29"

lemma wire_type_less: "wire_type v < 8"
  by (cases v) simp_all

lemma unat_tag: "n < 2 ^ 29 \<Longrightarrow> k < 8 \<Longrightarrow> unat (word_of_nat (8 * n + k) :: u64) = 8 * n + k"
  by (simp add: unat_of_nat del: of_nat_add of_nat_mult)

lemma low_three_bits: "unat (t AND 7) = unat (t :: u64) mod 8"
proof -
  have "t AND 7 = take_bit 3 t" unfolding take_bit_eq_mask by (simp add: mask_eq_exp_minus_1)
  then show ?thesis by (simp only: unsigned_take_bit_eq) (simp add: take_bit_eq_mod)
qed

lemma read_field_header_wire:
  assumes "field_ok f"
  shows "read_field_header (pre @ wire_field f @ post) (int (length pre)) =
    Some (Some (int (fst f), int (wire_type (snd f)),
      int (length pre) + int (length (varint_bytes (word_of_nat (8 * fst f + wire_type (snd f)))))))"
proof -
  let ?t = "word_of_nat (8 * fst f + wire_type (snd f)) :: u64"
  have n: "1 \<le> fst f" "fst f < 2 ^ 29" using assms by (simp_all add: field_ok_def)
  have u: "unat ?t = 8 * fst f + wire_type (snd f)" using n by (intro unat_tag wire_type_less)
  have "unat ?t \<noteq> 0" using u n by simp
  then have "?t \<noteq> 0" by auto
  moreover have "sint ?t = int (8 * fst f + wire_type (snd f))"
    using sint_small64 [of ?t] u n wire_type_less [of "snd f"] by (simp del: of_nat_add of_nat_mult)
  then have "sint (signed_drop_bit 3 ?t) = int (fst f)"
    using wire_type_less [of "snd f"] by (simp add: sint_signed_drop_bit_eq drop_bit_eq_div)
  moreover have "uint (?t AND 7) = int (wire_type (snd f))"
    unfolding uint_nat low_three_bits u using wire_type_less [of "snd f"] by simp
  ultimately show ?thesis
    using read_varint_bytes [of pre ?t "wire_value (snd f) @ post"]
    by (simp add: read_field_header_def wire_field_def)
qed

lemma gd_slice_at: "gd_slice (pre @ b @ post) (int (length pre)) (int (length pre) + int (length b)) = b"
  by (simp add: gd_slice_def gd_bound_def Let_def)

lemma read_length_delimited_wire:
  assumes "length (pre @ wire_value (PBytes b) @ post) < 2 ^ 63"
  shows "read_length_delimited (pre @ wire_value (PBytes b) @ post) (int (length pre)) =
    Some (Some (b, int (length pre) + int (length (wire_value (PBytes b)))))"
proof -
  let ?l = "word_of_nat (length b) :: u64" and ?n = "length pre + length (varint_bytes (word_of_nat (length b)))"
  have u: "unat ?l = length b" using assms by (simp add: unat_of_nat)
  then have s: "sint ?l = int (length b)" using sint_small64 [of ?l] assms by simp
  have m: "unat (word_of_int (int (?n + length b)) :: u64) = ?n + length b"
    using assms by (simp add: unat_of_nat del: of_nat_add)
  then have e: "sint (word_of_int (int (?n + length b)) :: u64) = int (?n + length b)"
    using sint_small64 [of "word_of_int (int (?n + length b))"] assms by simp
  show ?thesis
    using read_varint_bytes [of pre ?l "b @ post"] s e gd_slice_at [of "pre @ varint_bytes ?l" b post]
    by (simp add: read_length_delimited_def Let_def add.assoc)
qed

lemma read_float32_wire: "read_float32_le (pre @ wire_value (PFixed32 w) @ post) (int (length pre)) = w"
  using gd_slice_at [of pre "store_le 4 w" post] by (simp add: read_float32_le_def load_store_le)

lemma skip_value_wire:
  "length (pre @ wire_value v @ post) < 2 ^ 63 \<Longrightarrow>
   skip_value (pre @ wire_value v @ post) (int (length pre)) (int (wire_type v)) =
     Some (int (length pre) + int (length (wire_value v)))"
  using read_varint_bytes [of pre] read_length_delimited_wire [of pre _ post]
  by (cases v) (simp_all add: skip_value_def wire_types)

subsection \<open>Messages\<close>

text \<open>
  The contract of a decoder's branches with its loop: a field on the wire is either read, and then
  changes the result as \<open>put\<close> says, or left alone.
\<close>

locale proto_reader =
  fixes h :: "'r handler" and ok :: "proto_field \<Rightarrow> bool" and put :: "proto_field \<Rightarrow> 'r \<Rightarrow> 'r"
  assumes reads_field: "\<And>f pre post r. ok f \<Longrightarrow> length (pre @ wire_value (snd f) @ post) < 2 ^ 63 \<Longrightarrow>
    h (int (fst f)) (int (wire_type (snd f))) (pre @ wire_value (snd f) @ post) (int (length pre)) r =
      Some (Continue (put f r) (int (length pre) + int (length (wire_value (snd f))))) \<or>
    h (int (fst f)) (int (wire_type (snd f))) (pre @ wire_value (snd f) @ post) (int (length pre)) r = Some Unhandled \<and>
      put f r = r"
begin

lemma loop_reads_fields:
  assumes "\<forall>f \<in> set fs. field_ok f \<and> ok f" "length (pre @ wire fs) < 2 ^ 63"
  shows "proto_loop checked h (pre @ wire fs) (int (length pre)) r = Some (Decoded (fold put fs r))"
  using assms
proof (induction fs arbitrary: pre r)
  case (Cons f fs)
  define t where "t = varint_bytes (word_of_nat (8 * fst f + wire_type (snd f)))"
  define b where "b = pre @ wire (f # fs)"
  define at where "at = int (length pre) + int (length t)"
  define e where "e = at + int (length (wire_value (snd f)))"
  have f: "field_ok f" "ok f" using Cons.prems by auto
  have b: "b = (pre @ t) @ wire_value (snd f) @ wire fs" by (simp add: b_def t_def wire_field_def)
  have l: "length ((pre @ t) @ wire_value (snd f) @ wire fs) < 2 ^ 63" using Cons.prems(2) unfolding b [symmetric] b_def [symmetric] .
  have ih: "proto_loop checked h b e r' = Some (Decoded (fold put fs r'))" for r'
    using Cons.IH [of "pre @ t @ wire_value (snd f)" r'] Cons.prems l by (simp add: b e_def at_def add.assoc)
  have hd: "read_field_header b (int (length pre)) = Some (Some (int (fst f), int (wire_type (snd f)), at))"
    using read_field_header_wire [OF f(1), of pre "wire fs"] by (simp add: b_def at_def t_def)
  have sk: "skip_value b at (int (wire_type (snd f))) = Some e" "\<not> e < 0"
    using skip_value_wire [OF l] by (simp_all add: b at_def e_def)
  have nb: "\<not> length b \<le> length pre"
    using varint_bytes.simps [of "word_of_nat (8 * fst f + wire_type (snd f))"] by (simp add: b t_def)
  from reads_field [OF f(2) l, of r]
  consider "h (int (fst f)) (int (wire_type (snd f))) b at r = Some (Continue (put f r) e)"
    | "h (int (fst f)) (int (wire_type (snd f))) b at r = Some Unhandled" "put f r = r"
    by (auto simp: b at_def e_def)
  then have "proto_loop checked h b (int (length pre)) r = Some (Decoded (fold put fs (put f r)))"
    by cases (subst proto_loop.simps, simp add: nb hd ih sk)+
  then show ?case by (simp add: b_def)
qed (simp add: proto_loop.simps)

end

text \<open>The value Protobuf gives a field of a message: the last one on the wire, or its default.\<close>

definition latest :: "(proto_field \<Rightarrow> 'a option) \<Rightarrow> 'a \<Rightarrow> proto_field list \<Rightarrow> 'a" where
  "latest get d fs = fold (\<lambda>f x. case get f of Some y \<Rightarrow> y | None \<Rightarrow> x) fs d"

lemma latest_simps [simp]:
  "latest get d [] = d" "latest get d (f # fs) = latest get (case get f of Some y \<Rightarrow> y | None \<Rightarrow> d) fs"
  by (simp_all add: latest_def)

definition varint_at :: "nat \<Rightarrow> proto_field \<Rightarrow> u64 option" where
  "varint_at n f = (case snd f of PVarint v \<Rightarrow> if fst f = n then Some v else None | _ \<Rightarrow> None)"

definition fixed32_at :: "nat \<Rightarrow> proto_field \<Rightarrow> u32 option" where
  "fixed32_at n f = (case snd f of PFixed32 w \<Rightarrow> if fst f = n then Some w else None | _ \<Rightarrow> None)"

definition bytes_at :: "nat \<Rightarrow> proto_field \<Rightarrow> bytes option" where
  "bytes_at n f = (case snd f of PBytes b \<Rightarrow> if fst f = n then Some b else None | _ \<Rightarrow> None)"

text \<open>What a field of a kind and number does to the result.\<close>

definition put_bytes :: "nat \<Rightarrow> (bytes \<Rightarrow> 'r \<Rightarrow> 'r) \<Rightarrow> proto_field \<Rightarrow> 'r \<Rightarrow> 'r" where
  "put_bytes n upd f r = (case bytes_at n f of Some b \<Rightarrow> upd b r | None \<Rightarrow> r)"

definition put_varint :: "nat \<Rightarrow> (u64 \<Rightarrow> 'r \<Rightarrow> 'r) \<Rightarrow> proto_field \<Rightarrow> 'r \<Rightarrow> 'r" where
  "put_varint n upd f r = (case varint_at n f of Some v \<Rightarrow> upd v r | None \<Rightarrow> r)"

definition put_fixed32 :: "nat \<Rightarrow> (u32 \<Rightarrow> 'r \<Rightarrow> 'r) \<Rightarrow> proto_field \<Rightarrow> 'r \<Rightarrow> 'r" where
  "put_fixed32 n upd f r = (case fixed32_at n f of Some w \<Rightarrow> upd w r | None \<Rightarrow> r)"

lemmas put_defs = put_bytes_def put_varint_def put_fixed32_def bytes_at_def varint_at_def fixed32_at_def

lemma on_varint_wire:
  "on_varint upd (pre @ varint_bytes v @ post) (int (length pre)) r =
     Some (Continue (upd v r) (int (length pre) + int (length (varint_bytes v))))"
  by (simp add: on_varint_def read_varint_bytes)

lemma on_bytes_wire:
  "length (pre @ wire_value (PBytes b) @ post) < 2 ^ 63 \<Longrightarrow>
   on_bytes upd (pre @ wire_value (PBytes b) @ post) (int (length pre)) r =
     Some (Continue (upd b r) (int (length pre) + int (length (wire_value (PBytes b)))))"
  by (simp add: on_bytes_def read_length_delimited_wire del: wire_value.simps)

lemma on_nested_wire:
  "length (pre @ wire_value (PBytes b) @ post) < 2 ^ 63 \<Longrightarrow> parse b = Some (Decoded q) \<Longrightarrow>
   on_nested parse upd (pre @ wire_value (PBytes b) @ post) (int (length pre)) r =
     Some (Continue (upd q r) (int (length pre) + int (length (wire_value (PBytes b)))))"
  by (simp add: on_nested_def read_length_delimited_wire del: wire_value.simps)

lemma on_fixed32_wire:
  "on_fixed32 upd (pre @ wire_value (PFixed32 w) @ post) (int (length pre)) r =
     Some (Continue (upd w r) (int (length pre) + 4))"
  by (simp add: on_fixed32_def read_float32_wire del: wire_value.simps) simp

lemmas field_wire = on_varint_wire on_bytes_wire [simplified] on_nested_wire [simplified] on_fixed32_wire [simplified]

text \<open>Nested messages: their value, and that it can be read.\<close>

definition decoded_of :: "'r \<Rightarrow> 'r decoded option \<Rightarrow> 'r" where
  "decoded_of d x = (case x of Some (Decoded q) \<Rightarrow> q | _ \<Rightarrow> d)"

definition nested_ok :: "(bytes \<Rightarrow> 'r decoded option) \<Rightarrow> nat \<Rightarrow> proto_field \<Rightarrow> bool" where
  "nested_ok parse n f \<longleftrightarrow> (\<forall>b. bytes_at n f = Some b \<longrightarrow> (\<exists>q. parse b = Some (Decoded q)))"

lemmas message_simps = put_defs wire_types field_wire nested_ok_def decoded_of_def

definition register_put :: "proto_field \<Rightarrow> register_msg \<Rightarrow> register_msg" where
  "register_put f = put_bytes 3 (\<lambda>v. rm_player_update (\<lambda>_. string_of_bytes v)) f \<circ>
     put_bytes 2 (\<lambda>v. rm_error_update (\<lambda>_. string_of_bytes v)) f \<circ>
     put_varint 1 (\<lambda>v. rm_success_update (\<lambda>_. v \<noteq> 0)) f"

interpretation register_message: proto_reader register_field "\<lambda>_. True" register_put
proof (unfold_locales, goal_cases)
  case (1 f pre post r)
  then show ?case
    by (cases "snd f") (auto simp: register_field_def register_put_def message_simps)
qed

lemma fold_register_put: "fold register_put fs \<lparr>rm_success = a \<noteq> 0, rm_error = string_of_bytes b,
    rm_player = string_of_bytes c\<rparr> =
  \<lparr>rm_success = (latest (varint_at 1) a fs) \<noteq> 0,
    rm_error = string_of_bytes (latest (bytes_at 2) b fs),
    rm_player = string_of_bytes (latest (bytes_at 3) c fs)\<rparr>"
  by (induction fs arbitrary: a b c) (auto simp: register_put_def put_bytes_def put_varint_def put_fixed32_def split: option.splits)

lemma register_reads_wire:
  assumes "\<forall>f \<in> set fs. field_ok f" "length (wire fs) < 2 ^ 63"
  shows "decode_register_res (wire fs) = Some (Decoded \<lparr>rm_success = (latest (varint_at 1) 0 fs) \<noteq> 0,
    rm_error = string_of_bytes (latest (bytes_at 2) [] fs),
    rm_player = string_of_bytes (latest (bytes_at 3) [] fs)\<rparr>)"
  using register_message.loop_reads_fields [of fs "[]"] fold_register_put [of fs "0" "[]" "[]"] assms
  by (simp add: decode_register_res_def string_of_bytes_def decoded_of_def)

lemma decode_nothing: "decode_player_info [] = Some (Decoded [])" "decode_vec3 [] = Some (Decoded zero_vec3)"
  by (simp_all add: decode_player_info_def decode_vec3_def proto_loop.simps)

definition login_put :: "proto_field \<Rightarrow> login_msg \<Rightarrow> login_msg" where
  "login_put f = put_bytes 3 (\<lambda>v. lm_error_update (\<lambda>_. string_of_bytes v)) f \<circ>
     put_bytes 2 (\<lambda>v. lm_player_update (\<lambda>_. decoded_of [] (decode_player_info v))) f \<circ>
     put_varint 1 (\<lambda>v. lm_success_update (\<lambda>_. v \<noteq> 0)) f"

interpretation login_message: proto_reader login_field "nested_ok decode_player_info 2" login_put
proof (unfold_locales, goal_cases)
  case (1 f pre post r)
  then show ?case
    by (cases "snd f") (auto simp: login_field_def login_put_def message_simps)
qed

lemma fold_login_put: "fold login_put fs \<lparr>lm_success = a \<noteq> 0,
    lm_player = decoded_of [] (decode_player_info b), lm_error = string_of_bytes c\<rparr> =
  \<lparr>lm_success = (latest (varint_at 1) a fs) \<noteq> 0,
    lm_player = decoded_of [] (decode_player_info (latest (bytes_at 2) b fs)),
    lm_error = string_of_bytes (latest (bytes_at 3) c fs)\<rparr>"
  by (induction fs arbitrary: a b c) (auto simp: login_put_def put_bytes_def put_varint_def put_fixed32_def split: option.splits)

lemma login_reads_wire:
  assumes "\<forall>f \<in> set fs. field_ok f \<and> nested_ok decode_player_info 2 f" "length (wire fs) < 2 ^ 63"
  shows "decode_login_res (wire fs) = Some (Decoded \<lparr>lm_success = (latest (varint_at 1) 0 fs) \<noteq> 0,
    lm_player = decoded_of [] (decode_player_info (latest (bytes_at 2) [] fs)),
    lm_error = string_of_bytes (latest (bytes_at 3) [] fs)\<rparr>)"
  using login_message.loop_reads_fields [of fs "[]"] fold_login_put [of fs "0" "[]" "[]"] assms
  by (simp add: decode_login_res_def string_of_bytes_def decoded_of_def decode_nothing)

definition vec3_put :: "proto_field \<Rightarrow> gd_vec3 \<Rightarrow> gd_vec3" where
  "vec3_put f = put_fixed32 3 (\<lambda>v. v_z_update (\<lambda>_. v)) f \<circ>
     put_fixed32 2 (\<lambda>v. v_y_update (\<lambda>_. v)) f \<circ>
     put_fixed32 1 (\<lambda>v. v_x_update (\<lambda>_. v)) f"

interpretation vec3_message: proto_reader vec3_field "\<lambda>_. True" vec3_put
proof (unfold_locales, goal_cases)
  case (1 f pre post r)
  then show ?case
    by (cases "snd f") (auto simp: vec3_field_def vec3_put_def message_simps)
qed

lemma fold_vec3_put: "fold vec3_put fs \<lparr>v_x = a, v_y = b, v_z = c\<rparr> =
  \<lparr>v_x = (latest (fixed32_at 1) a fs), v_y = (latest (fixed32_at 2) b fs),
    v_z = (latest (fixed32_at 3) c fs)\<rparr>"
  by (induction fs arbitrary: a b c) (auto simp: vec3_put_def put_bytes_def put_varint_def put_fixed32_def split: option.splits)

lemma vec3_reads_wire:
  assumes "\<forall>f \<in> set fs. field_ok f" "length (wire fs) < 2 ^ 63"
  shows "decode_vec3 (wire fs) = Some (Decoded \<lparr>v_x = (latest (fixed32_at 1) 0 fs),
    v_y = (latest (fixed32_at 2) 0 fs), v_z = (latest (fixed32_at 3) 0 fs)\<rparr>)"
  using vec3_message.loop_reads_fields [of fs "[]"] fold_vec3_put [of fs "0" "0" "0"] assms
  by (simp add: decode_vec3_def string_of_bytes_def decoded_of_def zero_vec3_def)

definition move_put :: "proto_field \<Rightarrow> move_msg \<Rightarrow> move_msg" where
  "move_put f = put_bytes 3 (\<lambda>v. mm_corrected_update (\<lambda>_. decoded_of zero_vec3 (decode_vec3 v))) f \<circ>
     put_bytes 2 (\<lambda>v. mm_error_update (\<lambda>_. string_of_bytes v)) f \<circ>
     put_varint 1 (\<lambda>v. mm_success_update (\<lambda>_. v \<noteq> 0)) f"

interpretation move_message: proto_reader move_field "nested_ok decode_vec3 3" move_put
proof (unfold_locales, goal_cases)
  case (1 f pre post r)
  then show ?case
    by (cases "snd f") (auto simp: move_field_def move_put_def message_simps)
qed

lemma fold_move_put: "fold move_put fs \<lparr>mm_success = a \<noteq> 0, mm_error = string_of_bytes b,
    mm_corrected = decoded_of zero_vec3 (decode_vec3 c)\<rparr> =
  \<lparr>mm_success = (latest (varint_at 1) a fs) \<noteq> 0,
    mm_error = string_of_bytes (latest (bytes_at 2) b fs),
    mm_corrected = decoded_of zero_vec3 (decode_vec3 (latest (bytes_at 3) c fs))\<rparr>"
  by (induction fs arbitrary: a b c) (auto simp: move_put_def put_bytes_def put_varint_def put_fixed32_def split: option.splits)

lemma move_reads_wire:
  assumes "\<forall>f \<in> set fs. field_ok f \<and> nested_ok decode_vec3 3 f" "length (wire fs) < 2 ^ 63"
  shows "decode_move_res (wire fs) = Some (Decoded \<lparr>mm_success = (latest (varint_at 1) 0 fs) \<noteq> 0,
    mm_error = string_of_bytes (latest (bytes_at 2) [] fs),
    mm_corrected = decoded_of zero_vec3 (decode_vec3 (latest (bytes_at 3) [] fs))\<rparr>)"
  using move_message.loop_reads_fields [of fs "[]"] fold_move_put [of fs "0" "[]" "[]"] assms
  by (simp add: decode_move_res_def string_of_bytes_def decoded_of_def decode_nothing)

definition transform_put :: "proto_field \<Rightarrow> transform_msg \<Rightarrow> transform_msg" where
  "transform_put f = put_varint 5 (\<lambda>v. tm_appearance_update (\<lambda>_. clampi (sint v) 0 3)) f \<circ>
     put_fixed32 4 (\<lambda>v. tm_yaw_update (\<lambda>_. v)) f \<circ>
     put_bytes 3 (\<lambda>v. tm_position_update (\<lambda>_. decoded_of zero_vec3 (decode_vec3 v))) f \<circ>
     put_bytes 2 (\<lambda>v. tm_name_update (\<lambda>_. string_of_bytes v)) f \<circ>
     put_bytes 1 (\<lambda>v. tm_player_update (\<lambda>_. string_of_bytes v)) f"

interpretation transform_message: proto_reader transform_field "nested_ok decode_vec3 3" transform_put
proof (unfold_locales, goal_cases)
  case (1 f pre post r)
  then show ?case
    by (cases "snd f") (auto simp: transform_field_def transform_put_def message_simps)
qed

lemma fold_transform_put: "fold transform_put fs \<lparr>tm_player = string_of_bytes a,
    tm_name = string_of_bytes b, tm_position = decoded_of zero_vec3 (decode_vec3 c), tm_yaw = d,
    tm_appearance = clampi (sint e) 0 3\<rparr> =
  \<lparr>tm_player = string_of_bytes (latest (bytes_at 1) a fs),
    tm_name = string_of_bytes (latest (bytes_at 2) b fs),
    tm_position = decoded_of zero_vec3 (decode_vec3 (latest (bytes_at 3) c fs)),
    tm_yaw = (latest (fixed32_at 4) d fs), tm_appearance = clampi (sint (latest (varint_at 5) e fs)) 0 3\<rparr>"
  by (induction fs arbitrary: a b c d e)
    (auto simp: transform_put_def put_bytes_def put_varint_def put_fixed32_def split: option.splits)

lemma transform_reads_wire:
  assumes "\<forall>f \<in> set fs. field_ok f \<and> nested_ok decode_vec3 3 f" "length (wire fs) < 2 ^ 63"
  shows "decode_player_transform (wire fs) = Some (Decoded \<lparr>tm_player = string_of_bytes (latest (bytes_at 1) [] fs), tm_name = string_of_bytes (latest (bytes_at 2) [] fs), tm_position = decoded_of zero_vec3 (decode_vec3 (latest (bytes_at 3) [] fs)), tm_yaw = (latest (fixed32_at 4) 0 fs), tm_appearance = clampi (sint (latest (varint_at 5) 0 fs)) 0 3\<rparr>)"
  using transform_message.loop_reads_fields [of fs "[]"] fold_transform_put [of fs "[]" "[]" "[]" "0" "0"] assms
  by (simp add: decode_player_transform_def string_of_bytes_def decoded_of_def decode_nothing clampi_def)

definition voxel_put :: "proto_field \<Rightarrow> voxel_msg \<Rightarrow> voxel_msg" where
  "voxel_put f = put_varint 5 (\<lambda>v. vm_block_update (\<lambda>_. v)) f \<circ>
     put_varint 4 (\<lambda>v. vm_action_update (\<lambda>_. v)) f \<circ>
     put_varint 3 (\<lambda>v. vm_z_update (\<lambda>_. unzigzag v)) f \<circ>
     put_varint 2 (\<lambda>v. vm_y_update (\<lambda>_. unzigzag v)) f \<circ>
     put_varint 1 (\<lambda>v. vm_x_update (\<lambda>_. unzigzag v)) f"

interpretation voxel_message: proto_reader voxel_edit_field "\<lambda>_. True" voxel_put
proof (unfold_locales, goal_cases)
  case (1 f pre post r)
  then show ?case
    by (cases "snd f") (auto simp: voxel_edit_field_def voxel_put_def message_simps)
qed

lemma fold_voxel_put: "fold voxel_put fs \<lparr>vm_x = unzigzag a, vm_y = unzigzag b, vm_z = unzigzag c,
    vm_action = d, vm_block = e\<rparr> =
  \<lparr>vm_x = unzigzag (latest (varint_at 1) a fs), vm_y = unzigzag (latest (varint_at 2) b fs),
    vm_z = unzigzag (latest (varint_at 3) c fs), vm_action = (latest (varint_at 4) d fs),
    vm_block = (latest (varint_at 5) e fs)\<rparr>"
  by (induction fs arbitrary: a b c d e)
    (auto simp: voxel_put_def put_bytes_def put_varint_def put_fixed32_def split: option.splits)

lemma voxel_reads_wire:
  assumes "\<forall>f \<in> set fs. field_ok f" "length (wire fs) < 2 ^ 63"
  shows "decode_voxel_edit (wire fs) = Some (Decoded \<lparr>vm_x = unzigzag (latest (varint_at 1) 0 fs),
    vm_y = unzigzag (latest (varint_at 2) 0 fs), vm_z = unzigzag (latest (varint_at 3) 0 fs),
    vm_action = (latest (varint_at 4) 0 fs), vm_block = (latest (varint_at 5) 0 fs)\<rparr>)"
  using voxel_message.loop_reads_fields [of fs "[]"] fold_voxel_put [of fs "0" "0" "0" "0" "0"] assms
  by (simp add: decode_voxel_edit_def string_of_bytes_def decoded_of_def unzigzag_def)

definition select_map_put :: "proto_field \<Rightarrow> select_map_msg \<Rightarrow> select_map_msg" where
  "select_map_put f = put_bytes 3 (\<lambda>v. sl_error_update (\<lambda>_. string_of_bytes v)) f \<circ>
     put_varint 2 (\<lambda>v. sl_map_update (\<lambda>_. v)) f \<circ>
     put_varint 1 (\<lambda>v. sl_success_update (\<lambda>_. v \<noteq> 0)) f"

interpretation select_map_message: proto_reader select_map_field "\<lambda>_. True" select_map_put
proof (unfold_locales, goal_cases)
  case (1 f pre post r)
  then show ?case
    by (cases "snd f") (auto simp: select_map_field_def select_map_put_def message_simps)
qed

lemma fold_select_map_put: "fold select_map_put fs \<lparr>sl_success = a \<noteq> 0, sl_map = b,
    sl_error = string_of_bytes c\<rparr> =
  \<lparr>sl_success = (latest (varint_at 1) a fs) \<noteq> 0, sl_map = (latest (varint_at 2) b fs),
    sl_error = string_of_bytes (latest (bytes_at 3) c fs)\<rparr>"
  by (induction fs arbitrary: a b c) (auto simp: select_map_put_def put_bytes_def put_varint_def put_fixed32_def split: option.splits)

lemma select_map_reads_wire:
  assumes "\<forall>f \<in> set fs. field_ok f" "length (wire fs) < 2 ^ 63"
  shows "decode_select_map_res (wire fs) = Some (Decoded \<lparr>sl_success = (latest (varint_at 1) 0 fs) \<noteq> 0, sl_map = (latest (varint_at 2) 0 fs), sl_error = string_of_bytes (latest (bytes_at 3) [] fs)\<rparr>)"
  using select_map_message.loop_reads_fields [of fs "[]"] fold_select_map_put [of fs "0" "0" "[]"] assms
  by (simp add: decode_select_map_res_def string_of_bytes_def decoded_of_def)

subsection \<open>Block edits\<close>

text \<open>Coordinates survive the zigzag encoding when they fit 32 bits.\<close>

definition int32_range :: "u64 \<Rightarrow> bool" where
  "int32_range v \<longleftrightarrow> - (2 ^ 31) \<le> sint v \<and> sint v < 2 ^ 31"

lemma int32_sign_bits:
  assumes "int32_range v" "31 \<le> n" "n < 64"
  shows "bit v n = bit v 63"
proof -
  have s: "signed_take_bit 31 (sint v) = sint v"
    using assms(1) by (intro signed_take_bit_int_eq_self) (simp_all add: int32_range_def)
  have "bit (sint v) k = bit (sint v) 31" if "31 \<le> k" for k
    using that by (subst (1 2) s [symmetric]) (simp add: bit_signed_take_bit_iff min_def)
  from this [of n] this [of 63] assms show ?thesis by (simp add: bit_sint_iff)
qed

lemma bit_zigzag:
  assumes "int32_range v" "n < 64"
  shows "bit (zigzag v) n = ((0 < n \<and> bit v (n - 1)) \<noteq> bit v 63)"
proof -
  have "bit (push_bit 1 v) n = (0 < n \<and> bit v (n - 1))"
    unfolding bit_push_bit_iff using assms(2) by auto
  moreover have "bit (signed_drop_bit 31 v) n = bit v 63"
  proof -
    have "(if LENGTH(64) - 31 \<le> n \<and> n < LENGTH(64) then LENGTH(64) - 1 else 31 + n) = (if 33 \<le> n then 63 else 31 + n)"
      using assms(2) by simp
    then show ?thesis using int32_sign_bits [OF assms(1), of "31 + n"]
      by (simp only: bit_signed_drop_bit_iff) auto
  qed
  ultimately show ?thesis by (auto simp: zigzag_def bit_xor_iff)
qed

lemma zigzag_nonneg: "int32_range v \<Longrightarrow> 0 \<le> sint (zigzag v)"
  using bit_zigzag [of v 63] int32_sign_bits [of v 62] bit_last_iff [of "zigzag v"] by simp

lemma unzigzag_zigzag:
  assumes "int32_range v"
  shows "unzigzag (zigzag v) = v"
proof (rule bit_word_eqI)
  fix n assume n: "n < LENGTH(64)"
  have "zigzag v AND 1 = of_bool (bit v 63)"
    using bit_zigzag [OF assms, of 0] by (simp add: and_one_eq mod_2_eq_odd bit_0)
  then have "bit (- (zigzag v AND 1)) n = bit v 63" using n by auto
  moreover have "bit (signed_drop_bit 1 (zigzag v)) n = (bit v n \<noteq> bit v 63)"
  proof (cases "n = 63")
    case True
    then show ?thesis using bit_zigzag [OF assms, of 63] int32_sign_bits [OF assms,
    of 62] by (simp add: bit_signed_drop_bit_iff)
  next
    case False
    then show ?thesis using n bit_zigzag [OF assms, of "n + 1"] by (simp add: bit_signed_drop_bit_iff)
  qed
  ultimately show "bit (unzigzag (zigzag v)) n = bit v n" by (auto simp: unzigzag_def bit_xor_iff)
qed

definition voxel_ok :: "voxel_msg \<Rightarrow> bool" where
  "voxel_ok m \<longleftrightarrow> int32_range (vm_x m) \<and> int32_range (vm_y m) \<and> int32_range (vm_z m) \<and>
     0 \<le> sint (vm_action m) \<and> 0 \<le> sint (vm_block m)"

lemma encode_voxel_edit_wire:
  "voxel_ok m \<Longrightarrow> encode_voxel_edit m = wire [(1, PVarint (zigzag (vm_x m))), (2,
    PVarint (zigzag (vm_y m))),
     (3, PVarint (zigzag (vm_z m))), (4, PVarint (vm_action m)), (5, PVarint (vm_block m))]"
  by (simp add: voxel_ok_def encode_voxel_edit_def encode_varint_field_def wire_field_def write_varint_bytes zigzag_nonneg)

lemma length_varint_bytes: "unat w < 128 ^ Suc k \<Longrightarrow> length (varint_bytes w) \<le> Suc k"
proof (induction k arbitrary: w)
  case 0
  then show ?case by (simp add: varint_bytes.simps word_less_nat_alt)
next
  case (Suc k)
  have "unat (drop_bit 7 w) = unat w div 128" by (simp add: unat_div drop_bit_eq_div)
  then have "unat (drop_bit 7 w) < 128 ^ Suc k" using Suc.prems by (simp add: less_mult_imp_div_less mult.commute)
  then show ?case using Suc.IH [of "drop_bit 7 w"] by (subst varint_bytes.simps) simp
qed

lemma voxel_edit_survives:
  assumes "voxel_ok m"
  shows "decode_voxel_edit (encode_voxel_edit m) = Some (Decoded m)"
proof -
  let ?fs = "[(1, PVarint (zigzag (vm_x m))), (2, PVarint (zigzag (vm_y m))),
     (3, PVarint (zigzag (vm_z m))), (4, PVarint (vm_action m)), (5, PVarint (vm_block m))]"
  have l: "length (varint_bytes w) \<le> 10" for w
  proof -
    have "unat w < 2 ^ LENGTH(64)" by (rule unsigned_less)
    then show ?thesis using length_varint_bytes [of w 9] by simp
  qed
  have f: "length (wire_field (n, PVarint w)) \<le> 20" for n w
    using add_mono [OF l l] by (simp add: wire_field_def)
  have "length (wire ?fs) \<le> 20 + (20 + (20 + (20 + 20)))"
    unfolding wire_simps length_append append_Nil2 by (intro add_mono f)
  then have "length (wire ?fs) < 2 ^ 63" by (rule le_less_trans) simp
  then show ?thesis
    using voxel_reads_wire [of ?fs] assms unfolding encode_voxel_edit_wire [OF assms]
    by (simp add: field_ok_def varint_at_def voxel_ok_def unzigzag_zigzag)
qed

subsection \<open>Fields of an unknown type\<close>

lemma group_header: "read_field_header [0x0B] 0 = Some (Some (1, 3,
    1))" "read_field_header [0x0B] (- 1) = Some (Some (1, 3, 0))"
  by (simp_all add: read_field_header_def read_varint_def read_varint_from.simps gd_index_def Let_def)

lemma unskipped_loop_hangs:
  assumes "proto_loop checked h b off r = Some x"
  shows "\<not> checked \<Longrightarrow> (\<And>n off r. h n 3 b off r = Some Unhandled) \<Longrightarrow> b = [0x0B] \<Longrightarrow> off = 0 \<or> off = - 1 \<Longrightarrow> False"
  using assms
proof (induction checked h b off r x rule: proto_loop.raw_induct [rotated, consumes 1, case_names 1])
  case (1 loop checked h b off r x)
  have "skip_value b off' 3 = Some (- 1)" for off' by (simp add: skip_value_def wire_types)
  then have "loop checked h b (- 1) r = Some x"
    using 1(2) "1.prems" by (auto simp: group_header)
  then show ?case using 1(1) [of checked h b "- 1" r x] "1.prems" by auto
qed

lemma unchecked_reader_hangs:
  "(\<And>n off r. h n 3 [0x0B] off r = Some Unhandled) \<Longrightarrow> proto_loop False h [0x0B] 0 r = None"
  by (metis not_None_eq unskipped_loop_hangs)

lemma group_field_hangs: "decode_voxel_edit [0x0B] = None \<and> decode_select_map_res [0x0B] = None"
  unfolding decode_voxel_edit_def decode_select_map_res_def
  by (intro conjI unchecked_reader_hangs) (simp_all add: voxel_edit_field_def select_map_field_def wire_types)

subsection \<open>The checked decoders return\<close>

lemma read_varint_from_forward:
  "read_varint_from b off v s = Some (True, w, off') \<Longrightarrow> off < off' \<and> off' \<le> int (length b)"
proof (induction b off v s rule: read_varint_from.induct)
  case (1 b off v s)
  from 1(2) show ?case
    by (subst (asm) read_varint_from.simps) (use 1(1) in \<open>fastforce simp: Let_def split: if_splits option.splits\<close>)
qed

lemma read_field_header_forward:
  "read_field_header b off = Some (Some (n, wt, off')) \<Longrightarrow> off < off' \<and> off' \<le> int (length b)"
  using read_varint_from_forward [of b off 0 0]
  by (auto simp: read_field_header_def read_varint_def split: option.splits if_splits)

definition beyond :: "bytes \<Rightarrow> int \<Rightarrow> int \<Rightarrow> bool" where
  "beyond b off off' \<longleftrightarrow> off < off' \<or> off' < - int (length b)"

lemma read_length_delimited_forward:
  assumes "read_length_delimited b off = Some (Some (x, off'))" "0 \<le> off" "length b < 2 ^ 62"
  shows "beyond b off off' \<and> length x \<le> length b"
proof -
  from assms(1) obtain len at where r: "read_varint b off = Some (True, len, at)" "0 \<le> sint len"
      "off' = sint (word_of_int (at + sint len) :: u64)" and x: "x = gd_slice b at off'"
    by (auto simp: read_length_delimited_def Let_def split: option.splits if_splits)
  have at: "off < at" "at \<le> int (length b)"
    using r(1) read_varint_from_forward [of b off 0 0] by (auto simp: read_varint_def)
  have len: "sint len < 2 ^ 63" using sint_less [of len] by simp
  have "off' = (at + sint len + 2 ^ 63) mod 2 ^ 64 - 2 ^ 63"
    unfolding r(3) int_word_sint by simp
  moreover define k where "k = at + sint len + 2 ^ 63"
  moreover have "0 \<le> k" "k < 2 * 2 ^ 64" using at assms(2,3) r(2) len by (simp_all add: k_def)
  then have "k mod 2 ^ 64 = (if k < 2 ^ 64 then k else k - 2 ^ 64)"
    using mod_pos_pos_trivial [of k "2 ^ 64"] mod_pos_pos_trivial [of "k - 2 ^ 64" "2 ^ 64"] minus_mod_self2 [of k "2 ^ 64"] by auto
  ultimately have "off' = (if at + sint len < 2 ^ 63 then at + sint len else at + sint len - 2 ^ 64)" by simp
  then show ?thesis using at assms(2,3) r(2) len by (auto simp: beyond_def x gd_slice_def)
qed

lemma skip_value_forward:
  "skip_value b off wt = Some off' \<Longrightarrow> \<not> off' < 0 \<Longrightarrow> 0 \<le> off \<Longrightarrow> length b < 2 ^ 62 \<Longrightarrow> beyond b off off'"
  using read_varint_from_forward [of b off 0 0] read_length_delimited_forward [of b off]
  by (auto simp: skip_value_def read_varint_def beyond_def split: option.splits if_splits)

lemma proto_loop_outside: "off < - int (length b) \<Longrightarrow> proto_loop checked h b off r = Some ScriptError"
  by (subst proto_loop.simps)
    (simp add: read_field_header_def read_varint_def read_varint_from.simps gd_index_def)

text \<open>The contract of a branch that moves forward.\<close>

locale forward_reader =
  fixes h :: "'r handler"
  assumes handled: "\<And>n wt b off r. 0 \<le> off \<Longrightarrow> length b < 2 ^ 62 \<Longrightarrow>
    \<exists>x. h n wt b off r = Some x \<and> (\<forall>r' off'. x = Continue r' off' \<longrightarrow> beyond b off off')"
begin

lemma loop_returns:
  assumes "length b < 2 ^ 62" "0 \<le> off"
  shows "\<exists>x. proto_loop True h b off r = Some x"
  using assms
proof (induction "nat (int (length b) - off)" arbitrary: off r rule: less_induct)
  case less
  show ?case
  proof (cases "off < int (length b) \<and> (\<exists>n wt at. read_field_header b off = Some (Some (n, wt, at)))")
    case False
    then show ?thesis by (subst proto_loop.simps) (auto split: option.splits)
  next
    case True
    then obtain n wt at where f: "off < int (length b)" "read_field_header b off = Some (Some (n, wt, at))" by auto
    have at: "off < at" using read_field_header_forward [OF f(2)] by simp
    have again: "\<exists>x. proto_loop True h b off' r' = Some x" if "beyond b at off'" for off' r'
      using that less.hyps [of off' r'] less.prems at f(1) proto_loop_outside [of off' b True h r']
      by (auto simp: beyond_def)
    obtain x where x: "h n wt b at r = Some x" "\<And>r' off'. x = Continue r' off' \<Longrightarrow> beyond b at off'"
      using handled [of at b n wt r] less.prems at by auto
    have skip: "beyond b at off'" if "skip_value b at wt = Some off'" "\<not> off' < 0" for off'
      using skip_value_forward [OF that] less.prems at by simp
    show ?thesis
    proof (cases x)
      case (Continue r' off')
      then show ?thesis using x f again [of off' r'] by (subst proto_loop.simps) simp
    next
      case Unhandled
      then show ?thesis using x(1) f again skip by (subst proto_loop.simps) (auto split: option.splits)
    qed (use x f in \<open>subst proto_loop.simps, simp\<close>)+
  qed
qed

end

lemma on_varint_forward: "on_varint upd b off r = Some (Continue r' off') \<Longrightarrow> beyond b off off'"
  using read_varint_from_forward [of b off 0 0]
  by (auto simp: on_varint_def read_varint_def beyond_def split: option.splits if_splits)

lemma on_bytes_forward:
  "on_bytes upd b off r = Some (Continue r' off') \<Longrightarrow> 0 \<le> off \<Longrightarrow> length b < 2 ^ 62 \<Longrightarrow> beyond b off off'"
  using read_length_delimited_forward [of b off] by (auto simp: on_bytes_def split: option.splits)

lemma on_fixed32_forward: "on_fixed32 upd b off r = Some (Continue r' off') \<Longrightarrow> beyond b off off'"
  by (auto simp: on_fixed32_def beyond_def split: if_splits)

lemma on_nested_forward:
  assumes "\<And>x. length x < 2 ^ 62 \<Longrightarrow> \<exists>y. parse x = Some y" "0 \<le> off" "length b < 2 ^ 62"
  shows "\<exists>x. on_nested parse upd b off r = Some x \<and> (\<forall>r' off'. x = Continue r' off' \<longrightarrow> beyond b off off')"
proof (cases "\<exists>x off'. read_length_delimited b off = Some (Some (x, off'))")
  case True
  then obtain x off' where x: "read_length_delimited b off = Some (Some (x, off'))" by blast
  then have l: "beyond b off off'" "length x < 2 ^ 62"
    using read_length_delimited_forward [OF x assms(2,3)] assms(3) by auto
  then obtain y where "parse x = Some y" using assms(1) by blast
  then show ?thesis using x l by (cases y) (auto simp: on_nested_def)
next
  case False
  then show ?thesis by (auto simp: on_nested_def split: option.splits)
qed

lemmas forward_simps = on_varint_forward on_bytes_forward on_fixed32_forward

lemma on_fields_return:
  "0 \<le> off \<Longrightarrow> length b < 2 ^ 62 \<Longrightarrow> \<exists>x. on_varint u b off r = Some x \<and> (\<forall>r' off'. x = Continue r' off' \<longrightarrow> beyond b off off')"
  "0 \<le> off \<Longrightarrow> length b < 2 ^ 62 \<Longrightarrow> \<exists>x. on_bytes v b off r = Some x \<and> (\<forall>r' off'. x = Continue r' off' \<longrightarrow> beyond b off off')"
  "0 \<le> off \<Longrightarrow> length b < 2 ^ 62 \<Longrightarrow> \<exists>x. on_fixed32 w b off r = Some x \<and> (\<forall>r' off'. x = Continue r' off' \<longrightarrow> beyond b off off')"
  using on_varint_forward [of u b off r] on_bytes_forward [of v b off r] on_fixed32_forward [of w b off r]
  by (auto simp: on_varint_def on_bytes_def on_fixed32_def)

interpretation player_info_forward: forward_reader player_info_field
  by unfold_locales (simp add: player_info_field_def on_fields_return)

interpretation vec3_forward: forward_reader vec3_field
  by unfold_locales (simp add: vec3_field_def on_fields_return)

lemma nested_return:
  "length b < 2 ^ 62 \<Longrightarrow> \<exists>x. decode_player_info b = Some x"
  "length b < 2 ^ 62 \<Longrightarrow> \<exists>x. decode_vec3 b = Some x"
  by (simp_all add: decode_player_info_def decode_vec3_def player_info_forward.loop_returns vec3_forward.loop_returns)

lemma nested_forward:
  assumes "0 \<le> off" "length b < 2 ^ 62"
  shows "\<exists>x. on_nested decode_player_info p b off r = Some x \<and> (\<forall>r' off'. x = Continue r' off' \<longrightarrow> beyond b off off')"
    "\<exists>x. on_nested decode_vec3 q b off s = Some x \<and> (\<forall>r' off'. x = Continue r' off' \<longrightarrow> beyond b off off')"
  by (rule on_nested_forward [OF nested_return(1) assms], assumption)
    (rule on_nested_forward [OF nested_return(2) assms], assumption)

interpretation register_forward: forward_reader register_field
  by unfold_locales (simp add: register_field_def on_fields_return)

interpretation login_forward: forward_reader login_field
  by unfold_locales (simp add: login_field_def on_fields_return nested_forward)

interpretation move_forward: forward_reader move_field
  by unfold_locales (simp add: move_field_def on_fields_return nested_forward)

interpretation transform_forward: forward_reader transform_field
  by unfold_locales (simp add: transform_field_def on_fields_return nested_forward)

lemma checked_decoders_return:
  assumes "length b < 2 ^ 62"
  shows "(\<exists>x. decode_register_res b = Some x) \<and> (\<exists>x. decode_login_res b = Some x) \<and>
    (\<exists>x. decode_move_res b = Some x) \<and> (\<exists>x. decode_player_transform b = Some x)"
  using assms by (simp add: decode_register_res_def decode_login_res_def decode_move_res_def decode_player_transform_def
    register_forward.loop_returns login_forward.loop_returns move_forward.loop_returns transform_forward.loop_returns)

subsection \<open>Termination of the decoders\<close>

text \<open>
  C17. The Protobuf readers of the graphical client cannot be made to loop by what the server sends,
  with two exceptions. On any byte array, well formed or not, the decoders of the replies to a
  registration, a login and a move and of a player's transform return: with a message or with the
  error of the script. The decoders of a block edit and of the reply to the choice of a map do not
  test whether a field could be skipped: on the single byte \<open>0x0B\<close>, a field of an unknown wire type,
  they go back to that byte for ever. (An array has fewer than \<open>2 ^ 62\<close> bytes.)
\<close>

theorem godot_decoders_return:
  assumes "length b < 2 ^ 62"
  shows "(\<exists>x. decode_register_res b = Some x) \<and> (\<exists>x. decode_login_res b = Some x) \<and>
    (\<exists>x. decode_move_res b = Some x) \<and> (\<exists>x. decode_player_transform b = Some x) \<and>
    decode_voxel_edit [0x0B] = None \<and> decode_select_map_res [0x0B] = None"
  using checked_decoders_return [OF assms] group_field_hangs by blast

text \<open>The byte on which the two decoders hang makes the decoder of a login return at once.\<close>

theorem godot_decoders_return_witness:
  "\<exists>x. decode_login_res [0x0B] = Some x \<and> decode_voxel_edit [0x0B] = None"
  using godot_decoders_return [of "[0x0B]"] by simp

end
