(* ===== verification/Binary_Heap.thy ===== *)
theory Binary_Heap
  imports Rpc_Prelude
begin

text \<open>
  \<open>std::push_heap\<close> and \<open>std::pop_heap\<close> with \<open>std::greater\<close>, as
  \<open>src/game/timer_manager.cpp\<close> uses them: a min-heap in a vector, the parent of position
  \<open>i\<close> at \<open>(i - 1) / 2\<close>. The locale \<open>min_heap\<close> states what a caller relies on.
\<close>

subsection \<open>Sifting\<close>

definition swap :: "nat \<Rightarrow> nat \<Rightarrow> 'a list \<Rightarrow> 'a list" where
  "swap i j a = a[i := a ! j, j := a ! i]"

fun sift_up :: "('a \<Rightarrow> 'k::linorder) \<Rightarrow> nat \<Rightarrow> 'a list \<Rightarrow> 'a list" where
  "sift_up key i a =
     (if i = 0 then a
      else if key (a ! i) < key (a ! ((i - 1) div 2))
      then sift_up key ((i - 1) div 2) (swap i ((i - 1) div 2) a)
      else a)"

text \<open>The smaller child of \<open>i\<close>, the left one on a tie.\<close>

definition min_child :: "('a \<Rightarrow> 'k::linorder) \<Rightarrow> nat \<Rightarrow> 'a list \<Rightarrow> nat" where
  "min_child key i a =
     (if 2 * i + 2 < length a \<and> key (a ! (2 * i + 2)) < key (a ! (2 * i + 1))
      then 2 * i + 2 else 2 * i + 1)"

lemma min_child_bounds: "i < min_child key i a \<and> (2 * i + 1 < length a \<longrightarrow> min_child key i a < length a)"
  by (simp add: min_child_def)

function sift_down :: "('a \<Rightarrow> 'k::linorder) \<Rightarrow> nat \<Rightarrow> 'a list \<Rightarrow> 'a list" where
  "sift_down key i a =
     (if 2 * i + 1 < length a \<and> key (a ! min_child key i a) < key (a ! i)
      then sift_down key (min_child key i a) (swap i (min_child key i a) a)
      else a)"
  by pat_completeness auto
termination
  by (relation "measure (\<lambda>(_, i, a). length a - i)")
     (auto simp: swap_def min_child_def)

declare sift_up.simps [simp del] sift_down.simps [simp del]

definition push_heap :: "('a \<Rightarrow> 'k::linorder) \<Rightarrow> 'a \<Rightarrow> 'a list \<Rightarrow> 'a list" where
  "push_heap key x a = sift_up key (length a) (a @ [x])"

text \<open>\<open>pop_heap\<close> and \<open>pop_back\<close>: the last element takes the place of the front and sinks.\<close>

definition pop_heap :: "('a \<Rightarrow> 'k::linorder) \<Rightarrow> 'a list \<Rightarrow> 'a list" where
  "pop_heap key a =
     (if length a \<le> 1 then [] else sift_down key 0 (butlast (a[0 := last a])))"

subsection \<open>The same elements\<close>

lemma length_swap [simp]: "length (swap i j a) = length a"
  by (simp add: swap_def)

lemma mset_swap' [simp]: "i < length a \<Longrightarrow> j < length a \<Longrightarrow> mset (swap i j a) = mset a"
  by (simp add: swap_def mset_swap)

lemma nth_swap:
  "i < length a \<Longrightarrow> j < length a \<Longrightarrow> k < length a \<Longrightarrow>
     swap i j a ! k = (if k = i then a ! j else if k = j then a ! i else a ! k)"
  by (auto simp: swap_def nth_list_update)

lemma mset_sift_up [simp]: "i < length a \<Longrightarrow> mset (sift_up key i a) = mset a"
proof (induction key i a rule: sift_up.induct)
  case (1 key i a)
  then show ?case by (subst sift_up.simps) (auto simp: less_imp_diff_less)
qed

lemma mset_sift_down [simp]: "mset (sift_down key i a) = mset a"
proof (induction key i a rule: sift_down.induct)
  case (1 key i a)
  then show ?case
    using min_child_bounds [of i key a] by (subst sift_down.simps) auto
qed

subsection \<open>The heap order\<close>

definition is_heap :: "('a \<Rightarrow> 'k::linorder) \<Rightarrow> 'a list \<Rightarrow> bool" where
  "is_heap key a \<longleftrightarrow> (\<forall>j < length a. 0 < j \<longrightarrow> key (a ! ((j - 1) div 2)) \<le> key (a ! j))"

text \<open>
  Sifting up at \<open>i\<close>: only the edge above \<open>i\<close> may be wrong, and the children of \<open>i\<close> are
  in order with its parent.
\<close>

definition heap_but_up :: "('a \<Rightarrow> 'k::linorder) \<Rightarrow> nat \<Rightarrow> 'a list \<Rightarrow> bool" where
  "heap_but_up key i a \<longleftrightarrow>
     (\<forall>j < length a. 0 < j \<longrightarrow> j \<noteq> i \<longrightarrow> key (a ! ((j - 1) div 2)) \<le> key (a ! j)) \<and>
     (\<forall>j < length a. 0 < j \<longrightarrow> 0 < i \<longrightarrow> (j - 1) div 2 = i \<longrightarrow> key (a ! ((i - 1) div 2)) \<le> key (a ! j))"

lemma sift_up_heap: "i < length a \<Longrightarrow> heap_but_up key i a \<Longrightarrow> is_heap key (sift_up key i a)"
proof (induction key i a rule: sift_up.induct)
  case (1 key i a)
  let ?p = "(i - 1) div 2"
  show ?case
  proof (cases "i \<noteq> 0 \<and> key (a ! i) < key (a ! ?p)")
    case False
    have "key (a ! ((j - 1) div 2)) \<le> key (a ! j)" if "j < length a" "0 < j" for j
      using 1(3) False that by (cases "j = i") (auto simp: heap_but_up_def not_less)
    then have "is_heap key a" by (simp add: is_heap_def)
    with False show ?thesis by (auto simp: sift_up.simps [of key i a])
  next
    case True
    have p: "?p < i" "?p < length a" using True 1(2) by auto
    have edge: "key (a ! ((j - 1) div 2)) \<le> key (a ! j)" if "j < length a" "0 < j" "j \<noteq> i" for j
      using 1(3) that by (simp add: heap_but_up_def)
    have grand: "key (a ! ?p) \<le> key (a ! j)" if "j < length a" "0 < j" "(j - 1) div 2 = i" for j
      using 1(3) that True by (simp add: heap_but_up_def)
    have "heap_but_up key ?p (swap i ?p a)" unfolding heap_but_up_def length_swap
    proof (intro conjI allI impI)
      fix j assume j: "j < length a" "0 < j" "j \<noteq> ?p"
      have q: "(j - 1) div 2 < length a" using j by linarith
      show "key (swap i ?p a ! ((j - 1) div 2)) \<le> key (swap i ?p a ! j)"
        using j True p q 1(2) edge [of j] grand [of j] by (auto simp: nth_swap)
    next
      fix j assume j: "j < length a" "0 < j" "0 < ?p" "(j - 1) div 2 = ?p"
      have q: "(?p - 1) div 2 < ?p" using j(3) by linarith
      have e: "key (a ! ((?p - 1) div 2)) \<le> key (a ! ?p)" using edge [of ?p] j(3) p by simp
      show "key (swap i ?p a ! ((?p - 1) div 2)) \<le> key (swap i ?p a ! j)"
        using j p q e edge [of j] 1(2) by (auto simp: nth_swap)
    qed
    with 1(1) True p 1(2) show ?thesis by (subst sift_up.simps) simp
  qed
qed

definition heap_but_down :: "('a \<Rightarrow> 'k::linorder) \<Rightarrow> nat \<Rightarrow> 'a list \<Rightarrow> bool" where
  "heap_but_down key i a \<longleftrightarrow>
     (\<forall>j < length a. 0 < j \<longrightarrow> (j - 1) div 2 \<noteq> i \<longrightarrow> key (a ! ((j - 1) div 2)) \<le> key (a ! j)) \<and>
     (\<forall>j < length a. 0 < j \<longrightarrow> 0 < i \<longrightarrow> (j - 1) div 2 = i \<longrightarrow> key (a ! ((i - 1) div 2)) \<le> key (a ! j))"

lemma child_cases: "0 < j \<Longrightarrow> (j - 1) div 2 = i \<longleftrightarrow> j = 2 * i + 1 \<or> j = 2 * i + (2 :: nat)"
  by presburger

lemma min_child_le:
  assumes "j < length a" and "0 < j" and "(j - 1) div 2 = i"
  shows "key (a ! min_child key i a) \<le> key (a ! j)"
proof -
  have "j = 2 * i + 1 \<or> j = 2 * i + 2" using assms child_cases by blast
  then show ?thesis using assms(1) by (elim disjE) (auto simp: min_child_def)
qed

lemma sift_down_heap: "i < length a \<Longrightarrow> heap_but_down key i a \<Longrightarrow> is_heap key (sift_down key i a)"
proof (induction key i a rule: sift_down.induct)
  case (1 key i a)
  let ?c = "min_child key i a"
  show ?case
  proof (cases "2 * i + 1 < length a \<and> key (a ! ?c) < key (a ! i)")
    case False
    have "key (a ! i) \<le> key (a ! j)" if "j < length a" "0 < j" "(j - 1) div 2 = i" for j
      using False that min_child_le [of j a i key] by (auto simp: child_cases)
    with 1(3) False show ?thesis by (subst sift_down.simps) (auto simp: heap_but_down_def is_heap_def)
  next
    case True
    have c: "i < ?c" "?c < length a" using True min_child_bounds [of i key a] by auto
    have pc: "(?c - 1) div 2 = i" by (simp add: min_child_def)
    have edge: "key (a ! ((j - 1) div 2)) \<le> key (a ! j)" if "j < length a" "0 < j" "(j - 1) div 2 \<noteq> i" for j
      using 1(3) that by (simp add: heap_but_down_def)
    have grand: "key (a ! ((i - 1) div 2)) \<le> key (a ! j)" if "j < length a" "0 < j" "0 < i" "(j - 1) div 2 = i" for j
      using 1(3) that by (simp add: heap_but_down_def)
    have "heap_but_down key ?c (swap i ?c a)" unfolding heap_but_down_def length_swap
    proof (intro conjI allI impI)
      fix j assume j: "j < length a" "0 < j" "(j - 1) div 2 \<noteq> ?c"
      have q: "(j - 1) div 2 < length a" "(j - 1) div 2 < j" using j by linarith+
      show "key (swap i ?c a ! ((j - 1) div 2)) \<le> key (swap i ?c a ! j)"
      proof (cases "(j - 1) div 2 = i")
        case True
        then show ?thesis using j c q \<open>2 * i + 1 < length a \<and> key (a ! ?c) < key (a ! i)\<close>
            min_child_le [of j a i key] 1(2) by (auto simp: nth_swap)
      next
        case False
        then show ?thesis using j c q pc edge [of j] grand [of ?c] 1(2)
          by (cases "j = i") (auto simp: nth_swap)
      qed
    next
      fix j assume j: "j < length a" "0 < j" "0 < ?c" "(j - 1) div 2 = ?c"
      have "?c < j" using j(2,4) by linarith
      then show "key (swap i ?c a ! ((?c - 1) div 2)) \<le> key (swap i ?c a ! j)"
        using j c pc edge [of j] 1(2) by (auto simp: nth_swap)
    qed
    with 1(1) True c show ?thesis by (subst sift_down.simps) simp
  qed
qed

lemma heap_front: "is_heap key a \<Longrightarrow> j < length a \<Longrightarrow> key (a ! 0) \<le> key (a ! j)"
proof (induction j rule: less_induct)
  case (less j)
  show ?case
  proof (cases "j = 0")
    case False
    then have "(j - 1) div 2 < j" by linarith
    then have "key (a ! 0) \<le> key (a ! ((j - 1) div 2))" using less by simp
    also have "\<dots> \<le> key (a ! j)" using less.prems False by (simp add: is_heap_def)
    finally show ?thesis .
  qed simp
qed

subsection \<open>The contract\<close>

locale min_heap =
  fixes key :: "'a \<Rightarrow> 'k::linorder"
    and push :: "'a \<Rightarrow> 'a list \<Rightarrow> 'a list"
    and pop :: "'a list \<Rightarrow> 'a list"
    and ok :: "'a list \<Rightarrow> bool"
  assumes push_ok: "ok a \<Longrightarrow> ok (push x a)"
    and push_mset: "ok a \<Longrightarrow> mset (push x a) = add_mset x (mset a)"
    and pop_ok: "ok a \<Longrightarrow> a \<noteq> [] \<Longrightarrow> ok (pop a)"
    and pop_mset: "ok a \<Longrightarrow> a \<noteq> [] \<Longrightarrow> mset a = add_mset (hd a) (mset (pop a))"
    and hd_least: "ok a \<Longrightarrow> x \<in> set a \<Longrightarrow> key (hd a) \<le> key x"
begin

lemma pop_length: "ok a \<Longrightarrow> a \<noteq> [] \<Longrightarrow> length (pop a) < length a"
  using arg_cong [OF pop_mset, of a size] by simp

lemma pop_set: "ok a \<Longrightarrow> a \<noteq> [] \<Longrightarrow> set a = insert (hd a) (set (pop a))"
  using arg_cong [OF pop_mset, of a set_mset] by simp

text \<open>Popping until the front no longer satisfies a bound takes out what is below it, in order.\<close>

lemma pop_rest_above: "ok a \<Longrightarrow> \<not> key (hd a) \<le> k \<Longrightarrow> x \<in> set a \<Longrightarrow> k < key x"
  using hd_least [of a x] by simp

end

lemma push_heap_mset: "mset (push_heap key x a) = add_mset x (mset a)"
  by (simp add: push_heap_def)

lemma pop_heap_mset: "a \<noteq> [] \<Longrightarrow> mset a = add_mset (hd a) (mset (pop_heap key a))"
proof (cases a rule: rev_cases)
  case (snoc b y)
  then show ?thesis
    by (cases b) (auto simp: pop_heap_def butlast_append)
qed simp

interpretation heap: min_heap key "push_heap key" "pop_heap key" "is_heap key" for key
proof
  fix a :: "'a list" and x
  assume a: "is_heap key a"
  have "heap_but_up key (length a) (a @ [x])"
    unfolding heap_but_up_def
  proof (intro conjI allI impI)
    fix j assume j: "j < length (a @ [x])" "0 < j" "j \<noteq> length a"
    have "j < length a" using j by simp
    then have "(j - 1) div 2 < length a" by linarith
    with j show "key ((a @ [x]) ! ((j - 1) div 2)) \<le> key ((a @ [x]) ! j)"
      using a by (simp add: is_heap_def nth_append)
  next
    fix j assume j: "j < length (a @ [x])" "0 < j" "(j - 1) div 2 = length a"
    have "j \<le> length a" using j(1) by simp
    then have False using j(2,3) by linarith
    then show "key ((a @ [x]) ! ((length a - 1) div 2)) \<le> key ((a @ [x]) ! j)" ..
  qed
  then show "is_heap key (push_heap key x a)"
    by (simp add: push_heap_def sift_up_heap)
  show "mset (push_heap key x a) = add_mset x (mset a)" by (rule push_heap_mset)
next
  fix a :: "'a list" assume a: "is_heap key a" "a \<noteq> []"
  show "mset a = add_mset (hd a) (mset (pop_heap key a))" using a(2) by (rule pop_heap_mset)
  show "is_heap key (pop_heap key a)"
  proof (cases "length a \<le> 1")
    case True
    then show ?thesis by (simp add: pop_heap_def is_heap_def)
  next
    case False
    let ?b = "butlast (a[0 := last a])"
    have "heap_but_down key 0 ?b" unfolding heap_but_down_def
    proof (intro conjI allI impI)
      fix j assume j: "j < length ?b" "0 < j" "(j - 1) div 2 \<noteq> 0"
      have "(j - 1) div 2 < j" using j(2) by linarith
      with j a(1) show "key (?b ! ((j - 1) div 2)) \<le> key (?b ! j)"
        by (simp add: nth_butlast is_heap_def)
    qed simp
    then show ?thesis using False by (simp add: pop_heap_def sift_down_heap)
  qed
next
  fix a :: "'a list" and x assume "is_heap key a" "x \<in> set a"
  then show "key (hd a) \<le> key x"
    using heap_front [of key a] hd_conv_nth [of a] by (force simp: in_set_conv_nth)
qed

end
