(* ===== verification/Timer_Manager.thy ===== *)
theory Timer_Manager
  imports Binary_Heap
begin

text \<open>
  \<open>include/game/timer_manager.h\<close> and \<open>src/game/timer_manager.cpp\<close>: timers in a binary
  heap ordered by deadline, cancelled lazily. The clock is an argument (milliseconds). A callback
  is a value of type \<open>'c\<close>, and \<open>fire\<close> says what running it does to the timer manager
  and to the rest of the program, since callbacks may schedule and cancel timers themselves.
\<close>

subsection \<open>State and operations\<close>

record 'c timer =
  t_id :: u64
  deadline :: int
  callback :: "'c option"
  cancelled :: bool

record 'c timer_manager =
  next_id :: u64
  theap :: "'c timer list"

definition new_timer_manager :: "'c timer_manager" where
  "new_timer_manager = \<lparr>next_id = 1, theap = []\<rparr>"

definition Schedule :: "int \<Rightarrow> int \<Rightarrow> 'c \<Rightarrow> 'c timer_manager \<Rightarrow> u64 \<times> 'c timer_manager" where
  "Schedule now delay_ms cb m =
     (next_id m,
      m\<lparr>next_id := next_id m + 1,
        theap := push_heap deadline
          \<lparr>t_id = next_id m, deadline = now + delay_ms, callback = Some cb, cancelled = False\<rparr>
          (theap m)\<rparr>)"

fun cancel_first :: "u64 \<Rightarrow> 'c timer list \<Rightarrow> 'c timer list" where
  "cancel_first i [] = []"
| "cancel_first i (t # ts) =
     (if t_id t = i then t\<lparr>cancelled := True, callback := None\<rparr> # ts else t # cancel_first i ts)"

definition Cancel :: "u64 \<Rightarrow> 'c timer_manager \<Rightarrow> 'c timer_manager" where
  "Cancel i m = m\<lparr>theap := cancel_first i (theap m)\<rparr>"

lemma length_pop_heap: "a \<noteq> [] \<Longrightarrow> length (pop_heap key a) < length a"
  using arg_cong [OF pop_heap_mset [of a key], of size] by simp

function clean_heap :: "'c timer list \<Rightarrow> 'c timer list" where
  "clean_heap h =
     (if h \<noteq> [] \<and> cancelled (hd h) then clean_heap (pop_heap deadline h) else h)"
  by pat_completeness auto
termination by (relation "measure length") (simp_all add: length_pop_heap)

declare clean_heap.simps [simp del]

definition CleanCancelled :: "'c timer_manager \<Rightarrow> 'c timer_manager" where
  "CleanCancelled m = m\<lparr>theap := clean_heap (theap m)\<rparr>"

text \<open>
  The loop of \<open>Tick\<close>. It runs as long as the front timer is due, and callbacks can add due
  timers, so it may not end; \<open>None\<close> is a \<open>Tick\<close> that does not return.
\<close>

partial_function (option) tick_loop ::
  "('c \<Rightarrow> 'c timer_manager \<times> 's \<Rightarrow> 'c timer_manager \<times> 's) \<Rightarrow> int \<Rightarrow> nat \<Rightarrow> 'c timer_manager \<times> 's \<Rightarrow>
     (nat \<times> 'c timer_manager \<times> 's) option" where
  "tick_loop fire now fired st =
     (let m = fst st; h = theap m
      in if h \<noteq> [] \<and> deadline (hd h) \<le> now then
           (let t = hd h;
                st1 = (m\<lparr>theap := pop_heap deadline h\<rparr>, snd st)
            in case callback t of
                 Some cb \<Rightarrow>
                   if cancelled t then tick_loop fire now fired st1
                   else tick_loop fire now (fired + 1) (fire cb st1)
               | None \<Rightarrow> tick_loop fire now fired st1)
         else Some (fired, st))"

definition TimerTick ::
  "('c \<Rightarrow> 'c timer_manager \<times> 's \<Rightarrow> 'c timer_manager \<times> 's) \<Rightarrow> int \<Rightarrow> 'c timer_manager \<times> 's \<Rightarrow>
     (nat \<times> 'c timer_manager \<times> 's) option" where
  "TimerTick fire now st = tick_loop fire now 0 (CleanCancelled (fst st), snd st)"

definition PendingCount :: "'c timer_manager \<Rightarrow> nat" where
  "PendingCount m = length (theap m)"

subsection \<open>The heap of timers\<close>

definition timers_ok :: "'c timer_manager \<Rightarrow> bool" where
  "timers_ok m \<longleftrightarrow> is_heap deadline (theap m)"

lemma cancel_first_nth:
  "length (cancel_first i h) = length h"
  "j < length h \<Longrightarrow> deadline (cancel_first i h ! j) = deadline (h ! j)"
proof -
  show "length (cancel_first i h) = length h" by (induction h) auto
  show "j < length h \<Longrightarrow> deadline (cancel_first i h ! j) = deadline (h ! j)"
    by (induction h arbitrary: j) (auto simp: nth_Cons split: nat.splits)
qed

lemma timers_ok_new [simp]: "timers_ok new_timer_manager"
  by (simp add: timers_ok_def new_timer_manager_def is_heap_def)

lemma Schedule_ok: "timers_ok m \<Longrightarrow> timers_ok (snd (Schedule now d cb m))"
  by (simp add: timers_ok_def Schedule_def heap.push_ok)

lemma Cancel_ok: "timers_ok m \<Longrightarrow> timers_ok (Cancel i m)"
  by (auto simp: timers_ok_def Cancel_def is_heap_def cancel_first_nth)

lemma clean_heap_ok: "is_heap deadline h \<Longrightarrow> is_heap deadline (clean_heap h)"
  by (induction h rule: clean_heap.induct) (subst clean_heap.simps, auto simp: heap.pop_ok)

lemma CleanCancelled_ok: "timers_ok m \<Longrightarrow> timers_ok (CleanCancelled m)"
  by (simp add: timers_ok_def CleanCancelled_def clean_heap_ok)

text \<open>Only cancelled timers are cleaned out.\<close>

definition live :: "'c timer list \<Rightarrow> 'c timer multiset" where
  "live h = filter_mset (\<lambda>t. \<not> cancelled t) (mset h)"

lemma clean_heap_live: "live (clean_heap h) = live h"
proof (induction h rule: clean_heap.induct)
  case (1 h)
  show ?case
  proof (cases "h \<noteq> [] \<and> cancelled (hd h)")
    case True
    with pop_heap_mset [of h deadline] have "live h = live (pop_heap deadline h)"
      by (simp add: live_def)
    with 1 True show ?thesis by (subst clean_heap.simps) simp
  next
    case False
    then show ?thesis by (auto simp: clean_heap.simps [of h])
  qed
qed

subsection \<open>Due timers\<close>

definition due :: "int \<Rightarrow> 'c timer list \<Rightarrow> 'c timer multiset" where
  "due now h = filter_mset (\<lambda>t. deadline t \<le> now) (mset h)"

lemma due_pop:
  "h \<noteq> [] \<Longrightarrow> deadline (hd h) \<le> now \<Longrightarrow> due now h = add_mset (hd h) (due now (pop_heap deadline h))"
  by (simp add: due_def pop_heap_mset [of h deadline])

lemma due_none:
  "is_heap deadline h \<Longrightarrow> \<not> (h \<noteq> [] \<and> deadline (hd h) \<le> now) \<Longrightarrow> due now h = {#}"
  using heap.pop_rest_above [of deadline h now] by (fastforce simp: due_def filter_mset_eq_conv)


subsection \<open>The loop ends\<close>

text \<open>
  What a callback must keep for \<open>Tick\<close> to end, on states that satisfy \<open>I\<close>: the heap and
  \<open>I\<close> itself, and it may not add timers that are already due.
\<close>

definition no_new_due ::
  "('s \<Rightarrow> bool) \<Rightarrow> ('c \<Rightarrow> 'c timer_manager \<times> 's \<Rightarrow> 'c timer_manager \<times> 's) \<Rightarrow> int \<Rightarrow> bool" where
  "no_new_due I fire now \<longleftrightarrow> (\<forall>cb m s. I s \<and> timers_ok m \<longrightarrow>
     I (snd (fire cb (m, s))) \<and> timers_ok (fst (fire cb (m, s))) \<and>
     size (due now (theap (fst (fire cb (m, s))))) \<le> size (due now (theap m)))"

lemma tick_loop_ends:
  assumes "no_new_due I fire now"
  shows "timers_ok (fst st) \<Longrightarrow> I (snd st) \<Longrightarrow>
    \<exists>n st'. tick_loop fire now fired st = Some (n, st') \<and> timers_ok (fst st') \<and>
      I (snd st') \<and> due now (theap (fst st')) = {#}"
proof (induction "size (due now (theap (fst st)))" arbitrary: st fired rule: less_induct)
  case less
  obtain m s where st: "st = (m, s)" by force
  let ?h = "theap m"
  show ?case
  proof (cases "?h \<noteq> [] \<and> deadline (hd ?h) \<le> now")
    case False
    then show ?thesis using less.prems due_none [of ?h now]
      by (subst tick_loop.simps) (auto simp: st timers_ok_def)
  next
    case True
    define m1 where "m1 = m\<lparr>theap := pop_heap deadline ?h\<rparr>"
    have ok: "timers_ok m1" using less.prems True by (simp add: m1_def st timers_ok_def heap.pop_ok)
    have sz: "size (due now (theap m1)) < size (due now ?h)"
      using True due_pop [of ?h now] by (simp add: m1_def)
    have nxt: "\<exists>n st'. tick_loop fire now k (m1, s) = Some (n, st') \<and> timers_ok (fst st') \<and>
        I (snd st') \<and> due now (theap (fst st')) = {#}" for k
      using less.hyps [of "(m1, s)" k] ok sz st less.prems(2) by simp
    have fire: "\<exists>n st'. tick_loop fire now k (fire cb (m1, s)) = Some (n, st') \<and> timers_ok (fst st') \<and>
        I (snd st') \<and> due now (theap (fst st')) = {#}" for k cb
    proof -
      have f: "timers_ok (fst (fire cb (m1, s)))" "I (snd (fire cb (m1, s)))"
        "size (due now (theap (fst (fire cb (m1, s))))) \<le> size (due now (theap m1))"
        using assms ok less.prems(2) unfolding no_new_due_def by (auto simp: st)
      from less.hyps [of "fire cb (m1, s)" k] f sz st show ?thesis by simp
    qed
    have "tick_loop fire now fired st =
        (case callback (hd ?h) of
           Some cb \<Rightarrow> if cancelled (hd ?h) then tick_loop fire now fired (m1, s)
                      else tick_loop fire now (fired + 1) (fire cb (m1, s))
         | None \<Rightarrow> tick_loop fire now fired (m1, s))"
      using True by (subst tick_loop.simps) (auto simp: st m1_def Let_def split: option.split)
    then show ?thesis using nxt fire by (simp split: option.split)
  qed
qed

lemma tick_terminates_lemma:
  assumes "timers_ok m" and "I s" and "no_new_due I fire now"
  shows "\<exists>n m' s'. TimerTick fire now (m, s) = Some (n, m', s') \<and> timers_ok m' \<and> I s' \<and>
    due now (theap m') = {#}"
  using tick_loop_ends [OF assms(3), of "(CleanCancelled m, s)" 0] CleanCancelled_ok [OF assms(1)] assms(2)
  by (auto simp: TimerTick_def)

subsection \<open>What is fired\<close>

definition fires :: "int \<Rightarrow> 'c timer \<Rightarrow> bool" where
  "fires now t \<longleftrightarrow> deadline t \<le> now \<and> \<not> cancelled t \<and> callback t \<noteq> None"

text \<open>Callbacks that leave the timers alone.\<close>

definition quiet :: "('c \<Rightarrow> 's \<Rightarrow> 's) \<Rightarrow> 'c \<Rightarrow> 'c timer_manager \<times> 's \<Rightarrow> 'c timer_manager \<times> 's" where
  "quiet act cb st = (fst st, act cb (snd st))"

definition fired_by :: "int \<Rightarrow> 'c timer list \<Rightarrow> 'c timer list \<Rightarrow> bool" where
  "fired_by now ts h \<longleftrightarrow>
     mset ts = filter_mset (fires now) (mset h) \<and> sorted (map deadline ts)"

lemma tick_loop_passive:
  assumes "is_heap deadline (theap m)"
  shows "\<exists>ts h'. tick_loop (quiet act) now k (m, s) =
      Some (k + length ts, m\<lparr>theap := h'\<rparr>, fold (\<lambda>t. act (the (callback t))) ts s) \<and>
    fired_by now ts (theap m) \<and> mset h' = filter_mset (\<lambda>t. now < deadline t) (mset (theap m))"
  using assms
proof (induction "length (theap m)" arbitrary: m k s rule: less_induct)
  case less
  let ?h = "theap m" and ?t = "hd (theap m)"
  show ?case
  proof (cases "?h \<noteq> [] \<and> deadline ?t \<le> now")
    case False
    have "filter_mset (\<lambda>t. now < deadline t) (mset ?h) = mset ?h"
      "filter_mset (fires now) (mset ?h) = {#}"
      using False heap.pop_rest_above [OF less.prems, of now]
      by (fastforce simp: filter_mset_eq_conv fires_def)+
    then show ?thesis using False
      by (intro exI [of _ "[]"] exI [of _ ?h]) (subst tick_loop.simps, auto simp: fired_by_def)
  next
    case True
    define m1 where "m1 = m\<lparr>theap := pop_heap deadline ?h\<rparr>"
    have m1: "is_heap deadline (theap m1)" "length (theap m1) < length ?h"
      using less.prems True by (simp_all add: m1_def heap.pop_ok length_pop_heap)
    have h: "mset ?h = add_mset ?t (mset (theap m1))"
      using True pop_heap_mset [of ?h deadline] by (simp add: m1_def)
    have first: "fired_by now (?t # ts) ?h" if "fired_by now ts (theap m1)" "fires now ?t" for ts
    proof -
      have "deadline ?t \<le> deadline t" if "t \<in># filter_mset (fires now) (mset (theap m1))" for t
      proof -
        have "t \<in># mset ?h" using that by (simp add: h)
        then show ?thesis using heap.hd_least [OF less.prems] by simp
      qed
      moreover have "set ts = set_mset (filter_mset (fires now) (mset (theap m1)))"
        using that(1) by (simp add: fired_by_def flip: set_mset_mset)
      ultimately show ?thesis using that h by (simp add: fired_by_def)
    qed
    have skip: "fired_by now ts ?h" if "fired_by now ts (theap m1)" "\<not> fires now ?t" for ts
      using that h by (simp add: fired_by_def)
    have step: "tick_loop (quiet act) now k (m, s) =
        (if fires now ?t then tick_loop (quiet act) now (k + 1) (m1, act (the (callback ?t)) s)
         else tick_loop (quiet act) now k (m1, s))"
      using True by (subst tick_loop.simps) (auto simp: m1_def fires_def quiet_def Let_def split: option.split)
    have rest: "filter_mset (\<lambda>t. now < deadline t) (mset ?h) =
        filter_mset (\<lambda>t. now < deadline t) (mset (theap m1))"
      using True by (simp add: h)
    show ?thesis
    proof (cases "fires now ?t")
      case True
      obtain ts h' where *: "tick_loop (quiet act) now (k + 1) (m1, act (the (callback ?t)) s) =
          Some (k + 1 + length ts, m1\<lparr>theap := h'\<rparr>, fold (\<lambda>t. act (the (callback t))) ts (act (the (callback ?t)) s))"
        "fired_by now ts (theap m1)" "mset h' = filter_mset (\<lambda>t. now < deadline t) (mset (theap m1))"
        using less.hyps [OF m1(2,1)] by blast
      then show ?thesis using True step first rest
        by (intro exI [of _ "?t # ts"] exI [of _ h']) (simp add: m1_def)
    next
      case False
      obtain ts h' where *: "tick_loop (quiet act) now k (m1, s) =
          Some (k + length ts, m1\<lparr>theap := h'\<rparr>, fold (\<lambda>t. act (the (callback t))) ts s)"
        "fired_by now ts (theap m1)" "mset h' = filter_mset (\<lambda>t. now < deadline t) (mset (theap m1))"
        using less.hyps [OF m1(2,1)] by blast
      then show ?thesis using False step skip rest
        by (intro exI [of _ ts] exI [of _ h']) (simp add: m1_def)
    qed
  qed
qed


lemma fires_live: "filter_mset (fires now) (mset h) = filter_mset (fires now) (live h)"
  by (auto simp: live_def filter_filter_mset fires_def intro: filter_mset_cong)

lemma later_live: "live h' = filter_mset (\<lambda>t. now < deadline t) (live h)"
  if "mset h' = filter_mset (\<lambda>t. now < deadline t) (mset h)"
  using that by (simp add: live_def filter_filter_mset conj_commute)

lemma cancel_first_fires:
  "distinct (map t_id h) \<Longrightarrow> filter_mset (fires now) (mset (cancel_first i h)) =
     filter_mset (\<lambda>t. fires now t \<and> t_id t \<noteq> i) (mset h)"
proof (induction h)
  case (Cons t h)
  have "filter_mset (\<lambda>t. fires now t \<and> t_id t \<noteq> i) (mset h) = filter_mset (fires now) (mset h)"
    if "t_id t = i" using Cons.prems that by (intro filter_mset_cong) (force dest: image_eqI [of _ t_id, rotated])+
  moreover have "\<not> fires now (t\<lparr>cancelled := True, callback := None\<rparr>)" by (simp add: fires_def)
  ultimately show ?case using Cons by auto
qed simp

text \<open>A callback that schedules itself again.\<close>

definition reschedule ::
  "int \<Rightarrow> int \<Rightarrow> ('c \<Rightarrow> 's \<Rightarrow> 's) \<Rightarrow> 'c \<Rightarrow> 'c timer_manager \<times> 's \<Rightarrow> 'c timer_manager \<times> 's" where
  "reschedule now d act cb st = (snd (Schedule now d cb (fst st)), act cb (snd st))"

lemma reschedule_no_new_due: "0 < d \<Longrightarrow> no_new_due (\<lambda>_. True) (reschedule now d act) now"
  by (auto simp: no_new_due_def reschedule_def Schedule_ok) (simp add: Schedule_def due_def push_heap_mset)

lemma reschedule_hangs:
  assumes "tick_loop fire now k st = Some r"
  shows "fire = reschedule now d act \<Longrightarrow> d \<le> 0 \<Longrightarrow>
     timers_ok (fst st) \<Longrightarrow> \<exists>t \<in> set (theap (fst st)). fires now t \<Longrightarrow> False"
  using assms
proof (induction fire now k st r rule: tick_loop.raw_induct [rotated, consumes 1, case_names 1])
  case (1 loop fire now k st r)
  obtain m s where st: "st = (m, s)" by force
  let ?h = "theap m" and ?t = "hd (theap m)"
  define m1 where "m1 = m\<lparr>theap := pop_heap deadline ?h\<rparr>"
  from "1.prems"(4) obtain u where u: "u \<in> set ?h" "fires now u" by (auto simp: st)
  have ok: "is_heap deadline ?h" using "1.prems"(3) by (simp add: st timers_ok_def)
  have d: "?h \<noteq> []" "deadline ?t \<le> now"
    using u heap.hd_least [OF ok u(1)] by (auto simp: fires_def)
  have ok1: "timers_ok m1" using ok d by (simp add: m1_def timers_ok_def heap.pop_ok)
  have in1: "u \<in> set (theap m1)" if "u \<noteq> ?t"
    using heap.pop_set [OF ok d(1)] u(1) that by (simp add: m1_def)
  show ?case
  proof (cases "fires now ?t")
    case True
    then obtain cb where cb: "callback ?t = Some cb" "\<not> cancelled ?t" by (auto simp: fires_def)
    let ?m2 = "snd (Schedule now d cb m1)"
    have "\<exists>t \<in> set (theap ?m2). fires now t"
      using "1.prems"(2) by (simp add: Schedule_def fires_def flip: set_mset_mset) (simp add: push_heap_mset)
    moreover have "loop fire now (k + 1) (?m2, act cb s) = Some r"
      using 1(2) "1.prems"(1) d cb by (simp add: st m1_def Let_def reschedule_def)
    ultimately show ?thesis using 1(1) [of fire now "k + 1" "(?m2, act cb s)" r] "1.prems"(1,2) Schedule_ok [OF ok1]
      by simp
  next
    case False
    then have "loop fire now k (m1, s) = Some r"
      using 1(2) d by (auto simp: st m1_def Let_def fires_def split: option.splits)
    with 1(1) [of fire now k "(m1, s)" r] "1.prems"(1,2) ok1 in1 u False show ?thesis by auto
  qed
qed


subsection \<open>Properties\<close>

text \<open>
  C23. \<open>Tick\<close> returns whenever no callback adds a timer that is already due (in the states the
  callbacks keep), and then no timer is due any more.
\<close>

theorem tick_terminates:
  assumes "timers_ok m" and "I s" and "no_new_due I fire now"
  shows "\<exists>n m' s'. TimerTick fire now (m, s) = Some (n, m', s') \<and> timers_ok m' \<and>
    (\<forall>t \<in> set (theap m'). now < deadline t)"
proof -
  obtain n m' s' where "TimerTick fire now (m, s) = Some (n, m', s')" "timers_ok m'" "due now (theap m') = {#}"
    using tick_terminates_lemma [OF assms] by blast
  moreover from this(3) have "\<forall>t \<in> set (theap m'). now < deadline t"
    by (auto simp: due_def filter_mset_eq_conv not_le)
  ultimately show ?thesis by blast
qed

theorem tick_terminates_witness:
  "\<exists>n m' s'. TimerTick (reschedule 100 50 (\<lambda>(_::unit). Suc)) 100
     (snd (Schedule 0 50 () new_timer_manager), 0) = Some (n, m', s') \<and> timers_ok m'"
  using tick_terminates [OF Schedule_ok [OF timers_ok_new] TrueI
      reschedule_no_new_due [of 50 100 "\<lambda>(_::unit). Suc"], of 0 50 "()" 0] by auto

text \<open>
  C22. With callbacks that do not touch the timers, \<open>Tick\<close> runs exactly the callbacks of the due
  timers that were not cancelled, each once, in the order of their deadlines; a timer cancelled
  by its identifier is not among them, and the live timers left are those not yet due.
\<close>

theorem tick_fires_due:
  assumes "timers_ok m" and "distinct (map t_id (theap m))"
  shows "\<exists>ts m'. TimerTick (quiet act) now (Cancel i m, s) =
      Some (length ts, m', fold (\<lambda>t. act (the (callback t))) ts s) \<and>
    mset ts = filter_mset (\<lambda>t. fires now t \<and> t_id t \<noteq> i) (mset (theap m)) \<and>
    sorted (map deadline ts) \<and>
    live (theap m') = filter_mset (\<lambda>t. now < deadline t) (live (theap (Cancel i m)))"
proof -
  let ?m = "CleanCancelled (Cancel i m)"
  have "is_heap deadline (theap ?m)"
    using CleanCancelled_ok [OF Cancel_ok [OF assms(1)]] by (simp add: timers_ok_def)
  then obtain ts h' where *: "tick_loop (quiet act) now 0 (?m, s) =
      Some (length ts, ?m\<lparr>theap := h'\<rparr>, fold (\<lambda>t. act (the (callback t))) ts s)"
    "fired_by now ts (theap ?m)" "mset h' = filter_mset (\<lambda>t. now < deadline t) (mset (theap ?m))"
    using tick_loop_passive [of ?m act now 0 s] by auto
  have l: "live (theap ?m) = live (theap (Cancel i m))"
    by (simp add: CleanCancelled_def clean_heap_live)
  have "mset ts = filter_mset (fires now) (mset (theap (Cancel i m)))"
    using *(2) l by (metis fired_by_def fires_live)
  then have "mset ts = filter_mset (\<lambda>t. fires now t \<and> t_id t \<noteq> i) (mset (theap m))"
    by (simp add: Cancel_def cancel_first_fires [OF assms(2)])
  with * later_live [OF *(3)] l show ?thesis by (auto simp: TimerTick_def fired_by_def)
qed

theorem tick_fires_due_witness:
  "\<exists>(ts :: string timer list) m'. TimerTick (quiet (\<lambda>c log. log @ [c])) 100
     (Cancel 1 (snd (Schedule 0 20 ''b'' (snd (Schedule 0 30 ''a'' new_timer_manager)))), []) =
     Some (length ts, m', fold (\<lambda>t log. log @ [the (callback t)]) ts []) \<and> length ts = 1"
proof -
  let ?m = "snd (Schedule 0 20 ''b'' (snd (Schedule 0 30 ''a'' new_timer_manager)))"
  have h: "theap ?m = [\<lparr>t_id = 2, deadline = 20, callback = Some ''b'', cancelled = False\<rparr>,
      \<lparr>t_id = 1, deadline = 30, callback = Some ''a'', cancelled = False\<rparr>]"
    by (simp add: Schedule_def new_timer_manager_def push_heap_def sift_up.simps swap_def)
  have "timers_ok ?m" by (intro Schedule_ok timers_ok_new)
  from tick_fires_due [OF this, of "\<lambda>c log. log @ [c]" 100 1 "[]"] h
  obtain ts m' where *: "TimerTick (quiet (\<lambda>c log. log @ [c])) 100 (Cancel 1 ?m, []) =
      Some (length ts, m', fold (\<lambda>t log. log @ [the (callback t)]) ts [])"
    "mset ts = filter_mset (\<lambda>t. fires 100 t \<and> t_id t \<noteq> 1) (mset (theap ?m))" by auto
  from *(2) have "size (mset ts) = 1" by (simp add: h fires_def)
  then have "length ts = 1" by simp
  with *(1) show ?thesis by blast
qed

text \<open>
  A due callback that schedules itself again with no delay never lets \<open>Tick\<close> return: the
  clock is read once, so the new timer is due in the same call.
\<close>

lemma zero_delay_tick_hangs:
  assumes "timers_ok m" and "d \<le> 0" and "\<exists>t \<in> set (theap m). fires now t"
  shows "TimerTick (reschedule now d act) now (m, s) = None"
proof -
  obtain t where t: "t \<in> set (theap m)" "fires now t" using assms(3) by blast
  then have "t \<in># filter_mset (fires now) (live (theap (CleanCancelled m)))"
    by (simp add: CleanCancelled_def clean_heap_live flip: fires_live)
  then have "\<exists>t \<in> set (theap (CleanCancelled m)). fires now t" by (auto simp: live_def)
  then have "tick_loop (reschedule now d act) now 0 (CleanCancelled m, s) \<noteq> Some r" for r
    using reschedule_hangs [of "reschedule now d act" now 0 "(CleanCancelled m, s)" r d act]
      assms(2) CleanCancelled_ok [OF assms(1)] by auto
  then show ?thesis unfolding TimerTick_def fst_conv snd_conv by (metis not_Some_eq)
qed

lemma zero_delay_tick_hangs_witness:
  "TimerTick (reschedule 5 0 (\<lambda>(_::unit). Suc)) 5 (snd (Schedule 0 5 () new_timer_manager), 0) = None"
proof (rule zero_delay_tick_hangs)
  show "timers_ok (snd (Schedule 0 5 () new_timer_manager))" by (intro Schedule_ok timers_ok_new)
  show "\<exists>t \<in> set (theap (snd (Schedule 0 5 () new_timer_manager))). fires 5 t"
    by (simp add: Schedule_def new_timer_manager_def push_heap_def sift_up.simps fires_def)
qed simp

end
