(* ===== verification/Ordered_Window.thy ===== *)
theory Ordered_Window
  imports Rpc_Prelude
begin

text \<open>
  The container that \<open>src/game/input_buffer.cpp\<close> and \<open>src/game/snapshot_manager.cpp\<close>
  both build on a \<open>std::deque\<close> sorted by frame number: \<open>std::lower_bound\<close>, insertion
  at an iterator or update in place, and dropping the oldest entries over the capacity. The locale
  \<open>frame_window\<close> states what such a window promises; both components interpret it.
\<close>

subsection \<open>The container operations\<close>

text \<open>
  \<open>std::lower_bound(b, e, k, less)\<close> returns the first element that is not less than \<open>k\<close>.
\<close>

definition lower_bound :: "('e \<Rightarrow> 'k::linorder) \<Rightarrow> 'k \<Rightarrow> 'e list \<Rightarrow> nat" where
  "lower_bound key k w = length (takeWhile (\<lambda>e. key e < k) w)"

definition found_at :: "('e \<Rightarrow> 'k::linorder) \<Rightarrow> 'k \<Rightarrow> nat \<Rightarrow> 'e list \<Rightarrow> bool" where
  "found_at key k i w \<longleftrightarrow> i < length w \<and> key (w ! i) = k"

definition insert_at :: "nat \<Rightarrow> 'e \<Rightarrow> 'e list \<Rightarrow> 'e list" where
  "insert_at i e w = take i w @ e # drop i w"

definition erase_at :: "nat \<Rightarrow> 'e list \<Rightarrow> 'e list" where
  "erase_at i w = take i w @ drop (Suc i) w"

text \<open>\<open>while (size() > cap) pop_front();\<close>\<close>

fun trim_front :: "nat \<Rightarrow> 'e list \<Rightarrow> 'e list" where
  "trim_front cap w = (if cap < length w then trim_front cap (tl w) else w)"

declare trim_front.simps [simp del]

lemma trim_front_drop [queue_simps]: "trim_front cap w = drop (length w - cap) w"
proof (induction w)
  case (Cons e w)
  then show ?case by (simp add: trim_front.simps [of cap "e # w"] Suc_diff_le)
qed (simp add: trim_front.simps)

definition find_at :: "('e \<Rightarrow> 'k::linorder) \<Rightarrow> 'k \<Rightarrow> 'e list \<Rightarrow> nat option" where
  "find_at key k w =
     (let i = lower_bound key k w in if found_at key k i w then Some i else None)"

definition upsert :: "('e \<Rightarrow> 'k::linorder) \<Rightarrow> 'k \<Rightarrow> ('e \<Rightarrow> 'e) \<Rightarrow> 'e \<Rightarrow> 'e list \<Rightarrow> 'e list" where
  "upsert key k f e w =
     (let i = lower_bound key k w in
      if found_at key k i w then w[i := f (w ! i)] else insert_at i e w)"

subsection \<open>Recursive characterisations\<close>

lemma lower_bound_simps [queue_simps]:
  "lower_bound key k [] = 0"
  "lower_bound key k (e # w) = (if key e < k then Suc (lower_bound key k w) else 0)"
  by (simp_all add: lower_bound_def)

lemma found_at_simps [queue_simps]:
  "found_at key k i [] = False"
  "found_at key k 0 (e # w) = (key e = k)"
  "found_at key k (Suc i) (e # w) = found_at key k i w"
  by (simp_all add: found_at_def)

lemma at_simps [queue_simps]:
  "insert_at 0 e w = e # w" "insert_at (Suc i) e (x # w) = x # insert_at i e w"
  "erase_at 0 (x # w) = w" "erase_at (Suc i) (x # w) = x # erase_at i w"
  by (simp_all add: insert_at_def erase_at_def)

lemma upsert_simps [queue_simps]:
  "upsert key k f e [] = [e]"
  "upsert key k f e (x # w) =
     (if key x < k then x # upsert key k f e w else if key x = k then f x # w else e # x # w)"
  by (simp_all add: upsert_def Let_def queue_simps)

lemma find_at_simps [queue_simps]:
  "find_at key k [] = None"
  "find_at key k (x # w) =
     (if key x < k then map_option Suc (find_at key k w) else if key x = k then Some 0 else None)"
  by (simp_all add: find_at_def Let_def queue_simps)

definition sorted_window :: "('e \<Rightarrow> 'k::linorder) \<Rightarrow> 'e list \<Rightarrow> bool" where
  "sorted_window key w \<longleftrightarrow> sorted_wrt (<) (map key w)"

lemma sorted_window_simps [simp]:
  "sorted_window key []"
  "sorted_window key (e # w) \<longleftrightarrow> (\<forall>x \<in> set w. key e < key x) \<and> sorted_window key w"
  by (auto simp: sorted_window_def)

text \<open>What a window holds for a key.\<close>

definition window_map :: "('e \<Rightarrow> 'k) \<Rightarrow> 'e list \<Rightarrow> 'k \<Rightarrow> 'e option" where
  "window_map key w k = find (\<lambda>e. key e = k) w"

lemma window_map_simps [simp]:
  "window_map key [] k = None"
  "window_map key (e # w) k = (if key e = k then Some e else window_map key w k)"
  by (simp_all add: window_map_def)

lemma window_map_None: "window_map key w k = None \<longleftrightarrow> k \<notin> key ` set w"
  by (induction w) auto

lemma window_map_append:
  "window_map key (u @ w) k = (case window_map key u k of None \<Rightarrow> window_map key w k | Some e \<Rightarrow> Some e)"
  by (induction u) auto

lemma find_at_map:
  "sorted_window key w \<Longrightarrow>
     window_map key w k = map_option (\<lambda>i. w ! i) (find_at key k w)"
proof (induction w)
  case (Cons e w)
  have "window_map key w k = None" if "\<not> key e < k" "key e \<noteq> k"
    using Cons.prems that by (auto simp: window_map_None)
  with Cons show ?case
    by (auto simp: find_at_simps option.map_comp comp_def)
qed (simp add: queue_simps)

lemma find_at_bound: "find_at key k w = Some i \<Longrightarrow> i < length w \<and> key (w ! i) = k"
  by (auto simp: find_at_def found_at_def Let_def split: if_splits)

subsection \<open>Insertion\<close>

lemma upsert_set:
  assumes "\<And>x. key (f x) = key x" and "key e = k"
  shows "key ` set (upsert key k f e w) = insert k (key ` set w)"
  by (induction w) (auto simp: upsert_simps assms)

lemma upsert_sorted:
  assumes "\<And>x. key (f x) = key x" and "key e = k"
  shows "sorted_window key w \<Longrightarrow> sorted_window key (upsert key k f e w)"
proof (induction w)
  case (Cons x w)
  have "key y = k \<or> key y \<in> key ` set w" if "y \<in> set (upsert key k f e w)" for y
    using upsert_set [of key f e k w] assms that by blast
  then have "key x < key y" if "key x < k" "y \<in> set (upsert key k f e w)" for y
    using Cons.prems that by fastforce
  then show ?case using Cons assms by (auto simp: upsert_simps)
qed (simp add: upsert_simps)

lemma upsert_map:
  assumes "\<And>x. key (f x) = key x" and "key e = k" and "sorted_window key w"
  shows "window_map key (upsert key k f e w) =
    (window_map key w)(k \<mapsto> (case window_map key w k of None \<Rightarrow> e | Some x \<Rightarrow> f x))"
  using assms(3)
proof (induction w)
  case (Cons x w)
  have "window_map key w k = None" if "\<not> key x < k"
    using Cons.prems that by (auto simp: window_map_None)
  with Cons show ?case
    by (auto simp: upsert_simps fun_eq_iff assms(1,2))
qed (simp add: upsert_simps fun_eq_iff assms(2))

lemma sorted_window_drop: "sorted_window key w \<Longrightarrow> sorted_window key (drop n w)"
  by (simp add: sorted_window_def sorted_wrt_drop flip: drop_map)

lemma sorted_window_trim: "sorted_window key w \<Longrightarrow> sorted_window key (trim_front c w)"
  by (simp add: trim_front_drop sorted_window_drop)

lemma length_trim [simp]: "length (trim_front c w) = min c (length w)"
  by (simp add: trim_front_drop min_def)

lemma trim_map:
  assumes "sorted_window key w" and "k \<in> key ` set (trim_front c w)"
  shows "window_map key (trim_front c w) k = window_map key w k"
proof -
  let ?n = "length w - c"
  have "sorted_wrt (<) (map key (take ?n w) @ map key (drop ?n w))"
    using assms(1) by (simp add: sorted_window_def flip: map_append)
  then have "\<forall>x \<in> set (take ?n w). \<forall>y \<in> set (drop ?n w). key x < key y"
    by (auto simp: sorted_wrt_append)
  with assms(2) have "window_map key (take ?n w) k = None"
    by (fastforce simp: window_map_None trim_front_drop)
  then show ?thesis
    using window_map_append [of key "take ?n w" "drop ?n w" k] by (simp add: trim_front_drop)
qed

text \<open>
  The keys of a trimmed window: the ones that have fewer than \<open>c\<close> larger ones.
\<close>

definition newest :: "nat \<Rightarrow> 'k::linorder set \<Rightarrow> 'k set" where
  "newest c K = {k \<in> K. card {j \<in> K. k < j} < c}"

lemma newest_subset: "newest c K \<subseteq> K"
  by (auto simp: newest_def)

lemma larger_sorted:
  "sorted_window key (u @ x # v) \<Longrightarrow> {j \<in> key ` set (u @ x # v). key x < j} = key ` set v"
  by (fastforce simp: sorted_window_def sorted_wrt_append)

lemma card_sorted_window: "sorted_window key w \<Longrightarrow> card (key ` set w) = length w"
proof -
  assume "sorted_window key w"
  then have "distinct (map key w)" by (simp add: sorted_window_def strict_sorted_iff)
  from distinct_card [OF this] show ?thesis by simp
qed

lemma trim_newest:
  assumes "sorted_window key w"
  shows "key ` set (trim_front c w) = newest c (key ` set w)"
proof (rule set_eqI)
  fix k
  have pos: "k \<in> newest c (key ` set w) \<longleftrightarrow> length v < c" if "w = u @ x # v" "key x = k" for u x v
  proof -
    have "sorted_window key v"
      using assms that(1) sorted_window_drop [of key w "length u + 1"] by simp
    then have "card {j \<in> key ` set w. k < j} = length v"
      using larger_sorted [of key u x v] assms that card_sorted_window [of key v] by simp
    moreover have "k \<in> key ` set w" using that by force
    ultimately show ?thesis by (simp add: newest_def)
  qed
  show "k \<in> key ` set (trim_front c w) \<longleftrightarrow> k \<in> newest c (key ` set w)"
  proof (cases "k \<in> key ` set w")
    case True
    then obtain x where "x \<in> set w" "key x = k" by blast
    then obtain u v where w: "w = u @ x # v" by (meson split_list)
    have "k \<in> key ` set (trim_front c w) \<longleftrightarrow> length v < c"
    proof
      assume "length v < c"
      then have "length w - c \<le> length u" using w by simp
      then have "x \<in> set (drop (length w - c) w)" using w by simp
      with \<open>key x = k\<close> show "k \<in> key ` set (trim_front c w)" by (auto simp: trim_front_drop)
    next
      assume "k \<in> key ` set (trim_front c w)"
      then obtain y where y: "y \<in> set (drop (length w - c) w)" "key y = k"
        by (auto simp: trim_front_drop)
      have "distinct (map key w)" using assms by (simp add: sorted_window_def strict_sorted_iff)
      with w y \<open>key x = k\<close> have "y \<notin> set v" "y \<in> set w" by (force dest: in_set_dropD)+
      show "length v < c"
      proof (rule ccontr)
        assume "\<not> length v < c"
        then have "drop (length w - c) w = drop (length v - c) v" using w by (simp add: Suc_diff_le)
        then have "set (drop (length w - c) w) \<subseteq> set v" by (simp add: set_drop_subset)
        with y(1) \<open>y \<notin> set v\<close> show False by blast
      qed
    qed
    with pos [OF w \<open>key x = k\<close>] show ?thesis by simp
  next
    case False
    then show ?thesis using newest_subset [of c "key ` set w"]
      by (auto simp: trim_front_drop dest: in_set_dropD)
  qed
qed


lemma card_newest: "finite K \<Longrightarrow> card (newest c K) = min c (card K)"
proof -
  assume "finite K"
  let ?w = "sorted_list_of_set K"
  have s: "sorted_window id ?w" by (simp add: sorted_window_def)
  have "newest c K = id ` set (trim_front c ?w)"
    using trim_newest [OF s, of c] \<open>finite K\<close> by simp
  then show ?thesis
    using card_sorted_window [OF sorted_window_trim [OF s, of c]] by simp
qed

lemma newest_mono: "finite K \<Longrightarrow> k \<in> K \<Longrightarrow> k \<in> newest c (insert j K) \<Longrightarrow> k \<in> newest c K"
proof -
  assume K: "finite K" "k \<in> K" "k \<in> newest c (insert j K)"
  have "card {i \<in> K. k < i} \<le> card {i \<in> insert j K. k < i}"
    using K(1) by (intro card_mono) auto
  with K show ?thesis by (simp add: newest_def)
qed

lemma newest_insert_newest:
  assumes K: "finite K"
  shows "newest c (insert k (newest c K)) = newest c (insert k K)"
proof (intro set_eqI iffI)
  fix x assume x: "x \<in> newest c (insert k K)"
  then have "x \<in> insert k (newest c K)"
    using newest_mono [OF K, of x c k] by (auto simp: newest_def)
  moreover have "card {j \<in> insert k (newest c K). x < j} \<le> card {j \<in> insert k K. x < j}"
    using K newest_subset [of c K] by (intro card_mono) auto
  ultimately show "x \<in> newest c (insert k (newest c K))"
    using x by (simp add: newest_def)
next
  fix x assume x: "x \<in> newest c (insert k (newest c K))"
  define T where "T = {j \<in> insert k K. x < j}"
  have T: "finite T" using K by (simp add: T_def)
  have "newest c T \<subseteq> {j \<in> insert k (newest c K). x < j}"
  proof
    fix j assume j: "j \<in> newest c T"
    have "finite {i \<in> T. j < i}" using T by simp
    moreover have "{i \<in> K. j < i} \<subseteq> {i \<in> T. j < i}" using j by (auto simp: newest_def T_def)
    ultimately have "card {i \<in> K. j < i} \<le> card {i \<in> T. j < i}" by (rule card_mono)
    with j show "j \<in> {j \<in> insert k (newest c K). x < j}" by (auto simp: newest_def T_def)
  qed
  then have "card (newest c T) \<le> card {j \<in> insert k (newest c K). x < j}"
    using K finite_subset [OF newest_subset K, of c] by (intro card_mono) simp_all
  moreover have "card {j \<in> insert k (newest c K). x < j} < c" using x by (simp add: newest_def)
  ultimately have "card T < c" by (simp add: card_newest [OF T])
  with x newest_subset [of c K] show "x \<in> newest c (insert k K)"
    by (auto simp: newest_def T_def)
qed

subsection \<open>The contract of a window\<close>

text \<open>
  \<open>put p\<close> stores something under the key \<open>put_key p\<close>, built by \<open>entry\<close> from the
  entry already there. What the laws promise: the entries stay sorted, the keys kept are the
  \<open>cap\<close> largest, and no other entry is touched.
\<close>

locale frame_window =
  fixes key :: "'e \<Rightarrow> 'k::linorder"
    and cap :: nat
    and put_key :: "'p \<Rightarrow> 'k"
    and entry :: "'p \<Rightarrow> 'e option \<Rightarrow> 'e"
    and put :: "'p \<Rightarrow> 'e list \<Rightarrow> 'e list"
  assumes put_sorted: "sorted_window key w \<Longrightarrow> sorted_window key (put p w)"
    and put_keys: "sorted_window key w \<Longrightarrow>
      key ` set (put p w) = newest cap (insert (put_key p) (key ` set w))"
    and put_map: "sorted_window key w \<Longrightarrow> k \<in> key ` set (put p w) \<Longrightarrow>
      window_map key (put p w) k =
        (if k = put_key p then Some (entry p (window_map key w k)) else window_map key w k)"
begin

lemma puts_sorted: "sorted_window key (fold put ps [])"
  by (induction ps rule: rev_induct) (simp_all add: put_sorted)

lemma puts_keys: "key ` set (fold put ps []) = newest cap (put_key ` set ps)"
proof (induction ps rule: rev_induct)
  case (snoc p ps)
  then show ?case
    using put_keys [OF puts_sorted, of p ps] newest_insert_newest [of "put_key ` set ps" cap "put_key p"]
    by simp
qed (simp add: newest_def)

lemma puts_map:
  "k \<in> newest cap (put_key ` set ps) \<Longrightarrow>
     window_map key (fold put ps []) k =
       fold (\<lambda>p x. if put_key p = k then Some (entry p x) else x) ps None"
proof (induction ps rule: rev_induct)
  case Nil
  then show ?case by (simp add: newest_def)
next
  case (snoc p ps)
  let ?w = "fold put ps []"
  have w: "window_map key (fold put (ps @ [p]) []) k =
      (if k = put_key p then Some (entry p (window_map key ?w k)) else window_map key ?w k)"
    using put_map [OF puts_sorted, of k p ps] puts_keys [of "ps @ [p]"] snoc.prems by simp
  show ?case
  proof (cases "k \<in> put_key ` set ps")
    case True
    then have "k \<in> newest cap (put_key ` set ps)"
      using snoc.prems newest_mono [of "put_key ` set ps" k cap "put_key p"] by simp
    from snoc.IH [OF this] show ?thesis using w by simp
  next
    case False
    have "fold (\<lambda>p x. if put_key p = k then Some (entry p x) else x) ps z = z" for z
      using False by (induction ps arbitrary: z) auto
    moreover have "window_map key ?w k = None"
      using False puts_keys [of ps] newest_subset [of cap "put_key ` set ps"]
      by (auto simp: window_map_None)
    ultimately show ?thesis using w by simp
  qed
qed

lemma puts_evicted: "k \<notin> newest cap (put_key ` set ps) \<Longrightarrow> window_map key (fold put ps []) k = None"
  by (simp add: window_map_None puts_keys)

lemma puts_length: "length (fold put ps []) = min cap (card (put_key ` set ps))"
  using card_sorted_window [OF puts_sorted, of ps] puts_keys [of ps] card_newest [of "put_key ` set ps" cap]
  by simp

end

text \<open>Inserting or updating in place and then trimming satisfies the contract.\<close>

lemma upsert_trim_window:
  assumes f: "\<And>p x. key (f p x) = key x" and e: "\<And>p. key (e p) = put_key p"
  shows "frame_window key cap put_key (\<lambda>p x. case x of None \<Rightarrow> e p | Some y \<Rightarrow> f p y)
    (\<lambda>p w. trim_front cap (upsert key (put_key p) (f p) (e p) w))"
proof
  fix w p assume w: "sorted_window key w"
  note s = upsert_sorted [of key "f p", OF f e w]
  show "sorted_window key (trim_front cap (upsert key (put_key p) (f p) (e p) w))"
    by (rule sorted_window_trim [OF s])
  show "key ` set (trim_front cap (upsert key (put_key p) (f p) (e p) w)) =
      newest cap (insert (put_key p) (key ` set w))"
    by (simp add: trim_newest [OF s] upsert_set [of key "f p", OF f e])
  fix k assume "k \<in> key ` set (trim_front cap (upsert key (put_key p) (f p) (e p) w))"
  then show "window_map key (trim_front cap (upsert key (put_key p) (f p) (e p) w)) k =
      (if k = put_key p
       then Some (case window_map key w k of None \<Rightarrow> e p | Some y \<Rightarrow> f p y)
       else window_map key w k)"
    by (simp add: trim_map [OF s] upsert_map [of key "f p", OF f e w] cong: option.case_cong)
qed

end
