(* ===== verification/Input_Buffer.thy ===== *)
theory Input_Buffer
  imports Ordered_Window
begin

text \<open>
  \<open>include/game/input_buffer.h\<close> and \<open>src/game/input_buffer.cpp\<close>: the players' inputs of
  the most recent frames, sorted by frame number. The inputs of one frame are an
  \<open>unordered_map\<close>, kept as its association list.
\<close>

subsection \<open>State and operations\<close>

record frame_input =
  fi_no :: u32
  fi_players :: "(string \<times> bytes) list"

record input_buffer =
  ib_frames :: "frame_input list"
  max_frames :: nat

definition new_input_buffer :: "nat \<Rightarrow> input_buffer" where
  "new_input_buffer n = \<lparr>ib_frames = [], max_frames = n\<rparr>"

definition FindFrame :: "u32 \<Rightarrow> input_buffer \<Rightarrow> nat option" where
  "FindFrame no b = find_at fi_no no (ib_frames b)"

definition set_input :: "string \<Rightarrow> bytes \<Rightarrow> frame_input \<Rightarrow> frame_input" where
  "set_input pid inp fi = fi\<lparr>fi_players := AList.update pid inp (fi_players fi)\<rparr>"

definition new_frame_input :: "u32 \<Rightarrow> string \<Rightarrow> bytes \<Rightarrow> frame_input" where
  "new_frame_input no pid inp = \<lparr>fi_no = no, fi_players = AList.update pid inp []\<rparr>"

definition AddInput :: "u32 \<Rightarrow> string \<Rightarrow> bytes \<Rightarrow> input_buffer \<Rightarrow> input_buffer" where
  "AddInput no pid inp b =
     b\<lparr>ib_frames := trim_front (max_frames b)
         (upsert fi_no no (set_input pid inp) (new_frame_input no pid inp) (ib_frames b))\<rparr>"

definition GetInput :: "u32 \<Rightarrow> input_buffer \<Rightarrow> (string \<times> bytes) list \<times> input_buffer" where
  "GetInput no b =
     (case FindFrame no b of
        None \<Rightarrow> ([], b)
      | Some i \<Rightarrow> (fi_players (ib_frames b ! i), b\<lparr>ib_frames := erase_at i (ib_frames b)\<rparr>))"

fun clear_front :: "u32 \<Rightarrow> frame_input list \<Rightarrow> frame_input list" where
  "clear_front no [] = []"
| "clear_front no (fi # fis) = (if fi_no fi < no then clear_front no fis else fi # fis)"

definition ClearUpTo :: "u32 \<Rightarrow> input_buffer \<Rightarrow> input_buffer" where
  "ClearUpTo no b = b\<lparr>ib_frames := clear_front no (ib_frames b)\<rparr>"

definition ClearInputs :: "input_buffer \<Rightarrow> input_buffer" where
  "ClearInputs b = b\<lparr>ib_frames := []\<rparr>"

subsection \<open>The invariant\<close>

definition input_buffer_ok :: "input_buffer \<Rightarrow> bool" where
  "input_buffer_ok b \<longleftrightarrow> sorted_window fi_no (ib_frames b) \<and> length (ib_frames b) \<le> max_frames b"

lemma input_entry [simp]:
  "fi_no (set_input pid inp fi) = fi_no fi" "fi_no (new_frame_input no pid inp) = no"
  by (simp_all add: set_input_def new_frame_input_def)

text \<open>
  The arguments of one \<open>AddInput\<close> are a triple; \<open>add_frames\<close> is its effect on the deque.
\<close>

fun add_frames :: "nat \<Rightarrow> u32 \<times> string \<times> bytes \<Rightarrow> frame_input list \<Rightarrow> frame_input list" where
  "add_frames cap (no, pid, inp) w =
     trim_front cap (upsert fi_no no (set_input pid inp) (new_frame_input no pid inp) w)"

fun input_entry_of :: "u32 \<times> string \<times> bytes \<Rightarrow> frame_input option \<Rightarrow> frame_input" where
  "input_entry_of (no, pid, inp) x =
     (case x of None \<Rightarrow> new_frame_input no pid inp | Some fi \<Rightarrow> set_input pid inp fi)"

interpretation input_window: frame_window fi_no cap fst input_entry_of "add_frames cap"
  for cap
proof -
  have "frame_window fi_no cap fst
      (\<lambda>p x. case x of None \<Rightarrow> (case p of (no, pid, inp) \<Rightarrow> new_frame_input no pid inp)
                | Some y \<Rightarrow> (case p of (no, pid, inp) \<Rightarrow> set_input pid inp) y)
      (\<lambda>p w. trim_front cap (upsert fi_no (fst p)
         (case p of (no, pid, inp) \<Rightarrow> set_input pid inp)
         (case p of (no, pid, inp) \<Rightarrow> new_frame_input no pid inp) w))"
    by (rule upsert_trim_window) auto
  moreover have "(\<lambda>p x. case x of None \<Rightarrow> (case p of (no, pid, inp) \<Rightarrow> new_frame_input no pid inp)
      | Some y \<Rightarrow> (case p of (no, pid, inp) \<Rightarrow> set_input pid inp) y) = input_entry_of"
    by (auto simp: fun_eq_iff split: option.split)
  moreover have "(\<lambda>p w. trim_front cap (upsert fi_no (fst p)
         (case p of (no, pid, inp) \<Rightarrow> set_input pid inp)
         (case p of (no, pid, inp) \<Rightarrow> new_frame_input no pid inp) w)) = add_frames cap"
    by (auto simp: fun_eq_iff)
  ultimately show "frame_window fi_no cap fst input_entry_of (add_frames cap)" by simp
qed

lemma clear_front_dropWhile [queue_simps]: "clear_front no w = dropWhile (\<lambda>fi. fi_no fi < no) w"
  by (induction w) simp_all

lemma erase_at_set: "set (erase_at i w) \<subseteq> set w"
  by (auto simp: erase_at_def dest: in_set_takeD in_set_dropD)

lemma erase_at_length: "length (erase_at i w) \<le> length w"
  by (simp add: erase_at_def)

lemma erase_at_nil [simp]: "erase_at i [] = []"
  by (simp add: erase_at_def)

lemma erase_at_sorted: "sorted_window key w \<Longrightarrow> sorted_window key (erase_at i w)"
proof (induction w arbitrary: i)
  case (Cons x w)
  then show ?case using erase_at_set [of "i - 1" w] by (cases i) (auto simp: queue_simps)
qed simp

lemma erase_at_map:
  "sorted_window key w \<Longrightarrow> i < length w \<Longrightarrow>
     window_map key (erase_at i w) = (window_map key w)(key (w ! i) := None)"
proof (induction w arbitrary: i)
  case (Cons x w)
  show ?case
  proof (cases i)
    case 0
    have "window_map key w (key x) = None" using Cons.prems by (auto simp: window_map_None)
    with 0 show ?thesis by (auto simp: queue_simps fun_eq_iff)
  next
    case (Suc j)
    with Cons.prems have "key x < key (w ! j)" by simp
    with Cons Suc show ?thesis by (auto simp: queue_simps fun_eq_iff)
  qed
qed simp

lemma AddInput_ok: "input_buffer_ok b \<Longrightarrow> input_buffer_ok (AddInput no pid inp b)"
  by (simp add: input_buffer_ok_def AddInput_def sorted_window_trim upsert_sorted)

lemma ClearUpTo_ok: "input_buffer_ok b \<Longrightarrow> input_buffer_ok (ClearUpTo no b)"
  using length_dropWhile_le [of "\<lambda>fi. fi_no fi < no" "ib_frames b"]
  by (auto simp: input_buffer_ok_def ClearUpTo_def queue_simps dropWhile_eq_drop sorted_window_drop)


lemma GetInput_lookup:
  assumes "input_buffer_ok b"
  shows "fst (GetInput no b) =
      (case window_map fi_no (ib_frames b) no of None \<Rightarrow> [] | Some fi \<Rightarrow> fi_players fi) \<and>
    window_map fi_no (ib_frames (snd (GetInput no b))) = (window_map fi_no (ib_frames b))(no := None)"
proof -
  have s: "sorted_window fi_no (ib_frames b)" using assms by (simp add: input_buffer_ok_def)
  show ?thesis
  proof (cases "find_at fi_no no (ib_frames b)")
    case None
    then show ?thesis using find_at_map [OF s, of no] by (auto simp: GetInput_def FindFrame_def)
  next
    case (Some i)
    with find_at_bound [OF Some] show ?thesis
      using find_at_map [OF s, of no] erase_at_map [OF s, of i] by (simp add: GetInput_def FindFrame_def)
  qed
qed

lemma GetInput_ok: "input_buffer_ok b \<Longrightarrow> input_buffer_ok (snd (GetInput no b))"
  using le_trans [OF erase_at_length]
  by (auto simp: input_buffer_ok_def GetInput_def erase_at_sorted split: option.split)

lemma GetInput_consumes: "input_buffer_ok b \<Longrightarrow> fst (GetInput no (snd (GetInput no b))) = []"
  using GetInput_lookup [OF GetInput_ok, of b no no] GetInput_lookup [of b no] by simp

subsection \<open>What a frame holds\<close>

text \<open>The inputs that were added for one frame, in the order of arrival.\<close>

definition inputs_for :: "u32 \<Rightarrow> (u32 \<times> string \<times> bytes) list \<Rightarrow> (string \<times> bytes) list" where
  "inputs_for no ps = map snd (filter (\<lambda>p. fst p = no) ps)"

definition add_all :: "(u32 \<times> string \<times> bytes) list \<Rightarrow> input_buffer \<Rightarrow> input_buffer" where
  "add_all ps b = fold (\<lambda>(no, pid, inp). AddInput no pid inp) ps b"

lemma add_all_frames:
  "add_all ps b = b\<lparr>ib_frames := fold (add_frames (max_frames b)) ps (ib_frames b)\<rparr>"
  by (induction ps arbitrary: b) (auto simp: add_all_def AddInput_def)

lemma add_all_ok: "input_buffer_ok b \<Longrightarrow> input_buffer_ok (add_all ps b)"
  by (induction ps arbitrary: b) (auto simp: add_all_def intro!: AddInput_ok)

lemma map_of_updates: "map_of (fold (\<lambda>(pid, inp). AList.update pid inp) xs ys) = map_of (rev xs @ ys)"
  by (induction xs arbitrary: ys) (auto simp: update_conv' fun_eq_iff map_add_def split: option.split)

lemma frame_entries:
  "fold (\<lambda>p x. if fst p = no then Some (input_entry_of p x) else x) ps (Some \<lparr>fi_no = no, fi_players = ys\<rparr>) =
     Some \<lparr>fi_no = no, fi_players = fold (\<lambda>(pid, inp). AList.update pid inp) (inputs_for no ps) ys\<rparr>"
  by (induction ps arbitrary: ys) (auto simp: inputs_for_def set_input_def)

lemma frame_entries_None:
  "fold (\<lambda>p x. if fst p = no then Some (input_entry_of p x) else x) ps None =
     (if no \<in> fst ` set ps
      then Some \<lparr>fi_no = no, fi_players = fold (\<lambda>(pid, inp). AList.update pid inp) (inputs_for no ps) []\<rparr>
      else None)"
proof (induction ps)
  case (Cons p ps)
  obtain n pid inp where p: "p = (n, pid, inp)" by (cases p) auto
  show ?case
  proof (cases "n = no")
    case True
    then show ?thesis
      by (simp add: p new_frame_input_def frame_entries) (simp add: inputs_for_def)
  next
    case False
    with Cons.IH show ?thesis by (simp add: p) (auto simp: inputs_for_def)
  qed
qed simp

subsection \<open>Properties\<close>

text \<open>
  The jitter buffer after any sequence of arrivals: a frame number among the \<open>max_frames\<close>
  largest ever seen yields, for each player, the last input that arrived for it; every other frame
  (never seen, or evicted, also when its inputs arrive again late) yields no inputs.
\<close>

lemma input_buffer_lookup:
  "map_of (fst (GetInput no (add_all ps (new_input_buffer cap)))) =
     (if no \<in> newest cap (fst ` set ps) then map_of (rev (inputs_for no ps)) else Map.empty)"
proof -
  let ?b = "add_all ps (new_input_buffer cap)"
  have ok: "input_buffer_ok ?b"
    by (rule add_all_ok) (simp add: input_buffer_ok_def new_input_buffer_def)
  have w: "ib_frames ?b = fold (add_frames cap) ps []"
    by (simp add: add_all_frames new_input_buffer_def)
  show ?thesis
  proof (cases "no \<in> newest cap (fst ` set ps)")
    case True
    then have "no \<in> fst ` set ps" using newest_subset by blast
    with True GetInput_lookup [OF ok, of no] input_window.puts_map [of no cap ps] show ?thesis
      by (simp add: w frame_entries_None map_of_updates)
  next
    case False
    with GetInput_lookup [OF ok, of no] input_window.puts_evicted [of no cap ps] show ?thesis
      by (simp add: w)
  qed
qed

end
