(* ===== verification/Frame_Sync.thy ===== *)
theory Frame_Sync
  imports Timer_Manager Input_Buffer
begin

text \<open>
  \<open>include/game/frame_sync.h\<close> and \<open>src/game/frame_sync.cpp\<close>: the server's frame loop. A
  timer callback advances the frame, records its inputs for slow clients and schedules itself
  again. The frame callback is a flag with the list of its calls; the clock is an argument, the
  same for \<open>Tick\<close> of the timers and for the callbacks it runs.
\<close>

subsection \<open>State\<close>

record frame_record =
  fr_no :: u32
  fr_inputs :: "(string \<times> bytes) list"

record frame_sync =
  tick_interval_ms :: int
  frame_no :: u32
  running_flag :: bool
  has_frame_callback :: bool
  frame_history :: "frame_record list"
  max_history_size :: nat
  frames_sent :: "(u32 \<times> (string \<times> bytes) list) list"

definition new_frame_sync :: "int \<Rightarrow> nat \<Rightarrow> frame_sync" where
  "new_frame_sync interval history =
     \<lparr>tick_interval_ms = interval, frame_no = 0, running_flag = False, has_frame_callback = False,
      frame_history = [], max_history_size = history, frames_sent = []\<rparr>"

definition SetFrameCallback :: "frame_sync \<Rightarrow> frame_sync" where
  "SetFrameCallback fs = fs\<lparr>has_frame_callback := True\<rparr>"

definition OnPlayerInput :: "u32 \<Rightarrow> string \<Rightarrow> bytes \<Rightarrow> input_buffer \<Rightarrow> input_buffer" where
  "OnPlayerInput no pid inp ib = AddInput no pid inp ib"

subsection \<open>One frame\<close>

definition FrameTick :: "frame_sync \<times> input_buffer \<Rightarrow> nat \<times> frame_sync \<times> input_buffer" where
  "FrameTick st =
     (let fs = fst st;
          no = frame_no fs + 1;
          (ins, ib) = GetInput no (snd st);
          hist = trim_front (max_history_size fs) (frame_history fs @ [\<lparr>fr_no = no, fr_inputs = ins\<rparr>]);
          sent = (if has_frame_callback fs \<and> ins \<noteq> [] then frames_sent fs @ [(no, ins)]
                  else frames_sent fs)
      in (length ins, fs\<lparr>frame_no := no, frame_history := hist, frames_sent := sent\<rparr>, ib))"

subsection \<open>The timer chain\<close>

text \<open>
  The room's timers hold callbacks of several kinds; \<open>cb\<close> is the one of the frame loop.
\<close>

definition RescheduleTick :: "int \<Rightarrow> int \<Rightarrow> 'c \<Rightarrow> 'c timer_manager \<Rightarrow> 'c timer_manager" where
  "RescheduleTick now interval cb tm = snd (Schedule now interval cb tm)"

text \<open>The body of the callback.\<close>

definition TickCallback :: "int \<Rightarrow> 'c \<Rightarrow> 'c timer_manager \<times> frame_sync \<times> input_buffer \<Rightarrow>
    'c timer_manager \<times> frame_sync \<times> input_buffer" where
  "TickCallback now cb st =
     (case st of (tm, fs, ib) \<Rightarrow>
        if \<not> running_flag fs then (tm, fs, ib)
        else (RescheduleTick now (tick_interval_ms fs) cb tm, snd (FrameTick (fs, ib))))"

definition Start :: "int \<Rightarrow> 'c \<Rightarrow> 'c timer_manager \<times> frame_sync \<Rightarrow> 'c timer_manager \<times> frame_sync" where
  "Start now cb st =
     (if running_flag (snd st) then st
      else (RescheduleTick now (tick_interval_ms (snd st)) cb (fst st), (snd st)\<lparr>running_flag := True\<rparr>))"

definition Stop :: "frame_sync \<Rightarrow> frame_sync" where
  "Stop fs = fs\<lparr>running_flag := False\<rparr>"

subsection \<open>Catching up\<close>

fun catch_up_loop :: "u32 \<Rightarrow> u32 \<Rightarrow> frame_record list \<Rightarrow> frame_record list" where
  "catch_up_loop lo hi [] = []"
| "catch_up_loop lo hi (r # rs) =
     (if hi < fr_no r then []
      else if lo \<le> fr_no r then r # catch_up_loop lo hi rs else catch_up_loop lo hi rs)"

definition GetCatchUpFrames :: "u32 \<Rightarrow> frame_sync \<Rightarrow> frame_record list" where
  "GetCatchUpFrames client fs =
     (if frame_no fs \<le> client then []
      else catch_up_loop (client + 1) (min (client + 3) (frame_no fs)) (frame_history fs))"

subsection \<open>The history\<close>

definition run_ticks :: "nat \<Rightarrow> frame_sync \<times> input_buffer \<Rightarrow> frame_sync \<times> input_buffer" where
  "run_ticks k st = ((\<lambda>s. snd (FrameTick s)) ^^ k) st"

lemma FrameTick_fields:
  "frame_no (fst (snd (FrameTick (fs, ib)))) = frame_no fs + 1"
  "running_flag (fst (snd (FrameTick (fs, ib)))) = running_flag fs"
  "tick_interval_ms (fst (snd (FrameTick (fs, ib)))) = tick_interval_ms fs"
  "max_history_size (fst (snd (FrameTick (fs, ib)))) = max_history_size fs"
  "frame_history (fst (snd (FrameTick (fs, ib)))) = trim_front (max_history_size fs)
     (frame_history fs @ [\<lparr>fr_no = frame_no fs + 1, fr_inputs = fst (GetInput (frame_no fs + 1) ib)\<rparr>])"
  by (simp_all add: FrameTick_def Let_def split: prod.split)

text \<open>What the history holds after \<open>n\<close> frames: the last ones, numbered without a gap.\<close>

definition history_ok :: "nat \<Rightarrow> frame_sync \<Rightarrow> bool" where
  "history_ok n fs \<longleftrightarrow> frame_no fs = of_nat n \<and>
     map fr_no (frame_history fs) = map of_nat [Suc n - min (max_history_size fs) n..<Suc n]"

lemma trim_upt:
  "trim_front c (map f [Suc n - min c n..<Suc n] @ [f (Suc n)]) =
     map f [Suc (Suc n) - min c (Suc n)..<Suc (Suc n)]"
proof -
  have "map f [Suc n - min c n..<Suc n] @ [f (Suc n)] = map f [Suc n - min c n..<Suc (Suc n)]"
    by (simp del: upt_Suc add: upt_Suc [of _ "Suc n"])
  also have "trim_front c \<dots> = map f [Suc (Suc n) - min c (Suc n)..<Suc (Suc n)]"
    by (simp del: upt_Suc add: trim_front_drop drop_map min_def)
  finally show ?thesis .
qed

lemma map_trim_front: "map f (trim_front c w) = trim_front c (map f w)"
  by (simp add: trim_front_drop drop_map)

lemma history_ok_tick: "history_ok n fs \<Longrightarrow> history_ok (Suc n) (fst (snd (FrameTick (fs, ib))))"
  using trim_upt [of "max_history_size fs" "word_of_nat :: nat \<Rightarrow> u32" n]
  by (simp del: upt_Suc add: history_ok_def FrameTick_fields map_trim_front add.commute)

lemma run_ticks_simps:
  "run_ticks 0 st = st" "run_ticks (Suc k) st = run_ticks k (snd (FrameTick st))"
  by (simp add: run_ticks_def) (simp add: run_ticks_def funpow_Suc_right del: funpow.simps)

lemma run_ticks_Suc: "run_ticks (Suc k) st = snd (FrameTick (run_ticks k st))"
  by (simp add: run_ticks_def)

lemma run_ticks_fields:
  "max_history_size (fst (run_ticks k st)) = max_history_size (fst st) \<and>
   running_flag (fst (run_ticks k st)) = running_flag (fst st) \<and>
   tick_interval_ms (fst (run_ticks k st)) = tick_interval_ms (fst st) \<and>
   frame_no (fst (run_ticks k st)) = frame_no (fst st) + of_nat k"
proof (induction k)
  case (Suc k)
  then show ?case
    by (cases "run_ticks k st") (simp add: run_ticks_Suc FrameTick_fields)
qed (simp add: run_ticks_simps)

lemma history_ok_new: "history_ok 0 (new_frame_sync d h)"
  by (simp add: history_ok_def new_frame_sync_def)

lemma history_ok_run: "history_ok n (fst (run_ticks n (new_frame_sync d h, ib)))"
proof (induction n)
  case (Suc n)
  then show ?case
    by (cases "run_ticks n (new_frame_sync d h, ib)") (simp add: run_ticks_Suc history_ok_tick)
qed (simp add: run_ticks_simps history_ok_new)

text \<open>The inputs a frame consumed stay in its record.\<close>

lemma history_no: "history_ok n fs \<Longrightarrow> map fr_no (frame_history fs) =
    map of_nat [Suc n - min (max_history_size fs) n..<Suc n]"
  by (simp add: history_ok_def)

lemma catch_up_filter:
  "sorted (map (unat \<circ> fr_no) rs) \<Longrightarrow>
     catch_up_loop lo hi rs = filter (\<lambda>r. lo \<le> fr_no r \<and> fr_no r \<le> hi) rs"
proof (induction rs)
  case (Cons r rs)
  have "filter (\<lambda>r. lo \<le> fr_no r \<and> fr_no r \<le> hi) rs = []" if "hi < fr_no r"
    using Cons.prems that by (fastforce simp: filter_empty_conv word_le_nat_alt word_less_nat_alt)
  with Cons show ?case by auto
qed simp

lemma filter_upt: "filter (\<lambda>i. a \<le> i \<and> i \<le> b) [m..<n] = [max a m..<min (Suc b) n]"
proof (induction n)
  case (Suc n)
  then show ?case
    by (cases "m \<le> n"; cases "a \<le> n"; cases "n \<le> b")
       (auto simp: max_def min_def not_le le_Suc_eq)
qed simp

lemma unat_history:
  assumes "history_ok n fs" and "n < 2 ^ 32"
  shows "map (unat \<circ> fr_no) (frame_history fs) = [Suc n - min (max_history_size fs) n..<Suc n]"
proof -
  have "map (unat \<circ> fr_no) (frame_history fs) = map unat (map fr_no (frame_history fs))" by simp
  also have "\<dots> = map (\<lambda>i. unat (word_of_nat i :: u32)) [Suc n - min (max_history_size fs) n..<Suc n]"
    by (simp add: history_no [OF assms(1)] del: upt_Suc)
  also have "\<dots> = map id [Suc n - min (max_history_size fs) n..<Suc n]"
    using assms(2) by (intro map_cong refl) (auto simp: unat_of_nat take_bit_eq_mod)
  finally show ?thesis by simp
qed

lemma catch_up_numbers:
  assumes h: "history_ok n fs" and n: "n + 3 < 2 ^ 32" and c: "c < n"
  shows "map (unat \<circ> fr_no) (GetCatchUpFrames (of_nat c) fs) =
    [max (Suc c) (Suc n - min (max_history_size fs) n)..<Suc (min (c + 3) n)]"
proof -
  have u: "unat (word_of_nat c :: u32) = c" "unat (word_of_nat n :: u32) = n"
    "unat (word_of_nat c + 1 :: u32) = Suc c" "unat (word_of_nat c + 3 :: u32) = c + 3"
    using n c by (simp_all add: unat_word_ariths unat_of_nat take_bit_eq_mod)
  have f: "frame_no fs = word_of_nat n" using h by (simp add: history_ok_def)
  have m: "unat (min (word_of_nat c + 3) (word_of_nat n) :: u32) = min (c + 3) n"
    using u by (simp add: min_def word_le_nat_alt)
  have s: "sorted (map (unat \<circ> fr_no) (frame_history fs))"
    using n by (simp add: unat_history [OF h] del: upt_Suc)
  have "GetCatchUpFrames (word_of_nat c) fs =
      filter (\<lambda>r. Suc c \<le> unat (fr_no r) \<and> unat (fr_no r) \<le> min (c + 3) n) (frame_history fs)"
    using c u m catch_up_filter [OF s, of "word_of_nat c + 1" "min (word_of_nat c + 3) (word_of_nat n)"]
    by (simp add: GetCatchUpFrames_def f word_le_nat_alt)
  then have "map (unat \<circ> fr_no) (GetCatchUpFrames (word_of_nat c) fs) =
      filter (\<lambda>i. Suc c \<le> i \<and> i \<le> min (c + 3) n) (map (unat \<circ> fr_no) (frame_history fs))"
    by (simp add: filter_map o_def)
  also have "\<dots> = [max (Suc c) (Suc n - min (max_history_size fs) n)..<Suc (min (c + 3) n)]"
    using n by (simp only: unat_history [OF h] filter_upt) (simp add: filter_upt del: upt_Suc)
  finally show ?thesis .
qed


subsection \<open>Driving the chains\<close>

text \<open>All pending timers are live frame timers.\<close>

definition tick_timer :: "'c timer \<Rightarrow> bool" where
  "tick_timer t \<longleftrightarrow> callback t \<noteq> None \<and> \<not> cancelled t"

lemma TickCallback_running:
  "running_flag fs \<Longrightarrow> TickCallback now cb (tm, fs, ib) =
     (RescheduleTick now (tick_interval_ms fs) cb tm, snd (FrameTick (fs, ib)))"
  by (simp add: TickCallback_def)

lemma RescheduleTick_heap:
  "mset (theap (RescheduleTick now d cb tm)) = add_mset
     \<lparr>t_id = next_id tm, deadline = now + d, callback = Some cb, cancelled = False\<rparr> (mset (theap tm))"
  by (simp add: RescheduleTick_def Schedule_def push_heap_mset)

lemma RescheduleTick_set:
  "set (theap (RescheduleTick now d cb tm)) = insert
     \<lparr>t_id = next_id tm, deadline = now + d, callback = Some cb, cancelled = False\<rparr> (set (theap tm))"
  using arg_cong [OF RescheduleTick_heap, of set_mset] by simp

lemma tick_loop_frames:
  assumes "timers_ok tm" and "\<forall>t \<in> set (theap tm). tick_timer t" and "running_flag (fst st)"
    and "0 < tick_interval_ms (fst st)" and "size (due now (theap tm)) = k"
  shows "\<exists>tm'. tick_loop (TickCallback now) now j (tm, st) = Some (j + k, tm', run_ticks k st) \<and>
    timers_ok tm' \<and> (\<forall>t \<in> set (theap tm'). tick_timer t) \<and> length (theap tm') = length (theap tm)"
  using assms
proof (induction k arbitrary: tm st j)
  case 0
  then have "\<not> (theap tm \<noteq> [] \<and> deadline (hd (theap tm)) \<le> now)"
    by (auto simp: due_def filter_mset_eq_conv)
  then show ?case using 0 by (subst tick_loop.simps) (auto simp: Let_def run_ticks_simps)
next
  case (Suc k)
  obtain fs ib where st: "st = (fs, ib)" by force
  let ?h = "theap tm" and ?t = "hd (theap tm)"
  define tm1 where "tm1 = tm\<lparr>theap := pop_heap deadline ?h\<rparr>"
  have ok: "is_heap deadline ?h" using Suc.prems(1) by (simp add: timers_ok_def)
  have d: "?h \<noteq> [] \<and> deadline ?t \<le> now"
    using due_none [OF ok, of now] Suc.prems(5) by (metis size_empty nat.distinct(1))
  then have "tick_timer ?t" using Suc.prems(2) by simp
  then obtain cb where cb: "callback ?t = Some cb" "\<not> cancelled ?t" by (auto simp: tick_timer_def)
  define tm2 where "tm2 = RescheduleTick now (tick_interval_ms fs) cb tm1"
  from d have h: "mset ?h = add_mset ?t (mset (theap tm1))"
    using pop_heap_mset [of ?h deadline] by (simp add: tm1_def)
  have ok2: "timers_ok tm2" using ok d
    by (simp add: tm2_def RescheduleTick_def tm1_def timers_ok_def heap.pop_ok Schedule_ok [unfolded timers_ok_def])
  have set2: "\<forall>t \<in> set (theap tm2). tick_timer t"
    using Suc.prems(2) heap.pop_set [OF ok] d
    by (simp add: tm2_def RescheduleTick_set tm1_def tick_timer_def)
  have len: "length (theap tm2) = length ?h"
    using arg_cong [OF h, of size] arg_cong [OF RescheduleTick_heap, of size now "tick_interval_ms fs" cb tm1]
    by (simp add: tm2_def)
  have due2: "size (due now (theap tm2)) = k"
    using Suc.prems(4,5) d by (simp add: due_def tm2_def RescheduleTick_heap h st)
  have step: "tick_loop (TickCallback now) now j (tm, st) =
      tick_loop (TickCallback now) now (j + 1) (tm2, snd (FrameTick (fs, ib)))"
    using d cb Suc.prems(3) by (subst tick_loop.simps)
      (simp add: Let_def st TickCallback_running tm1_def tm2_def)
  have "running_flag (fst (snd (FrameTick (fs, ib))))" "0 < tick_interval_ms (fst (snd (FrameTick (fs, ib))))"
    using Suc.prems(3,4) by (simp_all add: FrameTick_fields st)
  from Suc.IH [OF ok2 set2 this due2, of "j + 1"] step len show ?case
    by (simp add: run_ticks_simps st)
qed

subsection \<open>Properties\<close>

text \<open>
  After any number of frames (fewer than 2^32) the history holds the most recent ones, up to its
  capacity, numbered without gaps or repetitions and ending at the current frame.
\<close>

lemma history_is_recent_frames:
  assumes "n < 2 ^ 32"
  shows "map (unat \<circ> fr_no) (frame_history (fst (run_ticks n (new_frame_sync d h, ib)))) =
    [Suc n - min h n..<Suc n]"
proof -
  have "max_history_size (fst (run_ticks n (new_frame_sync d h, ib))) = h"
    using run_ticks_fields [of n "(new_frame_sync d h, ib)"] by (simp add: new_frame_sync_def)
  with unat_history [OF history_ok_run assms] show ?thesis by simp
qed

lemma history_is_recent_frames_witness:
  "map (unat \<circ> fr_no) (frame_history (fst (run_ticks 3 (new_frame_sync 50 2, new_input_buffer 60)))) = [2, 3]"
proof -
  have "[Suc 3 - min 2 3..<Suc 3] = [2, 3 :: nat]" by (simp add: upt_rec)
  moreover have "(3 :: nat) < 2 ^ 32" by simp
  ultimately show ?thesis by (simp only: history_is_recent_frames)
qed

text \<open>
  Catching up: a client at frame \<open>c\<close> behind the server gets the next frames
  \<open>c + 1, ..., min (c + 3) n\<close> that the history still holds, in order. That is up to three
  frames per call; the comments and the header promise at most two.
\<close>

lemma catch_up_frames:
  assumes "n + 3 < 2 ^ 32" and "c < n"
  shows "map (unat \<circ> fr_no) (GetCatchUpFrames (of_nat c) (fst (run_ticks n (new_frame_sync d h, ib)))) =
    [max (Suc c) (Suc n - min h n)..<Suc (min (c + 3) n)]"
proof -
  have "max_history_size (fst (run_ticks n (new_frame_sync d h, ib))) = h"
    using run_ticks_fields [of n "(new_frame_sync d h, ib)"] by (simp add: new_frame_sync_def)
  with catch_up_numbers [OF history_ok_run assms] show ?thesis by simp
qed

lemma catch_up_frames_witness:
  "length (GetCatchUpFrames 1 (fst (run_ticks 10 (new_frame_sync 50 120, new_input_buffer 60)))) = 3"
proof -
  have "length (GetCatchUpFrames 1 (fst (run_ticks 10 (new_frame_sync 50 120, new_input_buffer 60)))) =
      length (map (unat \<circ> fr_no) (GetCatchUpFrames (of_nat 1)
        (fst (run_ticks 10 (new_frame_sync 50 120, new_input_buffer 60)))))" by simp
  also have "\<dots> = 3" by (subst catch_up_frames) simp_all
  finally show ?thesis .
qed



text \<open>
  \<open>Stop\<close> does not cancel the pending timer, so stopping and starting again before it fires
  leaves two chains, and every later tick of the timers runs two frames instead of one.
\<close>

lemma restart_doubles_frame_rate:
  assumes "0 < d"
  shows "let (tm1, fs1) = Start 0 cb (new_timer_manager, new_frame_sync d h);
             (tm2, fs2) = Start 0 cb (tm1, Stop fs1)
         in \<exists>tm'. TimerTick (TickCallback d) d (tm2, fs2, ib) = Some (2, tm', run_ticks 2 (fs2, ib)) \<and>
           length (theap tm') = 2"
proof -
  define t where "t i = \<lparr>t_id = i, deadline = d, callback = Some cb, cancelled = False\<rparr>" for i :: u64
  define tm where "tm = \<lparr>next_id = 3, theap = [t 1, t 2]\<rparr>"
  define fs where "fs = (new_frame_sync d h)\<lparr>running_flag := True\<rparr>"
  have s1: "Start 0 cb (new_timer_manager, new_frame_sync d h) = (\<lparr>next_id = 2, theap = [t 1]\<rparr>, fs)"
    by (simp add: Start_def new_frame_sync_def RescheduleTick_def Schedule_def new_timer_manager_def
        push_heap_def sift_up.simps t_def fs_def)
  have s2: "Start 0 cb (\<lparr>next_id = 2, theap = [t 1]\<rparr>, Stop fs) = (tm, fs)"
    by (simp add: Start_def Stop_def new_frame_sync_def RescheduleTick_def Schedule_def
        push_heap_def sift_up.simps t_def fs_def tm_def)
  have len: "length (theap tm) = 2" by (simp add: tm_def)
  have clean: "CleanCancelled tm = tm"
    by (simp add: CleanCancelled_def clean_heap.simps tm_def t_def)
  have "timers_ok tm" by (auto simp: timers_ok_def is_heap_def tm_def t_def less_Suc_eq)
  moreover have "\<forall>x \<in> set (theap tm). tick_timer x" "size (due d (theap tm)) = 2"
    "running_flag fs" "0 < tick_interval_ms fs"
    using assms by (simp_all add: tm_def t_def tick_timer_def due_def fs_def new_frame_sync_def)
  ultimately show ?thesis
    using tick_loop_frames [of tm "(fs, ib)" d 2 0] clean len
    by (auto simp: s1 s2 TimerTick_def)
qed

lemma restart_doubles_frame_rate_witness:
  "let (tm1, fs1) = Start 0 () (new_timer_manager, new_frame_sync 50 120);
       (tm2, fs2) = Start 0 () (tm1, Stop fs1)
   in \<exists>tm'. TimerTick (TickCallback 50) 50 (tm2, fs2, new_input_buffer 60) =
        Some (2, tm', run_ticks 2 (fs2, new_input_buffer 60)) \<and> length (theap tm') = 2"
  by (rule restart_doubles_frame_rate) simp

end
