(* ===== verification/Game_State.thy ===== *)
theory Game_State
  imports Floating_Point Complex_Main
begin

text \<open>
  \<open>include/game/game_state.h\<close> and \<open>src/game/game_state.cpp\<close>: the deterministic state
  update of the lock-step game, and the comparison and smoothing of a predicted state against the
  server's. An \<open>unordered_map\<close> is the list of its entries in the order the iteration meets
  them; the theorems show that this order does not matter. Coordinates are 32-bit words read by
  \<open>sint\<close>; where C++ leaves signed overflow undefined the word wraps, and a bound below shows it
  does not happen.
\<close>

subsection \<open>State\<close>

datatype move_dir = NONE | UP | DOWN | LEFT | RIGHT

record player_pos =
  pos_id :: string
  pos_x :: i32
  pos_y :: i32

record game_state =
  gs_frame :: u32
  gs_players :: "player_pos list"

type_synonym inputs = "(string \<times> bytes) list"

definition empty_state :: game_state where
  "empty_state = \<lparr>gs_frame = 0, gs_players = []\<rparr>"

subsection \<open>One tick\<close>

definition ParseMoveDir :: "bytes \<Rightarrow> move_dir" where
  "ParseMoveDir inp =
     (case inp of
        [] \<Rightarrow> NONE
      | v # _ \<Rightarrow>
          if v = 1 then UP else if v = 2 then DOWN else if v = 3 then LEFT
          else if v = 4 then RIGHT else NONE)"

fun ApplyMove :: "player_pos \<Rightarrow> move_dir \<Rightarrow> i32 \<Rightarrow> player_pos" where
  "ApplyMove p UP st = p\<lparr>pos_y := pos_y p - st\<rparr>"
| "ApplyMove p DOWN st = p\<lparr>pos_y := pos_y p + st\<rparr>"
| "ApplyMove p LEFT st = p\<lparr>pos_x := pos_x p - st\<rparr>"
| "ApplyMove p RIGHT st = p\<lparr>pos_x := pos_x p + st\<rparr>"
| "ApplyMove p NONE st = p"

definition EnsurePlayerExists :: "string \<Rightarrow> game_state \<Rightarrow> game_state" where
  "EnsurePlayerExists pid s =
     (if list_ex (\<lambda>p. pos_id p = pid) (gs_players s) then s
      else s\<lparr>gs_players := gs_players s @ [\<lparr>pos_id = pid, pos_x = 0, pos_y = 0\<rparr>]\<rparr>)"

definition apply_input :: "inputs \<Rightarrow> player_pos \<Rightarrow> player_pos" where
  "apply_input ins p =
     (case map_of ins (pos_id p) of
        None \<Rightarrow> p
      | Some inp \<Rightarrow> ApplyMove p (ParseMoveDir inp) 1)"

definition tickLogic :: "inputs \<Rightarrow> game_state \<Rightarrow> game_state" where
  "tickLogic ins cur =
     (let n0 = cur\<lparr>gs_frame := gs_frame cur + 1\<rparr>;
          n1 = fold EnsurePlayerExists (map fst ins) n0;
          n2 = n1\<lparr>gs_players := sort_key pos_id (gs_players n1)\<rparr>
      in n2\<lparr>gs_players := map (apply_input ins) (gs_players n2)\<rparr>)"

text \<open>Replaying the inputs of successive frames.\<close>

definition replay :: "inputs list \<Rightarrow> game_state \<Rightarrow> game_state" where
  "replay frames s = fold tickLogic frames s"

subsection \<open>Comparison and smoothing\<close>

record player_correction =
  pc_id :: string
  server_x :: i32
  server_y :: i32
  client_x :: i32
  client_y :: i32
  delta_x :: i32
  delta_y :: i32

definition FindPlayerPos :: "game_state \<Rightarrow> string \<Rightarrow> (i32 \<times> i32) option" where
  "FindPlayerPos s pid =
     map_option (\<lambda>p. (pos_x p, pos_y p)) (find (\<lambda>p. pos_id p = pid) (gs_players s))"

definition correction :: "game_state \<Rightarrow> player_pos \<Rightarrow> player_correction option" where
  "correction predicted sp =
     (let found = FindPlayerPos predicted (pos_id sp);
          (cx, cy) = (case found of None \<Rightarrow> (0, 0) | Some c \<Rightarrow> c)
      in if found = None \<or> cx \<noteq> pos_x sp \<or> cy \<noteq> pos_y sp
         then Some \<lparr>pc_id = pos_id sp, server_x = pos_x sp, server_y = pos_y sp,
                    client_x = cx, client_y = cy,
                    delta_x = pos_x sp - cx, delta_y = pos_y sp - cy\<rparr>
         else None)"

definition CompareStates :: "game_state \<Rightarrow> game_state \<Rightarrow> player_correction list" where
  "CompareStates authoritative predicted =
     List.map_filter (correction predicted) (gs_players authoritative)"

text \<open>
  \<open>static_cast<int32_t>(c + (a - c) * alpha)\<close> in single precision, where \<open>alpha\<close> is a
  finite \<open>float\<close>; the cast truncates towards zero.
\<close>

definition trunc_cast :: "real \<Rightarrow> int" where
  "trunc_cast r = (if 0 \<le> r then \<lfloor>r\<rfloor> else \<lceil>r\<rceil>)"

definition lerp :: "real \<Rightarrow> i32 \<Rightarrow> i32 \<Rightarrow> i32" where
  "lerp alpha c a =
     word_of_int (trunc_cast
       (round_to Single (round_to Single (of_int (sint c)) +
          round_to Single (round_to Single (of_int (sint (a - c))) * alpha))))"

fun reconcile_player ::
  "real \<Rightarrow> player_pos \<Rightarrow> player_pos list \<Rightarrow> player_pos list" where
  "reconcile_player alpha ap [] = [ap]"
| "reconcile_player alpha ap (p # ps) =
     (if pos_id p = pos_id ap
      then p\<lparr>pos_x := lerp alpha (pos_x p) (pos_x ap),
             pos_y := lerp alpha (pos_y p) (pos_y ap)\<rparr> # ps
      else p # reconcile_player alpha ap ps)"

definition ReconcileState ::
  "real \<Rightarrow> game_state \<Rightarrow> game_state \<Rightarrow> game_state" where
  "ReconcileState alpha client authoritative =
     client\<lparr>gs_players := fold (reconcile_player alpha) (gs_players authoritative)
                            (gs_players client),
            gs_frame := gs_frame authoritative\<rparr>"

subsection \<open>The players of a state\<close>

definition ids :: "game_state \<Rightarrow> string list" where
  "ids s = map pos_id (gs_players s)"

definition state_ok :: "game_state \<Rightarrow> bool" where
  "state_ok s \<longleftrightarrow> distinct (ids s)"

lemma ApplyMove_id [simp]: "pos_id (ApplyMove p d st) = pos_id p"
  by (cases d) simp_all

lemma apply_input_id [simp]: "pos_id (apply_input ins p) = pos_id p"
  by (simp add: apply_input_def split: option.split)

lemma Ensure_frame [simp]: "gs_frame (fold EnsurePlayerExists pids s) = gs_frame s"
  by (induction pids arbitrary: s) (simp_all add: EnsurePlayerExists_def)

text \<open>Adding the missing players appends one at the origin for each new identifier.\<close>

definition fresh_players :: "string list \<Rightarrow> string list \<Rightarrow> player_pos list" where
  "fresh_players known pids =
     map (\<lambda>pid. \<lparr>pos_id = pid, pos_x = 0, pos_y = 0\<rparr>) (filter (\<lambda>pid. pid \<notin> set known) pids)"

lemma Ensure_players:
  "distinct pids \<Longrightarrow>
     gs_players (fold EnsurePlayerExists pids s) = gs_players s @ fresh_players (ids s) pids"
proof (induction pids arbitrary: s)
  case (Cons pid pids)
  show ?case
  proof (cases "pid \<in> set (ids s)")
    case True
    then have "EnsurePlayerExists pid s = s"
      by (auto simp: EnsurePlayerExists_def ids_def list_ex_iff)
    with Cons True show ?thesis by (simp add: fresh_players_def)
  next
    case False
    then have e: "EnsurePlayerExists pid s =
        s\<lparr>gs_players := gs_players s @ [\<lparr>pos_id = pid, pos_x = 0, pos_y = 0\<rparr>]\<rparr>"
      by (auto simp: EnsurePlayerExists_def ids_def list_ex_iff)
    have "filter (\<lambda>p. p \<noteq> pid \<and> p \<notin> set (ids s)) pids = filter (\<lambda>p. p \<notin> set (ids s)) pids"
      using Cons.prems by (intro filter_cong) auto
    with Cons False show ?thesis
      by (simp add: e fresh_players_def ids_def)
  qed
qed (simp add: fresh_players_def)

lemma tick_players:
  "distinct (map fst ins) \<Longrightarrow> gs_players (tickLogic ins s) =
     map (apply_input ins) (sort_key pos_id (gs_players s @ fresh_players (ids s) (map fst ins)))"
  by (simp add: tickLogic_def Let_def Ensure_players ids_def)

lemma tick_frame [simp]: "gs_frame (tickLogic ins s) = gs_frame s + 1"
  by (simp add: tickLogic_def Let_def)

lemma fresh_ids: "map pos_id (fresh_players known pids) = filter (\<lambda>pid. pid \<notin> set known) pids"
  by (simp add: fresh_players_def o_def)

lemma tick_ids:
  assumes "distinct (map fst ins)"
  shows "ids (tickLogic ins s) =
    sort (ids s @ filter (\<lambda>pid. pid \<notin> set (ids s)) (map fst ins))"
proof -
  have "ids (tickLogic ins s) =
      map pos_id (sort_key pos_id (gs_players s @ fresh_players (ids s) (map fst ins)))"
    by (simp add: ids_def tick_players [OF assms] o_def)
  also have "\<dots> = sort (map pos_id (gs_players s @ fresh_players (ids s) (map fst ins)))"
    by (rule properties_for_sort [symmetric]) simp_all
  finally show ?thesis by (simp add: fresh_ids ids_def)
qed


subsection \<open>The order of the map and of the players does not matter\<close>

lemma sort_key_unique:
  "mset xs = mset ys \<Longrightarrow> distinct (map f xs) \<Longrightarrow> sort_key f xs = sort_key f ys"
  by (rule sort_key_inj_key_eq) (simp_all add: distinct_map)

definition same_inputs :: "inputs \<Rightarrow> inputs \<Rightarrow> bool" where
  "same_inputs a b \<longleftrightarrow>
     distinct (map fst a) \<and> distinct (map fst b) \<and> map_of a = map_of b"

definition same_state :: "game_state \<Rightarrow> game_state \<Rightarrow> bool" where
  "same_state s t \<longleftrightarrow>
     state_ok s \<and> gs_frame s = gs_frame t \<and> mset (gs_players s) = mset (gs_players t)"

lemma same_inputs_mset: "same_inputs a b \<Longrightarrow> mset (map fst a) = mset (map fst b)"
  by (simp only: same_inputs_def set_eq_iff_mset_eq_distinct flip: dom_map_of_conv_image_fst)
     (metis dom_map_of_conv_image_fst list.set_map set_eq_iff_mset_eq_distinct)

lemma mset_ids: "mset (gs_players s) = mset (gs_players t) \<Longrightarrow> mset (ids s) = mset (ids t)"
  by (simp add: ids_def)

lemma tick_same:
  assumes i: "same_inputs a b" and s: "same_state s t"
  shows "tickLogic a s = tickLogic b t"
proof -
  have d: "distinct (map fst a)" "distinct (map fst b)" using i by (simp_all add: same_inputs_def)
  have "set (ids s) = set (ids t)"
    using s mset_ids [of s t] by (metis same_state_def set_mset_mset)
  then have fr: "mset (fresh_players (ids s) (map fst a)) = mset (fresh_players (ids t) (map fst b))"
    using same_inputs_mset [OF i] by (simp add: fresh_players_def)
  have "distinct (map pos_id (gs_players s @ fresh_players (ids s) (map fst a)))"
    using s d(1) by (auto simp: same_state_def state_ok_def fresh_ids ids_def)
  with fr s have "sort_key pos_id (gs_players s @ fresh_players (ids s) (map fst a)) =
      sort_key pos_id (gs_players t @ fresh_players (ids t) (map fst b))"
    by (intro sort_key_unique) (simp_all add: same_state_def)
  moreover have "apply_input a = apply_input b"
    using i by (simp add: same_inputs_def apply_input_def fun_eq_iff)
  ultimately have "gs_players (tickLogic a s) = gs_players (tickLogic b t)"
    by (simp add: tick_players [OF d(1)] tick_players [OF d(2)])
  with s show ?thesis by (simp add: same_state_def)
qed

lemma tick_ok: "distinct (map fst ins) \<Longrightarrow> state_ok s \<Longrightarrow> state_ok (tickLogic ins s)"
  by (auto simp: state_ok_def tick_ids)

lemma same_state_refl: "state_ok s \<Longrightarrow> same_state s s"
  by (simp add: same_state_def)

lemma same_state_ok: "same_state s t \<Longrightarrow> state_ok t"
  by (auto simp: same_state_def state_ok_def dest: mset_ids mset_eq_imp_distinct_iff)

subsection \<open>Speed and range\<close>

text \<open>How far a player is from the origin, in grid steps.\<close>

definition dist0 :: "player_pos \<Rightarrow> int" where
  "dist0 p = \<bar>sint (pos_x p)\<bar> + \<bar>sint (pos_y p)\<bar>"

lemma sint_plus1: "\<bar>sint (x :: i32)\<bar> < 2 ^ 31 - 1 \<Longrightarrow> sint (x + 1) = sint x + 1"
  by (simp add: sint_word_ariths signed_take_bit_int_eq_self)

lemma sint_minus1: "\<bar>sint (x :: i32)\<bar> < 2 ^ 31 - 1 \<Longrightarrow> sint (x - 1) = sint x - 1"
  by (simp add: sint_word_ariths signed_take_bit_int_eq_self)

lemma apply_input_dist:
  assumes "dist0 p < 2 ^ 31 - 1"
  shows "dist0 (apply_input ins p) \<le> dist0 p + 1"
proof -
  have "\<bar>sint (pos_x p)\<bar> < 2 ^ 31 - 1" "\<bar>sint (pos_y p)\<bar> < 2 ^ 31 - 1"
    using assms by (simp_all add: dist0_def)
  note s = this [THEN sint_plus1] this [THEN sint_minus1]
  have "dist0 (ApplyMove p d 1) \<le> dist0 p + 1" for d
    using s by (cases d) (simp_all add: dist0_def)
  then show ?thesis by (simp add: apply_input_def split: option.split)
qed

lemma tick_dist:
  assumes "distinct (map fst ins)" and "\<forall>p \<in> set (gs_players s). dist0 p \<le> int n" and "n < 2 ^ 31 - 1"
  shows "\<forall>p \<in> set (gs_players (tickLogic ins s)). dist0 p \<le> int (Suc n)"
proof -
  have "dist0 (apply_input ins p) \<le> int (Suc n)"
    if "p \<in> set (gs_players s @ fresh_players (ids s) (map fst ins))" for p
  proof -
    have "dist0 p \<le> int n" using that assms(2) by (auto simp: fresh_players_def dist0_def)
    with assms(3) apply_input_dist [of p ins] show ?thesis by simp
  qed
  then show ?thesis by (simp add: tick_players [OF assms(1)])
qed


subsection \<open>Smoothing\<close>

lemma rnd_between:
  assumes "\<bar>m\<bar> \<le> 2 ^ 24" and "\<bar>n\<bar> \<le> 2 ^ 24" and "of_int m \<le> x" and "x \<le> of_int n"
  shows "of_int m \<le> round_to Single x \<and> round_to Single x \<le> of_int n"
  using assms round_to_mono [of "of_int m" x Single] round_to_mono [of x "of_int n" Single]
  by (simp add: round_to_int)

lemma trunc_between: "of_int m \<le> x \<Longrightarrow> x \<le> of_int n \<Longrightarrow> m \<le> trunc_cast x \<and> trunc_cast x \<le> n"
  by (auto simp: trunc_cast_def le_floor_iff floor_le_iff le_ceiling_iff ceiling_le_iff)

definition small_coord :: "i32 \<Rightarrow> bool" where
  "small_coord c \<longleftrightarrow> \<bar>sint c\<bar> \<le> 2 ^ 23"

lemma lerp_between:
  assumes al: "0 \<le> alpha" "alpha \<le> 1"
    and c: "small_coord c" and a: "small_coord a"
  shows "min (sint c) (sint a) \<le> sint (lerp alpha c a) \<and> sint (lerp alpha c a) \<le> max (sint c) (sint a)"
proof -
  define rnd where "rnd = round_to Single"
  define ci ai d where "ci = sint c" and "ai = sint a" and "d = ai - ci"
  have d: "sint (a - c) = d" "\<bar>d\<bar> \<le> 2 ^ 24" "\<bar>ci\<bar> \<le> 2 ^ 24" "\<bar>ai\<bar> \<le> 2 ^ 24" "\<bar>ci\<bar> \<le> 2 ^ 23" "\<bar>ai\<bar> \<le> 2 ^ 23"
    using a c by (simp_all add: d_def ci_def ai_def small_coord_def sint_word_ariths signed_take_bit_int_eq_self)
  have rd: "rnd (of_int d) = of_int d" "rnd (of_int ci) = of_int ci"
    using d by (simp_all add: rnd_def round_to_int)
  define m n where "m = min 0 d" and "n = max 0 d"
  have "of_int m \<le> of_int d * alpha \<and> of_int d * alpha \<le> (of_int n :: real)"
  proof (cases "0 \<le> d")
    case True
    then show ?thesis using al mult_left_le [of alpha "of_int d :: real"] by (simp add: m_def n_def)
  next
    case False
    then have "of_int d * 1 \<le> of_int d * alpha" using al by (intro mult_left_mono_neg) simp_all
    with False al show ?thesis by (simp add: m_def n_def mult_le_0_iff)
  qed
  then have "of_int m \<le> rnd (of_int d * alpha) \<and> rnd (of_int d * alpha) \<le> of_int n"
    using d(2) by (unfold rnd_def, intro rnd_between) (auto simp: m_def n_def)
  then have "of_int (ci + m) \<le> of_int ci + rnd (of_int d * alpha) \<and>
      of_int ci + rnd (of_int d * alpha) \<le> of_int (ci + n)" by simp
  then have "of_int (ci + m) \<le> rnd (of_int ci + rnd (of_int d * alpha)) \<and>
      rnd (of_int ci + rnd (of_int d * alpha)) \<le> of_int (ci + n)"
    using d by (unfold rnd_def, intro rnd_between) (auto simp: d_def m_def n_def min_def max_def)
  then have t: "ci + m \<le> trunc_cast (rnd (of_int ci + rnd (of_int d * alpha))) \<and>
      trunc_cast (rnd (of_int ci + rnd (of_int d * alpha))) \<le> ci + n"
    by (intro trunc_between) simp_all
  have mn: "ci + m = min ci ai" "ci + n = max ci ai" by (auto simp: d_def m_def n_def)
  have "lerp alpha c a = word_of_int (trunc_cast (rnd (of_int ci + rnd (of_int d * alpha))))"
    by (simp only: lerp_def d(1) rd flip: ci_def rnd_def)
  moreover have "sint (word_of_int k :: i32) = k" if "min ci ai \<le> k" "k \<le> max ci ai" for k
    using that d by (simp add: sint_sbintrunc' signed_take_bit_int_eq_self)
  ultimately show ?thesis using t by (simp add: mn flip: ci_def ai_def)
qed


lemma find_reconcile:
  "find (\<lambda>p. pos_id p = i) (reconcile_player alpha ap ps) =
     (if i = pos_id ap
      then Some (case find (\<lambda>p. pos_id p = i) ps of
                   None \<Rightarrow> ap
                 | Some p \<Rightarrow> p\<lparr>pos_x := lerp alpha (pos_x p) (pos_x ap),
                                pos_y := lerp alpha (pos_y p) (pos_y ap)\<rparr>)
      else find (\<lambda>p. pos_id p = i) ps)"
  by (induction ps) auto

lemma find_fold_reconcile:
  "distinct (map pos_id aps) \<Longrightarrow> i \<notin> pos_id ` set aps \<Longrightarrow>
     find (\<lambda>p. pos_id p = i) (fold (reconcile_player alpha) aps ps) = find (\<lambda>p. pos_id p = i) ps"
  by (induction aps arbitrary: ps) (auto simp: find_reconcile)

lemma Reconcile_pos:
  assumes "state_ok auth" and "ap \<in> set (gs_players auth)"
    and "FindPlayerPos client (pos_id ap) = Some (cx, cy)"
  shows "FindPlayerPos (ReconcileState alpha client auth) (pos_id ap) =
    Some (lerp alpha cx (pos_x ap), lerp alpha cy (pos_y ap))"
proof -
  obtain us vs where a: "gs_players auth = us @ ap # vs" using assms(2) by (meson split_list)
  then have d: "distinct (map pos_id us)" "distinct (map pos_id vs)"
    "pos_id ap \<notin> pos_id ` set us" "pos_id ap \<notin> pos_id ` set vs"
    using assms(1) by (auto simp: state_ok_def ids_def)
  from assms(3) show ?thesis
    by (auto simp: FindPlayerPos_def ReconcileState_def a find_fold_reconcile [OF d(2,4)]
        find_reconcile find_fold_reconcile [OF d(1,3)])
qed

subsection \<open>Properties\<close>

text \<open>
  C25. Lock-step determinism: two replicas that start from the same players, in whatever order they
  store them, and apply the same inputs frame by frame, in whatever order their hash maps iterate,
  reach the same state, to the order of the players.
\<close>

theorem replay_deterministic:
  assumes "list_all2 same_inputs fs gs" and "same_state s t" and "fs \<noteq> []"
  shows "replay fs s = replay gs t"
  using assms
proof (induction fs gs arbitrary: s t rule: list_all2_induct)
  case (Cons a fs b gs)
  have e: "tickLogic a s = tickLogic b t" by (rule tick_same [OF Cons.hyps(1) Cons.prems(1)])
  show ?case
  proof (cases "fs = []")
    case True
    with e Cons.hyps show ?thesis by (simp add: replay_def)
  next
    case False
    have "state_ok (tickLogic b t)"
      using Cons.hyps(1) same_state_ok [OF Cons.prems(1)] by (intro tick_ok) (simp_all add: same_inputs_def)
    with Cons.IH [OF same_state_refl] False e show ?thesis by (simp add: replay_def)
  qed
qed simp

theorem replay_deterministic_witness:
  "replay [[(''b'', [4]), (''a'', [2])], [(''a'', [4])]] empty_state =
   replay [[(''a'', [2]), (''b'', [4])], [(''a'', [4])]] empty_state \<and>
   gs_players (replay [[(''b'', [4]), (''a'', [2])]] empty_state) =
     [\<lparr>pos_id = ''a'', pos_x = 0, pos_y = 1\<rparr>, \<lparr>pos_id = ''b'', pos_x = 1, pos_y = 0\<rparr>]"
proof
  have "list_all2 same_inputs [[(''b'', [4]), (''a'', [2])], [(''a'', [4])]]
      [[(''a'', [2]), (''b'', [4])], [(''a'', [4])]]"
    by (auto simp: same_inputs_def fun_eq_iff)
  moreover have "same_state empty_state empty_state"
    by (simp add: same_state_def state_ok_def ids_def empty_state_def)
  ultimately show "replay [[(''b'', [4]), (''a'', [2])], [(''a'', [4])]] empty_state =
      replay [[(''a'', [2]), (''b'', [4])], [(''a'', [4])]] empty_state"
    by (rule replay_deterministic) simp
  show "gs_players (replay [[(''b'', [4]), (''a'', [2])]] empty_state) =
     [\<lparr>pos_id = ''a'', pos_x = 0, pos_y = 1\<rparr>, \<lparr>pos_id = ''b'', pos_x = 1, pos_y = 0\<rparr>]"
    by (simp add: replay_def tickLogic_def EnsurePlayerExists_def empty_state_def Let_def
        apply_input_def ParseMoveDir_def less_char_def)
qed

text \<open>
  C26. No teleporting, no overflow: after \<open>n\<close> frames (fewer than 2^31) every player is within
  \<open>n\<close> grid steps of the origin, so no coordinate update overflows its 32-bit integer, and the
  identifiers stay distinct and sorted.
\<close>

theorem replay_speed_limit:
  assumes "\<forall>ins \<in> set fs. distinct (map fst ins)" and "length fs < 2 ^ 31"
  shows "(\<forall>p \<in> set (gs_players (replay fs empty_state)). dist0 p \<le> int (length fs)) \<and>
    sorted_wrt (<) (ids (replay fs empty_state))"
  using assms
proof (induction fs rule: rev_induct)
  case Nil
  then show ?case by (simp add: replay_def empty_state_def ids_def)
next
  case (snoc ins fs)
  define s where "s = replay fs empty_state"
  have r: "replay (fs @ [ins]) empty_state = tickLogic ins s" by (simp add: replay_def s_def)
  have s: "\<forall>p \<in> set (gs_players s). dist0 p \<le> int (length fs)" "sorted_wrt (<) (ids s)"
    using snoc by (simp_all add: s_def)
  have d: "distinct (map fst ins)" using snoc.prems by simp
  have "distinct (ids (tickLogic ins s))"
    using tick_ok [OF d, of s] s(2) by (simp add: state_ok_def strict_sorted_iff)
  moreover have "sorted (ids (tickLogic ins s))" by (simp add: tick_ids [OF d])
  ultimately show ?case
    using tick_dist [OF d s(1)] snoc.prems(2) r by (simp add: strict_sorted_iff)
qed

theorem replay_speed_limit_witness:
  "let ps = gs_players (replay [[(''a'', [3])], [(''a'', [1])]] empty_state)
   in ps = [\<lparr>pos_id = ''a'', pos_x = - 1, pos_y = - 1\<rparr>] \<and> dist0 (hd ps) \<le> 2"
proof -
  have ps: "gs_players (replay [[(''a'', [3])], [(''a'', [1])]] empty_state) =
      [\<lparr>pos_id = ''a'', pos_x = - 1, pos_y = - 1\<rparr>]"
    by (simp add: replay_def tickLogic_def EnsurePlayerExists_def empty_state_def Let_def
        apply_input_def ParseMoveDir_def)
  from replay_speed_limit [of "[[(''a'', [3])], [(''a'', [1])]]"] show ?thesis
    by (simp add: ps)
qed

text \<open>
  \<open>CompareStates\<close> returns a correction exactly for the players whose predicted position is
  missing or differs, and adding its delta to the client position it names gives the server's
  position (also when the difference wraps).
\<close>

lemma compare_states_exact:
  "(pid \<in> pc_id ` set (CompareStates auth pred) \<longleftrightarrow>
      (\<exists>ap \<in> set (gs_players auth). pos_id ap = pid \<and>
         FindPlayerPos pred pid \<noteq> Some (pos_x ap, pos_y ap))) \<and>
   (\<forall>c \<in> set (CompareStates auth pred). \<exists>ap \<in> set (gs_players auth). pc_id c = pos_id ap \<and>
      client_x c + delta_x c = pos_x ap \<and> client_y c + delta_y c = pos_y ap)"
proof
  have "correction pred ap \<noteq> None \<longleftrightarrow> FindPlayerPos pred (pos_id ap) \<noteq> Some (pos_x ap, pos_y ap)" for ap
    by (auto simp: correction_def Let_def split: option.splits prod.splits)
  moreover have "pc_id c = pos_id ap" if "correction pred ap = Some c" for ap c
    using that by (auto simp: correction_def Let_def split: if_splits prod.splits)
  ultimately show "pid \<in> pc_id ` set (CompareStates auth pred) \<longleftrightarrow>
      (\<exists>ap \<in> set (gs_players auth). pos_id ap = pid \<and>
         FindPlayerPos pred pid \<noteq> Some (pos_x ap, pos_y ap))"
    by (force simp: CompareStates_def List.map_filter_def)
  show "\<forall>c \<in> set (CompareStates auth pred). \<exists>ap \<in> set (gs_players auth). pc_id c = pos_id ap \<and>
      client_x c + delta_x c = pos_x ap \<and> client_y c + delta_y c = pos_y ap"
    by (force simp: CompareStates_def correction_def Let_def List.map_filter_def
        split: if_splits prod.splits)
qed

lemma compare_states_exact_witness:
  "let a = \<lparr>gs_frame = 3, gs_players = [\<lparr>pos_id = ''a'', pos_x = 5, pos_y = 1\<rparr>]\<rparr>;
       p = \<lparr>gs_frame = 3, gs_players = [\<lparr>pos_id = ''a'', pos_x = 7, pos_y = 1\<rparr>]\<rparr>;
       c = hd (CompareStates a p)
   in client_x c + delta_x c = 5 \<and> delta_x c = - 2"
proof -
  let ?a = "\<lparr>gs_frame = 3, gs_players = [\<lparr>pos_id = ''a'', pos_x = 5, pos_y = 1\<rparr>]\<rparr>"
  let ?p = "\<lparr>gs_frame = 3, gs_players = [\<lparr>pos_id = ''a'', pos_x = 7, pos_y = 1\<rparr>]\<rparr>"
  have c: "CompareStates ?a ?p = [\<lparr>pc_id = ''a'', server_x = 5, server_y = 1, client_x = 7,
      client_y = 1, delta_x = - 2, delta_y = 0\<rparr>]"
    by (simp add: CompareStates_def correction_def FindPlayerPos_def List.map_filter_def)
  from compare_states_exact [of "''a''" ?a ?p] show ?thesis by (simp add: c)
qed

text \<open>
  Smoothing never overshoots: with a factor between 0 and 1 and coordinates within 2^23, where
  single precision is exact on integers, \<open>ReconcileState\<close> moves a player the client knows to a
  position between the predicted and the server's, on both axes.
\<close>

lemma reconcile_no_overshoot:
  assumes "0 \<le> alpha" and "alpha \<le> 1"
    and "state_ok auth" and "ap \<in> set (gs_players auth)"
    and "FindPlayerPos client (pos_id ap) = Some (cx, cy)"
    and "small_coord cx" and "small_coord cy" and "small_coord (pos_x ap)" and "small_coord (pos_y ap)"
  shows "\<exists>x y. FindPlayerPos (ReconcileState alpha client auth) (pos_id ap) = Some (x, y) \<and>
    min (sint cx) (sint (pos_x ap)) \<le> sint x \<and> sint x \<le> max (sint cx) (sint (pos_x ap)) \<and>
    min (sint cy) (sint (pos_y ap)) \<le> sint y \<and> sint y \<le> max (sint cy) (sint (pos_y ap))"
  using Reconcile_pos [OF assms(3-5), of alpha]
    lerp_between [OF assms(1,2) assms(6) assms(8)] lerp_between [OF assms(1,2) assms(7) assms(9)]
  by simp

lemma reconcile_no_overshoot_witness:
  "let a = \<lparr>gs_frame = 3, gs_players = [\<lparr>pos_id = ''a'', pos_x = 10, pos_y = 1\<rparr>]\<rparr>;
       c = \<lparr>gs_frame = 2, gs_players = [\<lparr>pos_id = ''a'', pos_x = 0, pos_y = 1\<rparr>]\<rparr>
   in \<exists>x y. FindPlayerPos (ReconcileState (1 / 2) c a) ''a'' = Some (x, y) \<and>
      0 \<le> sint x \<and> sint x \<le> 10 \<and> sint y = 1"
proof -
  let ?a = "\<lparr>gs_frame = 3, gs_players = [\<lparr>pos_id = ''a'', pos_x = 10, pos_y = 1\<rparr>]\<rparr>"
  let ?c = "\<lparr>gs_frame = 2, gs_players = [\<lparr>pos_id = ''a'', pos_x = 0, pos_y = 1\<rparr>]\<rparr>"
  from reconcile_no_overshoot [of "1 / 2" ?a "\<lparr>pos_id = ''a'', pos_x = 10, pos_y = 1\<rparr>" ?c 0 1]
  show ?thesis
    by (simp add: state_ok_def ids_def FindPlayerPos_def small_coord_def) (metis order_antisym)
qed

end
