(* ===== verification/Snapshot_Manager.thy ===== *)
theory Snapshot_Manager
  imports Ordered_Window Game_State
begin

text \<open>
  \<open>include/game/snapshot_manager.h\<close> and \<open>src/game/snapshot_manager.cpp\<close>: the game states
  of the most recent frames, for reconnecting clients.
\<close>

subsection \<open>State and operations\<close>

record snapshot =
  snap_no :: u32
  snap_state :: game_state

record snapshot_manager =
  snapshots :: "snapshot list"
  max_snapshots :: nat

definition new_snapshot_manager :: "nat \<Rightarrow> snapshot_manager" where
  "new_snapshot_manager n = \<lparr>snapshots = [], max_snapshots = n\<rparr>"

definition FindSnapshot :: "u32 \<Rightarrow> snapshot_manager \<Rightarrow> nat option" where
  "FindSnapshot no m = find_at snap_no no (snapshots m)"

definition SaveSnapshot :: "u32 \<Rightarrow> game_state \<Rightarrow> snapshot_manager \<Rightarrow> snapshot_manager" where
  "SaveSnapshot no st m =
     (let snap = \<lparr>snap_no = no, snap_state = st\<rparr>;
          it = lower_bound snap_no no (snapshots m);
          ss = (if found_at snap_no no it (snapshots m) then (snapshots m)[it := snap]
                else insert_at it snap (snapshots m))
      in m\<lparr>snapshots := trim_front (max_snapshots m) ss\<rparr>)"

definition GetSnapshot :: "u32 \<Rightarrow> snapshot_manager \<Rightarrow> game_state option" where
  "GetSnapshot no m =
     (case FindSnapshot no m of
        None \<Rightarrow> None
      | Some i \<Rightarrow> Some (snap_state (snapshots m ! i)))"

definition RestoreFromSnapshot :: "u32 \<Rightarrow> snapshot_manager \<Rightarrow> game_state" where
  "RestoreFromSnapshot no m =
     (case GetSnapshot no m of
        Some st \<Rightarrow> st
      | None \<Rightarrow> empty_state)"

definition ClearSnapshots :: "snapshot_manager \<Rightarrow> snapshot_manager" where
  "ClearSnapshots m = m\<lparr>snapshots := []\<rparr>"

subsection \<open>The window of snapshots\<close>

definition save_frames :: "nat \<Rightarrow> u32 \<times> game_state \<Rightarrow> snapshot list \<Rightarrow> snapshot list" where
  "save_frames cap p w =
     (let snap = \<lparr>snap_no = fst p, snap_state = snd p\<rparr>
      in trim_front cap (upsert snap_no (fst p) (\<lambda>x. if snap_no x = fst p then snap else x) snap w))"

text \<open>Overwriting the entry found keeps its key, since the new snapshot has the same number.\<close>

lemma SaveSnapshot_frames:
  "SaveSnapshot no st m = m\<lparr>snapshots := save_frames (max_snapshots m) (no, st) (snapshots m)\<rparr>"
  by (simp add: SaveSnapshot_def save_frames_def upsert_def found_at_def Let_def)

interpretation snap_window: frame_window snap_no cap fst
    "\<lambda>p x. \<lparr>snap_no = fst p, snap_state = snd p\<rparr>" "save_frames cap" for cap
proof -
  let ?snap = "\<lambda>p. \<lparr>snap_no = fst p, snap_state = snd p\<rparr>"
  have "frame_window snap_no cap fst
      (\<lambda>p x. case x of None \<Rightarrow> ?snap p | Some y \<Rightarrow> if snap_no y = fst p then ?snap p else y)
      (\<lambda>p w. trim_front cap (upsert snap_no (fst p) (\<lambda>x. if snap_no x = fst p then ?snap p else x) (?snap p) w))"
    by (rule upsert_trim_window) simp_all
  then have w: "frame_window snap_no cap fst
      (\<lambda>p x. case x of None \<Rightarrow> ?snap p | Some y \<Rightarrow> if snap_no y = fst p then ?snap p else y) (save_frames cap)"
    by (simp add: save_frames_def [abs_def] Let_def)
  show "frame_window snap_no cap fst (\<lambda>p x. ?snap p) (save_frames cap)"
  proof
    fix w p k assume a: "sorted_window snap_no w" "k \<in> snap_no ` set (save_frames cap p w)"
    have "window_map snap_no w j = Some y \<Longrightarrow> snap_no y = j" for j y
      by (induction w) (auto split: if_splits)
    then show "window_map snap_no (save_frames cap p w) k =
        (if k = fst p then Some (?snap p) else window_map snap_no w k)"
      using frame_window.put_map [OF w a] by (auto split: option.splits)
  qed (rule frame_window.put_sorted [OF w] frame_window.put_keys [OF w], assumption)+
qed

text \<open>Saving the states of many frames.\<close>

definition save_all :: "(u32 \<times> game_state) list \<Rightarrow> snapshot_manager \<Rightarrow> snapshot_manager" where
  "save_all ps m = fold (\<lambda>(no, st). SaveSnapshot no st) ps m"

lemma save_all_frames:
  "save_all ps m = m\<lparr>snapshots := fold (save_frames (max_snapshots m)) ps (snapshots m)\<rparr>"
  by (induction ps arbitrary: m) (auto simp: save_all_def SaveSnapshot_frames)

lemma GetSnapshot_map:
  "sorted_window snap_no (snapshots m) \<Longrightarrow>
     GetSnapshot no m = map_option snap_state (window_map snap_no (snapshots m) no)"
  using find_at_map [of snap_no "snapshots m" no]
  by (simp add: GetSnapshot_def FindSnapshot_def option.map_comp o_def split: option.split)

lemma last_saved:
  "fold (\<lambda>p x. if fst p = no then Some \<lparr>snap_no = fst p, snap_state = snd p\<rparr> else x) ps z =
     (case map_of (rev ps) no of None \<Rightarrow> z | Some st \<Rightarrow> Some \<lparr>snap_no = no, snap_state = st\<rparr>)"
  by (induction ps arbitrary: z) (auto simp: map_add_def split: option.splits)

subsection \<open>Properties\<close>

text \<open>
  After any sequence of saves, a snapshot can be read back exactly for the
  \<open>max_snapshots\<close> largest frame numbers saved, as the last state saved for that frame;
  restoring any other frame gives the empty state of frame 0.
\<close>

lemma snapshot_lookup:
  "GetSnapshot no (save_all ps (new_snapshot_manager cap)) =
     (if no \<in> newest cap (fst ` set ps) then map_of (rev ps) no else None) \<and>
   (no \<notin> newest cap (fst ` set ps) \<longrightarrow>
      RestoreFromSnapshot no (save_all ps (new_snapshot_manager cap)) = empty_state)"
proof -
  let ?m = "save_all ps (new_snapshot_manager cap)"
  have w: "snapshots ?m = fold (save_frames cap) ps []"
    by (simp add: save_all_frames new_snapshot_manager_def)
  then have g: "GetSnapshot no ?m = map_option snap_state (window_map snap_no (fold (save_frames cap) ps []) no)"
    using GetSnapshot_map [of ?m no] snap_window.puts_sorted [of cap ps] by simp
  have "GetSnapshot no ?m = (if no \<in> newest cap (fst ` set ps) then map_of (rev ps) no else None)"
    using snap_window.puts_map [of no cap ps] snap_window.puts_evicted [of no cap ps]
    by (simp add: g last_saved split: option.split)
  then show ?thesis by (simp add: RestoreFromSnapshot_def)
qed

lemma snapshot_lookup_witness:
  "RestoreFromSnapshot 1 (save_all [(1, empty_state), (2, empty_state), (3, empty_state)]
     (new_snapshot_manager 2)) = empty_state"
proof -
  have "{j :: u32. (j = 1 \<or> j = 2 \<or> j = 3) \<and> 1 < j} = {2, 3}" by auto
  then have "(1 :: u32) \<notin> newest 2 (fst ` set [(1, empty_state), (2, empty_state), (3, empty_state)])"
    by (simp add: newest_def)
  with snapshot_lookup [of 1 "[(1, empty_state), (2, empty_state), (3, empty_state)]" 2]
  show ?thesis by blast
qed

end
