(* ===== verification/Game_Room.thy ===== *)
theory Game_Room
  imports Frame_Sync Snapshot_Manager
begin

text \<open>
  \<open>include/game/game_room.h\<close> and \<open>src/game/game_room.cpp\<close>: one room, its players, its
  state, its timers and, once a game has started, its frame loop. The status and error codes are
  the enums of \<open>proto/game.proto\<close>. A nullable component is an \<open>option\<close>.
\<close>

subsection \<open>Codes and results\<close>

datatype room_status = ROOM_STATE_UNSPECIFIED | ROOM_STATE_IDLE | ROOM_STATE_WAITING
  | ROOM_STATE_PLAYING | ROOM_STATE_FINISHED | ROOM_STATE_DESTROYED

datatype error_code = ERR_NONE | ERR_ROOM_NOT_FOUND | ERR_ROOM_FULL | ERR_ROOM_NOT_JOINABLE
  | ERR_PLAYER_ALREADY_IN_ROOM | ERR_PLAYER_NOT_IN_ROOM | ERR_NOT_OWNER | ERR_WRONG_ROOM_STATE

fun status_number :: "room_status \<Rightarrow> nat" where
  "status_number ROOM_STATE_UNSPECIFIED = 0"
| "status_number ROOM_STATE_IDLE = 1"
| "status_number ROOM_STATE_WAITING = 2"
| "status_number ROOM_STATE_PLAYING = 3"
| "status_number ROOM_STATE_FINISHED = 4"
| "status_number ROOM_STATE_DESTROYED = 5"

lemma status_number_inj: "status_number a = status_number b \<Longrightarrow> a = b"
  by (cases a; cases b) simp_all

text \<open>The states are ordered by their numbers in the protocol.\<close>

instantiation room_status :: linorder
begin

definition less_eq_room_status :: "room_status \<Rightarrow> room_status \<Rightarrow> bool" where
  "less_eq_room_status a b \<longleftrightarrow> status_number a \<le> status_number b"

definition less_room_status :: "room_status \<Rightarrow> room_status \<Rightarrow> bool" where
  "less_room_status a b \<longleftrightarrow> status_number a < status_number b"

instance
  by standard (auto simp: less_eq_room_status_def less_room_status_def intro: status_number_inj)

end

record result =
  res_ok :: bool
  res_code :: error_code
  res_room_id :: string

definition Success :: result where
  "Success = \<lparr>res_ok = True, res_code = ERR_NONE, res_room_id = ''''\<rparr>"

definition Failure :: "error_code \<Rightarrow> result" where
  "Failure c = \<lparr>res_ok = False, res_code = c, res_room_id = ''''\<rparr>"

definition CreateSuccess :: "string \<Rightarrow> result" where
  "CreateSuccess rid = Success\<lparr>res_room_id := rid\<rparr>"

lemma result_simps [simp]:
  "res_ok Success" "\<not> res_ok (Failure c)" "res_ok (CreateSuccess rid)"
  "res_code (Failure c) = c" "res_code Success = ERR_NONE" "res_code (CreateSuccess rid) = ERR_NONE"
  "res_room_id (CreateSuccess rid) = rid"
  by (simp_all add: Success_def Failure_def CreateSuccess_def)

lemma result_distinct [simp]:
  "Failure c = Failure d \<longleftrightarrow> c = d" "Failure c \<noteq> Success" "Success \<noteq> Failure c"
  "CreateSuccess rid \<noteq> Failure c" "Failure c \<noteq> CreateSuccess rid"
  by (simp_all add: Success_def Failure_def CreateSuccess_def)

subsection \<open>State\<close>

datatype room_callback = RoomTimeout | FrameTimer

record game_room =
  room_id :: string
  owner_id :: string
  state :: room_status
  players :: "string list"
  max_players :: int
  rtimer :: "room_callback timer_manager"
  frame_sync :: "frame_sync option"
  input_buffer :: "input_buffer option"
  snapshot_mgr :: "snapshot_manager option"

definition new_room :: "string \<Rightarrow> string \<Rightarrow> int \<Rightarrow> game_room" where
  "new_room rid owner maxp =
     \<lparr>room_id = rid, owner_id = owner, state = ROOM_STATE_IDLE, players = [owner],
      max_players = maxp, rtimer = new_timer_manager, frame_sync = None, input_buffer = None,
      snapshot_mgr = None\<rparr>"

definition player_count :: "game_room \<Rightarrow> int" where
  "player_count r = int (length (players r))"

definition is_full :: "game_room \<Rightarrow> bool" where
  "is_full r \<longleftrightarrow> max_players r \<le> player_count r"

definition HasPlayer :: "string \<Rightarrow> game_room \<Rightarrow> bool" where
  "HasPlayer p r \<longleftrightarrow> p \<in> set (players r)"

definition SetState :: "room_status \<Rightarrow> game_room \<Rightarrow> game_room" where
  "SetState s r = r\<lparr>state := s\<rparr>"

subsection \<open>Players\<close>

definition AddPlayer :: "string \<Rightarrow> game_room \<Rightarrow> result \<times> game_room" where
  "AddPlayer p r =
     (if state r \<noteq> ROOM_STATE_IDLE \<and> state r \<noteq> ROOM_STATE_WAITING
      then (Failure ERR_ROOM_NOT_JOINABLE, r)
      else if is_full r then (Failure ERR_ROOM_FULL, r)
      else if HasPlayer p r then (Failure ERR_PLAYER_ALREADY_IN_ROOM, r)
      else (Success, r\<lparr>players := players r @ [p]\<rparr>))"

definition RemovePlayer :: "string \<Rightarrow> game_room \<Rightarrow> result \<times> game_room" where
  "RemovePlayer p r =
     (if p \<notin> set (players r) then (Failure ERR_PLAYER_NOT_IN_ROOM, r)
      else
        let r' = r\<lparr>players := remove1 p (players r)\<rparr>
        in (Success, if players r' = [] then r'\<lparr>state := ROOM_STATE_DESTROYED\<rparr> else r'))"

text \<open>The part of \<open>RoomInfo\<close> that \<open>ToProto\<close> fills in.\<close>

record room_info =
  ri_room_id :: string
  ri_player_count :: int
  ri_max_players :: int
  ri_room_state :: room_status

definition ToProto :: "game_room \<Rightarrow> room_info" where
  "ToProto r = \<lparr>ri_room_id = room_id r, ri_player_count = player_count r,
     ri_max_players = max_players r, ri_room_state = state r\<rparr>"

subsection \<open>Frame synchronisation\<close>

definition InitFrameSync :: "int \<Rightarrow> nat \<Rightarrow> nat \<Rightarrow> game_room \<Rightarrow> game_room" where
  "InitFrameSync fps history_size snapshot_max r =
     r\<lparr>input_buffer := Some (new_input_buffer history_size),
       snapshot_mgr := Some (new_snapshot_manager snapshot_max),
       frame_sync := Some (new_frame_sync (1000 div fps) history_size)\<rparr>"

definition HasFrameSync :: "game_room \<Rightarrow> bool" where
  "HasFrameSync r \<longleftrightarrow> frame_sync r \<noteq> None"

definition StartFrameSync :: "int \<Rightarrow> game_room \<Rightarrow> game_room" where
  "StartFrameSync now r =
     (case frame_sync r of
        None \<Rightarrow> r
      | Some fs \<Rightarrow>
          (case Start now FrameTimer (rtimer r, fs) of
             (tm, fs') \<Rightarrow> r\<lparr>rtimer := tm, frame_sync := Some fs'\<rparr>))"

definition StopFrameSync :: "game_room \<Rightarrow> game_room" where
  "StopFrameSync r = r\<lparr>frame_sync := map_option Stop (frame_sync r)\<rparr>"

definition OnPlayerFrameInput :: "u32 \<Rightarrow> string \<Rightarrow> bytes \<Rightarrow> game_room \<Rightarrow> game_room" where
  "OnPlayerFrameInput no p inp r =
     (case frame_sync r of
        None \<Rightarrow> r
      | Some fs \<Rightarrow> r\<lparr>input_buffer := map_option (OnPlayerInput no p inp) (input_buffer r)\<rparr>)"

subsection \<open>The room's timers\<close>

text \<open>
  The two callbacks a room's timers hold: the timeout set by \<open>RoomManager::CreateRoom\<close> and the
  frame loop. The timers are threaded beside the room; \<open>RoomTick\<close> puts them back.
\<close>

fun fire_room :: "int \<Rightarrow> room_callback \<Rightarrow> room_callback timer_manager \<times> game_room \<Rightarrow>
    room_callback timer_manager \<times> game_room" where
  "fire_room now RoomTimeout (tm, r) =
     (tm, if state r = ROOM_STATE_PLAYING then r else SetState ROOM_STATE_DESTROYED r)"
| "fire_room now FrameTimer (tm, r) =
     (case (frame_sync r, input_buffer r) of
        (Some fs, Some ib) \<Rightarrow>
          (case TickCallback now FrameTimer (tm, fs, ib) of
             (tm', fs', ib') \<Rightarrow> (tm', r\<lparr>frame_sync := Some fs', input_buffer := Some ib'\<rparr>))
      | _ \<Rightarrow> (tm, r))"

definition RoomTick :: "int \<Rightarrow> game_room \<Rightarrow> game_room option" where
  "RoomTick now r =
     map_option (\<lambda>(n, tm, r'). r'\<lparr>rtimer := tm\<rparr>) (TimerTick (fire_room now) now (rtimer r, r))"

subsection \<open>The invariant of a room\<close>

text \<open>
  No player twice, and never more players than allowed; the owner enters whatever the limit says.
\<close>

definition room_ok :: "game_room \<Rightarrow> bool" where
  "room_ok r \<longleftrightarrow> distinct (players r) \<and> player_count r \<le> max 1 (max_players r)"

lemma room_ok_new [simp]: "room_ok (new_room rid owner maxp)"
  by (simp add: room_ok_def new_room_def player_count_def)

lemma AddPlayer_result [room_simps]:
  "AddPlayer p r = (Success, r') \<longleftrightarrow>
     (state r = ROOM_STATE_IDLE \<or> state r = ROOM_STATE_WAITING) \<and> \<not> is_full r \<and> \<not> HasPlayer p r \<and>
     r' = r\<lparr>players := players r @ [p]\<rparr>"
  "res_ok (fst (AddPlayer p r)) \<Longrightarrow> AddPlayer p r = (Success, r\<lparr>players := players r @ [p]\<rparr>)"
  "\<not> res_ok (fst (AddPlayer p r)) \<Longrightarrow> snd (AddPlayer p r) = r"
  by (auto simp: AddPlayer_def split: if_splits)

lemma RemovePlayer_result [room_simps]:
  "res_ok (fst (RemovePlayer p r)) \<longleftrightarrow> p \<in> set (players r)"
  "p \<in> set (players r) \<Longrightarrow> fst (RemovePlayer p r) = Success"
  "p \<notin> set (players r) \<Longrightarrow> RemovePlayer p r = (Failure ERR_PLAYER_NOT_IN_ROOM, r)"
  "players (snd (RemovePlayer p r)) = remove1 p (players r)"
  "room_id (snd (RemovePlayer p r)) = room_id r"
  "owner_id (snd (RemovePlayer p r)) = owner_id r"
  "max_players (snd (RemovePlayer p r)) = max_players r"
  by (auto simp: RemovePlayer_def Let_def remove1_idem)

lemma AddPlayer_ok: "room_ok r \<Longrightarrow> room_ok (snd (AddPlayer p r))"
  by (auto simp: room_ok_def AddPlayer_def is_full_def HasPlayer_def player_count_def)

lemma RemovePlayer_ok: "room_ok r \<Longrightarrow> room_ok (snd (RemovePlayer p r))"
  by (auto simp: room_ok_def RemovePlayer_result player_count_def length_remove1)

text \<open>The other operations keep the players.\<close>

definition same_players :: "game_room \<Rightarrow> game_room \<Rightarrow> bool" where
  "same_players r r' \<longleftrightarrow> room_id r' = room_id r \<and> owner_id r' = owner_id r \<and>
     players r' = players r \<and> max_players r' = max_players r"

lemma same_players_refl [simp]: "same_players r r"
  by (simp add: same_players_def)

lemma same_players_trans: "same_players r s \<Longrightarrow> same_players s t \<Longrightarrow> same_players r t"
  by (simp add: same_players_def)

lemma same_players_ok: "same_players r r' \<Longrightarrow> room_ok r' = room_ok r"
  by (simp add: same_players_def room_ok_def player_count_def)

lemma same_players_ops [simp]:
  "same_players r (SetState s r)" "same_players r (InitFrameSync fps h n r)"
  "same_players r (StartFrameSync now r)" "same_players r (StopFrameSync r)"
  "same_players r (OnPlayerFrameInput no p inp r)" "same_players r (r\<lparr>rtimer := tm\<rparr>)"
  "same_players r (r\<lparr>frame_sync := fs, input_buffer := ib\<rparr>)"
  by (auto simp: same_players_def SetState_def InitFrameSync_def StartFrameSync_def StopFrameSync_def
      OnPlayerFrameInput_def split: option.split prod.split)

lemma fire_room_players: "same_players r (snd (fire_room now cb (tm, r)))"
  by (cases cb) (auto split: option.split prod.split)

lemma tick_loop_room_players:
  assumes "tick_loop fire now k st = Some res"
  shows "fire = fire_room now \<Longrightarrow> same_players (snd st) (snd (snd res))"
  using assms
proof (induction fire now k st res rule: tick_loop.raw_induct [rotated, consumes 1, case_names 1])
  case (1 loop fire now k st res)
  obtain tm r where st: "st = (tm, r)" by force
  let ?t = "hd (theap tm)" and ?st1 = "(tm\<lparr>theap := pop_heap deadline (theap tm)\<rparr>, r)"
  show ?case
  proof (cases "theap tm \<noteq> [] \<and> deadline ?t \<le> now")
    case False
    with 1(2) show ?thesis by (auto simp: st Let_def)
  next
    case True
    with 1(2) consider "loop fire now k ?st1 = Some res"
      | cb where "loop fire now (k + 1) (fire cb ?st1) = Some res"
      by (auto simp: st Let_def split: option.splits if_splits)
    then show ?thesis
    proof cases
      case 1
      from "1.IH" [OF this] "1.prems" show ?thesis by (simp add: st)
    next
      case 2
      from "1.IH" [OF this] "1.prems" fire_room_players [of r now cb "fst ?st1"] show ?thesis
        by (auto simp: st intro: same_players_trans)
    qed
  qed
qed

lemma RoomTick_players: "RoomTick now r = Some r' \<Longrightarrow> same_players r r'"
  by (auto simp: RoomTick_def TimerTick_def dest!: tick_loop_room_players
      intro: same_players_trans)


subsection \<open>Ticking a room returns\<close>

text \<open>The frame interval is positive, as \<open>InitFrameSync\<close> makes it for up to 1000 frames a second.\<close>

definition frames_ok :: "game_room \<Rightarrow> bool" where
  "frames_ok r \<longleftrightarrow> (case frame_sync r of None \<Rightarrow> True | Some fs \<Rightarrow> 0 < tick_interval_ms fs)"

lemma frames_ok_init: "0 < fps \<Longrightarrow> fps \<le> 1000 \<Longrightarrow> frames_ok (InitFrameSync fps h n r)"
  by (simp add: frames_ok_def InitFrameSync_def new_frame_sync_def pos_imp_zdiv_pos_iff)

lemma frames_ok_ops [simp]:
  "frames_ok (new_room rid owner maxp)" "frames_ok (SetState s r) = frames_ok r"
  "frames_ok (r\<lparr>rtimer := tm\<rparr>) = frames_ok r" "frames_ok (r\<lparr>players := ps\<rparr>) = frames_ok r"
  "frames_ok (StopFrameSync r) = frames_ok r" "frames_ok (OnPlayerFrameInput no p inp r) = frames_ok r"
  "frames_ok (StartFrameSync now r) = frames_ok r"
  "frames_ok (snd (AddPlayer p r)) = frames_ok r" "frames_ok (snd (RemovePlayer p r)) = frames_ok r"
  by (auto simp: frames_ok_def new_room_def SetState_def StopFrameSync_def Stop_def OnPlayerFrameInput_def
      StartFrameSync_def Start_def AddPlayer_def RemovePlayer_def Let_def split: option.splits prod.splits if_splits)

lemma fire_room_no_new_due: "no_new_due frames_ok (fire_room now) now"
proof -
  have "frames_ok (snd (fire_room now cb (m, s))) \<and> timers_ok (fst (fire_room now cb (m, s))) \<and>
      size (due now (theap (fst (fire_room now cb (m, s))))) \<le> size (due now (theap m))"
    if "frames_ok s" "timers_ok m" for cb m s
  proof (cases cb)
    case FrameTimer
    show ?thesis
    proof (cases "\<exists>fs ib. frame_sync s = Some fs \<and> input_buffer s = Some ib \<and> running_flag fs")
      case True
      then obtain fs ib where *: "frame_sync s = Some fs" "input_buffer s = Some ib" "running_flag fs" by blast
      obtain fs' ib' where t: "snd (FrameTick (fs, ib)) = (fs', ib')" by force
      have "due now (theap (RescheduleTick now (tick_interval_ms fs) FrameTimer m)) = due now (theap m)"
        using that(1) * by (simp add: frames_ok_def due_def RescheduleTick_heap)
      moreover have "tick_interval_ms fs' = tick_interval_ms fs"
        using FrameTick_fields(3) [of fs ib] t by simp
      ultimately show ?thesis using that * t FrameTimer
        by (simp add: TickCallback_def frames_ok_def RescheduleTick_def Schedule_ok)
    next
      case False
      then show ?thesis using that FrameTimer
        by (auto simp: TickCallback_def frames_ok_def split: option.splits)
    qed
  qed (use that in simp)
  then show ?thesis by (simp add: no_new_due_def)
qed

lemma RoomTick_returns:
  assumes "timers_ok (rtimer r)" and "frames_ok r"
  shows "\<exists>r'. RoomTick now r = Some r' \<and> timers_ok (rtimer r') \<and> frames_ok r'"
proof -
  obtain n m' s' where "TimerTick (fire_room now) now (rtimer r, r) = Some (n, m', s')"
    "timers_ok m'" "frames_ok s'"
    using tick_terminates_lemma [OF assms fire_room_no_new_due] by blast
  then show ?thesis by (auto simp: RoomTick_def)
qed

end
