(* ===== verification/Room_Manager.thy ===== *)
theory Room_Manager
  imports Game_Room
begin

text \<open>
  \<open>include/game/room_manager.h\<close>, \<open>src/game/room_manager.cpp\<close> and the broadcaster of
  \<open>include/game/broadcast.h\<close>, \<open>src/game/broadcast.cpp\<close>: the rooms of the server, the map
  from players to rooms, and the operations that also tell the other players. \<open>rooms_\<close> is the
  association list of its entries in iteration order. A message is a value of
  \<open>notification\<close> (its Protobuf encoding is generated code); sending it to a player is an entry
  of the returned list.
\<close>

subsection \<open>State\<close>

record room_manager =
  rooms :: "(string \<times> game_room) list"
  player_room :: "string \<rightharpoonup> string"
  room_id_counter :: u64

definition empty_manager :: room_manager where
  "empty_manager = \<lparr>rooms = [], player_room = Map.empty, room_id_counter = 1\<rparr>"

definition kDefaultRoomTimeoutMs :: int where
  "kDefaultRoomTimeoutMs = 5 * 60 * 1000"

text \<open>\<open>setfill('0') << setw(3)\<close>: the digits of \<open>dec\<close>, at least three of them.\<close>

definition room_name :: "nat \<Rightarrow> string" where
  "room_name n = ''room_'' @ replicate (3 - length (dec n)) CHR ''0'' @ dec n"

definition GenerateRoomId :: "room_manager \<Rightarrow> string \<times> room_manager" where
  "GenerateRoomId m =
     (room_name (unat (room_id_counter m)), m\<lparr>room_id_counter := room_id_counter m + 1\<rparr>)"

definition RemovePlayerFromMap :: "string \<Rightarrow> (string \<rightharpoonup> string) \<Rightarrow> string \<rightharpoonup> string" where
  "RemovePlayerFromMap p pm = pm(p := None)"

definition ClearRoomPlayers :: "game_room \<Rightarrow> (string \<rightharpoonup> string) \<Rightarrow> string \<rightharpoonup> string" where
  "ClearRoomPlayers r pm = fold RemovePlayerFromMap (players r) pm"

text \<open>The empty string when the player is in no room.\<close>

definition GetPlayerRoom :: "string \<Rightarrow> room_manager \<Rightarrow> string" where
  "GetPlayerRoom p m = (case player_room m p of Some rid \<Rightarrow> rid | None \<Rightarrow> '''')"

definition GetAllRoomIds :: "room_manager \<Rightarrow> string list" where
  "GetAllRoomIds m = map fst (rooms m)"

definition GetRoom :: "string \<Rightarrow> room_manager \<Rightarrow> game_room option" where
  "GetRoom rid m = map_of (rooms m) rid"

text \<open>What a caller does through the pointer \<open>GetRoom\<close> returns.\<close>

definition update_room :: "string \<Rightarrow> (game_room \<Rightarrow> game_room) \<Rightarrow> room_manager \<Rightarrow> room_manager" where
  "update_room rid f m = m\<lparr>rooms := AList.map_entry rid f (rooms m)\<rparr>"

subsection \<open>Creating, joining, leaving, starting\<close>

definition CreateRoom :: "int \<Rightarrow> string \<Rightarrow> int \<Rightarrow> int \<Rightarrow> room_manager \<Rightarrow> result \<times> room_manager" where
  "CreateRoom now p maxp timeout_ms m =
     (if player_room m p \<noteq> None then (Failure ERR_PLAYER_ALREADY_IN_ROOM, m)
      else
        let (rid, m1) = GenerateRoomId m;
            r = new_room rid p maxp;
            r' = (if 0 < timeout_ms
                  then r\<lparr>rtimer := snd (Schedule now timeout_ms RoomTimeout (rtimer r))\<rparr> else r)
        in (CreateSuccess rid,
            m1\<lparr>player_room := (player_room m1)(p \<mapsto> rid),
               rooms := AList.update rid r' (rooms m1)\<rparr>))"

definition JoinRoom :: "string \<Rightarrow> string \<Rightarrow> room_manager \<Rightarrow> result \<times> room_manager" where
  "JoinRoom rid p m =
     (case GetRoom rid m of
        None \<Rightarrow> (Failure ERR_ROOM_NOT_FOUND, m)
      | Some r \<Rightarrow>
          (if player_room m p \<noteq> None \<and> player_room m p \<noteq> Some rid
           then (Failure ERR_PLAYER_ALREADY_IN_ROOM, m)
           else
             let (res, r') = AddPlayer p r
             in if \<not> res_ok res then (res, m)
                else (Success, (update_room rid (\<lambda>_. r') m)\<lparr>player_room := (player_room m)(p \<mapsto> rid)\<rparr>)))"

definition LeaveRoom :: "string \<Rightarrow> string \<Rightarrow> room_manager \<Rightarrow> result \<times> room_manager" where
  "LeaveRoom rid p m =
     (case GetRoom rid m of
        None \<Rightarrow> (Failure ERR_ROOM_NOT_FOUND, m)
      | Some r \<Rightarrow>
          let (res, r') = RemovePlayer p r
          in if \<not> res_ok res then (res, m)
             else (Success, (update_room rid (\<lambda>_. r') m)
                              \<lparr>player_room := RemovePlayerFromMap p (player_room m)\<rparr>))"

definition StartGame :: "string \<Rightarrow> string \<Rightarrow> room_manager \<Rightarrow> result \<times> room_manager" where
  "StartGame rid requester m =
     (case GetRoom rid m of
        None \<Rightarrow> (Failure ERR_ROOM_NOT_FOUND, m)
      | Some r \<Rightarrow>
          if requester \<noteq> owner_id r then (Failure ERR_NOT_OWNER, m)
          else if state r \<noteq> ROOM_STATE_WAITING then (Failure ERR_WRONG_ROOM_STATE, m)
          else (Success, update_room rid (SetState ROOM_STATE_PLAYING) m))"

subsection \<open>Removing and cleaning up\<close>

definition RemoveRoom :: "string \<Rightarrow> room_manager \<Rightarrow> bool \<times> room_manager" where
  "RemoveRoom rid m =
     (case GetRoom rid m of
        None \<Rightarrow> (False, m)
      | Some r \<Rightarrow> (True, m\<lparr>rooms := AList.delete rid (rooms m),
                          player_room := ClearRoomPlayers r (player_room m)\<rparr>))"

fun cleanup_loop :: "(string \<times> game_room) list \<Rightarrow> (string \<rightharpoonup> string) \<Rightarrow>
    nat \<times> (string \<times> game_room) list \<times> (string \<rightharpoonup> string)" where
  "cleanup_loop [] pm = (0, [], pm)"
| "cleanup_loop ((rid, r) # rs) pm =
     (if state r = ROOM_STATE_DESTROYED
      then (case cleanup_loop rs (ClearRoomPlayers r pm) of (n, rs', pm') \<Rightarrow> (Suc n, rs', pm'))
      else (case cleanup_loop rs pm of (n, rs', pm') \<Rightarrow> (n, (rid, r) # rs', pm')))"

definition CleanupDestroyed :: "room_manager \<Rightarrow> nat \<times> room_manager" where
  "CleanupDestroyed m =
     (case cleanup_loop (rooms m) (player_room m) of
        (n, rs, pm) \<Rightarrow> (n, m\<lparr>rooms := rs, player_room := pm\<rparr>))"

text \<open>\<open>None\<close> if ticking a room's timers does not return.\<close>

definition CheckRoomTimeout :: "int \<Rightarrow> room_manager \<Rightarrow> (nat \<times> room_manager) option" where
  "CheckRoomTimeout now m =
     map_option (\<lambda>rs. CleanupDestroyed (m\<lparr>rooms := rs\<rparr>))
       (those (map (\<lambda>(rid, r). map_option (Pair rid) (RoomTick now r)) (rooms m)))"

subsection \<open>Broadcasting\<close>

datatype notification =
    PlayerJoinNtf string string int
  | PlayerLeaveNtf string string int
  | GameStartNtf string int
  | RoomBroadcastMsg string string string int
  | FrameData u32 "(string \<times> bytes) list"
  | MatchFoundNtf string string string int int

type_synonym sends = "(string \<times> notification) list"

definition BroadcastToRoom :: "string \<Rightarrow> notification \<Rightarrow> room_manager \<Rightarrow> sends" where
  "BroadcastToRoom rid msg m =
     (case GetRoom rid m of
        None \<Rightarrow> []
      | Some r \<Rightarrow> map (\<lambda>p. (p, msg)) (players r))"

definition BroadcastToRoomExcept :: "string \<Rightarrow> string \<Rightarrow> notification \<Rightarrow> room_manager \<Rightarrow> sends" where
  "BroadcastToRoomExcept rid ex msg m =
     (case GetRoom rid m of
        None \<Rightarrow> []
      | Some r \<Rightarrow> map (\<lambda>p. (p, msg)) (filter (\<lambda>p. p \<noteq> ex) (players r)))"

text \<open>\<open>bcast\<close> says whether the \<open>Broadcast\<close> pointer is non-null.\<close>

definition room_count_of :: "string \<Rightarrow> room_manager \<Rightarrow> int" where
  "room_count_of rid m = (case GetRoom rid m of None \<Rightarrow> 0 | Some r \<Rightarrow> player_count r)"

definition JoinRoomAndNotify ::
  "bool \<Rightarrow> string \<Rightarrow> string \<Rightarrow> room_manager \<Rightarrow> result \<times> room_manager \<times> sends" where
  "JoinRoomAndNotify bcast rid p m =
     (case JoinRoom rid p m of
        (res, m1) \<Rightarrow>
          if \<not> res_ok res then (res, m1, [])
          else (Success, m1,
                if bcast
                then BroadcastToRoomExcept rid p (PlayerJoinNtf rid p (room_count_of rid m1)) m1
                else []))"

definition LeaveRoomAndNotify ::
  "bool \<Rightarrow> string \<Rightarrow> string \<Rightarrow> room_manager \<Rightarrow> result \<times> room_manager \<times> sends" where
  "LeaveRoomAndNotify bcast rid p m =
     (case GetRoom rid m of
        None \<Rightarrow> (Failure ERR_ROOM_NOT_FOUND, m, [])
      | Some _ \<Rightarrow>
          (case LeaveRoom rid p m of
             (res, m1) \<Rightarrow>
               if \<not> res_ok res then (res, m1, [])
               else (Success, m1,
                     case GetRoom rid m1 of
                       None \<Rightarrow> []
                     | Some r \<Rightarrow>
                         if bcast \<and> state r \<noteq> ROOM_STATE_DESTROYED
                         then BroadcastToRoom rid (PlayerLeaveNtf rid p (player_count r)) m1
                         else [])))"

definition StartGameAndNotify ::
  "int \<Rightarrow> bool \<Rightarrow> string \<Rightarrow> string \<Rightarrow> room_manager \<Rightarrow> result \<times> room_manager \<times> sends" where
  "StartGameAndNotify now bcast rid requester m =
     (case StartGame rid requester m of
        (res, m1) \<Rightarrow>
          if \<not> res_ok res then (res, m1, [])
          else (Success, m1, if bcast then BroadcastToRoom rid (GameStartNtf rid now) m1 else []))"

subsection \<open>Room names\<close>

lemma room_name_inj [simp]: "room_name i = room_name j \<longleftrightarrow> i = j"
proof
  assume "room_name i = room_name j"
  then have "undec (replicate (3 - length (dec i)) CHR ''0'' @ dec i) =
      undec (replicate (3 - length (dec j)) CHR ''0'' @ dec j)" by (simp add: room_name_def)
  then show "i = j" by (simp add: undec_zeros undec_dec)
qed simp


subsection \<open>The contract of a room directory\<close>

text \<open>
  What the broadcaster, the services and the match maker rely on: the roster of a room and the map
  from players to rooms agree, so a player is in at most one room.
\<close>

locale room_directory =
  fixes ok :: "'m \<Rightarrow> bool"
    and room_of :: "'m \<Rightarrow> string \<Rightarrow> string option"
    and roster :: "'m \<Rightarrow> string \<Rightarrow> string list"
  assumes roster_iff: "ok m \<Longrightarrow> p \<in> set (roster m rid) \<longleftrightarrow> room_of m p = Some rid"
    and roster_distinct: "ok m \<Longrightarrow> distinct (roster m rid)"
begin

lemma one_room: "ok m \<Longrightarrow> p \<in> set (roster m rid) \<Longrightarrow> p \<in> set (roster m rid') \<Longrightarrow> rid = rid'"
  by (simp add: roster_iff)

lemma roster_all: "ok m \<Longrightarrow> set (roster m rid) = {p. room_of m p = Some rid}"
  using roster_iff by auto

lemma roster_members: "ok m \<Longrightarrow> length (roster m rid) = card {p. room_of m p = Some rid}"
  using roster_all distinct_card [OF roster_distinct] by metis

end

subsection \<open>The invariant\<close>

definition room_entry_ok :: "nat \<Rightarrow> string \<Rightarrow> game_room \<Rightarrow> bool" where
  "room_entry_ok n rid r \<longleftrightarrow> room_id r = rid \<and> room_ok r \<and> (\<exists>k < n. rid = room_name k)"

definition roster :: "room_manager \<Rightarrow> string \<Rightarrow> string list" where
  "roster m rid = (case GetRoom rid m of None \<Rightarrow> [] | Some r \<Rightarrow> players r)"

definition directory_ok :: "room_manager \<Rightarrow> bool" where
  "directory_ok m \<longleftrightarrow> distinct (map fst (rooms m)) \<and>
     (\<forall>rid r. GetRoom rid m = Some r \<longrightarrow> room_entry_ok (unat (room_id_counter m)) rid r) \<and>
     (\<forall>p rid. player_room m p = Some rid \<longleftrightarrow> p \<in> set (roster m rid))"

interpretation rooms: room_directory directory_ok player_room roster
  by unfold_locales
     (auto simp: directory_ok_def roster_def room_entry_ok_def room_ok_def split: option.splits)

lemma GetRoom_update [room_simps]:
  "GetRoom rid (update_room rid' f m) =
     (if rid = rid' then map_option f (GetRoom rid m) else GetRoom rid m)"
  by (auto simp: GetRoom_def update_room_def map_of_map_entry split: option.split)

lemma map_entry_absent: "map_of xs k = None \<Longrightarrow> AList.map_entry k f xs = xs"
  by (induction xs) (auto split: if_splits)

lemma map_entry_keys: "map fst (AList.map_entry k f xs) = map fst xs"
  by (induction xs) auto

lemma update_room_fields [simp]:
  "player_room (update_room rid f m) = player_room m"
  "room_id_counter (update_room rid f m) = room_id_counter m"
  "map fst (rooms (update_room rid f m)) = map fst (rooms m)"
  by (simp_all add: update_room_def map_entry_keys)

lemma GetRoom_fields [simp]:
  "GetRoom rid (m\<lparr>player_room := pm\<rparr>) = GetRoom rid m"
  "roster (m\<lparr>player_room := pm\<rparr>) = roster m"
  by (simp_all add: GetRoom_def roster_def fun_eq_iff)

lemma roster_update [room_simps]:
  "roster (update_room rid f m) rid' =
     (if rid' = rid then case GetRoom rid m of None \<Rightarrow> [] | Some r \<Rightarrow> players (f r) else roster m rid')"
  by (simp add: roster_def GetRoom_update split: option.split)

lemma room_entry_mono: "room_entry_ok n rid r \<Longrightarrow> n \<le> n' \<Longrightarrow> room_entry_ok n' rid r"
  by (auto simp: room_entry_ok_def intro: less_le_trans)

lemma directory_okD:
  assumes "directory_ok m" and "GetRoom rid m = Some r"
  shows "room_id r = rid" "room_ok r" "room_entry_ok (unat (room_id_counter m)) rid r"
    "roster m rid = players r" "p \<in> set (players r) \<longleftrightarrow> player_room m p = Some rid"
  using assms by (auto simp: directory_ok_def room_entry_ok_def roster_def)

text \<open>Replacing a room by one that is still in order, with the map following its players.\<close>

lemma directory_ok_change:
  assumes ok: "directory_ok m" and r: "GetRoom rid m = Some r"
    and f: "room_id (f r) = rid" "room_ok (f r)"
    and pm: "\<And>p rid'. pm p = Some rid' \<longleftrightarrow>
      p \<in> set (if rid' = rid then players (f r) else roster m rid')"
  shows "directory_ok ((update_room rid f m)\<lparr>player_room := pm\<rparr>)"
proof -
  have keys: "distinct (map fst (rooms m))" using ok by (simp add: directory_ok_def)
  have entry: "room_entry_ok (unat (room_id_counter m)) rid' r'"
    if "GetRoom rid' (update_room rid f m) = Some r'" for rid' r'
  proof (cases "rid' = rid")
    case True
    with that r have "r' = f r" by (simp add: GetRoom_update)
    with directory_okD(3) [OF ok r] f True show ?thesis by (simp add: room_entry_ok_def)
  next
    case False
    with that have "GetRoom rid' m = Some r'" by (simp add: GetRoom_update)
    then show ?thesis by (rule directory_okD(3) [OF ok])
  qed
  have ros: "roster (update_room rid f m) rid' = (if rid' = rid then players (f r) else roster m rid')" for rid'
    by (simp add: roster_update r)
  show ?thesis unfolding directory_ok_def
    using keys entry pm by (simp add: ros)
qed

lemma directory_ok_same:
  assumes "directory_ok m" and "\<And>r. GetRoom rid m = Some r \<Longrightarrow> same_players r (f r)"
  shows "directory_ok (update_room rid f m)"
proof (cases "GetRoom rid m")
  case None
  then have "AList.map_entry rid f (rooms m) = rooms m"
    by (simp add: GetRoom_def map_entry_absent)
  then have "update_room rid f m = m" by (simp add: update_room_def)
  with assms(1) show ?thesis by simp
next
  case (Some r)
  from assms(2) [OF this] have "same_players r (f r)" .
  then have "directory_ok ((update_room rid f m)\<lparr>player_room := player_room m\<rparr>)"
    using assms(1) directory_okD [OF assms(1) Some] same_players_ok [of r "f r"]
    by (intro directory_ok_change [OF assms(1) Some])
       (auto simp: same_players_def directory_ok_def roster_def Some)
  then show ?thesis by (simp add: update_room_def)
qed


subsection \<open>The operations keep it\<close>

lemma directory_ok_empty [simp]: "directory_ok empty_manager"
  by (simp add: directory_ok_def empty_manager_def GetRoom_def roster_def)

lemma fresh_room: "directory_ok m \<Longrightarrow> GetRoom (room_name (unat (room_id_counter m))) m = None"
proof (rule ccontr)
  assume ok: "directory_ok m" and "GetRoom (room_name (unat (room_id_counter m))) m \<noteq> None"
  then obtain r where "GetRoom (room_name (unat (room_id_counter m))) m = Some r" by blast
  from directory_okD(3) [OF ok this] show False by (simp add: room_entry_ok_def)
qed

text \<open>The counter is 64 bits wide; the room created before it wraps has a new name.\<close>

definition counter_left :: "room_manager \<Rightarrow> bool" where
  "counter_left m \<longleftrightarrow> unat (room_id_counter m) + 1 < 2 ^ 64"

lemma unat_counter: "counter_left m \<Longrightarrow> unat (room_id_counter m + 1) = unat (room_id_counter m) + 1"
  by (simp add: counter_left_def unat_word_ariths)

lemma CreateRoom_ok:
  assumes ok: "directory_ok m" and left: "counter_left m"
  shows "directory_ok (snd (CreateRoom now p maxp t m))"
proof (cases "player_room m p")
  case None
  let ?n = "unat (room_id_counter m)" and ?rid = "room_name (unat (room_id_counter m))"
  define r where "r = (if 0 < t
    then (new_room ?rid p maxp)\<lparr>rtimer := snd (Schedule now t RoomTimeout (rtimer (new_room ?rid p maxp)))\<rparr>
    else new_room ?rid p maxp)"
  define m' where "m' = m\<lparr>room_id_counter := room_id_counter m + 1,
    player_room := (player_room m)(p \<mapsto> ?rid), rooms := AList.update ?rid r (rooms m)\<rparr>"
  have m': "snd (CreateRoom now p maxp t m) = m'"
    using None by (simp add: CreateRoom_def GenerateRoomId_def Let_def r_def m'_def)
  have r: "room_id r = ?rid" "players r = [p]" "room_ok r"
    by (auto simp: r_def new_room_def room_ok_def player_count_def)
  have get: "GetRoom rid m' = (if rid = ?rid then Some r else GetRoom rid m)" for rid
    by (simp add: GetRoom_def m'_def update_conv')
  have fresh: "GetRoom ?rid m = None" using ok by (rule fresh_room)
  have "distinct (map fst (rooms m'))"
    using ok by (simp add: m'_def directory_ok_def distinct_update)
  moreover have "room_entry_ok (unat (room_id_counter m')) rid r'" if "GetRoom rid m' = Some r'" for rid r'
  proof (cases "rid = ?rid")
    case True
    with that get r have "r' = r" by simp
    with True r show ?thesis
      by (auto simp: room_entry_ok_def m'_def unat_counter [OF left])
  next
    case False
    with that get have "GetRoom rid m = Some r'" by simp
    from directory_okD(3) [OF ok this] show ?thesis
      by (rule room_entry_mono) (simp add: m'_def unat_counter [OF left])
  qed
  moreover have "player_room m' x = Some rid \<longleftrightarrow> x \<in> set (roster m' rid)" for x rid
  proof -
    have "roster m' rid = (if rid = ?rid then [p] else roster m rid)"
      using r by (simp add: roster_def get)
    moreover have "player_room m x \<noteq> Some ?rid"
      using rooms.roster_iff [OF ok, of x ?rid] by (simp add: roster_def fresh)
    moreover have "player_room m' = (player_room m)(p \<mapsto> ?rid)" by (simp add: m'_def)
    ultimately show ?thesis using None by (auto simp: rooms.roster_iff [OF ok])
  qed
  ultimately show ?thesis by (simp add: m' directory_ok_def)
qed (use ok in \<open>simp add: CreateRoom_def\<close>)

lemma JoinRoom_ok: "directory_ok m \<Longrightarrow> directory_ok (snd (JoinRoom rid p m))"
proof -
  assume ok: "directory_ok m"
  show ?thesis
  proof (cases "res_ok (fst (JoinRoom rid p m))")
    case False
    then show ?thesis using ok by (auto simp: JoinRoom_def Let_def split: option.splits if_splits prod.splits)
  next
    case True
    then obtain r where r: "GetRoom rid m = Some r" and a: "res_ok (fst (AddPlayer p r))"
      and free: "player_room m p = None \<or> player_room m p = Some rid"
      by (auto simp: JoinRoom_def Let_def split: option.splits if_splits prod.splits)
    note add = AddPlayer_result(2) [OF a]
    let ?f = "\<lambda>_. r\<lparr>players := players r @ [p]\<rparr>"
    have j: "snd (JoinRoom rid p m) = (update_room rid ?f m)\<lparr>player_room := (player_room m)(p \<mapsto> rid)\<rparr>"
      using r free add by (auto simp: JoinRoom_def Let_def)
    have "room_ok (?f r)" using AddPlayer_ok [of r p] directory_okD(2) [OF ok r] add by simp
    moreover have "((player_room m)(p \<mapsto> rid)) x = Some rid' \<longleftrightarrow>
        x \<in> set (if rid' = rid then players (?f r) else roster m rid')" for x rid'
      using free by (auto simp: rooms.roster_iff [OF ok] simp flip: directory_okD(4) [OF ok r])
    ultimately show ?thesis
      unfolding j using directory_okD(1) [OF ok r] by (intro directory_ok_change [OF ok r]) simp_all
  qed
qed

lemma LeaveRoom_ok: "directory_ok m \<Longrightarrow> directory_ok (snd (LeaveRoom rid p m))"
proof -
  assume ok: "directory_ok m"
  show ?thesis
  proof (cases "GetRoom rid m")
    case None
    then show ?thesis using ok by (simp add: LeaveRoom_def)
  next
    case (Some r)
    show ?thesis
    proof (cases "p \<in> set (players r)")
      case False
      then show ?thesis using ok Some by (simp add: LeaveRoom_def room_simps)
    next
      case True
      let ?f = "\<lambda>_. snd (RemovePlayer p r)"
      have l: "snd (LeaveRoom rid p m) =
          (update_room rid ?f m)\<lparr>player_room := RemovePlayerFromMap p (player_room m)\<rparr>"
        using Some True RemovePlayer_result(2) [OF True]
        by (cases "RemovePlayer p r") (simp add: LeaveRoom_def Let_def)
      have d: "distinct (players r)" using directory_okD(2) [OF ok Some] by (simp add: room_ok_def)
      have "RemovePlayerFromMap p (player_room m) x = Some rid' \<longleftrightarrow>
          x \<in> set (if rid' = rid then players (?f r) else roster m rid')" for x rid'
        using d True directory_okD(5) [OF ok Some]
        by (auto simp: rooms.roster_iff [OF ok] RemovePlayerFromMap_def room_simps)
      then show ?thesis
        unfolding l using directory_okD(1,2) [OF ok Some]
        by (intro directory_ok_change [OF ok Some]) (simp_all add: room_simps RemovePlayer_ok)
    qed
  qed
qed

lemma StartGame_ok: "directory_ok m \<Longrightarrow> directory_ok (snd (StartGame rid q m))"
  by (auto simp: StartGame_def split: option.split intro: directory_ok_same)


lemma ClearRoomPlayers_eq [room_simps]:
  "ClearRoomPlayers r pm p = (if p \<in> set (players r) then None else pm p)"
proof -
  have "fold RemovePlayerFromMap ps pm p = (if p \<in> set ps then None else pm p)" for ps
    by (induction ps arbitrary: pm) (auto simp: RemovePlayerFromMap_def)
  then show ?thesis by (simp add: ClearRoomPlayers_def)
qed

lemma ClearRoomPlayers_fun: "ClearRoomPlayers r pm = (\<lambda>p. if p \<in> set (players r) then None else pm p)"
  by (simp add: fun_eq_iff ClearRoomPlayers_eq)

lemma RemoveRoom_ok: "directory_ok m \<Longrightarrow> directory_ok (snd (RemoveRoom rid m))"
proof (cases "GetRoom rid m")
  case (Some r)
  assume ok: "directory_ok m"
  let ?m = "m\<lparr>rooms := AList.delete rid (rooms m), player_room := ClearRoomPlayers r (player_room m)\<rparr>"
  have get: "GetRoom rid' (m\<lparr>rooms := AList.delete rid (rooms m)\<rparr>) =
      (if rid' = rid then None else GetRoom rid' m)" for rid'
    by (simp add: GetRoom_def delete_conv')
  have "player_room ?m x = Some rid' \<longleftrightarrow> x \<in> set (roster ?m rid')" for x rid'
    using directory_okD(5) [OF ok Some, of x] rooms.roster_iff [OF ok, of x rid']
    by (auto simp: roster_def get room_simps)
  with ok have "directory_ok ?m"
    by (simp add: directory_ok_def get distinct_delete)
  with Some show ?thesis by (simp add: RemoveRoom_def)
qed (simp add: RemoveRoom_def)

lemma cleanup_loop_eq:
  "cleanup_loop rs pm =
     (length (filter (\<lambda>x. state (snd x) = ROOM_STATE_DESTROYED) rs),
      filter (\<lambda>x. state (snd x) \<noteq> ROOM_STATE_DESTROYED) rs,
      \<lambda>p. if \<exists>x \<in> set rs. state (snd x) = ROOM_STATE_DESTROYED \<and> p \<in> set (players (snd x))
           then None else pm p)"
  by (induction rs pm rule: cleanup_loop.induct) (auto simp: ClearRoomPlayers_fun fun_eq_iff)

lemma map_of_filter:
  "distinct (map fst xs) \<Longrightarrow> map_of (filter (\<lambda>x. P (snd x)) xs) k =
     (case map_of xs k of Some v \<Rightarrow> if P v then Some v else None | None \<Rightarrow> None)"
proof (induction xs)
  case (Cons x xs)
  then have "map_of xs k = None" if "fst x = k" using that by (auto simp: map_of_eq_None_iff)
  with Cons show ?case by (auto split: option.splits)
qed simp

lemma CleanupDestroyed_get:
  "directory_ok m \<Longrightarrow> GetRoom rid (snd (CleanupDestroyed m)) =
     (case GetRoom rid m of
        None \<Rightarrow> None
      | Some r \<Rightarrow> if state r = ROOM_STATE_DESTROYED then None else Some r)"
  by (simp add: CleanupDestroyed_def cleanup_loop_eq GetRoom_def directory_ok_def split: option.split)
     (simp add: map_of_filter [where P = "\<lambda>r. state r \<noteq> ROOM_STATE_DESTROYED"])

lemma CleanupDestroyed_map:
  assumes ok: "directory_ok m"
  shows "player_room (snd (CleanupDestroyed m)) p =
    (case player_room m p of
       None \<Rightarrow> None
     | Some rid \<Rightarrow> if \<exists>r. GetRoom rid m = Some r \<and> state r = ROOM_STATE_DESTROYED then None else Some rid)"
proof -
  have mem: "(\<exists>x \<in> set (rooms m). Q (snd x)) \<longleftrightarrow> (\<exists>rid r. GetRoom rid m = Some r \<and> Q r)" for Q
    using ok unfolding directory_ok_def GetRoom_def
    by (metis map_of_SomeD map_of_is_SomeI prod.collapse snd_conv)
  have q: "GetRoom rid m = Some r \<and> state r = ROOM_STATE_DESTROYED \<and> p \<in> set (players r) \<longleftrightarrow>
      GetRoom rid m = Some r \<and> state r = ROOM_STATE_DESTROYED \<and> player_room m p = Some rid" for rid r
    using directory_okD(5) [OF ok] by metis
  have "player_room (snd (CleanupDestroyed m)) p =
      (if \<exists>rid r. GetRoom rid m = Some r \<and> state r = ROOM_STATE_DESTROYED \<and> player_room m p = Some rid
       then None else player_room m p)"
    by (simp add: CleanupDestroyed_def cleanup_loop_eq mem [where Q = "\<lambda>r. state r = ROOM_STATE_DESTROYED \<and> p \<in> set (players r)"] q)
  then show ?thesis by (cases "player_room m p") simp_all
qed

lemma CleanupDestroyed_ok: "directory_ok m \<Longrightarrow> directory_ok (snd (CleanupDestroyed m))"
proof -
  assume ok: "directory_ok m"
  let ?m = "snd (CleanupDestroyed m)"
  have "room_id_counter ?m = room_id_counter m" "distinct (map fst (rooms ?m))"
    using ok by (auto simp: CleanupDestroyed_def cleanup_loop_eq directory_ok_def distinct_map
        intro: inj_on_subset)
  moreover have "player_room ?m p = Some rid \<longleftrightarrow> p \<in> set (roster ?m rid)" for p rid
    using rooms.roster_iff [OF ok, of p rid]
    by (auto simp: CleanupDestroyed_map [OF ok] roster_def CleanupDestroyed_get [OF ok] split: option.splits)
  ultimately show ?thesis
    using directory_okD(3) [OF ok]
    by (auto simp: directory_ok_def CleanupDestroyed_get [OF ok] split: option.splits if_splits)
qed

subsection \<open>Timeouts\<close>

lemma those_Some: "those xs = Some ys \<longleftrightarrow> xs = map Some ys"
proof (induction xs arbitrary: ys)
  case (Cons x xs)
  then show ?case by (cases x; cases ys) auto
qed auto

lemma those_rooms:
  assumes "those (map (\<lambda>(rid, r). map_option (Pair rid) (RoomTick now r)) rs) = Some rs'"
  shows "map fst rs' = map fst rs \<and>
    (\<forall>rid. rel_option (\<lambda>r r'. RoomTick now r = Some r') (map_of rs rid) (map_of rs' rid))"
proof -
  have "map (\<lambda>(rid, r). map_option (Pair rid) (RoomTick now r)) rs = map Some rs'"
    using assms by (simp add: those_Some)
  then show ?thesis
  proof (induction rs arbitrary: rs')
    case (Cons x rs)
    then show ?case by (cases x; cases rs') auto
  qed simp
qed

lemma directory_ok_rooms:
  assumes ok: "directory_ok m" and k: "map fst rs = map fst (rooms m)"
    and r: "\<And>rid. rel_option same_players (GetRoom rid m) (map_of rs rid)"
  shows "directory_ok (m\<lparr>rooms := rs\<rparr>)"
proof -
  have get: "GetRoom rid (m\<lparr>rooms := rs\<rparr>) = map_of rs rid" for rid by (simp add: GetRoom_def)
  have ros: "roster (m\<lparr>rooms := rs\<rparr>) = roster m"
  proof
    fix rid show "roster (m\<lparr>rooms := rs\<rparr>) rid = roster m rid"
      using r [of rid] by (cases "map_of rs rid"; cases "GetRoom rid m")
        (auto simp: roster_def get same_players_def)
  qed
  have "room_entry_ok (unat (room_id_counter m)) rid r'" if "map_of rs rid = Some r'" for rid r'
  proof -
    from r [of rid] that obtain r where "GetRoom rid m = Some r" "same_players r r'"
      by (cases "GetRoom rid m") auto
    with directory_okD(3) [OF ok, of rid r] same_players_ok [of r r'] show ?thesis
      by (simp add: room_entry_ok_def same_players_def)
  qed
  with ok k show ?thesis by (simp add: directory_ok_def get ros)
qed

lemma CheckRoomTimeout_ok:
  assumes ok: "directory_ok m" and c: "CheckRoomTimeout now m = Some (n, m')"
  shows "directory_ok m'"
proof -
  obtain rs where rs: "those (map (\<lambda>(rid, r). map_option (Pair rid) (RoomTick now r)) (rooms m)) = Some rs"
    "CleanupDestroyed (m\<lparr>rooms := rs\<rparr>) = (n, m')"
    using c by (auto simp: CheckRoomTimeout_def)
  have "directory_ok (m\<lparr>rooms := rs\<rparr>)"
  proof (rule directory_ok_rooms [OF ok])
    show "map fst rs = map fst (rooms m)" using those_rooms [OF rs(1)] by simp
    fix rid
    have "rel_option (\<lambda>r r'. RoomTick now r = Some r') (GetRoom rid m) (map_of rs rid)"
      using those_rooms [OF rs(1)] by (simp add: GetRoom_def)
    then show "rel_option same_players (GetRoom rid m) (map_of rs rid)"
      by (cases "GetRoom rid m"; cases "map_of rs rid") (simp_all add: RoomTick_players)
  qed
  from CleanupDestroyed_ok [OF this] show ?thesis using rs(2) by simp
qed


subsection \<open>Runs of the manager\<close>

text \<open>
  The requests of players and the server's own calls, in any order. \<open>step_update\<close> stands for
  what the services do through a room pointer (state changes and the frame loop), none of which
  touches the players.
\<close>

inductive room_step :: "room_manager \<Rightarrow> room_manager \<Rightarrow> bool" where
  step_create: "counter_left m \<Longrightarrow> room_step m (snd (CreateRoom now p maxp t m))"
| step_join: "room_step m (snd (JoinRoom rid p m))"
| step_leave: "room_step m (snd (LeaveRoom rid p m))"
| step_start: "room_step m (snd (StartGame rid p m))"
| step_remove: "room_step m (snd (RemoveRoom rid m))"
| step_cleanup: "room_step m (snd (CleanupDestroyed m))"
| step_timeout: "CheckRoomTimeout now m = Some (n, m') \<Longrightarrow> room_step m m'"
| step_update: "(\<And>r. same_players r (f r)) \<Longrightarrow> room_step m (update_room rid f m)"

lemmas room_ops_ok = CreateRoom_ok JoinRoom_ok LeaveRoom_ok StartGame_ok RemoveRoom_ok
  CleanupDestroyed_ok CheckRoomTimeout_ok directory_ok_same

lemma room_step_ok: "room_step m m' \<Longrightarrow> directory_ok m \<Longrightarrow> directory_ok m'"
  by (induction rule: room_step.induct) (auto intro: room_ops_ok)

interpretation manager: step_invariant "\<lambda>m. m = empty_manager" room_step directory_ok
proof
  show "directory_ok m" if "m = empty_manager" for m using that by simp
qed (rule room_step_ok)

subsection \<open>What the operations do\<close>

lemma JoinRoom_spec:
  assumes ok: "directory_ok m"
  shows "res_ok (fst (JoinRoom rid p m)) \<longleftrightarrow>
    (\<exists>r. GetRoom rid m = Some r \<and> (state r = ROOM_STATE_IDLE \<or> state r = ROOM_STATE_WAITING) \<and>
       player_count r < max_players r) \<and> player_room m p = None"
proof (cases "GetRoom rid m")
  case (Some r)
  have "HasPlayer p r \<longleftrightarrow> player_room m p = Some rid"
    using directory_okD(5) [OF ok Some] by (simp add: HasPlayer_def)
  with Some show ?thesis
    by (auto simp: JoinRoom_def AddPlayer_def is_full_def Let_def)
qed (simp add: JoinRoom_def)

lemma AddPlayer_players: "AddPlayer p r = (res, r') \<Longrightarrow> res_ok res \<Longrightarrow> players r' = players r @ [p]"
  by (auto simp: AddPlayer_def split: if_splits)

lemma JoinRoom_success:
  assumes "res_ok (fst (JoinRoom rid p m))"
  shows "roster (snd (JoinRoom rid p m)) rid = roster m rid @ [p] \<and>
    player_room (snd (JoinRoom rid p m)) = (player_room m)(p \<mapsto> rid) \<and>
    (\<forall>rid'. rid' \<noteq> rid \<longrightarrow> GetRoom rid' (snd (JoinRoom rid p m)) = GetRoom rid' m)"
  using assms
  by (auto simp: JoinRoom_def Let_def GetRoom_update roster_update roster_def AddPlayer_players
      split: option.splits if_splits prod.splits)

lemma JoinRoom_exact:
  assumes "res_ok (fst (JoinRoom rid p m))"
  shows "\<exists>r. GetRoom rid m = Some r \<and> GetRoom rid (snd (JoinRoom rid p m)) = Some (r\<lparr>players := players r @ [p]\<rparr>) \<and>
    (\<forall>rid'. rid' \<noteq> rid \<longrightarrow> GetRoom rid' (snd (JoinRoom rid p m)) = GetRoom rid' m) \<and>
    player_room (snd (JoinRoom rid p m)) = (player_room m)(p \<mapsto> rid) \<and>
    GetAllRoomIds (snd (JoinRoom rid p m)) = GetAllRoomIds m \<and> room_id_counter (snd (JoinRoom rid p m)) = room_id_counter m"
proof -
  obtain r where r: "GetRoom rid m = Some r" "res_ok (fst (AddPlayer p r))"
    using assms by (auto simp: JoinRoom_def Let_def split: option.splits if_splits prod.splits)
  have k: "map fst (AList.map_entry rid f xs) = map fst xs" for f and xs :: "(string \<times> game_room) list"
    by (induction xs) auto
  have "GetAllRoomIds (update_room rid f m\<lparr>player_room := pm\<rparr>) = GetAllRoomIds m"
    "room_id_counter (update_room rid f m) = room_id_counter m" for f pm
    by (simp_all add: GetAllRoomIds_def update_room_def k)
  then show ?thesis
    using assms r AddPlayer_result(2) [OF r(2)] by (auto simp: JoinRoom_def GetRoom_update split: if_splits)
qed

lemma JoinRoom_failure: "\<not> res_ok (fst (JoinRoom rid p m)) \<Longrightarrow> snd (JoinRoom rid p m) = m"
  by (auto simp: JoinRoom_def Let_def split: option.splits if_splits prod.splits)

lemma room_count_roster: "room_count_of rid m = int (length (roster m rid))"
  by (simp add: room_count_of_def roster_def player_count_def split: option.split)

lemma Broadcast_roster:
  "BroadcastToRoom rid msg m = map (\<lambda>p. (p, msg)) (roster m rid)"
  "BroadcastToRoomExcept rid ex msg m = map (\<lambda>p. (p, msg)) (filter (\<lambda>p. p \<noteq> ex) (roster m rid))"
  by (simp_all add: BroadcastToRoom_def BroadcastToRoomExcept_def roster_def split: option.split)

subsection \<open>Timers of all rooms\<close>

definition rooms_ticking :: "room_manager \<Rightarrow> bool" where
  "rooms_ticking m \<longleftrightarrow> (\<forall>x \<in> set (rooms m). timers_ok (rtimer (snd x)) \<and> frames_ok (snd x))"

lemma CheckRoomTimeout_returns:
  assumes "rooms_ticking m"
  shows "\<exists>n m'. CheckRoomTimeout now m = Some (n, m')"
proof -
  have "\<exists>rs'. those (map (\<lambda>(rid, r). map_option (Pair rid) (RoomTick now r)) rs) = Some rs'"
    if "\<forall>x \<in> set rs. timers_ok (rtimer (snd x)) \<and> frames_ok (snd x)" for rs :: "(string \<times> game_room) list"
    using that
  proof (induction rs)
    case (Cons x rs)
    obtain rid r where x: "x = (rid, r)" by force
    with Cons.prems obtain r' where "RoomTick now r = Some r'"
      using RoomTick_returns [of r now] by auto
    with Cons x show ?case by auto
  qed simp
  from this [of "rooms m"] assms show ?thesis
    by (cases "CleanupDestroyed (m\<lparr>rooms := the (those (map (\<lambda>(rid, r). map_option (Pair rid) (RoomTick now r)) (rooms m)))\<rparr>)")
       (auto simp: rooms_ticking_def CheckRoomTimeout_def)
qed

text \<open>A room whose only timer is an expired timeout.\<close>

definition timed_out :: "int \<Rightarrow> game_room \<Rightarrow> bool" where
  "timed_out now r \<longleftrightarrow> state r \<noteq> ROOM_STATE_PLAYING \<and>
     (\<exists>t. theap (rtimer r) = [t] \<and> callback t = Some RoomTimeout \<and> \<not> cancelled t \<and> deadline t \<le> now)"

lemma RoomTick_timed_out:
  assumes "timed_out now r" and "RoomTick now r = Some r'"
  shows "state r' = ROOM_STATE_DESTROYED"
proof -
  obtain t where t: "theap (rtimer r) = [t]" "callback t = Some RoomTimeout" "\<not> cancelled t" "deadline t \<le> now"
    using assms(1) by (auto simp: timed_out_def)
  have "TimerTick (fire_room now) now (rtimer r, r) =
      Some (1, (rtimer r)\<lparr>theap := []\<rparr>, SetState ROOM_STATE_DESTROYED r)"
    using t assms(1)
    by (simp add: TimerTick_def CleanCancelled_def clean_heap.simps tick_loop.simps [of _ _ 0]
        tick_loop.simps [of _ _ "Suc 0"] Let_def pop_heap_def timed_out_def)
  with assms(2) show ?thesis by (auto simp: RoomTick_def SetState_def)
qed

subsection \<open>Properties\<close>

text \<open>
  C20. Whatever the players and the server do, the map from players to rooms and the rosters agree:
  a player is recorded in a room exactly when the room lists the player, hence in at most one
  room, no roster lists a player twice, and none exceeds its room's capacity (the owner always
  fits).
\<close>

theorem room_directory_consistent:
  assumes "room_step\<^sup>*\<^sup>* empty_manager m"
  shows "(player_room m p = Some rid \<longleftrightarrow> (\<exists>r. GetRoom rid m = Some r \<and> p \<in> set (players r))) \<and>
    (\<forall>r. GetRoom rid m = Some r \<longrightarrow>
       distinct (players r) \<and> player_count r \<le> max 1 (max_players r) \<and> room_id r = rid)"
proof -
  have ok: "directory_ok m" using assms by (rule manager.reachable_inv [OF refl])
  show ?thesis
    using rooms.roster_iff [OF ok, of p rid] directory_okD(1,2) [OF ok, of rid]
    by (cases "GetRoom rid m") (simp_all add: roster_def room_ok_def)
qed

theorem room_directory_consistent_witness:
  "let m = snd (JoinRoom (room_name 1) ''bob'' (snd (CreateRoom 0 ''ann'' 2 1000 empty_manager)))
   in player_room m ''bob'' = Some (room_name 1) \<longleftrightarrow>
      (\<exists>r. GetRoom (room_name 1) m = Some r \<and> ''bob'' \<in> set (players r))"
proof -
  let ?m1 = "snd (CreateRoom 0 ''ann'' 2 1000 empty_manager)"
  let ?m = "snd (JoinRoom (room_name 1) ''bob'' ?m1)"
  have "room_step empty_manager ?m1"
    by (rule step_create) (simp add: counter_left_def empty_manager_def)
  moreover have "room_step ?m1 ?m" by (rule step_join)
  ultimately have "room_step\<^sup>*\<^sup>* empty_manager ?m" by simp
  from room_directory_consistent [OF this, of "''bob''" "room_name 1"] show ?thesis
    unfolding Let_def by (rule conjunct1)
qed

text \<open>
  C21. Joining succeeds exactly when the room exists, is open (idle or waiting), has a free place and
  the player is in no room; then the player is appended to its roster and mapped to it, and nothing else
  changes: not the state, owner, capacity, timers or frame loop of the room, no other room, no other
  player. A failed join gives an error and changes nothing.
\<close>

theorem join_room_exact:
  assumes "directory_ok m"
  shows "if (\<exists>r. GetRoom rid m = Some r \<and> (state r = ROOM_STATE_IDLE \<or> state r = ROOM_STATE_WAITING) \<and>
              player_count r < max_players r) \<and> player_room m p = None
    then \<exists>r m'. JoinRoom rid p m = (Success, m') \<and>
      GetRoom rid m = Some r \<and> GetRoom rid m' = Some (r\<lparr>players := players r @ [p]\<rparr>) \<and>
      (\<forall>rid'. rid' \<noteq> rid \<longrightarrow> GetRoom rid' m' = GetRoom rid' m) \<and>
      player_room m' = (player_room m)(p \<mapsto> rid) \<and>
      GetAllRoomIds m' = GetAllRoomIds m \<and> room_id_counter m' = room_id_counter m
    else \<exists>c. c \<noteq> ERR_NONE \<and> JoinRoom rid p m = (Failure c, m)"
proof -
  have "fst (JoinRoom rid p m) = Success \<or> (\<exists>c. c \<noteq> ERR_NONE \<and> fst (JoinRoom rid p m) = Failure c)"
    by (auto simp: JoinRoom_def AddPlayer_def Let_def split: option.splits)
  then show ?thesis
    using JoinRoom_spec [OF assms, of rid p] JoinRoom_exact [of rid p m] JoinRoom_failure [of rid p m]
    by (cases "JoinRoom rid p m") (auto simp: Success_def Failure_def)
qed

text \<open>The second player joins the room the first has created, which is idle.\<close>

theorem join_room_exact_witness:
  "let m = snd (CreateRoom 0 ''ann'' 2 60000 empty_manager); m' = snd (JoinRoom (room_name 1) ''bob'' m)
   in fst (JoinRoom (room_name 1) ''bob'' m) = Success \<and> player_room m' ''bob'' = Some (room_name 1) \<and>
      (\<exists>r. GetRoom (room_name 1) m = Some r \<and> GetRoom (room_name 1) m' = Some (r\<lparr>players := [''ann'', ''bob'']\<rparr>))"
proof -
  let ?m = "snd (CreateRoom 0 ''ann'' 2 60000 empty_manager)"
  have ok: "directory_ok ?m"
    by (rule CreateRoom_ok [OF directory_ok_empty]) (simp add: counter_left_def empty_manager_def)
  obtain r where r: "GetRoom (room_name 1) ?m = Some r" "state r = ROOM_STATE_IDLE" "players r = [''ann'']" "max_players r = 2"
    and free: "player_room ?m ''bob'' = None"
    by (simp add: CreateRoom_def GenerateRoomId_def empty_manager_def Let_def GetRoom_def new_room_def)
  from join_room_exact [OF ok, of "room_name 1" "''bob''"] show ?thesis
    unfolding Let_def using r free by (auto simp: player_count_def)
qed

text \<open>
  A successful \<open>JoinRoomAndNotify\<close> sends one notification, with the new number of players,
  to each player who was already in the room, and none to the one who joined.
\<close>

lemma join_notifies_others:
  assumes "directory_ok m" and "res_ok (fst (JoinRoomAndNotify True rid p m))"
  shows "snd (snd (JoinRoomAndNotify True rid p m)) =
    map (\<lambda>x. (x, PlayerJoinNtf rid p (int (length (roster m rid)) + 1))) (roster m rid)"
proof -
  obtain res m1 where j: "JoinRoom rid p m = (res, m1)" by force
  then have res: "res_ok res" using assms(2) by (auto simp: JoinRoomAndNotify_def split: if_splits)
  then have r1: "roster m1 rid = roster m rid @ [p]" and free: "player_room m p = None"
    using JoinRoom_success [of rid p m] JoinRoom_spec [OF assms(1), of rid p] j by auto
  have "p \<notin> set (roster m rid)" using rooms.roster_iff [OF assms(1)] free by simp
  then have "filter (\<lambda>x. x \<noteq> p) (roster m rid) = roster m rid" by (auto simp: filter_id_conv)
  with r1 j res show ?thesis
    by (simp add: JoinRoomAndNotify_def Broadcast_roster room_count_roster)
qed

lemma join_notifies_others_witness:
  "let m = snd (CreateRoom 0 ''ann'' 2 0 empty_manager)
   in snd (snd (JoinRoomAndNotify True (room_name 1) ''bob'' m)) =
      [(''ann'', PlayerJoinNtf (room_name 1) ''bob'' 2)]"
proof -
  let ?m = "snd (CreateRoom 0 ''ann'' 2 0 empty_manager)"
  have ok: "directory_ok ?m"
    by (rule CreateRoom_ok [OF directory_ok_empty]) (simp add: counter_left_def empty_manager_def)
  have r: "roster ?m (room_name 1) = [''ann'']"
    by (simp add: CreateRoom_def GenerateRoomId_def empty_manager_def Let_def roster_def GetRoom_def new_room_def)
  have "res_ok (fst (JoinRoomAndNotify True (room_name 1) ''bob'' ?m))"
    by (simp add: CreateRoom_def GenerateRoomId_def empty_manager_def Let_def GetRoom_def new_room_def
        JoinRoomAndNotify_def JoinRoom_def AddPlayer_def is_full_def player_count_def HasPlayer_def)
  from join_notifies_others [OF ok this] show ?thesis unfolding Let_def by (simp only: r) simp
qed


text \<open>
  A room is bound to the player who created it: once its owner has left, no other player can
  start the game, while the owner, although recorded in no room, still can.
\<close>

lemma owner_leaves_room:
  assumes "directory_ok m" and "GetRoom rid m = Some r" and "state r = ROOM_STATE_WAITING"
    and "owner_id r \<in> set (players r)" and "2 \<le> length (players r)"
  shows "let m' = snd (LeaveRoom rid (owner_id r) m)
    in (\<forall>q. q \<noteq> owner_id r \<longrightarrow> StartGame rid q m' = (Failure ERR_NOT_OWNER, m')) \<and>
       res_ok (fst (StartGame rid (owner_id r) m')) \<and> player_room m' (owner_id r) = None"
proof -
  have "length (remove1 (owner_id r) (players r)) \<noteq> 0" using assms(4,5) by (simp add: length_remove1)
  then have ne: "remove1 (owner_id r) (players r) \<noteq> []" by auto
  have get: "GetRoom rid (snd (LeaveRoom rid (owner_id r) m)) =
      Some (r\<lparr>players := remove1 (owner_id r) (players r)\<rparr>)"
    using assms(2,4) ne by (simp add: LeaveRoom_def RemovePlayer_def Let_def GetRoom_update)
  show ?thesis
    using get assms(2-4) by (simp add: Let_def StartGame_def)
      (simp add: LeaveRoom_def RemovePlayer_def RemovePlayerFromMap_def Let_def)
qed

lemma owner_leaves_room_witness:
  "let m0 = snd (JoinRoom (room_name 1) ''bob'' (snd (CreateRoom 0 ''ann'' 2 0 empty_manager)));
       m = update_room (room_name 1) (SetState ROOM_STATE_WAITING) m0;
       m' = snd (LeaveRoom (room_name 1) ''ann'' m)
   in StartGame (room_name 1) ''bob'' m' = (Failure ERR_NOT_OWNER, m') \<and>
      res_ok (fst (StartGame (room_name 1) ''ann'' m'))"
proof -
  define m1 where "m1 = snd (CreateRoom 0 ''ann'' 2 0 empty_manager)"
  define m where "m = update_room (room_name 1) (SetState ROOM_STATE_WAITING) (snd (JoinRoom (room_name 1) ''bob'' m1))"
  define r where "r = (new_room (room_name 1) ''ann'' 2)\<lparr>players := [''ann'', ''bob''], state := ROOM_STATE_WAITING\<rparr>"
  have "directory_ok m1" unfolding m1_def
    by (rule CreateRoom_ok [OF directory_ok_empty]) (simp add: counter_left_def empty_manager_def)
  then have ok: "directory_ok m" unfolding m_def by (intro directory_ok_same JoinRoom_ok) simp_all
  have "GetRoom (room_name 1) m = Some r"
    by (simp add: m_def m1_def CreateRoom_def GenerateRoomId_def empty_manager_def Let_def GetRoom_def new_room_def
        JoinRoom_def AddPlayer_def is_full_def player_count_def HasPlayer_def update_room_def r_def SetState_def)
  from owner_leaves_room [OF ok this] show ?thesis
    unfolding Let_def m1_def [symmetric] m_def [symmetric] by (simp add: r_def new_room_def)
qed

text \<open>
  \<open>CheckRoomTimeout\<close> returns, removes every room whose timeout has expired before its game
  started, and frees its players.
\<close>

lemma expired_room_removed:
  assumes "directory_ok m" and "rooms_ticking m" and "GetRoom rid m = Some r" and "timed_out now r"
  shows "\<exists>n m'. CheckRoomTimeout now m = Some (n, m') \<and> GetRoom rid m' = None \<and>
    (\<forall>p \<in> set (players r). player_room m' p = None)"
proof -
  obtain n m' where c: "CheckRoomTimeout now m = Some (n, m')"
    using CheckRoomTimeout_returns [OF assms(2)] by blast
  then obtain rs where rs: "those (map (\<lambda>(rid, r). map_option (Pair rid) (RoomTick now r)) (rooms m)) = Some rs"
    and m': "m' = snd (CleanupDestroyed (m\<lparr>rooms := rs\<rparr>))"
    by (auto simp: CheckRoomTimeout_def)
  have rel: "rel_option (\<lambda>r r'. RoomTick now r = Some r') (GetRoom i m) (map_of rs i)" for i
    using those_rooms [OF rs] by (simp add: GetRoom_def)
  have ok: "directory_ok (m\<lparr>rooms := rs\<rparr>)"
  proof (rule directory_ok_rooms [OF assms(1)])
    show "map fst rs = map fst (rooms m)" using those_rooms [OF rs] by simp
    show "rel_option same_players (GetRoom i m) (map_of rs i)" for i
      using rel [of i] by (cases "GetRoom i m"; cases "map_of rs i") (simp_all add: RoomTick_players)
  qed
  obtain r' where r': "map_of rs rid = Some r'" "RoomTick now r = Some r'"
    using rel [of rid] assms(3) by (cases "map_of rs rid") auto
  then have g: "GetRoom rid (m\<lparr>rooms := rs\<rparr>) = Some r'" by (simp add: GetRoom_def)
  have d: "state r' = ROOM_STATE_DESTROYED" by (rule RoomTick_timed_out [OF assms(4) r'(2)])
  have "GetRoom rid m' = None" by (simp add: m' CleanupDestroyed_get [OF ok] g d)
  moreover have "player_room m' p = None" if "p \<in> set (players r)" for p
    using directory_okD(5) [OF assms(1,3), of p] that
    by (simp add: m' CleanupDestroyed_map [OF ok] g d)
  ultimately show ?thesis using c by blast
qed

lemma expired_room_removed_witness:
  "\<exists>n m'. CheckRoomTimeout 300000 (snd (CreateRoom 0 ''ann'' 2 kDefaultRoomTimeoutMs empty_manager)) = Some (n, m') \<and>
     GetRoom (room_name 1) m' = None \<and> player_room m' ''ann'' = None"
proof -
  define m where "m = snd (CreateRoom 0 ''ann'' 2 kDefaultRoomTimeoutMs empty_manager)"
  define r where "r = (new_room (room_name 1) ''ann'' 2)\<lparr>rtimer := \<lparr>next_id = 2, theap =
    [\<lparr>t_id = 1, deadline = 300000, callback = Some RoomTimeout, cancelled = False\<rparr>]\<rparr>\<rparr>"
  have ok: "directory_ok m" unfolding m_def
    by (rule CreateRoom_ok [OF directory_ok_empty]) (simp add: counter_left_def empty_manager_def)
  have rooms: "rooms m = [(room_name 1, r)]"
    by (simp add: m_def CreateRoom_def GenerateRoomId_def empty_manager_def Let_def kDefaultRoomTimeoutMs_def
        Schedule_def new_timer_manager_def push_heap_def sift_up.simps r_def new_room_def)
  then have "rooms_ticking m" "GetRoom (room_name 1) m = Some r" "timed_out 300000 r" "players r = [''ann'']"
    by (simp_all add: rooms_ticking_def GetRoom_def timed_out_def r_def new_room_def timers_ok_def
        is_heap_def frames_ok_def)
  from expired_room_removed [OF ok this(1-3)] this(4) show ?thesis by (simp add: m_def)
qed

end
