(* ===== verification/Room_Service.thy ===== *)
theory Room_Service
  imports Room_Manager Rpc_Dispatch
begin

text \<open>
  \<open>include/game/room_service.h\<close> and \<open>src/game/room_service.cpp\<close>: the eight remote methods
  of the rooms. The Protobuf parsers and serializers are generated code and come in as the record
  \<open>room_codec\<close>; a request or response is a record with the fields of its message in
  \<open>proto/game.proto\<close>. A constructor of \<open>error_text\<close> stands for each message literal.
  Handlers run on the event loop's thread, one at a time.
\<close>

subsection \<open>Messages\<close>

datatype error_text = NoText | TextCreateFailed | TextRoomNotFound | TextRoomFull | TextNotJoinable
  | TextAlreadyInRoom | TextJoinFailed | TextNotInRoom | TextLeaveFailed | TextNotOwner
  | TextWrongState | TextStartFailed | TextNotInAnyRoom

record create_room_req =
  cr_player_id :: string
  cr_room_name :: string
  cr_max_players :: int

record room_player_req =
  rp_room_id :: string
  rp_player_id :: string

record send_message_req =
  sm_room_id :: string
  sm_sender_id :: string
  sm_content :: string

record player_input_req =
  pi_frame_no :: u32
  pi_player_id :: string
  pi_input_data :: bytes

record room_res =
  rs_success :: bool
  rs_room_info :: "room_info option"
  rs_error_msg :: error_text
  rs_error_code :: error_code

record room_codec =
  parse_create :: "bytes \<Rightarrow> create_room_req option"
  parse_join :: "bytes \<Rightarrow> room_player_req option"
  parse_leave :: "bytes \<Rightarrow> room_player_req option"
  parse_message :: "bytes \<Rightarrow> send_message_req option"
  parse_list :: "bytes \<Rightarrow> unit option"
  parse_start :: "bytes \<Rightarrow> room_player_req option"
  parse_input :: "bytes \<Rightarrow> player_input_req option"
  parse_stop :: "bytes \<Rightarrow> room_player_req option"
  ser_create :: "room_res \<Rightarrow> bytes"
  ser_join :: "room_res \<Rightarrow> bytes"
  ser_leave :: "room_res \<Rightarrow> bytes"
  ser_message :: "room_res \<Rightarrow> bytes"
  ser_list :: "room_info list \<Rightarrow> bytes"
  ser_start :: "room_res \<Rightarrow> bytes"
  ser_input :: "room_res \<Rightarrow> bytes"
  ser_stop :: "room_res \<Rightarrow> bytes"

definition ok_res :: room_res where
  "ok_res = \<lparr>rs_success = True, rs_room_info = None, rs_error_msg = NoText, rs_error_code = ERR_NONE\<rparr>"

definition fail_res :: "error_code \<Rightarrow> error_text \<Rightarrow> room_res" where
  "fail_res c t = \<lparr>rs_success = False, rs_room_info = None, rs_error_msg = t, rs_error_code = c\<rparr>"

subsection \<open>State\<close>

text \<open>
  What the service works on: the rooms, the messages sent so far, whether it has a broadcaster, and
  the readings of the steady and the system clock (milliseconds).
\<close>

record service_state =
  svc_rooms :: room_manager
  svc_sent :: sends
  svc_bcast :: bool
  steady_now :: int
  system_now :: int

definition with_rooms :: "room_manager \<Rightarrow> sends \<Rightarrow> service_state \<Rightarrow> service_state" where
  "with_rooms m out st = st\<lparr>svc_rooms := m, svc_sent := svc_sent st @ out\<rparr>"

subsection \<open>The handlers\<close>

definition SvcCreateRoom :: "room_codec \<Rightarrow> service_state handler" where
  "SvcCreateRoom c bdy st =
     (case parse_create c bdy of
        None \<Rightarrow> (None, st)
      | Some req \<Rightarrow>
          let maxp = (if 0 < cr_max_players req then cr_max_players req else 4);
              (res, m1) = CreateRoom (steady_now st) (cr_player_id req) maxp kDefaultRoomTimeoutMs (svc_rooms st);
              m2 = (if res_ok res then update_room (res_room_id res) (SetState ROOM_STATE_WAITING) m1 else m1);
              r = (if res_ok res
                   then ok_res\<lparr>rs_room_info := map_option ToProto (GetRoom (res_room_id res) m2)\<rparr>
                   else fail_res (res_code res) TextCreateFailed)
          in (Some (ser_create c r), with_rooms m2 [] st))"

fun join_text :: "error_code \<Rightarrow> error_text" where
  "join_text ERR_ROOM_NOT_FOUND = TextRoomNotFound"
| "join_text ERR_ROOM_FULL = TextRoomFull"
| "join_text ERR_ROOM_NOT_JOINABLE = TextNotJoinable"
| "join_text ERR_PLAYER_ALREADY_IN_ROOM = TextAlreadyInRoom"
| "join_text _ = TextJoinFailed"

definition SvcJoinRoom :: "room_codec \<Rightarrow> service_state handler" where
  "SvcJoinRoom c bdy st =
     (case parse_join c bdy of
        None \<Rightarrow> (None, st)
      | Some req \<Rightarrow>
          let (res, m, out) =
                (if svc_bcast st
                 then JoinRoomAndNotify True (rp_room_id req) (rp_player_id req) (svc_rooms st)
                 else case JoinRoom (rp_room_id req) (rp_player_id req) (svc_rooms st) of (res, m) \<Rightarrow> (res, m, []));
              r = (if res_ok res
                   then ok_res\<lparr>rs_room_info := map_option ToProto (GetRoom (rp_room_id req) m)\<rparr>
                   else fail_res (res_code res) (join_text (res_code res)))
          in (Some (ser_join c r), with_rooms m out st))"

fun leave_text :: "error_code \<Rightarrow> error_text" where
  "leave_text ERR_ROOM_NOT_FOUND = TextRoomNotFound"
| "leave_text ERR_PLAYER_NOT_IN_ROOM = TextNotInRoom"
| "leave_text _ = TextLeaveFailed"

definition SvcLeaveRoom :: "room_codec \<Rightarrow> service_state handler" where
  "SvcLeaveRoom c bdy st =
     (case parse_leave c bdy of
        None \<Rightarrow> (None, st)
      | Some req \<Rightarrow>
          let (res, m, out) =
                (if svc_bcast st
                 then LeaveRoomAndNotify True (rp_room_id req) (rp_player_id req) (svc_rooms st)
                 else case LeaveRoom (rp_room_id req) (rp_player_id req) (svc_rooms st) of (res, m) \<Rightarrow> (res, m, []));
              r = (if res_ok res then ok_res else fail_res (res_code res) (leave_text (res_code res)))
          in (Some (ser_leave c r), with_rooms m out st))"

definition SvcSendMessage :: "room_codec \<Rightarrow> service_state handler" where
  "SvcSendMessage c bdy st =
     (case parse_message c bdy of
        None \<Rightarrow> (None, st)
      | Some req \<Rightarrow>
          (case GetRoom (sm_room_id req) (svc_rooms st) of
             None \<Rightarrow> (Some (ser_message c (fail_res ERR_ROOM_NOT_FOUND TextRoomNotFound)), st)
           | Some _ \<Rightarrow>
               let out = (if svc_bcast st
                     then BroadcastToRoomExcept (sm_room_id req) (sm_sender_id req)
                            (RoomBroadcastMsg (sm_room_id req) (sm_sender_id req) (sm_content req) (system_now st))
                            (svc_rooms st)
                     else [])
               in (Some (ser_message c ok_res), with_rooms (svc_rooms st) out st)))"

definition SvcGetRoomList :: "room_codec \<Rightarrow> service_state handler" where
  "SvcGetRoomList c bdy st =
     (if bdy \<noteq> [] \<and> parse_list c bdy = None then (None, st)
      else
        let rms = List.map_filter (\<lambda>rid. GetRoom rid (svc_rooms st)) (GetAllRoomIds (svc_rooms st));
            infos = map ToProto (filter (\<lambda>r. state r \<noteq> ROOM_STATE_DESTROYED) rms)
        in (Some (ser_list c infos), st))"

fun start_text :: "error_code \<Rightarrow> error_text" where
  "start_text ERR_ROOM_NOT_FOUND = TextRoomNotFound"
| "start_text ERR_NOT_OWNER = TextNotOwner"
| "start_text ERR_WRONG_ROOM_STATE = TextWrongState"
| "start_text _ = TextStartFailed"

text \<open>
  What a successful start does to the room. The frame callback it installs broadcasts each frame's
  inputs to the room; here the frames are those recorded in \<open>frames_sent\<close>.
\<close>

definition begin_frames :: "int \<Rightarrow> game_room \<Rightarrow> game_room" where
  "begin_frames now r =
     (let r1 = (if HasFrameSync r then r else InitFrameSync 20 120 60 r);
          r2 = r1\<lparr>frame_sync := map_option SetFrameCallback (frame_sync r1)\<rparr>
      in StartFrameSync now r2)"

definition SvcStartGame :: "room_codec \<Rightarrow> service_state handler" where
  "SvcStartGame c bdy st =
     (case parse_start c bdy of
        None \<Rightarrow> (None, st)
      | Some req \<Rightarrow>
          let (res, m, out) =
                (if svc_bcast st
                 then StartGameAndNotify (system_now st) True (rp_room_id req) (rp_player_id req) (svc_rooms st)
                 else case StartGame (rp_room_id req) (rp_player_id req) (svc_rooms st) of (res, m) \<Rightarrow> (res, m, []));
              r = (if res_ok res then ok_res else fail_res (res_code res) (start_text (res_code res)));
              m' = (if res_ok res then update_room (rp_room_id req) (begin_frames (steady_now st)) m else m)
          in (Some (ser_start c r), with_rooms m' out st))"

definition SvcSendInput :: "room_codec \<Rightarrow> service_state handler" where
  "SvcSendInput c bdy st =
     (case parse_input c bdy of
        None \<Rightarrow> (None, st)
      | Some req \<Rightarrow>
          let rid = GetPlayerRoom (pi_player_id req) (svc_rooms st)
          in if rid = '''' then (Some (ser_input c (fail_res ERR_PLAYER_NOT_IN_ROOM TextNotInAnyRoom)), st)
             else (case GetRoom rid (svc_rooms st) of
                     None \<Rightarrow> (Some (ser_input c (fail_res ERR_ROOM_NOT_FOUND TextRoomNotFound)), st)
                   | Some _ \<Rightarrow>
                       (Some (ser_input c ok_res),
                        with_rooms (update_room rid
                          (OnPlayerFrameInput (pi_frame_no req) (pi_player_id req) (pi_input_data req))
                          (svc_rooms st)) [] st)))"

definition SvcStopGame :: "room_codec \<Rightarrow> service_state handler" where
  "SvcStopGame c bdy st =
     (case parse_stop c bdy of
        None \<Rightarrow> (None, st)
      | Some req \<Rightarrow>
          (case GetRoom (rp_room_id req) (svc_rooms st) of
             None \<Rightarrow> (Some (ser_stop c (fail_res ERR_ROOM_NOT_FOUND TextRoomNotFound)), st)
           | Some _ \<Rightarrow>
               (Some (ser_stop c ok_res),
                with_rooms (update_room (rp_room_id req)
                  (\<lambda>r. SetState ROOM_STATE_FINISHED (if HasFrameSync r then StopFrameSync r else r))
                  (svc_rooms st)) [] st)))"

definition RegisterRoomService :: "room_codec \<Rightarrow> service_state dispatch \<Rightarrow> service_state dispatch" where
  "RegisterRoomService c d =
     fold (\<lambda>(m, h). RegisterMethod m h)
       [(''CreateRoom'', SvcCreateRoom c), (''JoinRoom'', SvcJoinRoom c), (''LeaveRoom'', SvcLeaveRoom c),
        (''SendMessage'', SvcSendMessage c), (''GetRoomList'', SvcGetRoomList c),
        (''StartGame'', SvcStartGame c), (''SendInput'', SvcSendInput c), (''StopGame'', SvcStopGame c)] d"

lemmas service_defs = SvcCreateRoom_def SvcJoinRoom_def SvcLeaveRoom_def SvcSendMessage_def
  SvcGetRoomList_def SvcStartGame_def SvcSendInput_def SvcStopGame_def

definition room_dispatch :: "room_codec \<Rightarrow> service_state dispatch" where
  "room_dispatch c = RegisterRoomService c empty_dispatch"


subsection \<open>Rejected requests\<close>

definition room_methods :: "string list" where
  "room_methods = [''CreateRoom'', ''JoinRoom'', ''LeaveRoom'', ''SendMessage'', ''GetRoomList'',
     ''StartGame'', ''SendInput'', ''StopGame'']"

text \<open>The body does not parse as the method's request.\<close>

definition malformed :: "room_codec \<Rightarrow> string \<Rightarrow> bytes \<Rightarrow> bool" where
  "malformed c meth bdy \<longleftrightarrow>
     meth = ''CreateRoom'' \<and> parse_create c bdy = None \<or>
     meth = ''JoinRoom'' \<and> parse_join c bdy = None \<or>
     meth = ''LeaveRoom'' \<and> parse_leave c bdy = None \<or>
     meth = ''SendMessage'' \<and> parse_message c bdy = None \<or>
     meth = ''GetRoomList'' \<and> bdy \<noteq> [] \<and> parse_list c bdy = None \<or>
     meth = ''StartGame'' \<and> parse_start c bdy = None \<or>
     meth = ''SendInput'' \<and> parse_input c bdy = None \<or>
     meth = ''StopGame'' \<and> parse_stop c bdy = None"

lemma room_dispatch_simps:
  "DispatchCall (room_dispatch c) meth bdy st =
     (if meth = ''StopGame'' then SvcStopGame c bdy st
      else if meth = ''SendInput'' then SvcSendInput c bdy st
      else if meth = ''StartGame'' then SvcStartGame c bdy st
      else if meth = ''GetRoomList'' then SvcGetRoomList c bdy st
      else if meth = ''SendMessage'' then SvcSendMessage c bdy st
      else if meth = ''LeaveRoom'' then SvcLeaveRoom c bdy st
      else if meth = ''JoinRoom'' then SvcJoinRoom c bdy st
      else if meth = ''CreateRoom'' then SvcCreateRoom c bdy st
      else (None, st))"
  by (simp add: room_dispatch_def RegisterRoomService_def)

lemma svc_reject:
  "fst (SvcCreateRoom c bdy st) = None \<longleftrightarrow> parse_create c bdy = None"
  "fst (SvcJoinRoom c bdy st) = None \<longleftrightarrow> parse_join c bdy = None"
  "fst (SvcLeaveRoom c bdy st) = None \<longleftrightarrow> parse_leave c bdy = None"
  "fst (SvcSendMessage c bdy st) = None \<longleftrightarrow> parse_message c bdy = None"
  "fst (SvcGetRoomList c bdy st) = None \<longleftrightarrow> bdy \<noteq> [] \<and> parse_list c bdy = None"
  "fst (SvcStartGame c bdy st) = None \<longleftrightarrow> parse_start c bdy = None"
  "fst (SvcSendInput c bdy st) = None \<longleftrightarrow> parse_input c bdy = None"
  "fst (SvcStopGame c bdy st) = None \<longleftrightarrow> parse_stop c bdy = None"
  by (simp_all add: service_defs Let_def split: option.split prod.split)

lemma svc_reject_state:
  "parse_create c bdy = None \<Longrightarrow> SvcCreateRoom c bdy st = (None, st)"
  "parse_join c bdy = None \<Longrightarrow> SvcJoinRoom c bdy st = (None, st)"
  "parse_leave c bdy = None \<Longrightarrow> SvcLeaveRoom c bdy st = (None, st)"
  "parse_message c bdy = None \<Longrightarrow> SvcSendMessage c bdy st = (None, st)"
  "bdy \<noteq> [] \<Longrightarrow> parse_list c bdy = None \<Longrightarrow> SvcGetRoomList c bdy st = (None, st)"
  "parse_start c bdy = None \<Longrightarrow> SvcStartGame c bdy st = (None, st)"
  "parse_input c bdy = None \<Longrightarrow> SvcSendInput c bdy st = (None, st)"
  "parse_stop c bdy = None \<Longrightarrow> SvcStopGame c bdy st = (None, st)"
  by (simp_all add: service_defs)

lemma room_method_cases:
  "meth \<in> set room_methods \<longleftrightarrow> meth = ''CreateRoom'' \<or> meth = ''JoinRoom'' \<or> meth = ''LeaveRoom'' \<or> meth = ''SendMessage'' \<or>
     meth = ''GetRoomList'' \<or> meth = ''StartGame'' \<or> meth = ''SendInput'' \<or> meth = ''StopGame''"
  by (simp only: room_methods_def list.set insert_iff empty_iff simp_thms)

lemma room_dispatch_method:
  "DispatchCall (room_dispatch c) ''CreateRoom'' bdy st = SvcCreateRoom c bdy st"
  "DispatchCall (room_dispatch c) ''JoinRoom'' bdy st = SvcJoinRoom c bdy st"
  "DispatchCall (room_dispatch c) ''LeaveRoom'' bdy st = SvcLeaveRoom c bdy st"
  "DispatchCall (room_dispatch c) ''SendMessage'' bdy st = SvcSendMessage c bdy st"
  "DispatchCall (room_dispatch c) ''GetRoomList'' bdy st = SvcGetRoomList c bdy st"
  "DispatchCall (room_dispatch c) ''StartGame'' bdy st = SvcStartGame c bdy st"
  "DispatchCall (room_dispatch c) ''SendInput'' bdy st = SvcSendInput c bdy st"
  "DispatchCall (room_dispatch c) ''StopGame'' bdy st = SvcStopGame c bdy st"
  by (simp_all add: room_dispatch_simps)

lemma malformed_method:
  "malformed c ''CreateRoom'' bdy \<longleftrightarrow> parse_create c bdy = None"
  "malformed c ''JoinRoom'' bdy \<longleftrightarrow> parse_join c bdy = None"
  "malformed c ''LeaveRoom'' bdy \<longleftrightarrow> parse_leave c bdy = None"
  "malformed c ''SendMessage'' bdy \<longleftrightarrow> parse_message c bdy = None"
  "malformed c ''GetRoomList'' bdy \<longleftrightarrow> bdy \<noteq> [] \<and> parse_list c bdy = None"
  "malformed c ''StartGame'' bdy \<longleftrightarrow> parse_start c bdy = None"
  "malformed c ''SendInput'' bdy \<longleftrightarrow> parse_input c bdy = None"
  "malformed c ''StopGame'' bdy \<longleftrightarrow> parse_stop c bdy = None"
  by (simp_all add: malformed_def)

lemma unknown_method: "meth \<notin> set room_methods \<Longrightarrow> DispatchCall (room_dispatch c) meth bdy st = (None, st)"
  unfolding room_methods_def room_dispatch_simps list.set insert_iff by (simp only: de_Morgan_disj if_False simp_thms)

lemma dispatch_rejects:
  assumes "meth \<notin> set room_methods \<or> malformed c meth bdy"
  shows "DispatchCall (room_dispatch c) meth bdy st = (None, st)"
proof (cases "meth \<in> set room_methods")
  case True
  with assms have m: "malformed c meth bdy" by blast
  from True show ?thesis
    by (elim room_method_cases [THEN iffD1, elim_format] disjE)
      (use m in \<open>simp_all only: malformed_method room_dispatch_method svc_reject_state simp_thms\<close>)
qed (rule unknown_method)

lemma dispatch_answers:
  assumes "meth \<in> set room_methods" and n: "\<not> malformed c meth bdy"
  shows "fst (DispatchCall (room_dispatch c) meth bdy st) \<noteq> None"
  using assms(1)
  by (elim room_method_cases [THEN iffD1, elim_format] disjE)
    (use n in \<open>simp_all only: malformed_method room_dispatch_method svc_reject simp_thms\<close>)

subsection \<open>The rooms stay in order\<close>

definition room_ticks :: "game_room \<Rightarrow> bool" where
  "room_ticks r \<longleftrightarrow> timers_ok (rtimer r) \<and> frames_ok r"

text \<open>What holds of every room.\<close>

definition rooms_all :: "(game_room \<Rightarrow> bool) \<Rightarrow> room_manager \<Rightarrow> bool" where
  "rooms_all P m \<longleftrightarrow> (\<forall>r \<in> snd ` set (rooms m). P r)"

lemma rooms_ticking_alt: "rooms_ticking m \<longleftrightarrow> rooms_all room_ticks m"
  by (auto simp: rooms_ticking_def room_ticks_def rooms_all_def)

lemma map_entry_values: "snd ` set (AList.map_entry k f xs) \<subseteq> snd ` set xs \<union> f ` snd ` set xs"
  by (induction xs) auto

lemma map_entry_const:
  "map_of xs k = Some v \<Longrightarrow> snd ` set (AList.map_entry k (\<lambda>_. w) xs) \<subseteq> snd ` set xs \<union> {w}"
  by (induction xs) (auto split: if_splits)

lemma update_room_rooms: "rooms (update_room rid f m) = AList.map_entry rid f (rooms m)"
  by (simp add: update_room_def)

lemma rooms_all_subset:
  "rooms_all P m \<Longrightarrow> snd ` set (rooms m') \<subseteq> snd ` set (rooms m) \<union> Z \<Longrightarrow> (\<And>r. r \<in> Z \<Longrightarrow> P r) \<Longrightarrow> rooms_all P m'"
  unfolding rooms_all_def by blast

lemma rooms_all_update:
  assumes "rooms_all P m" and "\<And>r. P r \<Longrightarrow> P (f r)"
  shows "rooms_all P (update_room rid f m)"
proof (rule rooms_all_subset [OF assms(1), of _ "f ` snd ` set (rooms m)"])
  show "snd ` set (rooms (update_room rid f m)) \<subseteq> snd ` set (rooms m) \<union> f ` snd ` set (rooms m)"
    unfolding update_room_rooms by (rule map_entry_values)
qed (use assms in \<open>auto simp: rooms_all_def\<close>)

lemma rooms_all_put:
  assumes "rooms_all P m" and "GetRoom rid m = Some r" and "P r'"
  shows "rooms_all P (update_room rid (\<lambda>_. r') m)"
proof (rule rooms_all_subset [OF assms(1), of _ "{r'}"])
  show "snd ` set (rooms (update_room rid (\<lambda>_. r') m)) \<subseteq> snd ` set (rooms m) \<union> {r'}"
    unfolding update_room_rooms using assms(2) by (intro map_entry_const) (simp add: GetRoom_def)
qed (use assms in simp)

lemma rooms_all_get: "rooms_all P m \<Longrightarrow> GetRoom rid m = Some r \<Longrightarrow> P r"
  by (force simp: rooms_all_def GetRoom_def dest: map_of_SomeD)

lemma rooms_all_pm [simp]: "rooms_all P (m\<lparr>player_room := pm\<rparr>) = rooms_all P m"
  by (simp add: rooms_all_def)

lemma alist_update_values: "snd ` set (AList.update k v xs) \<subseteq> snd ` set xs \<union> {v}"
  by (induction xs) auto

lemma rooms_all_create:
  assumes m: "rooms_all P m" and new: "\<And>rid. P (new_room rid p maxp)"
    and timed: "\<And>rid. P ((new_room rid p maxp)\<lparr>rtimer := snd (Schedule now t RoomTimeout (rtimer (new_room rid p maxp)))\<rparr>)"
  shows "rooms_all P (snd (CreateRoom now p maxp t m))"
proof (cases "player_room m p")
  case None
  let ?rid = "room_name (unat (room_id_counter m))"
  define r where "r = (if 0 < t
    then (new_room ?rid p maxp)\<lparr>rtimer := snd (Schedule now t RoomTimeout (rtimer (new_room ?rid p maxp)))\<rparr>
    else new_room ?rid p maxp)"
  have rs: "rooms (snd (CreateRoom now p maxp t m)) = AList.update ?rid r (rooms m)"
    using None by (simp add: CreateRoom_def GenerateRoomId_def Let_def r_def)
  have "P r" using new timed by (simp add: r_def)
  then show ?thesis
    using rooms_all_subset [OF m, of _ "{r}"] alist_update_values [of ?rid r "rooms m"] by (simp add: rs)
qed (use m in \<open>simp add: CreateRoom_def\<close>)

lemma rooms_all_join:
  "rooms_all P m \<Longrightarrow> (\<And>r. P r \<Longrightarrow> P (snd (AddPlayer p r))) \<Longrightarrow> rooms_all P (snd (JoinRoom rid p m))"
  by (auto simp: JoinRoom_def Let_def split: option.split prod.split) (metis snd_conv rooms_all_get rooms_all_put)+

lemma rooms_all_leave:
  "rooms_all P m \<Longrightarrow> (\<And>r. P r \<Longrightarrow> P (snd (RemovePlayer p r))) \<Longrightarrow> rooms_all P (snd (LeaveRoom rid p m))"
  by (auto simp: LeaveRoom_def Let_def split: option.split prod.split) (metis snd_conv rooms_all_get rooms_all_put)+

lemma rooms_all_start:
  "rooms_all P m \<Longrightarrow> (\<And>r. P r \<Longrightarrow> P (SetState ROOM_STATE_PLAYING r)) \<Longrightarrow> rooms_all P (snd (StartGame rid q m))"
  by (auto simp: StartGame_def intro: rooms_all_update split: option.split)

lemma room_ticks_ops [simp]:
  "room_ticks (new_room rid p maxp)"
  "room_ticks (SetState s r) = room_ticks r"
  "room_ticks r \<Longrightarrow> room_ticks (snd (AddPlayer p r))"
  "room_ticks r \<Longrightarrow> room_ticks (snd (RemovePlayer p r))"
  "room_ticks (StopFrameSync r) = room_ticks r"
  "room_ticks (OnPlayerFrameInput no p inp r) = room_ticks r"
  by (auto simp: room_ticks_def new_room_def SetState_def AddPlayer_def RemovePlayer_def Let_def
      StopFrameSync_def OnPlayerFrameInput_def frames_ok_def Stop_def split: option.splits)

lemma room_ticks_timer: "room_ticks r \<Longrightarrow> timers_ok tm \<Longrightarrow> room_ticks (r\<lparr>rtimer := tm\<rparr>)"
  by (simp add: room_ticks_def)

lemma room_ticks_start: "room_ticks r \<Longrightarrow> room_ticks (StartFrameSync now r)"
  by (auto simp: room_ticks_def StartFrameSync_def Start_def RescheduleTick_def Schedule_ok frames_ok_def
      split: option.splits prod.splits)

lemma room_ticks_begin: "room_ticks r \<Longrightarrow> room_ticks (begin_frames now r)"
proof -
  assume r: "room_ticks r"
  let ?r1 = "if HasFrameSync r then r else InitFrameSync 20 120 60 r"
  have "frames_ok (InitFrameSync 20 120 60 r)" by (rule frames_ok_init) simp_all
  then have r1: "room_ticks ?r1" using r by (auto simp: room_ticks_def InitFrameSync_def)
  then have "room_ticks (?r1\<lparr>frame_sync := map_option SetFrameCallback (frame_sync ?r1)\<rparr>)"
    by (auto simp: room_ticks_def frames_ok_def SetFrameCallback_def split: option.splits)
  then show ?thesis by (simp only: begin_frames_def Let_def room_ticks_start)
qed

lemma same_players_begin: "same_players r (begin_frames now r)"
proof -
  let ?r1 = "if HasFrameSync r then r else InitFrameSync 20 120 60 r"
  have "same_players r ?r1" by simp
  moreover have "same_players ?r1 (?r1\<lparr>frame_sync := map_option SetFrameCallback (frame_sync ?r1)\<rparr>)"
    by (simp add: same_players_def)
  ultimately show ?thesis unfolding begin_frames_def Let_def
    by (meson same_players_ops(3) same_players_trans)
qed

text \<open>What the rooms keep between requests: the directory is consistent, and every timer returns.\<close>

definition rooms_good :: "room_manager \<Rightarrow> bool" where
  "rooms_good m \<longleftrightarrow> directory_ok m \<and> rooms_ticking m"

lemma room_ticks_new: "room_ticks ((new_room rid p maxp)\<lparr>rtimer := snd (Schedule now t cb (rtimer (new_room rid p maxp)))\<rparr>)"
  by (intro room_ticks_timer Schedule_ok room_ticks_ops) (simp add: new_room_def)

lemma good_update:
  "rooms_good m \<Longrightarrow> (\<And>r. same_players r (f r)) \<Longrightarrow> (\<And>r. room_ticks r \<Longrightarrow> room_ticks (f r)) \<Longrightarrow>
     rooms_good (update_room rid f m)"
  by (simp add: rooms_good_def directory_ok_same rooms_ticking_alt rooms_all_update)

lemma good_ops:
  "rooms_good m \<Longrightarrow> counter_left m \<Longrightarrow> rooms_good (snd (CreateRoom now p maxp t m))"
  "rooms_good m \<Longrightarrow> rooms_good (snd (JoinRoom rid p m))"
  "rooms_good m \<Longrightarrow> rooms_good (snd (LeaveRoom rid p m))"
  "rooms_good m \<Longrightarrow> rooms_good (snd (StartGame rid p m))"
  by (simp_all add: rooms_good_def CreateRoom_ok JoinRoom_ok LeaveRoom_ok StartGame_ok rooms_ticking_alt
      rooms_all_create rooms_all_join rooms_all_leave rooms_all_start room_ticks_new)

lemma svc_rooms_simps:
  "svc_rooms (with_rooms m out st) = m"
  by (simp add: with_rooms_def)

lemma svc_join_rooms:
  "svc_rooms (snd (SvcJoinRoom c bdy st)) =
     (case parse_join c bdy of
        None \<Rightarrow> svc_rooms st
      | Some req \<Rightarrow> snd (JoinRoom (rp_room_id req) (rp_player_id req) (svc_rooms st)))"
  by (auto simp: SvcJoinRoom_def JoinRoomAndNotify_def Let_def svc_rooms_simps split: option.split prod.split)

lemma svc_leave_rooms:
  "svc_rooms (snd (SvcLeaveRoom c bdy st)) =
     (case parse_leave c bdy of
        None \<Rightarrow> svc_rooms st
      | Some req \<Rightarrow> snd (LeaveRoom (rp_room_id req) (rp_player_id req) (svc_rooms st)))"
  by (auto simp: SvcLeaveRoom_def LeaveRoomAndNotify_def LeaveRoom_def Let_def svc_rooms_simps
      split: option.split prod.split)

lemma svc_start_rooms:
  "svc_rooms (snd (SvcStartGame c bdy st)) =
     (case parse_start c bdy of
        None \<Rightarrow> svc_rooms st
      | Some req \<Rightarrow>
          (case StartGame (rp_room_id req) (rp_player_id req) (svc_rooms st) of
             (res, m) \<Rightarrow>
               if res_ok res then update_room (rp_room_id req) (begin_frames (steady_now st)) m else m))"
  by (auto simp: SvcStartGame_def StartGameAndNotify_def Let_def svc_rooms_simps split: option.split prod.split)

subsection \<open>The contract of an invariant of the rooms\<close>

text \<open>
  What a property of the room manager must survive so that every request keeps it: the operations of
  the manager, and what the handlers do to a room through its pointer.
\<close>

definition finish_game :: "game_room \<Rightarrow> game_room" where
  "finish_game r = SetState ROOM_STATE_FINISHED (if HasFrameSync r then StopFrameSync r else r)"

locale room_keeper =
  fixes I :: "room_manager \<Rightarrow> bool"
  assumes keeps_create: "I m \<Longrightarrow> counter_left m \<Longrightarrow> I (snd (CreateRoom now p maxp t m))"
    and keeps_join: "I m \<Longrightarrow> I (snd (JoinRoom rid p m))"
    and keeps_leave: "I m \<Longrightarrow> I (snd (LeaveRoom rid p m))"
    and keeps_start: "I m \<Longrightarrow> I (snd (StartGame rid p m))"
    and keeps_open: "I m \<Longrightarrow> I (update_room rid (SetState ROOM_STATE_WAITING) m)"
    and keeps_begin: "I m \<Longrightarrow> I (update_room rid (begin_frames now) m)"
    and keeps_input: "I m \<Longrightarrow> I (update_room rid (OnPlayerFrameInput no p inp) m)"
    and keeps_finish: "I m \<Longrightarrow> I (update_room rid finish_game m)"
begin

lemma svc_keeps:
  assumes "I (svc_rooms st)" and "counter_left (svc_rooms st)"
  shows "I (svc_rooms (snd (DispatchCall (room_dispatch c) meth bdy st)))"
proof -
  have create: "I (svc_rooms (snd (SvcCreateRoom c bdy st)))"
  proof (cases "parse_create c bdy")
    case (Some req)
    obtain res m1 where m1: "CreateRoom (steady_now st) (cr_player_id req)
        (if 0 < cr_max_players req then cr_max_players req else 4) kDefaultRoomTimeoutMs (svc_rooms st) = (res, m1)"
      by force
    then have "I m1" using keeps_create [OF assms] by (metis snd_conv)
    with m1 Some show ?thesis by (simp add: SvcCreateRoom_def Let_def svc_rooms_simps keeps_open)
  qed (use assms(1) in \<open>simp add: SvcCreateRoom_def\<close>)
  have join: "I (svc_rooms (snd (SvcJoinRoom c bdy st)))"
    and leave: "I (svc_rooms (snd (SvcLeaveRoom c bdy st)))"
    using assms(1) keeps_join [OF assms(1)] keeps_leave [OF assms(1)]
    by (simp_all add: svc_join_rooms svc_leave_rooms split: option.split)
  have start: "I (svc_rooms (snd (SvcStartGame c bdy st)))"
    using assms(1) keeps_start [OF assms(1)]
    by (auto simp: svc_start_rooms split: option.split prod.split intro!: keeps_begin) (metis snd_conv)+
  have rest: "I (svc_rooms (snd (SvcSendMessage c bdy st)))"
    "I (svc_rooms (snd (SvcGetRoomList c bdy st)))" "I (svc_rooms (snd (SvcSendInput c bdy st)))"
    using assms(1) by (auto simp: SvcSendMessage_def SvcGetRoomList_def SvcSendInput_def Let_def svc_rooms_simps
        intro!: keeps_input split: option.split)
  have "I (svc_rooms (snd (SvcStopGame c bdy st)))"
    using assms(1) keeps_finish [unfolded finish_game_def [abs_def]] by (simp add: SvcStopGame_def svc_rooms_simps split: option.split)
  with create join leave start rest assms(1) show ?thesis by (simp add: room_dispatch_simps)
qed

end

interpretation good: room_keeper rooms_good
proof
  fix m rid now no p inp assume m: "rooms_good m"
  show "rooms_good (update_room rid (SetState ROOM_STATE_WAITING) m)" using m
    by (rule good_update) (simp_all add: same_players_def SetState_def room_ticks_def frames_ok_def)
  show "rooms_good (update_room rid (begin_frames now) m)" using m
    by (rule good_update) (simp_all add: same_players_begin room_ticks_begin)
  show "rooms_good (update_room rid (OnPlayerFrameInput no p inp) m)" using m by (rule good_update) simp_all
  show "rooms_good (update_room rid finish_game m)" using m
    by (rule good_update) (auto simp: finish_game_def same_players_def SetState_def StopFrameSync_def room_ticks_def
        frames_ok_def Stop_def split: option.splits)
qed (fact good_ops)+

lemmas svc_good = good.svc_keeps


subsection \<open>Runs of the service\<close>

lemma RoomTick_ticks: "room_ticks r \<Longrightarrow> RoomTick now r = Some r' \<Longrightarrow> room_ticks r'"
  using RoomTick_returns [of r now] by (auto simp: room_ticks_def)

lemma good_timeout:
  assumes m: "rooms_good m" and c: "CheckRoomTimeout now m = Some (n, m')"
  shows "rooms_good m'"
proof -
  obtain rs where rs: "those (map (\<lambda>(rid, r). map_option (Pair rid) (RoomTick now r)) (rooms m)) = Some rs"
    and m': "CleanupDestroyed (m\<lparr>rooms := rs\<rparr>) = (n, m')"
    using c by (auto simp: CheckRoomTimeout_def)
  have eq: "map (\<lambda>(rid, r). map_option (Pair rid) (RoomTick now r)) (rooms m) = map Some rs"
    using rs by (simp add: those_Some)
  have "room_ticks r'" if "r' \<in> snd ` set rs" for r'
  proof -
    from that obtain rid where "(rid, r') \<in> set rs" by auto
    then have "Some (rid, r') \<in> set (map Some rs)" by simp
    then have "Some (rid, r') \<in> (\<lambda>(rid, r). map_option (Pair rid) (RoomTick now r)) ` set (rooms m)"
      unfolding eq [symmetric] set_map .
    then obtain q where q: "Some (rid, r') = (\<lambda>(rid, r). map_option (Pair rid) (RoomTick now r)) q"
      and qr: "q \<in> set (rooms m)" by (rule imageE)
    have ar: "(fst q, snd q) \<in> set (rooms m)" using qr by simp
    have t: "RoomTick now (snd q) = Some r'" using q by (cases "RoomTick now (snd q)") (simp_all add: split_beta)
    have "room_ticks (snd q)" using m ar by (auto simp: rooms_good_def rooms_ticking_def room_ticks_def)
    then show ?thesis using t by (rule RoomTick_ticks)
  qed
  moreover have "snd ` set (rooms m') \<subseteq> snd ` set rs"
    using m' by (auto simp: CleanupDestroyed_def cleanup_loop_eq)
  ultimately have "rooms_ticking m'" unfolding rooms_ticking_alt rooms_all_def by (metis subsetD)
  moreover have "directory_ok m'" using m c by (auto simp: rooms_good_def intro: CheckRoomTimeout_ok)
  ultimately show ?thesis by (simp add: rooms_good_def)
qed

text \<open>Requests in any order, the clocks, and the timeout check.\<close>

inductive svc_step :: "room_codec \<Rightarrow> service_state \<Rightarrow> service_state \<Rightarrow> bool" for c where
  svc_request: "counter_left (svc_rooms st) \<Longrightarrow>
    svc_step c st (snd (DispatchCall (room_dispatch c) meth bdy st))"
| svc_clock: "svc_step c st (st\<lparr>steady_now := t, system_now := u\<rparr>)"
| svc_timeout: "CheckRoomTimeout (steady_now st) (svc_rooms st) = Some (n, m) \<Longrightarrow>
    svc_step c st (st\<lparr>svc_rooms := m\<rparr>)"

definition new_service :: "bool \<Rightarrow> int \<Rightarrow> int \<Rightarrow> service_state" where
  "new_service b t u = \<lparr>svc_rooms = empty_manager, svc_sent = [], svc_bcast = b, steady_now = t, system_now = u\<rparr>"

lemma svc_step_good:
  "svc_step c st st' \<Longrightarrow> rooms_good (svc_rooms st) \<Longrightarrow> rooms_good (svc_rooms st')"
  by (induction rule: svc_step.induct) (auto intro: svc_good good_timeout)

interpretation service: step_invariant "\<lambda>st. \<exists>b t u. st = new_service b t u" "svc_step c"
    "\<lambda>st. rooms_good (svc_rooms st)" for c
proof
  fix st assume "\<exists>b t u. st = new_service b t u"
  then have "svc_rooms st = empty_manager" by (auto simp: new_service_def)
  moreover have "rooms_ticking empty_manager" by (simp add: rooms_ticking_def empty_manager_def)
  ultimately show "rooms_good (svc_rooms st)" by (simp add: rooms_good_def)
qed (rule svc_step_good)

subsection \<open>Properties\<close>

text \<open>
  The room service answers a request unless its method is unknown or its body does not parse,
  and a request it does not answer changes nothing.
\<close>

lemma rejected_requests_harmless:
  "if meth \<in> set room_methods \<and> \<not> malformed c meth bdy
   then \<exists>res st'. DispatchCall (room_dispatch c) meth bdy st = (Some res, st')
   else DispatchCall (room_dispatch c) meth bdy st = (None, st)"
proof (cases "meth \<in> set room_methods \<and> \<not> malformed c meth bdy")
  case True
  with dispatch_answers have "fst (DispatchCall (room_dispatch c) meth bdy st) \<noteq> None" by blast
  with True show ?thesis by (cases "DispatchCall (room_dispatch c) meth bdy st") auto
next
  case False
  then have "DispatchCall (room_dispatch c) meth bdy st = (None, st)" by (intro dispatch_rejects) blast
  with False show ?thesis by simp
qed

text \<open>
  In every state the service can reach by requests, clock readings and timeout checks, the room
  directory is consistent and the next timeout check returns, whatever the time.
\<close>

lemma timeout_check_returns:
  assumes "(svc_step c)\<^sup>*\<^sup>* (new_service b t u) st"
  shows "directory_ok (svc_rooms st) \<and> (\<exists>n m. CheckRoomTimeout now (svc_rooms st) = Some (n, m))"
proof -
  have "rooms_good (svc_rooms st)" using assms by (rule service.reachable_inv [rotated]) blast
  then show ?thesis using CheckRoomTimeout_returns by (simp add: rooms_good_def)
qed

text \<open>A codec for the witnesses: every body is one fixed request, and responses encode their success flag.\<close>

definition demo_codec :: room_codec where
  "demo_codec = \<lparr>
     parse_create = \<lambda>_. Some \<lparr>cr_player_id = ''ann'', cr_room_name = ''r'', cr_max_players = 2\<rparr>,
     parse_join = \<lambda>_. Some \<lparr>rp_room_id = room_name 1, rp_player_id = ''bob''\<rparr>,
     parse_leave = \<lambda>_. Some \<lparr>rp_room_id = room_name 1, rp_player_id = ''ann''\<rparr>,
     parse_message = \<lambda>_. None,
     parse_list = \<lambda>_. None,
     parse_start = \<lambda>_. Some \<lparr>rp_room_id = room_name 1, rp_player_id = ''ann''\<rparr>,
     parse_input = \<lambda>_. None,
     parse_stop = \<lambda>_. Some \<lparr>rp_room_id = room_name 1, rp_player_id = ''eve''\<rparr>,
     ser_create = \<lambda>r. [if rs_success r then 1 else 0], ser_join = \<lambda>r. [if rs_success r then 1 else 0],
     ser_leave = \<lambda>r. [if rs_success r then 1 else 0], ser_message = \<lambda>r. [if rs_success r then 1 else 0],
     ser_list = \<lambda>_. [], ser_start = \<lambda>r. [if rs_success r then 1 else 0],
     ser_input = \<lambda>r. [if rs_success r then 1 else 0], ser_stop = \<lambda>r. [if rs_success r then 1 else 0]\<rparr>"

lemma timeout_check_returns_witness:
  "\<exists>n m. CheckRoomTimeout 1000000
     (svc_rooms (snd (DispatchCall (room_dispatch demo_codec) ''CreateRoom'' [] (new_service True 0 0)))) = Some (n, m)"
proof -
  have "svc_step demo_codec (new_service True 0 0)
      (snd (DispatchCall (room_dispatch demo_codec) ''CreateRoom'' [] (new_service True 0 0)))"
    by (rule svc_request) (simp add: counter_left_def new_service_def empty_manager_def)
  then have "(svc_step demo_codec)\<^sup>*\<^sup>* (new_service True 0 0)
      (snd (DispatchCall (room_dispatch demo_codec) ''CreateRoom'' [] (new_service True 0 0)))" by blast
  from timeout_check_returns [OF this, of 1000000] show ?thesis by blast
qed



text \<open>
  \<open>StopGame\<close> asks nothing of the requester or of the state: any request that names an
  existing room makes it FINISHED, even a room already DESTROYED, which the cleanup then keeps.
\<close>

lemma stop_game_revives_room:
  assumes "parse_stop c bdy = Some \<lparr>rp_room_id = rid, rp_player_id = p\<rparr>"
    and "rooms_good (svc_rooms st)" and "GetRoom rid (svc_rooms st) = Some r"
  shows "let m = svc_rooms (snd (SvcStopGame c bdy st)) in
    \<exists>r'. GetRoom rid m = Some r' \<and> state r' = ROOM_STATE_FINISHED \<and> players r' = players r \<and>
      GetRoom rid (snd (CleanupDestroyed m)) = Some r'"
proof -
  let ?f = "\<lambda>r. SetState ROOM_STATE_FINISHED (if HasFrameSync r then StopFrameSync r else r)"
  let ?m = "update_room rid ?f (svc_rooms st)"
  have f: "state (?f r) = ROOM_STATE_FINISHED" "players (?f r) = players r"
    by (auto simp: SetState_def StopFrameSync_def)
  have g: "GetRoom rid ?m = Some (?f r)" by (simp add: GetRoom_update assms(3))
  have "directory_ok ?m"
    using assms(2) by (auto simp: rooms_good_def same_players_def SetState_def StopFrameSync_def intro!: directory_ok_same)
  then have "GetRoom rid (snd (CleanupDestroyed ?m)) = Some (?f r)"
    by (simp add: CleanupDestroyed_get g f)
  moreover have "svc_rooms (snd (SvcStopGame c bdy st)) = ?m"
    using assms(1,3) by (simp add: SvcStopGame_def svc_rooms_simps)
  ultimately show ?thesis using f g by (simp add: Let_def)
qed

lemma stop_game_revives_room_witness:
  "let st = snd (SvcLeaveRoom demo_codec [] (snd (SvcCreateRoom demo_codec [] (new_service True 0 0))));
       m = svc_rooms (snd (SvcStopGame demo_codec [] st))
   in \<exists>r'. GetRoom (room_name 1) (snd (CleanupDestroyed m)) = Some r' \<and> players r' = []"
proof -
  let ?d = "DispatchCall (room_dispatch demo_codec)"
  define st0 where "st0 = new_service True 0 0"
  define st1 where "st1 = snd (SvcCreateRoom demo_codec [] st0)"
  define st where "st = snd (SvcLeaveRoom demo_codec [] st1)"
  have "snd (?d ''CreateRoom'' [] st0) = st1" "snd (?d ''LeaveRoom'' [] st1) = st"
    by (simp_all add: room_dispatch_simps st1_def st_def)
  moreover have "rooms_good (svc_rooms st0)" "counter_left (svc_rooms st0)"
    by (auto simp: st0_def intro!: service.init_inv) (simp add: counter_left_def new_service_def empty_manager_def)
  moreover have st1: "svc_rooms st1 = \<lparr>rooms = [(room_name 1, SetState ROOM_STATE_WAITING
        ((new_room (room_name 1) ''ann'' 2)\<lparr>rtimer := snd (Schedule 0 kDefaultRoomTimeoutMs RoomTimeout new_timer_manager)\<rparr>))],
      player_room = [''ann'' \<mapsto> room_name 1], room_id_counter = 2\<rparr>"
    by (simp add: st1_def st0_def SvcCreateRoom_def demo_codec_def new_service_def CreateRoom_def GenerateRoomId_def
        empty_manager_def Let_def svc_rooms_simps update_room_def kDefaultRoomTimeoutMs_def new_room_def)
  moreover from this have "counter_left (svc_rooms st1)" by (simp add: counter_left_def)
  ultimately have good: "rooms_good (svc_rooms st)" using svc_good by metis
  have "\<exists>r. GetRoom (room_name 1) (svc_rooms st) = Some r \<and> players r = []"
    by (simp add: st_def svc_leave_rooms demo_codec_def st1 LeaveRoom_def GetRoom_def update_room_def
        RemovePlayer_def Let_def SetState_def new_room_def)
  then obtain r where r: "GetRoom (room_name 1) (svc_rooms st) = Some r" "players r = []" by blast
  have "parse_stop demo_codec [] = Some \<lparr>rp_room_id = room_name 1, rp_player_id = ''eve''\<rparr>"
    by (simp add: demo_codec_def)
  from stop_game_revives_room [OF this good r(1)] r(2) show ?thesis
    unfolding Let_def st0_def [symmetric] st1_def [symmetric] st_def [symmetric] by auto
qed

end
