(* ===== verification/Room_Stub.thy ===== *)
theory Room_Stub
  imports Room_Service Server_Run
begin

text \<open>
  \<open>RoomServiceStub\<close> of \<open>include/game/room_service.h\<close>: the room service called from another
  process. A stub method serializes its request, makes the call and waits for the answer. The whole
  exchange is modelled: the client, the bytes both ways, and the service behind its dispatch table. The
  Protobuf serializers and parsers of the stub are generated code and come in as \<open>stub_codec\<close>.
\<close>

subsection \<open>The service at the other end\<close>

text \<open>The events of \<open>Server_Run\<close>, for methods that have a state.\<close>

fun remote_event :: "'s dispatch \<Rightarrow> server_event \<Rightarrow> connection \<times> 's \<Rightarrow> connection \<times> 's" where
  "remote_event d (Readable rs ss) cs = ServerRead d rs ss cs"
| "remote_event d (Writable rs) cs = (OnWrite rs (fst cs), snd cs)"

fun remote_event_ok :: "'s dispatch \<Rightarrow> server_event \<Rightarrow> connection \<times> 's \<Rightarrow> bool" where
  "remote_event_ok d (Readable rs ss) (c, s) \<longleftrightarrow> read_pass rs \<and> answers_ok d (new_frames c (OnRead rs c)) ss s"
| "remote_event_ok d (Writable rs) (c, s) \<longleftrightarrow> writes_ok (length (pending_out c)) rs \<and> registered (OnWrite rs c)"

fun remote_all :: "'s dispatch \<Rightarrow> server_event list \<Rightarrow> connection \<times> 's \<Rightarrow> connection \<times> 's" where
  "remote_all d [] cs = cs"
| "remote_all d (e # es) cs = remote_all d es (remote_event d e cs)"

fun remote_all_ok :: "'s dispatch \<Rightarrow> server_event list \<Rightarrow> connection \<times> 's \<Rightarrow> bool" where
  "remote_all_ok d [] cs \<longleftrightarrow> True"
| "remote_all_ok d (e # es) cs \<longleftrightarrow> remote_event_ok d e cs \<and> remote_all_ok d es (remote_event d e cs)"

subsection \<open>The stub\<close>

record 's remote =
  rm_client :: rpc_client
  rm_server :: connection
  rm_state :: 's

text \<open>What the network does during one call: the answer of the client's \<open>send\<close>, the events of the
  server's connection, and the reads of the client's.\<close>

record network =
  net_send :: send_result
  net_events :: "server_event list"
  net_reads :: "recv_result list list"

text \<open>\<open>future.get()\<close> waits for the value, and throws when the promise was destroyed.\<close>

datatype 'r outcome = Blocked | Thrown | Returned 'r

fun future_get :: "call_future \<Rightarrow> bytes outcome" where
  "future_get Unset = Blocked"
| "future_get BrokenPromise = Thrown"
| "future_get (Value b) = Returned b"

text \<open>An empty body leaves the message as it was constructed.\<close>

definition parse_body :: "(bytes \<Rightarrow> 'r) \<Rightarrow> 'r \<Rightarrow> bytes \<Rightarrow> 'r" where
  "parse_body parse msg b = (if b = [] then msg else parse b)"

definition DoCall :: "'s dispatch \<Rightarrow> (bytes \<Rightarrow> 'r) \<Rightarrow> 'r \<Rightarrow> string \<Rightarrow> bytes \<Rightarrow> network \<Rightarrow> 's remote \<Rightarrow> 'r outcome \<times> 's remote" where
  "DoCall d parse msg m bdy net w =
     (let (i, cl) = Call (net_send net) m bdy (rm_client w);
          (sc, s) = remote_all d (net_events net) (rm_server w, rm_state w);
          cl' = fold (ClientRead (server_fd cl)) (net_reads net) cl
      in (map_outcome (parse_body parse msg) (future_get (futures cl' ! i)),
          w\<lparr>rm_client := cl', rm_server := sc, rm_state := s\<rparr>))"

record stub_codec =
  put_create :: "create_room_req \<Rightarrow> bytes"
  put_join :: "room_player_req \<Rightarrow> bytes"
  put_leave :: "room_player_req \<Rightarrow> bytes"
  put_message :: "send_message_req \<Rightarrow> bytes"
  put_start :: "room_player_req \<Rightarrow> bytes"
  put_input :: "player_input_req \<Rightarrow> bytes"
  put_stop :: "room_player_req \<Rightarrow> bytes"
  get_create :: "bytes \<Rightarrow> room_res"
  get_join :: "bytes \<Rightarrow> room_res"
  get_leave :: "bytes \<Rightarrow> room_res"
  get_message :: "bytes \<Rightarrow> room_res"
  get_list :: "bytes \<Rightarrow> room_info list"
  get_start :: "bytes \<Rightarrow> room_res"
  get_input :: "bytes \<Rightarrow> room_res"
  get_stop :: "bytes \<Rightarrow> room_res"

text \<open>The messages as constructed: every field has its default.\<close>

definition default_res :: room_res where
  "default_res = \<lparr>rs_success = False, rs_room_info = None, rs_error_msg = NoText, rs_error_code = ERR_NONE\<rparr>"

type_synonym ('q, 'r) stub = "stub_codec \<Rightarrow> service_state dispatch \<Rightarrow> 'q \<Rightarrow> network \<Rightarrow> service_state remote \<Rightarrow> 'r outcome \<times> service_state remote"

definition StubCreateRoom :: "(create_room_req, room_res) stub" where
  "StubCreateRoom k d req = DoCall d (get_create k) default_res ''CreateRoom'' (put_create k req)"

definition StubJoinRoom :: "(room_player_req, room_res) stub" where
  "StubJoinRoom k d req = DoCall d (get_join k) default_res ''JoinRoom'' (put_join k req)"

definition StubLeaveRoom :: "(room_player_req, room_res) stub" where
  "StubLeaveRoom k d req = DoCall d (get_leave k) default_res ''LeaveRoom'' (put_leave k req)"

definition StubSendMessage :: "(send_message_req, room_res) stub" where
  "StubSendMessage k d req = DoCall d (get_message k) default_res ''SendMessage'' (put_message k req)"

definition StubGetRoomList :: "(unit, room_info list) stub" where
  "StubGetRoomList k d req = DoCall d (get_list k) [] ''GetRoomList'' []"

definition StubStartGame :: "(room_player_req, room_res) stub" where
  "StubStartGame k d req = DoCall d (get_start k) default_res ''StartGame'' (put_start k req)"

definition StubSendInput :: "(player_input_req, room_res) stub" where
  "StubSendInput k d req = DoCall d (get_input k) default_res ''SendInput'' (put_input k req)"

definition StubStopGame :: "(room_player_req, room_res) stub" where
  "StubStopGame k d req = DoCall d (get_stop k) default_res ''StopGame'' (put_stop k req)"

lemmas stub_defs = StubCreateRoom_def StubJoinRoom_def StubLeaveRoom_def StubSendMessage_def
  StubGetRoomList_def StubStartGame_def StubSendInput_def StubStopGame_def


subsection \<open>One frame at the server\<close>

definition remote_reply :: "'s dispatch \<Rightarrow> frame \<Rightarrow> 's \<Rightarrow> frame" where
  "remote_reply d f s =
     (case fst (DispatchCall d (method_name f) (body f) s) of
        Some r \<Rightarrow> \<lparr>request_id = request_id f, msg_type = Response, method_name = method_name f, body = r\<rparr>
      | None \<Rightarrow> \<lparr>request_id = request_id f, msg_type = Error, method_name = method_name f, body = []\<rparr>)"

lemma server_reply_remote:
  "server_reply d f s = (encode_frame (remote_reply d f s), snd (DispatchCall d (method_name f) (body f) s))"
  by (simp add: server_reply_def remote_reply_def encode_frame_def split: prod.split option.split)

text \<open>The server before (\<open>k = 0\<close>) and after (\<open>k = 1\<close>) it has found the frame \<open>f\<close> in the bytes \<open>p\<close>.\<close>

definition answering :: "'s dispatch \<Rightarrow> frame \<Rightarrow> 's \<Rightarrow> bytes \<Rightarrow> nat \<Rightarrow> bytes \<Rightarrow> connection \<times> 's \<Rightarrow> bool" where
  "answering d f s0 w0 k p cs \<longleftrightarrow> parsed [f] k p (read_buffer (fst cs)) \<and> conn_inv (fst cs) \<and> registered (fst cs) \<and>
     snd cs = (if k = 0 then s0 else snd (DispatchCall d (method_name f) (body f) s0)) \<and>
     wire_out (fst cs) @ pending_out (fst cs) = w0 @ (if k = 0 then [] else encode_frame (remote_reply d f s0))"

lemma answering_read:
  assumes "encodable f" and "answering d f s0 w0 k p (c, s)" and "remote_event_ok d (Readable rs ss) (c, s)"
    and "prefix (p @ received rs) (encode_frame f)"
  shows "\<exists>k'. answering d f s0 w0 k' (p @ received rs) (ServerRead d rs ss (c, s))"
proof -
  have p: "parsed [f] k p (read_buffer c)" and ok: "read_pass rs" "answers_ok d (new_frames c (OnRead rs c)) ss s"
    using assms(2,3) by (simp_all add: answering_def)
  have one: "\<forall>g \<in> set [f]. encodable g" and pre: "prefix (p @ received rs) (stream_of [f])"
    using assms(1,4) by simp_all
  obtain k' b' where k': "k \<le> k'" "parsed [f] k' (p @ received rs) b'"
    and r: "OnRead rs c = c\<lparr>read_buffer := b', events := events c @ map FrameReceived (drop k (take k' [f]))\<rparr>"
    by (rule read_parsed [OF one p ok(1) pre])
  let ?c = "OnRead rs c"
  have nf: "new_frames c ?c = drop k (take k' [f])" by (simp only: r new_frames_more)
  have le: "k' \<le> 1" using k'(2) by (simp add: parsed_def)
  have i: "conn_inv ?c" "registered ?c" "wire_out ?c @ pending_out ?c = wire_out c @ pending_out c" "read_buffer ?c = b'"
    using assms(2) by (simp_all add: answering_def r conn_inv_def pending_out_def)
  show ?thesis
  proof (cases "k = 0 \<and> k' = 1")
    case False
    then have "k' = k" using k'(1) le by auto
    then have "ServerRead d rs ss (c, s) = (?c, s)" by (simp add: ServerRead_def nf)
    with assms(2) i k'(2) \<open>k' = k\<close> show ?thesis by (auto simp: answering_def)
  next
    case True
    then have k: "k = 0" "k' = 1" by simp_all
    then have s: "s = s0" using assms(2) by (simp add: answering_def)
    have "ServerRead d rs ss (c, s) = (Send (next_answer ss) (encode_frame (remote_reply d f s0)) ?c, snd (DispatchCall d (method_name f) (body f) s0))"
      by (simp add: ServerRead_def nf k server_reply_remote s)
    moreover have "send_ok (length (encode_frame (remote_reply d f s0))) (next_answer ss)"
      using ok(2) by (simp add: nf k server_reply_remote s)
    ultimately show ?thesis
      using Send_sends [OF i(1)] i assms(2) k k'(2) by (intro exI [of _ 1]) (auto simp: answering_def)
  qed
qed

lemma answering_all:
  assumes "encodable f"
  shows "remote_all_ok d es cs \<Longrightarrow> answering d f s0 w0 k p cs \<Longrightarrow> prefix (p @ concat (map event_bytes es)) (encode_frame f) \<Longrightarrow>
    \<exists>k'. answering d f s0 w0 k' (p @ concat (map event_bytes es)) (remote_all d es cs)"
proof (induction d es cs arbitrary: k p rule: remote_all.induct)
  case (2 d e es cs)
  obtain c s where cs: "cs = (c, s)" by force
  have pr: "prefix (p @ event_bytes e) (encode_frame f)" using 2(4) by (auto intro: append_prefixD)
  have "\<exists>k1. answering d f s0 w0 k1 (p @ event_bytes e) (remote_event d e cs)"
  proof (cases e)
    case (Readable rs ss)
    with answering_read [OF assms 2(3) [unfolded cs]] 2(2) pr show ?thesis by (simp add: cs)
  next
    case (Writable rs)
    with 2(2) have w: "writes_ok (length (pending_out c)) rs" "registered (OnWrite rs c)" by (simp_all add: cs)
    with 2(3) OnWrite_sends [of c rs] OnWrite_grows [of c rs] have "answering d f s0 w0 k p (OnWrite rs c, s)"
      by (simp add: answering_def cs Let_def)
    then show ?thesis by (auto simp: Writable cs)
  qed
  then obtain k1 where k1: "answering d f s0 w0 k1 (p @ event_bytes e) (remote_event d e cs)" by blast
  from 2(1) [OF _ k1] 2(2,4) show ?case by simp
qed auto

text \<open>After the last byte of a frame the buffer is empty again.\<close>

lemma parsed_frame:
  assumes "encodable f" and "parsed [f] k (encode_frame f) b"
  shows "k = 1" and "b = empty_buffer"
proof -
  show k: "k = 1" using parsed_all [of "[f]" k b] assms by simp
  have "pop_all (Append (stream_of [f]) empty_buffer) =
      (map encode_frame [f], Append (stream_of [f]) empty_buffer\<lparr>buf := take 0 (encode_frame f)\<rparr>)"
    using pop_all_frames [of "[f]" f 0 "Append (stream_of [f]) empty_buffer"] assms(1)
    by (simp add: empty_buffer_def)
  then show "b = empty_buffer" using assms(2) by (simp add: parsed_def feed_buffer_def empty_buffer_def Append_def)
qed

lemma remote_answers:
  assumes "encodable f" and "conn_inv c" "registered c" "read_buffer c = empty_buffer" "pending_out c = []"
    and "remote_all_ok d es (c, s)" and "concat (map event_bytes es) = encode_frame f"
  obtains c' where "remote_all d es (c, s) = (c', snd (DispatchCall d (method_name f) (body f) s))"
    "conn_inv c'" "registered c'" "read_buffer c' = empty_buffer"
    "wire_out c' @ pending_out c' = wire_out c @ encode_frame (remote_reply d f s)"
proof -
  have "answering d f s (wire_out c) 0 [] (c, s)" using assms(2-5) by (simp add: answering_def)
  from answering_all [OF assms(1,6) this] assms(7)
  obtain k where k: "answering d f s (wire_out c) k (encode_frame f) (remote_all d es (c, s))" by auto
  then have "parsed [f] k (encode_frame f) (read_buffer (fst (remote_all d es (c, s))))" by (simp add: answering_def)
  from parsed_frame [OF assms(1) this] k show ?thesis
    by (intro that [of "fst (remote_all d es (c, s))"]) (auto simp: answering_def prod_eq_iff)
qed

subsection \<open>One answer at the client\<close>

definition receiving :: "frame \<Rightarrow> rpc_client \<Rightarrow> nat \<Rightarrow> nat \<Rightarrow> bytes \<Rightarrow> rpc_client \<Rightarrow> bool" where
  "receiving g cl0 i k p cl \<longleftrightarrow>
     (\<exists>cc. loop_conns cl (server_fd cl0) = Some cc \<and> parsed [g] k p (read_buffer cc) \<and> registered cc) \<and>
     server_fd cl = server_fd cl0 \<and> next_request_id cl = next_request_id cl0 \<and>
     pending_requests cl = (if k = 0 then [request_id g \<mapsto> i] else Map.empty) \<and>
     futures cl = (if k = 0 then futures cl0 else (futures cl0)[i := Value (if msg_type g = Error then [] else body g)])"

lemma receiving_read:
  assumes "encodable g" and "receiving g cl0 i k p cl" and "read_pass rs" and "prefix (p @ received rs) (encode_frame g)"
  shows "\<exists>k'. receiving g cl0 i k' (p @ received rs) (ClientRead (server_fd cl0) rs cl)"
proof -
  obtain cc where cc: "loop_conns cl (server_fd cl0) = Some cc" "parsed [g] k p (read_buffer cc)" "registered cc"
    using assms(2) by (auto simp: receiving_def)
  have one: "\<forall>f \<in> set [g]. encodable f" and pre: "prefix (p @ received rs) (stream_of [g])"
    using assms(1,4) by simp_all
  obtain k' b' where k': "k \<le> k'" "parsed [g] k' (p @ received rs) b'"
    and r: "OnRead rs cc = cc\<lparr>read_buffer := b', events := events cc @ map FrameReceived (drop k (take k' [g]))\<rparr>"
    by (rule read_parsed [OF one cc(2) assms(3) pre])
  have nf: "new_frames cc (OnRead rs cc) = drop k (take k' [g])" by (simp only: r new_frames_more)
  have le: "k' \<le> 1" using k'(2) by (simp add: parsed_def)
  have reg: "registered (OnRead rs cc)" "read_buffer (OnRead rs cc) = b'" using cc(3) by (simp_all add: r)
  have e: "ClientRead (server_fd cl0) rs cl = fold OnResponse (drop k (take k' [g])) (cl\<lparr>loop_conns := (loop_conns cl)(server_fd cl0 \<mapsto> OnRead rs cc)\<rparr>)"
    by (simp add: ClientRead_def cc Let_def nf reg)
  show ?thesis
  proof (cases "k = 0 \<and> k' = 1")
    case False
    then have k: "k' = k" using k'(1) le by auto
    then have "ClientRead (server_fd cl0) rs cl = cl\<lparr>loop_conns := (loop_conns cl)(server_fd cl0 \<mapsto> OnRead rs cc)\<rparr>" by (simp add: e)
    with assms(2) k'(2) reg have "receiving g cl0 i k (p @ received rs) (ClientRead (server_fd cl0) rs cl)"
      by (simp add: receiving_def k)
    then show ?thesis by blast
  next
    case True
    then have "ClientRead (server_fd cl0) rs cl = OnResponse g (cl\<lparr>loop_conns := (loop_conns cl)(server_fd cl0 \<mapsto> OnRead rs cc)\<rparr>)"
      by (simp add: e)
    with assms(2) k'(2) reg True have "receiving g cl0 i 1 (p @ received rs) (ClientRead (server_fd cl0) rs cl)"
      by (simp add: receiving_def OnResponse_def Settle_def)
    then show ?thesis by blast
  qed
qed

lemma receiving_all:
  assumes "encodable g"
  shows "receiving g cl0 i k p cl \<Longrightarrow> \<forall>rs \<in> set rss. read_pass rs \<Longrightarrow> prefix (p @ concat (map received rss)) (encode_frame g) \<Longrightarrow>
    \<exists>k'. receiving g cl0 i k' (p @ concat (map received rss)) (fold (ClientRead (server_fd cl0)) rss cl)"
proof (induction rss arbitrary: k p cl)
  case (Cons rs rss)
  have "prefix (p @ received rs) (encode_frame g)" using Cons.prems(3) by (auto intro: append_prefixD)
  with receiving_read [OF assms Cons.prems(1)] Cons.prems(2)
  obtain k1 where k1: "receiving g cl0 i k1 (p @ received rs) (ClientRead (server_fd cl0) rs cl)" by auto
  from Cons.IH [OF k1] Cons.prems(2,3) show ?case by simp
qed auto


subsection \<open>A call through the network\<close>

text \<open>Nothing is on its way: no call is outstanding, and no bytes are buffered at either end.\<close>

definition line_idle :: "'s remote \<Rightarrow> bool" where
  "line_idle w \<longleftrightarrow>
     (\<exists>cc. loop_conns (rm_client w) (server_fd (rm_client w)) = Some cc \<and> registered cc \<and> read_buffer cc = empty_buffer) \<and>
     pending_requests (rm_client w) = Map.empty \<and>
     conn_inv (rm_server w) \<and> registered (rm_server w) \<and> read_buffer (rm_server w) = empty_buffer \<and> pending_out (rm_server w) = []"

definition stub_request :: "string \<Rightarrow> bytes \<Rightarrow> 's remote \<Rightarrow> frame" where
  "stub_request m bdy w = \<lparr>request_id = next_request_id (rm_client w), msg_type = Request, method_name = m, body = bdy\<rparr>"

text \<open>
  The network carries one call: the socket takes the request whole, the server reads its bytes in some
  pieces and gets everything out that it sends, and the client reads what the server has sent in some
  pieces. Request and response fit a frame.
\<close>

definition carries :: "'s dispatch \<Rightarrow> string \<Rightarrow> bytes \<Rightarrow> network \<Rightarrow> 's remote \<Rightarrow> bool" where
  "carries d m bdy net w \<longleftrightarrow>
     (let f = stub_request m bdy w; sc = fst (remote_all d (net_events net) (rm_server w, rm_state w))
      in encodable f \<and> encodable (remote_reply d f (rm_state w)) \<and> net_send net = Sent (length (encode_frame f)) \<and>
         remote_all_ok d (net_events net) (rm_server w, rm_state w) \<and>
         concat (map event_bytes (net_events net)) = encode_frame f \<and> pending_out sc = [] \<and>
         (\<forall>rs \<in> set (net_reads net). read_pass rs) \<and>
         concat (map received (net_reads net)) = drop (length (wire_out (rm_server w))) (wire_out sc))"

lemma remote_reply_fields:
  "request_id (remote_reply d f s) = request_id f"
  "(if msg_type (remote_reply d f s) = Error then [] else body (remote_reply d f s)) =
     result_value (fst (DispatchCall d (method_name f) (body f) s))"
  by (simp_all add: remote_reply_def result_value_def split: option.split)

lemma DoCall_local:
  assumes q: "line_idle w" and net: "carries d m bdy net w"
  shows "fst (DoCall d parse msg m bdy net w) =
      Returned (parse_body parse msg (result_value (fst (DispatchCall d m bdy (rm_state w)))))"
    and "rm_state (snd (DoCall d parse msg m bdy net w)) = snd (DispatchCall d m bdy (rm_state w))"
    and "line_idle (snd (DoCall d parse msg m bdy net w))"
proof -
  let ?f = "stub_request m bdy w" and ?start = "rm_client w"
  let ?g = "remote_reply d ?f (rm_state w)" and ?i = "length (futures (rm_client w))"
  have f: "request_id ?f = next_request_id ?start" "method_name ?f = m" "body ?f = bdy" "encodable ?f"
    and g: "encodable ?g" using net by (simp_all add: stub_request_def carries_def Let_def)
  obtain c' where c': "remote_all d (net_events net) (rm_server w, rm_state w) = (c', snd (DispatchCall d m bdy (rm_state w)))"
    "conn_inv c'" "registered c'" "read_buffer c' = empty_buffer"
    "wire_out c' @ pending_out c' = wire_out (rm_server w) @ encode_frame ?g"
    using remote_answers [OF f(4), of "rm_server w" d "net_events net" "rm_state w"] q net
    by (auto simp: line_idle_def carries_def Let_def f)
  have out: "pending_out c' = []" "concat (map received (net_reads net)) = encode_frame ?g"
    using net c'(1,5) by (simp_all add: carries_def Let_def)
  obtain cc where cc: "loop_conns ?start (server_fd ?start) = Some cc" "registered cc" "read_buffer cc = empty_buffer"
    using q by (auto simp: line_idle_def)
  obtain cl where cl: "Call (net_send net) m bdy ?start = (?i, cl)"
    and fields: "server_fd cl = server_fd ?start" "pending_requests cl = [request_id ?g \<mapsto> ?i]" "futures cl = futures ?start @ [Unset]"
      "loop_conns cl (server_fd cl) = Some (cc\<lparr>wire_out := wire_out cc @ encode_frame ?f\<rparr>)"
    using net q cc by (simp add: carries_def Let_def Call_def put_on_wire_def line_idle_def drop_promise_def
        remote_reply_fields f encode_frame_def stub_request_def)
  have start: "receiving ?g cl ?i 0 [] cl"
    using fields cc by (simp add: receiving_def)
  let ?cl = "fold (ClientRead (server_fd cl)) (net_reads net) cl"
  obtain k where k: "receiving ?g cl ?i k (encode_frame ?g) ?cl"
    using receiving_all [OF g start, of "net_reads net"] net out(2) by (auto simp: carries_def Let_def)
  then obtain c2 where c2: "loop_conns ?cl (server_fd cl) = Some c2" "parsed [?g] k (encode_frame ?g) (read_buffer c2)" "registered c2"
    by (auto simp: receiving_def)
  note last = parsed_frame [OF g c2(2)]
  have fin: "server_fd ?cl = server_fd cl" "pending_requests ?cl = Map.empty"
    "futures ?cl = futures ?start @ [Value (result_value (fst (DispatchCall d m bdy (rm_state w))))]"
    using k fields(3) unfolding receiving_def last(1) remote_reply_fields f by (simp_all only: if_False one_neq_zero list_update_length)
  have call: "DoCall d parse msg m bdy net w =
      (Returned (parse_body parse msg (result_value (fst (DispatchCall d m bdy (rm_state w))))),
       w\<lparr>rm_client := ?cl, rm_server := c', rm_state := snd (DispatchCall d m bdy (rm_state w))\<rparr>)"
    by (simp add: DoCall_def cl c'(1) fin(3))
  show "fst (DoCall d parse msg m bdy net w) =
      Returned (parse_body parse msg (result_value (fst (DispatchCall d m bdy (rm_state w)))))"
    and "rm_state (snd (DoCall d parse msg m bdy net w)) = snd (DispatchCall d m bdy (rm_state w))"
    by (simp_all add: call)
  show "line_idle (snd (DoCall d parse msg m bdy net w))"
    using c2 last fin(1,2) c'(2-4) out(1) by (simp add: call line_idle_def)
qed


subsection \<open>The remote service is the local service\<close>

datatype stub_call = CallCreate create_room_req | CallJoin room_player_req | CallLeave room_player_req
  | CallMessage send_message_req | CallList | CallStart room_player_req | CallInput player_input_req | CallStop room_player_req

datatype stub_answer = RoomAnswer room_res | ListAnswer "room_info list"

fun stub_invoke :: "stub_codec \<Rightarrow> service_state dispatch \<Rightarrow> stub_call \<Rightarrow> network \<Rightarrow> service_state remote \<Rightarrow> stub_answer outcome \<times> service_state remote" where
  "stub_invoke k d (CallCreate q) net w = map_prod (map_outcome RoomAnswer) id (StubCreateRoom k d q net w)"
| "stub_invoke k d (CallJoin q) net w = map_prod (map_outcome RoomAnswer) id (StubJoinRoom k d q net w)"
| "stub_invoke k d (CallLeave q) net w = map_prod (map_outcome RoomAnswer) id (StubLeaveRoom k d q net w)"
| "stub_invoke k d (CallMessage q) net w = map_prod (map_outcome RoomAnswer) id (StubSendMessage k d q net w)"
| "stub_invoke k d CallList net w = map_prod (map_outcome ListAnswer) id (StubGetRoomList k d () net w)"
| "stub_invoke k d (CallStart q) net w = map_prod (map_outcome RoomAnswer) id (StubStartGame k d q net w)"
| "stub_invoke k d (CallInput q) net w = map_prod (map_outcome RoomAnswer) id (StubSendInput k d q net w)"
| "stub_invoke k d (CallStop q) net w = map_prod (map_outcome RoomAnswer) id (StubStopGame k d q net w)"

fun stub_method :: "stub_call \<Rightarrow> string" where
  "stub_method (CallCreate q) = ''CreateRoom''"
| "stub_method (CallJoin q) = ''JoinRoom''"
| "stub_method (CallLeave q) = ''LeaveRoom''"
| "stub_method (CallMessage q) = ''SendMessage''"
| "stub_method CallList = ''GetRoomList''"
| "stub_method (CallStart q) = ''StartGame''"
| "stub_method (CallInput q) = ''SendInput''"
| "stub_method (CallStop q) = ''StopGame''"

fun stub_body :: "stub_codec \<Rightarrow> stub_call \<Rightarrow> bytes" where
  "stub_body k (CallCreate q) = put_create k q"
| "stub_body k (CallJoin q) = put_join k q"
| "stub_body k (CallLeave q) = put_leave k q"
| "stub_body k (CallMessage q) = put_message k q"
| "stub_body k CallList = []"
| "stub_body k (CallStart q) = put_start k q"
| "stub_body k (CallInput q) = put_input k q"
| "stub_body k (CallStop q) = put_stop k q"

text \<open>One stub call after the other, for as long as they return.\<close>

fun stub_run :: "stub_codec \<Rightarrow> service_state dispatch \<Rightarrow> (stub_call \<times> network) list \<Rightarrow> service_state remote \<Rightarrow> stub_answer outcome list \<times> service_state remote" where
  "stub_run k d [] w = ([], w)"
| "stub_run k d ((call, net) # xs) w =
     (case stub_invoke k d call net w of
        (Returned a, w1) \<Rightarrow> map_prod ((#) (Returned a)) id (stub_run k d xs w1)
      | (r, w1) \<Rightarrow> ([r], w1))"

fun all_carried :: "stub_codec \<Rightarrow> service_state dispatch \<Rightarrow> (stub_call \<times> network) list \<Rightarrow> service_state remote \<Rightarrow> bool" where
  "all_carried k d [] w \<longleftrightarrow> True"
| "all_carried k d ((call, net) # xs) w \<longleftrightarrow>
     carries d (stub_method call) (stub_body k call) net w \<and> all_carried k d xs (snd (stub_invoke k d call net w))"

text \<open>The same calls made on the service object itself.\<close>

definition room_answer :: "(bytes \<Rightarrow> room_res) \<Rightarrow> bytes option \<times> service_state \<Rightarrow> stub_answer \<times> service_state" where
  "room_answer parse = map_prod (\<lambda>r. RoomAnswer (parse_body parse default_res (result_value r))) id"

fun local_invoke :: "room_codec \<Rightarrow> stub_codec \<Rightarrow> stub_call \<Rightarrow> service_state \<Rightarrow> stub_answer \<times> service_state" where
  "local_invoke c k (CallCreate q) s = room_answer (get_create k) (SvcCreateRoom c (put_create k q) s)"
| "local_invoke c k (CallJoin q) s = room_answer (get_join k) (SvcJoinRoom c (put_join k q) s)"
| "local_invoke c k (CallLeave q) s = room_answer (get_leave k) (SvcLeaveRoom c (put_leave k q) s)"
| "local_invoke c k (CallMessage q) s = room_answer (get_message k) (SvcSendMessage c (put_message k q) s)"
| "local_invoke c k CallList s =
     map_prod (\<lambda>r. ListAnswer (parse_body (get_list k) [] (result_value r))) id (SvcGetRoomList c [] s)"
| "local_invoke c k (CallStart q) s = room_answer (get_start k) (SvcStartGame c (put_start k q) s)"
| "local_invoke c k (CallInput q) s = room_answer (get_input k) (SvcSendInput c (put_input k q) s)"
| "local_invoke c k (CallStop q) s = room_answer (get_stop k) (SvcStopGame c (put_stop k q) s)"

fun local_run :: "room_codec \<Rightarrow> stub_codec \<Rightarrow> stub_call list \<Rightarrow> service_state \<Rightarrow> stub_answer list \<times> service_state" where
  "local_run c k [] s = ([], s)"
| "local_run c k (call # calls) s =
     (case local_invoke c k call s of (a, s1) \<Rightarrow> map_prod ((#) a) id (local_run c k calls s1))"

lemma stub_invoke_local:
  assumes "line_idle w" and "carries (room_dispatch c) (stub_method call) (stub_body k call) net w"
  obtains w1 where "stub_invoke k (room_dispatch c) call net w = (Returned (fst (local_invoke c k call (rm_state w))), w1)"
    "rm_state w1 = snd (local_invoke c k call (rm_state w))" "line_idle w1"
proof -
  have "stub_invoke k (room_dispatch c) call net w =
      (Returned (fst (local_invoke c k call (rm_state w))), snd (stub_invoke k (room_dispatch c) call net w)) \<and>
    rm_state (snd (stub_invoke k (room_dispatch c) call net w)) = snd (local_invoke c k call (rm_state w)) \<and>
    line_idle (snd (stub_invoke k (room_dispatch c) call net w))"
    using assms by (cases call) (simp_all add: DoCall_local stub_defs room_dispatch_simps room_answer_def prod_eq_iff)
  then show ?thesis by (intro that) auto
qed

text \<open>C28. Calling the room service through the stub is calling the service: for any sequence of calls of its
  eight methods, over a connection on which nothing is outstanding and a network that carries each
  request and each response, cut into pieces in any way, every stub method returns, with the message that
  the handler of that name answers when it is called directly with the same request on the state the
  earlier calls have left, and the rooms end up in the same state.\<close>

theorem remote_rooms_are_local:
  assumes "line_idle w" and "all_carried k (room_dispatch c) calls w"
  shows "fst (stub_run k (room_dispatch c) calls w) = map Returned (fst (local_run c k (map fst calls) (rm_state w))) \<and>
    rm_state (snd (stub_run k (room_dispatch c) calls w)) = snd (local_run c k (map fst calls) (rm_state w))"
  using assms
proof (induction calls arbitrary: w)
  case (Cons x calls)
  obtain call net where x: "x = (call, net)" by force
  obtain w1 where w1: "stub_invoke k (room_dispatch c) call net w = (Returned (fst (local_invoke c k call (rm_state w))), w1)"
    "rm_state w1 = snd (local_invoke c k call (rm_state w))" "line_idle w1"
    using stub_invoke_local [of w c call k net] Cons.prems by (auto simp: x)
  have "all_carried k (room_dispatch c) calls w1" using Cons.prems(2) by (simp add: x w1(1))
  from Cons.IH [OF w1(3) this] show ?case
    by (simp add: x w1 case_prod_beta)
qed simp

text \<open>A client that has just connected, and the connection the server has just accepted.\<close>

definition remote_start :: "int \<Rightarrow> int \<Rightarrow> 's \<Rightarrow> 's remote" where
  "remote_start n m s = \<lparr>rm_client = snd (Connect (Connected n) new_client), rm_server = new_connection m, rm_state = s\<rparr>"

lemma remote_start_idle: "line_idle (remote_start n m s)"
  by (simp add: line_idle_def remote_start_def Connect_def new_client_def new_connection_def conn_inv_def pending_out_def)

text \<open>
  A stub cannot tell a request the server rejects, or a call that was never sent, from an answer: both
  come back as the message as it was constructed, which has no success flag but the error code for
  success; for the list it says that there are no rooms.
\<close>

lemma rejected_call_has_no_error:
  assumes "line_idle w" and "carries (room_dispatch c) (stub_method call) (stub_body k call) net w"
    and "malformed c (stub_method call) (stub_body k call)"
  shows "fst (stub_invoke k (room_dispatch c) call net w) = Returned (RoomAnswer default_res)"
    and "rs_error_code default_res = ERR_NONE"
proof -
  have "fst (local_invoke c k call (rm_state w)) = RoomAnswer default_res"
    using assms(3) by (cases call) (simp_all add: malformed_def service_defs room_answer_def parse_body_def result_value_def)
  then show "fst (stub_invoke k (room_dispatch c) call net w) = Returned (RoomAnswer default_res)"
    using stub_invoke_local [OF assms(1,2)] by (metis fst_conv)
  show "rs_error_code default_res = ERR_NONE" by (simp add: default_res_def)
qed

lemma unsent_call_returns_default:
  assumes "\<forall>n. net_send net \<noteq> Sent n" and "pending_requests (rm_client w) (next_request_id (rm_client w)) = None"
    and "net_reads net = []"
  shows "fst (DoCall d parse msg m bdy net w) = Returned msg"
  using assms by (cases "net_send net")
    (auto simp: DoCall_def Call_def Let_def Settle_def drop_promise_def parse_body_def split: prod.split)

text \<open>And it waits for ever when the answer does not come.\<close>

lemma lost_answer_blocks:
  assumes "net_send net = Sent n" and "net_reads net = []"
  shows "fst (DoCall d parse msg m bdy net w) = Blocked"
  using assms by (auto simp: DoCall_def Call_def Let_def put_on_wire_def drop_promise_def nth_append split: prod.split option.split)


subsection \<open>A network that carries a call\<close>

text \<open>The network that cuts nothing: one read and one write at each end.\<close>

definition whole_network :: "'s dispatch \<Rightarrow> string \<Rightarrow> bytes \<Rightarrow> 's remote \<Rightarrow> network" where
  "whole_network d m bdy w =
     (let f = stub_request m bdy w; g = remote_reply d f (rm_state w)
      in \<lparr>net_send = Sent (length (encode_frame f)),
          net_events = [Readable [RecvData (encode_frame f), RecvAgain] [Sent (length (encode_frame g))]],
          net_reads = [[RecvData (encode_frame g), RecvAgain]]\<rparr>)"

lemma whole_network_carries:
  assumes "line_idle w" and "encodable (stub_request m bdy w)"
    and "encodable (remote_reply d (stub_request m bdy w) (rm_state w))"
  shows "carries d m bdy (whole_network d m bdy w) w"
proof -
  let ?f = "stub_request m bdy w" and ?c = "rm_server w" and ?s = "rm_state w"
  let ?rs = "[RecvData (encode_frame ?f), RecvAgain]" and ?data = "encode_frame (remote_reply d ?f ?s)"
  have q: "conn_inv ?c" "registered ?c" "read_buffer ?c = empty_buffer" "pending_out ?c = []"
    using assms(1) by (simp_all add: line_idle_def)
  have nf: "new_frames ?c (OnRead ?rs ?c) = [?f]" by (rule OnRead_one_frame [OF assms(2) q(3)])
  have "write_buffer ?c = []" using q(1,4) by (auto simp: conn_inv_def pending_out_def split: if_splits)
  moreover from this have "write_buffer (OnRead ?rs ?c) = []" "wire_out (OnRead ?rs ?c) = wire_out ?c"
    using OnRead_writes [of ?rs ?c] by (simp_all add: OnRead_write_buffer)
  ultimately have "fst (ServerRead d ?rs [Sent (length ?data)] (?c, ?s)) = OnRead ?rs ?c\<lparr>wire_out := wire_out ?c @ ?data\<rparr>"
    "write_buffer (OnRead ?rs ?c) = []"
    by (simp_all add: ServerRead_def nf server_reply_remote Send_def)
  then show ?thesis
    using assms(2,3) nf by (simp add: carries_def whole_network_def Let_def server_reply_remote pending_out_def)
qed

definition demo_stub :: stub_codec where
  "demo_stub = \<lparr>put_create = \<lambda>_. [], put_join = \<lambda>_. [], put_leave = \<lambda>_. [], put_message = \<lambda>_. [], put_start = \<lambda>_. [],
     put_input = \<lambda>_. [], put_stop = \<lambda>_. [], get_create = \<lambda>b. if b = [1] then ok_res else default_res,
     get_join = \<lambda>b. if b = [1] then ok_res else default_res, get_leave = \<lambda>b. if b = [1] then ok_res else default_res,
     get_message = \<lambda>b. if b = [1] then ok_res else default_res, get_list = \<lambda>_. [],
     get_start = \<lambda>b. if b = [1] then ok_res else default_res, get_input = \<lambda>b. if b = [1] then ok_res else default_res,
     get_stop = \<lambda>b. if b = [1] then ok_res else default_res\<rparr>"

text \<open>A room is created and its owner starts the game, both through the stub.\<close>

definition demo_remote :: "service_state remote" where
  "demo_remote = remote_start 3 5 (new_service True 0 0)"

definition demo_calls :: "(stub_call \<times> network) list" where
  "demo_calls =
     (let d = room_dispatch demo_codec; call = CallCreate \<lparr>cr_player_id = ''ann'', cr_room_name = ''r'', cr_max_players = 2\<rparr>;
          start = CallStart \<lparr>rp_room_id = room_name 1, rp_player_id = ''ann''\<rparr>;
          net = whole_network d ''CreateRoom'' [] demo_remote;
          w = snd (stub_invoke demo_stub d call net demo_remote)
      in [(call, net), (start, whole_network d ''StartGame'' [] w)])"

lemma demo_sizes:
  assumes "m \<in> {''CreateRoom'', ''StartGame''}"
  shows "encodable (stub_request m [] w)"
    and "encodable (remote_reply (room_dispatch demo_codec) (stub_request m [] w) s)"
  using assms by (auto simp: remote_reply_def stub_request_def room_dispatch_simps SvcCreateRoom_def SvcStartGame_def
      demo_codec_def Let_def encodable_def kMaxFrameSize_def split: prod.split option.split)

lemma demo_stub_body [simp]: "stub_body demo_stub call = []"
  by (cases call) (simp_all add: demo_stub_def)

lemma demo_calls_carried: "all_carried demo_stub (room_dispatch demo_codec) demo_calls demo_remote"
proof -
  have q: "line_idle demo_remote" by (simp add: demo_remote_def remote_start_idle)
  let ?call = "CallCreate \<lparr>cr_player_id = ''ann'', cr_room_name = ''r'', cr_max_players = 2\<rparr>"
  let ?net = "whole_network (room_dispatch demo_codec) ''CreateRoom'' [] demo_remote"
  have c: "carries (room_dispatch demo_codec) (stub_method ?call) (stub_body demo_stub ?call) ?net demo_remote"
    by (simp add: whole_network_carries q demo_sizes del: stub_body.simps)
  obtain w1 where w1: "stub_invoke demo_stub (room_dispatch demo_codec) ?call ?net demo_remote =
      (Returned (fst (local_invoke demo_codec demo_stub ?call (rm_state demo_remote))), w1)" "line_idle w1"
    using stub_invoke_local [OF q c] by blast
  have "carries (room_dispatch demo_codec) ''StartGame'' [] (whole_network (room_dispatch demo_codec) ''StartGame'' [] w1) w1"
    by (rule whole_network_carries [OF w1(2)]) (simp_all add: demo_sizes)
  then show ?thesis using c w1(1) by (simp add: demo_calls_def Let_def del: stub_invoke.simps stub_body.simps)
qed

theorem remote_rooms_are_local_witness:
  "fst (stub_run demo_stub (room_dispatch demo_codec) demo_calls demo_remote) = [Returned (RoomAnswer ok_res), Returned (RoomAnswer ok_res)]"
proof -
  have q: "line_idle demo_remote" by (simp add: demo_remote_def remote_start_idle)
  have "map fst demo_calls = [CallCreate \<lparr>cr_player_id = ''ann'', cr_room_name = ''r'', cr_max_players = 2\<rparr>,
      CallStart \<lparr>rp_room_id = room_name 1, rp_player_id = ''ann''\<rparr>]"
    by (simp add: demo_calls_def Let_def)
  with remote_rooms_are_local [OF q demo_calls_carried] show ?thesis
    by (simp add: demo_remote_def remote_start_def room_answer_def SvcCreateRoom_def SvcStartGame_def demo_codec_def demo_stub_def
        new_service_def CreateRoom_def GenerateRoomId_def empty_manager_def Let_def svc_rooms_simps GetRoom_def update_room_def
        StartGame_def StartGameAndNotify_def SetState_def new_room_def parse_body_def result_value_def ok_res_def)
qed

end
