(* ===== verification/Bench_Client.thy ===== *)
theory Bench_Client
  imports Http_Server Game_Client
begin

text \<open>
  \<open>bench/bench_client.cpp\<close>: the threads that measure calls over RPC and over HTTP, and the statistics
  made of their latencies. What the socket and the futures give and the durations are arguments;
  printing and the command line are left out. A blocking \<open>recv\<close> on a list of answers that is used up
  never returns.
\<close>

subsection \<open>HTTP\<close>

definition HttpResponseContentLength :: "string \<Rightarrow> stoi_error + int" where
  "HttpResponseContentLength hdr =
     (case (case after ''Content-Length:'' hdr of None \<Rightarrow> after ''content-length:'' hdr | Some t \<Rightarrow> Some t) of
        None \<Rightarrow> Inr (- 1)
      | Some t \<Rightarrow> let ds = takeWhile is_digit (skip_spaces t) in if ds = [] then Inr (- 1) else stoi ds)"

text \<open>
  Receiving until the response is long enough: no result when \<open>recv\<close> blocks for ever, otherwise the
  response (none when the connection ended) and the answers that are left.
\<close>

fun recv_until :: "(string \<Rightarrow> bool) \<Rightarrow> string \<Rightarrow> recv_result list \<Rightarrow> (string option \<times> recv_result list) option" where
  "recv_until enough t [] = (if enough t then Some (Some t, []) else None)"
| "recv_until enough t (r # rs) =
     (if enough t then Some (Some t, r # rs)
      else case r of
        RecvData d \<Rightarrow> if d = [] then Some (None, rs) else recv_until enough (t @ string_of_bytes d) rs
      | _ \<Rightarrow> Some (None, rs))"

definition HttpSendRecv :: "bool \<Rightarrow> recv_result list \<Rightarrow> stoi_error + (bool \<times> recv_result list) option" where
  "HttpSendRecv sent rs =
     (if \<not> sent then Inr (Some (False, rs))
      else case recv_until (\<lambda>t. find_sub (crlf @ crlf) t \<noteq> None) [] rs of
        None \<Rightarrow> Inr None
      | Some (None, rs1) \<Rightarrow> Inr (Some (False, rs1))
      | Some (Some t, rs1) \<Rightarrow>
          (case HttpResponseContentLength t of
             Inl e \<Rightarrow> Inl e
           | Inr body_len \<Rightarrow>
               if body_len < 0 then Inr (Some (False, rs1))
               else case recv_until (\<lambda>t'. the (find_sub (crlf @ crlf) t) + 4 + nat body_len \<le> length t') t rs1 of
                 None \<Rightarrow> Inr None
               | Some (r, rs2) \<Rightarrow> Inr (Some (r \<noteq> None, rs2))))"

subsection \<open>The measuring threads\<close>

record thread_result =
  tr_latencies :: "fp list"
  tr_failed :: nat

definition no_result :: thread_result where
  "no_result = \<lparr>tr_latencies = [], tr_failed = 0\<rparr>"

definition measured :: "bool \<Rightarrow> int \<Rightarrow> thread_result \<Rightarrow> thread_result" where
  "measured ok took r =
     (if ok then r\<lparr>tr_latencies := tr_latencies r @ [fp_of_int Double took]\<rparr> else r\<lparr>tr_failed := tr_failed r + 1\<rparr>)"

text \<open>A request: whether it was sent, and how long it took.\<close>

fun http_requests :: "(bool \<times> int) list \<Rightarrow> recv_result list \<Rightarrow> thread_result \<Rightarrow> stoi_error + (thread_result \<times> recv_result list) option" where
  "http_requests [] rs r = Inr (Some (r, rs))"
| "http_requests ((sent, took) # qs) rs r =
     (case HttpSendRecv sent rs of
        Inl e \<Rightarrow> Inl e
      | Inr None \<Rightarrow> Inr None
      | Inr (Some (ok, rs1)) \<Rightarrow> http_requests qs rs1 (measured ok took r))"

text \<open>The requests that warm up are made and not counted; those over RPC leave no trace here.\<close>

definition RunHttpThread :: "bool \<Rightarrow> (bool \<times> int) list \<Rightarrow> (bool \<times> int) list \<Rightarrow> recv_result list \<Rightarrow> stoi_error + thread_result option" where
  "RunHttpThread up warmup requests rs =
     (if \<not> up then Inr (Some (no_result\<lparr>tr_failed := length requests\<rparr>))
      else case http_requests warmup rs no_result of
        Inl e \<Rightarrow> Inl e
      | Inr None \<Rightarrow> Inr None
      | Inr (Some (_, rs1)) \<Rightarrow> map_sum id (map_option fst) (http_requests requests rs1 no_result))"

definition rpc_ok :: "future_result \<Rightarrow> bool" where
  "rpc_ok f = (case f of NotReady \<Rightarrow> False | Ready rsp \<Rightarrow> rsp \<noteq> [])"

fun rpc_requests :: "(future_result \<times> int) list \<Rightarrow> thread_result \<Rightarrow> thread_result" where
  "rpc_requests [] r = r"
| "rpc_requests ((f, took) # qs) r = rpc_requests qs (measured (rpc_ok f) took r)"

definition RunRpcThread :: "bool \<Rightarrow> (future_result \<times> int) list \<Rightarrow> thread_result" where
  "RunRpcThread up requests =
     (if \<not> up then no_result\<lparr>tr_failed := length requests\<rparr> else rpc_requests requests no_result)"

subsection \<open>The statistics\<close>

record bench_summary =
  sm_total :: int
  sm_failed :: int
  sm_time :: fp
  sm_avg :: fp
  sm_min :: fp
  sm_max :: fp
  sm_p50 :: fp
  sm_p95 :: fp
  sm_p99 :: fp
  sm_qps :: fp

definition nearest_rank :: "real \<Rightarrow> fp list \<Rightarrow> fp" where
  "nearest_rank p xs = (let n = length xs; i = unat (percentile_index p n) in xs ! (if n \<le> i then n - 1 else i))"

definition ComputeStats :: "fp list \<Rightarrow> int \<Rightarrow> int \<Rightarrow> fp \<Rightarrow> bench_summary" where
  "ComputeStats all_latencies requests failed elapsed =
     (let s = \<lparr>sm_total = requests, sm_failed = failed, sm_time = FNum 0, sm_avg = FNum 0, sm_min = FNum 0, sm_max = FNum 0,
                sm_p50 = FNum 0, sm_p95 = FNum 0, sm_p99 = FNum 0, sm_qps = FNum 0\<rparr>;
          xs = fp_sort all_latencies
      in if all_latencies = [] then s
         else s\<lparr>sm_min := hd xs, sm_max := last xs,
                sm_avg := fp_div Double (fold (\<lambda>v t. fp_add Double t v) xs (FNum 0)) (real (length xs)),
                sm_p50 := nearest_rank (1 / 2) xs, sm_p95 := nearest_rank (round_to Double (95 / 100)) xs,
                sm_p99 := nearest_rank (round_to Double (99 / 100)) xs, sm_time := elapsed,
                sm_qps := (case elapsed of
                   FNum t \<Rightarrow> if 0 < t then fp_div Double (fp_of_int Double (requests - failed)) t else FNum 0 | _ \<Rightarrow> FNum 0)\<rparr>)"

text \<open>The summary over the threads, each of which was to make \<open>g_requests\<close> requests.\<close>

definition bench_report :: "nat \<Rightarrow> thread_result list \<Rightarrow> fp \<Rightarrow> bench_summary" where
  "bench_report g_requests rs elapsed =
     ComputeStats (concat (map tr_latencies rs)) (int (length rs * g_requests)) (int (sum_list (map tr_failed rs))) elapsed"

subsection \<open>Every request is counted once\<close>

definition requests_counted :: "thread_result \<Rightarrow> nat" where
  "requests_counted r = length (tr_latencies r) + tr_failed r"

lemma measured_counts [simp]: "requests_counted (measured ok took r) = requests_counted r + 1"
  by (simp add: requests_counted_def measured_def)

lemma no_result_counts [simp]: "requests_counted no_result = 0" "requests_counted (no_result\<lparr>tr_failed := k\<rparr>) = k"
  by (simp_all add: requests_counted_def no_result_def)

lemma rpc_requests_counts: "requests_counted (rpc_requests qs r) = requests_counted r + length qs"
  by (induction qs r rule: rpc_requests.induct) simp_all

lemma http_requests_counts:
  "http_requests qs rs r = Inr (Some (r', rs')) \<Longrightarrow> requests_counted r' = requests_counted r + length qs"
  by (induction qs rs r rule: http_requests.induct) (auto split: sum.splits option.splits)

lemma RunRpcThread_counts: "requests_counted (RunRpcThread up qs) = length qs"
  by (simp add: RunRpcThread_def rpc_requests_counts)

lemma RunHttpThread_counts: "RunHttpThread up ws qs rs = Inr (Some r) \<Longrightarrow> requests_counted r = length qs"
  by (auto simp: RunHttpThread_def map_sum_def split: if_splits sum.splits option.splits) (drule http_requests_counts, simp)


subsection \<open>Order of the percentiles\<close>

text \<open>Latencies are finite.\<close>

definition finite_fp :: "fp \<Rightarrow> bool" where
  "finite_fp x \<longleftrightarrow> (\<exists>v. x = FNum v)"

lemma finite_not_lt: "finite_fp x \<Longrightarrow> finite_fp y \<Longrightarrow> \<not> fp_lt x y \<Longrightarrow> fp_le y x"
  by (auto simp: finite_fp_def fp_le_def)

lemma finite_le_trans: "finite_fp x \<Longrightarrow> finite_fp y \<Longrightarrow> finite_fp z \<Longrightarrow> fp_le x y \<Longrightarrow> fp_le y z \<Longrightarrow> fp_le x z"
  by (auto simp: finite_fp_def fp_le_def split: if_splits)

lemma finite_le_refl: "finite_fp x \<Longrightarrow> fp_le x x"
  by (auto simp: finite_fp_def fp_le_def)

lemma set_fp_insert [simp]: "set (fp_insert v xs) = insert v (set xs)"
  by (induction xs) auto

lemma set_fp_sort [simp]: "set (fp_sort xs) = set xs"
  by (induction xs) (simp_all add: fp_sort_def)

lemma fp_insert_sorted:
  "finite_fp v \<Longrightarrow> \<forall>x \<in> set xs. finite_fp x \<Longrightarrow> sorted_wrt fp_le xs \<Longrightarrow> sorted_wrt fp_le (fp_insert v xs)"
proof (induction xs)
  case (Cons x xs)
  show ?case
  proof (cases "fp_lt x v")
    case True
    then have "fp_le x v" using Cons.prems by (auto simp: finite_fp_def fp_le_def)
    with True Cons show ?thesis by simp
  next
    case False
    then have "fp_le v x" using finite_not_lt Cons.prems by simp
    with False Cons.prems show ?thesis by (auto intro: finite_le_trans)
  qed
qed simp

lemma fp_sort_sorted: "\<forall>x \<in> set xs. finite_fp x \<Longrightarrow> sorted_wrt fp_le (fp_sort xs)"
proof (induction xs)
  case (Cons x xs)
  then have "\<forall>y \<in> set (fp_sort xs). finite_fp y" by simp
  with Cons show ?case by (simp add: fp_sort_def fp_insert_sorted)
qed (simp add: fp_sort_def)

text \<open>The index of a rank, without wrap-around for the ranks the program uses.\<close>

lemma round_to_half [simp]: "round_to Double (1 / 2) = 1 / 2"
  using round_to_exact [of "1 / 2" 1 "- 1" Double] by (simp add: powr_minus last_place_def log_divide)

lemma unat_of_int_64: "0 \<le> k \<Longrightarrow> k < 18446744073709551616 \<Longrightarrow> unat (word_of_int k :: u64) = nat k"
  by (simp add: uint_word_of_int flip: nat_uint_eq)

lemma rank_index:
  assumes "1 / 2 \<le> p" "p \<le> 1" "0 < n" "n \<le> 2 ^ 53"
  shows "unat (percentile_index p n) = nat \<lceil>round_to Double (p * real n)\<rceil> - 1"
    and "1 \<le> \<lceil>round_to Double (p * real n)\<rceil>" and "\<lceil>round_to Double (p * real n)\<rceil> \<le> int n"
proof -
  let ?k = "\<lceil>round_to Double (p * real n)\<rceil>"
  have "1 / 2 \<le> p * real n" using assms mult_mono [of "1 / 2" p 1 "real n"] by simp
  then have "1 / 2 \<le> round_to Double (p * real n)" using round_to_mono [of "1 / 2" "p * real n" Double] by simp
  then show k1: "1 \<le> ?k" by linarith
  have "p * real n \<le> real n" using assms by (simp add: mult_left_le_one_le)
  then have "round_to Double (p * real n) \<le> round_to Double (real n)" by (rule round_to_mono)
  also have "\<dots> = real n" using round_to_int [of "int n" Double] assms(4) by simp
  finally show kn: "?k \<le> int n" by (simp add: ceiling_le_iff)
  have "percentile_index p n = word_of_int (?k - 1)" by (simp add: percentile_index_def)
  moreover have "int n \<le> 9007199254740992" using assms(4) by simp
  then have "0 \<le> ?k - 1" "?k - 1 < 18446744073709551616" using k1 kn by linarith+
  ultimately have "unat (percentile_index p n) = nat (?k - 1)" using unat_of_int_64 by metis
  then show "unat (percentile_index p n) = nat ?k - 1" using k1 by linarith
qed


lemma sorted_nth_le:
  assumes "sorted_wrt fp_le xs" and "\<forall>x \<in> set xs. finite_fp x" and "i \<le> j" "j < length xs"
  shows "fp_le (xs ! i) (xs ! j)"
proof (cases "i = j")
  case True
  with assms show ?thesis by (simp add: finite_le_refl)
next
  case False
  with assms show ?thesis by (simp add: sorted_wrt_nth_less)
qed

definition rank_of :: "real \<Rightarrow> nat \<Rightarrow> nat" where
  "rank_of p n = nat \<lceil>round_to Double (p * real n)\<rceil> - 1"

lemma nearest_rank_nth:
  assumes "1 / 2 \<le> p" "p \<le> 1" "xs \<noteq> []" "length xs \<le> 2 ^ 53"
  shows "nearest_rank p xs = xs ! rank_of p (length xs)" and "rank_of p (length xs) < length xs"
proof -
  have n: "0 < length xs" using assms(3) by simp
  note r = rank_index [OF assms(1,2) n assms(4)]
  show l: "rank_of p (length xs) < length xs" unfolding rank_of_def using r(2,3) by linarith
  show "nearest_rank p xs = xs ! rank_of p (length xs)"
    using l by (simp add: nearest_rank_def Let_def r(1) rank_of_def)
qed

lemma rank_of_mono: "p \<le> q \<Longrightarrow> rank_of p n \<le> rank_of q n"
  unfolding rank_of_def by (intro diff_le_mono nat_mono ceiling_mono round_to_mono mult_right_mono) simp_all

lemma program_ranks:
  "1 / 2 \<le> round_to Double (95 / 100)" "round_to Double (95 / 100) \<le> round_to Double (99 / 100)" "round_to Double (99 / 100) \<le> 1"
  using round_to_mono [of "1 / 2" "95 / 100" Double] round_to_mono [of "95 / 100" "99 / 100" Double]
    round_to_mono [of "99 / 100" 1 Double] round_to_int [of 1 Double] by simp_all

lemma ranks_ordered:
  assumes "xs \<noteq> []" and "\<forall>x \<in> set xs. finite_fp x" and "sorted_wrt fp_le xs" and "length xs \<le> 2 ^ 53"
    and "1 / 2 \<le> p" "p \<le> q" "q \<le> 1"
  shows "fp_le (hd xs) (nearest_rank p xs)" "fp_le (nearest_rank p xs) (nearest_rank q xs)" "fp_le (nearest_rank q xs) (last xs)"
proof -
  have p: "nearest_rank p xs = xs ! rank_of p (length xs)" "rank_of p (length xs) < length xs"
    using nearest_rank_nth [of p xs] assms by simp_all
  have q: "nearest_rank q xs = xs ! rank_of q (length xs)" "rank_of q (length xs) < length xs"
    using nearest_rank_nth [of q xs] assms by simp_all
  note le = sorted_nth_le [OF assms(3,2)]
  show "fp_le (hd xs) (nearest_rank p xs)" using le [OF le0 p(2)] assms(1) by (simp add: p(1) hd_conv_nth)
  show "fp_le (nearest_rank p xs) (nearest_rank q xs)"
    using le [OF rank_of_mono [OF assms(6)] q(2)] by (simp add: p(1) q(1))
  show "fp_le (nearest_rank q xs) (last xs)"
    using le [of "rank_of q (length xs)" "length xs - 1"] q(2) assms(1) by (simp add: q(1) last_conv_nth)
qed

text \<open>The report of the benchmark is consistent: every request of every thread is either a latency
  or a failure, so the requests that succeeded are exactly the latencies, and as soon as there are some
  (finite ones, fewer than 2^53) the minimum, the median, the 95th and the 99th percentile and the
  maximum are in this order, although the rank is computed in the rounded arithmetic of doubles and
  the index in unsigned words.\<close>

lemma bench_report_consistent:
  assumes "\<forall>r \<in> set rs. requests_counted r = g_requests"
    and "concat (map tr_latencies rs) \<noteq> []" and "\<forall>x \<in> set (concat (map tr_latencies rs)). finite_fp x"
    and "length (concat (map tr_latencies rs)) \<le> 2 ^ 53"
  shows "sm_total (bench_report g_requests rs t) - sm_failed (bench_report g_requests rs t) = int (length (concat (map tr_latencies rs))) \<and>
    fp_le (sm_min (bench_report g_requests rs t)) (sm_p50 (bench_report g_requests rs t)) \<and>
    fp_le (sm_p50 (bench_report g_requests rs t)) (sm_p95 (bench_report g_requests rs t)) \<and>
    fp_le (sm_p95 (bench_report g_requests rs t)) (sm_p99 (bench_report g_requests rs t)) \<and>
    fp_le (sm_p99 (bench_report g_requests rs t)) (sm_max (bench_report g_requests rs t))"
proof (intro conjI)
  let ?ls = "concat (map tr_latencies rs)" and ?xs = "fp_sort (concat (map tr_latencies rs))"
  have "length (concat (map tr_latencies rs)) + sum_list (map tr_failed rs) = length rs * g_requests"
    using assms(1) by (induction rs) (auto simp: requests_counted_def)
  then have "int (length ?ls) + int (sum_list (map tr_failed rs)) = int (length rs * g_requests)"
    unfolding of_nat_add [symmetric] by (rule arg_cong)
  moreover have "sm_total (bench_report g_requests rs t) = int (length rs * g_requests)"
    "sm_failed (bench_report g_requests rs t) = int (sum_list (map tr_failed rs))"
    by (simp_all add: bench_report_def ComputeStats_def Let_def)
  ultimately show "sm_total (bench_report g_requests rs t) - sm_failed (bench_report g_requests rs t) = int (length ?ls)"
    by linarith
  have xs: "?xs \<noteq> []" "\<forall>x \<in> set ?xs. finite_fp x" "sorted_wrt fp_le ?xs" "length ?xs \<le> 2 ^ 53"
    using assms(2-4) fp_sort_sorted [of ?ls] fp_sort_length [of ?ls] set_fp_sort [of ?ls]
    by (metis length_0_conv)+
  note o = ranks_ordered [OF xs]
  note a = o [of "1 / 2" "round_to Double (95 / 100)"] and b = o [of "round_to Double (95 / 100)" "round_to Double (99 / 100)"]
  have rep: "sm_min (bench_report g_requests rs t) = hd ?xs" "sm_max (bench_report g_requests rs t) = last ?xs"
    "sm_p50 (bench_report g_requests rs t) = nearest_rank (1 / 2) ?xs"
    "sm_p95 (bench_report g_requests rs t) = nearest_rank (round_to Double (95 / 100)) ?xs"
    "sm_p99 (bench_report g_requests rs t) = nearest_rank (round_to Double (99 / 100)) ?xs"
    using assms(2) by (simp_all add: bench_report_def ComputeStats_def Let_def del: concat_eq_Nil_conv)
  show "fp_le (sm_min (bench_report g_requests rs t)) (sm_p50 (bench_report g_requests rs t))"
    "fp_le (sm_p50 (bench_report g_requests rs t)) (sm_p95 (bench_report g_requests rs t))"
    "fp_le (sm_p95 (bench_report g_requests rs t)) (sm_p99 (bench_report g_requests rs t))"
    "fp_le (sm_p99 (bench_report g_requests rs t)) (sm_max (bench_report g_requests rs t))"
    using a b program_ranks unfolding rep by linarith+
qed


subsection \<open>The client reads the server's responses\<close>

lemma string_of_no_bytes [simp]: "string_of_bytes [] = []"
  by (simp add: string_of_bytes_def)

text \<open>Non-empty pieces, read until there is enough.\<close>

lemma recv_until_pieces:
  "[] \<notin> set ds \<Longrightarrow> enough (t @ string_of_bytes (concat ds)) \<Longrightarrow>
   \<exists>k \<le> length ds. recv_until enough t (map RecvData ds @ rest) =
     Some (Some (t @ string_of_bytes (concat (take k ds))), map RecvData (drop k ds) @ rest) \<and>
     enough (t @ string_of_bytes (concat (take k ds)))"
proof (induction ds arbitrary: t)
  case Nil
  then show ?case by (cases rest) auto
next
  case (Cons d ds)
  show ?case
  proof (cases "enough t")
    case True
    then show ?thesis by (intro exI [of _ 0]) simp
  next
    case False
    have "enough ((t @ string_of_bytes d) @ string_of_bytes (concat ds))" using Cons.prems(2) by (simp add: string_of_bytes_append)
    with Cons.IH [of "t @ string_of_bytes d"] Cons.prems(1) obtain k where k: "k \<le> length ds"
      "recv_until enough (t @ string_of_bytes d) (map RecvData ds @ rest) =
         Some (Some ((t @ string_of_bytes d) @ string_of_bytes (concat (take k ds))), map RecvData (drop k ds) @ rest)"
      "enough ((t @ string_of_bytes d) @ string_of_bytes (concat (take k ds)))" by auto
    with False Cons.prems(1) show ?thesis by (intro exI [of _ "Suc k"]) (auto simp: string_of_bytes_append)
  qed
qed

definition response_head :: "nat \<Rightarrow> string" where
  "response_head n =
     ''HTTP/1.1 200 OK'' @ crlf @ ''Content-Type: application/json'' @ crlf @ ''Content-Length: '' @ dec n @ crlf @ ''Connection: keep-alive''"

lemma response_find: "find_sub (crlf @ crlf) (response_head n @ crlf @ crlf @ json) = Some (length (response_head n))"
  by (simp add: response_head_def find_sub_skip del: dec.simps)

lemma response_length: "n < 2 ^ 31 \<Longrightarrow> HttpResponseContentLength (response_head n @ crlf @ y) = Inr (int n)"
proof -
  assume n: "n < 2 ^ 31"
  have "after ''Content-Length:'' (response_head n @ crlf @ y) = Some ('' '' @ dec n @ crlf @ ''Connection: keep-alive'' @ crlf @ y)"
    by (simp add: response_head_def after_step after_skip del: dec.simps)
  with n skip_spaces_dec [of n "crlf @ ''Connection: keep-alive'' @ crlf @ y"] show ?thesis
    by (auto simp: HttpResponseContentLength_def skip_spaces_def takeWhile_dec is_digit_def hd_dec(2) stoi_dec simp del: dec.simps)
qed

lemma response_text_head:
  "response_text 200 (FormatResult v) = response_head (length (FormatResult v)) @ crlf @ crlf @ FormatResult v"
proof -
  have "CHR 0x00 \<notin> set (int_dec v)" using dec_digits [of "CHR 0x00"] by (auto simp: int_dec.simps simp del: dec.simps)
  then have "takeWhile (\<lambda>c. c \<noteq> CHR 0x00) (FormatResult v) = FormatResult v"
    by (auto simp: FormatResult_def takeWhile_eq_all_conv)
  then show ?thesis by (simp add: response_text_def response_head_def status_line_def del: dec.simps)
qed

lemma response_received:
  assumes resp: "string_of_bytes (concat ds) = response_text 200 (FormatResult v)" and ds: "[] \<notin> set ds"
    and v: "- (2 ^ 31) \<le> v" "v < 2 ^ 31"
  shows "HttpSendRecv True (map RecvData ds @ rest) = Inr (Some (True, rest))"
proof -
  let ?n = "length (FormatResult v)" and ?blank = "crlf @ crlf"
  let ?has = "\<lambda>t. find_sub ?blank t \<noteq> None"
  have n: "?n < 2 ^ 31" using length_int_dec [OF v] by (simp add: FormatResult_def)
  note all = resp [unfolded response_text_head]
  have found: "find_sub ?blank (string_of_bytes (concat ds)) = Some (length (response_head ?n))"
    unfolding all by (rule response_find)
  then have "?has ([] @ string_of_bytes (concat ds))" by simp
  note r = recv_until_pieces [of ds ?has "[]" rest, OF ds this, unfolded append_Nil]
  obtain k where k: "k \<le> length ds"
      "recv_until ?has [] (map RecvData ds @ rest) = Some (Some (string_of_bytes (concat (take k ds))), map RecvData (drop k ds) @ rest)"
      "?has (string_of_bytes (concat (take k ds)))"
    using r by (elim exE conjE)
  let ?t = "string_of_bytes (concat (take k ds))"
  have split: "string_of_bytes (concat ds) = ?t @ string_of_bytes (concat (drop k ds))"
    by (metis append_take_drop_id concat_append string_of_bytes_append)
  then have "prefix ?t (string_of_bytes (concat ds))" by simp
  from find_sub_prefix [OF found this] k(3) have here: "find_sub ?blank ?t = Some (length (response_head ?n))"
    and le: "length (response_head ?n) + 4 \<le> length ?t" by (auto split: if_splits)
  have "prefix (response_head ?n @ crlf) (string_of_bytes (concat ds))" unfolding all by simp
  then have "prefix (response_head ?n @ crlf) ?t"
    using \<open>prefix ?t (string_of_bytes (concat ds))\<close> by (rule prefix_length_prefix) (use le in simp)
  then obtain y where y: "?t = response_head ?n @ crlf @ y" by (auto elim: prefixE)
  have len: "HttpResponseContentLength ?t = Inr (int ?n)" unfolding y by (rule response_length [OF n])
  let ?enough = "\<lambda>t'. the (find_sub ?blank ?t) + 4 + nat (int ?n) \<le> length t'"
  have total: "length (string_of_bytes (concat ds)) = length (response_head ?n) + 4 + ?n" unfolding all by simp
  have more: "?enough (?t @ string_of_bytes (concat (drop k ds)))" using total unfolding split [symmetric] here by simp
  have ne: "[] \<notin> set (drop k ds)" using ds by (auto dest: in_set_dropD)
  note r2 = recv_until_pieces [of "drop k ds" ?enough ?t rest, OF ne more]
  obtain j where j: "j \<le> length (drop k ds)"
      "recv_until ?enough ?t (map RecvData (drop k ds) @ rest) =
         Some (Some (?t @ string_of_bytes (concat (take j (drop k ds)))), map RecvData (drop j (drop k ds)) @ rest)"
      "?enough (?t @ string_of_bytes (concat (take j (drop k ds))))"
    using r2 by (elim exE conjE)
  have "string_of_bytes (concat ds) = (?t @ string_of_bytes (concat (take j (drop k ds)))) @ string_of_bytes (concat (drop j (drop k ds)))"
    unfolding split by (metis append.assoc append_take_drop_id concat_append string_of_bytes_append)
  from arg_cong [OF this, of length] have "length (string_of_bytes (concat (drop j (drop k ds)))) = 0"
    using j(3) total unfolding here length_append option.sel nat_int by linarith
  then have "concat (drop j (drop k ds)) = []" by (simp add: string_of_bytes_def)
  then have "drop j (drop k ds) = []" using ne
    by (metis concat_eq_Nil_conv in_set_dropD list.set_intros(1) neq_Nil_conv)
  then show ?thesis by (simp only: HttpSendRecv_def k(2) len j(2) not_True_eq_False if_False option.case sum.case prod.case of_nat_less_0_iff)
      (simp add: \<open>drop j (drop k ds) = []\<close>)
qed


text \<open>A benchmark against the server: as many responses as requests, each cut anywhere.\<close>

lemma http_benchmark_succeeds:
  assumes "length pss = length tooks" and "- (2 ^ 31) \<le> v" "v < 2 ^ 31"
    and "\<forall>ds \<in> set pss. [] \<notin> set ds \<and> string_of_bytes (concat ds) = response_text 200 (FormatResult v)"
  shows "http_requests (map (Pair True) tooks) (concat (map (map RecvData) pss) @ rest) r =
    Inr (Some (r\<lparr>tr_latencies := tr_latencies r @ map (fp_of_int Double) tooks\<rparr>, rest))"
  using assms(1,4)
proof (induction pss tooks arbitrary: r rule: list_induct2)
  case (Cons ds pss t ts)
  have "HttpSendRecv True (map RecvData ds @ (concat (map (map RecvData) pss) @ rest)) =
      Inr (Some (True, concat (map (map RecvData) pss) @ rest))"
    using Cons.prems assms(2,3) by (intro response_received) simp_all
  with Cons show ?case by (simp add: measured_def)
qed simp

text \<open>Without a timeout on the socket a response that stays away stops the thread.\<close>

lemma missing_response_blocks: "http_requests ((True, took) # qs) [] r = Inr None"
  by (simp add: HttpSendRecv_def)

definition demo_thread :: thread_result where
  "demo_thread = RunRpcThread True [(Ready [1], 12), (NotReady, 5000000), (Ready [1], 7)]"

lemma bench_report_consistent_witness:
  "sm_total (bench_report 3 [demo_thread] (FNum 1)) - sm_failed (bench_report 3 [demo_thread] (FNum 1)) = 2"
proof -
  have ls: "tr_latencies demo_thread = [FNum 12, FNum 7]"
    by (simp add: demo_thread_def RunRpcThread_def measured_def rpc_ok_def no_result_def fp_of_int_small)
  have "\<forall>r \<in> set [demo_thread]. requests_counted r = 3"
    using RunRpcThread_counts [of True] by (simp add: demo_thread_def)
  then show ?thesis
    using bench_report_consistent [of "[demo_thread]" 3] by (simp add: ls finite_fp_def)
qed


text \<open>
  With a mode that is neither \<open>rpc\<close> nor \<open>http\<close> the threads do nothing, and the report still counts
  every request as successful.
\<close>

lemma unknown_mode_reports_success:
  "sm_total (bench_report g (replicate n no_result) t) - sm_failed (bench_report g (replicate n no_result) t) = int (n * g)"
proof -
  have "concat (map tr_latencies (replicate n no_result)) = []" by (induction n) (simp_all add: no_result_def)
  then show ?thesis
    by (simp add: bench_report_def ComputeStats_def Let_def sum_list_replicate no_result_def del: map_replicate)
qed

end
