(* ===== verification/Worker_Pool.thy ===== *)
theory Worker_Pool
  imports Rpc_Prelude
begin

text \<open>
  \<open>include/rpc/thread_pool.h\<close> and \<open>src/thread_pool.cpp\<close>: a queue of tasks, worker threads and the
  condition variable they wait on. The mutex makes each critical section atomic; what the program does
  outside it (the notifications after the lock is released, the joins, the task itself) is a step of its
  own, and a run is a sequence of steps in any order. A task is a value of type \<open>'t\<close>;
  \<open>accepted\<close>, \<open>started\<close> and \<open>finished\<close> record what was put in the queue, taken out of it and run to
  its end (normally or by an exception, which the worker catches).
\<close>

subsection \<open>State and operations\<close>

text \<open>
  A worker is about to look at the queue under the lock (\<open>Checking\<close>), blocked on the condition
  variable (\<open>Sleeping\<close>), running a task, or at its end.
\<close>

datatype 't worker = Checking | Sleeping | Running 't | Exited

text \<open>How far the one effective call of \<open>Shutdown\<close> has come.\<close>

datatype shutdown_call = NotCalled | FlagSet | Joining | Returned

text \<open>\<open>to_notify\<close> counts the calls of \<open>Enqueue\<close> between the end of their lock and their notification.\<close>

record 't thread_pool =
  tasks :: "'t list"
  stop :: bool
  workers :: "'t worker list"
  to_notify :: nat
  shutdown :: shutdown_call
  accepted :: "'t list"
  started :: "'t list"
  finished :: "'t list"

definition new_pool :: "nat \<Rightarrow> 't thread_pool" where
  "new_pool n = \<lparr>tasks = [], stop = False, workers = replicate n Checking, to_notify = 0,
     shutdown = NotCalled, accepted = [], started = [], finished = []\<rparr>"

text \<open>The critical section of \<open>Enqueue\<close>.\<close>

definition Enqueue :: "'t \<Rightarrow> 't thread_pool \<Rightarrow> 't thread_pool" where
  "Enqueue t p =
     (if stop p then p
      else p\<lparr>tasks := tasks p @ [t], to_notify := to_notify p + 1, accepted := accepted p @ [t]\<rparr>)"

text \<open>
  \<open>notify_one\<close> of such a call: it wakes one waiting worker, here \<open>i\<close>, and is lost when none waits.
\<close>

definition NotifyOne :: "nat \<Rightarrow> 't thread_pool \<Rightarrow> 't thread_pool option" where
  "NotifyOne i p =
     (if to_notify p = 0 then None
      else if Sleeping \<notin> set (workers p) then Some (p\<lparr>to_notify := to_notify p - 1\<rparr>)
      else if i < length (workers p) \<and> workers p ! i = Sleeping then
        Some (p\<lparr>to_notify := to_notify p - 1, workers := (workers p)[i := Checking]\<rparr>)
      else None)"

text \<open>
  \<open>Shutdown\<close>: the flag is set under the lock, which a second call leaves at once; then all waiting
  workers are notified, and the call returns when every worker has been joined.
\<close>

definition Shutdown :: "'t thread_pool \<Rightarrow> 't thread_pool" where
  "Shutdown p = (if stop p then p else p\<lparr>stop := True, shutdown := FlagSet\<rparr>)"

definition joined :: "'t thread_pool \<Rightarrow> bool" where
  "joined p \<longleftrightarrow> list_all (\<lambda>w. w = Exited) (workers p)"

definition wake :: "'t worker \<Rightarrow> 't worker" where
  "wake w = (if w = Sleeping then Checking else w)"

definition ShutdownStep :: "'t thread_pool \<Rightarrow> 't thread_pool option" where
  "ShutdownStep p =
     (case shutdown p of
        FlagSet \<Rightarrow> Some (p\<lparr>workers := map wake (workers p), shutdown := Joining\<rparr>)
      | Joining \<Rightarrow> if joined p then Some (p\<lparr>shutdown := Returned\<rparr>) else None
      | _ \<Rightarrow> None)"

text \<open>
  One step of worker \<open>i\<close> in \<open>WorkerLoop\<close>: the check of \<open>cv_.wait\<close> and what follows it under the
  lock, or the end of its task; \<open>None\<close> while it is blocked, and after it has returned.
\<close>

definition WorkerStep :: "nat \<Rightarrow> 't thread_pool \<Rightarrow> 't thread_pool option" where
  "WorkerStep i p =
     (case workers p ! i of
        Checking \<Rightarrow>
          (case tasks p of
             [] \<Rightarrow> Some (p\<lparr>workers := (workers p)[i := (if stop p then Exited else Sleeping)]\<rparr>)
           | t # ts \<Rightarrow>
               Some (p\<lparr>tasks := ts, started := started p @ [t],
                       workers := (workers p)[i := Running t]\<rparr>))
      | Sleeping \<Rightarrow> None
      | Running t \<Rightarrow>
          Some (p\<lparr>finished := finished p @ [t], workers := (workers p)[i := Checking]\<rparr>)
      | Exited \<Rightarrow> None)"

text \<open>
  The steps the program takes by itself, and those with the calls from outside and the spurious wake-ups
  the condition variable may add.
\<close>

inductive program_step :: "'t thread_pool \<Rightarrow> 't thread_pool \<Rightarrow> bool" where
  step_worker: "i < length (workers p) \<Longrightarrow> WorkerStep i p = Some p' \<Longrightarrow> program_step p p'"
| step_notify_one: "NotifyOne i p = Some p' \<Longrightarrow> program_step p p'"
| step_notify_all: "ShutdownStep p = Some p' \<Longrightarrow> program_step p p'"

inductive spurious_wakeup :: "'t thread_pool \<Rightarrow> 't thread_pool \<Rightarrow> bool" where
  "i < length (workers p) \<Longrightarrow> workers p ! i = Sleeping \<Longrightarrow>
     spurious_wakeup p (p\<lparr>workers := (workers p)[i := Checking]\<rparr>)"

definition pool_thread_step :: "'t thread_pool \<Rightarrow> 't thread_pool \<Rightarrow> bool" where
  "pool_thread_step p p' \<longleftrightarrow> program_step p p' \<or> spurious_wakeup p p'"

inductive pool_step :: "'t thread_pool \<Rightarrow> 't thread_pool \<Rightarrow> bool" where
  step_enqueue: "pool_step p (Enqueue t p)"
| step_shutdown: "pool_step p (Shutdown p)"
| step_thread: "pool_thread_step p p' \<Longrightarrow> pool_step p p'"

inductive_cases spurious_wakeup_elim: "spurious_wakeup p p'"

subsection \<open>The ways a step changes the pool\<close>

text \<open>A worker's place in the list decides what it contributes to a sum over the workers.\<close>

lemma sum_list_update_at:
  fixes f :: "'t worker \<Rightarrow> 'a::comm_monoid_add"
  shows "i < length ws \<Longrightarrow> sum_list (map f (ws[i := w])) + f (ws ! i) = sum_list (map f ws) + f w"
proof (induction ws arbitrary: i)
  case (Cons v ws)
  then show ?case by (cases i) (auto simp: ac_simps)
qed simp

lemma pool_thread_step_cases:
  assumes "pool_thread_step p p'"
  obtains
    (leave) i where "i < length (workers p)" "workers p ! i = Checking" "tasks p = []" "stop p"
      "p' = p\<lparr>workers := (workers p)[i := Exited]\<rparr>"
  | (block) i where "i < length (workers p)" "workers p ! i = Checking" "tasks p = []" "\<not> stop p"
      "p' = p\<lparr>workers := (workers p)[i := Sleeping]\<rparr>"
  | (take_task) i t ts where "i < length (workers p)" "workers p ! i = Checking" "tasks p = t # ts"
      "p' = p\<lparr>tasks := ts, started := started p @ [t], workers := (workers p)[i := Running t]\<rparr>"
  | (finish) i t where "i < length (workers p)" "workers p ! i = Running t"
      "p' = p\<lparr>finished := finished p @ [t], workers := (workers p)[i := Checking]\<rparr>"
  | (notify_lost) "0 < to_notify p" "Sleeping \<notin> set (workers p)" "p' = p\<lparr>to_notify := to_notify p - 1\<rparr>"
  | (notify) i where "0 < to_notify p" "i < length (workers p)" "workers p ! i = Sleeping"
      "p' = p\<lparr>to_notify := to_notify p - 1, workers := (workers p)[i := Checking]\<rparr>"
  | (notify_all) "shutdown p = FlagSet" "p' = p\<lparr>workers := map wake (workers p), shutdown := Joining\<rparr>"
  | (join) "shutdown p = Joining" "joined p" "p' = p\<lparr>shutdown := Returned\<rparr>"
  | (spurious) i where "i < length (workers p)" "workers p ! i = Sleeping"
      "p' = p\<lparr>workers := (workers p)[i := Checking]\<rparr>"
  using assms unfolding pool_thread_step_def
proof (elim disjE)
  assume "program_step p p'"
  then show thesis
  proof cases
    case (step_worker i)
    then show thesis using leave block take_task finish
      by (auto simp: WorkerStep_def split: worker.splits list.splits if_splits)
  next
    case (step_notify_one i)
    then show thesis using notify notify_lost by (auto simp: NotifyOne_def split: if_splits)
  next
    case step_notify_all
    then show thesis using notify_all join by (auto simp: ShutdownStep_def split: shutdown_call.splits if_splits)
  qed
qed (auto elim!: spurious_wakeup_elim intro: spurious)

subsection \<open>The invariant\<close>

fun running :: "'t worker \<Rightarrow> 't multiset" where
  "running (Running t) = {#t#}"
| "running _ = {#}"

definition in_progress :: "'t thread_pool \<Rightarrow> 't multiset" where
  "in_progress p = sum_list (map running (workers p))"

text \<open>
  The tasks are accounted for; a worker is at its end only when the pool is stopped and the queue
  empty; nobody waits any more once all have been notified; and while tasks are queued some worker is
  awake or a notification is on its way.
\<close>

definition pool_inv :: "'t thread_pool \<Rightarrow> bool" where
  "pool_inv p \<longleftrightarrow>
     accepted p = started p @ tasks p \<and>
     mset (started p) = mset (finished p) + in_progress p \<and>
     (Exited \<in> set (workers p) \<longrightarrow> stop p \<and> tasks p = []) \<and>
     (stop p \<longleftrightarrow> shutdown p \<noteq> NotCalled) \<and>
     (shutdown p \<in> {Joining, Returned} \<longrightarrow> Sleeping \<notin> set (workers p)) \<and>
     (shutdown p = Returned \<longrightarrow> joined p) \<and>
     (tasks p \<noteq> [] \<longrightarrow> to_notify p > 0 \<or> set (workers p) \<noteq> {Sleeping})"

lemma sum_list_exited: "\<forall>w \<in> set ws. running w = {#} \<Longrightarrow> sum_list (map running ws) = {#}"
  by (induction ws) auto

lemma running_wake [simp]: "running (wake w) = running w"
  by (cases w) (simp_all add: wake_def)

lemma wake_simps [simp]: "wake w \<noteq> Sleeping" "Sleeping \<noteq> wake w" "wake w = Exited \<longleftrightarrow> w = Exited" "Exited = wake w \<longleftrightarrow> w = Exited"
  by (auto simp: wake_def)

lemma in_progress_upd:
  "i < length (workers p) \<Longrightarrow>
     sum_list (map running ((workers p)[i := w])) + running (workers p ! i) = in_progress p + running w"
  using sum_list_update_at [of i "workers p" running w] by (simp add: in_progress_def)

lemma in_set_update: "v \<in> set (ws[i := w]) \<Longrightarrow> v = w \<or> v \<in> set ws"
  using set_update_subset_insert [of ws i w] by auto

lemma joinedD: "joined p \<Longrightarrow> i < length (workers p) \<Longrightarrow> workers p ! i = Exited"
  by (simp add: joined_def list_all_length)

lemma pool_thread_step_inv: "pool_thread_step p p' \<Longrightarrow> pool_inv p \<Longrightarrow> pool_inv p'"
proof (erule pool_thread_step_cases)
  fix i assume "i < length (workers p)" "workers p ! i = Checking" "tasks p = []" "stop p" "pool_inv p"
    "p' = p\<lparr>workers := (workers p)[i := Exited]\<rparr>"
  then show "pool_inv p'" using in_progress_upd [of i p Exited]
    by (auto simp: pool_inv_def in_progress_def dest: in_set_update joinedD)
next
  fix i assume "i < length (workers p)" "workers p ! i = Checking" "tasks p = []" "\<not> stop p" "pool_inv p"
    "p' = p\<lparr>workers := (workers p)[i := Sleeping]\<rparr>"
  then show "pool_inv p'" using in_progress_upd [of i p Sleeping]
    by (auto simp: pool_inv_def in_progress_def dest: in_set_update joinedD)
next
  fix i t ts assume "i < length (workers p)" "workers p ! i = Checking" "tasks p = t # ts" "pool_inv p"
    "p' = p\<lparr>tasks := ts, started := started p @ [t], workers := (workers p)[i := Running t]\<rparr>"
  moreover from this have "Running t \<in> set ((workers p)[i := Running t])" by (simp add: set_update_memI)
  ultimately show "pool_inv p'" using in_progress_upd [of i p "Running t"]
    by (auto simp: pool_inv_def in_progress_def dest: in_set_update joinedD)
next
  fix i t assume "i < length (workers p)" "workers p ! i = Running t" "pool_inv p"
    "p' = p\<lparr>finished := finished p @ [t], workers := (workers p)[i := Checking]\<rparr>"
  moreover from this have "Checking \<in> set ((workers p)[i := Checking])" by (simp add: set_update_memI)
  ultimately show "pool_inv p'" using in_progress_upd [of i p Checking]
    by (auto simp: pool_inv_def in_progress_def dest: in_set_update joinedD)
next
  assume "0 < to_notify p" "Sleeping \<notin> set (workers p)" "pool_inv p" "p' = p\<lparr>to_notify := to_notify p - 1\<rparr>"
  then show "pool_inv p'" by (auto simp: pool_inv_def in_progress_def joined_def)
next
  fix i assume "0 < to_notify p" "i < length (workers p)" "workers p ! i = Sleeping" "pool_inv p"
    "p' = p\<lparr>to_notify := to_notify p - 1, workers := (workers p)[i := Checking]\<rparr>"
  moreover from this have "Checking \<in> set ((workers p)[i := Checking])" by (simp add: set_update_memI)
  ultimately show "pool_inv p'" using in_progress_upd [of i p Checking]
    by (auto simp: pool_inv_def in_progress_def dest: in_set_update joinedD)
next
  assume "shutdown p = FlagSet" "pool_inv p" "p' = p\<lparr>workers := map wake (workers p), shutdown := Joining\<rparr>"
  moreover have "wake ` set (workers p) \<noteq> {Sleeping}" by (metis imageE singletonI wake_simps(1))
  ultimately show "pool_inv p'" by (auto simp: pool_inv_def in_progress_def o_def)
next
  assume "shutdown p = Joining" "joined p" "pool_inv p" "p' = p\<lparr>shutdown := Returned\<rparr>"
  then show "pool_inv p'" by (auto simp: pool_inv_def in_progress_def joined_def)
next
  fix i assume "i < length (workers p)" "workers p ! i = Sleeping" "pool_inv p"
    "p' = p\<lparr>workers := (workers p)[i := Checking]\<rparr>"
  moreover from this have "Checking \<in> set ((workers p)[i := Checking])" by (simp add: set_update_memI)
  ultimately show "pool_inv p'" using in_progress_upd [of i p Checking]
    by (auto simp: pool_inv_def in_progress_def dest: in_set_update joinedD)
qed

lemma in_progress_new [simp]: "in_progress (new_pool n) = {#}"
  by (induction n) (simp_all add: in_progress_def new_pool_def)

lemma pool_inv_new [simp]: "pool_inv (new_pool n)"
  using in_progress_new [of n] by (simp add: pool_inv_def) (auto simp: new_pool_def)

lemma pool_step_inv: "pool_step p p' \<Longrightarrow> pool_inv p \<Longrightarrow> pool_inv p'"
proof (induction rule: pool_step.induct)
  case (step_enqueue p t)
  then show ?case by (auto simp: Enqueue_def pool_inv_def in_progress_def joined_def)
next
  case (step_shutdown p)
  then show ?case by (auto simp: Shutdown_def pool_inv_def in_progress_def joined_def)
qed (rule pool_thread_step_inv)

lemma pool_thread_step_fields:
  "pool_thread_step p p' \<Longrightarrow> length (workers p') = length (workers p) \<and> stop p' = stop p"
  by (auto elim!: pool_thread_step_cases)

lemma worker_pool_step: "i < length (workers p) \<Longrightarrow> WorkerStep i p = Some p' \<Longrightarrow> pool_step p p'"
  by (simp add: step_thread pool_thread_step_def step_worker)

lemma worker_count: "pool_step\<^sup>*\<^sup>* p p' \<Longrightarrow> length (workers p') = length (workers p)"
proof (induction rule: rtranclp_induct)
  case (step q r)
  from step.hyps(2) have "length (workers r) = length (workers q)"
    by cases (auto simp: Enqueue_def Shutdown_def dest: pool_thread_step_fields)
  with step.IH show ?case by simp
qed simp

interpretation pool: step_invariant "\<lambda>p. \<exists>n. p = new_pool n" pool_step pool_inv
  by unfold_locales (auto intro: pool_step_inv)

subsection \<open>Shutting down\<close>

text \<open>
  A bound for the steps a stopped pool can still take: a blocked worker is woken at most once, since
  none blocks again.
\<close>

fun worker_work :: "'t worker \<Rightarrow> nat" where
  "worker_work Checking = 1"
| "worker_work Sleeping = 2"
| "worker_work (Running t) = 2"
| "worker_work Exited = 0"

fun shutdown_work :: "shutdown_call \<Rightarrow> nat" where
  "shutdown_work FlagSet = 2"
| "shutdown_work Joining = 1"
| "shutdown_work _ = 0"

definition work_left :: "'t thread_pool \<Rightarrow> nat" where
  "work_left p = 3 * length (tasks p) + sum_list (map worker_work (workers p)) + to_notify p + shutdown_work (shutdown p)"

lemma worker_work_wake: "sum_list (map (worker_work \<circ> wake) ws) \<le> sum_list (map worker_work ws)"
  by (rule sum_list_mono) (simp add: wake_def)

lemma work_upd:
  "i < length (workers p) \<Longrightarrow> sum_list (map worker_work ((workers p)[i := w])) + worker_work (workers p ! i) =
     sum_list (map worker_work (workers p)) + worker_work w"
  by (rule sum_list_update_at)

lemma pool_thread_step_decreases:
  assumes "pool_thread_step p p'" "stop p"
  shows "work_left p' < work_left p"
  using assms(1)
proof (cases rule: pool_thread_step_cases)
  case (leave i)
  then show ?thesis using work_upd [of i p Exited] by (simp add: work_left_def)
next
  case (take_task i t ts)
  then show ?thesis using work_upd [of i p "Running t"] by (simp add: work_left_def)
next
  case (finish i t)
  then show ?thesis using work_upd [of i p Checking] by (simp add: work_left_def)
next
  case (notify i)
  then show ?thesis using work_upd [of i p Checking] by (simp add: work_left_def)
next
  case (spurious i)
  then show ?thesis using work_upd [of i p Checking] by (simp add: work_left_def)
qed (use assms(2) worker_work_wake [of "workers p"] in \<open>simp_all add: work_left_def\<close>)

lemma stopped_progress:
  assumes "pool_inv p" "stop p" "\<nexists>p'. program_step p p'"
  shows "joined p \<and> shutdown p = Returned"
proof -
  have stuck: "WorkerStep i p = None" if "i < length (workers p)" for i
    using assms(3) that step_worker [of i p] by (metis not_None_eq)
  have "ShutdownStep p = None" using assms(3) step_notify_all [of p] by (metis not_None_eq)
  then have call: "shutdown p = Returned \<or> shutdown p = Joining \<and> \<not> joined p"
    using assms(1,2) by (auto simp: ShutdownStep_def pool_inv_def split: shutdown_call.splits if_splits)
  then have awake: "Sleeping \<notin> set (workers p)" using assms(1) by (auto simp: pool_inv_def)
  have "workers p ! i = Exited" if i: "i < length (workers p)" for i
  proof -
    have "workers p ! i \<noteq> Sleeping" using awake nth_mem [OF i] by metis
    then show ?thesis using stuck [OF i] by (auto simp: WorkerStep_def split: worker.splits list.splits)
  qed
  then have "joined p" by (simp add: joined_def list_all_length)
  with call show ?thesis by blast
qed

lemma pool_thread_steps_bounded:
  "(pool_thread_step ^^ k) p q \<Longrightarrow> stop p \<Longrightarrow> pool_inv p \<Longrightarrow> k + work_left q \<le> work_left p \<and> stop q \<and> pool_inv q"
proof (induction k arbitrary: q)
  case (Suc k)
  then obtain r where "(pool_thread_step ^^ k) p r" "pool_thread_step r q" by auto
  with Suc.IH [of r] Suc.prems(2,3) pool_thread_step_decreases [of r q] pool_thread_step_fields [of r q] pool_thread_step_inv [of r q]
  show ?case by auto
qed simp

subsection \<open>No lost wake-up\<close>

text \<open>
  While the pool is open, nothing is left undone when no thread can take a step: every accepted task
  has been run, whichever way the notifications and the checks of the workers interleaved.
\<close>

lemma quiet_pool_has_finished:
  assumes "pool_step\<^sup>*\<^sup>* (new_pool n) p" "0 < n" "\<nexists>p'. program_step p p'"
  shows "started p = accepted p \<and> mset (finished p) = mset (accepted p)"
proof -
  have inv: "pool_inv p" using assms(1) by (rule pool.reachable_inv [rotated]) blast
  have n: "length (workers p) = n" using worker_count [OF assms(1)] by (simp add: new_pool_def)
  have stuck: "WorkerStep i p = None" if "i < length (workers p)" for i
    using assms(3) that step_worker [of i p] by (metis not_None_eq)
  have w: "w = Sleeping \<or> w = Exited" if "w \<in> set (workers p)" for w
  proof -
    from that obtain i where i: "i < length (workers p)" "w = workers p ! i" by (auto simp: in_set_conv_nth)
    from stuck [OF i(1)] show ?thesis unfolding i(2)
      by (cases "workers p ! i") (simp_all add: WorkerStep_def split: list.splits)
  qed
  then have "\<forall>w \<in> set (workers p). running w = {#}" by fastforce
  then have none: "in_progress p = {#}" unfolding in_progress_def by (rule sum_list_exited)
  have "to_notify p = 0"
  proof (rule ccontr)
    assume "to_notify p \<noteq> 0"
    then have "\<exists>i. NotifyOne i p \<noteq> None" by (auto simp: NotifyOne_def in_set_conv_nth)
    with assms(3) step_notify_one [of _ p] show False by (metis not_None_eq)
  qed
  moreover have only: "Exited \<in> set (workers p) \<or> set (workers p) = {Sleeping}"
    using w n assms(2) by (cases "workers p") auto
  ultimately have "tasks p = []"
    using inv only by (auto simp: pool_inv_def)
  with inv none show ?thesis by (simp add: pool_inv_def)
qed

subsection \<open>Properties\<close>

text \<open>
  C18. Every task the pool accepted is run exactly once: when \<open>Shutdown\<close> has joined the
  workers (of which there is at least one), the tasks were started in the order they were enqueued
  and the finished ones are, as a multiset, exactly the accepted ones.
\<close>

theorem pool_runs_every_task:
  assumes "pool_step\<^sup>*\<^sup>* (new_pool n) p" and "0 < n" and "joined p"
  shows "started p = accepted p \<and> mset (finished p) = mset (accepted p)"
proof -
  have inv: "pool_inv p" using assms(1) by (rule pool.reachable_inv [rotated]) blast
  have "length (workers p) = n" using worker_count [OF assms(1)] by (simp add: new_pool_def)
  with assms(2) have "workers p ! 0 \<in> set (workers p)" by simp
  with assms(3) have "Exited \<in> set (workers p)" by (auto simp: joined_def list_all_iff)
  moreover have "in_progress p = {#}"
    using assms(3) unfolding in_progress_def by (intro sum_list_exited) (auto simp: joined_def list_all_iff)
  ultimately show ?thesis using inv by (simp add: pool_inv_def)
qed

theorem pool_runs_every_task_witness:
  "let p = (the \<circ> WorkerStep 0) (Shutdown ((the \<circ> WorkerStep 0) ((the \<circ> WorkerStep 0)
        (Enqueue (7::nat) (new_pool 1)))))
   in joined p \<and> started p = [7] \<and> accepted p = [7] \<and> mset (finished p) = {#7#}"
proof -
  define p0 p1 p2 p3 p4 where "p0 = Enqueue (7::nat) (new_pool 1)" and "p1 = the (WorkerStep 0 p0)"
    and "p2 = the (WorkerStep 0 p1)" and "p3 = Shutdown p2" and "p4 = the (WorkerStep 0 p3)"
  note ps = p0_def p1_def p2_def p3_def p4_def
  note ev = Enqueue_def new_pool_def WorkerStep_def Shutdown_def
  have s: "WorkerStep 0 p0 = Some p1" "WorkerStep 0 p1 = Some p2" "WorkerStep 0 p3 = Some p4"
    and l: "0 < length (workers p0)" "0 < length (workers p1)" "0 < length (workers p3)"
    by (simp_all add: ps ev)
  have "pool_step (new_pool 1) p0" "pool_step p2 p3"
    by (simp_all add: p0_def p3_def step_enqueue step_shutdown)
  moreover have "pool_step p0 p1" "pool_step p1 p2" "pool_step p3 p4"
    by (rule worker_pool_step [OF l(1) s(1)], rule worker_pool_step [OF l(2) s(2)], rule worker_pool_step [OF l(3) s(3)])
  ultimately have r: "pool_step\<^sup>*\<^sup>* (new_pool 1) p4"
    by (meson converse_rtranclp_into_rtranclp rtranclp.rtrancl_refl)
  have j: "joined p4" by (simp add: ps ev joined_def)
  have a: "accepted p4 = [7]" by (simp add: ps ev)
  have e: "(the \<circ> WorkerStep 0) (Shutdown ((the \<circ> WorkerStep 0) ((the \<circ> WorkerStep 0)
        (Enqueue (7::nat) (new_pool 1))))) = p4"
    by (simp add: ps)
  show ?thesis unfolding e Let_def using pool_runs_every_task [OF r _ j] j a by simp
qed

text \<open>
  C19. \<open>Shutdown\<close> returns, in whatever state of the pool it is called: from then on the threads can take
  only a bounded number of steps, spurious wake-ups included, and when the program can take none of its
  own the workers have all exited and the call has returned. That no worker stays blocked rests on the
  notification of all of them after the flag is set.
\<close>

theorem shutdown_terminates:
  assumes "pool_step\<^sup>*\<^sup>* (new_pool n) p" and "(pool_thread_step ^^ k) (Shutdown p) q"
  shows "k \<le> work_left (Shutdown p) \<and> ((\<nexists>r. program_step q r) \<longrightarrow> joined q \<and> shutdown q = Returned)"
proof -
  have "pool_inv (Shutdown p)"
    using assms(1) by (intro pool_step_inv [OF step_shutdown] pool.reachable_inv [rotated]) blast+
  moreover have "stop (Shutdown p)" by (simp add: Shutdown_def)
  ultimately have "k + work_left q \<le> work_left (Shutdown p) \<and> stop q \<and> pool_inv q"
    using pool_thread_steps_bounded [OF assms(2)] by blast
  then show ?thesis using stopped_progress [of q] by auto
qed

text \<open>A worker is blocked when \<open>Shutdown\<close> is called: it is notified, exits, and is joined.\<close>

theorem shutdown_terminates_witness:
  "let p = the (WorkerStep 0 (new_pool 1 :: nat thread_pool));
       q = the (ShutdownStep (the (WorkerStep 0 (the (ShutdownStep (Shutdown p))))))
   in workers p = [Sleeping] \<and> 3 \<le> work_left (Shutdown p) \<and> joined q \<and> shutdown q = Returned"
proof -
  define p q1 q2 q where "p = the (WorkerStep 0 (new_pool 1 :: nat thread_pool))"
    and "q1 = the (ShutdownStep (Shutdown p))" and "q2 = the (WorkerStep 0 q1)" and "q = the (ShutdownStep q2)"
  note ev = p_def q1_def q2_def q_def new_pool_def WorkerStep_def ShutdownStep_def Shutdown_def wake_def joined_def
  have p: "pool_thread_step (new_pool 1) p"
    unfolding pool_thread_step_def by (intro disjI1 step_worker [of 0]) (simp_all add: ev)
  have "pool_thread_step (Shutdown p) q1"
    unfolding pool_thread_step_def by (intro disjI1 step_notify_all) (simp add: ev)
  moreover have "pool_thread_step q1 q2"
    unfolding pool_thread_step_def by (intro disjI1 step_worker [of 0]) (simp_all add: ev)
  moreover have "pool_thread_step q2 q"
    unfolding pool_thread_step_def by (intro disjI1 step_notify_all) (simp add: ev)
  ultimately have r: "(pool_thread_step ^^ 3) (Shutdown p) q" by (auto simp: numeral_3_eq_3)
  have "\<nexists>r. program_step q r"
    by (auto simp: ev NotifyOne_def elim!: program_step.cases)
  then show ?thesis
    using shutdown_terminates [OF r_into_rtranclp [where r = pool_step, OF step_thread [OF p]] r]
    unfolding Let_def p_def [symmetric] q1_def [symmetric] q2_def [symmetric] q_def [symmetric] by (simp add: ev)
qed

text \<open>
  A pool created with no workers (\<open>hardware_concurrency()\<close>, the default, may be 0) never
  starts a task, and \<open>Shutdown\<close> returns at once with the accepted tasks still queued.
\<close>

lemma pool_without_workers:
  assumes "pool_step\<^sup>*\<^sup>* (new_pool 0) p"
  shows "started p = [] \<and> finished p = [] \<and> tasks p = accepted p \<and> joined p"
proof -
  have w: "workers p = []" using worker_count [OF assms] by (simp add: new_pool_def)
  have "started p = []" using assms
  proof (induction rule: rtranclp_induct)
    case (step q r)
    have "workers q = []" using worker_count [OF step.hyps(1)] by (simp add: new_pool_def)
    from step.hyps(2) this step.IH show ?case
      by (cases rule: pool_step.cases) (auto simp: Enqueue_def Shutdown_def elim!: pool_thread_step_cases)
  qed (simp add: new_pool_def)
  moreover have "pool_inv p" using assms by (rule pool.reachable_inv [rotated]) blast
  ultimately show ?thesis using w by (auto simp: pool_inv_def joined_def)
qed

lemma pool_without_workers_witness:
  "tasks (Shutdown (Enqueue True (new_pool 0))) = [True] \<and> joined (Shutdown (Enqueue True (new_pool 0)))"
proof -
  have "pool_step\<^sup>*\<^sup>* (new_pool 0) (Shutdown (Enqueue True (new_pool 0)))"
    by (meson pool_step.intros r_into_rtranclp rtranclp.rtrancl_into_rtrancl)
  from pool_without_workers [OF this] show ?thesis
    by (simp add: Enqueue_def Shutdown_def new_pool_def)
qed

end
