(* ===== verification/Db_Worker.thy ===== *)
theory Db_Worker
  imports Rpc_Prelude "HOL-Library.Sublist"
begin

text \<open>
  \<open>include/game/db_worker.h\<close> and \<open>src/game/db_worker.cpp\<close>: the single thread that runs
  database tasks, which \<open>Start\<close> creates and \<open>Stop\<close> joins, and which can be started
  again. A run is a sequence of atomic steps, as for the thread pool. A task that throws ends the
  whole process (nothing catches it), so tasks here run to their end. \<open>PostToLoop\<close> hands its
  argument to the event loop.
\<close>

subsection \<open>State and operations\<close>

text \<open>What the thread is doing; \<open>NoThread\<close> while \<open>thr_\<close> is not joinable.\<close>

datatype 't db_thread = NoThread | Waiting | Busy 't | Done

record 't db_worker =
  q :: "'t list"
  db_stop :: bool
  thr :: "'t db_thread"
  posted :: "'t list"
  completed :: "'t list"

definition new_db_worker :: "'t db_worker" where
  "new_db_worker = \<lparr>q = [], db_stop = False, thr = NoThread, posted = [], completed = []\<rparr>"

definition DbStart :: "'t db_worker \<Rightarrow> 't db_worker" where
  "DbStart d = (if thr d \<noteq> NoThread then d else d\<lparr>db_stop := False, thr := Waiting\<rparr>)"

text \<open>\<open>Stop\<close> up to the join, and the return of the join.\<close>

definition DbStop :: "'t db_worker \<Rightarrow> 't db_worker" where
  "DbStop d = (if thr d = NoThread then d else d\<lparr>db_stop := True\<rparr>)"

definition DbJoin :: "'t db_worker \<Rightarrow> 't db_worker option" where
  "DbJoin d = (if thr d = Done then Some (d\<lparr>thr := NoThread\<rparr>) else None)"

definition DbPost :: "'t \<Rightarrow> 't db_worker \<Rightarrow> 't db_worker" where
  "DbPost t d = (if db_stop d then d else d\<lparr>q := q d @ [t], posted := posted d @ [t]\<rparr>)"

definition DbWorkerLoop :: "'t db_worker \<Rightarrow> 't db_worker option" where
  "DbWorkerLoop d =
     (case thr d of
        Waiting \<Rightarrow>
          (case q d of
             [] \<Rightarrow> if db_stop d then Some (d\<lparr>thr := Done\<rparr>) else None
           | t # ts \<Rightarrow> Some (d\<lparr>q := ts, thr := Busy t\<rparr>))
      | Busy t \<Rightarrow> Some (d\<lparr>completed := completed d @ [t], thr := Waiting\<rparr>)
      | _ \<Rightarrow> None)"

inductive db_step :: "'t db_worker \<Rightarrow> 't db_worker \<Rightarrow> bool" where
  db_start: "db_step d (DbStart d)"
| db_stop: "db_step d (DbStop d)"
| db_join: "DbJoin d = Some d' \<Longrightarrow> db_step d d'"
| db_post: "db_step d (DbPost t d)"
| db_work: "DbWorkerLoop d = Some d' \<Longrightarrow> db_step d d'"

inductive_cases db_step_elim: "db_step d d'"

subsection \<open>The invariant\<close>

fun busy :: "'t db_thread \<Rightarrow> 't list" where
  "busy (Busy t) = [t]"
| "busy _ = []"

definition db_inv :: "'t db_worker \<Rightarrow> bool" where
  "db_inv d \<longleftrightarrow> posted d = completed d @ busy (thr d) @ q d \<and>
     (thr d = Done \<longrightarrow> db_stop d \<and> q d = []) \<and> (thr d = NoThread \<and> db_stop d \<longrightarrow> q d = [])"

lemma db_step_inv: "db_step d d' \<Longrightarrow> db_inv d \<Longrightarrow> db_inv d'"
  by (auto simp: db_inv_def DbStart_def DbStop_def DbJoin_def DbPost_def DbWorkerLoop_def
      elim!: db_step_elim split: if_splits db_thread.splits list.splits)

interpretation db: step_invariant "\<lambda>d. d = new_db_worker" db_step db_inv
proof
  show "db_inv d" if "d = new_db_worker" for d :: "'a db_worker"
    using that by (simp add: db_inv_def new_db_worker_def)
qed (rule db_step_inv)

subsection \<open>Properties\<close>

text \<open>
  Database tasks run one at a time in the order they were posted, across any number of
  \<open>Start\<close> and \<open>Stop\<close> calls, and a task that was accepted is never lost: when
  \<open>Stop\<close> has joined the thread every accepted task has run.
\<close>

lemma db_tasks_in_order:
  assumes "db_step\<^sup>*\<^sup>* new_db_worker d"
  shows "prefix (completed d) (posted d) \<and> (thr d = NoThread \<and> db_stop d \<longrightarrow> completed d = posted d)"
proof -
  have "db_inv d" using assms by (rule db.reachable_inv [OF refl])
  then show ?thesis by (auto simp: db_inv_def)
qed

lemma db_tasks_in_order_witness:
  "let d = (the \<circ> DbJoin \<circ> the \<circ> DbWorkerLoop \<circ> the \<circ> DbWorkerLoop \<circ> the \<circ> DbWorkerLoop \<circ> DbStop \<circ> DbStart)
     (DbPost (3::nat) new_db_worker)
   in completed d = [3] \<and> posted d = [3] \<and> thr d = NoThread"
proof -
  note ev = DbPost_def new_db_worker_def DbStart_def DbStop_def DbWorkerLoop_def DbJoin_def
  define d1 d2 d3 d4 d5 d6 d7 where "d1 = DbPost (3::nat) new_db_worker" and "d2 = DbStart d1"
    and "d3 = DbStop d2" and "d4 = the (DbWorkerLoop d3)" and "d5 = the (DbWorkerLoop d4)"
    and "d6 = the (DbWorkerLoop d5)" and "d7 = the (DbJoin d6)"
  note ds = d1_def d2_def d3_def d4_def d5_def d6_def d7_def
  have "db_step new_db_worker d1" "db_step d1 d2" "db_step d2 d3"
    by (simp_all add: d1_def d2_def d3_def db_post db_start db_stop)
  moreover have "DbWorkerLoop d3 = Some d4" "DbWorkerLoop d4 = Some d5" "DbWorkerLoop d5 = Some d6"
    "DbJoin d6 = Some d7" by (simp_all add: ds ev)
  then have "db_step d3 d4" "db_step d4 d5" "db_step d5 d6" "db_step d6 d7"
    by (auto intro: db_work db_join)
  ultimately have r: "db_step\<^sup>*\<^sup>* new_db_worker d7"
    by (meson converse_rtranclp_into_rtranclp rtranclp.rtrancl_refl)
  have s: "thr d7 = NoThread" "db_stop d7" "posted d7 = [3]" by (simp_all add: ds ev)
  have "(the \<circ> DbJoin \<circ> the \<circ> DbWorkerLoop \<circ> the \<circ> DbWorkerLoop \<circ> the \<circ> DbWorkerLoop \<circ> DbStop \<circ> DbStart)
     (DbPost (3::nat) new_db_worker) = d7" by (simp add: ds)
  then show ?thesis using db_tasks_in_order [OF r] s by (simp only: Let_def)
qed

end
