(* ===== verification/World_Service.thy ===== *)
theory World_Service
  imports Floating_Point
begin

text \<open>
  \<open>include/game/world_service.h\<close> and \<open>src/game/world_service.cpp\<close>: the shared world of
  players, resources, buildings and edited blocks. Coordinates are \<open>float\<close> values as the clients
  send them, NaN and infinities included. The hash maps are association lists: their order, which
  the language leaves open, only decides the order of messages to different players and of the
  entries in a message. An operation returns its result, the new world and the messages it sends;
  a message stands for its Protobuf encoding. The material counters are \<open>int\<close> of 32 bits; times
  are unbounded integers.
\<close>

subsection \<open>Data\<close>

record vec3 =
  vx :: fp
  vy :: fp
  vz :: fp

record world_player =
  wp_id :: string
  wp_name :: string
  wp_room :: string
  wp_map :: int
  wp_pos :: vec3
  wp_yaw :: fp
  wp_appearance :: int
  wp_wood :: int
  wp_stone :: int
  wp_dirt :: int
  wp_copper :: int
  wp_tool :: int
  wp_last_move :: int
  wp_allowance :: fp
  wp_last_broadcast :: int

record world_resource =
  wr_id :: string
  wr_type :: int
  wr_pos :: vec3
  wr_remaining :: int

record building_state =
  wb_id :: string
  wb_owner :: string
  wb_type :: int
  wb_pos :: vec3
  wb_yaw :: fp

record voxel_edit =
  ve_x :: int
  ve_y :: int
  ve_z :: int
  ve_action :: int
  ve_block :: int

record scene_voxel_edit =
  sv_room :: string
  sv_edit :: voxel_edit

record scene_snapshot =
  scene_id :: string
  sc_resources :: "world_resource list"
  sc_buildings :: "building_state list"
  sc_voxel_edits :: "scene_voxel_edit list"
  sc_next_building :: u64
  sc_found :: bool

record player_state =
  ps_id :: string
  ps_pos :: vec3
  ps_yaw :: fp
  ps_wood :: int
  ps_stone :: int
  ps_dirt :: int
  ps_copper :: int
  ps_tool :: int
  ps_found :: bool

record world =
  w_players :: "(string \<times> world_player) list"
  w_resources :: "(string \<times> world_resource) list"
  w_buildings :: "building_state list"
  next_building_id :: u64
  w_voxels :: "(string \<times> (string \<times> voxel_edit) list) list"

record transform =
  tr_id :: string
  tr_name :: string
  tr_pos :: vec3
  tr_yaw :: fp
  tr_appearance :: int

record inventory =
  inv_wood :: int
  inv_stone :: int
  inv_dirt :: int
  inv_copper :: int
  inv_tool :: int

datatype world_msg =
    WorldStateNtf "transform list" "world_resource list" "building_state list" "voxel_edit list" "inventory option"
  | PlayerEnterNtf transform
  | WorldPlayerLeaveNtf string
  | ResourceChangedNtf world_resource
  | BuildingPlacedNtf building_state
  | VoxelEditNtf voxel_edit

type_synonym world_sends = "(string \<times> world_msg) list"

datatype world_error = NoError | NotInWorld | OutsideWorld | TooFast | ResourceNotFound | ResourceDepleted
  | ResourceTooFar | UnknownBuilding | BuildTooFar | NotEnoughResources | BuildOccupied | InvalidRecipe
  | ToolAlreadyCrafted | PreviousToolRequired | NotEnoughMaterial | BlockTooFar | InvalidEdit
  | BlockAlreadyRemoved | BlockOccupied | UnsupportedMaterial

definition kMaxSpeed :: fp where "kMaxSpeed = FNum 15"
definition kMoveBurstAllowance :: fp where "kMoveBurstAllowance = FNum 15"
definition kInitialMoveAllowance :: fp where "kInitialMoveAllowance = FNum 1"
definition kBound :: fp where "kBound = FNum 500"
definition kInteractDistance :: fp where "kInteractDistance = FNum 4"
definition kMinBroadcastIntervalMs :: int where "kMinBroadcastIntervalMs = 50"

definition RESOURCE_WOOD :: int where "RESOURCE_WOOD = 1"
definition RESOURCE_STONE :: int where "RESOURCE_STONE = 2"
definition BUILDING_FLOOR :: int where "BUILDING_FLOOR = 1"
definition BUILDING_WALL :: int where "BUILDING_WALL = 2"
definition BUILDING_CAMPFIRE :: int where "BUILDING_CAMPFIRE = 3"

lemmas world_constants = kMaxSpeed_def kMoveBurstAllowance_def kInitialMoveAllowance_def kBound_def
  kInteractDistance_def kMinBroadcastIntervalMs_def RESOURCE_WOOD_def RESOURCE_STONE_def
  BUILDING_FLOOR_def BUILDING_WALL_def BUILDING_CAMPFIRE_def

definition Distance :: "vec3 \<Rightarrow> vec3 \<Rightarrow> fp" where
  "Distance a b =
     (let dx = fp_sub Single (vx a) (vx b); dy = fp_sub Single (vy a) (vy b); dz = fp_sub Single (vz a) (vz b)
      in fp_sqrt Single (fp_add Single (fp_add Single (fp_mul Single dx dx) (fp_mul Single dy dy)) (fp_mul Single dz dz)))"

definition new_player :: world_player where
  "new_player =
     \<lparr>wp_id = '''', wp_name = '''', wp_room = ''lobby'', wp_map = 0, wp_pos = \<lparr>vx = FNum 0, vy = FNum 0, vz = FNum 0\<rparr>,
      wp_yaw = FNum 0, wp_appearance = 0, wp_wood = 6, wp_stone = 3, wp_dirt = 12, wp_copper = 0, wp_tool = 0,
      wp_last_move = 0, wp_allowance = kInitialMoveAllowance, wp_last_broadcast = 0\<rparr>"

definition new_world :: world where
  "new_world = \<lparr>w_players = [], w_resources = [], w_buildings = [], next_building_id = 1, w_voxels = []\<rparr>"

text \<open>
  \<open>++\<close> on a counter of 32 bits. At the largest value it is undefined in the language; the model wraps,
  as two's complement hardware does, so that a stock that overflows is seen to go negative.
\<close>

definition inc32 :: "int \<Rightarrow> int" where
  "inc32 n = (if n = 2 ^ 31 - 1 then - (2 ^ 31) else n + 1)"

lemma inc32_small: "n < 2 ^ 31 - 1 \<Longrightarrow> inc32 n = n + 1"
  by (simp add: inc32_def)

definition get_player :: "string \<Rightarrow> world \<Rightarrow> world_player option" where
  "get_player p w = map_of (w_players w) p"

definition put_player :: "world_player \<Rightarrow> world \<Rightarrow> world" where
  "put_player pl w = w\<lparr>w_players := AList.update (wp_id pl) pl (w_players w)\<rparr>"

definition room_edits :: "string \<Rightarrow> world \<Rightarrow> (string \<times> voxel_edit) list" where
  "room_edits rm w = (case map_of (w_voxels w) rm of None \<Rightarrow> [] | Some es \<Rightarrow> es)"

text \<open>\<open>voxel_edits_[room]\<close> creates an empty map when there is none.\<close>

definition touch_room :: "string \<Rightarrow> world \<Rightarrow> world" where
  "touch_room rm w =
     (if map_of (w_voxels w) rm = None then w\<lparr>w_voxels := AList.update rm [] (w_voxels w)\<rparr> else w)"

definition voxel_key :: "int \<Rightarrow> int \<Rightarrow> int \<Rightarrow> string" where
  "voxel_key x y z = int_dec x @ '':'' @ int_dec y @ '':'' @ int_dec z"

definition put_voxel :: "string \<Rightarrow> voxel_edit \<Rightarrow> world \<Rightarrow> world" where
  "put_voxel rm e w =
     w\<lparr>w_voxels := AList.update rm (AList.update (voxel_key (ve_x e) (ve_y e) (ve_z e)) e (room_edits rm w)) (w_voxels w)\<rparr>"

subsection \<open>The scene\<close>

definition seed_resource :: "string \<Rightarrow> int \<Rightarrow> real \<Rightarrow> real \<Rightarrow> int \<Rightarrow> world_resource" where
  "seed_resource i t x z n =
     \<lparr>wr_id = i, wr_type = t, wr_pos = \<lparr>vx = FNum x, vy = FNum 0, vz = FNum z\<rparr>, wr_remaining = n\<rparr>"

definition seeded :: "world_resource list" where
  "seeded =
     [seed_resource ''tree_1'' RESOURCE_WOOD (- 6) (- 5) 6, seed_resource ''tree_2'' RESOURCE_WOOD 7 (- 4) 6,
      seed_resource ''tree_3'' RESOURCE_WOOD (- 9) 7 6, seed_resource ''tree_4'' RESOURCE_WOOD 10 8 6,
      seed_resource ''rock_1'' RESOURCE_STONE (- 4) 8 5, seed_resource ''rock_2'' RESOURCE_STONE 5 6 5,
      seed_resource ''rock_3'' RESOURCE_STONE 9 (- 9) 5]"

text \<open>\<open>emplace\<close> keeps an element that is already there.\<close>

definition emplace :: "'k \<Rightarrow> 'v \<Rightarrow> ('k \<times> 'v) list \<Rightarrow> ('k \<times> 'v) list" where
  "emplace k v xs = (if map_of xs k = None then AList.update k v xs else xs)"

definition SeedDefaultScene :: "world \<Rightarrow> world" where
  "SeedDefaultScene w =
     w\<lparr>w_resources := fold (\<lambda>r. emplace (wr_id r) r) seeded [], w_buildings := [], next_building_id := 1\<rparr>"

definition LoadScene :: "scene_snapshot \<Rightarrow> world \<Rightarrow> world" where
  "LoadScene sc w =
     fold (\<lambda>v. put_voxel (sv_room v) (sv_edit v)) (sc_voxel_edits sc)
       (w\<lparr>w_resources := fold (\<lambda>r. emplace (wr_id r) r) (sc_resources sc) [],
          w_buildings := sc_buildings sc,
          next_building_id := (if 0 < sc_next_building sc then sc_next_building sc else 1),
          w_voxels := []\<rparr>)"

definition ExportScene :: "string \<Rightarrow> world \<Rightarrow> scene_snapshot" where
  "ExportScene i w =
     \<lparr>scene_id = i, sc_resources = map snd (w_resources w), sc_buildings = w_buildings w,
      sc_voxel_edits = concat (map (\<lambda>(rm, es). map (\<lambda>(_, e). \<lparr>sv_room = rm, sv_edit = e\<rparr>) es) (w_voxels w)),
      sc_next_building = next_building_id w, sc_found = True\<rparr>"

subsection \<open>Messages\<close>

definition transform_of :: "world_player \<Rightarrow> transform" where
  "transform_of p =
     \<lparr>tr_id = wp_id p, tr_name = wp_name p, tr_pos = wp_pos p, tr_yaw = wp_yaw p, tr_appearance = wp_appearance p\<rparr>"

definition inventory_of :: "world_player \<Rightarrow> inventory" where
  "inventory_of p =
     \<lparr>inv_wood = wp_wood p, inv_stone = wp_stone p, inv_dirt = wp_dirt p, inv_copper = wp_copper p, inv_tool = wp_tool p\<rparr>"

definition SendWorldStateTo :: "string \<Rightarrow> world \<Rightarrow> world \<times> world_sends" where
  "SendWorldStateTo p w =
     (case get_player p w of
        None \<Rightarrow> (w, [(p, WorldStateNtf [] (map snd (w_resources w)) (w_buildings w) [] None)])
      | Some pl \<Rightarrow>
          (touch_room (wp_room pl) w,
           [(p, WorldStateNtf
                 (map (transform_of \<circ> snd) (filter (\<lambda>(_, q). wp_room q = wp_room pl) (w_players w)))
                 (map snd (w_resources w)) (w_buildings w) (map snd (room_edits (wp_room pl) w))
                 (Some (inventory_of pl)))]))"

definition send_room :: "string \<Rightarrow> (string \<Rightarrow> bool) \<Rightarrow> world_msg \<Rightarrow> world \<Rightarrow> world_sends" where
  "send_room rm P msg w =
     map (\<lambda>(i, _). (i, msg)) (filter (\<lambda>(i, q). P i \<and> wp_room q = rm) (w_players w))"

definition BroadcastEnter :: "world_player \<Rightarrow> world \<Rightarrow> world_sends" where
  "BroadcastEnter p w = send_room (wp_room p) (\<lambda>i. i \<noteq> wp_id p) (PlayerEnterNtf (transform_of p)) w"

definition BroadcastLeave :: "string \<Rightarrow> string \<Rightarrow> world \<Rightarrow> world_sends" where
  "BroadcastLeave p rm w = send_room rm (\<lambda>_. True) (WorldPlayerLeaveNtf p) w"

definition BroadcastVoxelEdit :: "string \<Rightarrow> voxel_edit \<Rightarrow> world \<Rightarrow> world_sends" where
  "BroadcastVoxelEdit rm e w = send_room rm (\<lambda>_. True) (VoxelEditNtf e) w"

text \<open>The pose of a player goes out at most every 50 ms, except when \<open>force\<close> is set.\<close>

definition BroadcastPose :: "world_player \<Rightarrow> int \<Rightarrow> bool \<Rightarrow> world \<Rightarrow> world \<times> world_sends" where
  "BroadcastPose p now force w =
     (case get_player (wp_id p) w of
        None \<Rightarrow> (w, [])
      | Some q \<Rightarrow>
          if \<not> force \<and> now - wp_last_broadcast q < kMinBroadcastIntervalMs then (w, [])
          else (put_player (q\<lparr>wp_last_broadcast := now\<rparr>) w,
                send_room (wp_room p) (\<lambda>i. i \<noteq> wp_id p) (WorldStateNtf [transform_of p] [] [] [] None) w))"

definition BroadcastResource :: "world_resource \<Rightarrow> world \<Rightarrow> world_sends" where
  "BroadcastResource r w = map (\<lambda>(i, _). (i, ResourceChangedNtf r)) (w_players w)"

definition BroadcastBuilding :: "building_state \<Rightarrow> world \<Rightarrow> world_sends" where
  "BroadcastBuilding b w = map (\<lambda>(i, _). (i, BuildingPlacedNtf b)) (w_players w)"

subsection \<open>Players\<close>

definition EnterWithState :: "string \<Rightarrow> string \<Rightarrow> int \<Rightarrow> vec3 \<Rightarrow> fp \<Rightarrow> int \<Rightarrow> int \<Rightarrow> int \<Rightarrow> int \<Rightarrow> int \<Rightarrow>
    world \<Rightarrow> world \<times> world_sends" where
  "EnterWithState p name now pos yaw wood stone dirt copper tool w =
     (let old = (case get_player p w of None \<Rightarrow> new_player | Some q \<Rightarrow> q);
          pl = old\<lparr>wp_id := p, wp_name := name, wp_pos := pos, wp_yaw := yaw, wp_wood := wood, wp_stone := stone,
            wp_dirt := dirt, wp_copper := copper, wp_tool := tool, wp_last_move := now,
            wp_allowance := kInitialMoveAllowance, wp_last_broadcast := now - kMinBroadcastIntervalMs\<rparr>;
          (w1, out) = SendWorldStateTo p (put_player pl w)
      in (w1, out @ BroadcastEnter pl w1))"

definition Enter :: "string \<Rightarrow> string \<Rightarrow> int \<Rightarrow> world \<Rightarrow> world \<times> world_sends" where
  "Enter p name now w =
     (case get_player p w of
        Some q \<Rightarrow> EnterWithState p name now (wp_pos q) (wp_yaw q) (wp_wood q) (wp_stone q) (wp_dirt q)
          (wp_copper q) (wp_tool q) w
      | None \<Rightarrow>
          let n = length (w_players w);
              x = fp_mul Single (fp_of_int Single (int (n mod 4))) (FNum 2);
              z = fp_mul Single (fp_of_int Single (int (n div 4))) (FNum 2)
          in EnterWithState p name now \<lparr>vx = x, vy = FNum 0, vz = z\<rparr> (FNum 0) 6 3 12 0 0 w)"

definition Leave :: "string \<Rightarrow> world \<Rightarrow> world \<times> world_sends" where
  "Leave p w =
     (case get_player p w of
        None \<Rightarrow> (w, [])
      | Some q \<Rightarrow>
          let w1 = w\<lparr>w_players := AList.delete p (w_players w)\<rparr> in (w1, BroadcastLeave p (wp_room q) w1))"

text \<open>\<open>hash\<close> is the implementation's \<open>std::hash\<close> of a string.\<close>

definition SelectRoom :: "(string \<Rightarrow> nat) \<Rightarrow> string \<Rightarrow> string \<Rightarrow> int \<Rightarrow> int \<Rightarrow> world \<Rightarrow> bool \<times> world \<times> world_sends" where
  "SelectRoom hash p rm map_id now w =
     (case get_player p w of
        None \<Rightarrow> (False, w, [])
      | Some q \<Rightarrow>
          if rm = '''' \<or> map_id < 0 \<or> 2 < map_id then (False, w, [])
          else
            let left = BroadcastLeave p (wp_room q) w;
                x = fp_sub Single (fp_of_int Single (int (hash p mod 5))) (FNum 2);
                pl = q\<lparr>wp_room := rm, wp_map := map_id, wp_pos := \<lparr>vx = x, vy = FNum 0, vz = FNum 0\<rparr>,
                  wp_last_move := now, wp_allowance := kInitialMoveAllowance\<rparr>;
                (w1, out) = SendWorldStateTo p (put_player pl w)
            in (True, w1, left @ out @ BroadcastEnter pl w1))"

definition GetWorldSnapshot :: "string \<Rightarrow> world \<Rightarrow> player_state option" where
  "GetWorldSnapshot p w =
     map_option (\<lambda>q. \<lparr>ps_id = p, ps_pos = wp_pos q, ps_yaw = wp_yaw q, ps_wood = wp_wood q, ps_stone = wp_stone q,
       ps_dirt = wp_dirt q, ps_copper = wp_copper q, ps_tool = wp_tool q, ps_found = False\<rparr>) (get_player p w)"

definition HasPlayerInWorld :: "string \<Rightarrow> world \<Rightarrow> bool" where
  "HasPlayerInWorld p w \<longleftrightarrow> get_player p w \<noteq> None"

subsection \<open>Moving\<close>

record move_result =
  mv_success :: bool
  mv_error :: world_error
  mv_pos :: vec3

definition zero_vec :: vec3 where
  "zero_vec = \<lparr>vx = FNum 0, vy = FNum 0, vz = FNum 0\<rparr>"

definition clamp_vec :: "vec3 \<Rightarrow> vec3" where
  "clamp_vec v = \<lparr>vx = fp_clamp (vx v) (fp_neg kBound) kBound, vy = fp_clamp (vy v) (fp_neg kBound) kBound,
     vz = fp_clamp (vz v) (fp_neg kBound) kBound\<rparr>"

definition vec_differs :: "vec3 \<Rightarrow> vec3 \<Rightarrow> bool" where
  "vec_differs a b \<longleftrightarrow> \<not> fp_eq (vx a) (vx b) \<or> \<not> fp_eq (vy a) (vy b) \<or> \<not> fp_eq (vz a) (vz b)"

text \<open>The allowance after the time since the last move request: 15 units per second, at most 15.\<close>

definition refill :: "int \<Rightarrow> world_player \<Rightarrow> fp" where
  "refill now q =
     fp_min kMoveBurstAllowance
       (fp_add Single (wp_allowance q)
         (fp_div Single (fp_mul Single kMaxSpeed (fp_of_int Single (max (now - wp_last_move q) 0))) 1000))"

definition TryMove :: "string \<Rightarrow> vec3 \<Rightarrow> fp \<Rightarrow> int \<Rightarrow> int \<Rightarrow> world \<Rightarrow> move_result \<times> world \<times> world_sends" where
  "TryMove p pos yaw now appearance w =
     (case get_player p w of
        None \<Rightarrow> (\<lparr>mv_success = False, mv_error = NotInWorld, mv_pos = zero_vec\<rparr>, w, [])
      | Some q \<Rightarrow>
          let c = clamp_vec pos;
              clamped = vec_differs c pos;
              dist = Distance c (wp_pos q);
              allowance = refill now q;
              q1 = q\<lparr>wp_allowance := allowance, wp_last_move := now\<rparr>
          in if clamped \<or> fp_lt allowance dist
             then (\<lparr>mv_success = False, mv_error = (if clamped then OutsideWorld else TooFast), mv_pos = wp_pos q\<rparr>,
                   put_player q1 w, [])
             else
               let q2 = q1\<lparr>wp_allowance := fp_max (FNum 0) (fp_sub Single allowance dist), wp_pos := c,
                     wp_yaw := yaw, wp_appearance := max 0 (min 3 appearance)\<rparr>;
                   (w1, out) = BroadcastPose q2 now False (put_player q2 w)
               in (\<lparr>mv_success = True, mv_error = NoError, mv_pos = c\<rparr>, w1, out))"

subsection \<open>Gathering, building, crafting\<close>

record gather_result =
  ga_success :: bool
  ga_error :: world_error
  ga_resource :: world_resource
  ga_wood :: int
  ga_stone :: int

definition no_resource :: world_resource where
  "no_resource = \<lparr>wr_id = '''', wr_type = 0, wr_pos = zero_vec, wr_remaining = 0\<rparr>"

definition TryGather :: "string \<Rightarrow> string \<Rightarrow> world \<Rightarrow> gather_result \<times> world \<times> world_sends" where
  "TryGather p rid w =
     (case get_player p w of
        None \<Rightarrow> (\<lparr>ga_success = False, ga_error = NotInWorld, ga_resource = no_resource, ga_wood = 0, ga_stone = 0\<rparr>, w, [])
      | Some q \<Rightarrow>
     (case map_of (w_resources w) rid of
        None \<Rightarrow> (\<lparr>ga_success = False, ga_error = ResourceNotFound, ga_resource = no_resource, ga_wood = 0, ga_stone = 0\<rparr>, w, [])
      | Some r \<Rightarrow>
          let failed = (\<lambda>e. (\<lparr>ga_success = False, ga_error = e, ga_resource = r, ga_wood = wp_wood q,
                ga_stone = wp_stone q\<rparr>, w, []))
          in if wr_remaining r \<le> 0 then failed ResourceDepleted
             else if fp_lt kInteractDistance (Distance (wp_pos q) (wr_pos r)) then failed ResourceTooFar
             else
               let r' = r\<lparr>wr_remaining := wr_remaining r - 1\<rparr>;
                   q' = q\<lparr>wp_wood := (if wr_type r = RESOURCE_WOOD then inc32 (wp_wood q) else wp_wood q),
                          wp_stone := (if wr_type r = RESOURCE_STONE then inc32 (wp_stone q) else wp_stone q)\<rparr>;
                   w' = (put_player q' w)\<lparr>w_resources := AList.update rid r' (w_resources w)\<rparr>
               in (\<lparr>ga_success = True, ga_error = NoError, ga_resource = r', ga_wood = wp_wood q', ga_stone = wp_stone q'\<rparr>,
                   w', BroadcastResource r' w')))"

record building_result =
  bu_success :: bool
  bu_error :: world_error
  bu_building :: building_state
  bu_wood :: int
  bu_stone :: int

definition building_cost :: "int \<Rightarrow> (int \<times> int) option" where
  "building_cost t =
     (if t = BUILDING_FLOOR then Some (2, 0) else if t = BUILDING_WALL then Some (3, 0)
      else if t = BUILDING_CAMPFIRE then Some (0, 3) else None)"

text \<open>Closer than 0.8, the constant rounded to a \<open>float\<close>.\<close>

definition occupied :: "vec3 \<Rightarrow> world \<Rightarrow> bool" where
  "occupied pos w \<longleftrightarrow> list_ex (\<lambda>b. fp_lt (Distance (wb_pos b) pos) (fp_of_real Single (8 / 10))) (w_buildings w)"

definition TryPlaceBuilding ::
  "string \<Rightarrow> int \<Rightarrow> vec3 \<Rightarrow> fp \<Rightarrow> world \<Rightarrow> building_result \<times> world \<times> world_sends" where
  "TryPlaceBuilding p t pos yaw w =
     (case get_player p w of
        None \<Rightarrow> (\<lparr>bu_success = False, bu_error = NotInWorld,
            bu_building = \<lparr>wb_id = '''', wb_owner = '''', wb_type = 0, wb_pos = zero_vec, wb_yaw = FNum 0\<rparr>,
            bu_wood = 0, bu_stone = 0\<rparr>, w, [])
      | Some q \<Rightarrow>
          let b = \<lparr>wb_id = '''', wb_owner = p, wb_type = t,
                wb_pos = \<lparr>vx = fp_round (vx pos), vy = fp_round (vy pos), vz = fp_round (vz pos)\<rparr>,
                wb_yaw = fp_mul Single (fp_round (fp_div Single yaw 90)) (FNum 90)\<rparr>;
              failed = (\<lambda>e. (\<lparr>bu_success = False, bu_error = e, bu_building = b, bu_wood = wp_wood q,
                bu_stone = wp_stone q\<rparr>, w, []))
          in (case building_cost t of
                None \<Rightarrow> failed UnknownBuilding
              | Some (wood_cost, stone_cost) \<Rightarrow>
                  if fp_lt (FNum 8) (Distance (wp_pos q) (wb_pos b)) then failed BuildTooFar
                  else if wp_wood q < wood_cost \<or> wp_stone q < stone_cost then failed NotEnoughResources
                  else if occupied (wb_pos b) w then failed BuildOccupied
                  else
                    let q' = q\<lparr>wp_wood := wp_wood q - wood_cost, wp_stone := wp_stone q - stone_cost\<rparr>;
                        b' = b\<lparr>wb_id := ''building_'' @ dec (unat (next_building_id w))\<rparr>;
                        w' = (put_player q' w)\<lparr>next_building_id := next_building_id w + 1,
                               w_buildings := w_buildings w @ [b']\<rparr>
                    in (\<lparr>bu_success = True, bu_error = NoError, bu_building = b', bu_wood = wp_wood q',
                         bu_stone = wp_stone q'\<rparr>, w', BroadcastBuilding b' w')))"

record craft_result =
  cr_success :: bool
  cr_error :: world_error
  cr_inventory :: inventory

text \<open>Wood, stone and copper cost and required tool level of a recipe.\<close>

definition recipe_cost :: "int \<Rightarrow> (int \<times> int \<times> int \<times> int) option" where
  "recipe_cost i =
     (if i = 1 then Some (2, 0, 0, 0) else if i = 2 then Some (2, 5, 0, 1) else if i = 3 then Some (2, 0, 5, 2) else None)"

definition TryCraft :: "string \<Rightarrow> int \<Rightarrow> world \<Rightarrow> craft_result \<times> world" where
  "TryCraft p i w =
     (let failed = (\<lambda>e. (\<lparr>cr_success = False, cr_error = e,
            cr_inventory = \<lparr>inv_wood = 0, inv_stone = 0, inv_dirt = 0, inv_copper = 0, inv_tool = 0\<rparr>\<rparr>, w))
      in case get_player p w of
           None \<Rightarrow> failed NotInWorld
         | Some q \<Rightarrow>
             (case recipe_cost i of
                None \<Rightarrow> failed InvalidRecipe
              | Some (wood_cost, stone_cost, copper_cost, level) \<Rightarrow>
                  if i \<le> wp_tool q then failed ToolAlreadyCrafted
                  else if wp_tool q < level then failed PreviousToolRequired
                  else if wp_wood q < wood_cost \<or> wp_stone q < stone_cost \<or> wp_copper q < copper_cost
                  then failed NotEnoughMaterial
                  else
                    let q' = q\<lparr>wp_wood := wp_wood q - wood_cost, wp_stone := wp_stone q - stone_cost,
                          wp_copper := wp_copper q - copper_cost, wp_tool := i\<rparr>
                    in (\<lparr>cr_success = True, cr_error = NoError, cr_inventory = inventory_of q'\<rparr>, put_player q' w)))"

subsection \<open>Editing blocks\<close>

text \<open>The material a removed block of a type gives.\<close>

definition collect_block :: "int \<Rightarrow> world_player \<Rightarrow> world_player" where
  "collect_block t q =
     (if t = 1 \<or> t = 2 then q\<lparr>wp_dirt := inc32 (wp_dirt q)\<rparr>
      else if t = 3 then q\<lparr>wp_stone := inc32 (wp_stone q)\<rparr>
      else if t = 4 then q\<lparr>wp_wood := inc32 (wp_wood q)\<rparr>
      else if t = 5 then q\<lparr>wp_copper := inc32 (wp_copper q)\<rparr> else q)"

text \<open>Paying for a placed block.\<close>

definition spend_block :: "int \<Rightarrow> world_player \<Rightarrow> world_error + world_player" where
  "spend_block t q =
     (if t = 2 then (if wp_dirt q \<le> 0 then Inl NotEnoughMaterial else Inr (q\<lparr>wp_dirt := wp_dirt q - 1\<rparr>))
      else if t = 3 then (if wp_stone q \<le> 0 then Inl NotEnoughMaterial else Inr (q\<lparr>wp_stone := wp_stone q - 1\<rparr>))
      else if t = 4 then (if wp_wood q \<le> 0 then Inl NotEnoughMaterial else Inr (q\<lparr>wp_wood := wp_wood q - 1\<rparr>))
      else Inl UnsupportedMaterial)"

definition block_distance :: "int \<Rightarrow> int \<Rightarrow> vec3 \<Rightarrow> fp" where
  "block_distance x z pos =
     (case (fp_sub Single (fp_of_int Single x) (vx pos), fp_sub Single (fp_of_int Single z) (vz pos)) of
        (FNum a, FNum b) \<Rightarrow> fp_of_real Single (sqrt (a * a + b * b))
      | (FInf _, _) \<Rightarrow> FInf False
      | (_, FInf _) \<Rightarrow> FInf False
      | _ \<Rightarrow> FNaN)"

definition ApplyVoxelEdit ::
  "string \<Rightarrow> int \<Rightarrow> int \<Rightarrow> int \<Rightarrow> int \<Rightarrow> int \<Rightarrow> world \<Rightarrow> (world_error + inventory) \<times> world \<times> world_sends" where
  "ApplyVoxelEdit p x y z action block w =
     (case get_player p w of
        None \<Rightarrow> (Inl NotInWorld, w, [])
      | Some q \<Rightarrow>
          if fp_lt (FNum 5) (block_distance x z (wp_pos q)) then (Inl BlockTooFar, w, [])
          else if (action \<noteq> 1 \<and> action \<noteq> 2) \<or> block < 0 \<or> 5 < block \<or> y < -1 \<or> 4 < y then (Inl InvalidEdit, w, [])
          else
            let w1 = touch_room (wp_room q) w;
                prev = map_of (room_edits (wp_room q) w1) (voxel_key x y z);
                prev_action = map_option ve_action prev
            in if action = 1 \<and> prev_action = Some 1 then (Inl BlockAlreadyRemoved, w1, [])
               else if action = 2 \<and> prev_action = Some 2 then (Inl BlockOccupied, w1, [])
               else
                 let t = (if action = 1 \<and> prev_action = Some 2 then ve_block (the prev) else block)
                 in (case (if action = 1 then Inr (collect_block t q) else spend_block block q) of
                       Inl e \<Rightarrow> (Inl e, w1, [])
                     | Inr q' \<Rightarrow>
                         let edit = \<lparr>ve_x = x, ve_y = y, ve_z = z, ve_action = action, ve_block = t\<rparr>;
                             w2 = put_voxel (wp_room q) edit (put_player q' w1)
                         in (Inr (inventory_of q'), w2, BroadcastVoxelEdit (wp_room q) edit w2)))"

subsection \<open>Lookups\<close>

named_theorems world_simps

lemma get_put [world_simps]:
  "get_player p (put_player q w) = (if p = wp_id q then Some q else get_player p w)"
  by (simp add: get_player_def put_player_def update_conv' fun_upd_apply)

lemma put_player_fields [world_simps]:
  "w_resources (put_player q w) = w_resources w" "w_buildings (put_player q w) = w_buildings w"
  "next_building_id (put_player q w) = next_building_id w" "w_voxels (put_player q w) = w_voxels w"
  by (simp_all add: put_player_def)

lemma touch_room_fields [world_simps]:
  "w_resources (touch_room rm w) = w_resources w" "w_buildings (touch_room rm w) = w_buildings w"
  "next_building_id (touch_room rm w) = next_building_id w" "w_players (touch_room rm w) = w_players w"
  "get_player p (touch_room rm w) = get_player p w"
  by (simp_all add: touch_room_def get_player_def)

lemma put_voxel_fields [world_simps]:
  "w_resources (put_voxel rm e w) = w_resources w" "w_buildings (put_voxel rm e w) = w_buildings w"
  "next_building_id (put_voxel rm e w) = next_building_id w" "w_players (put_voxel rm e w) = w_players w"
  "get_player p (put_voxel rm e w) = get_player p w"
  by (simp_all add: put_voxel_def get_player_def)

definition voxel_at :: "string \<Rightarrow> string \<Rightarrow> world \<Rightarrow> voxel_edit option" where
  "voxel_at rm k w = map_of (room_edits rm w) k"

definition edit_key :: "voxel_edit \<Rightarrow> string" where
  "edit_key e = voxel_key (ve_x e) (ve_y e) (ve_z e)"

lemma voxel_at_touch [world_simps]: "voxel_at rm k (touch_room rm' w) = voxel_at rm k w"
  by (simp add: voxel_at_def room_edits_def touch_room_def update_conv' fun_upd_apply split: option.split)

lemma voxel_at_put [world_simps]:
  "voxel_at rm k (put_voxel rm' e w) = (if rm = rm' \<and> k = edit_key e then Some e else voxel_at rm k w)"
  by (auto simp: voxel_at_def room_edits_def put_voxel_def edit_key_def update_conv' fun_upd_apply)

lemma voxel_at_put_player [world_simps]: "voxel_at rm k (put_player q w) = voxel_at rm k w"
  by (simp add: voxel_at_def room_edits_def world_simps)

text \<open>The colons separate the coordinates, so a key names one block.\<close>

lemma voxel_key_inj [simp]: "voxel_key x y z = voxel_key x' y' z' \<longleftrightarrow> x = x' \<and> y = y' \<and> z = z'"
proof -
  have split: "s = s' \<and> t = t'" if "s @ '':'' @ t = s' @ '':'' @ t'" "CHR '':'' \<notin> set s" "CHR '':'' \<notin> set s'"
    for s s' t t' :: string
  proof -
    have "takeWhile (\<lambda>c. c \<noteq> CHR '':'') (s @ '':'' @ t) = s" "takeWhile (\<lambda>c. c \<noteq> CHR '':'') (s' @ '':'' @ t') = s'"
      using that(2,3) by (auto simp: takeWhile_append)
    with that(1) have "s = s'" by simp
    with that(1) show ?thesis by simp
  qed
  show ?thesis
    using split [of "int_dec x" "int_dec y @ '':'' @ int_dec z" "int_dec x'" "int_dec y' @ '':'' @ int_dec z'"]
      split [of "int_dec y" "int_dec z" "int_dec y'" "int_dec z'"]
    by (auto simp: voxel_key_def int_dec_colon)
qed

end
