(* ===== verification/World_Scene.thy ===== *)
theory World_Scene
  imports World_Service
begin

text \<open>
  Saving the shared world and loading it again: \<open>ExportScene\<close> lists the resources, buildings and
  block edits, \<open>LoadScene\<close> rebuilds the hash maps from the lists. The order of the lists is that of
  the maps' iteration, which does not matter to what a lookup finds.
\<close>

subsection \<open>Saving and loading\<close>

lemma fold_emplace:
  "map_of (fold (\<lambda>r. emplace (wr_id r) r) rs xs) k =
     (case map_of xs k of Some r \<Rightarrow> Some r | None \<Rightarrow> find (\<lambda>r. wr_id r = k) rs)"
  by (induction rs arbitrary: xs) (auto simp: emplace_def update_conv' fun_upd_apply split: option.split)

lemma find_resources:
  "\<forall>(i, r) \<in> set xs. wr_id r = i \<Longrightarrow> find (\<lambda>r. wr_id r = k) (map snd xs) = map_of xs k"
  by (induction xs) auto

definition sv_key :: "scene_voxel_edit \<Rightarrow> string \<times> string" where
  "sv_key v = (sv_room v, edit_key (sv_edit v))"

lemma fold_put_voxel:
  "distinct (map sv_key vs) \<Longrightarrow>
     voxel_at rm k (fold (\<lambda>v. put_voxel (sv_room v) (sv_edit v)) vs w) =
       (case find (\<lambda>v. sv_key v = (rm, k)) vs of Some v \<Rightarrow> Some (sv_edit v) | None \<Rightarrow> voxel_at rm k w)"
proof (induction vs arbitrary: w)
  case (Cons v vs)
  have "find (\<lambda>x. sv_key x = (rm, k)) vs = None" if "sv_key v = (rm, k)"
    using Cons.prems that by (force simp: find_None_iff)
  with Cons show ?case by (auto simp: voxel_at_put sv_key_def split: option.split)
qed simp

lemma fold_put_voxel_fields:
  "w_resources (fold (\<lambda>v. put_voxel (sv_room v) (sv_edit v)) vs w) = w_resources w"
  "w_buildings (fold (\<lambda>v. put_voxel (sv_room v) (sv_edit v)) vs w) = w_buildings w"
  "next_building_id (fold (\<lambda>v. put_voxel (sv_room v) (sv_edit v)) vs w) = next_building_id w"
  "w_players (fold (\<lambda>v. put_voxel (sv_room v) (sv_edit v)) vs w) = w_players w"
  by (induction vs arbitrary: w) (simp_all add: world_simps)

text \<open>The block edits are stored under their room and the key of their coordinates.\<close>

definition voxels_ok :: "world \<Rightarrow> bool" where
  "voxels_ok w \<longleftrightarrow> entries_ok (\<lambda>_. entries_ok (\<lambda>k e. edit_key e = k)) (w_voxels w)"

definition scene_edits :: "(string \<times> (string \<times> voxel_edit) list) list \<Rightarrow> scene_voxel_edit list" where
  "scene_edits vs = concat (map (\<lambda>(rm, es). map (\<lambda>(_, e). \<lparr>sv_room = rm, sv_edit = e\<rparr>) es) vs)"

lemma room_scene_edits:
  assumes "entries_ok (\<lambda>k e. edit_key e = k) es"
  shows "map sv_key (map (\<lambda>(_, e). \<lparr>sv_room = rm, sv_edit = e\<rparr>) es) = map (\<lambda>(k, _). (rm, k)) es"
    and "find (\<lambda>v. sv_key v = (rm', k)) (map (\<lambda>(_, e). \<lparr>sv_room = rm, sv_edit = e\<rparr>) es) =
      (if rm' = rm then map_option (\<lambda>e. \<lparr>sv_room = rm, sv_edit = e\<rparr>) (map_of es k) else None)"
  using assms by (induction es) (auto simp: entries_ok_def sv_key_def)

lemma scene_edits_rooms: "fst ` sv_key ` set (scene_edits vs) \<subseteq> fst ` set vs"
  by (auto simp: scene_edits_def sv_key_def) force

lemma find_append: "find P (xs @ ys) = (case find P xs of None \<Rightarrow> find P ys | Some x \<Rightarrow> Some x)"
  by (induction xs) auto

lemma scene_edits_find:
  assumes "entries_ok (\<lambda>_. entries_ok (\<lambda>k e. edit_key e = k)) vs"
  shows "distinct (map sv_key (scene_edits vs))"
    and "find (\<lambda>v. sv_key v = (rm, k)) (scene_edits vs) =
      (case map_of vs rm of None \<Rightarrow> None | Some es \<Rightarrow> map_option (\<lambda>e. \<lparr>sv_room = rm, sv_edit = e\<rparr>) (map_of es k))"
proof -
  have "distinct (map sv_key (scene_edits vs)) \<and> find (\<lambda>v. sv_key v = (rm, k)) (scene_edits vs) =
      (case map_of vs rm of None \<Rightarrow> None | Some es \<Rightarrow> map_option (\<lambda>e. \<lparr>sv_room = rm, sv_edit = e\<rparr>) (map_of es k))"
    using assms
  proof (induction vs)
    case (Cons v vs)
    obtain r es where v: "v = (r, es)" by force
    let ?new = "map (\<lambda>(_, e). \<lparr>sv_room = r, sv_edit = e\<rparr>) es"
    have s: "scene_edits ((r, es) # vs) = ?new @ scene_edits vs" by (simp add: scene_edits_def)
    have ok: "entries_ok (\<lambda>k e. edit_key e = k) es" "entries_ok (\<lambda>_. entries_ok (\<lambda>k e. edit_key e = k)) vs"
      and r: "r \<notin> fst ` set vs"
      using Cons.prems by (auto simp: entries_ok_def v)
    have "map (\<lambda>(k, _). (r, k)) es = map (Pair r) (map fst es)" by auto
    moreover have "distinct (map (Pair r) (map fst es))"
      using ok(1) unfolding entries_ok_def by (subst distinct_map) (simp add: inj_on_def)
    ultimately have "distinct (map sv_key ?new)"
      unfolding room_scene_edits(1) [OF ok(1)] by metis
    moreover have "set (map sv_key ?new) \<inter> set (map sv_key (scene_edits vs)) = {}"
    proof -
      have "fst x = r" if "x \<in> set (map sv_key ?new)" for x using that by (auto simp: sv_key_def)
      moreover have "fst x \<noteq> r" if "x \<in> set (map sv_key (scene_edits vs))" for x
        using that scene_edits_rooms [of vs] r unfolding set_map by (metis imageI subsetD)
      ultimately show ?thesis by blast
    qed
    moreover have "map_of vs r = None" using r by (simp add: map_of_eq_None_iff)
    ultimately show ?case
      using Cons.IH [OF ok(2)] room_scene_edits(2) [OF ok(1), of rm k r]
      by (auto simp: s find_append v split: option.split)
  qed (simp add: scene_edits_def)
  then show "distinct (map sv_key (scene_edits vs))"
    "find (\<lambda>v. sv_key v = (rm, k)) (scene_edits vs) =
      (case map_of vs rm of None \<Rightarrow> None | Some es \<Rightarrow> map_option (\<lambda>e. \<lparr>sv_room = rm, sv_edit = e\<rparr>) (map_of es k))"
    by auto
qed

lemma Load_Export:
  assumes "voxels_ok w" and "\<forall>(i, r) \<in> set (w_resources w). wr_id r = i"
  shows "map_of (w_resources (LoadScene (ExportScene i w) v)) = map_of (w_resources w)"
    and "voxel_at rm k (LoadScene (ExportScene i w) v) = voxel_at rm k w"
proof -
  show "map_of (w_resources (LoadScene (ExportScene i w) v)) = map_of (w_resources w)"
    by (rule ext) (simp add: LoadScene_def ExportScene_def fold_put_voxel_fields fold_emplace find_resources [OF assms(2)])
  have e: "sc_voxel_edits (ExportScene i w) = scene_edits (w_voxels w)"
    by (simp add: ExportScene_def scene_edits_def)
  note vs = assms(1) [unfolded voxels_ok_def]
  show "voxel_at rm k (LoadScene (ExportScene i w) v) = voxel_at rm k w"
    unfolding LoadScene_def e
    by (simp add: fold_put_voxel [OF scene_edits_find(1) [OF vs]] scene_edits_find(2) [OF vs])
      (auto simp: voxel_at_def room_edits_def split: option.split)
qed

lemma Load_Export_rest:
  "0 < next_building_id w \<Longrightarrow> w_buildings (LoadScene (ExportScene i w) v) = w_buildings w \<and>
     next_building_id (LoadScene (ExportScene i w) v) = next_building_id w \<and>
     w_players (LoadScene (ExportScene i w) v) = w_players v"
  by (simp add: LoadScene_def ExportScene_def fold_put_voxel_fields)

end
