(* ===== verification/World_Rules.thy ===== *)
theory World_Rules
  imports World_Scene
begin

text \<open>
  The rules of the shared world: every operation keeps the players inside the world and the stocks
  between 0 and a bound that grows by one with each operation, gathering moves exactly one unit, and what the checks of moves and
  buildings do and do not exclude.
\<close>

subsection \<open>What every operation keeps\<close>

definition in_bound :: "fp \<Rightarrow> bool" where
  "in_bound v \<longleftrightarrow> (\<exists>a. v = FNum a \<and> - 500 \<le> a \<and> a \<le> 500)"

definition vec_ok :: "vec3 \<Rightarrow> bool" where
  "vec_ok v \<longleftrightarrow> in_bound (vx v) \<and> in_bound (vy v) \<and> in_bound (vz v)"

definition allowance_ok :: "fp \<Rightarrow> bool" where
  "allowance_ok v \<longleftrightarrow> (\<exists>a. v = FNum a \<and> 0 \<le> a \<and> a \<le> 15)"

text \<open>Every material between 0 and \<open>n\<close>, and a tool of the table of recipes.\<close>

definition stock_ok :: "int \<Rightarrow> int \<Rightarrow> int \<Rightarrow> int \<Rightarrow> int \<Rightarrow> int \<Rightarrow> bool" where
  "stock_ok n wood stone dirt copper tool \<longleftrightarrow>
     0 \<le> wood \<and> wood \<le> n \<and> 0 \<le> stone \<and> stone \<le> n \<and> 0 \<le> dirt \<and> dirt \<le> n \<and> 0 \<le> copper \<and> copper \<le> n \<and>
     0 \<le> tool \<and> tool \<le> 3"

definition player_ok :: "int \<Rightarrow> world_player \<Rightarrow> bool" where
  "player_ok n q \<longleftrightarrow> vec_ok (wp_pos q) \<and> allowance_ok (wp_allowance q) \<and>
     stock_ok n (wp_wood q) (wp_stone q) (wp_dirt q) (wp_copper q) (wp_tool q) \<and>
     0 \<le> wp_map q \<and> wp_map q \<le> 2 \<and> 0 \<le> wp_appearance q \<and> wp_appearance q \<le> 3"

definition resource_ok :: "world_resource \<Rightarrow> bool" where
  "resource_ok r \<longleftrightarrow> 0 \<le> wr_remaining r"

definition world_ok :: "int \<Rightarrow> world \<Rightarrow> bool" where
  "world_ok n w \<longleftrightarrow> entries_ok (\<lambda>i q. wp_id q = i \<and> player_ok n q) (w_players w) \<and>
     entries_ok (\<lambda>i r. wr_id r = i \<and> resource_ok r) (w_resources w) \<and> voxels_ok w"

lemma world_ok_player: "world_ok n w \<Longrightarrow> get_player p w = Some q \<Longrightarrow> wp_id q = p \<and> player_ok n q"
  by (auto simp: world_ok_def get_player_def dest: entries_okD)

text \<open>A larger bound on the stocks is a weaker one.\<close>

lemma stock_ok_mono: "stock_ok n wood stone dirt copper tool \<Longrightarrow> n \<le> m \<Longrightarrow> stock_ok m wood stone dirt copper tool"
  by (auto simp: stock_ok_def)

lemma world_ok_mono: "world_ok n w \<Longrightarrow> n \<le> m \<Longrightarrow> world_ok m w"
  by (auto simp: world_ok_def entries_ok_def player_ok_def intro: stock_ok_mono)

lemma put_player_ok: "world_ok n w \<Longrightarrow> player_ok n q \<Longrightarrow> world_ok n (put_player q w)"
  by (simp add: world_ok_def put_player_fields voxels_ok_def) (simp add: put_player_def entries_ok_update)

lemma room_edits_ok: "voxels_ok w \<Longrightarrow> entries_ok (\<lambda>k e. edit_key e = k) (room_edits rm w)"
  by (auto simp: room_edits_def voxels_ok_def dest: entries_okD split: option.split)

lemma touch_room_ok: "world_ok n w \<Longrightarrow> world_ok n (touch_room rm w)"
  by (simp add: world_ok_def touch_room_fields voxels_ok_def) (simp add: touch_room_def entries_ok_update)

lemma put_voxel_ok: "world_ok n w \<Longrightarrow> world_ok n (put_voxel rm e w)"
  using room_edits_ok [of w rm]
  by (simp add: world_ok_def put_voxel_fields voxels_ok_def)
    (simp add: put_voxel_def entries_ok_update edit_key_def)

lemma SendWorldStateTo_ok: "world_ok n w \<Longrightarrow> world_ok n (fst (SendWorldStateTo p w))"
  by (auto simp: SendWorldStateTo_def touch_room_ok split: option.split)

text \<open>A saved state that may be loaded: a position in the world and stocks that are not negative.\<close>

lemma EnterWithState_ok:
  assumes w: "world_ok n w" and "vec_ok pos" and "stock_ok n wood stone dirt copper tool"
  shows "world_ok n (fst (EnterWithState p name now pos yaw wood stone dirt copper tool w))"
proof -
  let ?old = "case get_player p w of None \<Rightarrow> new_player | Some q \<Rightarrow> q"
  have "0 \<le> wp_map ?old \<and> wp_map ?old \<le> 2 \<and> 0 \<le> wp_appearance ?old \<and> wp_appearance ?old \<le> 3"
    using world_ok_player [OF w] by (auto simp: player_ok_def new_player_def split: option.split)
  then show ?thesis
    using assms
    by (simp add: EnterWithState_def Let_def split_beta)
      (auto intro!: SendWorldStateTo_ok put_player_ok simp: player_ok_def allowance_ok_def kInitialMoveAllowance_def)
qed

lemma Leave_ok: "world_ok n w \<Longrightarrow> world_ok n (fst (Leave p w))"
  by (auto simp: Leave_def Let_def world_ok_def voxels_ok_def entries_ok_delete split: option.split)

lemma SelectRoom_ok:
  assumes w: "world_ok n w"
  shows "world_ok n (fst (snd (SelectRoom h p rm m now w)))"
proof (cases "get_player p w")
  case (Some q)
  have "\<bar>int (h p mod 5) - 2\<bar> \<le> 2 ^ precision Single" by simp
  then have x: "fp_sub Single (fp_of_int Single (int (h p mod 5))) (FNum 2) = FNum (of_int (int (h p mod 5) - 2))"
    using fp_of_real_int [of "int (h p mod 5) - 2" Single] by (simp add: fp_of_int_small fp_sub_def)
  have "0 \<le> int (h p mod 5)" "int (h p mod 5) < 5" by simp_all
  then have "in_bound (FNum (of_int (int (h p mod 5) - 2)))" by (simp add: in_bound_def)
  then show ?thesis
    using Some w world_ok_player [OF w Some]
    by (simp add: SelectRoom_def Let_def split_beta x)
      (auto intro!: SendWorldStateTo_ok put_player_ok simp: player_ok_def vec_ok_def in_bound_def
        allowance_ok_def kInitialMoveAllowance_def)
qed (simp add: SelectRoom_def w)

subsection \<open>Moves\<close>

lemma clamp_bound: "fp_eq (fp_clamp v (fp_neg kBound) kBound) v \<Longrightarrow> in_bound (fp_clamp v (fp_neg kBound) kBound)"
  by (cases v) (auto simp: fp_clamp_def kBound_def in_bound_def split: if_splits)

lemma clamp_vec_ok: "\<not> vec_differs (clamp_vec v) v \<Longrightarrow> vec_ok (clamp_vec v)"
  by (simp add: vec_differs_def vec_ok_def clamp_vec_def clamp_bound)

definition fp_nonneg :: "fp \<Rightarrow> bool" where
  "fp_nonneg v \<longleftrightarrow> v = FInf False \<or> (\<exists>a. v = FNum a \<and> 0 \<le> a)"

lemma fp_nonneg_ops:
  "0 \<le> x \<Longrightarrow> fp_nonneg (fp_of_real f x)"
  "fp_nonneg a \<Longrightarrow> fp_nonneg b \<Longrightarrow> fp_nonneg (fp_add f a b)"
  "fp_nonneg a \<Longrightarrow> 0 < c \<Longrightarrow> fp_nonneg (fp_mul f (FNum c) a)"
  "fp_nonneg a \<Longrightarrow> 0 < c \<Longrightarrow> fp_nonneg (fp_div f a c)"
proof -
  show r: "0 \<le> x \<Longrightarrow> fp_nonneg (fp_of_real f x)" for x
    using fp_of_real_nonneg [of x f] by (auto simp: fp_nonneg_def)
  show "fp_nonneg a \<Longrightarrow> fp_nonneg b \<Longrightarrow> fp_nonneg (fp_add f a b)"
    using r by (auto simp: fp_nonneg_def [of a] fp_nonneg_def [of b]) (simp_all add: fp_nonneg_def)
  show "fp_nonneg a \<Longrightarrow> 0 < c \<Longrightarrow> fp_nonneg (fp_mul f (FNum c) a)"
    using r by (auto simp: fp_nonneg_def [of a]) (simp add: fp_nonneg_def)
  show "fp_nonneg a \<Longrightarrow> 0 < c \<Longrightarrow> fp_nonneg (fp_div f a c)"
    using r by (auto simp: fp_nonneg_def [of a]) (simp add: fp_nonneg_def)
qed

lemma refill_ok: "allowance_ok (wp_allowance q) \<Longrightarrow> allowance_ok (refill now q)"
proof -
  assume a: "allowance_ok (wp_allowance q)"
  let ?r = "fp_add Single (wp_allowance q)
    (fp_div Single (fp_mul Single kMaxSpeed (fp_of_int Single (max (now - wp_last_move q) 0))) 1000)"
  have "fp_nonneg (wp_allowance q)" using a by (auto simp: allowance_ok_def fp_nonneg_def)
  then have "fp_nonneg ?r"
    by (auto simp: kMaxSpeed_def fp_of_int_def intro!: fp_nonneg_ops)
  then show ?thesis
    by (auto simp: refill_def allowance_ok_def fp_nonneg_def fp_min_def kMoveBurstAllowance_def)
qed

lemma Distance_cases: "Distance a b = FNaN \<or> fp_nonneg (Distance a b)"
proof -
  have "fp_sqrt f x = FNaN \<or> fp_nonneg (fp_sqrt f x)" for f x
    using fp_nonneg_ops(1) by (cases x) (auto simp: not_less, auto simp: fp_nonneg_def)
  then show ?thesis by (simp add: Distance_def Let_def)
qed

lemma spend_allowance_ok:
  assumes "allowance_ok a" and "\<not> fp_lt a (Distance u v)"
  shows "allowance_ok (fp_max (FNum 0) (fp_sub Single a (Distance u v)))"
proof -
  obtain x where x: "a = FNum x" "0 \<le> x" "x \<le> 15" using assms(1) by (auto simp: allowance_ok_def)
  show ?thesis
  proof (cases "Distance u v")
    case FNaN
    then show ?thesis by (simp add: fp_sub_def fp_max_def allowance_ok_def)
  next
    case (FInf s)
    then show ?thesis using Distance_cases [of u v] assms(2) x by (auto simp: fp_nonneg_def)
  next
    case (FNum d)
    then have "0 \<le> d" using Distance_cases [of u v] by (auto simp: fp_nonneg_def)
    moreover have "d \<le> x" using assms(2) FNum x by simp
    ultimately obtain y where "fp_of_real Single (x - d) = FNum y" "0 \<le> y" "y \<le> 15"
      using fp_of_real_bounds [of 0 "x - d" 15 Single] x by auto
    then show ?thesis using FNum x by (auto simp: fp_sub_def fp_max_def allowance_ok_def)
  qed
qed

lemma BroadcastPose_eq:
  "get_player (wp_id p) w = Some p \<Longrightarrow>
     fst (BroadcastPose p now force w) =
       (if \<not> force \<and> now - wp_last_broadcast p < kMinBroadcastIntervalMs then w
        else put_player (p\<lparr>wp_last_broadcast := now\<rparr>) w)"
  by (simp add: BroadcastPose_def)

lemma TryMove_ok:
  assumes w: "world_ok n w"
  shows "world_ok n (fst (snd (TryMove p pos yaw now app w)))"
proof (cases "get_player p w")
  case (Some q)
  note q = world_ok_player [OF w Some]
  define q1 where "q1 = q\<lparr>wp_allowance := refill now q, wp_last_move := now\<rparr>"
  define q2 where "q2 = q1\<lparr>wp_allowance := fp_max (FNum 0) (fp_sub Single (refill now q) (Distance (clamp_vec pos) (wp_pos q))),
    wp_pos := clamp_vec pos, wp_yaw := yaw, wp_appearance := max 0 (min 3 app)\<rparr>"
  have q1: "player_ok n q1" using q refill_ok [of q now] by (simp add: q1_def player_ok_def)
  show ?thesis
  proof (cases "vec_differs (clamp_vec pos) pos \<or> fp_lt (refill now q) (Distance (clamp_vec pos) (wp_pos q))")
    case True
    then show ?thesis using put_player_ok [OF w q1] Some by (simp add: TryMove_def Let_def q1_def)
  next
    case False
    have "player_ok n q2"
      using q1 False clamp_vec_ok [of pos] q refill_ok [of q now]
        spend_allowance_ok [of "refill now q" "clamp_vec pos" "wp_pos q"]
      by (auto simp: q2_def player_ok_def)
    then have "world_ok n (put_player (q2\<lparr>wp_last_broadcast := m\<rparr>) (put_player q2 w)) \<and> world_ok n (put_player q2 w)" for m
      using w by (auto intro!: put_player_ok simp: player_ok_def)
    then have "world_ok n (fst (BroadcastPose q2 now False (put_player q2 w)))"
      by (simp add: BroadcastPose_eq get_put)
    then show ?thesis using False Some by (simp add: TryMove_def Let_def split_beta q1_def q2_def)
  qed
qed (simp add: TryMove_def w)

subsection \<open>The economy\<close>

lemma put_stock_ok:
  "world_ok n w \<Longrightarrow> get_player p w = Some q \<Longrightarrow> stock_ok n wood stone (wp_dirt q) copper tool \<Longrightarrow>
     world_ok n (put_player (q\<lparr>wp_wood := wood, wp_stone := stone, wp_copper := copper, wp_tool := tool\<rparr>) w)"
  using world_ok_player [of n w p q] by (auto intro!: put_player_ok simp: player_ok_def)

lemma world_ok_stock: "world_ok n w \<Longrightarrow> get_player p w = Some q \<Longrightarrow>
    stock_ok n (wp_wood q) (wp_stone q) (wp_dirt q) (wp_copper q) (wp_tool q)"
  using world_ok_player [of n w p q] by (simp add: player_ok_def)

lemma set_resources_ok:
  "world_ok n w \<Longrightarrow> entries_ok (\<lambda>i r. wr_id r = i \<and> resource_ok r) rs \<Longrightarrow> world_ok n (w\<lparr>w_resources := rs\<rparr>)"
  by (simp add: world_ok_def voxels_ok_def)

lemma set_buildings_ok: "world_ok n (w\<lparr>next_building_id := i, w_buildings := bs\<rparr>) = world_ok n w"
  by (simp add: world_ok_def voxels_ok_def)

text \<open>The cases of a gathering, and what a success does.\<close>

definition gathers :: "string \<Rightarrow> string \<Rightarrow> world \<Rightarrow> bool" where
  "gathers p rid w \<longleftrightarrow> (\<exists>q r. get_player p w = Some q \<and> map_of (w_resources w) rid = Some r \<and>
     0 < wr_remaining r \<and> \<not> fp_lt kInteractDistance (Distance (wp_pos q) (wr_pos r)))"

lemma TryGather_fails: "\<not> gathers p rid w \<Longrightarrow> \<not> ga_success (fst (TryGather p rid w)) \<and> snd (TryGather p rid w) = (w, [])"
  by (auto simp: TryGather_def gathers_def Let_def split: option.split)

lemma TryGather_succeeds:
  assumes "get_player p w = Some q" and "map_of (w_resources w) rid = Some r"
    and "0 < wr_remaining r" and "\<not> fp_lt kInteractDistance (Distance (wp_pos q) (wr_pos r))"
  shows "ga_success (fst (TryGather p rid w))"
    and "fst (snd (TryGather p rid w)) =
      (put_player (q\<lparr>wp_wood := (if wr_type r = RESOURCE_WOOD then inc32 (wp_wood q) else wp_wood q),
         wp_stone := (if wr_type r = RESOURCE_STONE then inc32 (wp_stone q) else wp_stone q)\<rparr>) w)
        \<lparr>w_resources := AList.update rid (r\<lparr>wr_remaining := wr_remaining r - 1\<rparr>) (w_resources w)\<rparr>"
  using assms by (simp_all add: TryGather_def Let_def)

lemma gathersE:
  assumes "gathers p rid w"
  obtains q r where "get_player p w = Some q" "map_of (w_resources w) rid = Some r"
    "0 < wr_remaining r" "\<not> fp_lt kInteractDistance (Distance (wp_pos q) (wr_pos r))"
  using assms by (auto simp: gathers_def)

lemma TryGather_ok:
  assumes v: "world_ok n w" and n: "n < 2 ^ 31 - 1"
  shows "world_ok (n + 1) (fst (snd (TryGather p rid w)))"
proof -
  have w: "world_ok (n + 1) w" using v by (rule world_ok_mono) simp
  show ?thesis
  proof (cases "gathers p rid w")
    case True
    then obtain q r where g: "get_player p w = Some q" "map_of (w_resources w) rid = Some r"
      "0 < wr_remaining r" "\<not> fp_lt kInteractDistance (Distance (wp_pos q) (wr_pos r))" by (rule gathersE)
    have rs: "entries_ok (\<lambda>i r. wr_id r = i \<and> resource_ok r) (w_resources w)" using w by (simp add: world_ok_def)
    have "wr_id r = rid" using entries_okD [OF rs g(2)] by simp
    then have r: "entries_ok (\<lambda>i r. wr_id r = i \<and> resource_ok r)
        (AList.update rid (r\<lparr>wr_remaining := wr_remaining r - 1\<rparr>) (w_resources w))"
      using g(3) by (intro entries_ok_update [OF rs]) (simp add: resource_ok_def)
    note st = world_ok_stock [OF v g(1)]
    have "world_ok (n + 1) (put_player (q\<lparr>wp_wood := a, wp_stone := b\<rparr>) w)"
      if "a = wp_wood q \<or> a = inc32 (wp_wood q)" "b = wp_stone q \<or> b = inc32 (wp_stone q)" for a b
      using put_stock_ok [OF w g(1), of a b "wp_copper q" "wp_tool q"] st n that
      by (auto simp: stock_ok_def inc32_small)
    then show ?thesis unfolding TryGather_succeeds(2) [OF g] by (intro set_resources_ok [OF _ r]) auto
  qed (simp add: TryGather_fails w)
qed

lemma TryPlaceBuilding_ok:
  assumes w: "world_ok n w"
  shows "world_ok n (fst (snd (TryPlaceBuilding p t pos yaw w)))"
proof (cases "get_player p w")
  case (Some q)
  have "world_ok n (put_player (q\<lparr>wp_wood := wp_wood q - a, wp_stone := wp_stone q - b\<rparr>) w)"
    if "\<not> (wp_wood q < a \<or> wp_stone q < b)" "building_cost t = Some (a, b)" for a b
    using put_stock_ok [OF w Some, of "wp_wood q - a" "wp_stone q - b" "wp_copper q" "wp_tool q"]
      world_ok_stock [OF w Some] that by (auto simp: stock_ok_def building_cost_def split: if_splits)
  then show ?thesis using Some w
    by (simp add: TryPlaceBuilding_def Let_def set_buildings_ok split: option.split prod.split)
qed (simp add: TryPlaceBuilding_def w)

lemma TryCraft_ok:
  assumes w: "world_ok n w"
  shows "world_ok n (snd (TryCraft p i w))"
proof (cases "get_player p w")
  case (Some q)
  have "world_ok n (put_player (q\<lparr>wp_wood := wp_wood q - a, wp_stone := wp_stone q - b, wp_copper := wp_copper q - c, wp_tool := i\<rparr>) w)"
    if "\<not> (wp_wood q < a \<or> wp_stone q < b \<or> wp_copper q < c)" "recipe_cost i = Some (a, b, c, l)" for a b c l
    using put_stock_ok [OF w Some, of "wp_wood q - a" "wp_stone q - b" "wp_copper q - c" i]
      world_ok_stock [OF w Some] that by (auto simp: stock_ok_def recipe_cost_def split: if_splits)
  then show ?thesis using Some w by (simp add: TryCraft_def Let_def split: option.split prod.split)
qed (simp add: TryCraft_def w)

lemma collect_block_ok: "player_ok n q \<Longrightarrow> n < 2 ^ 31 - 1 \<Longrightarrow> player_ok (n + 1) (collect_block t q)"
  by (auto simp: collect_block_def player_ok_def stock_ok_def inc32_small)

lemma spend_block_ok: "spend_block t q = Inr q' \<Longrightarrow> player_ok n q \<Longrightarrow> player_ok n q'"
  by (auto simp: spend_block_def player_ok_def stock_ok_def split: if_splits)

lemma ApplyVoxelEdit_ok:
  assumes v: "world_ok n w" and n: "n < 2 ^ 31 - 1"
  shows "world_ok (n + 1) (fst (snd (ApplyVoxelEdit p x y z a t w)))"
proof -
  have w: "world_ok (n + 1) w" using v by (rule world_ok_mono) simp
  show ?thesis
  proof (cases "get_player p w")
    case (Some q)
    have "player_ok n q" "player_ok (n + 1) q" using world_ok_player [OF v Some] world_ok_player [OF w Some] by simp_all
    then show ?thesis using Some w n
      by (auto simp: ApplyVoxelEdit_def Let_def put_voxel_ok touch_room_ok
          intro!: put_voxel_ok put_player_ok collect_block_ok touch_room_ok intro: spend_block_ok split: sum.split)
  qed (simp add: ApplyVoxelEdit_def w)
qed

subsection \<open>Entering at a spawn point\<close>

lemma fp_int_times_two: "2 * k \<le> 1000 \<Longrightarrow> fp_mul Single (fp_of_int Single (int k)) (FNum 2) = FNum (of_int (2 * int k))"
proof -
  assume k: "2 * k \<le> 1000"
  then have "\<bar>int k * 2\<bar> \<le> 2 ^ precision Single" by simp
  then show ?thesis using k fp_of_real_int [of "int k * 2" Single] by (simp add: fp_of_int_small mult.commute)
qed

text \<open>The spawn points are a grid of four columns whose rows leave the world after 1004 players.\<close>

lemma Enter_new:
  assumes "get_player p w = None" and "length (w_players w) < 2000"
  shows "Enter p name now w =
    EnterWithState p name now
      \<lparr>vx = FNum (of_nat (2 * (length (w_players w) mod 4))), vy = FNum 0,
       vz = FNum (of_nat (2 * (length (w_players w) div 4)))\<rparr> (FNum 0) 6 3 12 0 0 w"
proof -
  have "2 * (length (w_players w) mod 4) \<le> 1000" "2 * (length (w_players w) div 4) \<le> 1000"
    using assms(2) by auto
  then show ?thesis using assms(1) by (simp add: Enter_def Let_def fp_int_times_two)
qed

lemma Enter_ok:
  assumes w: "world_ok n w" and n: "12 \<le> n" and p: "get_player p w \<noteq> None \<or> length (w_players w) < 1004"
  shows "world_ok n (fst (Enter p name now w))"
proof (cases "get_player p w")
  case None
  then have l: "length (w_players w) < 1004" using p by simp
  then have "length (w_players w) div 4 \<le> 250" by auto
  then have "vec_ok \<lparr>vx = FNum (of_nat (2 * (length (w_players w) mod 4))), vy = FNum 0,
       vz = FNum (of_nat (2 * (length (w_players w) div 4)))\<rparr>"
    by (auto simp: vec_ok_def in_bound_def)
  then show ?thesis
    using n l by (subst Enter_new [OF None]) (auto intro!: EnterWithState_ok [OF w] simp: stock_ok_def)
next
  case (Some q)
  then show ?thesis using world_ok_player [OF w Some]
    by (auto simp: Enter_def player_ok_def intro!: EnterWithState_ok [OF w])
qed

lemma Enter_outside:
  assumes "get_player p w = None" and "length (w_players w) = 1004"
  obtains q where "get_player p (fst (Enter p name now w)) = Some q" "\<not> vec_ok (wp_pos q)"
  using assms by (simp add: Enter_new EnterWithState_def Let_def split_beta SendWorldStateTo_def get_put touch_room_fields
      vec_ok_def in_bound_def)

subsection \<open>Runs of the world\<close>

lemma emplace_all_ok:
  "entries_ok (\<lambda>i r. wr_id r = i \<and> resource_ok r) xs \<Longrightarrow> list_all resource_ok rs \<Longrightarrow>
     entries_ok (\<lambda>i r. wr_id r = i \<and> resource_ok r) (fold (\<lambda>r. emplace (wr_id r) r) rs xs)"
proof (induction rs arbitrary: xs)
  case (Cons r rs)
  then have "entries_ok (\<lambda>i r. wr_id r = i \<and> resource_ok r) (emplace (wr_id r) r xs)"
    by (auto simp: emplace_def intro: entries_ok_update)
  with Cons show ?case by simp
qed simp

lemma SeedDefaultScene_ok: "world_ok n w \<Longrightarrow> world_ok n (SeedDefaultScene w)"
proof -
  have "list_all resource_ok seeded" by (simp add: seeded_def seed_resource_def resource_ok_def)
  then show "world_ok n w \<Longrightarrow> world_ok n (SeedDefaultScene w)"
    by (simp add: SeedDefaultScene_def world_ok_def voxels_ok_def emplace_all_ok)
qed

lemma LoadScene_ok:
  assumes "world_ok n w" and "list_all resource_ok (sc_resources sc)"
  shows "world_ok n (LoadScene sc w)"
proof -
  have f: "world_ok n (fold (\<lambda>v. put_voxel (sv_room v) (sv_edit v)) vs u)" if "world_ok n u" for vs u
    using that by (induction vs arbitrary: u) (simp_all add: put_voxel_ok)
  show ?thesis
    using assms unfolding LoadScene_def by (intro f) (simp add: world_ok_def voxels_ok_def emplace_all_ok)
qed

text \<open>
  Everything the world offers to its caller. \<open>M\<close> bounds the stocks a player may enter with, which an
  earlier session saved.
\<close>

inductive world_step :: "int \<Rightarrow> world \<Rightarrow> world \<Rightarrow> bool" for M where
  world_seed: "world_step M w (SeedDefaultScene w)"
| world_load: "list_all resource_ok (sc_resources sc) \<Longrightarrow> world_step M w (LoadScene sc w)"
| world_spawn: "get_player p w \<noteq> None \<or> length (w_players w) < 1004 \<Longrightarrow> world_step M w (fst (Enter p name now w))"
| world_enter: "vec_ok pos \<Longrightarrow> stock_ok M wood stone dirt copper tool \<Longrightarrow>
    world_step M w (fst (EnterWithState p name now pos yaw wood stone dirt copper tool w))"
| world_leave: "world_step M w (fst (Leave p w))"
| world_select: "world_step M w (fst (snd (SelectRoom h p rm m now w)))"
| world_move: "world_step M w (fst (snd (TryMove p pos yaw now app w)))"
| world_gather: "world_step M w (fst (snd (TryGather p rid w)))"
| world_build: "world_step M w (fst (snd (TryPlaceBuilding p t pos yaw w)))"
| world_craft: "world_step M w (snd (TryCraft p i w))"
| world_voxel: "world_step M w (fst (snd (ApplyVoxelEdit p x y z a t w)))"

text \<open>One step adds at most one unit to a stock.\<close>

lemma world_step_ok:
  assumes "world_step M w w'" and w: "world_ok n w" and "12 \<le> n" and "M \<le> n" and n: "n < 2 ^ 31 - 1"
  shows "world_ok (n + 1) w'"
proof -
  have le: "n \<le> n + 1" by simp
  note up = world_ok_mono [OF _ le]
  from assms(1) show ?thesis
    by cases (use assms in \<open>auto intro!: TryGather_ok [OF w n] ApplyVoxelEdit_ok [OF w n] up SeedDefaultScene_ok
        LoadScene_ok Enter_ok EnterWithState_ok Leave_ok SelectRoom_ok TryMove_ok TryPlaceBuilding_ok TryCraft_ok
        intro: stock_ok_mono\<close>)
qed

text \<open>A run with its length, from the world the constructor makes.\<close>

inductive counted_step :: "int \<Rightarrow> nat \<times> world \<Rightarrow> nat \<times> world \<Rightarrow> bool" for M where
  "world_step M w w' \<Longrightarrow> counted_step M (k, w) (Suc k, w')"

lemma counted_run: "(world_step M ^^ k) w w' \<Longrightarrow> (counted_step M)\<^sup>*\<^sup>* (0, w) (k, w')"
  by (induction k arbitrary: w') (auto intro: counted_step.intros rtranclp.rtrancl_into_rtrancl)

definition counted_ok :: "int \<Rightarrow> nat \<times> world \<Rightarrow> bool" where
  "counted_ok M s \<longleftrightarrow> (12 \<le> M \<and> M + int (fst s) < 2 ^ 31 \<longrightarrow> world_ok (M + int (fst s)) (snd s))"

lemma new_world_ok: "world_ok n new_world"
  by (simp add: world_ok_def new_world_def voxels_ok_def)

interpretation world_run: step_invariant "\<lambda>s. s = (0, new_world)" "counted_step M" "counted_ok M" for M
proof unfold_locales
  show "s = (0, new_world) \<Longrightarrow> counted_ok M s" for s by (simp add: counted_ok_def new_world_ok)
  show "counted_step M s t \<Longrightarrow> counted_ok M s \<Longrightarrow> counted_ok M t" for s t
    using world_step_ok [of M "snd s" "snd t" "M + int (fst s)"]
    by (auto simp: counted_ok_def algebra_simps elim!: counted_step.cases)
qed

lemma world_run_ok:
  assumes "(world_step M ^^ k) new_world w" and "12 \<le> M" and "M + int k < 2 ^ 31"
  shows "world_ok (M + int k) w"
  using world_run.reachable_inv [OF refl counted_run [OF assms(1)]] assms(2,3) by (simp add: counted_ok_def)

subsection \<open>Material\<close>

definition wood_total :: "world \<Rightarrow> int" where
  "wood_total w = sum_list (map (\<lambda>(_, r). if wr_type r = RESOURCE_WOOD then wr_remaining r else 0) (w_resources w)) +
     sum_list (map (\<lambda>(_, q). wp_wood q) (w_players w))"

definition stone_total :: "world \<Rightarrow> int" where
  "stone_total w = sum_list (map (\<lambda>(_, r). if wr_type r = RESOURCE_STONE then wr_remaining r else 0) (w_resources w)) +
     sum_list (map (\<lambda>(_, q). wp_stone q) (w_players w))"

text \<open>The player and the resource of a gathering before and after it.\<close>

definition gathered :: "world_player \<Rightarrow> world_resource \<Rightarrow> world_player \<times> world_resource" where
  "gathered q r =
     (q\<lparr>wp_wood := wp_wood q + (if wr_type r = RESOURCE_WOOD then 1 else 0),
        wp_stone := wp_stone q + (if wr_type r = RESOURCE_STONE then 1 else 0)\<rparr>,
      r\<lparr>wr_remaining := wr_remaining r - 1\<rparr>)"

lemma TryGather_gathered:
  assumes w: "world_ok n w" and g: "get_player p w = Some q" "map_of (w_resources w) rid = Some r"
    "0 < wr_remaining r" "\<not> fp_lt kInteractDistance (Distance (wp_pos q) (wr_pos r))"
    and "wp_wood q < 2 ^ 31 - 1" and "wp_stone q < 2 ^ 31 - 1" and "(q', r') = gathered q r"
  shows "TryGather p rid w =
    (\<lparr>ga_success = True, ga_error = NoError, ga_resource = r', ga_wood = wp_wood q', ga_stone = wp_stone q'\<rparr>,
     (put_player q' w)\<lparr>w_resources := AList.update rid r' (w_resources w)\<rparr>,
     map (\<lambda>(i, _). (i, ResourceChangedNtf r')) (w_players w))"
proof -
  have "wp_id q = p" using world_ok_player [OF w g(1)] by simp
  then have "map fst (w_players (put_player q' w)) = map fst (w_players w)"
    using g(1) assms(8) by (simp add: put_player_def get_player_def gathered_def update_keys map_of_eq_Some_iff
        domIff dom_map_of_conv_image_fst [symmetric])
  then have "map (\<lambda>(i, _). (i, ResourceChangedNtf r')) (w_players (put_player q' w)) =
      map (\<lambda>(i, _). (i, ResourceChangedNtf r')) (w_players w)"
    by (simp add: split_def map_map [symmetric, of "\<lambda>i. (i, ResourceChangedNtf r')" fst, unfolded comp_def] del: map_map)
  moreover have "q\<lparr>wp_wood := (if wr_type r = RESOURCE_WOOD then inc32 (wp_wood q) else wp_wood q),
      wp_stone := (if wr_type r = RESOURCE_STONE then inc32 (wp_stone q) else wp_stone q)\<rparr> = q'"
    "r\<lparr>wr_remaining := wr_remaining r - 1\<rparr> = r'"
    using assms(6-8) by (simp_all add: gathered_def inc32_small)
  ultimately show ?thesis
    using g by (simp add: TryGather_def Let_def BroadcastResource_def)
qed

lemma gathered_totals:
  assumes w: "world_ok n w" and g: "get_player p w = Some q" "map_of (w_resources w) rid = Some r"
    and new: "(q', r') = gathered q r"
  shows "wood_total ((put_player q' w)\<lparr>w_resources := AList.update rid r' (w_resources w)\<rparr>) = wood_total w"
    and "stone_total ((put_player q' w)\<lparr>w_resources := AList.update rid r' (w_resources w)\<rparr>) = stone_total w"
proof -
  have d: "distinct (map fst (w_resources w))" "distinct (map fst (w_players w))"
    using w by (simp_all add: world_ok_def entries_ok_def)
  have p: "map_of (w_players w) (wp_id q) = Some q"
    using world_ok_player [OF w g(1)] g(1) by (simp add: get_player_def)
  show "wood_total ((put_player q' w)\<lparr>w_resources := AList.update rid r' (w_resources w)\<rparr>) = wood_total w"
    "stone_total ((put_player q' w)\<lparr>w_resources := AList.update rid r' (w_resources w)\<rparr>) = stone_total w"
    using new by (simp_all add: gathered_def wood_total_def stone_total_def put_player_def
        sum_alist_update [OF d(1) g(2)] sum_alist_update [OF d(2) p] RESOURCE_WOOD_def RESOURCE_STONE_def)
qed

text \<open>
  Nothing limits a stock: one at the largest value of its type overflows, which the model shows as a
  negative stock. A saved state can hold such a stock; without one it takes \<open>2 ^ 31\<close> steps.
\<close>

lemma gather_overflows:
  assumes "get_player p w = Some q" and "map_of (w_resources w) rid = Some r"
    and "0 < wr_remaining r" and "\<not> fp_lt kInteractDistance (Distance (wp_pos q) (wr_pos r))"
    and "wr_type r = RESOURCE_WOOD" and "wp_wood q = 2 ^ 31 - 1"
  shows "ga_wood (fst (TryGather p rid w)) = - (2 ^ 31)"
  using assms by (simp add: TryGather_def Let_def inc32_def)

lemma Distance_nan: "vx b = FNaN \<Longrightarrow> Distance a b = FNaN" "vx a = FNaN \<Longrightarrow> Distance a b = FNaN"
proof -
  have s: "fp_sub f a FNaN = FNaN" "fp_sub f FNaN a = FNaN" "fp_mul f FNaN a = FNaN" "fp_add f FNaN a = FNaN" for f a
    by (cases a; simp add: fp_sub_def)+
  show "vx b = FNaN \<Longrightarrow> Distance a b = FNaN" "vx a = FNaN \<Longrightarrow> Distance a b = FNaN"
    by (simp_all add: Distance_def Let_def s)
qed

lemma Distance_self: "vec_ok v \<Longrightarrow> Distance v v = FNum 0"
  by (auto simp: vec_ok_def in_bound_def Distance_def Let_def fp_sub_def)

subsection \<open>Properties\<close>

text \<open>
  C31. Whatever a world is asked to do, in any order, from its construction on: seeding or loading a
  scene, entering with a saved state or at a spawn point, leaving, choosing a room, moving, gathering,
  building, crafting and editing blocks. After \<open>k\<close> of these operations every player stands inside the
  world at a finite position, has between 0 and 15 units of movement allowance and a tool level between
  0 and 3, every stock is between 0 and \<open>M + k\<close>, and no resource is below zero. Saved positions must be
  in the world, saved stocks and scenes not negative and the stocks at most \<open>M\<close>; the spawn points are
  used while there are fewer than 1004 players, and \<open>M + k\<close> stays below \<open>2 ^ 31\<close>, where the counters of
  the program end.
\<close>

theorem world_stays_legal:
  assumes "(world_step M ^^ k) new_world w" and "12 \<le> M" and "M + int k < 2 ^ 31"
  shows "(\<forall>p q. get_player p w = Some q \<longrightarrow>
      vec_ok (wp_pos q) \<and> allowance_ok (wp_allowance q) \<and>
      stock_ok (M + int k) (wp_wood q) (wp_stone q) (wp_dirt q) (wp_copper q) (wp_tool q)) \<and>
    (\<forall>rid r. map_of (w_resources w) rid = Some r \<longrightarrow> 0 \<le> wr_remaining r)"
proof -
  note w = world_run_ok [OF assms]
  have "entries_ok (\<lambda>i r. wr_id r = i \<and> resource_ok r) (w_resources w)" using w by (simp add: world_ok_def)
  then show ?thesis
    using world_ok_player [OF w] by (auto simp: player_ok_def resource_ok_def dest: entries_okD)
qed

text \<open>A player in the default scene, for the witnesses.\<close>

definition demo_world_at :: "vec3 \<Rightarrow> world" where
  "demo_world_at v = fst (EnterWithState ''ann'' ''Ann'' 0 v (FNum 0) 6 3 12 0 0 (SeedDefaultScene new_world))"

definition demo_world :: world where
  "demo_world = demo_world_at zero_vec"

lemma demo_world_run: "vec_ok v \<Longrightarrow> (world_step 12 ^^ 2) new_world (demo_world_at v)"
  unfolding demo_world_at_def numeral_2_eq_2
  by (auto intro!: relcomppI [of "world_step 12"] world_seed world_enter simp: stock_ok_def)

lemma demo_world_at_ok: "vec_ok v \<Longrightarrow> world_ok 14 (demo_world_at v)"
  using world_run_ok [OF demo_world_run] by simp

lemma zero_vec_ok: "vec_ok zero_vec"
  by (simp add: vec_ok_def in_bound_def zero_vec_def)

lemmas demo_world_ok = demo_world_at_ok [OF zero_vec_ok, folded demo_world_def]

lemma demo_world_at_fields:
  "w_players (demo_world_at v) = [(''ann'', new_player\<lparr>wp_id := ''ann'', wp_name := ''Ann'', wp_pos := v, wp_last_broadcast := - 50\<rparr>)]"
  "w_resources (demo_world_at v) = map (\<lambda>r. (wr_id r, r)) seeded"
  "w_buildings (demo_world_at v) = []" "next_building_id (demo_world_at v) = 1"
  by (simp_all add: demo_world_at_def EnterWithState_def Let_def SendWorldStateTo_def get_put touch_room_fields
      put_player_fields split_beta)
    (simp_all add: put_player_def SeedDefaultScene_def new_world_def get_player_def new_player_def
      kMinBroadcastIntervalMs_def seeded_def seed_resource_def emplace_def)

lemma demo_player_at:
  "get_player ''ann'' (demo_world_at v) =
     Some (new_player\<lparr>wp_id := ''ann'', wp_name := ''Ann'', wp_pos := v, wp_last_broadcast := - 50\<rparr>)"
  by (simp add: get_player_def demo_world_at_fields)

lemmas demo_world_fields = demo_world_at_fields [of zero_vec, folded demo_world_def]
lemmas demo_player = demo_player_at [of zero_vec, folded demo_world_def]

theorem world_stays_legal_witness:
  "let w = snd (TryCraft ''ann'' 1 demo_world)
   in \<exists>q. get_player ''ann'' w = Some q \<and> vec_ok (wp_pos q) \<and> 0 \<le> wp_wood q \<and> wp_wood q \<le> 15 \<and> wp_tool q = 1"
proof -
  have "world_step 12 demo_world (snd (TryCraft ''ann'' 1 demo_world))" by (rule world_craft)
  with demo_world_run [OF zero_vec_ok, folded demo_world_def]
  have "(world_step 12 ^^ 3) new_world (snd (TryCraft ''ann'' 1 demo_world))"
    by (auto simp: eval_nat_numeral intro: relcomppI)
  from world_stays_legal [OF this] show ?thesis
    by (simp add: TryCraft_def demo_player recipe_cost_def new_player_def get_put stock_ok_def Let_def vec_ok_def
        in_bound_def zero_vec_def)
qed

text \<open>
  C32. Gathering moves exactly one unit. It succeeds exactly when the player and the resource exist,
  something is left and the resource is within reach. Then the resource has one unit less and the
  stock of its kind of this player one more; every other field of both, every other player and
  resource, the buildings and the block edits are as before, the result and the message, sent once to
  every player, report the new amounts, and the totals of wood and stone over all resources and
  players are unchanged. Otherwise nothing changes, nobody is told and the error is the first check
  that failed. The player's stocks are below the largest value of their type.
\<close>

theorem gather_conserves_material:
  assumes "world_ok (2 ^ 31 - 1) w"
    and "\<forall>q. get_player p w = Some q \<longrightarrow> wp_wood q < 2 ^ 31 - 1 \<and> wp_stone q < 2 ^ 31 - 1"
  shows "let (res, w', out) = TryGather p rid w in
    (ga_success res \<longleftrightarrow> gathers p rid w) \<and> wood_total w' = wood_total w \<and> stone_total w' = stone_total w \<and>
    (if gathers p rid w
     then \<exists>q r q' r'. get_player p w = Some q \<and> map_of (w_resources w) rid = Some r \<and>
       q' = q\<lparr>wp_wood := wp_wood q + (if wr_type r = RESOURCE_WOOD then 1 else 0),
          wp_stone := wp_stone q + (if wr_type r = RESOURCE_STONE then 1 else 0)\<rparr> \<and>
       r' = r\<lparr>wr_remaining := wr_remaining r - 1\<rparr> \<and>
       (\<forall>i. get_player i w' = (if i = p then Some q' else get_player i w)) \<and>
       (\<forall>i. map_of (w_resources w') i = (if i = rid then Some r' else map_of (w_resources w) i)) \<and>
       w_buildings w' = w_buildings w \<and> next_building_id w' = next_building_id w \<and> w_voxels w' = w_voxels w \<and>
       ga_error res = NoError \<and> ga_resource res = r' \<and> ga_wood res = wp_wood q' \<and> ga_stone res = wp_stone q' \<and>
       out = map (\<lambda>i. (i, ResourceChangedNtf r')) (map fst (w_players w))
     else w' = w \<and> out = [] \<and>
       ga_error res =
         (if get_player p w = None then NotInWorld else if map_of (w_resources w) rid = None then ResourceNotFound
          else if wr_remaining (the (map_of (w_resources w) rid)) \<le> 0 then ResourceDepleted else ResourceTooFar))"
proof (cases "gathers p rid w")
  case True
  obtain q r where g: "get_player p w = Some q" "map_of (w_resources w) rid = Some r"
    "0 < wr_remaining r" "\<not> fp_lt kInteractDistance (Distance (wp_pos q) (wr_pos r))" using True by (rule gathersE)
  obtain q' r' where new: "(q', r') = gathered q r" by (metis surj_pair)
  have id: "wp_id q = p" using world_ok_player [OF assms(1) g(1)] by simp
  have st: "wp_wood q < 2 ^ 31 - 1" "wp_stone q < 2 ^ 31 - 1" using assms(2) g(1) by auto
  show ?thesis
    using True new g gathered_totals [OF assms(1) g(1,2) new]
    by (simp add: TryGather_gathered [OF assms(1) g st new] id get_player_def put_player_def update_conv' fun_upd_apply
        gathered_def split_def comp_def)
next
  case False
  then show ?thesis by (auto simp: TryGather_def gathers_def Let_def split: option.split)
qed

theorem gather_conserves_material_witness:
  "let w = demo_world_at \<lparr>vx = FNum (- 6), vy = FNum 0, vz = FNum (- 5)\<rparr>; (res, w', out) = TryGather ''ann'' ''tree_1'' w
   in ga_success res \<and> ga_wood res = 7 \<and> ga_stone res = 3 \<and> wr_remaining (ga_resource res) = 5 \<and>
     map_option wp_wood (get_player ''ann'' w') = Some 7 \<and>
     map_option wr_remaining (map_of (w_resources w') ''tree_1'') = Some 5 \<and>
     map_option wr_remaining (map_of (w_resources w') ''tree_2'') = Some 6 \<and>
     wood_total w' = 30 \<and> map fst out = [''ann'']"
proof -
  let ?v = "\<lparr>vx = FNum (- 6), vy = FNum 0, vz = FNum (- 5)\<rparr>"
  let ?w = "demo_world_at ?v"
  have v: "vec_ok ?v" by (simp add: vec_ok_def in_bound_def)
  have w: "world_ok (2 ^ 31 - 1) ?w" by (rule world_ok_mono [OF demo_world_at_ok [OF v]]) simp
  have tree: "map_of (w_resources ?w) ''tree_1'' = Some (seed_resource ''tree_1'' RESOURCE_WOOD (- 6) (- 5) 6)"
    by (simp add: demo_world_at_fields seeded_def seed_resource_def)
  have g: "gathers ''ann'' ''tree_1'' ?w"
    by (simp add: gathers_def demo_player_at tree seed_resource_def Distance_self [OF v] kInteractDistance_def)
  have total: "wood_total ?w = 30"
    by (simp add: wood_total_def demo_world_at_fields seeded_def seed_resource_def RESOURCE_WOOD_def
        RESOURCE_STONE_def new_player_def)
  have two: "map_of (w_resources ?w) ''tree_2'' = Some (seed_resource ''tree_2'' RESOURCE_WOOD 7 (- 4) 6)"
    by (simp add: demo_world_at_fields seeded_def seed_resource_def)
  have "\<forall>q. get_player ''ann'' ?w = Some q \<longrightarrow> wp_wood q < 2 ^ 31 - 1 \<and> wp_stone q < 2 ^ 31 - 1"
    by (simp add: demo_player_at new_player_def)
  from gather_conserves_material [OF w this, of "''tree_1''"] g tree two total show ?thesis
    by (cases "TryGather ''ann'' ''tree_1'' ?w")
      (auto simp: demo_player_at new_player_def seed_resource_def RESOURCE_WOOD_def RESOURCE_STONE_def
        demo_world_at_fields)
qed

text \<open>
  A building request whose x coordinate is NaN passes the reach and the occupation check, whose
  comparisons with NaN are false: the building is placed, at no position, however far away the
  player stands and whatever is already built, and it can be repeated while the material lasts.
\<close>

lemma nan_building_accepted:
  assumes "get_player p w = Some q" and "building_cost t = Some (a, b)" and "a \<le> wp_wood q" and "b \<le> wp_stone q"
    and "vx pos = FNaN"
  shows "let (res, w', out) = TryPlaceBuilding p t pos yaw w in
    bu_success res \<and> w_buildings w' = w_buildings w @ [bu_building res] \<and> vx (wb_pos (bu_building res)) = FNaN"
proof -
  have d: "Distance u \<lparr>vx = FNaN, vy = y, vz = z\<rparr> = FNaN" for u y z by (simp add: Distance_nan)
  show ?thesis
    using assms by (simp add: TryPlaceBuilding_def Let_def occupied_def d list_ex_iff)
qed

lemma nan_building_accepted_witness:
  "let (res, w', out) = TryPlaceBuilding ''ann'' BUILDING_WALL \<lparr>vx = FNaN, vy = FNum 0, vz = FNum 400\<rparr> (FNum 0) demo_world
   in bu_success res \<and> length (w_buildings w') = 1"
proof -
  have "building_cost BUILDING_WALL = Some (3, 0)"
    by (simp add: building_cost_def BUILDING_WALL_def BUILDING_FLOOR_def)
  from nan_building_accepted [OF demo_player this, of "\<lparr>vx = FNaN, vy = FNum 0, vz = FNum 400\<rparr>" "FNum 0"] show ?thesis
    by (auto simp: new_player_def demo_world_fields Let_def)
qed

subsection \<open>Blocks\<close>

definition within_block_reach :: "int \<Rightarrow> int \<Rightarrow> int \<Rightarrow> world_player \<Rightarrow> bool" where
  "within_block_reach x y z q \<longleftrightarrow> \<not> fp_lt (FNum 5) (block_distance x z (wp_pos q)) \<and> - 1 \<le> y \<and> y \<le> 4"

lemma spend_block_fields: "spend_block t q = Inr q' \<Longrightarrow> wp_room q' = wp_room q \<and> wp_pos q' = wp_pos q \<and> wp_id q' = wp_id q"
  by (auto simp: spend_block_def split: if_splits)

lemma spend_collect: "spend_block t q = Inr q' \<Longrightarrow> player_ok (2 ^ 31 - 1) q \<Longrightarrow> collect_block t q' = q"
  by (auto simp: spend_block_def collect_block_def player_ok_def stock_ok_def inc32_small split: if_splits)

lemma remove_block:
  assumes "get_player p w = Some q" and "within_block_reach x y z q" and "0 \<le> t" and "t \<le> 5"
  shows "ApplyVoxelEdit p x y z 1 t w =
    (let prev = voxel_at (wp_room q) (voxel_key x y z) w; w1 = touch_room (wp_room q) w;
         t' = (if map_option ve_action prev = Some 2 then ve_block (the prev) else t);
         edit = \<lparr>ve_x = x, ve_y = y, ve_z = z, ve_action = 1, ve_block = t'\<rparr>;
         w2 = put_voxel (wp_room q) edit (put_player (collect_block t' q) w1)
     in if map_option ve_action prev = Some 1 then (Inl BlockAlreadyRemoved, w1, [])
        else (Inr (inventory_of (collect_block t' q)), w2, BroadcastVoxelEdit (wp_room q) edit w2))"
proof -
  have e: "map_of (room_edits (wp_room q) (touch_room (wp_room q) w)) k = voxel_at (wp_room q) k w" for k
    using voxel_at_touch by (simp add: voxel_at_def)
  show ?thesis
    using assms by (auto simp: ApplyVoxelEdit_def within_block_reach_def Let_def e not_le)
qed

lemma place_block_cases:
  assumes "ApplyVoxelEdit p x y z 2 t w = (Inr got, w', out)"
  obtains q q' where "get_player p w = Some q" "within_block_reach x y z q" "spend_block t q = Inr q'" "0 \<le> t" "t \<le> 5"
    "w' = put_voxel (wp_room q) \<lparr>ve_x = x, ve_y = y, ve_z = z, ve_action = 2, ve_block = t\<rparr> (put_player q' (touch_room (wp_room q) w))"
  using assms by (auto simp: ApplyVoxelEdit_def Let_def within_block_reach_def not_le not_less
      split: option.splits if_splits sum.splits)

text \<open>
  The type of a block that was never edited is the one the client names: the server does not know the
  terrain, so such a block pays copper, or whatever else is claimed.
\<close>

lemma unedited_block_pays_claim:
  assumes "get_player p w = Some q" and "within_block_reach x y z q" and "voxel_at (wp_room q) (voxel_key x y z) w = None"
  shows "fst (ApplyVoxelEdit p x y z 1 5 w) = Inr ((inventory_of q)\<lparr>inv_copper := inc32 (wp_copper q)\<rparr>)"
  using assms by (simp add: remove_block Let_def collect_block_def inventory_of_def)

text \<open>
  A placed block can be taken back, and only as what it is: when a player has placed a block, the
  same player can remove it at once, the removal ignores the type the client claims, and the stock
  is again what it was before the placement.
\<close>

lemma placed_block_returns:
  assumes "world_ok (2 ^ 31 - 1) w" and "get_player p w = Some q"
    and "ApplyVoxelEdit p x y z 2 t w = (Inr got, w', out)" and "0 \<le> claim" and "claim \<le> 5"
  shows "fst (ApplyVoxelEdit p x y z 1 claim w') = Inr (inventory_of q)"
proof -
  obtain q' where q': "within_block_reach x y z q" "spend_block t q = Inr q'"
    "w' = put_voxel (wp_room q) \<lparr>ve_x = x, ve_y = y, ve_z = z, ve_action = 2, ve_block = t\<rparr> (put_player q' (touch_room (wp_room q) w))"
    using assms(2,3) by (auto elim: place_block_cases)
  note f = spend_block_fields [OF q'(2)]
  have q: "p = wp_id q" "player_ok (2 ^ 31 - 1) q" using world_ok_player [OF assms(1,2)] by simp_all
  then have "get_player p w' = Some q'" using q'(3) f by (simp add: world_simps)
  moreover have "within_block_reach x y z q'" using q'(1) f by (simp add: within_block_reach_def)
  ultimately show ?thesis
    using assms(4,5) f spend_collect [OF q'(2) q(2)] by (simp add: remove_block Let_def q'(3) voxel_at_put edit_key_def)
qed

lemma placed_block_returns_witness:
  "let (res, w, out) = ApplyVoxelEdit ''ann'' 1 0 2 2 4 demo_world
   in map_sum id inv_wood res = Inr 5 \<and> map_sum id inv_wood (fst (ApplyVoxelEdit ''ann'' 1 0 2 1 5 w)) = Inr 6"
proof -
  obtain q where q: "get_player ''ann'' demo_world = Some q" "wp_pos q = zero_vec" "wp_room q = ''lobby''" "wp_wood q = 6"
    using demo_player by (simp add: new_player_def)
  have s: "sqrt 5 \<le> 3" by (rule real_le_lsqrt) simp_all
  then obtain d where "fp_of_real Single (sqrt 5) = FNum d" "d \<le> 3"
    using fp_of_real_bounds [of 0 "sqrt 5" 3 Single] by auto
  then have d: "\<not> fp_lt (FNum 5) (block_distance 1 2 (wp_pos q))"
    by (simp add: block_distance_def q zero_vec_def fp_of_int_small fp_sub_def)
  have v: "room_edits ''lobby'' (touch_room ''lobby'' demo_world) = []"
    by (simp add: touch_room_def room_edits_def demo_world_def demo_world_at_def EnterWithState_def Let_def SendWorldStateTo_def
        get_put split_beta put_player_fields SeedDefaultScene_def new_world_def)
  obtain w out where p: "ApplyVoxelEdit ''ann'' 1 0 2 2 4 demo_world = (Inr ((inventory_of q)\<lparr>inv_wood := 5\<rparr>), w, out)"
    using d by (simp add: ApplyVoxelEdit_def q v spend_block_def Let_def inventory_of_def)
  have "world_ok (2 ^ 31 - 1) demo_world" using demo_world_ok by (rule world_ok_mono) simp
  from placed_block_returns [OF this q(1) p, of 5] show ?thesis
    by (simp add: p inventory_of_def q)
qed

end
