(* ===== verification/Match_Queue.thy ===== *)
theory Match_Queue
  imports Floating_Point Ordered_Window "HOL-Library.Sublist"
begin

text \<open>
  \<open>include/game/match_queue.h\<close> and \<open>src/game/match_queue.cpp\<close>: the players who wait
  for an opponent, in ascending order of their rating. Ratings are doubles sent by the clients, so
  they may be NaN. \<open>now\<close> is the reading of the system clock (milliseconds) of a call. The
  callback of a match is the list of its calls, which the caller runs in order.
\<close>

record queue_entry =
  qe_player :: string
  qe_score :: fp
  qe_time :: int

record match_queue =
  mq_entries :: "queue_entry list"
  max_wait_sec :: int
  elo_range_init :: fp
  elo_range_expand :: fp
  has_match_callback :: bool

type_synonym match_call = "string \<times> fp \<times> string \<times> fp"

definition new_match_queue :: "int \<Rightarrow> fp \<Rightarrow> fp \<Rightarrow> match_queue" where
  "new_match_queue w i e =
     \<lparr>mq_entries = [], max_wait_sec = w, elo_range_init = i, elo_range_expand = e, has_match_callback = False\<rparr>"

definition SetMatchCallback :: "match_queue \<Rightarrow> match_queue" where
  "SetMatchCallback q = q\<lparr>has_match_callback := True\<rparr>"

fun FindIndex :: "string \<Rightarrow> queue_entry list \<Rightarrow> nat option" where
  "FindIndex p [] = None"
| "FindIndex p (e # es) = (if qe_player e = p then Some 0 else map_option Suc (FindIndex p es))"

definition CurrentEloRange :: "int \<Rightarrow> match_queue \<Rightarrow> int \<Rightarrow> fp" where
  "CurrentEloRange now q t =
     (let waited = fp_div Double (fp_of_int Double (now - t)) 1000;
          limit = fp_of_int Double (max_wait_sec q);
          secs = (if fp_le limit waited then limit else waited)
      in fp_add Double (elo_range_init q) (fp_mul Double (elo_range_expand q) secs))"

subsection \<open>Entering and leaving\<close>

text \<open>
  The bisection of \<open>std::lower_bound\<close> over the range of \<open>n\<close> elements from \<open>first\<close>.
\<close>

function bisect :: "('e \<Rightarrow> bool) \<Rightarrow> 'e list \<Rightarrow> nat \<Rightarrow> nat \<Rightarrow> nat" where
  "bisect lt w first n =
     (if n = 0 then first
      else let half = n div 2; mid = first + half
           in if lt (w ! mid) then bisect lt w (mid + 1) (n - half - 1) else bisect lt w first half)"
  by auto
termination by (relation "measure (\<lambda>(_, _, _, n). n)") auto

declare bisect.simps [simp del]

text \<open>
  \<open>std::sort\<close> by rating. It leaves the order of equal ratings open; here they keep theirs.
\<close>

fun sort_insert :: "queue_entry \<Rightarrow> queue_entry list \<Rightarrow> queue_entry list" where
  "sort_insert e [] = [e]"
| "sort_insert e (x # xs) = (if fp_lt (qe_score x) (qe_score e) then x # sort_insert e xs else e # x # xs)"

definition sort_entries :: "queue_entry list \<Rightarrow> queue_entry list" where
  "sort_entries es = foldr sort_insert es []"

definition EnterQueue :: "int \<Rightarrow> string \<Rightarrow> fp \<Rightarrow> match_queue \<Rightarrow> match_queue" where
  "EnterQueue now p s q =
     (case FindIndex p (mq_entries q) of
        Some i \<Rightarrow> q\<lparr>mq_entries := sort_entries ((mq_entries q)[i := (mq_entries q ! i)\<lparr>qe_score := s\<rparr>])\<rparr>
      | None \<Rightarrow>
          q\<lparr>mq_entries := insert_at (bisect (\<lambda>e. fp_lt (qe_score e) s) (mq_entries q) 0 (length (mq_entries q)))
             \<lparr>qe_player = p, qe_score = s, qe_time = now\<rparr> (mq_entries q)\<rparr>)"

definition CancelMatch :: "string \<Rightarrow> match_queue \<Rightarrow> match_queue" where
  "CancelMatch p q =
     (case FindIndex p (mq_entries q) of
        None \<Rightarrow> q
      | Some i \<Rightarrow> q\<lparr>mq_entries := erase_at i (mq_entries q)\<rparr>)"

definition IsInQueue :: "string \<Rightarrow> match_queue \<Rightarrow> bool" where
  "IsInQueue p q \<longleftrightarrow> FindIndex p (mq_entries q) \<noteq> None"

definition GetScore :: "string \<Rightarrow> match_queue \<Rightarrow> fp" where
  "GetScore p q = (case FindIndex p (mq_entries q) of Some i \<Rightarrow> qe_score (mq_entries q ! i) | None \<Rightarrow> FNum 0)"

definition QueueSize :: "match_queue \<Rightarrow> nat" where
  "QueueSize q = length (mq_entries q)"

subsection \<open>One player looks for an opponent\<close>

definition fp_distance :: "fp \<Rightarrow> fp \<Rightarrow> fp" where
  "fp_distance a b = fp_abs (fp_sub Double a b)"

text \<open>The loop keeps the index of the nearest rating in range so far, the first of equally near ones.\<close>

definition best_step :: "queue_entry list \<Rightarrow> nat \<Rightarrow> fp \<Rightarrow> fp \<Rightarrow> nat \<Rightarrow> nat option \<times> fp \<Rightarrow> nat option \<times> fp" where
  "best_step es me score rng i acc =
     (if i = me then acc
      else let d = fp_distance (qe_score (es ! i)) score
           in if fp_le d rng \<and> fp_lt d (snd acc) then (Some i, d) else acc)"

definition max_double :: fp where
  "max_double = FNum ((2 - 1 / 2 ^ 52) * 2 ^ 1023)"

definition FindMatch :: "int \<Rightarrow> string \<Rightarrow> match_queue \<Rightarrow> string \<times> match_call list \<times> match_queue" where
  "FindMatch now p q =
     (let es = mq_entries q in
      case FindIndex p es of
        None \<Rightarrow> ('''', [], q)
      | Some me \<Rightarrow>
          (let score = qe_score (es ! me); rng = CurrentEloRange now q (qe_time (es ! me)) in
           case fst (fold (best_step es me score rng) [0..<length es] (None, max_double)) of
             None \<Rightarrow> ('''', [], q)
           | Some b \<Rightarrow>
               let opp = qe_player (es ! b);
                   q' = q\<lparr>mq_entries := (if b < me then erase_at b (erase_at me es) else erase_at me (erase_at b es))\<rparr>
               in (opp, if has_match_callback q then [(p, score, opp, qe_score (es ! b))] else [], q')))"

subsection \<open>Matching the whole queue\<close>

definition compatible :: "int \<Rightarrow> match_queue \<Rightarrow> queue_entry \<Rightarrow> queue_entry \<Rightarrow> bool" where
  "compatible now q a b \<longleftrightarrow>
     fp_le (fp_distance (qe_score a) (qe_score b)) (CurrentEloRange now q (qe_time a)) \<and>
     fp_le (fp_distance (qe_score a) (qe_score b)) (CurrentEloRange now q (qe_time b))"

text \<open>The scan from the front: the pairs it makes and which entries it used.\<close>

fun match_scan :: "int \<Rightarrow> match_queue \<Rightarrow> queue_entry list \<Rightarrow> (string \<times> string) list \<times> bool list" where
  "match_scan now q (a # b # es) =
     (if compatible now q a b
      then (case match_scan now q es of (ps, fs) \<Rightarrow> ((qe_player a, qe_player b) # ps, True # True # fs))
      else (case match_scan now q (b # es) of (ps, fs) \<Rightarrow> (ps, False # fs)))"
| "match_scan now q es = ([], map (\<lambda>_. False) es)"

text \<open>The score looked up for the callback: that of the last entry of the player.\<close>

definition score_of :: "queue_entry list \<Rightarrow> string \<Rightarrow> fp" where
  "score_of es p = fold (\<lambda>e s. if qe_player e = p then qe_score e else s) es (FNum 0)"

definition TryMatch :: "int \<Rightarrow> match_queue \<Rightarrow> (string \<times> string) list \<times> match_call list \<times> match_queue" where
  "TryMatch now q =
     (let es = mq_entries q in
      if length es < 2 then ([], [], q)
      else case match_scan now q es of (ps, fs) \<Rightarrow>
        (ps,
         if has_match_callback q then map (\<lambda>(p1, p2). (p1, score_of es p1, p2, score_of es p2)) ps else [],
         q\<lparr>mq_entries := map fst (filter (\<lambda>(e, f). \<not> f) (zip es fs))\<rparr>))"


subsection \<open>The queue stays sorted\<close>

definition rated :: "queue_entry \<Rightarrow> bool" where
  "rated e \<longleftrightarrow> qe_score e \<noteq> FNaN"

definition not_above :: "queue_entry \<Rightarrow> queue_entry \<Rightarrow> bool" where
  "not_above a b \<longleftrightarrow> \<not> fp_lt (qe_score b) (qe_score a)"

definition queue_ok :: "match_queue \<Rightarrow> bool" where
  "queue_ok q \<longleftrightarrow> distinct (map qe_player (mq_entries q)) \<and> list_all rated (mq_entries q) \<and>
     sorted_wrt not_above (mq_entries q)"

lemma fp_lt_linear:
  "a \<noteq> FNaN \<Longrightarrow> b \<noteq> FNaN \<Longrightarrow> c \<noteq> FNaN \<Longrightarrow> \<not> fp_lt b a \<Longrightarrow> \<not> fp_lt c b \<Longrightarrow> \<not> fp_lt c a"
  "fp_lt a b \<Longrightarrow> \<not> fp_lt b a"
  "a \<noteq> FNaN \<Longrightarrow> b \<noteq> FNaN \<Longrightarrow> c \<noteq> FNaN \<Longrightarrow> \<not> fp_lt b a \<Longrightarrow> fp_lt b c \<Longrightarrow> fp_lt a c"
  by (cases a; cases b; cases c; auto)+

lemma bisect_finds:
  assumes "\<And>i. i < length w \<Longrightarrow> lt (w ! i) \<longleftrightarrow> i < k" and "first \<le> k" and "k \<le> first + n" and "first + n \<le> length w"
  shows "bisect lt w first n = k"
  using assms
proof (induction lt w first n rule: bisect.induct)
  case (1 lt w first n)
  show ?case
  proof (cases "n = 0")
    case False
    let ?mid = "first + n div 2"
    have mid: "?mid < length w" using False "1.prems"(4) by simp
    show ?thesis
    proof (cases "lt (w ! ?mid)")
      case True
      then have "?mid < k" using "1.prems"(1) mid by blast
      with True "1.prems" False show ?thesis
        using "1.IH"(1) [OF False refl refl True] by (simp add: bisect.simps [of lt w first n] Let_def)
    next
      case ge: False
      then have "k \<le> ?mid" using "1.prems"(1) [OF mid] by simp
      with ge "1.prems" False show ?thesis
        using "1.IH"(2) [OF False refl refl ge] by (simp add: bisect.simps [of lt w first n] Let_def)
    qed
  qed (use 1 in \<open>simp add: bisect.simps\<close>)
qed

lemma sorted_below:
  assumes "list_all rated es" and "sorted_wrt not_above es" and "s \<noteq> FNaN"
  shows "i < length es \<Longrightarrow> fp_lt (qe_score (es ! i)) s \<longleftrightarrow> i < length (takeWhile (\<lambda>e. fp_lt (qe_score e) s) es)"
  using assms
proof (induction es arbitrary: i)
  case (Cons e es)
  show ?case
  proof (cases "fp_lt (qe_score e) s")
    case True
    with Cons show ?thesis by (cases i) auto
  next
    case False
    have "\<not> fp_lt (qe_score x) s" if "x \<in> set es" for x
      using that False Cons.prems fp_lt_linear(3) [of "qe_score e" "qe_score x" s]
      by (auto simp: list_all_iff rated_def not_above_def)
    with False Cons.prems show ?thesis by (cases i) auto
  qed
qed simp

lemma enter_position:
  assumes "list_all rated es" and "sorted_wrt not_above es" and "s \<noteq> FNaN"
  shows "insert_at (bisect (\<lambda>e. fp_lt (qe_score e) s) es 0 (length es)) x es =
    takeWhile (\<lambda>e. fp_lt (qe_score e) s) es @ x # dropWhile (\<lambda>e. fp_lt (qe_score e) s) es"
proof -
  have "bisect (\<lambda>e. fp_lt (qe_score e) s) es 0 (length es) = length (takeWhile (\<lambda>e. fp_lt (qe_score e) s) es)"
    using sorted_below [OF assms] by (intro bisect_finds) (auto simp: length_takeWhile_le)
  then show ?thesis by (simp add: insert_at_def takeWhile_eq_take dropWhile_eq_drop flip: takeWhile_eq_take)
qed


lemma takeWhile_drop_sorted:
  assumes "list_all rated es" and "sorted_wrt not_above es" and "rated e"
  shows "sorted_wrt not_above (takeWhile (\<lambda>x. fp_lt (qe_score x) (qe_score e)) es @ e #
    dropWhile (\<lambda>x. fp_lt (qe_score x) (qe_score e)) es)"
  using assms
proof (induction es)
  case (Cons x es)
  show ?case
  proof (cases "fp_lt (qe_score x) (qe_score e)")
    case True
    then have "not_above x e" by (simp add: not_above_def fp_lt_linear(2))
    moreover have "set (takeWhile P es) \<union> set (dropWhile P es) = set es" for P
      by (metis set_append takeWhile_dropWhile_id)
    ultimately show ?thesis using Cons True by (auto dest: set_takeWhileD set_dropWhileD)
  next
    case False
    then have ex: "not_above e x" by (simp add: not_above_def)
    have "not_above e y" if "y \<in> set es" for y
      using ex that Cons.prems fp_lt_linear(1) [of "qe_score e" "qe_score x" "qe_score y"]
      by (auto simp: not_above_def rated_def list_all_iff)
    with False Cons.prems ex show ?thesis by simp
  qed
qed simp

lemma sort_insert_eq: "sort_insert e es = takeWhile (\<lambda>x. fp_lt (qe_score x) (qe_score e)) es @ e #
    dropWhile (\<lambda>x. fp_lt (qe_score x) (qe_score e)) es"
  by (induction es) auto

lemma mset_sort_insert: "mset (sort_insert e es) = add_mset e (mset es)"
  by (induction es) auto

lemma sort_entries_mset [simp]: "mset (sort_entries es) = mset es"
  by (induction es) (simp_all add: sort_entries_def mset_sort_insert)

lemma sort_entries_set [simp]: "set (sort_entries es) = set es"
  by (rule mset_eq_setD) simp

lemma sort_entries_sorted: "list_all rated es \<Longrightarrow> sorted_wrt not_above (sort_entries es)"
proof (induction es)
  case (Cons e es)
  have "list_all rated (sort_entries es)" using Cons.prems by (simp add: list_all_iff)
  with Cons takeWhile_drop_sorted [of "sort_entries es" e] show ?case
    by (simp add: sort_entries_def sort_insert_eq)
qed (simp add: sort_entries_def)

lemma distinct_mset_players: "mset es = mset es' \<Longrightarrow> distinct (map qe_player es) \<longleftrightarrow> distinct (map qe_player es')"
  by (metis mset_eq_imp_distinct_iff mset_map)

lemma FindIndex_Some: "FindIndex p es = Some i \<Longrightarrow> i < length es \<and> qe_player (es ! i) = p"
  by (induction es arbitrary: i) (auto split: if_splits)

lemma FindIndex_None: "FindIndex p es = None \<longleftrightarrow> p \<notin> qe_player ` set es"
  by (induction es) auto

lemma erase_at_subseq: "subseq (erase_at i es) es"
proof (induction es arbitrary: i)
  case (Cons e es)
  then show ?case by (cases i) (auto simp: queue_simps)
qed (simp add: erase_at_def)

lemma subseq_members: "subseq xs ys \<Longrightarrow> x \<in> set xs \<Longrightarrow> x \<in> set ys"
  by (induction rule: list_emb.induct) auto

lemma subseq_distinct: "subseq xs ys \<Longrightarrow> distinct ys \<Longrightarrow> distinct xs"
  by (induction rule: list_emb.induct) (auto dest: subseq_members)

lemma subseq_sorted_wrt:
  "subseq xs ys \<Longrightarrow> sorted_wrt R ys \<Longrightarrow> sorted_wrt R xs"
  by (induction rule: list_emb.induct) (auto dest: subseq_members)

lemma queue_ok_subseq: "subseq (mq_entries q') (mq_entries q) \<Longrightarrow> queue_ok q \<Longrightarrow> queue_ok q'"
proof -
  assume s: "subseq (mq_entries q') (mq_entries q)" and q: "queue_ok q"
  have "distinct (map qe_player (mq_entries q'))"
    using subseq_distinct [OF subseq_map [OF s, of qe_player]] q by (simp add: queue_ok_def)
  moreover have "sorted_wrt not_above (mq_entries q')"
    using subseq_sorted_wrt [OF s] q by (simp add: queue_ok_def)
  moreover have "list_all rated (mq_entries q')"
    using subseq_members [OF s] q by (auto simp: queue_ok_def list_all_iff)
  ultimately show ?thesis by (simp add: queue_ok_def)
qed

lemma erase_at_subseq2: "subseq (erase_at i (erase_at j es)) es"
  by (rule subseq_order.order_trans [OF erase_at_subseq erase_at_subseq])

lemma CancelMatch_subseq: "subseq (mq_entries (CancelMatch p q)) (mq_entries q)"
  by (simp add: CancelMatch_def erase_at_subseq split: option.split)

lemma EnterQueue_ok:
  assumes q: "queue_ok q" and s: "s \<noteq> FNaN"
  shows "queue_ok (EnterQueue now p s q)"
proof (cases "FindIndex p (mq_entries q)")
  case None
  let ?e = "\<lparr>qe_player = p, qe_score = s, qe_time = now\<rparr>" and ?P = "\<lambda>x. fp_lt (qe_score x) s"
  have es: "mq_entries (EnterQueue now p s q) = takeWhile ?P (mq_entries q) @ ?e # dropWhile ?P (mq_entries q)"
    using None q s by (simp add: EnterQueue_def enter_position queue_ok_def)
  have m: "mset (mq_entries (EnterQueue now p s q)) = mset (?e # mq_entries q)"
    unfolding es by simp (metis mset_append takeWhile_dropWhile_id)
  have "sorted_wrt not_above (mq_entries (EnterQueue now p s q))"
    using takeWhile_drop_sorted [of "mq_entries q" ?e] q s by (simp add: es queue_ok_def rated_def)
  moreover have "distinct (map qe_player (mq_entries (EnterQueue now p s q)))"
    using q None distinct_mset_players [OF m] by (simp add: queue_ok_def FindIndex_None)
  moreover have "list_all rated (mq_entries (EnterQueue now p s q))"
    using q s mset_eq_setD [OF m] by (simp add: queue_ok_def list_all_iff rated_def)
  ultimately show ?thesis by (simp add: queue_ok_def)
next
  case (Some i)
  let ?es = "(mq_entries q)[i := (mq_entries q ! i)\<lparr>qe_score := s\<rparr>]"
  have es: "mq_entries (EnterQueue now p s q) = sort_entries ?es" by (simp add: EnterQueue_def Some)
  have "map qe_player ?es = map qe_player (mq_entries q)"
    by (simp add: map_update list_update_same_conv FindIndex_Some [OF Some])
  then have "distinct (map qe_player (mq_entries (EnterQueue now p s q)))"
    using q distinct_mset_players [of "sort_entries ?es" ?es] by (simp add: es queue_ok_def)
  moreover have r: "list_all rated ?es"
    using q s set_update_subset_insert [of "mq_entries q" i "(mq_entries q ! i)\<lparr>qe_score := s\<rparr>"]
    by (auto simp: queue_ok_def list_all_iff rated_def)
  ultimately show ?thesis using sort_entries_sorted [OF r] r by (simp add: queue_ok_def es list_all_iff)
qed

lemma FindMatch_subseq: "subseq (mq_entries (snd (snd (FindMatch now p q)))) (mq_entries q)"
  by (simp add: FindMatch_def Let_def erase_at_subseq2 split: option.split)

lemma flagged_subseq: "subseq (map fst (filter P (zip es (fs :: bool list)))) es"
proof (induction es arbitrary: fs)
  case (Cons e es)
  then show ?case by (cases fs) auto
qed simp

lemma TryMatch_subseq: "subseq (mq_entries (snd (snd (TryMatch now q)))) (mq_entries q)"
  by (simp add: TryMatch_def Let_def flagged_subseq split: prod.split)

inductive queue_step :: "match_queue \<Rightarrow> match_queue \<Rightarrow> bool" where
  step_enter: "s \<noteq> FNaN \<Longrightarrow> queue_step q (EnterQueue now p s q)"
| step_cancel: "queue_step q (CancelMatch p q)"
| step_find: "queue_step q (snd (snd (FindMatch now p q)))"
| step_round: "queue_step q (snd (snd (TryMatch now q)))"

lemma queue_step_ok: "queue_step q q' \<Longrightarrow> queue_ok q \<Longrightarrow> queue_ok q'"
  by (induction rule: queue_step.induct)
    (simp_all add: EnterQueue_ok queue_ok_subseq [OF CancelMatch_subseq] queue_ok_subseq [OF FindMatch_subseq]
      queue_ok_subseq [OF TryMatch_subseq])

interpretation matching: step_invariant "\<lambda>q. mq_entries q = []" queue_step queue_ok
  by unfold_locales (simp add: queue_ok_def, rule queue_step_ok)

subsection \<open>A round of matching\<close>

definition matched_players :: "(string \<times> string) list \<Rightarrow> string list" where
  "matched_players ps = concat (map (\<lambda>(a, b). [a, b]) ps)"

lemma matched_players_simps [simp]:
  "matched_players [] = []"
  "matched_players ((a, b) # ps) = a # b # matched_players ps"
  by (simp_all add: matched_players_def)

lemma match_scan_flags:
  "match_scan now q es = (ps, fs) \<Longrightarrow>
     length fs = length es \<and> matched_players ps = map (qe_player \<circ> fst) (filter snd (zip es fs))"
proof (induction now q es arbitrary: ps fs rule: match_scan.induct)
  case (1 now q a b es)
  then show ?case by (auto split: if_splits prod.splits)
qed auto

lemma match_scan_maximal:
  "match_scan now q es = (ps, fs) \<Longrightarrow> Suc i < length es \<Longrightarrow> compatible now q (es ! i) (es ! Suc i) \<Longrightarrow>
     fs ! i \<or> fs ! Suc i"
proof (induction now q es arbitrary: ps fs i rule: match_scan.induct)
  case (1 now q a b es)
  obtain ps1 fs1 ps2 fs2 where m: "match_scan now q es = (ps1, fs1)" "match_scan now q (b # es) = (ps2, fs2)"
    by (metis surj_pair)
  show ?case
  proof (cases "compatible now q a b")
    case True
    then have fs: "fs = True # True # fs1" using 1(3) m by simp
    show ?thesis
    proof (cases "i < 2")
      case False
      then obtain j where "i = Suc (Suc j)" by (metis less_2_cases_iff not0_implies_Suc One_nat_def)
      then show ?thesis using "1.IH"(1) [OF True m(1), of j] 1(4,5) fs by simp
    qed (use fs in \<open>auto simp: less_2_cases_iff\<close>)
  next
    case False
    then have fs: "fs = False # fs2" using 1(3) m by simp
    with False 1(4,5) show ?thesis using "1.IH"(2) [OF False m(2), of "i - 1"] by (cases i) auto
  qed
qed auto

lemma match_scan_pairs:
  "match_scan now q es = (ps, fs) \<Longrightarrow> (a, b) \<in> set ps \<Longrightarrow>
     \<exists>i. Suc i < length es \<and> qe_player (es ! i) = a \<and> qe_player (es ! Suc i) = b \<and> compatible now q (es ! i) (es ! Suc i)"
proof (induction now q es arbitrary: ps fs rule: match_scan.induct)
  case (1 now q x y es)
  obtain ps1 fs1 ps2 fs2 where m: "match_scan now q es = (ps1, fs1)" "match_scan now q (y # es) = (ps2, fs2)"
    by (metis surj_pair)
  show ?case
  proof (cases "compatible now q x y")
    case True
    then have ps: "ps = (qe_player x, qe_player y) # ps1" using 1(3) m by simp
    show ?thesis
    proof (cases "(a, b) \<in> set ps1")
      case in1: True
      obtain i where "Suc i < length es" "qe_player (es ! i) = a" "qe_player (es ! Suc i) = b"
        "compatible now q (es ! i) (es ! Suc i)"
        using "1.IH"(1) [OF True m(1) in1] by blast
      then show ?thesis by (intro exI [of _ "Suc (Suc i)"]) simp
    qed (use True ps 1(4) in \<open>auto intro: exI [of _ 0]\<close>)
  next
    case False
    then have "(a, b) \<in> set ps2" using 1(3,4) m by simp
    then obtain i where "Suc i < length (y # es)" "qe_player ((y # es) ! i) = a" "qe_player ((y # es) ! Suc i) = b"
      "compatible now q ((y # es) ! i) ((y # es) ! Suc i)"
      using "1.IH"(2) [OF False m(2)] by blast
    then show ?thesis by (intro exI [of _ "Suc i"]) simp
  qed
qed auto

lemma unflagged:
  "length fs = length es \<Longrightarrow> distinct (map qe_player es) \<Longrightarrow>
     map fst (filter (\<lambda>(e, f). \<not> f) (zip es fs)) =
     filter (\<lambda>e. qe_player e \<notin> set (map (qe_player \<circ> fst) (filter snd (zip es fs)))) es"
proof (induction es arbitrary: fs)
  case (Cons e es)
  obtain f fs' where fs: "fs = f # fs'" using Cons.prems(1) by (cases fs) auto
  have "qe_player e \<notin> (qe_player \<circ> fst) ` set (filter snd (zip es fs'))"
    using Cons.prems(2) by (fastforce dest: set_zip_leftD)
  moreover have "filter (\<lambda>x. qe_player x \<notin> insert (qe_player e) S) es = filter (\<lambda>x. qe_player x \<notin> S) es" for S
    using Cons.prems(2) by (intro filter_cong) (auto simp: image_iff)
  ultimately show ?case using Cons.IH [of fs'] Cons.prems by (auto simp: fs)
qed simp


lemma score_of_find: "distinct (map qe_player es) \<Longrightarrow> e \<in> set es \<Longrightarrow> score_of es (qe_player e) = qe_score e"
proof -
  have "fold (\<lambda>e s. if qe_player e = p then qe_score e else s) es s = s" if "p \<notin> qe_player ` set es" for es p s
    using that by (induction es) auto
  moreover have "distinct (map qe_player es) \<Longrightarrow> e \<in> set es \<Longrightarrow>
      fold (\<lambda>e s. if qe_player e = p then qe_score e else s) es s = qe_score e" if "p = qe_player e" for p s es
    using that calculation by (induction es arbitrary: s) auto
  ultimately show "distinct (map qe_player es) \<Longrightarrow> e \<in> set es \<Longrightarrow> score_of es (qe_player e) = qe_score e"
    by (simp add: score_of_def)
qed

lemma GetScore_find:
  assumes "distinct (map qe_player (mq_entries q))" and "e \<in> set (mq_entries q)"
  shows "GetScore (qe_player e) q = qe_score e"
proof -
  obtain i where i: "FindIndex (qe_player e) (mq_entries q) = Some i"
    using assms(2) FindIndex_None by fastforce
  then have "qe_player (mq_entries q ! i) = qe_player e" "mq_entries q ! i \<in> set (mq_entries q)"
    using FindIndex_Some by auto
  then have "mq_entries q ! i = e" using assms by (auto simp: distinct_map dest: inj_onD)
  with i show ?thesis by (simp add: GetScore_def)
qed

lemma TryMatch_scan:
  assumes "distinct (map qe_player (mq_entries q))"
    and "match_scan now q (mq_entries q) = (ps, fs)"
  shows "TryMatch now q =
    (ps, if has_match_callback q then map (\<lambda>(a, b). (a, GetScore a q, b, GetScore b q)) ps else [],
     q\<lparr>mq_entries := filter (\<lambda>e. qe_player e \<notin> set (matched_players ps)) (mq_entries q)\<rparr>)"
proof (cases "length (mq_entries q) < 2")
  case True
  then consider "mq_entries q = []" | e where "mq_entries q = [e]"
    by (cases "mq_entries q"; cases "tl (mq_entries q)") auto
  then show ?thesis using assms(2) True by cases (auto simp: TryMatch_def intro!: match_queue.equality)
next
  case False
  have "score_of (mq_entries q) p = GetScore p q" if "p \<in> qe_player ` set (mq_entries q)" for p
    using that assms(1) score_of_find GetScore_find by auto
  moreover have "a \<in> qe_player ` set (mq_entries q) \<and> b \<in> qe_player ` set (mq_entries q)" if "(a, b) \<in> set ps" for a b
    using match_scan_pairs [OF assms(2) that] by (metis image_eqI nth_mem Suc_lessD)
  ultimately have c: "map (\<lambda>(a, b). (a, score_of (mq_entries q) a, b, score_of (mq_entries q) b)) ps =
      map (\<lambda>(a, b). (a, GetScore a q, b, GetScore b q)) ps" by auto
  show ?thesis
    using False assms(2) match_scan_flags [OF assms(2)] unflagged [OF _ assms(1), of fs] c
    by (simp add: TryMatch_def Let_def)
qed

subsection \<open>Properties\<close>

text \<open>
  C30. A round of matching pairs neighbours of the queue whose rating difference both accept, each
  player at most once; afterwards exactly the matched players have left the queue, the callback got
  their ratings, and no two neighbours that accept each other were both left waiting.
\<close>

theorem match_round_exact:
  assumes "distinct (map qe_player (mq_entries q))"
  shows "let (ps, calls, q') = TryMatch now q; es = mq_entries q in
    distinct (matched_players ps) \<and>
    (\<forall>(a, b) \<in> set ps. \<exists>i. Suc i < length es \<and> qe_player (es ! i) = a \<and> qe_player (es ! Suc i) = b \<and>
       compatible now q (es ! i) (es ! Suc i)) \<and>
    (\<forall>i. Suc i < length es \<and> compatible now q (es ! i) (es ! Suc i) \<longrightarrow>
       qe_player (es ! i) \<in> set (matched_players ps) \<or> qe_player (es ! Suc i) \<in> set (matched_players ps)) \<and>
    mq_entries q' = filter (\<lambda>e. qe_player e \<notin> set (matched_players ps)) es \<and>
    calls = (if has_match_callback q then map (\<lambda>(a, b). (a, GetScore a q, b, GetScore b q)) ps else [])"
proof -
  obtain ps fs where s: "match_scan now q (mq_entries q) = (ps, fs)" by fastforce
  note m = match_scan_flags [OF s]
  have "distinct (map qe_player (map fst (filter snd (zip (mq_entries q) fs))))"
    by (rule subseq_distinct [OF subseq_map assms]) (use m in \<open>auto intro: flagged_subseq\<close>)
  then have "distinct (matched_players ps)" using m by simp
  moreover have "qe_player (mq_entries q ! i) \<in> set (matched_players ps)" if "i < length fs" "fs ! i" for i
    using that m by (force simp: set_zip)
  moreover from this have "qe_player (mq_entries q ! i) \<in> set (matched_players ps) \<or> qe_player (mq_entries q ! Suc i) \<in> set (matched_players ps)"
    if "Suc i < length (mq_entries q)" "compatible now q (mq_entries q ! i) (mq_entries q ! Suc i)" for i
    using match_scan_maximal [OF s that] that(1) m by (metis Suc_lessD)
  ultimately show ?thesis
    using match_scan_pairs [OF s] by (simp add: TryMatch_scan [OF assms s] Let_def) blast
qed

definition demo_queue :: match_queue where
  "demo_queue = EnterQueue 0 ''cat'' (FNum 1500) (EnterQueue 0 ''bob'' (FNum 1150)
     (EnterQueue 0 ''ann'' (FNum 1200) (SetMatchCallback (new_match_queue 30 (FNum 100) (FNum 20)))))"

lemma demo_queue_entries:
  "mq_entries demo_queue = [\<lparr>qe_player = ''bob'', qe_score = FNum 1150, qe_time = 0\<rparr>,
     \<lparr>qe_player = ''ann'', qe_score = FNum 1200, qe_time = 0\<rparr>, \<lparr>qe_player = ''cat'', qe_score = FNum 1500, qe_time = 0\<rparr>]"
  by (simp add: demo_queue_def EnterQueue_def new_match_queue_def SetMatchCallback_def bisect.simps insert_at_def Let_def)

lemma demo_queue_fields:
  "has_match_callback demo_queue" "max_wait_sec demo_queue = 30" "elo_range_init demo_queue = FNum 100"
  "elo_range_expand demo_queue = FNum 20"
  by (simp_all add: demo_queue_def EnterQueue_def new_match_queue_def SetMatchCallback_def split: option.split)

lemma demo_compatible:
  "compatible 1000 demo_queue \<lparr>qe_player = a, qe_score = FNum 1150, qe_time = 0\<rparr> \<lparr>qe_player = b, qe_score = FNum 1200, qe_time = 0\<rparr>"
  by (simp add: compatible_def fp_distance_def fp_sub_def CurrentEloRange_def demo_queue_fields Let_def
      fp_of_int_small fp_le_def)

theorem match_round_exact_witness:
  "let (ps, calls, q') = TryMatch 1000 demo_queue
   in matched_players ps = [''bob'', ''ann''] \<and> calls = [(''bob'', FNum 1150, ''ann'', FNum 1200)] \<and>
      map qe_player (mq_entries q') = [''cat'']"
proof -
  have d: "distinct (map qe_player (mq_entries demo_queue))" by (simp add: demo_queue_entries)
  have "match_scan 1000 demo_queue (mq_entries demo_queue) = ([(''bob'', ''ann'')], [True, True, False])"
    by (simp add: demo_queue_entries demo_compatible)
  then have p: "fst (TryMatch 1000 demo_queue) = [(''bob'', ''ann'')]" by (simp add: TryMatch_scan [OF d])
  from match_round_exact [OF d, of 1000] p show ?thesis
    by (cases "TryMatch 1000 demo_queue")
      (simp add: Let_def demo_queue_entries demo_queue_fields GetScore_def)
qed

text \<open>
  As long as no client sends NaN as its rating, any sequence of arrivals (also repeated ones with
  a new rating), cancellations, searches and rounds keeps the queue sorted by rating and each
  player in it at most once, so the bisection of an arrival is always well defined.
\<close>

lemma queue_stays_sorted:
  assumes "queue_step\<^sup>*\<^sup>* (new_match_queue w i e) q"
  shows "distinct (map qe_player (mq_entries q)) \<and>
    sorted_wrt (\<lambda>a b. \<not> fp_lt (qe_score b) (qe_score a)) (mq_entries q)"
proof -
  have "queue_ok q" using assms by (rule matching.reachable_inv [rotated]) (simp add: new_match_queue_def)
  then show ?thesis by (simp add: queue_ok_def not_above_def [abs_def])
qed

lemma queue_stays_sorted_witness:
  "distinct (map qe_player (mq_entries (EnterQueue 5 ''a'' (FNum 900) (EnterQueue 3 ''b'' (FNum 1000)
     (EnterQueue 0 ''a'' (FNum 1200) (new_match_queue 30 (FNum 100) (FNum 20)))))))"
proof -
  let ?q0 = "new_match_queue 30 (FNum 100) (FNum 20)"
  let ?q1 = "EnterQueue 0 ''a'' (FNum 1200) ?q0"
  let ?q2 = "EnterQueue 3 ''b'' (FNum 1000) ?q1"
  have "queue_step ?q0 ?q1" "queue_step ?q1 ?q2" "queue_step ?q2 (EnterQueue 5 ''a'' (FNum 900) ?q2)"
    by (rule step_enter, simp)+
  then have "queue_step\<^sup>*\<^sup>* ?q0 (EnterQueue 5 ''a'' (FNum 900) ?q2)" 
    by (blast intro: rtranclp.rtrancl_into_rtrancl)
  from queue_stays_sorted [OF this] show ?thesis by blast
qed

end
