(* ===== verification/Document_Store.thy ===== *)
theory Document_Store
  imports World_Scene
begin

text \<open>
  \<open>src/game/player_store.cpp\<close> and \<open>src/game/scene_store.cpp\<close>: players and scenes as documents
  of a MongoDB collection. A document is what the BSON calls build; the driver itself (commands,
  lookups, replacement) is the record \<open>mongo\<close> of its operations on the state of the database.
\<close>

subsection \<open>Documents\<close>

datatype bson = BUtf8 string | BInt32 int | BInt64 u64 | BDouble fp | BDate int | BBool bool
  | BDoc "(string \<times> bson) list" | BArr "bson list"

type_synonym document = "(string \<times> bson) list"

datatype insert_status = Inserted | DuplicateKey | InsertFailed

record 'db mongo =
  new_client :: "string \<Rightarrow> bool"
  run_command :: "string \<Rightarrow> document \<Rightarrow> 'db \<Rightarrow> bool \<times> 'db"
  insert_one :: "string \<Rightarrow> document \<Rightarrow> 'db \<Rightarrow> insert_status \<times> 'db"
  find_one :: "string \<Rightarrow> string \<Rightarrow> string \<Rightarrow> 'db \<Rightarrow> document option"
  replace_one :: "string \<Rightarrow> string \<Rightarrow> string \<Rightarrow> document \<Rightarrow> 'db \<Rightarrow> bool \<times> 'db"

text \<open>
  A string handed over as \<open>c_str()\<close> ends at its first NUL. A \<open>float\<close> stored as a double keeps its
  value; read back, it is rounded again.
\<close>

definition c_str :: "string \<Rightarrow> string" where
  "c_str s = takeWhile (\<lambda>c. c \<noteq> CHR 0x00) s"

fun to_float :: "fp \<Rightarrow> fp" where
  "to_float (FNum r) = fp_of_real Single r"
| "to_float v = v"

text \<open>
  \<open>Init\<close> of the three stores: connect, ping, create the unique index on \<open>field\<close>. The result of the
  index command is ignored.
\<close>

definition index_command :: "string \<Rightarrow> string \<Rightarrow> document" where
  "index_command coll field =
     [(''createIndexes'', BUtf8 coll),
      (''indexes'', BArr [BDoc [(''key'', BDoc [(field, BInt32 1)]), (''name'', BUtf8 (field @ ''_1'')),
        (''unique'', BBool True)]])]"

definition StoreInit :: "'db mongo \<Rightarrow> string \<Rightarrow> string \<Rightarrow> string \<Rightarrow> string \<Rightarrow> 'db \<Rightarrow> bool \<times> 'db" where
  "StoreInit m uri dbname coll field db =
     (if \<not> new_client m uri then (False, db)
      else case run_command m ''admin'' [(''ping'', BInt32 1)] db of
             (ok, db1) \<Rightarrow> if \<not> ok then (False, db1)
               else (True, snd (run_command m dbname (index_command coll field) db1)))"

definition AccountStoreInit :: "'db mongo \<Rightarrow> string \<Rightarrow> string \<Rightarrow> 'db \<Rightarrow> bool \<times> 'db" where
  "AccountStoreInit m uri dbname = StoreInit m uri dbname ''accounts'' ''username''"

definition PlayerStoreInit :: "'db mongo \<Rightarrow> string \<Rightarrow> string \<Rightarrow> 'db \<Rightarrow> bool \<times> 'db" where
  "PlayerStoreInit m uri dbname = StoreInit m uri dbname ''players'' ''player_id''"

definition SceneStoreInit :: "'db mongo \<Rightarrow> string \<Rightarrow> string \<Rightarrow> 'db \<Rightarrow> bool \<times> 'db" where
  "SceneStoreInit m uri dbname = StoreInit m uri dbname ''scenes'' ''scene_id''"

subsection \<open>Players\<close>

definition get_double :: "string \<Rightarrow> fp \<Rightarrow> document \<Rightarrow> fp" where
  "get_double k d doc = (case map_of doc k of Some (BDouble v) \<Rightarrow> to_float v | _ \<Rightarrow> d)"

definition get_int32 :: "string \<Rightarrow> int \<Rightarrow> document \<Rightarrow> int" where
  "get_int32 k d doc = (case map_of doc k of Some (BInt32 n) \<Rightarrow> n | _ \<Rightarrow> d)"

definition default_state :: "string \<Rightarrow> player_state" where
  "default_state p = \<lparr>ps_id = p, ps_pos = zero_vec, ps_yaw = FNum 0, ps_wood = 6, ps_stone = 3, ps_dirt = 12,
     ps_copper = 0, ps_tool = 0, ps_found = False\<rparr>"

definition player_of_doc :: "string \<Rightarrow> document \<Rightarrow> player_state" where
  "player_of_doc p doc =
     \<lparr>ps_id = p, ps_pos = \<lparr>vx = get_double ''x'' (FNum 0) doc, vy = get_double ''y'' (FNum 0) doc,
        vz = get_double ''z'' (FNum 0) doc\<rparr>,
      ps_yaw = get_double ''yaw'' (FNum 0) doc, ps_wood = get_int32 ''wood'' 6 doc, ps_stone = get_int32 ''stone'' 3 doc,
      ps_dirt = get_int32 ''dirt'' 12 doc, ps_copper = get_int32 ''copper'' 0 doc,
      ps_tool = get_int32 ''tool_level'' 0 doc, ps_found = True\<rparr>"

definition player_doc :: "int \<Rightarrow> player_state \<Rightarrow> document" where
  "player_doc ms s =
     [(''player_id'', BUtf8 (c_str (ps_id s))), (''x'', BDouble (vx (ps_pos s))), (''y'', BDouble (vy (ps_pos s))),
      (''z'', BDouble (vz (ps_pos s))), (''yaw'', BDouble (ps_yaw s)), (''wood'', BInt32 (ps_wood s)),
      (''stone'', BInt32 (ps_stone s)), (''dirt'', BInt32 (ps_dirt s)), (''copper'', BInt32 (ps_copper s)),
      (''tool_level'', BInt32 (ps_tool s)), (''updated_at'', BDate ms)]"

text \<open>\<open>client\<close> says whether \<open>Init\<close> connected the store.\<close>

definition PlayerLoad :: "'db mongo \<Rightarrow> bool \<Rightarrow> string \<Rightarrow> 'db \<Rightarrow> player_state" where
  "PlayerLoad m client p db =
     (if \<not> client then default_state p
      else case find_one m ''players'' ''player_id'' (c_str p) db of
             None \<Rightarrow> default_state p
           | Some doc \<Rightarrow> player_of_doc p doc)"

definition PlayerUpsert :: "'db mongo \<Rightarrow> bool \<Rightarrow> int \<Rightarrow> player_state \<Rightarrow> 'db \<Rightarrow> bool \<times> 'db" where
  "PlayerUpsert m client ms s db =
     (if \<not> client then (False, db)
      else replace_one m ''players'' ''player_id'' (c_str (ps_id s)) (player_doc ms s) db)"

subsection \<open>Scenes\<close>

definition resource_field :: "string \<times> bson \<Rightarrow> world_resource \<Rightarrow> world_resource" where
  "resource_field kv r =
     (case kv of
        (k, BUtf8 s) \<Rightarrow> if k = ''id'' then r\<lparr>wr_id := s\<rparr> else r
      | (k, BInt32 n) \<Rightarrow> if k = ''type'' then r\<lparr>wr_type := n\<rparr> else if k = ''remaining'' then r\<lparr>wr_remaining := n\<rparr> else r
      | (k, BDouble v) \<Rightarrow>
          if k = ''x'' then r\<lparr>wr_pos := (wr_pos r)\<lparr>vx := to_float v\<rparr>\<rparr>
          else if k = ''y'' then r\<lparr>wr_pos := (wr_pos r)\<lparr>vy := to_float v\<rparr>\<rparr>
          else if k = ''z'' then r\<lparr>wr_pos := (wr_pos r)\<lparr>vz := to_float v\<rparr>\<rparr> else r
      | _ \<Rightarrow> r)"

definition no_building :: building_state where
  "no_building = \<lparr>wb_id = '''', wb_owner = '''', wb_type = 0, wb_pos = zero_vec, wb_yaw = FNum 0\<rparr>"

definition building_field :: "string \<times> bson \<Rightarrow> building_state \<Rightarrow> building_state" where
  "building_field kv b =
     (case kv of
        (k, BUtf8 s) \<Rightarrow> if k = ''id'' then b\<lparr>wb_id := s\<rparr> else if k = ''owner_id'' then b\<lparr>wb_owner := s\<rparr> else b
      | (k, BInt32 n) \<Rightarrow> if k = ''type'' then b\<lparr>wb_type := n\<rparr> else b
      | (k, BDouble v) \<Rightarrow>
          if k = ''x'' then b\<lparr>wb_pos := (wb_pos b)\<lparr>vx := to_float v\<rparr>\<rparr>
          else if k = ''y'' then b\<lparr>wb_pos := (wb_pos b)\<lparr>vy := to_float v\<rparr>\<rparr>
          else if k = ''z'' then b\<lparr>wb_pos := (wb_pos b)\<lparr>vz := to_float v\<rparr>\<rparr>
          else if k = ''yaw'' then b\<lparr>wb_yaw := to_float v\<rparr> else b
      | _ \<Rightarrow> b)"

definition no_voxel :: scene_voxel_edit where
  "no_voxel = \<lparr>sv_room = '''', sv_edit = \<lparr>ve_x = 0, ve_y = 0, ve_z = 0, ve_action = 0, ve_block = 0\<rparr>\<rparr>"

definition voxel_field :: "string \<times> bson \<Rightarrow> scene_voxel_edit \<Rightarrow> scene_voxel_edit" where
  "voxel_field kv e =
     (case kv of
        (k, BUtf8 s) \<Rightarrow> if k = ''room_id'' then e\<lparr>sv_room := s\<rparr> else e
      | (k, BInt32 n) \<Rightarrow>
          if k = ''x'' then e\<lparr>sv_edit := (sv_edit e)\<lparr>ve_x := n\<rparr>\<rparr>
          else if k = ''y'' then e\<lparr>sv_edit := (sv_edit e)\<lparr>ve_y := n\<rparr>\<rparr>
          else if k = ''z'' then e\<lparr>sv_edit := (sv_edit e)\<lparr>ve_z := n\<rparr>\<rparr>
          else if k = ''action'' then e\<lparr>sv_edit := (sv_edit e)\<lparr>ve_action := n\<rparr>\<rparr>
          else if k = ''block_type'' then e\<lparr>sv_edit := (sv_edit e)\<lparr>ve_block := n\<rparr>\<rparr> else e
      | _ \<Rightarrow> e)"

text \<open>The elements of an array that are documents, read field by field.\<close>

fun read_docs :: "(string \<times> bson \<Rightarrow> 'r \<Rightarrow> 'r) \<Rightarrow> 'r \<Rightarrow> bson list \<Rightarrow> 'r list" where
  "read_docs f z [] = []"
| "read_docs f z (BDoc kvs # bs) = fold f kvs z # read_docs f z bs"
| "read_docs f z (_ # bs) = read_docs f z bs"

definition get_array :: "string \<Rightarrow> document \<Rightarrow> bson list" where
  "get_array k doc = (case map_of doc k of Some (BArr bs) \<Rightarrow> bs | _ \<Rightarrow> [])"

definition empty_scene :: "string \<Rightarrow> scene_snapshot" where
  "empty_scene i = \<lparr>scene_id = i, sc_resources = [], sc_buildings = [], sc_voxel_edits = [], sc_next_building = 1,
     sc_found = False\<rparr>"

definition scene_of_doc :: "string \<Rightarrow> document \<Rightarrow> scene_snapshot" where
  "scene_of_doc i doc =
     \<lparr>scene_id = i,
      sc_resources = filter (\<lambda>r. wr_id r \<noteq> '''') (read_docs resource_field no_resource (get_array ''resources'' doc)),
      sc_buildings = filter (\<lambda>b. wb_id b \<noteq> '''') (read_docs building_field no_building (get_array ''buildings'' doc)),
      sc_voxel_edits = filter (\<lambda>e. sv_room e \<noteq> '''') (read_docs voxel_field no_voxel (get_array ''voxel_edits'' doc)),
      sc_next_building = (case map_of doc ''next_building_id'' of
          Some (BInt64 n) \<Rightarrow> n | Some (BInt32 n) \<Rightarrow> word_of_int n | _ \<Rightarrow> 1),
      sc_found = True\<rparr>"

definition resource_doc :: "world_resource \<Rightarrow> bson" where
  "resource_doc r = BDoc [(''id'', BUtf8 (c_str (wr_id r))), (''type'', BInt32 (wr_type r)),
     (''x'', BDouble (vx (wr_pos r))), (''y'', BDouble (vy (wr_pos r))), (''z'', BDouble (vz (wr_pos r))),
     (''remaining'', BInt32 (wr_remaining r))]"

definition building_doc :: "building_state \<Rightarrow> bson" where
  "building_doc b = BDoc [(''id'', BUtf8 (c_str (wb_id b))), (''owner_id'', BUtf8 (c_str (wb_owner b))),
     (''type'', BInt32 (wb_type b)), (''x'', BDouble (vx (wb_pos b))), (''y'', BDouble (vy (wb_pos b))),
     (''z'', BDouble (vz (wb_pos b))), (''yaw'', BDouble (wb_yaw b))]"

definition voxel_doc :: "scene_voxel_edit \<Rightarrow> bson" where
  "voxel_doc e = BDoc [(''room_id'', BUtf8 (c_str (sv_room e))), (''x'', BInt32 (ve_x (sv_edit e))),
     (''y'', BInt32 (ve_y (sv_edit e))), (''z'', BInt32 (ve_z (sv_edit e))),
     (''action'', BInt32 (ve_action (sv_edit e))), (''block_type'', BInt32 (ve_block (sv_edit e)))]"

definition scene_doc :: "int \<Rightarrow> scene_snapshot \<Rightarrow> document" where
  "scene_doc ms s =
     [(''scene_id'', BUtf8 (c_str (scene_id s))), (''next_building_id'', BInt64 (sc_next_building s)),
      (''updated_at'', BDate ms), (''resources'', BArr (map resource_doc (sc_resources s))),
      (''buildings'', BArr (map building_doc (sc_buildings s))),
      (''voxel_edits'', BArr (map voxel_doc (sc_voxel_edits s)))]"

definition SceneLoad :: "'db mongo \<Rightarrow> bool \<Rightarrow> string \<Rightarrow> 'db \<Rightarrow> scene_snapshot" where
  "SceneLoad m client i db =
     (if \<not> client then empty_scene i
      else case find_one m ''scenes'' ''scene_id'' (c_str i) db of
             None \<Rightarrow> empty_scene i
           | Some doc \<Rightarrow> scene_of_doc i doc)"

definition SceneUpsert :: "'db mongo \<Rightarrow> bool \<Rightarrow> int \<Rightarrow> scene_snapshot \<Rightarrow> 'db \<Rightarrow> bool \<times> 'db" where
  "SceneUpsert m client ms s db =
     (if \<not> client then (False, db)
      else replace_one m ''scenes'' ''scene_id'' (c_str (scene_id s)) (scene_doc ms s) db)"

subsection \<open>Documents read back\<close>

text \<open>What can be stored faithfully: floats, strings without NUL, and identifiers that are not empty.\<close>

definition is_float :: "fp \<Rightarrow> bool" where
  "is_float v \<longleftrightarrow> to_float v = v"

definition vec_float :: "vec3 \<Rightarrow> bool" where
  "vec_float v \<longleftrightarrow> is_float (vx v) \<and> is_float (vy v) \<and> is_float (vz v)"

definition storable :: "scene_snapshot \<Rightarrow> bool" where
  "storable s \<longleftrightarrow>
     (\<forall>r \<in> set (sc_resources s). c_str (wr_id r) = wr_id r \<and> wr_id r \<noteq> '''' \<and> vec_float (wr_pos r)) \<and>
     (\<forall>b \<in> set (sc_buildings s). c_str (wb_id b) = wb_id b \<and> wb_id b \<noteq> '''' \<and> c_str (wb_owner b) = wb_owner b \<and>
        vec_float (wb_pos b) \<and> is_float (wb_yaw b)) \<and>
     (\<forall>e \<in> set (sc_voxel_edits s). c_str (sv_room e) = sv_room e \<and> sv_room e \<noteq> '''')"

lemma read_resources:
  "\<forall>r \<in> set rs. c_str (wr_id r) = wr_id r \<and> wr_id r \<noteq> '''' \<and> vec_float (wr_pos r) \<Longrightarrow>
     filter (\<lambda>r. wr_id r \<noteq> '''') (read_docs resource_field no_resource (map resource_doc rs)) = rs"
  by (induction rs) (auto simp: resource_doc_def resource_field_def no_resource_def zero_vec_def vec_float_def is_float_def)

lemma read_buildings:
  "\<forall>b \<in> set bs. c_str (wb_id b) = wb_id b \<and> wb_id b \<noteq> '''' \<and> c_str (wb_owner b) = wb_owner b \<and>
        vec_float (wb_pos b) \<and> is_float (wb_yaw b) \<Longrightarrow>
     filter (\<lambda>b. wb_id b \<noteq> '''') (read_docs building_field no_building (map building_doc bs)) = bs"
  by (induction bs) (auto simp: building_doc_def building_field_def no_building_def zero_vec_def vec_float_def is_float_def)

lemma read_voxels:
  "\<forall>e \<in> set es. c_str (sv_room e) = sv_room e \<and> sv_room e \<noteq> '''' \<Longrightarrow>
     filter (\<lambda>e. sv_room e \<noteq> '''') (read_docs voxel_field no_voxel (map voxel_doc es)) = es"
  by (induction es) (auto simp: voxel_doc_def voxel_field_def no_voxel_def)

lemma scene_doc_read:
  assumes "storable s"
  shows "scene_of_doc i (scene_doc ms s) = s\<lparr>scene_id := i, sc_found := True\<rparr>"
  using assms unfolding storable_def
  by (simp add: scene_of_doc_def scene_doc_def get_array_def read_resources read_buildings read_voxels)


text \<open>
  What the stores rely on of the driver: a replaced document that carries its key is found under it,
  with its fields and the \<open>_id\<close> the database gives it.
\<close>

definition found_as :: "document \<Rightarrow> document \<Rightarrow> bool" where
  "found_as doc d \<longleftrightarrow> (\<forall>k. k \<noteq> ''_id'' \<longrightarrow> map_of d k = map_of doc k)"

definition replaced_found :: "'db mongo \<Rightarrow> bool" where
  "replaced_found m \<longleftrightarrow> (\<forall>coll f v doc db db'. map_of doc f = Some (BUtf8 v) \<and> replace_one m coll f v doc db = (True, db') \<longrightarrow>
     (\<exists>d. find_one m coll f v db' = Some d \<and> found_as doc d))"

lemma found_as_refl [simp]: "found_as doc doc"
  by (simp add: found_as_def)

lemma scene_found_as: "found_as doc d \<Longrightarrow> scene_of_doc i d = scene_of_doc i doc"
  by (simp add: found_as_def scene_of_doc_def get_array_def)

lemma LoadScene_fields: "LoadScene (s\<lparr>scene_id := i, sc_found := b\<rparr>) w = LoadScene s w"
  by (simp add: LoadScene_def)

lemma SceneLoad_saved:
  assumes "replaced_found m" and "storable s" and "SceneUpsert m client ms s db = (True, db')" and "client"
  shows "SceneLoad m client (scene_id s) db' = s\<lparr>scene_id := scene_id s, sc_found := True\<rparr>"
proof -
  have "map_of (scene_doc ms s) ''scene_id'' = Some (BUtf8 (c_str (scene_id s)))" by (simp add: scene_doc_def)
  moreover have "replace_one m ''scenes'' ''scene_id'' (c_str (scene_id s)) (scene_doc ms s) db = (True, db')"
    using assms(3,4) by (simp add: SceneUpsert_def)
  ultimately obtain d where "find_one m ''scenes'' ''scene_id'' (c_str (scene_id s)) db' = Some d" "found_as (scene_doc ms s) d"
    using assms(1) by (metis replaced_found_def)
  then show ?thesis using assms(2,4) by (simp add: SceneLoad_def scene_found_as scene_doc_read)
qed

subsection \<open>Properties\<close>

text \<open>
  C33. The shared world survives a restart: when the save of the scene succeeded, loading it from the
  database and rebuilding the world from it finds every resource, building and block edit again
  under its name, its place and its room, the next building number is the same, and the players who
  are in the world stay. (The floats of the world are single precision and its names hold no NUL.)
\<close>

theorem scene_survives_restart:
  assumes "replaced_found m" and "storable (ExportScene i w)"
    and "voxels_ok w" and "entries_ok (\<lambda>i r. wr_id r = i) (w_resources w)" and "0 < next_building_id w"
    and "SceneUpsert m True ms (ExportScene i w) db = (True, db')"
  shows "let w' = LoadScene (SceneLoad m True i db') v in
    w_buildings w' = w_buildings w \<and> next_building_id w' = next_building_id w \<and> w_players w' = w_players v \<and>
    map_of (w_resources w') rid = map_of (w_resources w) rid \<and>
    map_of (room_edits rm w') (voxel_key x y z) = map_of (room_edits rm w) (voxel_key x y z)"
proof -
  have r: "\<forall>(i, r) \<in> set (w_resources w). wr_id r = i" using assms(4) by (simp add: entries_ok_def)
  have "scene_id (ExportScene i w) = i" by (simp add: ExportScene_def)
  with SceneLoad_saved [OF assms(1,2,6)] have "LoadScene (SceneLoad m True i db') v = LoadScene (ExportScene i w) v"
    by (simp add: LoadScene_fields)
  then show ?thesis
    using Load_Export [OF assms(3) r] Load_Export_rest [OF assms(5)] by (simp add: Let_def flip: voxel_at_def)
qed

text \<open>A database for the witnesses: one document per collection, field and value.\<close>

type_synonym demo_db = "string \<Rightarrow> string \<Rightarrow> string \<Rightarrow> document option"

definition demo_mongo :: "demo_db mongo" where
  "demo_mongo = \<lparr>new_client = \<lambda>_. True, run_command = \<lambda>_ _ db. (True, db),
     insert_one = \<lambda>coll doc db. case map_of doc ''username'' of
         Some (BUtf8 u) \<Rightarrow> if db coll ''username'' u = None
           then (Inserted, db(coll := (db coll)(''username'' := (db coll ''username'')(u \<mapsto> doc)))) else (DuplicateKey, db)
       | _ \<Rightarrow> (InsertFailed, db),
     find_one = \<lambda>coll f v db. db coll f v,
     replace_one = \<lambda>coll f v doc db. (True, db(coll := (db coll)(f := (db coll f)(v \<mapsto> doc))))\<rparr>"

theorem scene_survives_restart_witness:
  "let e = \<lparr>ve_x = - 3, ve_y = 0, ve_z = 12, ve_action = 1, ve_block = 4\<rparr>;
       w = put_voxel ''lobby'' e (SeedDefaultScene new_world);
       db' = snd (SceneUpsert demo_mongo True 0 (ExportScene ''default'' w) (\<lambda>_ _ _. None));
       w' = LoadScene (SceneLoad demo_mongo True ''default'' db') new_world
   in map_of (room_edits ''lobby'' w') (voxel_key (- 3) 0 12) = Some e \<and>
      map_option wr_remaining (map_of (w_resources w') ''rock_3'') = Some 5"
proof -
  let ?e = "\<lparr>ve_x = - 3, ve_y = 0, ve_z = 12, ve_action = 1, ve_block = 4\<rparr>"
  let ?w = "put_voxel ''lobby'' ?e (SeedDefaultScene new_world)"
  have r: "w_resources ?w = map (\<lambda>r. (wr_id r, r)) seeded"
    by (simp add: put_voxel_fields SeedDefaultScene_def seeded_def seed_resource_def emplace_def)
  have n: "next_building_id ?w = 1" "w_buildings ?w = []" by (simp_all add: put_voxel_fields SeedDefaultScene_def)
  have v: "w_voxels ?w = [(''lobby'', [(voxel_key (- 3) 0 12, ?e)])]"
    by (simp add: put_voxel_def SeedDefaultScene_def new_world_def room_edits_def)
  have ok: "voxels_ok ?w" "entries_ok (\<lambda>i r. wr_id r = i) (w_resources ?w)" "0 < next_building_id ?w"
    by (simp_all add: voxels_ok_def v r n entries_ok_def edit_key_def seeded_def seed_resource_def)
  have s: "storable (ExportScene ''default'' ?w)"
    by (simp add: storable_def ExportScene_def r n v seeded_def seed_resource_def c_str_def vec_float_def is_float_def)
  have m: "replaced_found demo_mongo" by (simp add: replaced_found_def demo_mongo_def)
  obtain db' where u: "SceneUpsert demo_mongo True 0 (ExportScene ''default'' ?w) (\<lambda>_ _ _. None) = (True, db')"
    by (simp add: SceneUpsert_def demo_mongo_def)
  from scene_survives_restart [OF m s ok u, of new_world "''rock_3''" "''lobby''" "- 3" 0 12] show ?thesis
    by (simp add: Let_def room_edits_def u v r seeded_def seed_resource_def)
qed

end
