(* ===== verification/Account_Store.thy ===== *)
theory Account_Store
  imports Document_Store
begin

text \<open>
  \<open>src/game/account_store.cpp\<close>: registration and login against the accounts collection. The
  password hash is crypt(3): \<open>gensalt\<close> is a fresh bcrypt setting (nothing when none can be made),
  \<open>crypt\<close> hashes a password under a setting or a hash. \<open>ms\<close> is the time of the call.
\<close>

record crypt_ops =
  gensalt :: "string option"
  crypt :: "string \<Rightarrow> string \<Rightarrow> string option"

datatype account_error = AccountOk | DbUnavailable | InvalidAccount | UsernameTaken | InvalidCredentials

record account_result =
  ar_ok :: bool
  ar_error :: account_error
  ar_player :: string

definition account_failed :: "account_error \<Rightarrow> account_result" where
  "account_failed e = \<lparr>ar_ok = False, ar_error = e, ar_player = ''''\<rparr>"

definition account_ok :: "string \<Rightarrow> account_result" where
  "account_ok p = \<lparr>ar_ok = True, ar_error = AccountOk, ar_player = p\<rparr>"

text \<open>\<open>isalnum\<close> of the C locale.\<close>

definition isalnum :: "char \<Rightarrow> bool" where
  "isalnum c \<longleftrightarrow> (let n = of_char c :: nat in 48 \<le> n \<and> n \<le> 57 \<or> 65 \<le> n \<and> n \<le> 90 \<or> 97 \<le> n \<and> n \<le> 122)"

definition ValidUsername :: "string \<Rightarrow> bool" where
  "ValidUsername u \<longleftrightarrow> 3 \<le> length u \<and> length u \<le> 32 \<and> list_all (\<lambda>c. isalnum c \<or> c = CHR ''_'') u"

definition ValidPassword :: "string \<Rightarrow> bool" where
  "ValidPassword p \<longleftrightarrow> 6 \<le> length p \<and> length p \<le> 64"

text \<open>The empty string when the hash cannot be made.\<close>

definition HashPassword :: "crypt_ops \<Rightarrow> string \<Rightarrow> string" where
  "HashPassword c p =
     (case gensalt c of
        None \<Rightarrow> ''''
      | Some salt \<Rightarrow> (case crypt c (c_str p) salt of None \<Rightarrow> '''' | Some h \<Rightarrow> h))"

definition VerifyPassword :: "crypt_ops \<Rightarrow> string \<Rightarrow> string \<Rightarrow> bool" where
  "VerifyPassword c p h \<longleftrightarrow> crypt c (c_str p) (c_str h) = Some h"

definition account_doc :: "int \<Rightarrow> string \<Rightarrow> string \<Rightarrow> document" where
  "account_doc ms u h = [(''username'', BUtf8 (c_str u)), (''password_hash'', BUtf8 (c_str h)),
     (''player_id'', BUtf8 (c_str u)), (''created_at'', BDate ms), (''updated_at'', BDate ms)]"

definition CreateAccount ::
  "'db mongo \<Rightarrow> crypt_ops \<Rightarrow> bool \<Rightarrow> int \<Rightarrow> string \<Rightarrow> string \<Rightarrow> 'db \<Rightarrow> account_result \<times> 'db" where
  "CreateAccount m c client ms u p db =
     (if \<not> client then (account_failed DbUnavailable, db)
      else if \<not> ValidUsername u \<or> \<not> ValidPassword p then (account_failed InvalidAccount, db)
      else
        let h = HashPassword c p
        in if h = '''' then (account_failed DbUnavailable, db)
           else (case insert_one m ''accounts'' (account_doc ms u h) db of
                   (Inserted, db1) \<Rightarrow> (account_ok u, db1)
                 | (DuplicateKey, db1) \<Rightarrow> (account_failed UsernameTaken, db1)
                 | (InsertFailed, db1) \<Rightarrow> (account_failed DbUnavailable, db1)))"

definition VerifyCredentials ::
  "'db mongo \<Rightarrow> crypt_ops \<Rightarrow> bool \<Rightarrow> string \<Rightarrow> string \<Rightarrow> 'db \<Rightarrow> account_result" where
  "VerifyCredentials m c client u p db =
     (if \<not> client then account_failed DbUnavailable
      else if \<not> ValidUsername u \<or> \<not> ValidPassword p then account_failed InvalidCredentials
      else (case find_one m ''accounts'' ''username'' (c_str u) db of
              None \<Rightarrow> account_failed InvalidCredentials
            | Some doc \<Rightarrow>
                let h = (case map_of doc ''password_hash'' of Some (BUtf8 s) \<Rightarrow> s | _ \<Rightarrow> '''');
                    pid = (case map_of doc ''player_id'' of Some (BUtf8 s) \<Rightarrow> s | _ \<Rightarrow> u)
                in if h = '''' \<or> \<not> VerifyPassword c p h then account_failed InvalidCredentials else account_ok pid))"

subsection \<open>Registration and login\<close>

text \<open>
  What the store relies on. The collection: an account inserted under a new name is found under it, and
  the unique index, when \<open>Init\<close> could create it, refuses a name that is taken. The hash: crypt(3)
  returns a string that is not empty, either a failure token, which begins with a star and differs from
  the setting it was given, or a hash under which the password gives the hash again; and two passwords
  within the 72 bytes bcrypt reads have different hashes under the same setting.
\<close>

definition accounts_law :: "'db mongo \<Rightarrow> bool" where
  "accounts_law m \<longleftrightarrow>
     (\<forall>ms u h db db'. insert_one m ''accounts'' (account_doc ms u h) db = (Inserted, db') \<and>
        find_one m ''accounts'' ''username'' (c_str u) db = None \<longrightarrow>
        (\<exists>d. find_one m ''accounts'' ''username'' (c_str u) db' = Some d \<and> found_as (account_doc ms u h) d))"

definition unique_usernames :: "'db mongo \<Rightarrow> bool" where
  "unique_usernames m \<longleftrightarrow>
     (\<forall>ms u h db. find_one m ''accounts'' ''username'' (c_str u) db \<noteq> None \<longrightarrow>
        fst (insert_one m ''accounts'' (account_doc ms u h) db) \<noteq> Inserted)"

definition failure_token :: "string \<Rightarrow> bool" where
  "failure_token h \<longleftrightarrow> take 1 h = ''*''"

definition crypt_law :: "crypt_ops \<Rightarrow> bool" where
  "crypt_law c \<longleftrightarrow> (\<forall>p s h. crypt c p s = Some h \<longrightarrow>
     c_str h = h \<and> h \<noteq> '''' \<and> (if failure_token h then h \<noteq> s else crypt c p h = Some h))"

definition no_collisions :: "crypt_ops \<Rightarrow> bool" where
  "no_collisions c \<longleftrightarrow> (\<forall>p q s h. crypt c p s = Some h \<and> crypt c q s = Some h \<and> \<not> failure_token h \<and>
     length p \<le> 72 \<and> length q \<le> 72 \<longrightarrow> p = q)"

lemma valid_c_str: "ValidUsername u \<Longrightarrow> c_str u = u"
  by (auto simp: ValidUsername_def c_str_def isalnum_def list_all_iff takeWhile_eq_all_conv)

lemma CreateAccount_success:
  assumes "CreateAccount m c client ms u p db = (r, db')" and "ar_ok r"
  obtains h where "client" "ValidUsername u" "ValidPassword p" "h \<noteq> ''''" "HashPassword c p = h"
    "insert_one m ''accounts'' (account_doc ms u h) db = (Inserted, db')" "r = account_ok u"
  using assms by (auto simp: CreateAccount_def Let_def account_failed_def split: if_splits prod.splits insert_status.splits)

lemma HashPassword_verifies:
  "crypt_law c \<Longrightarrow> HashPassword c p = h \<Longrightarrow> h \<noteq> '''' \<Longrightarrow>
     c_str h = h \<and> (\<not> failure_token h \<longrightarrow> crypt c (c_str p) h = Some h)"
  by (auto simp: HashPassword_def crypt_law_def split: option.splits)

text \<open>A valid password is within the length bcrypt reads.\<close>

lemma valid_password_length: "ValidPassword p \<Longrightarrow> length (c_str p) \<le> 72"
  using length_takeWhile_le [of "\<lambda>c. c \<noteq> CHR 0x00" p] by (simp add: ValidPassword_def c_str_def)

lemma VerifyCredentials_account:
  assumes "find_one m ''accounts'' ''username'' u db = Some d" "found_as (account_doc ms u h) d"
    and "ValidUsername u" "c_str h = h" "h \<noteq> ''''"
  shows "VerifyCredentials m c True u q db =
    (if ValidPassword q \<and> crypt c (c_str q) h = Some h then account_ok u else account_failed InvalidCredentials)"
proof -
  have "map_of d ''password_hash'' = Some (BUtf8 h)" "map_of d ''player_id'' = Some (BUtf8 u)"
    using assms(2-4) by (simp_all add: found_as_def account_doc_def valid_c_str)
  then show ?thesis using assms by (simp add: VerifyCredentials_def valid_c_str VerifyPassword_def Let_def)
qed

text \<open>The account a successful registration leaves.\<close>

lemma registered_account:
  assumes "accounts_law m" "unique_usernames m" "crypt_law c"
    and "CreateAccount m c True ms u p db = (r, db')" "ar_ok r"
  obtains h d where "HashPassword c p = h" "ValidUsername u" "ValidPassword p" "h \<noteq> ''''" "c_str h = h"
    "find_one m ''accounts'' ''username'' u db' = Some d" "found_as (account_doc ms u h) d"
proof -
  obtain h where h: "ValidUsername u" "ValidPassword p" "h \<noteq> ''''" "HashPassword c p = h"
    "insert_one m ''accounts'' (account_doc ms u h) db = (Inserted, db')"
    using assms(4,5) by (rule CreateAccount_success)
  have "find_one m ''accounts'' ''username'' (c_str u) db = None"
    using assms(2) h(5) unfolding unique_usernames_def by (metis fst_conv)
  then obtain d where "find_one m ''accounts'' ''username'' (c_str u) db' = Some d" "found_as (account_doc ms u h) d"
    using assms(1) h(5) unfolding accounts_law_def by metis
  with h HashPassword_verifies [OF assms(3) h(4,3)] show thesis by (intro that) (simp_all add: valid_c_str)
qed

subsection \<open>Properties\<close>


text \<open>A crypt for the witness: the hash is the password between marks.\<close>

definition demo_crypt :: crypt_ops where
  "demo_crypt = \<lparr>gensalt = Some ''$2b$'', crypt = \<lambda>p s. if CHR 0x00 \<in> set p then None else Some (''$'' @ p)\<rparr>"

lemma demo_laws: "accounts_law demo_mongo" "unique_usernames demo_mongo" "crypt_law demo_crypt" "no_collisions demo_crypt"
proof -
  show "accounts_law demo_mongo" "unique_usernames demo_mongo"
    by (auto simp: accounts_law_def unique_usernames_def demo_mongo_def account_doc_def)
  show "crypt_law demo_crypt" "no_collisions demo_crypt"
    by (auto simp: crypt_law_def no_collisions_def demo_crypt_def failure_token_def c_str_def takeWhile_eq_all_conv split: if_splits)
qed


text \<open>
  \<open>HashPassword\<close> does not recognize a failure token: the account is then created with it, and no password
  ever logs in to it.
\<close>

lemma failed_hash_locks_account:
  assumes "accounts_law m" "unique_usernames m" "crypt_law c" "failure_token (HashPassword c p)"
    and "CreateAccount m c True ms u p db = (r, db')" "ar_ok r"
  shows "VerifyCredentials m c True u q db' = account_failed InvalidCredentials"
proof -
  obtain h d where h: "HashPassword c p = h" "ValidUsername u" "ValidPassword p" "h \<noteq> ''''" "c_str h = h"
    and f: "find_one m ''accounts'' ''username'' u db' = Some d" "found_as (account_doc ms u h) d"
    using assms(1-3,5,6) by (rule registered_account)
  have "crypt c (c_str q) h \<noteq> Some h" using assms(3,4) h(1) unfolding crypt_law_def by metis
  then show ?thesis using VerifyCredentials_account [OF f h(2,5,4)] by simp
qed

text \<open>\<open>Init\<close> succeeds whether or not the unique index could be created.\<close>

lemma init_without_index:
  "new_client m uri \<Longrightarrow> run_command m ''admin'' [(''ping'', BInt32 1)] db = (True, db1) \<Longrightarrow>
   run_command m name (index_command ''accounts'' ''username'') db1 = (False, db2) \<Longrightarrow>
   AccountStoreInit m uri name db = (True, db2)"
  by (simp add: AccountStoreInit_def StoreInit_def)

end
