(* ===== verification/Game_Service.thy ===== *)
theory Game_Service
  imports Room_Service Match_Queue Account_Store Server_Metrics Db_Worker
begin

text \<open>
  \<open>include/game/game_service.h\<close> and \<open>src/game/game_service.cpp\<close>: the server, which owns the
  rooms, the match queue, the world, the stores and the tables of connections, and answers every
  request. A \<open>Connection*\<close> is a \<open>conn_ref\<close>: the object's identity and the descriptor it was made
  for, which the kernel gives to another connection after it is closed. The frames handed to
  \<open>Connection::Send\<close> are appended to \<open>gs_out\<close>. Requests run on the event loop; the tasks posted to
  the database worker and the callbacks it posts back are values, run by \<open>RunDbTask\<close> and
  \<open>RunLoopCall\<close>. The clocks are read once per event. Log lines are not modelled.
\<close>

subsection \<open>Messages\<close>

text \<open>\<open>GameText\<close> carries the message of the world, the other constructors are literals of the service.\<close>

datatype game_text = NoGameText | GameText world_error | TextNotLoggedIn | TextPlayerNotLoggedIn | TextInvalidRoomOrMap

record move_req =
  mr_pos :: vec3
  mr_yaw :: fp
  mr_appearance :: int

record select_map_req =
  sq_room :: string
  sq_map :: int

record place_req =
  pq_type :: int
  pq_pos :: vec3
  pq_yaw :: fp

record credentials =
  cq_username :: string
  cq_password :: string

record match_req =
  mp_player :: string
  mp_score :: fp

record game_codec =
  room_part :: room_codec
  parse_register :: "bytes \<Rightarrow> credentials option"
  parse_login :: "bytes \<Rightarrow> credentials option"
  parse_move :: "bytes \<Rightarrow> move_req option"
  parse_select :: "bytes \<Rightarrow> select_map_req option"
  parse_voxel :: "bytes \<Rightarrow> voxel_edit option"
  parse_craft :: "bytes \<Rightarrow> int option"
  parse_gather :: "bytes \<Rightarrow> string option"
  parse_place :: "bytes \<Rightarrow> place_req option"
  parse_match :: "bytes \<Rightarrow> match_req option"
  parse_cancel :: "bytes \<Rightarrow> string option"
  ser_register :: "account_result \<Rightarrow> bytes"
  ser_login :: "account_error \<Rightarrow> string option \<Rightarrow> bytes"
  ser_move :: "bool \<Rightarrow> game_text \<Rightarrow> vec3 option \<Rightarrow> bytes"
  ser_select :: "bool \<Rightarrow> int \<Rightarrow> game_text \<Rightarrow> bytes"
  ser_voxel :: "bool \<Rightarrow> game_text \<Rightarrow> voxel_edit option \<Rightarrow> inventory option \<Rightarrow> bytes"
  ser_craft :: "bool \<Rightarrow> game_text \<Rightarrow> inventory option \<Rightarrow> bytes"
  ser_gather :: "gather_result \<Rightarrow> bytes"
  ser_place :: "building_result \<Rightarrow> bytes"
  ser_match :: "bool \<Rightarrow> bytes"
  ser_cancel :: "bool \<Rightarrow> bytes"
  ser_metrics :: "metrics_snapshot \<Rightarrow> bytes"
  ser_notification :: "notification \<Rightarrow> bytes"
  ser_world :: "world_msg \<Rightarrow> bytes"

subsection \<open>State\<close>

record conn_ref =
  cid :: nat
  cfd :: int

datatype match_timer = MatchTimeout string string fp string fp

datatype db_task =
    CreateTask u32 int string string
  | LoginTask u32 int string string
  | SavePlayerTask player_state
  | SaveSceneTask scene_snapshot

datatype loop_call =
    RegisterDone u32 int account_result
  | LoginDone u32 int account_result player_state

text \<open>
  \<open>gs_rooms\<close> is what the room service works on; it holds no unsent messages between events. The
  three flags say which stores \<open>Init\<close> connected.
\<close>

record 'db game_service =
  gs_rooms :: service_state
  gs_queue :: match_queue
  gs_timer :: "match_timer timer_manager"
  gs_world :: world
  gs_metrics :: server_metrics
  player_conns :: "string \<rightharpoonup> conn_ref"
  fd_to_player :: "int \<rightharpoonup> string"
  active_conns :: "int \<rightharpoonup> conn_ref"
  gs_worker :: "db_task db_worker"
  loop_calls :: "loop_call list"
  gs_db :: 'db
  accounts_up :: bool
  players_up :: bool
  scenes_up :: bool
  gs_out :: "(conn_ref \<times> bytes) list"

text \<open>
  The surroundings: the driver, crypt(3), \<open>std::hash\<close>, the Protobuf code; and the readings of the
  clocks during one event: the steady clock at its start and end (nanoseconds) and the system clock
  (milliseconds).
\<close>

record 'db server_env =
  env_mongo :: "'db mongo"
  env_crypt :: crypt_ops
  env_hash :: "string \<Rightarrow> nat"
  env_codec :: game_codec

record clock =
  ck_start :: int
  ck_end :: int
  ck_system :: int

definition NowMs :: "clock \<Rightarrow> int" where
  "NowMs t = ck_start t div 1000000"

subsection \<open>Connections of players\<close>

definition RegisterPlayerConn :: "string \<Rightarrow> conn_ref \<Rightarrow> 'db game_service \<Rightarrow> 'db game_service" where
  "RegisterPlayerConn p c s =
     s\<lparr>player_conns := (player_conns s)(p \<mapsto> c), fd_to_player := (fd_to_player s)(cfd c \<mapsto> p)\<rparr>"

definition UnregisterPlayerConn :: "string \<Rightarrow> 'db game_service \<Rightarrow> 'db game_service" where
  "UnregisterPlayerConn p s =
     (case player_conns s p of
        None \<Rightarrow> s
      | Some c \<Rightarrow> s\<lparr>fd_to_player := (fd_to_player s)(cfd c := None), player_conns := (player_conns s)(p := None)\<rparr>)"

definition GetPlayerConn :: "string \<Rightarrow> 'db game_service \<Rightarrow> conn_ref option" where
  "GetPlayerConn p s = player_conns s p"

definition send_frame :: "conn_ref \<Rightarrow> bytes \<Rightarrow> 'db game_service \<Rightarrow> 'db game_service" where
  "send_frame c data s = s\<lparr>gs_out := gs_out s @ [(c, data)]\<rparr>"

definition SendToPlayer :: "string \<Rightarrow> string \<Rightarrow> bytes \<Rightarrow> 'db game_service \<Rightarrow> 'db game_service" where
  "SendToPlayer p meth data s =
     (case player_conns s p of
        None \<Rightarrow> s
      | Some c \<Rightarrow> send_frame c (Encode 0 Response meth data) s)"

text \<open>The two callbacks of the constructor: messages of the rooms go out as \<open>RoomEvent\<close>.\<close>

definition send_events :: "game_codec \<Rightarrow> sends \<Rightarrow> 'db game_service \<Rightarrow> 'db game_service" where
  "send_events cd out s = fold (\<lambda>(p, m). SendToPlayer p ''RoomEvent'' (ser_notification cd m)) out s"

fun world_method :: "world_msg \<Rightarrow> string" where
  "world_method (WorldStateNtf _ _ _ _ _) = ''WorldStateNtf''"
| "world_method (PlayerEnterNtf _) = ''PlayerEnterNtf''"
| "world_method (WorldPlayerLeaveNtf _) = ''PlayerLeaveNtf''"
| "world_method (ResourceChangedNtf _) = ''ResourceChangedNtf''"
| "world_method (BuildingPlacedNtf _) = ''BuildingPlacedNtf''"
| "world_method (VoxelEditNtf _) = ''VoxelEditNtf''"

definition in_world :: "game_codec \<Rightarrow> world \<times> world_sends \<Rightarrow> 'db game_service \<Rightarrow> 'db game_service" where
  "in_world cd r s =
     fold (\<lambda>(p, m). SendToPlayer p (world_method m) (ser_world cd m)) (snd r) (s\<lparr>gs_world := fst r\<rparr>)"

definition respond :: "frame \<Rightarrow> conn_ref \<Rightarrow> message_type \<Rightarrow> string \<Rightarrow> bytes \<Rightarrow> 'db game_service \<Rightarrow> 'db game_service" where
  "respond f c mt meth data s = send_frame c (Encode (request_id f) mt meth data) s"

definition count_error :: "'db game_service \<Rightarrow> 'db game_service" where
  "count_error s = s\<lparr>gs_metrics := OnError (gs_metrics s)\<rparr>"

subsection \<open>Saving\<close>

definition post_task :: "db_task \<Rightarrow> 'db game_service \<Rightarrow> 'db game_service" where
  "post_task t s = s\<lparr>gs_worker := DbPost t (gs_worker s)\<rparr>"

definition SavePlayerAsync :: "string \<Rightarrow> 'db game_service \<Rightarrow> 'db game_service" where
  "SavePlayerAsync p s =
     (case GetWorldSnapshot p (gs_world s) of
        None \<Rightarrow> s
      | Some st \<Rightarrow> post_task (SavePlayerTask st) s)"

definition SaveSceneAsync :: "'db game_service \<Rightarrow> 'db game_service" where
  "SaveSceneAsync s = post_task (SaveSceneTask (ExportScene ''default'' (gs_world s))) s"

definition LoadOrSeedScene :: "'db mongo \<Rightarrow> int \<Rightarrow> 'db game_service \<Rightarrow> 'db game_service" where
  "LoadOrSeedScene m ms s =
     (let snap = SceneLoad m (scenes_up s) ''default'' (gs_db s)
      in if sc_found snap \<and> (sc_resources snap \<noteq> [] \<or> sc_buildings snap \<noteq> [])
         then s\<lparr>gs_world := LoadScene snap (gs_world s)\<rparr>
         else
           let w = SeedDefaultScene (gs_world s)
           in s\<lparr>gs_world := w, gs_db := snd (SceneUpsert m (scenes_up s) ms (ExportScene ''default'' w) (gs_db s))\<rparr>)"

subsection \<open>Requests of the world\<close>

definition HandleMove :: "'db server_env \<Rightarrow> clock \<Rightarrow> frame \<Rightarrow> conn_ref \<Rightarrow> 'db game_service \<Rightarrow> 'db game_service" where
  "HandleMove e t f c s =
     (let cd = env_codec e in
      case fd_to_player s (cfd c) of
        None \<Rightarrow> respond f c Response ''Move'' (ser_move cd False TextNotLoggedIn None) s
      | Some p \<Rightarrow>
          (case parse_move cd (body f) of
             None \<Rightarrow> respond f c Error ''Move'' [] (count_error s)
           | Some req \<Rightarrow>
               (case TryMove p (mr_pos req) (mr_yaw req) (NowMs t) (mr_appearance req) (gs_world s) of
                  (r, ws) \<Rightarrow>
                    respond f c Response ''Move'' (ser_move cd (mv_success r) (GameText (mv_error r)) (Some (mv_pos r)))
                      (in_world cd ws s))))"

definition HandleSelectMap :: "'db server_env \<Rightarrow> clock \<Rightarrow> frame \<Rightarrow> conn_ref \<Rightarrow> 'db game_service \<Rightarrow> 'db game_service" where
  "HandleSelectMap e t f c s =
     (let cd = env_codec e in
      case (fd_to_player s (cfd c), parse_select cd (body f)) of
        (Some p, Some req) \<Rightarrow>
          (case SelectRoom (env_hash e) p (sq_room req) (sq_map req) (NowMs t) (gs_world s) of
             (ok, ws) \<Rightarrow>
               respond f c Response ''SelectMap''
                 (ser_select cd ok (sq_map req) (if ok then NoGameText else TextInvalidRoomOrMap)) (in_world cd ws s))
      | _ \<Rightarrow> respond f c Response ''SelectMap'' (ser_select cd False 0 TextPlayerNotLoggedIn) s)"

text \<open>The inventory of the response has no tool level.\<close>

definition HandleVoxelEdit :: "'db server_env \<Rightarrow> frame \<Rightarrow> conn_ref \<Rightarrow> 'db game_service \<Rightarrow> 'db game_service" where
  "HandleVoxelEdit e f c s =
     (let cd = env_codec e; req = parse_voxel cd (body f) in
      case (fd_to_player s (cfd c), req) of
        (Some p, Some r) \<Rightarrow>
          (case ApplyVoxelEdit p (ve_x r) (ve_y r) (ve_z r) (ve_action r) (ve_block r) (gs_world s) of
             (Inl err, ws) \<Rightarrow> respond f c Response ''VoxelEdit'' (ser_voxel cd False (GameText err) req None) (in_world cd ws s)
           | (Inr items, ws) \<Rightarrow>
               respond f c Response ''VoxelEdit'' (ser_voxel cd True NoGameText req (Some (items\<lparr>inv_tool := 0\<rparr>)))
                 (SavePlayerAsync p (SaveSceneAsync (in_world cd ws s))))
      | _ \<Rightarrow> respond f c Response ''VoxelEdit'' (ser_voxel cd False NoGameText req None) s)"

definition HandleCraft :: "'db server_env \<Rightarrow> frame \<Rightarrow> conn_ref \<Rightarrow> 'db game_service \<Rightarrow> 'db game_service" where
  "HandleCraft e f c s =
     (let cd = env_codec e in
      case fd_to_player s (cfd c) of
        None \<Rightarrow> respond f c Response ''Craft'' (ser_craft cd False (GameText NotInWorld) None) s
      | Some p \<Rightarrow>
          (case parse_craft cd (body f) of
             None \<Rightarrow> respond f c Response ''Craft'' (ser_craft cd False (GameText InvalidRecipe) None) s
           | Some i \<Rightarrow>
               (case TryCraft p i (gs_world s) of
                  (r, w) \<Rightarrow>
                    let s1 = s\<lparr>gs_world := w\<rparr>
                    in if cr_success r
                       then respond f c Response ''Craft'' (ser_craft cd True (GameText (cr_error r)) (Some (cr_inventory r)))
                              (SavePlayerAsync p s1)
                       else respond f c Response ''Craft'' (ser_craft cd False (GameText (cr_error r)) None) s1)))"

definition HandleGather :: "'db server_env \<Rightarrow> frame \<Rightarrow> conn_ref \<Rightarrow> 'db game_service \<Rightarrow> 'db game_service" where
  "HandleGather e f c s =
     (let cd = env_codec e in
      case (fd_to_player s (cfd c), parse_gather cd (body f)) of
        (Some p, Some rid) \<Rightarrow>
          (case TryGather p rid (gs_world s) of
             (r, ws) \<Rightarrow>
               let s1 = in_world cd ws s;
                   s2 = (if ga_success r then SaveSceneAsync (SavePlayerAsync p s1) else s1)
               in respond f c Response ''Gather'' (ser_gather cd r) s2)
      | _ \<Rightarrow> respond f c Error ''Gather'' [] s)"

definition HandlePlaceBuilding :: "'db server_env \<Rightarrow> frame \<Rightarrow> conn_ref \<Rightarrow> 'db game_service \<Rightarrow> 'db game_service" where
  "HandlePlaceBuilding e f c s =
     (let cd = env_codec e in
      case (fd_to_player s (cfd c), parse_place cd (body f)) of
        (Some p, Some req) \<Rightarrow>
          (case TryPlaceBuilding p (pq_type req) (pq_pos req) (pq_yaw req) (gs_world s) of
             (r, ws) \<Rightarrow>
               let s1 = in_world cd ws s;
                   s2 = (if bu_success r then SaveSceneAsync (SavePlayerAsync p s1) else s1)
               in respond f c Response ''PlaceBuilding'' (ser_place cd r) s2)
      | _ \<Rightarrow> respond f c Error ''PlaceBuilding'' [] s)"

subsection \<open>Accounts\<close>

definition HandleRegister :: "'db server_env \<Rightarrow> frame \<Rightarrow> conn_ref \<Rightarrow> 'db game_service \<Rightarrow> 'db game_service" where
  "HandleRegister e f c s =
     (case parse_register (env_codec e) (body f) of
        None \<Rightarrow> respond f c Error ''Register'' [] (count_error s)
      | Some r \<Rightarrow>
          post_task (CreateTask (request_id f) (cfd c) (cq_username r) (cq_password r))
            (s\<lparr>active_conns := (active_conns s)(cfd c \<mapsto> c)\<rparr>))"

definition HandleLogin :: "'db server_env \<Rightarrow> frame \<Rightarrow> conn_ref \<Rightarrow> 'db game_service \<Rightarrow> 'db game_service" where
  "HandleLogin e f c s =
     (case parse_login (env_codec e) (body f) of
        None \<Rightarrow> respond f c Error ''Login'' [] (count_error s)
      | Some r \<Rightarrow>
          post_task (LoginTask (request_id f) (cfd c) (cq_username r) (cq_password r))
            (s\<lparr>active_conns := (active_conns s)(cfd c \<mapsto> c)\<rparr>))"

text \<open>A task on the database thread, at time \<open>ms\<close>, and the callback it posts to the loop.\<close>

definition login_state :: "string \<Rightarrow> player_state \<Rightarrow> player_state" where
  "login_state p st =
     (if ps_found st then st
      else st\<lparr>ps_id := p, ps_pos := zero_vec, ps_yaw := FNum 0, ps_wood := 6, ps_stone := 3\<rparr>)"

definition RunDbTask :: "'db server_env \<Rightarrow> int \<Rightarrow> db_task \<Rightarrow> 'db game_service \<Rightarrow> 'db game_service" where
  "RunDbTask e ms t s =
     (case t of
        CreateTask rid n u pw \<Rightarrow>
          (case CreateAccount (env_mongo e) (env_crypt e) (accounts_up s) ms u pw (gs_db s) of
             (r, db) \<Rightarrow> s\<lparr>gs_db := db, loop_calls := loop_calls s @ [RegisterDone rid n r]\<rparr>)
      | LoginTask rid n u pw \<Rightarrow>
          let r = VerifyCredentials (env_mongo e) (env_crypt e) (accounts_up s) u pw (gs_db s);
              saved = (if ar_ok r
                       then login_state (ar_player r) (PlayerLoad (env_mongo e) (players_up s) (ar_player r) (gs_db s))
                       else default_state '''')
          in s\<lparr>loop_calls := loop_calls s @ [LoginDone rid n r saved]\<rparr>
      | SavePlayerTask st \<Rightarrow> s\<lparr>gs_db := snd (PlayerUpsert (env_mongo e) (players_up s) ms st (gs_db s))\<rparr>
      | SaveSceneTask sc \<Rightarrow> s\<lparr>gs_db := snd (SceneUpsert (env_mongo e) (scenes_up s) ms sc (gs_db s))\<rparr>)"

text \<open>The player of an earlier login on the same connection leaves.\<close>

definition drop_old_player :: "game_codec \<Rightarrow> int \<Rightarrow> string \<Rightarrow> 'db game_service \<Rightarrow> 'db game_service" where
  "drop_old_player cd n p s =
     (case fd_to_player s n of
        Some old \<Rightarrow>
          if old = p then s
          else let s0 = SavePlayerAsync old s
               in UnregisterPlayerConn old (in_world cd (Leave old (gs_world s0)) s0)
      | None \<Rightarrow> s)"

definition LoginSucceeded :: "'db server_env \<Rightarrow> clock \<Rightarrow> u32 \<Rightarrow> string \<Rightarrow> player_state \<Rightarrow> conn_ref \<Rightarrow> int \<Rightarrow>
    'db game_service \<Rightarrow> 'db game_service" where
  "LoginSucceeded e t rid p st c n s =
     (let cd = env_codec e;
          s1 = RegisterPlayerConn p c (drop_old_player cd n p s);
          s2 = s1\<lparr>gs_metrics := OnConnect (gs_metrics s1)\<rparr>;
          s3 = in_world cd (EnterWithState p p (NowMs t) (ps_pos st) (ps_yaw st) (ps_wood st) (ps_stone st)
                 (ps_dirt st) (ps_copper st) (ps_tool st) (gs_world s2)) s2
      in send_frame c (Encode rid Response ''Login'' (ser_login cd AccountOk (Some p))) s3)"

text \<open>The callbacks find the connection again by its descriptor.\<close>

definition RegisterAnswered :: "'db server_env \<Rightarrow> u32 \<Rightarrow> int \<Rightarrow> account_result \<Rightarrow> 'db game_service \<Rightarrow> 'db game_service" where
  "RegisterAnswered e rid n r s =
     (case active_conns s n of
        None \<Rightarrow> s
      | Some c \<Rightarrow> send_frame c (Encode rid Response ''Register'' (ser_register (env_codec e) r)) s)"

definition LoginAnswered :: "'db server_env \<Rightarrow> clock \<Rightarrow> u32 \<Rightarrow> int \<Rightarrow> account_result \<Rightarrow> player_state \<Rightarrow>
    'db game_service \<Rightarrow> 'db game_service" where
  "LoginAnswered e t rid n r st s =
     (case active_conns s n of
        None \<Rightarrow> s
      | Some c \<Rightarrow>
          if \<not> ar_ok r
          then count_error (send_frame c (Encode rid Response ''Login''
                 (ser_login (env_codec e) (if ar_error r = AccountOk then InvalidCredentials else ar_error r) None)) s)
          else LoginSucceeded e t rid (ar_player r) st c n s)"

definition RunLoopCall :: "'db server_env \<Rightarrow> clock \<Rightarrow> loop_call \<Rightarrow> 'db game_service \<Rightarrow> 'db game_service" where
  "RunLoopCall e t lc s =
     (case lc of
        RegisterDone rid n r \<Rightarrow> RegisterAnswered e rid n r s
      | LoginDone rid n r st \<Rightarrow> LoginAnswered e t rid n r st s)"

lemmas loop_call_defs = RunLoopCall_def RegisterAnswered_def LoginAnswered_def

subsection \<open>Matches\<close>

definition set_rooms :: "room_manager \<Rightarrow> 'db game_service \<Rightarrow> 'db game_service" where
  "set_rooms m s = s\<lparr>gs_rooms := (gs_rooms s)\<lparr>svc_rooms := m\<rparr>\<rparr>"

definition OnMatchFound :: "'db server_env \<Rightarrow> clock \<Rightarrow> match_call \<Rightarrow> 'db game_service \<Rightarrow> 'db game_service" where
  "OnMatchFound e t mc s =
     (case mc of (p1, score1, p2, score2) \<Rightarrow>
      case CreateRoom (NowMs t) p1 2 kDefaultRoomTimeoutMs (svc_rooms (gs_rooms s)) of
        (res, m1) \<Rightarrow>
          if \<not> res_ok res then set_rooms m1 s
          else
            let rid = res_room_id res;
                m2 = update_room rid (SetState ROOM_STATE_WAITING) m1;
                m3 = snd (JoinRoom rid p2 m2);
                cd = env_codec e;
                s1 = send_events cd (BroadcastToRoomExcept rid p2 (MatchFoundNtf rid p1 p2 0 30) m3) (set_rooms m3 s);
                s2 = send_events cd (BroadcastToRoomExcept rid p1 (MatchFoundNtf rid p2 p1 0 30) m3) s1
            in s2\<lparr>gs_timer := snd (Schedule (NowMs t) 30000 (MatchTimeout rid p1 score1 p2 score2) (gs_timer s2))\<rparr>)"

text \<open>The callback of the match timer.\<close>

definition OnMatchTimeout :: "clock \<Rightarrow> match_timer \<Rightarrow> 'db game_service \<Rightarrow> 'db game_service" where
  "OnMatchTimeout t mt s =
     (case mt of MatchTimeout rid p1 score1 p2 score2 \<Rightarrow>
      case GetRoom rid (svc_rooms (gs_rooms s)) of
        None \<Rightarrow> s
      | Some r \<Rightarrow>
          if state r = ROOM_STATE_PLAYING then s
          else (set_rooms (snd (RemoveRoom rid (svc_rooms (gs_rooms s)))) s)
                 \<lparr>gs_queue := EnterQueue (ck_system t) p2 score2 (EnterQueue (ck_system t) p1 score1 (gs_queue s))\<rparr>)"

subsection \<open>Dispatch\<close>

text \<open>The eight methods of the room service, their messages sent as they are broadcast.\<close>

definition room_handler :: "'db server_env \<Rightarrow> clock \<Rightarrow> service_state handler \<Rightarrow> 'db game_service handler" where
  "room_handler e t h bdy s =
     (case h bdy ((gs_rooms s)\<lparr>svc_sent := [], steady_now := NowMs t, system_now := ck_system t\<rparr>) of
        (res, r) \<Rightarrow> (res, send_events (env_codec e) (svc_sent r) (s\<lparr>gs_rooms := r\<lparr>svc_sent := []\<rparr>\<rparr>)))"

definition MetricsHandler :: "'db server_env \<Rightarrow> clock \<Rightarrow> 'db game_service handler" where
  "MetricsHandler e t bdy s =
     (case MetricsSnapshot (ck_start t) (int (length (GetAllRoomIds (svc_rooms (gs_rooms s)))))
             (int (QueueSize (gs_queue s))) (gs_metrics s) of
        (snap, m) \<Rightarrow> (Some (ser_metrics (env_codec e) snap), s\<lparr>gs_metrics := m\<rparr>))"

definition EnterMatchHandler :: "'db server_env \<Rightarrow> clock \<Rightarrow> 'db game_service handler" where
  "EnterMatchHandler e t bdy s =
     (case parse_match (env_codec e) bdy of
        None \<Rightarrow> (None, s)
      | Some req \<Rightarrow>
          (case TryMatch (ck_system t) (EnterQueue (ck_system t) (mp_player req) (mp_score req) (gs_queue s)) of
             (_, calls, mq) \<Rightarrow>
               (Some (ser_match (env_codec e) True), fold (OnMatchFound e t) calls (s\<lparr>gs_queue := mq\<rparr>))))"

definition CancelMatchHandler :: "'db server_env \<Rightarrow> 'db game_service handler" where
  "CancelMatchHandler e bdy s =
     (case parse_cancel (env_codec e) bdy of
        None \<Rightarrow> (None, s)
      | Some p \<Rightarrow> (Some (ser_cancel (env_codec e) True), s\<lparr>gs_queue := CancelMatch p (gs_queue s)\<rparr>))"

definition game_dispatch :: "'db server_env \<Rightarrow> clock \<Rightarrow> 'db game_service dispatch" where
  "game_dispatch e t =
     RegisterMethod ''CancelMatch'' (CancelMatchHandler e)
       (RegisterMethod ''EnterMatch'' (EnterMatchHandler e t)
         (RegisterMethod ''GetMetrics'' (MetricsHandler e t)
           \<lparr>handlers = \<lambda>m. map_option (room_handler e t) (handlers (room_dispatch (room_part (env_codec e))) m)\<rparr>))"

definition Dispatched :: "'db server_env \<Rightarrow> clock \<Rightarrow> frame \<Rightarrow> conn_ref \<Rightarrow> 'db game_service \<Rightarrow> 'db game_service" where
  "Dispatched e t f c s =
     (let s1 = (case DispatchCall (game_dispatch e t) (method_name f) (body f) s of
                  (Some rsp, s1) \<Rightarrow> respond f c Response (method_name f) rsp s1
                | (None, s1) \<Rightarrow> respond f c Error (method_name f) [] (count_error s1))
      in s1\<lparr>gs_metrics := OnRequest (fp_of_int Double ((ck_end t - ck_start t) div 1000)) (gs_metrics s1)\<rparr>)"

definition OnServerFrame :: "'db server_env \<Rightarrow> clock \<Rightarrow> frame \<Rightarrow> conn_ref \<Rightarrow> 'db game_service \<Rightarrow> 'db game_service" where
  "OnServerFrame e t f c s =
     (let s1 = s\<lparr>gs_metrics := MetricsTick (ck_start t) (gs_metrics s), active_conns := (active_conns s)(cfd c \<mapsto> c)\<rparr>;
          meth = method_name f
      in if meth = ''Register'' then HandleRegister e f c s1
         else if meth = ''Login'' then HandleLogin e f c s1
         else if meth = ''SelectMap'' then HandleSelectMap e t f c s1
         else if meth = ''Move'' then HandleMove e t f c s1
         else if meth = ''VoxelEdit'' then HandleVoxelEdit e f c s1
         else if meth = ''Craft'' then HandleCraft e f c s1
         else if meth = ''Gather'' then HandleGather e f c s1
         else if meth = ''PlaceBuilding'' then HandlePlaceBuilding e f c s1
         else Dispatched e t f c s1)"

subsection \<open>Disconnecting, starting, stopping\<close>

definition OnPlayerDisconnected :: "'db server_env \<Rightarrow> clock \<Rightarrow> int \<Rightarrow> 'db game_service \<Rightarrow> 'db game_service" where
  "OnPlayerDisconnected e t n s =
     (let s1 = s\<lparr>active_conns := (active_conns s)(n := None)\<rparr> in
      case fd_to_player s1 n of
        None \<Rightarrow> s1
      | Some p \<Rightarrow>
          let cd = env_codec e;
              s2 = SavePlayerAsync p s1;
              rid = GetPlayerRoom p (svc_rooms (gs_rooms s2));
              s3 = (if rid = '''' then s2
                    else (case LeaveRoomAndNotify True rid p (svc_rooms (gs_rooms s2)) of
                            (_, m, out) \<Rightarrow> send_events cd out (set_rooms m s2)));
              s4 = s3\<lparr>gs_queue := CancelMatch p (gs_queue s3)\<rparr>;
              s5 = UnregisterPlayerConn p (in_world cd (Leave p (gs_world s4)) s4)
          in s5\<lparr>gs_metrics := OnDisconnect (gs_metrics s5)\<rparr>)"

text \<open>
  The constructor, at time \<open>t\<close>: the stores connect (a failure is only logged), the scene is loaded
  and the database thread started.
\<close>

definition NewGameService :: "'db server_env \<Rightarrow> string \<Rightarrow> string \<Rightarrow> clock \<Rightarrow> 'db \<Rightarrow> 'db game_service" where
  "NewGameService e uri dbname t db =
     (let m = env_mongo e;
          (a, db1) = AccountStoreInit m uri dbname db;
          (p, db2) = PlayerStoreInit m uri dbname db1;
          (sc, db3) = SceneStoreInit m uri dbname db2;
          s = \<lparr>gs_rooms = new_service True (NowMs t) (ck_system t),
               gs_queue = SetMatchCallback (new_match_queue 30 (FNum 100) (FNum 20)),
               gs_timer = new_timer_manager, gs_world = new_world, gs_metrics = new_metrics (ck_start t),
               player_conns = Map.empty, fd_to_player = Map.empty, active_conns = Map.empty,
               gs_worker = new_db_worker, loop_calls = [], gs_db = db3,
               accounts_up = a, players_up = p, scenes_up = sc, gs_out = []\<rparr>;
          s1 = LoadOrSeedScene m (ck_system t div 1000 * 1000) s
      in s1\<lparr>gs_worker := DbStart (gs_worker s1)\<rparr>)"

text \<open>\<open>Stop\<close> up to the join of the database thread.\<close>

definition StopGameService :: "'db server_env \<Rightarrow> clock \<Rightarrow> 'db game_service \<Rightarrow> 'db game_service" where
  "StopGameService e t s =
     s\<lparr>gs_db := snd (SceneUpsert (env_mongo e) (scenes_up s) (ck_system t div 1000 * 1000)
         (ExportScene ''default'' (gs_world s)) (gs_db s)),
       gs_worker := DbStop (gs_worker s)\<rparr>"

subsection \<open>The two threads\<close>

text \<open>
  A step of the database thread, which runs the task it took when it finishes it, and the callbacks
  the event loop runs when it is woken up.
\<close>

definition DbThreadStep :: "'db server_env \<Rightarrow> int \<Rightarrow> 'db game_service \<Rightarrow> 'db game_service option" where
  "DbThreadStep e ms s =
     (case DbWorkerLoop (gs_worker s) of
        None \<Rightarrow> None
      | Some w \<Rightarrow> Some ((case thr (gs_worker s) of Busy t \<Rightarrow> RunDbTask e ms t s | _ \<Rightarrow> s)\<lparr>gs_worker := w\<rparr>))"

definition RunLoopCalls :: "'db server_env \<Rightarrow> clock \<Rightarrow> 'db game_service \<Rightarrow> 'db game_service" where
  "RunLoopCalls e t s = fold (RunLoopCall e t) (loop_calls s) (s\<lparr>loop_calls := []\<rparr>)"

end
