(* ===== verification/Game_Sessions.thy ===== *)
theory Game_Sessions
  imports Game_Service World_Rules
begin

text \<open>
  What holds of the server of \<open>Game_Service\<close> between events, whatever the clients do: its tables of
  connections, its rooms, its match queue and its database tasks, through every handler, and the runs
  of the server as a relation of single events.
\<close>

subsection \<open>What sending changes\<close>

lemma SendToPlayer_fields [simp]:
  "gs_rooms (SendToPlayer p meth d s) = gs_rooms s" "gs_queue (SendToPlayer p meth d s) = gs_queue s"
  "gs_timer (SendToPlayer p meth d s) = gs_timer s" "gs_world (SendToPlayer p meth d s) = gs_world s"
  "player_conns (SendToPlayer p meth d s) = player_conns s" "fd_to_player (SendToPlayer p meth d s) = fd_to_player s"
  "active_conns (SendToPlayer p meth d s) = active_conns s" "gs_worker (SendToPlayer p meth d s) = gs_worker s"
  "loop_calls (SendToPlayer p meth d s) = loop_calls s" "gs_db (SendToPlayer p meth d s) = gs_db s"
  "gs_metrics (SendToPlayer p meth d s) = gs_metrics s" "accounts_up (SendToPlayer p meth d s) = accounts_up s"
  "players_up (SendToPlayer p meth d s) = players_up s" "scenes_up (SendToPlayer p meth d s) = scenes_up s"
  by (simp_all add: SendToPlayer_def send_frame_def split: option.split)

lemma send_events_fields [simp]:
  "gs_rooms (send_events cd out s) = gs_rooms s" "gs_queue (send_events cd out s) = gs_queue s"
  "gs_timer (send_events cd out s) = gs_timer s" "gs_world (send_events cd out s) = gs_world s"
  "player_conns (send_events cd out s) = player_conns s" "fd_to_player (send_events cd out s) = fd_to_player s"
  "active_conns (send_events cd out s) = active_conns s" "gs_worker (send_events cd out s) = gs_worker s"
  "loop_calls (send_events cd out s) = loop_calls s" "gs_db (send_events cd out s) = gs_db s"
  "gs_metrics (send_events cd out s) = gs_metrics s" "accounts_up (send_events cd out s) = accounts_up s"
  "players_up (send_events cd out s) = players_up s" "scenes_up (send_events cd out s) = scenes_up s"
  unfolding send_events_def by (induction out arbitrary: s) (simp_all add: split_beta)

lemma send_world_fields:
  fixes s :: "'db game_service" and cd :: game_codec
  defines "send \<equiv> fold (\<lambda>(p, m). SendToPlayer p (world_method m) (ser_world cd m))"
  shows "gs_rooms (send ms s) = gs_rooms s" "gs_queue (send ms s) = gs_queue s" "gs_timer (send ms s) = gs_timer s"
    "gs_world (send ms s) = gs_world s" "player_conns (send ms s) = player_conns s"
    "fd_to_player (send ms s) = fd_to_player s" "active_conns (send ms s) = active_conns s"
    "gs_worker (send ms s) = gs_worker s" "loop_calls (send ms s) = loop_calls s" "gs_db (send ms s) = gs_db s"
    "gs_metrics (send ms s) = gs_metrics s" "accounts_up (send ms s) = accounts_up s"
    "players_up (send ms s) = players_up s" "scenes_up (send ms s) = scenes_up s"
  unfolding send_def by (induction ms arbitrary: s) (simp_all add: split_beta)

lemma in_world_fields [simp]:
  "gs_rooms (in_world cd r s) = gs_rooms s" "gs_queue (in_world cd r s) = gs_queue s"
  "gs_timer (in_world cd r s) = gs_timer s" "gs_world (in_world cd r s) = fst r"
  "player_conns (in_world cd r s) = player_conns s" "fd_to_player (in_world cd r s) = fd_to_player s"
  "active_conns (in_world cd r s) = active_conns s" "gs_worker (in_world cd r s) = gs_worker s"
  "loop_calls (in_world cd r s) = loop_calls s" "gs_db (in_world cd r s) = gs_db s"
  "gs_metrics (in_world cd r s) = gs_metrics s" "accounts_up (in_world cd r s) = accounts_up s"
  "players_up (in_world cd r s) = players_up s" "scenes_up (in_world cd r s) = scenes_up s"
  unfolding in_world_def by (simp_all add: send_world_fields)

lemmas quiet_defs = respond_def send_frame_def count_error_def post_task_def set_rooms_def

lemma save_fields [simp]:
  "gs_rooms (SavePlayerAsync p s) = gs_rooms s" "gs_queue (SavePlayerAsync p s) = gs_queue s"
  "gs_world (SavePlayerAsync p s) = gs_world s" "player_conns (SavePlayerAsync p s) = player_conns s"
  "fd_to_player (SavePlayerAsync p s) = fd_to_player s" "active_conns (SavePlayerAsync p s) = active_conns s"
  "loop_calls (SavePlayerAsync p s) = loop_calls s" "gs_db (SavePlayerAsync p s) = gs_db s"
  "gs_timer (SavePlayerAsync p s) = gs_timer s" "gs_metrics (SavePlayerAsync p s) = gs_metrics s"
  "gs_rooms (SaveSceneAsync s) = gs_rooms s" "gs_queue (SaveSceneAsync s) = gs_queue s"
  "gs_world (SaveSceneAsync s) = gs_world s" "player_conns (SaveSceneAsync s) = player_conns s"
  "fd_to_player (SaveSceneAsync s) = fd_to_player s" "active_conns (SaveSceneAsync s) = active_conns s"
  "loop_calls (SaveSceneAsync s) = loop_calls s" "gs_db (SaveSceneAsync s) = gs_db s"
  "gs_timer (SaveSceneAsync s) = gs_timer s" "gs_metrics (SaveSceneAsync s) = gs_metrics s"
  by (simp_all add: SavePlayerAsync_def SaveSceneAsync_def post_task_def split: option.split)

subsection \<open>What a request leaves alone\<close>

text \<open>
  The requests of the world and of accounts change neither the rooms nor who is logged in, and only
  post tasks to the worker.
\<close>

definition session_tables :: "'db game_service \<Rightarrow> (string \<rightharpoonup> conn_ref) \<times> (int \<rightharpoonup> string)" where
  "session_tables s = (player_conns s, fd_to_player s)"

lemmas world_handlers = HandleMove_def HandleSelectMap_def HandleVoxelEdit_def HandleCraft_def HandleGather_def
  HandlePlaceBuilding_def

lemma world_handlers_keep:
  "session_tables (HandleMove e t f c s) = session_tables s" "gs_rooms (HandleMove e t f c s) = gs_rooms s"
  "active_conns (HandleMove e t f c s) = active_conns s"
  "session_tables (HandleSelectMap e t f c s) = session_tables s" "gs_rooms (HandleSelectMap e t f c s) = gs_rooms s"
  "active_conns (HandleSelectMap e t f c s) = active_conns s"
  "session_tables (HandleVoxelEdit e f c s) = session_tables s" "gs_rooms (HandleVoxelEdit e f c s) = gs_rooms s"
  "active_conns (HandleVoxelEdit e f c s) = active_conns s"
  "session_tables (HandleCraft e f c s) = session_tables s" "gs_rooms (HandleCraft e f c s) = gs_rooms s"
  "active_conns (HandleCraft e f c s) = active_conns s"
  "session_tables (HandleGather e f c s) = session_tables s" "gs_rooms (HandleGather e f c s) = gs_rooms s"
  "active_conns (HandleGather e f c s) = active_conns s"
  "session_tables (HandlePlaceBuilding e f c s) = session_tables s"
  "gs_rooms (HandlePlaceBuilding e f c s) = gs_rooms s"
  "active_conns (HandlePlaceBuilding e f c s) = active_conns s"
  by (simp_all add: world_handlers session_tables_def Let_def quiet_defs split: option.split prod.split sum.split)

lemma account_handlers_keep:
  "session_tables (HandleRegister e f c s) = session_tables s" "gs_rooms (HandleRegister e f c s) = gs_rooms s"
  "session_tables (HandleLogin e f c s) = session_tables s" "gs_rooms (HandleLogin e f c s) = gs_rooms s"
  "active_conns (HandleRegister e f c s) = active_conns s \<or>
     active_conns (HandleRegister e f c s) = (active_conns s)(cfd c \<mapsto> c)"
  "active_conns (HandleLogin e f c s) = active_conns s \<or>
     active_conns (HandleLogin e f c s) = (active_conns s)(cfd c \<mapsto> c)"
  by (simp_all add: HandleRegister_def HandleLogin_def session_tables_def quiet_defs split: option.split)

lemma OnMatchFound_keep:
  "session_tables (OnMatchFound e t mc s) = session_tables s" "active_conns (OnMatchFound e t mc s) = active_conns s"
  "gs_worker (OnMatchFound e t mc s) = gs_worker s" "gs_queue (OnMatchFound e t mc s) = gs_queue s"
  "gs_world (OnMatchFound e t mc s) = gs_world s"
  by (simp_all add: OnMatchFound_def session_tables_def Let_def set_rooms_def split: prod.split)

lemma matches_keep:
  "session_tables (fold (OnMatchFound e t) mcs s) = session_tables s"
  "active_conns (fold (OnMatchFound e t) mcs s) = active_conns s"
  "gs_worker (fold (OnMatchFound e t) mcs s) = gs_worker s"
  by (induction mcs arbitrary: s) (simp_all add: OnMatchFound_keep)

lemmas matches_tables = matches_keep(1) [unfolded session_tables_def prod.inject, THEN conjunct1]
  matches_keep(1) [unfolded session_tables_def prod.inject, THEN conjunct2]

subsection \<open>Dispatched requests\<close>

lemma game_dispatch_simps:
  "DispatchCall (game_dispatch e t) meth bdy s =
     (if meth = ''CancelMatch'' then CancelMatchHandler e bdy s
      else if meth = ''EnterMatch'' then EnterMatchHandler e t bdy s
      else if meth = ''GetMetrics'' then MetricsHandler e t bdy s
      else (case handlers (room_dispatch (room_part (env_codec e))) meth of
              None \<Rightarrow> (None, s)
            | Some h \<Rightarrow> room_handler e t h bdy s))"
  by (simp add: game_dispatch_def DispatchCall_def RegisterMethod_def split: option.split)

lemma room_handler_keep:
  "session_tables (snd (room_handler e t h bdy s)) = session_tables s"
  "active_conns (snd (room_handler e t h bdy s)) = active_conns s"
  "gs_worker (snd (room_handler e t h bdy s)) = gs_worker s"
  "gs_queue (snd (room_handler e t h bdy s)) = gs_queue s"
  by (simp_all add: room_handler_def session_tables_def split: prod.split)

lemma Dispatched_keep:
  "session_tables (Dispatched e t f c s) = session_tables s"
  "active_conns (Dispatched e t f c s) = active_conns s"
  "gs_worker (Dispatched e t f c s) = gs_worker s"
proof -
  let ?P = "\<lambda>s'. session_tables s' = session_tables s \<and> active_conns s' = active_conns s \<and> gs_worker s' = gs_worker s"
  have m: "?P (snd (EnterMatchHandler e t (body f) s))"
    by (simp add: EnterMatchHandler_def matches_keep matches_tables session_tables_def split: option.split prod.split)
  have "?P (snd (MetricsHandler e t (body f) s))" "?P (snd (CancelMatchHandler e (body f) s))"
    by (simp_all add: MetricsHandler_def CancelMatchHandler_def session_tables_def split: option.split prod.split)
  then have "?P (snd (DispatchCall (game_dispatch e t) (method_name f) (body f) s))"
    using m by (simp add: game_dispatch_simps room_handler_keep split: option.split)
  then show "session_tables (Dispatched e t f c s) = session_tables s"
    "active_conns (Dispatched e t f c s) = active_conns s" "gs_worker (Dispatched e t f c s) = gs_worker s"
    by (cases "DispatchCall (game_dispatch e t) (method_name f) (body f) s";
        simp add: Dispatched_def Let_def quiet_defs session_tables_def split: option.split)+
qed

subsection \<open>The tables of connections\<close>

definition conns_ok :: "conn_ref list \<Rightarrow> 'db game_service \<Rightarrow> bool" where
  "conns_ok lv s \<longleftrightarrow> distinct (map cfd lv) \<and>
     (\<forall>p c. player_conns s p = Some c \<longrightarrow> c \<in> set lv \<and> fd_to_player s (cfd c) = Some p) \<and>
     (\<forall>n c. active_conns s n = Some c \<longrightarrow> c \<in> set lv \<and> cfd c = n)"

lemma conns_okD:
  assumes "conns_ok lv s"
  shows "distinct (map cfd lv)" "player_conns s p = Some c \<Longrightarrow> c \<in> set lv"
    "player_conns s p = Some c \<Longrightarrow> fd_to_player s (cfd c) = Some p"
    "active_conns s n = Some c' \<Longrightarrow> c' \<in> set lv \<and> cfd c' = n"
  using assms by (auto simp: conns_ok_def)

lemma same_fd: "distinct (map cfd lv) \<Longrightarrow> c \<in> set lv \<Longrightarrow> c' \<in> set lv \<Longrightarrow> cfd c = cfd c' \<Longrightarrow> c = c'"
  by (auto simp: distinct_map dest: inj_onD)

lemma conns_ok_same:
  "conns_ok lv s \<Longrightarrow> session_tables s' = session_tables s \<Longrightarrow> active_conns s' = active_conns s \<Longrightarrow> conns_ok lv s'"
  by (simp add: conns_ok_def session_tables_def)

lemma conns_ok_active:
  "conns_ok lv s \<Longrightarrow> c \<in> set lv \<Longrightarrow> session_tables s' = session_tables s \<Longrightarrow>
     active_conns s' = (active_conns s)(cfd c \<mapsto> c) \<Longrightarrow> conns_ok lv s'"
  by (auto simp: conns_ok_def session_tables_def)

lemma Unregister_conns: "conns_ok lv s \<Longrightarrow> conns_ok lv (UnregisterPlayerConn p s)"
proof -
  assume ok: "conns_ok lv s"
  show ?thesis
  proof (cases "player_conns s p")
    case (Some c)
    have "c' \<in> set lv \<and> fd_to_player (UnregisterPlayerConn p s) (cfd c') = Some q"
      if q: "player_conns (UnregisterPlayerConn p s) q = Some c'" for q c'
    proof -
      have q': "q \<noteq> p" "player_conns s q = Some c'" using q Some by (auto simp: UnregisterPlayerConn_def split: if_splits)
      then have "cfd c' \<noteq> cfd c" using conns_okD(3) [OF ok Some] conns_okD(3) [OF ok q'(2)] by auto
      then show ?thesis using conns_okD(2,3) [OF ok q'(2)] by (simp add: UnregisterPlayerConn_def Some)
    qed
    then show ?thesis using ok Some unfolding conns_ok_def by (simp add: UnregisterPlayerConn_def)
  qed (use ok in \<open>simp add: UnregisterPlayerConn_def\<close>)
qed

lemma Unregister_fields [simp]:
  "player_conns (UnregisterPlayerConn p s) p = None"
  "active_conns (UnregisterPlayerConn p s) = active_conns s"
  "gs_rooms (UnregisterPlayerConn p s) = gs_rooms s" "gs_queue (UnregisterPlayerConn p s) = gs_queue s"
  "gs_world (UnregisterPlayerConn p s) = gs_world s" "gs_worker (UnregisterPlayerConn p s) = gs_worker s"
  by (simp_all add: UnregisterPlayerConn_def split: option.split)

lemma Unregister_player_conns: "player_conns (UnregisterPlayerConn p s) = (player_conns s)(p := None)"
  by (auto simp: UnregisterPlayerConn_def split: option.split)

text \<open>A login on a connection: whoever was logged in there is gone first.\<close>

lemma Register_conns:
  assumes "conns_ok lv s" and "c \<in> set lv" and old: "\<And>q. fd_to_player s (cfd c) = Some q \<Longrightarrow> player_conns s q = None \<or> q = p"
  shows "conns_ok lv (RegisterPlayerConn p c s)"
proof -
  have "\<not> (player_conns s q = Some c' \<and> cfd c' = cfd c \<and> q \<noteq> p)" for q c'
    using conns_okD(3) [OF assms(1), of q c'] old [of q] by auto
  with assms(1,2) show ?thesis by (auto simp: conns_ok_def RegisterPlayerConn_def)
qed

lemma drop_old_player_keep:
  "gs_rooms (drop_old_player cd n p s) = gs_rooms s" "active_conns (drop_old_player cd n p s) = active_conns s"
  by (simp_all add: drop_old_player_def Let_def split: option.split)

lemma drop_old_player_tables:
  "session_tables (drop_old_player cd n p s) =
     (case fd_to_player s n of
        None \<Rightarrow> session_tables s
      | Some old \<Rightarrow> if old = p then session_tables s else session_tables (UnregisterPlayerConn old s))"
  by (simp add: drop_old_player_def Let_def session_tables_def UnregisterPlayerConn_def split: option.split)

lemma LoginSucceeded_keep:
  "gs_rooms (LoginSucceeded e t rid p st c n s) = gs_rooms s"
  "active_conns (LoginSucceeded e t rid p st c n s) = active_conns s"
  "session_tables (LoginSucceeded e t rid p st c n s) =
     session_tables (RegisterPlayerConn p c (drop_old_player (env_codec e) n p s))"
  by (simp_all add: LoginSucceeded_def Let_def session_tables_def quiet_defs RegisterPlayerConn_def drop_old_player_keep)

lemma LoginSucceeded_conns:
  assumes ok: "conns_ok lv s" and c: "active_conns s n = Some c"
  shows "conns_ok lv (LoginSucceeded e t rid p st c n s)"
proof -
  have c': "c \<in> set lv" "cfd c = n" using conns_okD(4) [OF ok c] by auto
  let ?s = "drop_old_player (env_codec e) n p s"
  have s: "conns_ok lv ?s"
  proof (cases "fd_to_player s n = None \<or> fd_to_player s n = Some p")
    case True
    then have "?s = s" by (auto simp: drop_old_player_def)
    with ok show ?thesis by simp
  next
    case False
    then obtain old where "fd_to_player s n = Some old" "old \<noteq> p" by auto
    then show ?thesis
      by (intro conns_ok_same [OF Unregister_conns [OF ok, of old]]) (simp_all add: drop_old_player_tables drop_old_player_keep)
  qed
  have "player_conns ?s q = None \<or> q = p" if q: "fd_to_player ?s (cfd c) = Some q" for q
  proof (cases "fd_to_player s n")
    case (Some old)
    then show ?thesis
    proof (cases "old = p")
      case False
      with Some have t: "session_tables ?s = session_tables (UnregisterPlayerConn old s)" by (simp add: drop_old_player_tables)
      then have "fd_to_player ?s = fd_to_player (UnregisterPlayerConn old s)"
        "player_conns ?s = player_conns (UnregisterPlayerConn old s)" by (simp_all add: session_tables_def)
      with q Some c'(2) show ?thesis
        by (auto simp: UnregisterPlayerConn_def split: option.splits if_splits)
    qed (use Some q c' in \<open>simp add: drop_old_player_def\<close>)
  qed (use q c' in \<open>simp add: drop_old_player_def\<close>)
  from Register_conns [OF s c'(1) this] show ?thesis
    by (rule conns_ok_same) (simp_all add: LoginSucceeded_keep RegisterPlayerConn_def drop_old_player_keep)
qed

lemma RunLoopCall_conns: "conns_ok lv s \<Longrightarrow> conns_ok lv (RunLoopCall e t lc s)"
  by (cases lc) (auto simp: loop_call_defs Let_def quiet_defs session_tables_def LoginSucceeded_conns
      split: option.split intro: conns_ok_same)

lemma RunLoopCall_rooms: "gs_rooms (RunLoopCall e t lc s) = gs_rooms s"
  by (cases lc) (simp_all add: loop_call_defs Let_def quiet_defs LoginSucceeded_keep split: option.split)

lemma OnServerFrame_conns: "conns_ok lv s \<Longrightarrow> c \<in> set lv \<Longrightarrow> conns_ok lv (OnServerFrame e t f c s)"
proof -
  assume ok: "conns_ok lv s" and c: "c \<in> set lv"
  let ?s = "s\<lparr>gs_metrics := MetricsTick (ck_start t) (gs_metrics s), active_conns := (active_conns s)(cfd c \<mapsto> c)\<rparr>"
  have s: "conns_ok lv ?s" by (rule conns_ok_active [OF ok c]) (simp_all add: session_tables_def)
  note same = conns_ok_same [OF s] and act = conns_ok_active [OF s c]
  have "conns_ok lv (HandleRegister e f c ?s)" "conns_ok lv (HandleLogin e f c ?s)"
    using account_handlers_keep(5,6) [of e f c ?s] by (auto intro: same act simp: account_handlers_keep)
  moreover have "conns_ok lv (HandleSelectMap e t f c ?s)" "conns_ok lv (HandleMove e t f c ?s)"
    "conns_ok lv (HandleVoxelEdit e f c ?s)" "conns_ok lv (HandleCraft e f c ?s)" "conns_ok lv (HandleGather e f c ?s)"
    "conns_ok lv (HandlePlaceBuilding e f c ?s)" "conns_ok lv (Dispatched e t f c ?s)"
    by (rule same; simp add: world_handlers_keep Dispatched_keep)+
  ultimately show ?thesis by (simp add: OnServerFrame_def Let_def)
qed

lemma disconnect_fields:
  "active_conns (OnPlayerDisconnected e t n s) = (active_conns s)(n := None)"
  "session_tables (OnPlayerDisconnected e t n s) =
     (case fd_to_player s n of None \<Rightarrow> session_tables s | Some p \<Rightarrow> session_tables (UnregisterPlayerConn p s))"
  by (auto simp: OnPlayerDisconnected_def Let_def session_tables_def set_rooms_def UnregisterPlayerConn_def
      split: option.split prod.split)

lemma disconnect_conns:
  assumes ok: "conns_ok lv s" and c: "c \<in> set lv"
  shows "conns_ok (remove1 c lv) (OnPlayerDisconnected e t (cfd c) s)"
proof -
  let ?s = "OnPlayerDisconnected e t (cfd c) s"
  define u where "u = (case fd_to_player s (cfd c) of None \<Rightarrow> s | Some p \<Rightarrow> UnregisterPlayerConn p s)"
  have u: "conns_ok lv u" using ok by (simp add: u_def Unregister_conns split: option.split)
  have t: "player_conns ?s = player_conns u" "fd_to_player ?s = fd_to_player u"
    using disconnect_fields(2) [of e t "cfd c" s] by (auto simp: u_def session_tables_def split: option.splits)
  have gone: "player_conns u p \<noteq> Some c" for p
  proof
    assume p: "player_conns u p = Some c"
    have "player_conns s p = Some c" using p
      by (auto simp: u_def Unregister_player_conns split: option.splits if_splits)
    then have "fd_to_player s (cfd c) = Some p" using conns_okD(3) [OF ok] by blast
    then show False using p by (simp add: u_def)
  qed
  have d: "distinct lv" using conns_okD(1) [OF ok] by (simp add: distinct_map)
  have "c' \<in> set (remove1 c lv)" if "player_conns u p = Some c'" for p c'
    using conns_okD(2) [OF u that] gone [of p] that d by (auto simp: set_remove1_eq)
  moreover have "c' \<in> set (remove1 c lv) \<and> cfd c' = n" if "active_conns ?s n = Some c'" for n c'
    using that conns_okD(4) [OF ok, of n c'] d by (auto simp: disconnect_fields set_remove1_eq split: if_splits)
  moreover have "distinct (map cfd (remove1 c lv))"
    using conns_okD(1) [OF ok] by (auto simp: distinct_map d set_remove1_eq intro: inj_on_subset)
  ultimately show ?thesis using conns_okD(3) [OF u] by (simp add: conns_ok_def t)
qed

subsection \<open>The rooms\<close>

definition ids_left :: "nat \<Rightarrow> room_manager \<Rightarrow> bool" where
  "ids_left n m \<longleftrightarrow> unat (room_id_counter m) + n < 2 ^ 64"

definition rooms_fit :: "(room_manager \<Rightarrow> bool) \<Rightarrow> 'db game_service \<Rightarrow> bool" where
  "rooms_fit I s \<longleftrightarrow> I (svc_rooms (gs_rooms s))"

lemma CreateRoom_counter:
  "ids_left (Suc n) m \<Longrightarrow> ids_left n (snd (CreateRoom now p maxp t m))"
  by (auto simp: ids_left_def CreateRoom_def GenerateRoomId_def Let_def unat_word_ariths)

lemma JoinRoom_counter [simp]: "room_id_counter (snd (JoinRoom rid p m)) = room_id_counter m"
  by (auto simp: JoinRoom_def Let_def split: option.split prod.split)

lemma match_scan_short: "2 * length (fst (match_scan now mq es)) \<le> length es"
  by (induction now mq es rule: match_scan.induct) (auto split: prod.split)

lemma TryMatch_short: "length (fst (snd (TryMatch now mq))) \<le> length (mq_entries mq)"
  using match_scan_short [of now mq "mq_entries mq"] by (auto simp: TryMatch_def Let_def split: prod.splits)

lemma EnterQueue_size: "length (mq_entries (EnterQueue now p sc mq)) \<le> Suc (length (mq_entries mq))"
proof -
  have "length (sort_entries es) = length es" for es by (metis size_mset sort_entries_mset)
  then show ?thesis by (auto simp: EnterQueue_def insert_at_def min_def split: option.split)
qed

text \<open>Every request keeps what the operations of the room manager keep.\<close>

context room_keeper
begin

lemma OnMatchFound_rooms:
  assumes "rooms_fit I s" and "ids_left (Suc n) (svc_rooms (gs_rooms s))"
  shows "rooms_fit I (OnMatchFound e t mc s) \<and> ids_left n (svc_rooms (gs_rooms (OnMatchFound e t mc s)))"
proof -
  obtain p1 s1 p2 s2 where mc: "mc = (p1, s1, p2, s2)" by (cases mc)
  let ?m = "svc_rooms (gs_rooms s)"
  obtain res m1 where m1: "CreateRoom (NowMs t) p1 2 kDefaultRoomTimeoutMs ?m = (res, m1)" by force
  have "counter_left ?m" using assms(2) by (simp add: ids_left_def counter_left_def)
  then have g1: "I m1" "ids_left n m1"
    using keeps_create [of ?m "NowMs t" p1 2 kDefaultRoomTimeoutMs] CreateRoom_counter [OF assms(2), of "NowMs t" p1 2 kDefaultRoomTimeoutMs]
      assms(1) m1 by (simp_all add: rooms_fit_def)
  define m2 where "m2 = update_room (res_room_id res) (SetState ROOM_STATE_WAITING) m1"
  have "I m2" using g1(1) by (simp add: m2_def keeps_open)
  then have "I (snd (JoinRoom rid p2 m2))" for rid by (rule keeps_join)
  moreover have "ids_left n (snd (JoinRoom rid p2 m2))" for rid using g1(2) by (simp add: ids_left_def m2_def)
  ultimately show ?thesis using g1
    by (simp add: rooms_fit_def OnMatchFound_def mc m1 Let_def set_rooms_def flip: m2_def)
qed

lemma matches_rooms:
  "rooms_fit I s \<Longrightarrow> ids_left (Suc (length mcs)) (svc_rooms (gs_rooms s)) \<Longrightarrow> rooms_fit I (fold (OnMatchFound e t) mcs s)"
proof (induction mcs arbitrary: s)
  case (Cons mc mcs)
  from OnMatchFound_rooms [OF Cons.prems(1), of "Suc (length mcs)" e t mc] Cons show ?case by simp
qed simp

lemma EnterMatch_rooms:
  assumes "rooms_fit I s" and left: "ids_left (length (mq_entries (gs_queue s)) + 2) (svc_rooms (gs_rooms s))"
  shows "rooms_fit I (snd (EnterMatchHandler e t bdy s))"
proof (cases "parse_match (env_codec e) bdy")
  case (Some req)
  let ?q = "EnterQueue (ck_system t) (mp_player req) (mp_score req) (gs_queue s)"
  obtain ps calls mq where tm: "TryMatch (ck_system t) ?q = (ps, calls, mq)" using prod_cases3 by blast
  have "length calls \<le> Suc (length (mq_entries (gs_queue s)))"
    using TryMatch_short [of "ck_system t" ?q] EnterQueue_size [of "ck_system t" "mp_player req" "mp_score req" "gs_queue s"]
    by (simp add: tm)
  then have "ids_left (Suc (length calls)) (svc_rooms (gs_rooms s))" using left by (simp add: ids_left_def)
  moreover have "rooms_fit I (s\<lparr>gs_queue := mq\<rparr>)" using assms(1) by (simp add: rooms_fit_def)
  ultimately have "rooms_fit I (fold (OnMatchFound e t) calls (s\<lparr>gs_queue := mq\<rparr>))" by (intro matches_rooms) simp_all
  then show ?thesis using tm Some by (simp add: EnterMatchHandler_def)
qed (use assms in \<open>simp add: EnterMatchHandler_def\<close>)

lemma room_handler_rooms:
  assumes "rooms_fit I s" and "ids_left 1 (svc_rooms (gs_rooms s))" and h: "handlers (room_dispatch (room_part (env_codec e))) meth = Some h"
  shows "rooms_fit I (snd (room_handler e t h bdy s))"
proof -
  let ?r = "(gs_rooms s)\<lparr>svc_sent := [], steady_now := NowMs t, system_now := ck_system t\<rparr>"
  have "I (svc_rooms (snd (DispatchCall (room_dispatch (room_part (env_codec e))) meth bdy ?r)))"
    using assms(1,2) by (intro svc_keeps) (simp_all add: rooms_fit_def ids_left_def counter_left_def)
  then show ?thesis
    by (cases "h bdy ?r") (simp add: DispatchCall_def h room_handler_def rooms_fit_def)
qed

lemma Dispatched_rooms:
  assumes "rooms_fit I s" and "ids_left (length (mq_entries (gs_queue s)) + 2) (svc_rooms (gs_rooms s))"
  shows "rooms_fit I (Dispatched e t f c s)"
proof -
  have "ids_left 1 (svc_rooms (gs_rooms s))" using assms(2) by (simp add: ids_left_def)
  note h = room_handler_rooms [OF assms(1) this]
  have "rooms_fit I (snd (DispatchCall (game_dispatch e t) (method_name f) (body f) s))"
    using EnterMatch_rooms [OF assms, of e t "body f"] assms(1)
    by (simp add: game_dispatch_simps h CancelMatchHandler_def MetricsHandler_def split: option.split prod.split)
      (simp add: rooms_fit_def)
  then show ?thesis
    by (cases "DispatchCall (game_dispatch e t) (method_name f) (body f) s")
      (simp add: Dispatched_def Let_def quiet_defs rooms_fit_def split: option.split)
qed

lemma OnServerFrame_rooms:
  assumes "rooms_fit I s" and "ids_left (length (mq_entries (gs_queue s)) + 2) (svc_rooms (gs_rooms s))"
  shows "rooms_fit I (OnServerFrame e t f c s)"
proof -
  let ?s = "s\<lparr>gs_metrics := MetricsTick (ck_start t) (gs_metrics s), active_conns := (active_conns s)(cfd c \<mapsto> c)\<rparr>"
  have "rooms_fit I ?s" "ids_left (length (mq_entries (gs_queue ?s)) + 2) (svc_rooms (gs_rooms ?s))"
    using assms by (simp_all add: rooms_fit_def)
  then show ?thesis using Dispatched_rooms [of ?s e t f c]
    by (simp add: OnServerFrame_def Let_def rooms_fit_def world_handlers_keep account_handlers_keep)
qed

lemma LeaveRoomAndNotify_keeps:
  "I m \<Longrightarrow> LeaveRoomAndNotify b rid p m = (res, m', out) \<Longrightarrow> I m'"
  using keeps_leave [of m rid p] by (auto simp: LeaveRoomAndNotify_def split: option.splits prod.splits if_splits)

lemma disconnect_rooms: "rooms_fit I s \<Longrightarrow> rooms_fit I (OnPlayerDisconnected e t n s)"
  by (auto simp: OnPlayerDisconnected_def Let_def rooms_fit_def set_rooms_def LeaveRoomAndNotify_keeps
      split: option.split prod.split)

end

subsection \<open>The database tasks\<close>

definition tasks_fit :: "'db game_service \<Rightarrow> bool" where
  "tasks_fit s \<longleftrightarrow> db_inv (gs_worker s)"

lemma post_task_fit: "tasks_fit s \<Longrightarrow> tasks_fit (post_task t s)"
  by (simp add: tasks_fit_def post_task_def) (rule db_step_inv [OF db_post])

lemma save_fit: "tasks_fit s \<Longrightarrow> tasks_fit (SavePlayerAsync p s)" "tasks_fit s \<Longrightarrow> tasks_fit (SaveSceneAsync s)"
  by (auto simp: SavePlayerAsync_def SaveSceneAsync_def post_task_fit split: option.split)

lemma same_worker_fit: "tasks_fit s \<Longrightarrow> gs_worker s' = gs_worker s \<Longrightarrow> tasks_fit s'"
  by (simp add: tasks_fit_def)

lemma fit_sends [simp]:
  "tasks_fit (respond f c mt meth d s) = tasks_fit s" "tasks_fit (send_frame c d s) = tasks_fit s"
  "tasks_fit (in_world cd r s) = tasks_fit s" "tasks_fit (count_error s) = tasks_fit s"
  "tasks_fit (s\<lparr>gs_world := w\<rparr>) = tasks_fit s" "tasks_fit (s\<lparr>active_conns := ac\<rparr>) = tasks_fit s"
  "tasks_fit (s\<lparr>gs_metrics := m, active_conns := ac\<rparr>) = tasks_fit s" "tasks_fit (s\<lparr>gs_metrics := m\<rparr>) = tasks_fit s"
  "tasks_fit (s\<lparr>gs_queue := mq\<rparr>) = tasks_fit s" "tasks_fit (set_rooms rm s) = tasks_fit s"
  "tasks_fit (send_events cd out s) = tasks_fit s" "tasks_fit (UnregisterPlayerConn p s) = tasks_fit s"
  "tasks_fit (RegisterPlayerConn p c s) = tasks_fit s"
  by (simp_all add: tasks_fit_def respond_def send_frame_def count_error_def set_rooms_def RegisterPlayerConn_def)

lemma world_handlers_fit:
  assumes "tasks_fit s"
  shows "tasks_fit (HandleMove e t f c s)" "tasks_fit (HandleSelectMap e t f c s)" "tasks_fit (HandleVoxelEdit e f c s)"
    "tasks_fit (HandleCraft e f c s)" "tasks_fit (HandleGather e f c s)" "tasks_fit (HandlePlaceBuilding e f c s)"
    "tasks_fit (HandleRegister e f c s)" "tasks_fit (HandleLogin e f c s)"
  using assms by (simp_all add: world_handlers HandleRegister_def HandleLogin_def Let_def save_fit post_task_fit
      split: option.split prod.split sum.split)

lemma OnServerFrame_fit: "tasks_fit s \<Longrightarrow> tasks_fit (OnServerFrame e t f c s)"
proof -
  assume s: "tasks_fit s"
  let ?s = "s\<lparr>gs_metrics := MetricsTick (ck_start t) (gs_metrics s), active_conns := (active_conns s)(cfd c \<mapsto> c)\<rparr>"
  have "tasks_fit ?s" using s by simp
  moreover from this have "tasks_fit (Dispatched e t f c ?s)" by (rule same_worker_fit) (rule Dispatched_keep)
  ultimately show ?thesis by (simp add: OnServerFrame_def Let_def world_handlers_fit)
qed

lemma disconnect_fit: "tasks_fit s \<Longrightarrow> tasks_fit (OnPlayerDisconnected e t n s)"
  by (auto simp: OnPlayerDisconnected_def Let_def save_fit split: option.split prod.split)

lemma RunLoopCall_fit: "tasks_fit s \<Longrightarrow> tasks_fit (RunLoopCall e t lc s)"
  by (cases lc) (auto simp: loop_call_defs LoginSucceeded_def drop_old_player_def Let_def save_fit split: option.split)

subsection \<open>The match queue\<close>

definition queue_fit :: "'db game_service \<Rightarrow> bool" where
  "queue_fit s \<longleftrightarrow> distinct (map qe_player (mq_entries (gs_queue s)))"

lemma CancelMatch_out: "distinct (map qe_player (mq_entries mq)) \<Longrightarrow> \<not> IsInQueue p (CancelMatch p mq)"
proof (cases "FindIndex p (mq_entries mq)")
  case (Some i)
  assume d: "distinct (map qe_player (mq_entries mq))"
  let ?es = "mq_entries mq"
  have i: "i < length ?es" "qe_player (?es ! i) = p" using FindIndex_Some [OF Some] by auto
  have "distinct (map qe_player (take i ?es @ ?es ! i # drop (Suc i) ?es))" using d i(1) by (simp flip: id_take_nth_drop)
  then show ?thesis using i(2) Some
    by (auto simp: IsInQueue_def CancelMatch_def erase_at_def FindIndex_None)
qed (simp add: IsInQueue_def CancelMatch_def)

lemma queue_distinct_subseq:
  "subseq (mq_entries mq') (mq_entries mq) \<Longrightarrow> distinct (map qe_player (mq_entries mq)) \<Longrightarrow>
     distinct (map qe_player (mq_entries mq'))"
  by (rule subseq_distinct [OF subseq_map [of _ _ qe_player]])

lemma EnterQueue_distinct:
  assumes "distinct (map qe_player (mq_entries mq))"
  shows "distinct (map qe_player (mq_entries (EnterQueue now p sc mq)))"
proof (cases "FindIndex p (mq_entries mq)")
  case None
  let ?e = "\<lparr>qe_player = p, qe_score = sc, qe_time = now\<rparr>"
  have "distinct (map qe_player (?e # mq_entries mq))" using assms None by (simp add: FindIndex_None)
  moreover obtain i where es: "mq_entries (EnterQueue now p sc mq) = insert_at i ?e (mq_entries mq)"
    by (simp add: EnterQueue_def None)
  have m: "mset (insert_at i ?e (mq_entries mq)) = mset (?e # mq_entries mq)"
    by (simp add: insert_at_def) (metis append_take_drop_id mset_append)
  ultimately show ?thesis using distinct_mset_players [OF m] by (simp only: es)
next
  case (Some i)
  have "map qe_player ((mq_entries mq)[i := (mq_entries mq ! i)\<lparr>qe_score := sc\<rparr>]) = map qe_player (mq_entries mq)"
    by (simp add: map_update list_update_same_conv FindIndex_Some [OF Some])
  with assms show ?thesis using distinct_mset_players [OF sort_entries_mset] by (simp add: EnterQueue_def Some)
qed

lemma matches_queue: "gs_queue (fold (OnMatchFound e t) mcs s) = gs_queue s"
  by (induction mcs arbitrary: s) (simp_all add: OnMatchFound_keep)

lemma Dispatched_queue: "queue_fit s \<Longrightarrow> queue_fit (Dispatched e t f c s)"
proof -
  assume s: "queue_fit s"
  have "queue_fit (snd (EnterMatchHandler e t (body f) s))"
  proof (cases "parse_match (env_codec e) (body f)")
    case (Some req)
    let ?q = "EnterQueue (ck_system t) (mp_player req) (mp_score req) (gs_queue s)"
    obtain ps calls mq where tm: "TryMatch (ck_system t) ?q = (ps, calls, mq)" using prod_cases3 by blast
    have "distinct (map qe_player (mq_entries mq))"
      using queue_distinct_subseq [OF TryMatch_subseq, of ?q "ck_system t"] EnterQueue_distinct s by (simp add: tm queue_fit_def)
    then show ?thesis using tm Some by (simp add: EnterMatchHandler_def queue_fit_def matches_queue)
  qed (use s in \<open>simp add: EnterMatchHandler_def\<close>)
  moreover have "queue_fit (snd (CancelMatchHandler e (body f) s))"
    using s queue_distinct_subseq [OF CancelMatch_subseq, of "gs_queue s"]
    by (simp add: CancelMatchHandler_def queue_fit_def split: option.split)
  moreover have "queue_fit (snd (MetricsHandler e t (body f) s))"
    using s by (simp add: MetricsHandler_def queue_fit_def split: prod.split)
  ultimately have "queue_fit (snd (DispatchCall (game_dispatch e t) (method_name f) (body f) s))"
    using s by (simp add: game_dispatch_simps room_handler_keep split: option.split) (simp add: queue_fit_def room_handler_keep)
  then show ?thesis
    by (cases "DispatchCall (game_dispatch e t) (method_name f) (body f) s")
      (simp add: Dispatched_def Let_def quiet_defs queue_fit_def split: option.split)
qed

lemma handlers_queue:
  "gs_queue (HandleMove e t f c s) = gs_queue s" "gs_queue (HandleSelectMap e t f c s) = gs_queue s"
  "gs_queue (HandleVoxelEdit e f c s) = gs_queue s" "gs_queue (HandleCraft e f c s) = gs_queue s"
  "gs_queue (HandleGather e f c s) = gs_queue s" "gs_queue (HandlePlaceBuilding e f c s) = gs_queue s"
  "gs_queue (HandleRegister e f c s) = gs_queue s" "gs_queue (HandleLogin e f c s) = gs_queue s"
  by (simp_all add: world_handlers HandleRegister_def HandleLogin_def Let_def quiet_defs split: option.split prod.split sum.split)

lemma OnServerFrame_queue: "queue_fit s \<Longrightarrow> queue_fit (OnServerFrame e t f c s)"
  using Dispatched_queue [of "s\<lparr>gs_metrics := MetricsTick (ck_start t) (gs_metrics s),
      active_conns := (active_conns s)(cfd c \<mapsto> c)\<rparr>" e t f c]
  by (simp add: OnServerFrame_def Let_def handlers_queue queue_fit_def)

lemma disconnect_queue:
  "gs_queue (OnPlayerDisconnected e t n s) =
     (case fd_to_player s n of None \<Rightarrow> gs_queue s | Some p \<Rightarrow> CancelMatch p (gs_queue s))"
  by (auto simp: OnPlayerDisconnected_def Let_def set_rooms_def split: option.split prod.split)

lemma RunLoopCall_queue: "gs_queue (RunLoopCall e t lc s) = gs_queue s"
  by (cases lc) (simp_all add: loop_call_defs LoginSucceeded_def drop_old_player_def RegisterPlayerConn_def Let_def
      quiet_defs split: option.split)

subsection \<open>Runs of the server\<close>

lemma RunDbTask_keep:
  "player_conns (RunDbTask e ms t s) = player_conns s" "fd_to_player (RunDbTask e ms t s) = fd_to_player s"
  "active_conns (RunDbTask e ms t s) = active_conns s"
  "gs_rooms (RunDbTask e ms t s) = gs_rooms s" "gs_queue (RunDbTask e ms t s) = gs_queue s"
  by (cases t; simp add: RunDbTask_def Let_def split: prod.split)+

lemma DbThreadStep_keep:
  assumes "DbThreadStep e ms s = Some s'"
  shows "session_tables s' = session_tables s" "active_conns s' = active_conns s" "gs_rooms s' = gs_rooms s"
    "gs_queue s' = gs_queue s" "DbWorkerLoop (gs_worker s) = Some (gs_worker s')"
  using assms RunDbTask_keep
  by (auto simp: DbThreadStep_def session_tables_def split: option.splits db_thread.splits)

lemma RunLoopCalls_all:
  assumes "\<And>s lc. P s \<Longrightarrow> P (RunLoopCall e t lc s)" and "P (s\<lparr>loop_calls := []\<rparr>)"
  shows "P (RunLoopCalls e t s)"
proof -
  have "P (fold (RunLoopCall e t) lcs s')" if "P s'" for lcs s'
    using that assms(1) by (induction lcs arbitrary: s') auto
  then show ?thesis using assms(2) by (simp add: RunLoopCalls_def)
qed

text \<open>
  The events of the server, in any order: a connection is accepted on a descriptor that is free, a
  frame arrives on a connection, a connection closes, the database thread makes a step, its
  callbacks run, the server is told to stop. The number of rooms ever made stays below 2^64.
\<close>

inductive server_step :: "'db server_env \<Rightarrow> conn_ref list \<times> 'db game_service \<Rightarrow> conn_ref list \<times> 'db game_service \<Rightarrow> bool"
  for e where
  sv_accept: "cfd c \<notin> cfd ` set lv \<Longrightarrow> server_step e (lv, s) (c # lv, s)"
| sv_frame: "c \<in> set lv \<Longrightarrow> ids_left (length (mq_entries (gs_queue s)) + 2) (svc_rooms (gs_rooms s)) \<Longrightarrow>
    server_step e (lv, s) (lv, OnServerFrame e t f c s)"
| sv_close: "c \<in> set lv \<Longrightarrow> server_step e (lv, s) (remove1 c lv, OnPlayerDisconnected e t (cfd c) s)"
| sv_task: "DbThreadStep e ms s = Some s' \<Longrightarrow> server_step e (lv, s) (lv, s')"
| sv_calls: "server_step e (lv, s) (lv, RunLoopCalls e t s)"
| sv_stop: "server_step e (lv, s) (lv, StopGameService e t s)"

inductive_cases server_step_elim: "server_step e x y"

definition server_start :: "'db server_env \<Rightarrow> conn_ref list \<times> 'db game_service \<Rightarrow> bool" where
  "server_start e x \<longleftrightarrow> (\<exists>uri dbname t db. x = ([], NewGameService e uri dbname t db))"

definition server_ok :: "conn_ref list \<times> 'db game_service \<Rightarrow> bool" where
  "server_ok x \<longleftrightarrow> (case x of (lv, s) \<Rightarrow> conns_ok lv s \<and> rooms_fit rooms_good s \<and> tasks_fit s \<and> queue_fit s)"

lemma LoadOrSeedScene_keep:
  "player_conns (LoadOrSeedScene m ms s) = player_conns s" "fd_to_player (LoadOrSeedScene m ms s) = fd_to_player s"
  "active_conns (LoadOrSeedScene m ms s) = active_conns s"
  "gs_rooms (LoadOrSeedScene m ms s) = gs_rooms s" "gs_worker (LoadOrSeedScene m ms s) = gs_worker s"
  "gs_queue (LoadOrSeedScene m ms s) = gs_queue s"
  by (simp_all add: LoadOrSeedScene_def Let_def)

lemma new_server:
  "player_conns (NewGameService e uri dbname t db) = Map.empty" "fd_to_player (NewGameService e uri dbname t db) = Map.empty"
  "active_conns (NewGameService e uri dbname t db) = Map.empty"
  "gs_rooms (NewGameService e uri dbname t db) = new_service True (NowMs t) (ck_system t)"
  "gs_worker (NewGameService e uri dbname t db) = DbStart new_db_worker"
  "mq_entries (gs_queue (NewGameService e uri dbname t db)) = []"
  by (simp_all add: NewGameService_def Let_def LoadOrSeedScene_keep SetMatchCallback_def new_match_queue_def split: prod.split)

lemma new_server_ok: "server_ok ([], NewGameService e uri dbname t db)"
proof -
  have "rooms_good (svc_rooms (new_service b t' u))" for b t' u by (rule service.init_inv) blast
  moreover have "db_inv (DbStart new_db_worker :: db_task db_worker)"
    by (simp add: db_inv_def DbStart_def new_db_worker_def)
  ultimately show ?thesis by (simp add: server_ok_def conns_ok_def rooms_fit_def tasks_fit_def queue_fit_def new_server)
qed

lemma StopGameService_fit: "tasks_fit s \<Longrightarrow> tasks_fit (StopGameService e t s)"
  by (simp add: tasks_fit_def StopGameService_def) (rule db_step_inv [OF db_stop])

context room_keeper
begin

lemma server_step_rooms:
  assumes "server_step e x y" and "rooms_fit I (snd x)"
  shows "rooms_fit I (snd y)"
  using assms
proof (induction rule: server_step.induct)
  case (sv_task ms s s' lv)
  then show ?case using DbThreadStep_keep [OF sv_task.hyps] by (simp add: rooms_fit_def)
next
  case (sv_calls lv s t)
  then show ?case by (simp, intro RunLoopCalls_all [of "rooms_fit I"]) (auto simp: rooms_fit_def RunLoopCall_rooms)
next
  case (sv_stop lv s t)
  then show ?case by (simp add: rooms_fit_def StopGameService_def)
qed (simp_all add: OnServerFrame_rooms disconnect_rooms)

end

lemma server_step_ok:
  assumes "server_step e x y" and "server_ok x"
  shows "server_ok y"
  using assms
proof (induction rule: server_step.induct)
  case (sv_accept c lv s)
  then show ?case by (auto simp: server_ok_def conns_ok_def rooms_fit_def queue_fit_def)
next
  case (sv_frame c lv s t f)
  then show ?case by (simp add: server_ok_def OnServerFrame_conns good.OnServerFrame_rooms OnServerFrame_fit OnServerFrame_queue)
next
  case (sv_close c lv s t)
  then have "queue_fit (OnPlayerDisconnected e t (cfd c) s)"
    using queue_distinct_subseq [OF CancelMatch_subseq, of "gs_queue s"]
    by (simp add: server_ok_def queue_fit_def disconnect_queue split: option.split)
  with sv_close show ?case by (simp add: server_ok_def disconnect_conns good.disconnect_rooms disconnect_fit)
next
  case (sv_task ms s s' lv)
  note keep = DbThreadStep_keep [OF sv_task.hyps]
  from sv_task.prems keep show ?case
    by (auto simp: server_ok_def rooms_fit_def tasks_fit_def queue_fit_def intro: conns_ok_same db_step_inv [OF db_work])
next
  case (sv_calls lv s t)
  let ?s = "s\<lparr>loop_calls := []\<rparr>"
  have "conns_ok lv (RunLoopCalls e t s)"
    by (rule RunLoopCalls_all [of "conns_ok lv", OF RunLoopCall_conns])
      (use sv_calls in \<open>simp_all add: server_ok_def conns_ok_def\<close>)
  moreover have "rooms_fit rooms_good (RunLoopCalls e t s)"
    using good.server_step_rooms [OF server_step.sv_calls, of lv s e t] sv_calls by (simp add: server_ok_def)
  moreover have "tasks_fit (RunLoopCalls e t s)"
    by (rule RunLoopCalls_all [of tasks_fit, OF RunLoopCall_fit])
      (use sv_calls in \<open>simp_all add: server_ok_def tasks_fit_def\<close>)
  moreover have "queue_fit (RunLoopCalls e t s)"
    by (rule RunLoopCalls_all [of queue_fit])
      (use sv_calls in \<open>simp_all add: server_ok_def queue_fit_def RunLoopCall_queue\<close>)
  ultimately show ?case by (simp add: server_ok_def)
next
  case (sv_stop lv s t)
  then show ?case
    by (auto simp: server_ok_def conns_ok_def rooms_fit_def queue_fit_def StopGameService_fit) (simp_all add: StopGameService_def)
qed

interpretation server: step_invariant "server_start e" "server_step e" server_ok for e
  by unfold_locales (auto simp: server_start_def new_server_ok server_step_ok)

subsection \<open>Rooms whose frames never advance\<close>

definition silent :: "game_room \<Rightarrow> bool" where
  "silent r \<longleftrightarrow> (case frame_sync r of None \<Rightarrow> True | Some fs \<Rightarrow> frame_no fs = 0 \<and> frames_sent fs = [])"

lemma silent_ops [simp]:
  "silent (new_room rid p maxp)" "silent (r\<lparr>rtimer := tm\<rparr>) = silent r" "silent (SetState st r) = silent r"
  "silent (snd (AddPlayer p r)) = silent r" "silent (snd (RemovePlayer p r)) = silent r"
  "silent (OnPlayerFrameInput no p inp r) = silent r" "silent (StopFrameSync r) = silent r"
  by (auto simp: silent_def new_room_def SetState_def AddPlayer_def RemovePlayer_def Let_def OnPlayerFrameInput_def
      StopFrameSync_def Stop_def split: option.split)

lemma silent_begin: "silent r \<Longrightarrow> silent (begin_frames now r)"
  by (auto simp: silent_def begin_frames_def Let_def HasFrameSync_def InitFrameSync_def StartFrameSync_def Start_def
      SetFrameCallback_def new_frame_sync_def split: option.splits prod.splits if_splits)

interpretation silent: room_keeper "rooms_all silent"
  by unfold_locales (auto simp: finish_game_def silent_begin intro!: rooms_all_create rooms_all_join rooms_all_leave
      rooms_all_start rooms_all_update)

interpretation silent_server: step_invariant "server_start e" "server_step e" "\<lambda>x. rooms_fit (rooms_all silent) (snd x)" for e
proof
  show "rooms_fit (rooms_all silent) (snd x)" if "server_start e x" for x :: "conn_ref list \<times> 'a game_service"
    using that by (auto simp: server_start_def rooms_fit_def new_server new_service_def empty_manager_def rooms_all_def)
qed (rule silent.server_step_rooms)

end
