(* ===== verification/Match_Service.thy ===== *)
theory Match_Service
  imports Match_Queue Room_Manager
begin

text \<open>
  \<open>include/game/match_service.h\<close> and \<open>src/game/match_service.cpp\<close>: the service that puts the
  players a round of matching has paired into a room, and puts them back into the queue when the game
  has not started in time. It owns nothing: the queue, the room manager and the timers are the state
  here. The notification it builds is serialized into a local buffer and never handed to anybody, so
  no message is part of the model. \<open>NowMs\<close> of the queue and of the timers are two clocks.
\<close>

subsection \<open>State and operations\<close>

text \<open>The captured variables of the timeout's callback.\<close>

datatype room_release = RoomRelease string string fp string fp

record match_service =
  ms_queue :: match_queue
  ms_rooms :: room_manager
  ms_timeout :: int

definition new_match_service :: "match_queue \<Rightarrow> room_manager \<Rightarrow> int \<Rightarrow> match_service" where
  "new_match_service mq m t = \<lparr>ms_queue = SetMatchCallback mq, ms_rooms = m, ms_timeout = t\<rparr>"

type_synonym match_state = "room_release timer_manager \<times> match_service"

fun OnMatchSuccess :: "int \<Rightarrow> match_call \<Rightarrow> match_state \<Rightarrow> match_state" where
  "OnMatchSuccess now (p1, score1, p2, score2) (tm, ms) =
     (case CreateRoom now p1 2 kDefaultRoomTimeoutMs (ms_rooms ms) of
        (res, m1) \<Rightarrow>
          if \<not> res_ok res then (tm, ms\<lparr>ms_rooms := m1\<rparr>)
          else
            let rid = res_room_id res;
                m2 = update_room rid (SetState ROOM_STATE_WAITING) m1;
                m3 = snd (JoinRoom rid p2 m2)
            in (snd (Schedule now (ms_timeout ms) (RoomRelease rid p1 score1 p2 score2) tm), ms\<lparr>ms_rooms := m3\<rparr>))"

text \<open>The callback of the timeout, with the clock of the queue.\<close>

fun ReleaseRoom :: "int \<Rightarrow> room_release \<Rightarrow> match_service \<Rightarrow> match_service" where
  "ReleaseRoom now (RoomRelease rid p1 score1 p2 score2) ms =
     (case GetRoom rid (ms_rooms ms) of
        None \<Rightarrow> ms
      | Some r \<Rightarrow>
          if state r = ROOM_STATE_PLAYING then ms
          else ms\<lparr>ms_rooms := snd (RemoveRoom rid (ms_rooms ms)),
                   ms_queue := EnterQueue now p2 score2 (EnterQueue now p1 score1 (ms_queue ms))\<rparr>)"

definition MsEnterQueue :: "int \<Rightarrow> string \<Rightarrow> fp \<Rightarrow> match_service \<Rightarrow> match_service" where
  "MsEnterQueue now p s ms = ms\<lparr>ms_queue := EnterQueue now p s (ms_queue ms)\<rparr>"

definition MsCancelMatch :: "string \<Rightarrow> match_service \<Rightarrow> match_service" where
  "MsCancelMatch p ms = ms\<lparr>ms_queue := CancelMatch p (ms_queue ms)\<rparr>"

definition MsTryMatch :: "int \<Rightarrow> int \<Rightarrow> match_state \<Rightarrow> nat \<times> match_state" where
  "MsTryMatch sys now st =
     (case TryMatch sys (ms_queue (snd st)) of
        (ps, calls, mq) \<Rightarrow> (length ps, fold (OnMatchSuccess now) calls (fst st, (snd st)\<lparr>ms_queue := mq\<rparr>)))"

definition MsIsInQueue :: "string \<Rightarrow> match_service \<Rightarrow> bool" where
  "MsIsInQueue p ms = IsInQueue p (ms_queue ms)"

definition MsQueueSize :: "match_service \<Rightarrow> nat" where
  "MsQueueSize ms = QueueSize (ms_queue ms)"

text \<open>A tick of the timers; what it fires leaves the timers alone.\<close>

definition MsTick :: "int \<Rightarrow> int \<Rightarrow> match_state \<Rightarrow> (nat \<times> match_state) option" where
  "MsTick sys now st = TimerTick (quiet (ReleaseRoom sys)) now st"

subsection \<open>The queue\<close>

lemma IsInQueue_iff: "IsInQueue p mq \<longleftrightarrow> p \<in> qe_player ` set (mq_entries mq)"
  using FindIndex_None [of p "mq_entries mq"] by (auto simp: IsInQueue_def)

lemma EnterQueue_players: "qe_player ` set (mq_entries (EnterQueue now p s mq)) = insert p (qe_player ` set (mq_entries mq))"
proof (cases "FindIndex p (mq_entries mq)")
  case (Some i)
  let ?es = "mq_entries mq"
  have "map qe_player (?es[i := (?es ! i)\<lparr>qe_score := s\<rparr>]) = map qe_player ?es"
    by (simp add: map_update list_update_same_conv nth_equalityI) (metis list_update_id map_update)
  then have "qe_player ` set (?es[i := (?es ! i)\<lparr>qe_score := s\<rparr>]) = qe_player ` set ?es" by (metis set_map)
  moreover have "p \<in> qe_player ` set ?es" using FindIndex_Some [OF Some] by force
  ultimately show ?thesis using Some by (simp add: EnterQueue_def insert_absorb)
next
  case None
  have "set (insert_at i x es) = insert x (set es)" for i and x :: queue_entry and es
    unfolding insert_at_def by simp (metis append_take_drop_id set_append)
  with None show ?thesis by (simp add: EnterQueue_def)
qed

subsection \<open>The room of a match\<close>

definition match_room :: "room_manager \<Rightarrow> string" where
  "match_room m = room_name (unat (room_id_counter m))"

text \<open>The room a match makes: the first player alone, then with the second if that one is free.\<close>

lemma match_create:
  assumes "player_room m p1 = None"
  obtains m1 r1 where "CreateRoom now p1 2 t m = (CreateSuccess (match_room m), m1)"
    "GetRoom (match_room m) m1 = Some r1" "players r1 = [p1]" "owner_id r1 = p1" "max_players r1 = 2"
    "player_room m1 = (player_room m)(p1 \<mapsto> match_room m)"
  using assms that
  by (simp add: CreateRoom_def GenerateRoomId_def Let_def match_room_def GetRoom_def update_conv' new_room_def split: if_splits)

lemma match_join:
  assumes r: "GetRoom rid m = Some r" "state r = ROOM_STATE_WAITING" "players r = [p1]" "max_players r = 2"
    and p2: "p1 \<noteq> p2" "player_room m p2 \<noteq> Some rid"
  shows "GetRoom rid (snd (JoinRoom rid p2 m)) = Some (r\<lparr>players := p1 # (if player_room m p2 = None then [p2] else [])\<rparr>)"
proof -
  have "AddPlayer p2 r = (Success, r\<lparr>players := [p1, p2]\<rparr>)"
    using r p2 by (simp add: AddPlayer_def is_full_def HasPlayer_def player_count_def)
  moreover have "r\<lparr>players := [p1]\<rparr> = r" using r(3) by simp
  ultimately show ?thesis using r(1) p2(2) by (simp add: JoinRoom_def GetRoom_update)
qed

lemma player_in_room:
  assumes "directory_ok m" and "player_room m p = Some rid"
  obtains r where "GetRoom rid m = Some r" "p \<in> set (players r)" "rid \<noteq> ''''"
proof -
  have "p \<in> set (roster m rid)" using rooms.roster_iff [OF assms(1)] assms(2) by blast
  then obtain r where r: "GetRoom rid m = Some r" "p \<in> set (players r)"
    by (cases "GetRoom rid m") (auto simp: roster_def)
  then have "rid \<noteq> ''''" using directory_okD(3) [OF assms(1) r(1)] by (auto simp: room_entry_ok_def room_name_def)
  with r that show ?thesis by blast
qed


lemma fresh_match_room: "directory_ok m \<Longrightarrow> player_room m p \<noteq> Some (match_room m)"
  using fresh_room [of m] player_in_room [of m p "match_room m"] by (metis match_room_def option.distinct(1))

text \<open>A match whose players are free: a waiting room with both, and its timeout.\<close>

lemma OnMatchSuccess_effect:
  assumes "directory_ok (ms_rooms ms)" and "player_room (ms_rooms ms) p1 = None" and "player_room (ms_rooms ms) p2 = None" and "p1 \<noteq> p2"
  shows "\<exists>r m3. OnMatchSuccess now (p1, s1, p2, s2) (tm, ms) =
      (snd (Schedule now (ms_timeout ms) (RoomRelease (match_room (ms_rooms ms)) p1 s1 p2 s2) tm), ms\<lparr>ms_rooms := m3\<rparr>) \<and>
    GetRoom (match_room (ms_rooms ms)) m3 = Some r \<and> state r = ROOM_STATE_WAITING \<and> players r = [p1, p2] \<and> owner_id r = p1"
proof -
  let ?m = "ms_rooms ms" and ?rid = "match_room (ms_rooms ms)"
  obtain m1 r1 where c: "CreateRoom now p1 2 kDefaultRoomTimeoutMs ?m = (CreateSuccess ?rid, m1)"
    "GetRoom ?rid m1 = Some r1" "players r1 = [p1]" "owner_id r1 = p1" "max_players r1 = 2"
    "player_room m1 = (player_room ?m)(p1 \<mapsto> ?rid)" using match_create [OF assms(2)] by metis
  define m2 where "m2 = update_room ?rid (SetState ROOM_STATE_WAITING) m1"
  have "GetRoom ?rid m2 = Some (SetState ROOM_STATE_WAITING r1)" "player_room m2 p2 = None"
    using c assms(3,4) by (simp_all add: m2_def GetRoom_update)
  then have "GetRoom ?rid (snd (JoinRoom ?rid p2 m2)) = Some ((SetState ROOM_STATE_WAITING r1)\<lparr>players := [p1, p2]\<rparr>)"
    using match_join [of ?rid m2 "SetState ROOM_STATE_WAITING r1" p1 p2] c assms(4) by (simp add: SetState_def)
  moreover have "OnMatchSuccess now (p1, s1, p2, s2) (tm, ms) =
      (snd (Schedule now (ms_timeout ms) (RoomRelease ?rid p1 s1 p2 s2) tm), ms\<lparr>ms_rooms := snd (JoinRoom ?rid p2 m2)\<rparr>)"
    using c(1) by (simp add: Let_def flip: m2_def)
  ultimately show ?thesis using c(4) by (intro exI conjI) (assumption | simp add: SetState_def)+
qed

subsection \<open>Runs\<close>

text \<open>The timers are timeouts of rooms that exist or existed.\<close>

definition releases_below :: "nat \<Rightarrow> room_release timer \<Rightarrow> bool" where
  "releases_below n t \<longleftrightarrow> (\<exists>i p1 s1 p2 s2. i < n \<and> callback t = Some (RoomRelease (room_name i) p1 s1 p2 s2))"

definition ms_ok :: "match_state \<Rightarrow> bool" where
  "ms_ok st \<longleftrightarrow> directory_ok (ms_rooms (snd st)) \<and> timers_ok (fst st) \<and>
     (\<forall>t \<in> set (theap (fst st)). releases_below (unat (room_id_counter (ms_rooms (snd st)))) t)"

text \<open>
  Players arrive and cancel, rounds of matching run, and in between the rooms change in any way the
  room manager offers, as long as room numbers last.
\<close>

inductive ms_step :: "match_state \<Rightarrow> match_state \<Rightarrow> bool" where
  ms_enter: "ms_step (tm, ms) (tm, MsEnterQueue now p s ms)"
| ms_cancel: "ms_step (tm, ms) (tm, MsCancelMatch p ms)"
| ms_round: "unat (room_id_counter (ms_rooms (snd st))) + fst (MsTryMatch sys now st) < 2 ^ 64 - 1 \<Longrightarrow>
    ms_step st (snd (MsTryMatch sys now st))"
| ms_tick: "MsTick sys now st = Some (n, st') \<Longrightarrow> ms_step st st'"
| ms_rooms: "room_step (ms_rooms ms) m \<Longrightarrow> unat (room_id_counter (ms_rooms ms)) \<le> unat (room_id_counter m) \<Longrightarrow>
    ms_step (tm, ms) (tm, ms\<lparr>ms_rooms := m\<rparr>)"

lemma releases_mono: "releases_below n t \<Longrightarrow> n \<le> n' \<Longrightarrow> releases_below n' t"
  by (auto simp: releases_below_def intro: less_le_trans)

lemma Schedule_set:
  "set (theap (snd (Schedule now d cb tm))) =
     insert \<lparr>t_id = next_id tm, deadline = now + d, callback = Some cb, cancelled = False\<rparr> (set (theap tm))"
  using arg_cong [OF push_heap_mset, of set_mset] by (simp add: Schedule_def)

lemma match_create_counter:
  "CreateRoom now p k t m = (res, m1) \<Longrightarrow> if res_ok res then
     room_id_counter m1 = room_id_counter m + 1 \<and> res_room_id res = match_room m else m1 = m"
  by (auto simp: CreateRoom_def GenerateRoomId_def Let_def match_room_def split: if_splits)

lemma match_join_counter: "room_id_counter (snd (JoinRoom rid p m)) = room_id_counter m"
  by (simp add: JoinRoom_def Let_def split: option.split prod.split)

lemma RemoveRoom_counter: "room_id_counter (snd (RemoveRoom rid m)) = room_id_counter m"
  by (simp add: RemoveRoom_def split: option.split)

lemma OnMatchSuccess_ok:
  assumes "ms_ok st" and "counter_left (ms_rooms (snd st))"
  shows "ms_ok (OnMatchSuccess now c st) \<and>
    unat (room_id_counter (ms_rooms (snd (OnMatchSuccess now c st)))) \<le> unat (room_id_counter (ms_rooms (snd st))) + 1"
proof -
  obtain tm ms where st: "st = (tm, ms)" by (cases st)
  obtain p1 s1 p2 s2 where c: "c = (p1, s1, p2, s2)" by (cases c) auto
  obtain res m1 where r: "CreateRoom now p1 2 kDefaultRoomTimeoutMs (ms_rooms ms) = (res, m1)" by fastforce
  note cc = match_create_counter [OF r]
  show ?thesis
  proof (cases "res_ok res")
    case False
    with cc r assms(1) st c show ?thesis by (auto simp: ms_ok_def)
  next
    case True
    define m3 where "m3 = snd (JoinRoom (res_room_id res) p2 (update_room (res_room_id res) (SetState ROOM_STATE_WAITING) m1))"
    have "directory_ok m1"
      using CreateRoom_ok [of "ms_rooms ms" now p1 2 kDefaultRoomTimeoutMs] assms st r by (simp add: ms_ok_def)
    then have d: "directory_ok m3"
      unfolding m3_def by (intro JoinRoom_ok directory_ok_same) (simp_all add: SetState_def same_players_def)
    have n: "unat (room_id_counter m3) = unat (room_id_counter (ms_rooms ms)) + 1"
    proof -
      have "room_id_counter m1 = room_id_counter (ms_rooms ms) + 1" using True cc by simp
      then have "room_id_counter m3 = room_id_counter (ms_rooms ms) + 1" by (simp only: m3_def match_join_counter update_room_fields)
      with assms(2) st show ?thesis by (simp add: unat_counter)
    qed
    have new: "releases_below (unat (room_id_counter m3)) \<lparr>t_id = i, deadline = dl,
        callback = Some (RoomRelease (res_room_id res) p1 s1 p2 s2), cancelled = False\<rparr>" for i dl
      using True cc n by (auto simp: releases_below_def match_room_def)
    have "\<forall>t \<in> set (theap tm). releases_below (unat (room_id_counter m3)) t"
      using assms(1) st n by (auto simp: ms_ok_def intro: releases_mono)
    with new d n True r st c assms(1) show ?thesis
      by (auto simp: ms_ok_def Let_def Schedule_ok Schedule_set simp flip: m3_def)
  qed
qed

lemma matches_ok:
  "ms_ok st \<Longrightarrow> unat (room_id_counter (ms_rooms (snd st))) + length cs < 2 ^ 64 - 1 \<Longrightarrow> ms_ok (fold (OnMatchSuccess now) cs st)"
proof (induction cs arbitrary: st)
  case (Cons c cs)
  have "counter_left (ms_rooms (snd st))" using Cons.prems(2) by (simp add: counter_left_def)
  from OnMatchSuccess_ok [OF Cons.prems(1) this, of now c] Cons show ?case by simp
qed simp

lemma ReleaseRoom_rooms:
  "directory_ok (ms_rooms ms) \<Longrightarrow> directory_ok (ms_rooms (ReleaseRoom sys c ms)) \<and>
     room_id_counter (ms_rooms (ReleaseRoom sys c ms)) = room_id_counter (ms_rooms ms)"
  by (cases c) (simp add: RemoveRoom_ok RemoveRoom_counter split: option.split)

lemma fold_release_rooms:
  "directory_ok (ms_rooms ms) \<Longrightarrow> directory_ok (ms_rooms (fold (\<lambda>t. ReleaseRoom sys (the (callback t))) ts ms)) \<and>
     room_id_counter (ms_rooms (fold (\<lambda>t. ReleaseRoom sys (the (callback t))) ts ms)) = room_id_counter (ms_rooms ms)"
  by (induction ts arbitrary: ms) (simp_all add: ReleaseRoom_rooms)

text \<open>A tick fires the due timeouts and keeps the others.\<close>

lemma clean_heap_subset: "set (clean_heap h) \<subseteq> set h"
proof (induction h rule: clean_heap.induct)
  case (1 h)
  show ?case
  proof (cases "h \<noteq> [] \<and> cancelled (hd h)")
    case True
    then have "set (pop_heap deadline h) \<subseteq> set h" using arg_cong [OF pop_heap_mset [of h deadline], of set_mset] by auto
    with 1 True show ?thesis by (subst clean_heap.simps) auto
  next
    case False
    then have "clean_heap h = h" by (subst clean_heap.simps) auto
    then show ?thesis by simp
  qed
qed

lemma MsTick_fires:
  assumes "timers_ok tm"
  obtains ts tm' where "MsTick sys now (tm, ms) = Some (length ts, tm', fold (\<lambda>t. ReleaseRoom sys (the (callback t))) ts ms)"
    "mset ts = filter_mset (fires now) (mset (theap tm))" "timers_ok tm'" "set (theap tm') \<subseteq> set (theap tm)"
proof -
  let ?m = "CleanCancelled tm" and ?act = "ReleaseRoom sys"
  have ok: "timers_ok ?m" using assms by (rule CleanCancelled_ok)
  then obtain ts h' where t: "tick_loop (quiet ?act) now 0 (?m, ms) =
      Some (0 + length ts, ?m\<lparr>theap := h'\<rparr>, fold (\<lambda>t. ?act (the (callback t))) ts ms)"
    "fired_by now ts (theap ?m)" "mset h' = filter_mset (\<lambda>t. now < deadline t) (mset (theap ?m))"
    using tick_loop_passive [of ?m ?act now 0 ms] by (auto simp: timers_ok_def)
  have "no_new_due (\<lambda>_. True) (quiet ?act) now" by (simp add: no_new_due_def quiet_def)
  from tick_loop_ends [OF this, of "(?m, ms)" 0] ok t(1) have "timers_ok (?m\<lparr>theap := h'\<rparr>)" by auto
  moreover have "set h' \<subseteq> set (theap tm)"
    using t(3) clean_heap_subset [of "theap tm"] by (auto simp: CleanCancelled_def simp flip: set_mset_mset)
  moreover have "mset ts = filter_mset (fires now) (mset (theap tm))"
    using t(2) by (simp add: fired_by_def CleanCancelled_def) (metis clean_heap_live fires_live)
  ultimately show ?thesis using that t(1) by (simp add: MsTick_def TimerTick_def)
qed

lemma MsTick_ok: "MsTick sys now st = Some (n, st') \<Longrightarrow> ms_ok st \<Longrightarrow> ms_ok st'"
proof -
  assume t: "MsTick sys now st = Some (n, st')" and ok: "ms_ok st"
  obtain tm ms where st: "st = (tm, ms)" by (cases st)
  have "timers_ok tm" using ok st by (simp add: ms_ok_def)
  then obtain ts tm' where f: "MsTick sys now (tm, ms) = Some (length ts, tm', fold (\<lambda>t. ReleaseRoom sys (the (callback t))) ts ms)"
    "mset ts = filter_mset (fires now) (mset (theap tm))" "timers_ok tm'" "set (theap tm') \<subseteq> set (theap tm)"
    by (rule MsTick_fires [of tm sys now ms])
  from f(1) t st have st': "st' = (tm', fold (\<lambda>t. ReleaseRoom sys (the (callback t))) ts ms)" by simp
  have "directory_ok (ms_rooms ms)" using ok st by (simp add: ms_ok_def)
  from fold_release_rooms [OF this, of sys ts] f(3,4) ok st show ?thesis unfolding st' by (auto simp: ms_ok_def)
qed

lemma ms_step_ok: "ms_step st st' \<Longrightarrow> ms_ok st \<Longrightarrow> ms_ok st'"
proof (induction rule: ms_step.induct)
  case (ms_round st sys now)
  obtain ps calls mq where t: "TryMatch sys (ms_queue (snd st)) = (ps, calls, mq)" by (cases "TryMatch sys (ms_queue (snd st))") auto
  have "length calls \<le> length ps" using t by (auto simp: TryMatch_def Let_def split: if_splits prod.splits)
  with ms_round t show ?case
    using matches_ok [of "(fst st, (snd st)\<lparr>ms_queue := mq\<rparr>)" calls now] by (simp add: MsTryMatch_def ms_ok_def)
next
  case (ms_tick sys now st n st')
  then show ?case by (rule MsTick_ok)
next
  case (ms_rooms ms m tm)
  then show ?case using room_step_ok [of "ms_rooms ms" m] by (auto simp: ms_ok_def intro: releases_mono)
qed (auto simp: ms_ok_def MsEnterQueue_def MsCancelMatch_def)

definition ms_start :: "match_state \<Rightarrow> bool" where
  "ms_start st \<longleftrightarrow> (\<exists>w i e t. st = (new_timer_manager, new_match_service (new_match_queue w i e) empty_manager t))"

interpretation matchmaking: step_invariant ms_start ms_step ms_ok
proof
  show "ms_ok st" if "ms_start st" for st
    using that by (auto simp: ms_start_def ms_ok_def new_match_service_def new_timer_manager_def timers_ok_def is_heap_def)
qed (rule ms_step_ok)

subsection \<open>A match that is not started\<close>

text \<open>What the releases of other rooms leave alone, and what no release undoes.\<close>

definition rooms_released :: "room_release timer list \<Rightarrow> string set" where
  "rooms_released ts = {rid. \<exists>t \<in> set ts. \<exists>p1 s1 p2 s2. callback t = Some (RoomRelease rid p1 s1 p2 s2)}"

abbreviation release_all :: "int \<Rightarrow> room_release timer list \<Rightarrow> match_service \<Rightarrow> match_service" where
  "release_all sys ts ms \<equiv> fold (\<lambda>t. ReleaseRoom sys (the (callback t))) ts ms"

lemma GetRoom_RemoveRoom: "GetRoom rid (snd (RemoveRoom rid' m)) = (if rid = rid' then None else GetRoom rid m)"
  by (simp add: RemoveRoom_def GetRoom_def delete_conv' split: option.split)

lemma release_other:
  "rid \<noteq> rid' \<Longrightarrow> GetRoom rid (ms_rooms (ReleaseRoom sys (RoomRelease rid' p1 s1 p2 s2) ms)) = GetRoom rid (ms_rooms ms)"
  by (simp add: GetRoom_RemoveRoom split: option.split)

lemma release_keeps:
  "GetRoom rid (ms_rooms ms) = None \<Longrightarrow> GetRoom rid (ms_rooms (ReleaseRoom sys c ms)) = None"
  "IsInQueue p (ms_queue ms) \<Longrightarrow> IsInQueue p (ms_queue (ReleaseRoom sys c ms))"
  by (cases c; simp add: GetRoom_RemoveRoom IsInQueue_iff EnterQueue_players split: option.split)+

lemma release_all_keeps:
  "GetRoom rid (ms_rooms ms) = None \<Longrightarrow> GetRoom rid (ms_rooms (release_all sys ts ms)) = None"
  "IsInQueue p (ms_queue ms) \<Longrightarrow> IsInQueue p (ms_queue (release_all sys ts ms))"
  by (induction ts arbitrary: ms) (simp_all add: release_keeps)

lemma release_all_other:
  assumes "\<forall>t \<in> set ts. \<exists>rid' p1 s1 p2 s2. callback t = Some (RoomRelease rid' p1 s1 p2 s2) \<and> rid' \<noteq> rid"
  shows "GetRoom rid (ms_rooms (release_all sys ts ms)) = GetRoom rid (ms_rooms ms)"
  using assms
proof (induction ts arbitrary: ms)
  case (Cons t ts)
  then obtain rid' p1 s1 p2 s2 where "callback t = Some (RoomRelease rid' p1 s1 p2 s2)" "rid' \<noteq> rid" by auto
  with Cons release_other [of rid rid'] show ?case by simp
qed simp

lemma release_this:
  assumes "GetRoom rid (ms_rooms ms) = Some r" and "state r \<noteq> ROOM_STATE_PLAYING"
  shows "GetRoom rid (ms_rooms (ReleaseRoom sys (RoomRelease rid p1 s1 p2 s2) ms)) = None \<and>
    IsInQueue p1 (ms_queue (ReleaseRoom sys (RoomRelease rid p1 s1 p2 s2) ms)) \<and>
    IsInQueue p2 (ms_queue (ReleaseRoom sys (RoomRelease rid p1 s1 p2 s2) ms))"
  using assms by (simp add: GetRoom_RemoveRoom IsInQueue_iff EnterQueue_players)

text \<open>
  C29. A match of two players that are in no room puts both into a waiting room of their own, and when the
  game has not been started by the timeout the next tick closes that room and puts both back into the
  queue, whatever other timeouts are due at the same time.
\<close>

theorem unstarted_match_returns:
  assumes "ms_start st0" and "ms_step\<^sup>*\<^sup>* st0 (tm, ms)" and "p1 \<noteq> p2"
    and "player_room (ms_rooms ms) p1 = None" and "player_room (ms_rooms ms) p2 = None"
    and "now + ms_timeout ms \<le> now'"
  shows "\<exists>tm1 ms1 r n tm2 ms2. OnMatchSuccess now (p1, s1, p2, s2) (tm, ms) = (tm1, ms1) \<and>
    GetRoom (match_room (ms_rooms ms)) (ms_rooms ms1) = Some r \<and> state r = ROOM_STATE_WAITING \<and> players r = [p1, p2] \<and>
    MsTick sys now' (tm1, ms1) = Some (n, tm2, ms2) \<and> GetRoom (match_room (ms_rooms ms)) (ms_rooms ms2) = None \<and>
    IsInQueue p1 (ms_queue ms2) \<and> IsInQueue p2 (ms_queue ms2)"
proof -
  let ?rid = "match_room (ms_rooms ms)"
  have ok: "ms_ok (tm, ms)" using assms(1,2) by (rule matchmaking.reachable_inv)
  then have d: "directory_ok (ms_rooms ms)" and tm: "timers_ok tm" by (simp_all add: ms_ok_def)
  obtain r m3 where m: "OnMatchSuccess now (p1, s1, p2, s2) (tm, ms) =
      (snd (Schedule now (ms_timeout ms) (RoomRelease ?rid p1 s1 p2 s2) tm), ms\<lparr>ms_rooms := m3\<rparr>)"
    "GetRoom ?rid m3 = Some r" "state r = ROOM_STATE_WAITING" "players r = [p1, p2]"
    using OnMatchSuccess_effect [OF d assms(4,5,3)] by blast
  define tm1 where "tm1 = snd (Schedule now (ms_timeout ms) (RoomRelease ?rid p1 s1 p2 s2) tm)"
  define ms1 where "ms1 = ms\<lparr>ms_rooms := m3\<rparr>"
  let ?t = "\<lparr>t_id = next_id tm, deadline = now + ms_timeout ms, callback = Some (RoomRelease ?rid p1 s1 p2 s2), cancelled = False\<rparr>"
  have "timers_ok tm1" unfolding tm1_def using tm by (rule Schedule_ok)
  then obtain ts tm2 where f: "MsTick sys now' (tm1, ms1) = Some (length ts, tm2, release_all sys ts ms1)"
    "mset ts = filter_mset (fires now') (mset (theap tm1))" "timers_ok tm2" "set (theap tm2) \<subseteq> set (theap tm1)"
    by (rule MsTick_fires [of tm1 sys now' ms1])
  have ts: "set ts = {t \<in> set (theap tm1). fires now' t}" using arg_cong [OF f(2), of set_mset] by simp
  then have "?t \<in> set ts" using assms(6) by (simp add: tm1_def Schedule_set fires_def)
  then obtain xs ys where xy: "ts = xs @ ?t # ys" "?t \<notin> set xs" by (metis split_list_first)
  have "\<exists>rid' p1 s1 p2 s2. callback t = Some (RoomRelease rid' p1 s1 p2 s2) \<and> rid' \<noteq> ?rid" if "t \<in> set xs" for t
  proof -
    have "t \<in> set ts" using that unfolding xy(1) by simp
    then have "t \<in> set (theap tm1)" unfolding ts by simp
    moreover have "t \<noteq> ?t" using that xy(2) by blast
    ultimately have "t \<in> set (theap tm)" by (simp add: tm1_def Schedule_set)
    then have "releases_below (unat (room_id_counter (ms_rooms ms))) t" using ok by (simp add: ms_ok_def)
    then show ?thesis by (auto simp: releases_below_def match_room_def)
  qed
  then have "GetRoom ?rid (ms_rooms (release_all sys xs ms1)) = Some r"
    using release_all_other [of xs ?rid sys ms1] m(2) by (simp add: ms1_def)
  from release_this [OF this, of sys p1 s1 p2 s2] m(3) xy(1)
  have "GetRoom ?rid (ms_rooms (release_all sys ts ms1)) = None \<and> IsInQueue p1 (ms_queue (release_all sys ts ms1)) \<and>
      IsInQueue p2 (ms_queue (release_all sys ts ms1))"
    by (simp add: release_all_keeps del: ReleaseRoom.simps)
  with m f(1) show ?thesis unfolding tm1_def [symmetric] ms1_def [symmetric] by (auto simp: ms1_def)
qed

theorem unstarted_match_returns_witness:
  "let st = (new_timer_manager, new_match_service (new_match_queue 30 (FNum 100) (FNum 20)) empty_manager 30000);
       st1 = OnMatchSuccess 0 (''ann'', FNum 1000, ''bob'', FNum 1010) st
   in \<exists>n tm2 ms2. MsTick 30000 30000 st1 = Some (n, tm2, ms2) \<and> IsInQueue ''ann'' (ms_queue ms2) \<and> IsInQueue ''bob'' (ms_queue ms2)"
proof -
  let ?ms = "new_match_service (new_match_queue 30 (FNum 100) (FNum 20)) empty_manager 30000"
  have "ms_start (new_timer_manager, ?ms)" by (auto simp: ms_start_def)
  from unstarted_match_returns [OF this rtranclp.rtrancl_refl, of "''ann''" "''bob''" 0 30000 "FNum 1000" "FNum 1010" 30000]
  show ?thesis by (auto simp: Let_def new_match_service_def empty_manager_def simp del: OnMatchSuccess.simps)
qed

text \<open>The timeout does not look at who is still in the room: somebody who has left is put back into the queue as well.\<close>

lemma left_player_requeued:
  assumes "GetRoom rid (ms_rooms ms) = Some r" and "state r \<noteq> ROOM_STATE_PLAYING" and "p2 \<notin> set (players r)"
    and "\<not> IsInQueue p2 (ms_queue ms)"
  shows "IsInQueue p2 (ms_queue (ReleaseRoom sys (RoomRelease rid p1 s1 p2 s2) ms))"
  using release_this [OF assms(1,2)] by blast

end
