(* ===== verification/Server_Properties.thy ===== *)
theory Server_Properties
  imports Game_Sessions Match_Service
begin

text \<open>
  What the server of \<open>Game_Service\<close> does for its players: logging in, being matched, disconnecting,
  and what goes wrong when descriptors are given out again or when nobody runs the timers.
\<close>

subsection \<open>Matched players\<close>

text \<open>The frame that tells a connected player of the match.\<close>

definition match_told :: "game_codec \<Rightarrow> string \<Rightarrow> 'db game_service \<Rightarrow> string \<Rightarrow> string \<Rightarrow> (conn_ref \<times> bytes) list" where
  "match_told cd rid s p opp =
     (case player_conns s p of
        None \<Rightarrow> []
      | Some c \<Rightarrow> [(c, Encode 0 Response ''RoomEvent'' (ser_notification cd (MatchFoundNtf rid p opp 0 30)))])"

lemma send_events_one:
  "gs_out (send_events cd [(p, n)] s) = gs_out s @
     (case player_conns s p of None \<Rightarrow> [] | Some c \<Rightarrow> [(c, Encode 0 Response ''RoomEvent'' (ser_notification cd n))])"
  by (simp add: send_events_def SendToPlayer_def send_frame_def split: option.split)

lemma send_events_none: "send_events cd [] s = s"
  by (simp add: send_events_def)

lemma match_effect:
  assumes p1: "player_room (svc_rooms (gs_rooms s)) p1 = None" and p2: "p1 \<noteq> p2"
    and fresh: "player_room (svc_rooms (gs_rooms s)) p2 \<noteq> Some (match_room (svc_rooms (gs_rooms s)))"
  defines "rid \<equiv> match_room (svc_rooms (gs_rooms s))" and "free \<equiv> player_room (svc_rooms (gs_rooms s)) p2 = None"
  shows "(\<exists>r. GetRoom rid (svc_rooms (gs_rooms (OnMatchFound e t (p1, sc1, p2, sc2) s))) = Some r \<and>
       state r = ROOM_STATE_WAITING \<and> owner_id r = p1 \<and> players r = p1 # (if free then [p2] else [])) \<and>
     gs_out (OnMatchFound e t (p1, sc1, p2, sc2) s) = gs_out s @ match_told (env_codec e) rid s p1 p2 @
       (if free then match_told (env_codec e) rid s p2 p1 else []) \<and>
     \<lparr>t_id = next_id (gs_timer s), deadline = NowMs t + 30000, callback = Some (MatchTimeout rid p1 sc1 p2 sc2), cancelled = False\<rparr>
       \<in> set (theap (gs_timer (OnMatchFound e t (p1, sc1, p2, sc2) s)))"
proof -
  let ?m = "svc_rooms (gs_rooms s)"
  obtain m1 r1 where c: "CreateRoom (NowMs t) p1 2 kDefaultRoomTimeoutMs ?m = (CreateSuccess rid, m1)"
    "GetRoom rid m1 = Some r1" "players r1 = [p1]" "owner_id r1 = p1" "max_players r1 = 2"
    "player_room m1 = (player_room ?m)(p1 \<mapsto> rid)" using match_create [OF p1] unfolding rid_def by metis
  define r2 where "r2 = SetState ROOM_STATE_WAITING r1"
  define m3 where "m3 = snd (JoinRoom rid p2 (update_room rid (SetState ROOM_STATE_WAITING) m1))"
  have m3: "GetRoom rid m3 = Some (r2\<lparr>players := p1 # (if free then [p2] else [])\<rparr>)"
    using match_join [of rid "update_room rid (SetState ROOM_STATE_WAITING) m1" r2 p1 p2] c p2 fresh
    by (simp add: m3_def GetRoom_update r2_def SetState_def free_def rid_def)
  have s': "OnMatchFound e t (p1, sc1, p2, sc2) s =
      (let s2 = send_events (env_codec e) (if free then [(p2, MatchFoundNtf rid p2 p1 0 30)] else [])
           (send_events (env_codec e) [(p1, MatchFoundNtf rid p1 p2 0 30)] (set_rooms m3 s))
       in s2\<lparr>gs_timer := snd (Schedule (NowMs t) 30000 (MatchTimeout rid p1 sc1 p2 sc2) (gs_timer s2))\<rparr>)"
    using c(1) m3 p2 by (simp add: OnMatchFound_def Let_def BroadcastToRoomExcept_def flip: m3_def)
  have out: "gs_out (OnMatchFound e t (p1, sc1, p2, sc2) s) = gs_out s @ match_told (env_codec e) rid s p1 p2 @
       (if free then match_told (env_codec e) rid s p2 p1 else [])"
    unfolding s' by (simp add: Let_def send_events_one send_events_none match_told_def set_rooms_def)
  have "GetRoom rid (svc_rooms (gs_rooms (OnMatchFound e t (p1, sc1, p2, sc2) s))) = Some (r2\<lparr>players := p1 # (if free then [p2] else [])\<rparr>)"
    unfolding s' by (simp add: Let_def set_rooms_def m3)
  moreover have "\<lparr>t_id = next_id (gs_timer s), deadline = NowMs t + 30000, callback = Some (MatchTimeout rid p1 sc1 p2 sc2), cancelled = False\<rparr>
       \<in> set (theap (gs_timer (OnMatchFound e t (p1, sc1, p2, sc2) s)))"
    using RescheduleTick_set [of "NowMs t" 30000 "MatchTimeout rid p1 sc1 p2 sc2" "gs_timer s"]
    unfolding s' by (simp add: Let_def set_rooms_def RescheduleTick_def)
  ultimately show ?thesis using out c(4) by (simp add: r2_def SetState_def)
qed

subsection \<open>Leaving\<close>

lemma LeaveRoomAndNotify_map:
  assumes "directory_ok m" and "player_room m p = Some rid" and "LeaveRoomAndNotify b rid p m = (res, m', out)"
  shows "player_room m' = (player_room m)(p := None)"
proof -
  obtain r where r: "GetRoom rid m = Some r" "p \<in> set (players r)" using player_in_room [OF assms(1,2)] by blast
  obtain r' where r': "RemovePlayer p r = (Success, r')" using RemovePlayer_result(2) [OF r(2)] by (cases "RemovePlayer p r") auto
  then show ?thesis using assms(3) r
    by (auto simp: LeaveRoomAndNotify_def LeaveRoom_def RemovePlayerFromMap_def)
qed

lemma disconnect_room_map:
  assumes "directory_ok (svc_rooms (gs_rooms s))" and "fd_to_player s n = Some p"
  shows "player_room (svc_rooms (gs_rooms (OnPlayerDisconnected e t n s))) = (player_room (svc_rooms (gs_rooms s)))(p := None)"
proof (cases "player_room (svc_rooms (gs_rooms s)) p")
  case None
  then show ?thesis using assms(2) by (auto simp: OnPlayerDisconnected_def Let_def GetPlayerRoom_def)
next
  case (Some rid)
  obtain r where "rid \<noteq> ''''" using player_in_room [OF assms(1) Some] by blast
  moreover obtain res m out where l: "LeaveRoomAndNotify True rid p (svc_rooms (gs_rooms s)) = (res, m, out)"
    using prod_cases3 by blast
  ultimately show ?thesis using assms(2) Some LeaveRoomAndNotify_map [OF assms(1) Some l]
    by (simp add: OnPlayerDisconnected_def Let_def GetPlayerRoom_def set_rooms_def)
qed

lemma disconnect_world:
  "fd_to_player s n = Some p \<Longrightarrow> gs_world (OnPlayerDisconnected e t n s) = fst (Leave p (gs_world s))"
  by (auto simp: OnPlayerDisconnected_def Let_def set_rooms_def split: prod.split)

lemma disconnect_worker:
  "fd_to_player s n = Some p \<Longrightarrow> gs_worker (OnPlayerDisconnected e t n s) = gs_worker (SavePlayerAsync p s)"
  by (auto simp: OnPlayerDisconnected_def Let_def set_rooms_def SavePlayerAsync_def post_task_def split: prod.split option.split)

lemma Leave_gone: "\<not> HasPlayerInWorld p (fst (Leave p w))"
  by (simp add: HasPlayerInWorld_def Leave_def Let_def get_player_def delete_conv' split: option.split)

lemma EnterWithState_in: "HasPlayerInWorld p (fst (EnterWithState p nm now pos yaw a b c d k w))"
  by (simp add: HasPlayerInWorld_def EnterWithState_def Let_def get_player_def put_player_def SendWorldStateTo_def
      touch_room_def update_conv' split: option.split prod.split)

lemma SavePlayerAsync_up [simp]: "players_up (SavePlayerAsync p s) = players_up s"
  by (simp add: SavePlayerAsync_def post_task_def split: option.split)

lemma get_player_Enter:
  "get_player p (fst (EnterWithState p nm now pos yaw a b c d k w)) =
     Some ((case get_player p w of None \<Rightarrow> new_player | Some pl \<Rightarrow> pl)
       \<lparr>wp_id := p, wp_name := nm, wp_pos := pos, wp_yaw := yaw, wp_wood := a, wp_stone := b, wp_dirt := c, wp_copper := d,
        wp_tool := k, wp_last_move := now, wp_allowance := kInitialMoveAllowance,
        wp_last_broadcast := now - kMinBroadcastIntervalMs\<rparr>)"
  by (simp add: EnterWithState_def Let_def get_player_def put_player_def SendWorldStateTo_def touch_room_def update_conv'
      split: option.split prod.split)

lemma Leave_other: "p \<noteq> i \<Longrightarrow> get_player i (fst (Leave p w)) = get_player i w"
  by (simp add: Leave_def Let_def get_player_def delete_conv' split: option.split)

lemma drop_old_player_world: "get_player p (gs_world (drop_old_player cd n p s)) = get_player p (gs_world s)"
  by (auto simp: drop_old_player_def Let_def UnregisterPlayerConn_def Leave_other split: option.split)

text \<open>The player of a finished login: the one in the world before it, or a new one, with the state \<open>st\<close>.\<close>

definition logged_in_as :: "string \<Rightarrow> int \<Rightarrow> player_state \<Rightarrow> world_player \<Rightarrow> world_player" where
  "logged_in_as p now st pl =
     pl\<lparr>wp_id := p, wp_name := p, wp_pos := ps_pos st, wp_yaw := ps_yaw st, wp_wood := ps_wood st, wp_stone := ps_stone st,
        wp_dirt := ps_dirt st, wp_copper := ps_copper st, wp_tool := ps_tool st, wp_last_move := now,
        wp_allowance := kInitialMoveAllowance, wp_last_broadcast := now - kMinBroadcastIntervalMs\<rparr>"

text \<open>A login from the request to its answer.\<close>

lemma login_run:
  assumes "method_name f = ''Login''" and "parse_login (env_codec e) (body f) = Some cr"
    and v: "VerifyCredentials (env_mongo e) (env_crypt e) (accounts_up s) (cq_username cr) (cq_password cr) (gs_db s) = account_ok p"
    and w: "thr (gs_worker s) = Waiting" "q (gs_worker s) = []" "\<not> db_stop (gs_worker s)" and "loop_calls s = []"
  shows "\<exists>s2 s3. DbThreadStep e ms (OnServerFrame e t1 f c s) = Some s2 \<and> DbThreadStep e ms s2 = Some s3 \<and>
    (let s4 = RunLoopCalls e t2 s3;
         st = login_state p (PlayerLoad (env_mongo e) (players_up s) p (gs_db s));
         before = (case get_player p (gs_world s) of None \<Rightarrow> new_player | Some pl \<Rightarrow> pl)
     in player_conns s4 p = Some c \<and> fd_to_player s4 (cfd c) = Some p \<and>
        get_player p (gs_world s4) = Some (logged_in_as p (NowMs t2) st before) \<and>
        (c, Encode (request_id f) Response ''Login'' (ser_login (env_codec e) AccountOk (Some p))) \<in> set (gs_out s4))"
proof -
  let ?t = "LoginTask (request_id f) (cfd c) (cq_username cr) (cq_password cr)"
  define s1 where "s1 = OnServerFrame e t1 f c s"
  have s1: "active_conns s1 (cfd c) = Some c" "loop_calls s1 = []" "gs_db s1 = gs_db s" "accounts_up s1 = accounts_up s"
    "players_up s1 = players_up s" "gs_worker s1 = DbPost ?t (gs_worker s)" and world: "gs_world s1 = gs_world s"
    using assms(1,2,7) by (simp_all add: s1_def OnServerFrame_def HandleLogin_def Let_def post_task_def)
  define s2 where "s2 = s1\<lparr>gs_worker := (gs_worker s1)\<lparr>q := [], thr := Busy ?t\<rparr>\<rparr>"
  have world2: "gs_world s2 = gs_world s" by (simp add: s2_def world)
  have d2: "DbThreadStep e ms s1 = Some s2"
    using w by (simp add: DbThreadStep_def DbWorkerLoop_def s1 DbPost_def s2_def)
  let ?st = "login_state p (PlayerLoad (env_mongo e) (players_up s) p (gs_db s))"
  let ?call = "LoginDone (request_id f) (cfd c) (account_ok p) ?st"
  obtain w3 where d3: "DbThreadStep e ms s2 = Some (s2\<lparr>loop_calls := [?call], gs_worker := w3\<rparr>)"
    using v by (simp add: DbThreadStep_def DbWorkerLoop_def s2_def RunDbTask_def Let_def s1 account_ok_def)
  let ?s = "s2\<lparr>gs_worker := w3, loop_calls := []\<rparr>"
  let ?s3 = "s2\<lparr>loop_calls := [?call], gs_worker := w3\<rparr>"
  have s4: "RunLoopCalls e t2 ?s3 = LoginSucceeded e t2 (request_id f) p ?st c (cfd c) ?s"
    by (simp add: RunLoopCalls_def loop_call_defs Let_def s2_def s1 account_ok_def)
  have "player_conns (RunLoopCalls e t2 ?s3) p = Some c" "fd_to_player (RunLoopCalls e t2 ?s3) (cfd c) = Some p"
    using LoginSucceeded_keep(3) [of e t2 "request_id f" p ?st c "cfd c" ?s] unfolding s4
    by (simp_all add: session_tables_def RegisterPlayerConn_def)
  then show ?thesis using d2 d3 s1_def
    by (auto simp: Let_def s4 LoginSucceeded_def send_frame_def get_player_Enter drop_old_player_world
        RegisterPlayerConn_def world2 logged_in_as_def)
qed

subsection \<open>A server to try the properties on\<close>

text \<open>
  The database holds one account; every login asks for it, every move goes to the origin, every other
  body is refused.
\<close>

definition demo_game_codec :: game_codec where
  "demo_game_codec = \<lparr>room_part = demo_codec, parse_register = \<lambda>_. None,
     parse_login = \<lambda>_. Some \<lparr>cq_username = ''ann_1'', cq_password = ''secret''\<rparr>,
     parse_move = \<lambda>_. Some \<lparr>mr_pos = zero_vec, mr_yaw = FNum 0, mr_appearance = 0\<rparr>, parse_select = \<lambda>_. None,
     parse_voxel = \<lambda>_. None, parse_craft = \<lambda>_. None, parse_gather = \<lambda>_. None, parse_place = \<lambda>_. None,
     parse_match = \<lambda>_. None, parse_cancel = \<lambda>_. None, ser_register = \<lambda>_. [], ser_login = \<lambda>_ _. [1],
     ser_move = \<lambda>ok _ _. [if ok then 1 else 0], ser_select = \<lambda>_ _ _. [], ser_voxel = \<lambda>_ _ _ _. [], ser_craft = \<lambda>_ _ _. [],
     ser_gather = \<lambda>_. [], ser_place = \<lambda>_. [], ser_match = \<lambda>_. [], ser_cancel = \<lambda>_. [], ser_metrics = \<lambda>_. [],
     ser_notification = \<lambda>_. [], ser_world = \<lambda>_. []\<rparr>"

definition demo_env :: "demo_db server_env" where
  "demo_env = \<lparr>env_mongo = demo_mongo, env_crypt = demo_crypt, env_hash = length, env_codec = demo_game_codec\<rparr>"

definition demo_clock :: clock where
  "demo_clock = \<lparr>ck_start = 0, ck_end = 1000, ck_system = 0\<rparr>"

definition demo_accounts :: demo_db where
  "demo_accounts coll k v =
     (if coll = ''accounts'' \<and> k = ''username'' \<and> v = ''ann_1'' then Some (account_doc 0 ''ann_1'' ''$secret'') else None)"

definition demo_server :: "demo_db game_service" where
  "demo_server = NewGameService demo_env ''mongodb://127.0.0.1:27017'' ''tinrpc'' demo_clock demo_accounts"

definition demo_frame :: "string \<Rightarrow> frame" where
  "demo_frame meth = \<lparr>request_id = 1, msg_type = Request, method_name = meth, body = []\<rparr>"

lemma demo_server_fields:
  "accounts_up demo_server" "gs_db demo_server ''accounts'' = demo_accounts ''accounts''"
  "gs_worker demo_server = DbStart new_db_worker" "loop_calls demo_server = []" "fd_to_player demo_server = Map.empty"
  by (simp_all add: demo_server_def NewGameService_def demo_env_def demo_mongo_def AccountStoreInit_def PlayerStoreInit_def
      SceneStoreInit_def StoreInit_def LoadOrSeedScene_def SceneLoad_def empty_scene_def SceneUpsert_def demo_accounts_def Let_def)

lemma demo_login:
  "VerifyCredentials (env_mongo demo_env) (env_crypt demo_env) (accounts_up demo_server) ''ann_1'' ''secret'' (gs_db demo_server) =
     account_ok ''ann_1''"
proof -
  have v: "ValidUsername ''ann_1''" by (simp add: ValidUsername_def isalnum_def Let_def)
  have "find_one (env_mongo demo_env) ''accounts'' ''username'' ''ann_1'' (gs_db demo_server) =
      Some (account_doc 0 ''ann_1'' ''$secret'')"
    by (simp add: demo_env_def demo_mongo_def demo_server_fields demo_accounts_def)
  from VerifyCredentials_account [OF this found_as_refl v] show ?thesis
    by (simp add: demo_server_fields demo_env_def demo_crypt_def c_str_def ValidPassword_def)
qed

lemma demo_login_run:
  obtains s2 s3 where "DbThreadStep demo_env 0 (OnServerFrame demo_env demo_clock (demo_frame ''Login'') c demo_server) = Some s2"
    "DbThreadStep demo_env 0 s2 = Some s3" "player_conns (RunLoopCalls demo_env demo_clock s3) ''ann_1'' = Some c"
    "fd_to_player (RunLoopCalls demo_env demo_clock s3) (cfd c) = Some ''ann_1''"
proof -
  have "parse_login (env_codec demo_env) (body (demo_frame ''Login'')) = Some \<lparr>cq_username = ''ann_1'', cq_password = ''secret''\<rparr>"
    by (simp add: demo_env_def demo_game_codec_def)
  moreover have "thr (gs_worker demo_server) = Waiting" "q (gs_worker demo_server) = []" "\<not> db_stop (gs_worker demo_server)"
    by (simp_all add: demo_server_fields DbStart_def new_db_worker_def)
  ultimately show ?thesis
    using login_run [of "demo_frame ''Login''" demo_env "\<lparr>cq_username = ''ann_1'', cq_password = ''secret''\<rparr>" demo_server "''ann_1''" 0 demo_clock c demo_clock]
      demo_login that by (auto simp: demo_frame_def demo_server_fields Let_def)
qed

lemma demo_reachable:
  obtains s where "(server_step demo_env)\<^sup>*\<^sup>* ([], demo_server) ([c], s)" "fd_to_player s (cfd c) = Some ''ann_1''"
    "player_conns s ''ann_1'' = Some c"
proof -
  obtain s2 s3 where r: "DbThreadStep demo_env 0 (OnServerFrame demo_env demo_clock (demo_frame ''Login'') c demo_server) = Some s2"
    "DbThreadStep demo_env 0 s2 = Some s3" "player_conns (RunLoopCalls demo_env demo_clock s3) ''ann_1'' = Some c"
    "fd_to_player (RunLoopCalls demo_env demo_clock s3) (cfd c) = Some ''ann_1''" by (rule demo_login_run)
  have "ids_left (length (mq_entries (gs_queue demo_server)) + 2) (svc_rooms (gs_rooms demo_server))"
    by (simp add: demo_server_def new_server ids_left_def new_service_def empty_manager_def)
  then have "server_step demo_env ([c], demo_server) ([c], OnServerFrame demo_env demo_clock (demo_frame ''Login'') c demo_server)"
    by (intro sv_frame) simp_all
  moreover have "server_step demo_env ([], demo_server) ([c], demo_server)" by (rule sv_accept) simp
  moreover have "server_step demo_env ([c], OnServerFrame demo_env demo_clock (demo_frame ''Login'') c demo_server) ([c], s2)"
    "server_step demo_env ([c], s2) ([c], s3)" "server_step demo_env ([c], s3) ([c], RunLoopCalls demo_env demo_clock s3)"
    using r by (auto intro: sv_task sv_calls)
  ultimately have "(server_step demo_env)\<^sup>*\<^sup>* ([], demo_server) ([c], RunLoopCalls demo_env demo_clock s3)"
    by (meson converse_rtranclp_into_rtranclp rtranclp.rtrancl_refl)
  with r(3,4) that show ?thesis by blast
qed

lemma demo_start: "server_start demo_env ([], demo_server)"
  unfolding server_start_def demo_server_def by blast

text \<open>A method of the room service, answered through the dispatch table.\<close>

lemma room_method_keep:
  assumes "meth \<in> {''CreateRoom'', ''StartGame''}"
  shows "svc_rooms (gs_rooms (OnServerFrame e t \<lparr>request_id = i, msg_type = mt, method_name = meth, body = bdy\<rparr> c s)) =
      svc_rooms (snd (DispatchCall (room_dispatch (room_part (env_codec e))) meth bdy
        ((gs_rooms s)\<lparr>svc_sent := [], steady_now := NowMs t, system_now := ck_system t\<rparr>)))"
    and "gs_queue (OnServerFrame e t \<lparr>request_id = i, msg_type = mt, method_name = meth, body = bdy\<rparr> c s) = gs_queue s"
proof -
  let ?d = "room_dispatch (room_part (env_codec e))"
  obtain h where h: "handlers ?d meth = Some h"
    using assms by (auto simp: room_dispatch_def RegisterRoomService_def RegisterMethod_def)
  have d: "DispatchCall ?d meth bdy r = h bdy r" for r by (simp add: DispatchCall_def h)
  have f: "OnServerFrame e t \<lparr>request_id = i, msg_type = mt, method_name = meth, body = bdy\<rparr> c s =
      Dispatched e t \<lparr>request_id = i, msg_type = mt, method_name = meth, body = bdy\<rparr> c
        (s\<lparr>gs_metrics := MetricsTick (ck_start t) (gs_metrics s), active_conns := (active_conns s)(cfd c \<mapsto> c)\<rparr>)"
    and g: "DispatchCall (game_dispatch e t) meth bdy s' = room_handler e t h bdy s'" for s'
    using assms h by (auto simp: OnServerFrame_def Let_def game_dispatch_simps)
  show "svc_rooms (gs_rooms (OnServerFrame e t \<lparr>request_id = i, msg_type = mt, method_name = meth, body = bdy\<rparr> c s)) =
      svc_rooms (snd (DispatchCall ?d meth bdy ((gs_rooms s)\<lparr>svc_sent := [], steady_now := NowMs t, system_now := ck_system t\<rparr>)))"
    "gs_queue (OnServerFrame e t \<lparr>request_id = i, msg_type = mt, method_name = meth, body = bdy\<rparr> c s) = gs_queue s"
    by (cases "h bdy ((gs_rooms s)\<lparr>svc_sent := [], steady_now := NowMs t, system_now := ck_system t\<rparr>)";
        simp add: f Dispatched_def Let_def g room_handler_def quiet_defs d split: option.split)+
qed

subsection \<open>Properties\<close>

text \<open>
  C35. Whatever the clients send and in whatever order events happen: the connection registered for a
  player is open, no two players share one, and its descriptor is mapped to the player; the connection
  kept for a descriptor is open and has that descriptor, which no other open connection has; the rooms
  and the map of players agree; nobody waits twice for a match; and the database tasks ran in the order
  they were posted. (The converse for descriptors does not hold: one that is mapped to a player may be
  closed, or not be the player's, see \<open>duplicate_login_leaves_session\<close>.)
\<close>

theorem server_stays_consistent:
  assumes "server_start e x" and "(server_step e)\<^sup>*\<^sup>* x (lv, s)"
  shows "(\<forall>p c. player_conns s p = Some c \<longrightarrow> c \<in> set lv \<and> fd_to_player s (cfd c) = Some p) \<and>
    (\<forall>p p' c. player_conns s p = Some c \<and> player_conns s p' = Some c \<longrightarrow> p = p') \<and>
    (\<forall>n c. active_conns s n = Some c \<longrightarrow> c \<in> set lv \<and> cfd c = n) \<and> distinct (map cfd lv) \<and>
    directory_ok (svc_rooms (gs_rooms s)) \<and> distinct (map qe_player (mq_entries (gs_queue s))) \<and>
    prefix (completed (gs_worker s)) (posted (gs_worker s))"
proof -
  have "server_ok (lv, s)" using assms by (rule server.reachable_inv)
  then have ok: "conns_ok lv s" "directory_ok (svc_rooms (gs_rooms s))" "prefix (completed (gs_worker s)) (posted (gs_worker s))"
    "distinct (map qe_player (mq_entries (gs_queue s)))"
    by (auto simp: server_ok_def rooms_fit_def rooms_good_def tasks_fit_def db_inv_def queue_fit_def)
  have "p = p'" if "player_conns s p = Some c" "player_conns s p' = Some c" for p p' c
    using conns_okD(3) [OF ok(1) that(1)] conns_okD(3) [OF ok(1) that(2)] by simp
  then show ?thesis using ok by (auto simp: conns_ok_def)
qed

theorem server_stays_consistent_witness:
  "\<exists>s :: demo_db game_service. player_conns s ''ann_1'' = Some \<lparr>cid = 1, cfd = 5\<rparr> \<and> fd_to_player s 5 = Some ''ann_1'' \<and>
     directory_ok (svc_rooms (gs_rooms s)) \<and> prefix (completed (gs_worker s)) (posted (gs_worker s))"
proof -
  obtain s where s: "(server_step demo_env)\<^sup>*\<^sup>* ([], demo_server) ([\<lparr>cid = 1, cfd = 5\<rparr>], s)"
    "player_conns s ''ann_1'' = Some \<lparr>cid = 1, cfd = 5\<rparr>" by (rule demo_reachable)
  have "player_conns s ''ann_1'' = Some \<lparr>cid = 1, cfd = 5\<rparr> \<and> fd_to_player s (cfd \<lparr>cid = 1, cfd = 5\<rparr>) = Some ''ann_1'' \<and>
     directory_ok (svc_rooms (gs_rooms s)) \<and> prefix (completed (gs_worker s)) (posted (gs_worker s))"
    using server_stays_consistent [OF demo_start s(1)] s(2) by blast
  then show ?thesis by auto
qed



text \<open>
  A player who logs in on two connections and closes the first leaves that descriptor logged in: the
  server forgets the second, live connection instead. When the player has logged in again on the second
  one, whoever is given the first descriptor moves the player without a login.
\<close>

lemma duplicate_login_leaves_session:
  assumes "fd_to_player s (cfd c1) = Some p" and "player_conns s p = Some c2" and "cfd c2 \<noteq> cfd c1"
    and "cfd c3 = cfd c1" and "method_name f = ''Move''" and "parse_move (env_codec e) (body f) = Some req"
  shows "let s1 = OnPlayerDisconnected e t1 (cfd c1) s;
             s2 = LoginSucceeded e t2 rid p st c2 (cfd c2) s1
    in fd_to_player s1 (cfd c2) = None \<and> player_conns s1 p = None \<and> HasPlayerInWorld p (gs_world s2) \<and>
       gs_world (OnServerFrame e t3 f c3 s2) =
         fst (snd (TryMove p (mr_pos req) (mr_yaw req) (NowMs t3) (mr_appearance req) (gs_world s2)))"
proof -
  let ?s1 = "OnPlayerDisconnected e t1 (cfd c1) s"
  let ?s2 = "LoginSucceeded e t2 rid p st c2 (cfd c2) ?s1"
  have t: "fd_to_player ?s1 = (fd_to_player s)(cfd c2 := None)" "player_conns ?s1 p = None"
    using disconnect_fields(2) [of e t1 "cfd c1" s] assms(1,2) by (simp_all add: session_tables_def UnregisterPlayerConn_def)
  have d: "drop_old_player cd (cfd c2) p ?s1 = ?s1" for cd by (simp add: drop_old_player_def t)
  have "fd_to_player ?s2 = (fd_to_player ?s1)(cfd c2 \<mapsto> p)"
    using LoginSucceeded_keep(3) [of e t2 rid p st c2 "cfd c2" ?s1] by (simp add: session_tables_def d RegisterPlayerConn_def)
  then have l: "fd_to_player ?s2 (cfd c3) = Some p" using assms(1,3,4) by (simp add: t)
  have "gs_world ?s2 = fst (EnterWithState p p (NowMs t2) (ps_pos st) (ps_yaw st) (ps_wood st) (ps_stone st)
      (ps_dirt st) (ps_copper st) (ps_tool st) (gs_world ?s1))"
    by (simp add: LoginSucceeded_def Let_def d quiet_defs RegisterPlayerConn_def)
  then have "HasPlayerInWorld p (gs_world ?s2)" by (simp add: EnterWithState_in)
  moreover have "gs_world (OnServerFrame e t3 f c3 ?s2) =
      fst (snd (TryMove p (mr_pos req) (mr_yaw req) (NowMs t3) (mr_appearance req) (gs_world ?s2)))"
    using l assms(5,6) by (simp add: OnServerFrame_def HandleMove_def Let_def quiet_defs split: prod.split)
  ultimately show ?thesis using t by (simp add: Let_def)
qed

lemma duplicate_login_leaves_session_witness:
  "let c1 = \<lparr>cid = 1, cfd = 5\<rparr>; c2 = \<lparr>cid = 2, cfd = 6\<rparr>;
       s = RegisterPlayerConn ''ann_1'' c2 (RegisterPlayerConn ''ann_1'' c1 demo_server);
       s1 = OnPlayerDisconnected demo_env demo_clock 5 s;
       s2 = LoginSucceeded demo_env demo_clock 9 ''ann_1'' (default_state ''ann_1'') c2 6 s1
   in HasPlayerInWorld ''ann_1'' (gs_world s2) \<and>
      gs_world (OnServerFrame demo_env demo_clock (demo_frame ''Move'') \<lparr>cid = 3, cfd = 5\<rparr> s2) =
        fst (snd (TryMove ''ann_1'' zero_vec (FNum 0) 0 0 (gs_world s2)))"
  using duplicate_login_leaves_session
    [of "RegisterPlayerConn ''ann_1'' \<lparr>cid = 2, cfd = 6\<rparr> (RegisterPlayerConn ''ann_1'' \<lparr>cid = 1, cfd = 5\<rparr> demo_server)"
      "\<lparr>cid = 1, cfd = 5\<rparr>" "''ann_1''" "\<lparr>cid = 2, cfd = 6\<rparr>" "\<lparr>cid = 3, cfd = 5\<rparr>" "demo_frame ''Move''" demo_env
      "\<lparr>mr_pos = zero_vec, mr_yaw = FNum 0, mr_appearance = 0\<rparr>" demo_clock demo_clock 9 "default_state ''ann_1''" demo_clock]
  by (simp add: RegisterPlayerConn_def demo_frame_def demo_env_def demo_game_codec_def Let_def NowMs_def demo_clock_def)

text \<open>
  C38. The answer to a login finds its connection by the descriptor. A client that disconnects before the
  database has answered leaves its login to the next client on the same descriptor: that client,
  which only asked to move, is logged in as the first one's player and gets the response.
\<close>

theorem late_login_goes_to_new_client:
  assumes "method_name f = ''Login''" and "parse_login (env_codec e) (body f) = Some cr"
    and "VerifyCredentials (env_mongo e) (env_crypt e) (accounts_up s) (cq_username cr) (cq_password cr) (gs_db s) = account_ok p"
    and "fd_to_player s (cfd c1) = None" and "cfd c2 = cfd c1" and "method_name g = ''Move''"
    and "loop_calls s = []"
  shows "let s1 = OnServerFrame e t1 f c1 s;
             s2 = OnPlayerDisconnected e t2 (cfd c1) s1;
             s3 = OnServerFrame e t3 g c2 s2;
             s4 = RunDbTask e ms (LoginTask (request_id f) (cfd c1) (cq_username cr) (cq_password cr)) s3;
             s5 = RunLoopCalls e t4 s4
    in gs_worker s1 = DbPost (LoginTask (request_id f) (cfd c1) (cq_username cr) (cq_password cr)) (gs_worker s) \<and>
       player_conns s5 p = Some c2 \<and> fd_to_player s5 (cfd c2) = Some p \<and> HasPlayerInWorld p (gs_world s5) \<and>
       (c2, Encode (request_id f) Response ''Login'' (ser_login (env_codec e) AccountOk (Some p))) \<in> set (gs_out s5)"
proof -
  define s1 where "s1 = OnServerFrame e t1 f c1 s"
  define s2 where "s2 = OnPlayerDisconnected e t2 (cfd c1) s1"
  define s3 where "s3 = OnServerFrame e t3 g c2 s2"
  define s4 where "s4 = RunDbTask e ms (LoginTask (request_id f) (cfd c1) (cq_username cr) (cq_password cr)) s3"
  have s1: "fd_to_player s1 = fd_to_player s" "loop_calls s1 = []" "gs_db s1 = gs_db s" "accounts_up s1 = accounts_up s"
    "gs_worker s1 = DbPost (LoginTask (request_id f) (cfd c1) (cq_username cr) (cq_password cr)) (gs_worker s)"
    using assms(1,2,7) by (simp_all add: s1_def OnServerFrame_def HandleLogin_def Let_def post_task_def)
  have s2: "fd_to_player s2 (cfd c1) = None" "loop_calls s2 = []" "gs_db s2 = gs_db s" "accounts_up s2 = accounts_up s"
    using s1 assms(4) by (simp_all add: s2_def OnPlayerDisconnected_def Let_def)
  have s3: "fd_to_player s3 (cfd c1) = None" "loop_calls s3 = []" "gs_db s3 = gs_db s" "accounts_up s3 = accounts_up s"
    "active_conns s3 (cfd c1) = Some c2"
    using s2 assms(5,6) by (simp_all add: s3_def OnServerFrame_def HandleMove_def Let_def quiet_defs)
  obtain st where s4: "s4 = s3\<lparr>loop_calls := [LoginDone (request_id f) (cfd c1) (account_ok p) st]\<rparr>"
    using s3(2-4) assms(3) by (simp add: s4_def RunDbTask_def Let_def)
  have d: "drop_old_player cd (cfd c1) p (s3\<lparr>loop_calls := []\<rparr>) = s3\<lparr>loop_calls := []\<rparr>" for cd
    by (simp add: drop_old_player_def s3)
  have s5: "RunLoopCalls e t4 s4 = LoginSucceeded e t4 (request_id f) p st c2 (cfd c1) (s3\<lparr>loop_calls := []\<rparr>)"
    by (simp add: RunLoopCalls_def s4 loop_call_defs Let_def s3 account_ok_def)
  have "player_conns (RunLoopCalls e t4 s4) p = Some c2" "fd_to_player (RunLoopCalls e t4 s4) (cfd c2) = Some p"
    using LoginSucceeded_keep(3) [of e t4 "request_id f" p st c2 "cfd c1" "s3\<lparr>loop_calls := []\<rparr>"]
    by (simp_all add: s5 session_tables_def d RegisterPlayerConn_def)
  moreover have "HasPlayerInWorld p (gs_world (RunLoopCalls e t4 s4))"
    "(c2, Encode (request_id f) Response ''Login'' (ser_login (env_codec e) AccountOk (Some p))) \<in> set (gs_out (RunLoopCalls e t4 s4))"
    by (simp_all add: s5 LoginSucceeded_def Let_def send_frame_def EnterWithState_in)
  ultimately show ?thesis
    by (simp add: Let_def s1(5) flip: s1_def s2_def s3_def s4_def)
qed

theorem late_login_goes_to_new_client_witness:
  "let c1 = \<lparr>cid = 1, cfd = 5\<rparr>; c2 = \<lparr>cid = 2, cfd = 5\<rparr>; e = demo_env; t = demo_clock;
       s1 = OnServerFrame e t (demo_frame ''Login'') c1 demo_server;
       s3 = OnServerFrame e t (demo_frame ''Move'') c2 (OnPlayerDisconnected e t 5 s1);
       s5 = RunLoopCalls e t (RunDbTask e 0 (LoginTask 1 5 ''ann_1'' ''secret'') s3)
   in player_conns s5 ''ann_1'' = Some c2 \<and> HasPlayerInWorld ''ann_1'' (gs_world s5)"
proof -
  let ?cr = "\<lparr>cq_username = ''ann_1'', cq_password = ''secret''\<rparr>"
  have "parse_login (env_codec demo_env) (body (demo_frame ''Login'')) = Some ?cr"
    by (simp add: demo_env_def demo_game_codec_def)
  moreover have "VerifyCredentials (env_mongo demo_env) (env_crypt demo_env) (accounts_up demo_server) (cq_username ?cr)
      (cq_password ?cr) (gs_db demo_server) = account_ok ''ann_1''" using demo_login by simp
  ultimately show ?thesis
    using late_login_goes_to_new_client [of "demo_frame ''Login''" demo_env ?cr demo_server "''ann_1''" "\<lparr>cid = 1, cfd = 5\<rparr>"
        "\<lparr>cid = 2, cfd = 5\<rparr>" "demo_frame ''Move''" demo_clock demo_clock demo_clock 0 demo_clock]
    by (simp add: demo_frame_def demo_server_fields Let_def)
qed

text \<open>
  C39. The server never runs a timer: its loop waits for sockets only, and no handler ticks the rooms or
  the match timers. Whatever happens and however long it takes, a started game stays at frame 0 and
  no frame of it is ever sent.
\<close>

theorem server_never_ticks:
  assumes "server_start e x" and "(server_step e)\<^sup>*\<^sup>* x (lv, s)"
    and "GetRoom rid (svc_rooms (gs_rooms s)) = Some r" and "frame_sync r = Some fs"
  shows "frame_no fs = 0 \<and> frames_sent fs = []"
proof -
  have "rooms_all silent (svc_rooms (gs_rooms s))"
    using silent_server.reachable_inv [OF assms(1,2)] by (simp add: rooms_fit_def)
  then have "silent r" using assms(3) by (rule rooms_all_get)
  then show ?thesis using assms(4) by (simp add: silent_def)
qed

theorem server_never_ticks_witness:
  "\<exists>s r fs. (server_step demo_env)\<^sup>*\<^sup>* ([], demo_server) ([\<lparr>cid = 1, cfd = 5\<rparr>], s) \<and>
     GetRoom (room_name 1) (svc_rooms (gs_rooms s)) = Some r \<and> state r = ROOM_STATE_PLAYING \<and>
     frame_sync r = Some fs \<and> running_flag fs \<and> frame_no fs = 0 \<and> frames_sent fs = []"
proof -
  let ?c = "\<lparr>cid = 1, cfd = 5\<rparr>" and ?f = "\<lambda>s m. OnServerFrame demo_env demo_clock (demo_frame m) \<lparr>cid = 1, cfd = 5\<rparr> s"
  define s1 where "s1 = ?f demo_server ''CreateRoom''"
  define s2 where "s2 = ?f s1 ''StartGame''"
  define r1 where "r1 = SetState ROOM_STATE_WAITING ((new_room (room_name 1) ''ann'' 2)\<lparr>rtimer :=
    snd (Schedule 0 kDefaultRoomTimeoutMs RoomTimeout new_timer_manager)\<rparr>)"
  have q: "mq_entries (gs_queue demo_server) = []" "mq_entries (gs_queue s1) = []"
    by (simp_all add: demo_server_def new_server s1_def demo_frame_def room_method_keep)
  have m1: "svc_rooms (gs_rooms s1) = \<lparr>rooms = [(room_name 1, r1)], player_room = [''ann'' \<mapsto> room_name 1], room_id_counter = 2\<rparr>"
    by (simp add: s1_def room_method_keep demo_frame_def room_dispatch_simps demo_env_def demo_game_codec_def demo_codec_def
        demo_server_def new_server new_service_def SvcCreateRoom_def CreateRoom_def GenerateRoomId_def empty_manager_def Let_def
        svc_rooms_simps update_room_def kDefaultRoomTimeoutMs_def new_room_def r1_def NowMs_def demo_clock_def)
  have "svc_rooms (gs_rooms s2) = update_room (room_name 1) (begin_frames 0) (update_room (room_name 1) (SetState ROOM_STATE_PLAYING) (svc_rooms (gs_rooms s1)))"
    by (simp add: s2_def room_method_keep demo_frame_def room_dispatch_simps demo_env_def demo_game_codec_def demo_codec_def
        svc_start_rooms StartGame_def GetRoom_def m1 r1_def SetState_def new_room_def NowMs_def demo_clock_def)
  then have g: "GetRoom (room_name 1) (svc_rooms (gs_rooms s2)) = Some (begin_frames 0 (SetState ROOM_STATE_PLAYING r1))"
    by (simp add: GetRoom_update) (simp add: m1 GetRoom_def)
  have st: "state (begin_frames 0 (SetState ROOM_STATE_PLAYING r1)) = ROOM_STATE_PLAYING"
    and "\<exists>fs. frame_sync (begin_frames 0 (SetState ROOM_STATE_PLAYING r1)) = Some fs \<and> running_flag fs"
    by (simp_all add: r1_def new_room_def begin_frames_def Let_def SetState_def HasFrameSync_def InitFrameSync_def
        new_frame_sync_def SetFrameCallback_def StartFrameSync_def Start_def)
  then obtain fs where fs: "frame_sync (begin_frames 0 (SetState ROOM_STATE_PLAYING r1)) = Some fs" "running_flag fs" by blast
  have left: "ids_left (length (mq_entries (gs_queue demo_server)) + 2) (svc_rooms (gs_rooms demo_server))"
    "ids_left (length (mq_entries (gs_queue s1)) + 2) (svc_rooms (gs_rooms s1))"
    by (simp_all add: q m1 ids_left_def) (simp add: demo_server_def new_server new_service_def empty_manager_def)
  have "server_step demo_env ([], demo_server) ([?c], demo_server)" by (rule sv_accept) simp
  moreover have "server_step demo_env ([?c], demo_server) ([?c], s1)" "server_step demo_env ([?c], s1) ([?c], s2)"
    using left unfolding s1_def s2_def by (auto intro!: sv_frame)
  ultimately have r: "(server_step demo_env)\<^sup>*\<^sup>* ([], demo_server) ([?c], s2)"
    by (meson converse_rtranclp_into_rtranclp rtranclp.rtrancl_refl)
  show ?thesis using server_never_ticks [OF demo_start r g fs(1)] r g st fs by blast
qed

text \<open>
  C40. A match opens a waiting room with both players, tells each who is connected about the other and
  arms the timeout of 30 s. If the second player is in another room already, the first gets a room of
  one and is told of a match all the same; if the first player is, nothing happens and nobody is told,
  though both have left the queue.
\<close>

theorem match_outcome:
  assumes "server_start e x" and "(server_step e)\<^sup>*\<^sup>* x (lv, s)" and "p1 \<noteq> p2"
  shows "let m = svc_rooms (gs_rooms s); rid = match_room m; free = (player_room m p2 = None);
             s' = OnMatchFound e t (p1, sc1, p2, sc2) s
    in if player_room m p1 \<noteq> None then svc_rooms (gs_rooms s') = m \<and> gs_out s' = gs_out s \<and> gs_timer s' = gs_timer s
       else (\<exists>r. GetRoom rid (svc_rooms (gs_rooms s')) = Some r \<and> state r = ROOM_STATE_WAITING \<and> owner_id r = p1 \<and>
              players r = p1 # (if free then [p2] else [])) \<and>
            gs_out s' = gs_out s @ match_told (env_codec e) rid s p1 p2 @
              (if free then match_told (env_codec e) rid s p2 p1 else []) \<and>
            \<lparr>t_id = next_id (gs_timer s), deadline = NowMs t + 30000, callback = Some (MatchTimeout rid p1 sc1 p2 sc2),
               cancelled = False\<rparr> \<in> set (theap (gs_timer s'))"
proof -
  have "server_ok (lv, s)" using assms(1,2) by (rule server.reachable_inv)
  then have ok: "directory_ok (svc_rooms (gs_rooms s))" by (simp add: server_ok_def rooms_fit_def rooms_good_def)
  have "GetRoom (match_room (svc_rooms (gs_rooms s))) (svc_rooms (gs_rooms s)) = None"
    using fresh_room [OF ok] by (simp add: match_room_def)
  then have fresh: "player_room (svc_rooms (gs_rooms s)) p2 \<noteq> Some (match_room (svc_rooms (gs_rooms s)))"
    using player_in_room [OF ok, of p2] by (metis option.distinct(1))
  show ?thesis
  proof (cases "player_room (svc_rooms (gs_rooms s)) p1 = None")
    case True
    then show ?thesis using match_effect [OF True assms(3) fresh] by (simp add: Let_def)
  qed (simp add: Let_def OnMatchFound_def CreateRoom_def set_rooms_def)
qed

theorem match_outcome_witness:
  "let s' = OnMatchFound demo_env demo_clock (''ann'', FNum 1000, ''bob'', FNum 1010) demo_server
   in \<exists>r. GetRoom (room_name 1) (svc_rooms (gs_rooms s')) = Some r \<and> players r = [''ann'', ''bob'']"
proof -
  have "match_room (svc_rooms (gs_rooms demo_server)) = room_name 1" "player_room (svc_rooms (gs_rooms demo_server)) = Map.empty"
    by (simp_all add: match_room_def demo_server_def new_server new_service_def empty_manager_def)
  then show ?thesis
    using match_outcome [OF demo_start rtranclp.rtrancl_refl, of "''ann''" "''bob''" demo_clock "FNum 1000" "FNum 1010"]
    by (auto simp: Let_def)
qed

text \<open>
  C37. A login with the right credentials, when the database thread has nothing else to do, is answered
  after two steps of that thread and one wake-up of the loop: the connection is then the player's, and
  the player is in the world exactly as last saved: position, direction, all four materials and the
  tool, or the starting values when nothing was saved. A player new to the world is in the lobby, one
  who was still there stays in that room with that appearance; the movement allowance starts again.
\<close>

theorem login_completes:
  assumes "method_name f = ''Login''" and "parse_login (env_codec e) (body f) = Some cr"
    and "VerifyCredentials (env_mongo e) (env_crypt e) (accounts_up s) (cq_username cr) (cq_password cr) (gs_db s) = account_ok p"
    and "thr (gs_worker s) = Waiting" and "q (gs_worker s) = []" and "\<not> db_stop (gs_worker s)" and "loop_calls s = []"
  shows "\<exists>s2 s3. DbThreadStep e ms (OnServerFrame e t1 f c s) = Some s2 \<and> DbThreadStep e ms s2 = Some s3 \<and>
    (let s4 = RunLoopCalls e t2 s3;
         st = login_state p (PlayerLoad (env_mongo e) (players_up s) p (gs_db s));
         before = (case get_player p (gs_world s) of None \<Rightarrow> new_player | Some pl \<Rightarrow> pl)
     in player_conns s4 p = Some c \<and> fd_to_player s4 (cfd c) = Some p \<and>
        get_player p (gs_world s4) = Some (logged_in_as p (NowMs t2) st before) \<and>
        (c, Encode (request_id f) Response ''Login'' (ser_login (env_codec e) AccountOk (Some p))) \<in> set (gs_out s4))"
  using assms by (rule login_run)

text \<open>The demonstration database with a saved player.\<close>

definition demo_saved :: demo_db where
  "demo_saved coll k v =
     (if coll = ''players'' \<and> k = ''player_id'' \<and> v = ''ann_1''
      then Some (player_doc 0 \<lparr>ps_id = ''ann_1'', ps_pos = \<lparr>vx = FNum 8, vy = FNum 0, vz = FNum (- 3)\<rparr>, ps_yaw = FNum 90,
        ps_wood = 1, ps_stone = 4, ps_dirt = 7, ps_copper = 2, ps_tool = 1, ps_found = True\<rparr>)
      else demo_accounts coll k v)"

lemma small_float: "\<bar>n\<bar> \<le> 100 \<Longrightarrow> fp_of_real Single (of_int n) = FNum (of_int n)"
  by (rule fp_of_real_int) simp

theorem login_completes_witness:
  "let s = NewGameService demo_env ''mongodb://127.0.0.1:27017'' ''tinrpc'' demo_clock demo_saved
   in \<exists>s2 s3 pl. DbThreadStep demo_env 0 (OnServerFrame demo_env demo_clock (demo_frame ''Login'') \<lparr>cid = 1, cfd = 5\<rparr> s) = Some s2 \<and>
     DbThreadStep demo_env 0 s2 = Some s3 \<and> get_player ''ann_1'' (gs_world (RunLoopCalls demo_env demo_clock s3)) = Some pl \<and>
     wp_pos pl = \<lparr>vx = FNum 8, vy = FNum 0, vz = FNum (- 3)\<rparr> \<and> wp_yaw pl = FNum 90 \<and> wp_wood pl = 1 \<and> wp_stone pl = 4 \<and>
     wp_dirt pl = 7 \<and> wp_copper pl = 2 \<and> wp_tool pl = 1 \<and> wp_room pl = ''lobby''"
proof -
  let ?cr = "\<lparr>cq_username = ''ann_1'', cq_password = ''secret''\<rparr>"
  define s where "s = NewGameService demo_env ''mongodb://127.0.0.1:27017'' ''tinrpc'' demo_clock demo_saved"
  have s: "accounts_up s" "players_up s" "gs_db s ''accounts'' = demo_saved ''accounts''" "gs_db s ''players'' = demo_saved ''players''"
    "gs_worker s = DbStart new_db_worker" "loop_calls s = []" "get_player ''ann_1'' (gs_world s) = None"
    by (simp_all add: s_def NewGameService_def demo_env_def demo_mongo_def AccountStoreInit_def PlayerStoreInit_def
        SceneStoreInit_def StoreInit_def LoadOrSeedScene_def SceneLoad_def empty_scene_def SceneUpsert_def demo_saved_def
        demo_accounts_def SeedDefaultScene_def new_world_def get_player_def Let_def)
  have v: "VerifyCredentials (env_mongo demo_env) (env_crypt demo_env) (accounts_up s) (cq_username ?cr) (cq_password ?cr) (gs_db s) =
      account_ok ''ann_1''"
  proof -
    have u: "ValidUsername ''ann_1''" by (simp add: ValidUsername_def isalnum_def Let_def)
    have "find_one (env_mongo demo_env) ''accounts'' ''username'' ''ann_1'' (gs_db s) = Some (account_doc 0 ''ann_1'' ''$secret'')"
      by (simp add: demo_env_def demo_mongo_def s demo_saved_def demo_accounts_def)
    from VerifyCredentials_account [OF this found_as_refl u] show ?thesis
      by (simp add: s demo_env_def demo_crypt_def c_str_def ValidPassword_def)
  qed
  have "parse_login (env_codec demo_env) (body (demo_frame ''Login'')) = Some ?cr"
    by (simp add: demo_env_def demo_game_codec_def)
  moreover have "thr (gs_worker s) = Waiting" "q (gs_worker s) = []" "\<not> db_stop (gs_worker s)"
    by (simp_all add: s DbStart_def new_db_worker_def)
  moreover have "login_state ''ann_1'' (PlayerLoad (env_mongo demo_env) (players_up s) ''ann_1'' (gs_db s)) =
      \<lparr>ps_id = ''ann_1'', ps_pos = \<lparr>vx = FNum 8, vy = FNum 0, vz = FNum (- 3)\<rparr>, ps_yaw = FNum 90,
        ps_wood = 1, ps_stone = 4, ps_dirt = 7, ps_copper = 2, ps_tool = 1, ps_found = True\<rparr>"
    using small_float [of 8] small_float [of 0] small_float [of "- 3"] small_float [of 90]
    by (simp add: PlayerLoad_def login_state_def s demo_env_def demo_mongo_def demo_saved_def c_str_def player_of_doc_def
        player_doc_def get_double_def get_int32_def)
  ultimately show ?thesis
    using login_completes [of "demo_frame ''Login''" demo_env ?cr s "''ann_1''" 0 demo_clock "\<lparr>cid = 1, cfd = 5\<rparr>" demo_clock] v
    by (auto simp: demo_frame_def s Let_def logged_in_as_def new_player_def simp flip: s_def)
qed

end
